(* ===== verification/Prelude.thy ===== *)
theory Prelude
  imports Main "HOL-Library.AList" "HOL-Library.Char_ord" "HOL-Library.List_Lexorder"
begin

text \<open>
  What the components share: the operations of Rust's \<open>str\<close> and \<open>HashMap\<close> that the
  source calls, as total functions on lists, with the facts the component proofs use.

  A Rust \<open>String\<close> is modelled by the list of its UTF-8 bytes (HOL's \<open>string\<close>), except
  where the source counts Unicode scalar values (the theory \<open>Provenance\<close>). A \<open>HashMap\<close>
  is an association list without duplicate keys: the order of the entries stands for the
  iteration order, which Rust leaves unspecified.
  A fallible function returns a sum, \<open>Inl\<close> for the error.
\<close>

named_theorems rust_str \<open>characterisations of the string operations\<close>
named_theorems hmap_simps \<open>facts about association-list hash maps\<close>

section \<open>Strings\<close>

fun strip_prefix :: "'a list \<Rightarrow> 'a list \<Rightarrow> 'a list option" where
  "strip_prefix [] s = Some s"
| "strip_prefix (x # p) [] = None"
| "strip_prefix (x # p) (y # s) = (if x = y then strip_prefix p s else None)"

lemma strip_prefix_Some [rust_str]: "strip_prefix p s = Some r \<longleftrightarrow> s = p @ r"
  by (induction p s rule: strip_prefix.induct) auto

lemma strip_prefix_append [simp]: "strip_prefix p (p @ r) = Some r"
  by (simp add: strip_prefix_Some)

lemma strip_prefix_None [rust_str]: "strip_prefix p s = None \<longleftrightarrow> (\<forall>r. s \<noteq> p @ r)"
  by (metis not_Some_eq strip_prefix_Some)

lemma strip_prefix_length: "strip_prefix p s = Some r \<Longrightarrow> length s = length p + length r"
  by (simp add: strip_prefix_Some)

definition starts_with :: "'a list \<Rightarrow> 'a list \<Rightarrow> bool" where
  "starts_with s p = (strip_prefix p s \<noteq> None)"

lemma starts_with_iff [rust_str]: "starts_with s p \<longleftrightarrow> (\<exists>r. s = p @ r)"
  by (auto simp: starts_with_def strip_prefix_Some)

lemma starts_with_append [simp]: "starts_with (p @ r) p"
  by (simp add: starts_with_def)

lemma starts_with_take: "starts_with s p \<longleftrightarrow> take (length p) s = p"
  by (metis append_eq_conv_conj append_take_drop_id starts_with_iff)

lemma starts_with_refl [simp]: "starts_with s s"
  using starts_with_append [of s "[]"] by simp

lemma starts_with_length: "starts_with s p \<Longrightarrow> length p \<le> length s"
  by (auto simp: starts_with_iff)

definition strip_suffix :: "'a list \<Rightarrow> 'a list \<Rightarrow> 'a list option" where
  "strip_suffix p s = map_option rev (strip_prefix (rev p) (rev s))"

lemma strip_suffix_Some [rust_str]: "strip_suffix p s = Some r \<longleftrightarrow> s = r @ p"
  by (auto simp: strip_suffix_def strip_prefix_Some) (metis rev_append rev_rev_ident)

definition ends_with :: "'a list \<Rightarrow> 'a list \<Rightarrow> bool" where
  "ends_with s p = (strip_suffix p s \<noteq> None)"

lemma ends_with_iff [rust_str]: "ends_with s p \<longleftrightarrow> (\<exists>r. s = r @ p)"
  by (auto simp: ends_with_def strip_suffix_Some)

fun split_once :: "'a \<Rightarrow> 'a list \<Rightarrow> ('a list \<times> 'a list) option" where
  "split_once c [] = None"
| "split_once c (x # s) = (if x = c then Some ([], s)
     else map_option (\<lambda>(a, b). (x # a, b)) (split_once c s))"

lemma split_once_Some [rust_str]:
  "split_once c s = Some (a, b) \<longleftrightarrow> s = a @ c # b \<and> c \<notin> set a"
proof (induction s arbitrary: a)
  case Nil
  then show ?case by simp
next
  case (Cons x s)
  then show ?case by (cases a) auto
qed

lemma split_once_None [rust_str]: "split_once c s = None \<longleftrightarrow> c \<notin> set s"
  by (induction s) auto

text \<open>\<open>s.find(p)\<close>: the byte offset of the first occurrence.\<close>

fun find_sub :: "'a list \<Rightarrow> 'a list \<Rightarrow> nat option" where
  "find_sub p [] = (if p = [] then Some 0 else None)"
| "find_sub p (x # s) =
     (if starts_with (x # s) p then Some 0 else map_option Suc (find_sub p s))"

lemma find_sub_Some:
  "find_sub p s = Some i \<Longrightarrow> i + length p \<le> length s \<and> starts_with (drop i s) p"
proof (induction s arbitrary: i)
  case Nil
  then show ?case by (auto split: if_splits)
next
  case (Cons x s)
  then show ?case
    by (auto split: if_splits dest: starts_with_length)
qed

lemma find_sub_least: "find_sub p s = Some i \<Longrightarrow> j < i \<Longrightarrow> \<not> starts_with (drop j s) p"
proof (induction s arbitrary: i j)
  case Nil
  then show ?case by (auto split: if_splits)
next
  case (Cons x s)
  then show ?case by (cases j) (auto split: if_splits)
qed

lemma find_sub_None: "find_sub p s = None \<Longrightarrow> \<not> starts_with (drop j s) p"
proof (induction s arbitrary: j)
  case Nil
  then show ?case by (auto simp: starts_with_iff split: if_splits)
next
  case (Cons x s)
  then show ?case by (cases j) (auto split: if_splits)
qed

definition contains_sub :: "'a list \<Rightarrow> 'a list \<Rightarrow> bool" where
  "contains_sub s p = (find_sub p s \<noteq> None)"

lemma contains_sub_iff [rust_str]: "contains_sub s p \<longleftrightarrow> (\<exists>a b. s = a @ p @ b)"
proof
  assume "contains_sub s p"
  then obtain i where "find_sub p s = Some i" by (auto simp: contains_sub_def)
  then have "starts_with (drop i s) p" by (simp add: find_sub_Some)
  then obtain b where "drop i s = p @ b" by (auto simp: starts_with_iff)
  then show "\<exists>a b. s = a @ p @ b" by (metis append_take_drop_id)
next
  assume "\<exists>a b. s = a @ p @ b"
  then obtain a b where "s = a @ p @ b" by blast
  then have "starts_with (drop (length a) s) p" by simp
  then show "contains_sub s p" using find_sub_None by (fastforce simp: contains_sub_def)
qed

text \<open>\<open>xs.join(sep)\<close>.\<close>

fun join_with :: "'a list \<Rightarrow> 'a list list \<Rightarrow> 'a list" where
  "join_with sep [] = []"
| "join_with sep [x] = x"
| "join_with sep (x # y # xs) = x @ sep @ join_with sep (y # xs)"

text \<open>
  \<open>s.split(p)\<close> and \<open>s.replace(p, r)\<close> for a non-empty pattern \<open>p\<close>: the occurrences are
  taken left to right and do not overlap. The source calls neither with an empty pattern;
  the model returns the input unsplit and unchanged there.
\<close>

function split_sub :: "'a list \<Rightarrow> 'a list \<Rightarrow> 'a list list" where
  "split_sub p s = (if p = [] then [s] else
     (case find_sub p s of
        None \<Rightarrow> [s]
      | Some i \<Rightarrow> take i s # split_sub p (drop (i + length p) s)))"
  by pat_completeness auto
termination
proof (relation "measure (\<lambda>(p, s). length s)", goal_cases)
  case 1
  then show ?case by simp
next
  case (2 p s i)
  then have "i + length p \<le> length s" using find_sub_Some by blast
  then show ?case using 2 by (cases p) auto
qed

declare split_sub.simps [simp del]

definition replace_sub :: "'a list \<Rightarrow> 'a list \<Rightarrow> 'a list \<Rightarrow> 'a list" where
  "replace_sub p r s = join_with r (split_sub p s)"

lemma split_sub_ne [simp]: "split_sub p s \<noteq> []"
  by (subst split_sub.simps) (auto split: option.splits)

lemma join_with_Cons: "xs \<noteq> [] \<Longrightarrow> join_with sep (x # xs) = x @ sep @ join_with sep xs"
  by (cases xs) auto

lemma split_sub_absent: "\<not> contains_sub s p \<Longrightarrow> split_sub p s = [s]"
  by (subst split_sub.simps) (simp add: contains_sub_def)

lemma join_split_sub: "join_with p (split_sub p s) = s"
proof (induction p s rule: split_sub.induct)
  case (1 p s)
  show ?case
  proof (cases "p \<noteq> [] \<and> find_sub p s \<noteq> None")
    case True
    then obtain i where i: "find_sub p s = Some i" by blast
    then have "starts_with (drop i s) p" by (simp add: find_sub_Some)
    then have eq: "drop i s = p @ drop (i + length p) s"
      by (metis add.commute append_eq_conv_conj drop_drop starts_with_iff)
    have "join_with p (split_sub p s) = take i s @ p @ drop (i + length p) s"
      using True i 1 by (subst split_sub.simps) (simp add: join_with_Cons)
    also have "\<dots> = s" by (metis append_take_drop_id eq)
    finally show ?thesis .
  next
    case False
    then show ?thesis by (subst split_sub.simps) auto
  qed
qed

lemma replace_sub_absent: "\<not> contains_sub s p \<Longrightarrow> replace_sub p r s = s"
  by (simp add: replace_sub_def split_sub_absent)

section \<open>UTF-8 text\<close>

text \<open>
  \<open>str::trim\<close> removes characters with the \<open>White_Space\<close> property; these are their UTF-8
  encodings. On valid UTF-8 an encoding occurs at the start or end of a string only as a whole
  character.
\<close>

definition bytes :: "nat list \<Rightarrow> string" where
  "bytes ns = map char_of ns"

definition WHITE_SPACE :: "string list" where
  "WHITE_SPACE = map bytes ([[9], [10], [11], [12], [13], [32], [0xC2, 0x85], [0xC2, 0xA0],
     [0xE1, 0x9A, 0x80]] @ map (\<lambda>n. [0xE2, 0x80, n]) [0x80 ..< 0x8B]
     @ [[0xE2, 0x80, 0xA8], [0xE2, 0x80, 0xA9], [0xE2, 0x80, 0xAF], [0xE2, 0x81, 0x9F],
        [0xE3, 0x80, 0x80]])"

fun strip_any :: "'a list list \<Rightarrow> 'a list \<Rightarrow> 'a list option" where
  "strip_any [] s = None"
| "strip_any (w # ws) s = (if w = [] then strip_any ws s else
     (case strip_prefix w s of Some r \<Rightarrow> Some r | None \<Rightarrow> strip_any ws s))"

lemma strip_any_length: "strip_any ws s = Some r \<Longrightarrow> length r < length s"
  by (induction ws) (auto simp: strip_prefix_Some split: if_splits option.splits)

lemma strip_any_suffix: "strip_any ws s = Some r \<Longrightarrow> \<exists>w. s = w @ r"
  by (induction ws) (auto simp: strip_prefix_Some split: if_splits option.splits)

function trim_with :: "'a list list \<Rightarrow> 'a list \<Rightarrow> 'a list" where
  "trim_with ws s = (case strip_any ws s of None \<Rightarrow> s | Some r \<Rightarrow> trim_with ws r)"
  by pat_completeness auto
termination
  by (relation "measure (\<lambda>(ws, s). length s)") (auto dest: strip_any_length)

declare trim_with.simps [simp del]

definition trim_start :: "string \<Rightarrow> string" where
  "trim_start s = trim_with WHITE_SPACE s"

definition trim_end :: "string \<Rightarrow> string" where
  "trim_end s = rev (trim_with (map rev WHITE_SPACE) (rev s))"

definition trim :: "string \<Rightarrow> string" where
  "trim s = trim_end (trim_start s)"

lemma trim_with_suffix: "\<exists>w. s = w @ trim_with ws s"
proof (induction ws s rule: trim_with.induct)
  case (1 ws s)
  show ?case
  proof (cases "strip_any ws s")
    case None
    then show ?thesis by (subst trim_with.simps) simp
  next
    case (Some r)
    with 1 obtain w where "r = w @ trim_with ws r" by blast
    moreover obtain v where "s = v @ r" using strip_any_suffix [OF Some] by blast
    ultimately have "s = (v @ w) @ trim_with ws r" by simp
    with Some show ?thesis by (subst trim_with.simps) auto
  qed
qed

text \<open>Bytes that start a character, the length in characters, and the first \<open>n\<close> characters.\<close>

definition starts_char :: "char \<Rightarrow> bool" where
  "starts_char c \<longleftrightarrow> \<not> (0x80 \<le> (of_char c :: nat) \<and> (of_char c :: nat) < 0xC0)"

definition char_count :: "string \<Rightarrow> nat" where
  "char_count s = length (filter starts_char s)"

fun take_chars :: "nat \<Rightarrow> string \<Rightarrow> string" where
  "take_chars n [] = []"
| "take_chars n (c # s) =
     (if starts_char c then (case n of 0 \<Rightarrow> [] | Suc m \<Rightarrow> c # take_chars m s)
      else c # take_chars n s)"

lemma char_count_take: "char_count (take_chars n s) = min n (char_count s)"
  by (induction n s rule: take_chars.induct) (auto simp: char_count_def split: nat.splits)

text \<open>\<open>str::lines\<close>: the lines ended by a newline, without a final empty one; a trailing carriage
  return of a line is dropped.\<close>

fun split_lines :: "string \<Rightarrow> string \<Rightarrow> string list" where
  "split_lines cur [] = (if cur = [] then [] else [cur])"
| "split_lines cur (c # s) =
     (if c = CHR 0x0A
      then (case strip_suffix [CHR 0x0D] cur of Some l \<Rightarrow> l | None \<Rightarrow> cur) # split_lines [] s
      else split_lines (cur @ [c]) s)"

definition lines :: "string \<Rightarrow> string list" where
  "lines s = split_lines [] s"

text \<open>\<open>String::from_utf8\<close> accepts exactly the well-formed byte sequences.\<close>

definition continuation :: "char \<Rightarrow> bool" where
  "continuation c \<longleftrightarrow> 0x80 \<le> (of_char c :: nat) \<and> (of_char c :: nat) < 0xC0"

fun utf8_ok :: "string \<Rightarrow> bool" where
  "utf8_ok [] = True"
| "utf8_ok (a # s) = (let n = (of_char a :: nat) in
     if n < 0x80 then utf8_ok s
     else if 0xC2 \<le> n \<and> n < 0xE0 then
       (case s of b # t \<Rightarrow> continuation b \<and> utf8_ok t | [] \<Rightarrow> False)
     else if 0xE0 \<le> n \<and> n < 0xF0 then
       (case s of b # c # t \<Rightarrow> continuation b \<and> continuation c
            \<and> (n = 0xE0 \<longrightarrow> 0xA0 \<le> (of_char b :: nat)) \<and> (n = 0xED \<longrightarrow> (of_char b :: nat) < 0xA0)
            \<and> utf8_ok t
        | _ \<Rightarrow> False)
     else if 0xF0 \<le> n \<and> n < 0xF5 then
       (case s of b # c # d # t \<Rightarrow> continuation b \<and> continuation c \<and> continuation d
            \<and> (n = 0xF0 \<longrightarrow> 0x90 \<le> (of_char b :: nat)) \<and> (n = 0xF4 \<longrightarrow> (of_char b :: nat) < 0x90)
            \<and> utf8_ok t
        | _ \<Rightarrow> False)
     else False)"

section \<open>Hash maps\<close>

type_synonym ('k, 'v) hmap = "('k \<times> 'v) list"

abbreviation hm_get :: "('k, 'v) hmap \<Rightarrow> 'k \<Rightarrow> 'v option" where
  "hm_get m k \<equiv> map_of m k"

abbreviation hm_insert :: "'k \<Rightarrow> 'v \<Rightarrow> ('k, 'v) hmap \<Rightarrow> ('k, 'v) hmap" where
  "hm_insert k v m \<equiv> AList.update k v m"

abbreviation hm_remove :: "'k \<Rightarrow> ('k, 'v) hmap \<Rightarrow> ('k, 'v) hmap" where
  "hm_remove k m \<equiv> AList.delete k m"

definition hm_values :: "('k, 'v) hmap \<Rightarrow> 'v list" where
  "hm_values m = map snd m"

definition hm_keys :: "('k, 'v) hmap \<Rightarrow> 'k list" where
  "hm_keys m = map fst m"

definition hm_wf :: "('k, 'v) hmap \<Rightarrow> bool" where
  "hm_wf m = distinct (map fst m)"

text \<open>\<open>m.retain(|k, v| p k v)\<close>.\<close>

definition hm_retain :: "('k \<Rightarrow> 'v \<Rightarrow> bool) \<Rightarrow> ('k, 'v) hmap \<Rightarrow> ('k, 'v) hmap" where
  "hm_retain p m = filter (\<lambda>(k, v). p k v) m"

lemma hm_wf_Nil [hmap_simps, simp]: "hm_wf []"
  by (simp add: hm_wf_def)

lemma hm_wf_insert [hmap_simps, simp]: "hm_wf m \<Longrightarrow> hm_wf (hm_insert k v m)"
  by (simp add: hm_wf_def distinct_update)

lemma hm_wf_remove [hmap_simps, simp]: "hm_wf m \<Longrightarrow> hm_wf (hm_remove k m)"
  by (simp add: hm_wf_def distinct_delete)

lemma hm_wf_retain [hmap_simps, simp]: "hm_wf m \<Longrightarrow> hm_wf (hm_retain p m)"
  by (simp add: hm_wf_def hm_retain_def distinct_map_filter)

lemma hm_get_insert [hmap_simps, simp]:
  "hm_get (hm_insert k v m) k' = (if k = k' then Some v else hm_get m k')"
  by (simp add: update_conv')

lemma hm_get_remove [hmap_simps, simp]:
  "hm_get (hm_remove k m) k' = (if k = k' then None else hm_get m k')"
  by (simp add: delete_conv')

lemma hm_get_retain [hmap_simps]:
  "hm_wf m \<Longrightarrow> hm_get (hm_retain p m) k =
     (case hm_get m k of None \<Rightarrow> None | Some v \<Rightarrow> if p k v then Some v else None)"
proof (induction m)
  case Nil
  then show ?case by (simp add: hm_retain_def)
next
  case (Cons kv m)
  obtain k0 v0 where kv: "kv = (k0, v0)" by force
  from Cons have IH: "hm_get (hm_retain p m) k =
     (case hm_get m k of None \<Rightarrow> None | Some v \<Rightarrow> if p k v then Some v else None)"
    and notin: "k0 \<notin> fst ` set m"
    by (auto simp: hm_wf_def kv)
  from notin have "hm_get m k0 = None" by (simp add: map_of_eq_None_iff)
  with IH show ?case by (auto simp: kv hm_retain_def)
qed

lemma hm_values_iff: "hm_wf m \<Longrightarrow> v \<in> set (hm_values m) \<longleftrightarrow> (\<exists>k. hm_get m k = Some v)"
  by (force simp: hm_values_def hm_wf_def)

lemma hm_keys_iff: "k \<in> set (hm_keys m) \<longleftrightarrow> hm_get m k \<noteq> None"
  by (metis hm_keys_def map_of_eq_None_iff set_map)

lemma hm_length_retain_le: "length (hm_retain p m) \<le> length m"
  by (simp add: hm_retain_def)

section \<open>Ordered maps and sets\<close>

text \<open>A \<open>BTreeMap\<close> is an association list with strictly increasing keys, a \<open>BTreeSet\<close> a strictly
  increasing list; \<open>String\<close> keys compare bytewise.\<close>

type_synonym ('k, 'v) btmap = "('k \<times> 'v) list"

fun bt_insert :: "'k::linorder \<Rightarrow> 'v \<Rightarrow> ('k, 'v) btmap \<Rightarrow> ('k, 'v) btmap" where
  "bt_insert k v [] = [(k, v)]"
| "bt_insert k v ((k', v') # m) =
     (if k < k' then (k, v) # (k', v') # m
      else if k = k' then (k, v) # m
      else (k', v') # bt_insert k v m)"

definition bt_wf :: "('k::linorder, 'v) btmap \<Rightarrow> bool" where
  "bt_wf m = sorted_wrt (<) (map fst m)"

lemma bt_wf_Nil [simp]: "bt_wf []"
  by (simp add: bt_wf_def)

lemma bt_insert_keys: "set (map fst (bt_insert k v m)) = insert k (set (map fst m))"
  by (induction k v m rule: bt_insert.induct) auto

lemma bt_wf_insert [simp]: "bt_wf m \<Longrightarrow> bt_wf (bt_insert k v m)"
proof (induction k v m rule: bt_insert.induct)
  case (1 k v)
  then show ?case by (simp add: bt_wf_def)
next
  case (2 k v k' v' m)
  have "\<forall>x \<in> set (map fst (bt_insert k v m)). k' < x" if "k' < k"
    using 2(2) that by (auto simp: bt_wf_def bt_insert_keys simp del: set_map)
  then show ?case using 2 by (auto simp: bt_wf_def)
qed

lemma bt_get_insert [simp]: "map_of (bt_insert k v m) k' = (if k = k' then Some v else map_of m k')"
  if "bt_wf m"
  using that
proof (induction k v m rule: bt_insert.induct)
  case (1 k v)
  then show ?case by simp
next
  case (2 k v k'' v'' m)
  then show ?case by (auto simp: bt_wf_def)
qed

lemma bt_wf_distinct: "bt_wf m \<Longrightarrow> distinct (map fst m)"
  by (auto simp: bt_wf_def strict_sorted_iff)

fun bs_insert :: "'k::linorder \<Rightarrow> 'k list \<Rightarrow> 'k list" where
  "bs_insert k [] = [k]"
| "bs_insert k (x # xs) =
     (if k < x then k # x # xs else if k = x then x # xs else x # bs_insert k xs)"

definition bs_collect :: "'k::linorder list \<Rightarrow> 'k list" where
  "bs_collect xs = fold bs_insert xs []"

lemma set_bs_insert [simp]: "set (bs_insert k xs) = insert k (set xs)"
  by (induction k xs rule: bs_insert.induct) auto

lemma set_fold_bs_insert: "set (fold bs_insert xs acc) = set xs \<union> set acc"
  by (induction xs arbitrary: acc) auto

lemma set_bs_collect [simp]: "set (bs_collect xs) = set xs"
  by (simp add: bs_collect_def set_fold_bs_insert)

section \<open>The map interface\<close>

text \<open>
  What the components rely on of a map they build up: a lookup sees exactly the last insertion
  of its key. Both representations provide it, and the facts about maps built from a list of
  pairs (a \<open>collect()\<close> or an \<open>extend\<close>) hold for both.
\<close>

locale rust_map =
  fixes get :: "'m \<Rightarrow> 'k \<Rightarrow> 'v option"
    and put :: "'k \<Rightarrow> 'v \<Rightarrow> 'm \<Rightarrow> 'm"
    and wf :: "'m \<Rightarrow> bool"
    and empty :: 'm
  assumes get_empty: "get empty k = None"
    and wf_empty: "wf empty"
    and wf_put: "wf m \<Longrightarrow> wf (put k v m)"
    and get_put: "wf m \<Longrightarrow> get (put k v m) k' = (if k = k' then Some v else get m k')"
begin

definition extend :: "('k \<times> 'v) list \<Rightarrow> 'm \<Rightarrow> 'm" where
  "extend kvs m = fold (\<lambda>(k, v). put k v) kvs m"

lemma wf_extend: "wf m \<Longrightarrow> wf (extend kvs m)"
  by (induction kvs arbitrary: m) (auto simp: extend_def wf_put)

lemma get_extend:
  "wf m \<Longrightarrow> get (extend kvs m) k =
     (case map_of (rev kvs) k of Some v \<Rightarrow> Some v | None \<Rightarrow> get m k)"
proof (induction kvs arbitrary: m)
  case Nil
  then show ?case by (simp add: extend_def)
next
  case (Cons kv kvs)
  obtain k0 v0 where kv: "kv = (k0, v0)" by force
  have "get (extend kvs (put k0 v0 m)) k =
      (case map_of (rev kvs) k of Some v \<Rightarrow> Some v | None \<Rightarrow> get (put k0 v0 m) k)"
    using Cons by (simp add: wf_put)
  then show ?case
    using Cons.prems by (simp add: kv extend_def get_put map_add_Some_iff split: option.splits)
qed

lemma map_of_rev_distinct: "distinct (map fst kvs) \<Longrightarrow> (k, v) \<in> set kvs \<Longrightarrow> map_of (rev kvs) k = Some v"
  by (simp add: rev_map[symmetric])

lemma get_extend_distinct:
  "wf m \<Longrightarrow> distinct (map fst kvs) \<Longrightarrow> (k, v) \<in> set kvs \<Longrightarrow> get (extend kvs m) k = Some v"
  by (simp add: get_extend map_of_rev_distinct)

lemma get_extend_absent: "wf m \<Longrightarrow> k \<notin> fst ` set kvs \<Longrightarrow> get (extend kvs m) k = get m k"
  by (simp add: get_extend map_of_eq_None_iff [THEN iffD2] split: option.splits)

end

interpretation hash_map: rust_map map_of hm_insert hm_wf "[]"
  by unfold_locales auto

interpretation tree_map: rust_map map_of bt_insert bt_wf "[]"
  by unfold_locales auto

text \<open>\<open>m.extend(kvs)\<close> on an ordered map.\<close>

definition bt_extend :: "('k::linorder \<times> 'v) list \<Rightarrow> ('k, 'v) btmap \<Rightarrow> ('k, 'v) btmap" where
  "bt_extend kvs m = fold (\<lambda>(k, v). bt_insert k v) kvs m"

lemma bt_extend_eq: "bt_extend kvs m = tree_map.extend kvs m"
  by (simp add: bt_extend_def tree_map.extend_def)

end
