(* ===== verification/Reference.thy ===== *)
theory Reference
  imports Prelude
begin

text \<open>
  \<open>src/packages/secreq/src/reference.rs\<close>: parsing and printing of \<open>secret://\<close>
  references, in the direct form \<open>secret://provider/locator\<close> and the named form
  \<open>secret://name\<close>. The slash decides which of the two a string is.
\<close>

section \<open>The data\<close>

record reference =
  ref_provider :: string
  ref_locator :: string

datatype ref_form = Direct reference | Named string

definition SCHEME :: string where
  "SCHEME = ''secret://''"

section \<open>The operations\<close>

definition parse_body :: "string \<Rightarrow> ref_form option" where
  "parse_body rest = (case split_once (CHR ''/'') rest of
      None \<Rightarrow> (if rest = [] then None else Some (Named rest))
    | Some (prov, loc) \<Rightarrow>
        if prov = [] \<or> loc = [] then None
        else Some (Direct \<lparr>ref_provider = prov, ref_locator = loc\<rparr>))"

definition parse_form :: "string \<Rightarrow> ref_form option" where
  "parse_form input = Option.bind (strip_prefix SCHEME input) parse_body"

definition parse :: "string \<Rightarrow> reference option" where
  "parse input = (case parse_form input of
      Some (Direct r) \<Rightarrow> Some r
    | Some (Named _) \<Rightarrow> None
    | None \<Rightarrow> None)"

definition parse_arg_form :: "string \<Rightarrow> ref_form option" where
  "parse_arg_form input =
     parse_body (case strip_prefix SCHEME input of Some rest \<Rightarrow> rest | None \<Rightarrow> input)"

definition parse_arg :: "string \<Rightarrow> reference option" where
  "parse_arg input = (case parse_arg_form input of
      Some (Direct r) \<Rightarrow> Some r
    | Some (Named _) \<Rightarrow> None
    | None \<Rightarrow> None)"

definition looks_like_ref :: "string \<Rightarrow> bool" where
  "looks_like_ref input = starts_with input SCHEME"

text \<open>\<open>Display\<close>, which is also what \<open>Serialize\<close> writes.\<close>

definition display_ref :: "reference \<Rightarrow> string" where
  "display_ref r = SCHEME @ ref_provider r @ ''/'' @ ref_locator r"

text \<open>\<open>Deserialize\<close>: a malformed string is an error naming the offending value.\<close>

datatype ref_error = NotAReference string

definition deserialize_ref :: "string \<Rightarrow> ref_error + reference" where
  "deserialize_ref raw = (case parse raw of
      Some r \<Rightarrow> Inr r
    | None \<Rightarrow> Inl (NotAReference raw))"

definition undeclared_secret_message :: "string \<Rightarrow> string" where
  "undeclared_secret_message name =
     ''`'' @ name @ ''` is not a declared secret; if you meant a provider reference it needs a locator (`''
       @ SCHEME @ name @ ''/<locator>`)''"

section \<open>Which references parse\<close>

text \<open>What a reference that came out of the parser satisfies.\<close>

definition wf_ref :: "reference \<Rightarrow> bool" where
  "wf_ref r \<longleftrightarrow> ref_provider r \<noteq> [] \<and> ref_locator r \<noteq> [] \<and> CHR ''/'' \<notin> set (ref_provider r)"

lemma parse_body_Direct:
  "parse_body s = Some (Direct r) \<longleftrightarrow> wf_ref r \<and> s = ref_provider r @ ''/'' @ ref_locator r"
proof -
  have "parse_body s = Some (Direct r) \<longleftrightarrow>
      split_once (CHR ''/'') s = Some (ref_provider r, ref_locator r)
      \<and> ref_provider r \<noteq> [] \<and> ref_locator r \<noteq> []"
    by (cases r) (auto simp: parse_body_def split: option.splits)
  then show ?thesis by (auto simp: split_once_Some wf_ref_def)
qed

lemma parse_body_Named:
  "parse_body s = Some (Named n) \<longleftrightarrow> s = n \<and> n \<noteq> [] \<and> CHR ''/'' \<notin> set n"
  by (auto simp: parse_body_def split_once_None split_once_Some split: option.splits)

lemma parse_body_None:
  "parse_body s = None \<longleftrightarrow> s = [] \<or>
     (\<exists>a b. split_once (CHR ''/'') s = Some (a, b) \<and> (a = [] \<or> b = []))"
  by (auto simp: parse_body_def split: option.splits)

lemma parse_iff: "parse s = Some r \<longleftrightarrow> wf_ref r \<and> s = display_ref r"
proof -
  have "parse s = Some r \<longleftrightarrow> parse_form s = Some (Direct r)"
    by (auto simp: parse_def split: option.splits ref_form.splits)
  also have "\<dots> \<longleftrightarrow> (\<exists>rest. s = SCHEME @ rest \<and> parse_body rest = Some (Direct r))"
    by (auto simp: parse_form_def bind_eq_Some_conv strip_prefix_Some)
  finally show ?thesis by (auto simp: parse_body_Direct display_ref_def)
qed

lemma parse_form_Named:
  "parse_form s = Some (Named n) \<longleftrightarrow> s = SCHEME @ n \<and> n \<noteq> [] \<and> CHR ''/'' \<notin> set n"
  by (auto simp: parse_form_def bind_eq_Some_conv strip_prefix_Some parse_body_Named)

lemma display_inj: "wf_ref r \<Longrightarrow> wf_ref r' \<Longrightarrow> display_ref r = display_ref r' \<Longrightarrow> r = r'"
  by (metis option.inject parse_iff)

section \<open>Properties\<close>

text \<open>
  Reading back what was printed gives the reference, for every reference the parser can
  produce, and the strings that parse are exactly the printed forms of those references: the
  string form on disk and the parsed form determine each other.
\<close>

theorem reference_round_trip:
  "(parse s = Some r) = (wf_ref r \<and> s = display_ref r)
   \<and> (deserialize_ref s = Inr r) = (wf_ref r \<and> s = display_ref r)"
  by (auto simp: parse_iff[symmetric] deserialize_ref_def split: option.splits)

text \<open>
  The guest-facing parser never accepts a named reference, a bare shorthand agrees with the
  full form, and a string is read as at most one of the two forms.
\<close>

lemma parse_rejects_named: "parse_form s = Some (Named n) \<Longrightarrow> parse s = None"
  by (simp add: parse_def)

lemma parse_looks_like_ref: "parse s = Some r \<Longrightarrow> looks_like_ref s"
  by (auto simp: parse_iff display_ref_def looks_like_ref_def starts_with_iff)

lemma parse_arg_extends_parse: "parse s = Some r \<Longrightarrow> parse_arg s = Some r"
  by (auto simp: parse_def parse_arg_def parse_form_def parse_arg_form_def
      split: option.splits ref_form.splits)

lemma parse_arg_shorthand:
  "\<not> looks_like_ref s \<Longrightarrow> parse_arg_form s = parse_form (SCHEME @ s)"
  by (auto simp: parse_arg_form_def parse_form_def looks_like_ref_def starts_with_def)

end
