(* ===== verification/Mask.thy ===== *)
theory Mask
  imports Prelude "HOL-Library.Word"
begin

text \<open>
  \<open>src/packages/secreq/src/mask.rs\<close>: the streaming redactor. \<open>with_mask\<close> builds a masker,
  \<open>push\<close> feeds a chunk and returns the bytes that may be emitted, \<open>finish\<close> flushes.
  The scan loop advances by the length of the matched secret, so it stops only because no
  stored secret is empty; it is a \<open>partial_function\<close> and its termination on every masker
  the constructor builds is \<open>scan_loop_total\<close>.

  The abstract specification is \<open>mask_toks\<close>: the whole stream, cut into passed bytes and
  masked secrets. The main results are that the output does not depend on how the stream was
  cut into chunks, and that a passed byte never starts an occurrence of a secret.
\<close>

type_synonym byte = "8 word"

section \<open>The masker\<close>

record masker =
  mk_secrets :: "byte list list"
  mk_max_len :: nat
  mk_mask :: "byte list"
  mk_buf :: "byte list"

definition DEFAULT_MASK :: "byte list" where
  "DEFAULT_MASK = replicate 8 42"

definition with_mask :: "byte list list \<Rightarrow> byte list \<Rightarrow> masker" where
  "with_mask secrets msk = (let
     nonempty = filter (\<lambda>s. s \<noteq> []) secrets;
     sorted = sort_key (\<lambda>s. - int (length s)) nonempty;
     deduped = remdups_adj sorted
   in \<lparr>mk_secrets = deduped,
       mk_max_len = (case deduped of [] \<Rightarrow> 0 | s # _ \<Rightarrow> length s),
       mk_mask = msk, mk_buf = []\<rparr>)"

definition masker_new :: "byte list list \<Rightarrow> masker" where
  "masker_new secrets = with_mask secrets DEFAULT_MASK"

definition is_passthrough :: "masker \<Rightarrow> bool" where
  "is_passthrough m = (mk_secrets m = [])"

definition match_at :: "masker \<Rightarrow> byte list \<Rightarrow> nat option" where
  "match_at m sl = map_option length (find (\<lambda>s. starts_with sl s) (mk_secrets m))"

definition is_secret_prefix :: "masker \<Rightarrow> byte list \<Rightarrow> bool" where
  "is_secret_prefix m sl =
     (\<exists>s \<in> set (mk_secrets m). length sl < length s \<and> starts_with s sl)"

text \<open>
  The loop of \<open>scan\<close> over what is left of the buffer. The result is the output and the
  bytes to carry over. \<open>None\<close> is a loop that does not end.
\<close>

partial_function (option) scan_loop ::
  "masker \<Rightarrow> bool \<Rightarrow> byte list \<Rightarrow> byte list \<Rightarrow> (byte list \<times> byte list) option" where
  "scan_loop m eof rest out = (case rest of
      [] \<Rightarrow> Some (out, [])
    | b # tail \<Rightarrow>
        if \<not> eof \<and> length rest < mk_max_len m \<and> is_secret_prefix m rest then Some (out, rest)
        else (case match_at m rest of
            Some n \<Rightarrow> scan_loop m eof (drop n rest) (out @ mk_mask m)
          | None \<Rightarrow> scan_loop m eof tail (out @ [b])))"

definition scan :: "masker \<Rightarrow> bool \<Rightarrow> (byte list \<times> masker) option" where
  "scan m eof = map_option (\<lambda>(out, carry). (out, m\<lparr>mk_buf := carry\<rparr>))
     (scan_loop m eof (mk_buf m) [])"

definition push :: "masker \<Rightarrow> byte list \<Rightarrow> (byte list \<times> masker) option" where
  "push m data = (if is_passthrough m then Some (data, m)
     else scan (m\<lparr>mk_buf := mk_buf m @ data\<rparr>) False)"

definition finish :: "masker \<Rightarrow> (byte list \<times> masker) option" where
  "finish m = (if is_passthrough m then Some ([], m) else scan m True)"

text \<open>A whole stream: one \<open>push\<close> per chunk, then \<open>finish\<close>, the outputs in order.\<close>

fun mask_stream :: "masker \<Rightarrow> byte list list \<Rightarrow> byte list option" where
  "mask_stream m [] = map_option fst (finish m)"
| "mask_stream m (c # cs) = (case push m c of
      None \<Rightarrow> None
    | Some (out, m') \<Rightarrow> map_option (\<lambda>rest. out @ rest) (mask_stream m' cs))"

section \<open>Specification\<close>

datatype tok = Raw byte | Masked "byte list"

fun tok_src :: "tok \<Rightarrow> byte list" where
  "tok_src (Raw b) = [b]"
| "tok_src (Masked s) = s"

fun tok_out :: "byte list \<Rightarrow> tok \<Rightarrow> byte list" where
  "tok_out msk (Raw b) = [b]"
| "tok_out msk (Masked s) = msk"

definition source_of :: "tok list \<Rightarrow> byte list" where
  "source_of ts = concat (map tok_src ts)"

definition output_of :: "byte list \<Rightarrow> tok list \<Rightarrow> byte list" where
  "output_of msk ts = concat (map (tok_out msk) ts)"

lemma source_of_simps [simp]:
  "source_of [] = []" "source_of (t # ts) = tok_src t @ source_of ts"
  "source_of (ts @ us) = source_of ts @ source_of us"
  by (simp_all add: source_of_def)

lemma output_of_simps [simp]:
  "output_of msk [] = []" "output_of msk (t # ts) = tok_out msk t @ output_of msk ts"
  "output_of msk (ts @ us) = output_of msk ts @ output_of msk us"
  by (simp_all add: output_of_def)

function mask_toks :: "byte list list \<Rightarrow> byte list \<Rightarrow> tok list" where
  "mask_toks S [] = []"
| "mask_toks S (b # xs) = (case find (\<lambda>s. s \<noteq> [] \<and> starts_with (b # xs) s) S of
      Some s \<Rightarrow> Masked s # mask_toks S (drop (length s) (b # xs))
    | None \<Rightarrow> Raw b # mask_toks S xs)"
  by pat_completeness auto
termination
  by (relation "measure (\<lambda>(S, xs). length xs)") (auto simp: find_Some_iff)

text \<open>
  Where a masker comes from: no stored secret is empty, and \<open>mk_max_len\<close> bounds them all.
\<close>

definition wf_masker :: "masker \<Rightarrow> bool" where
  "wf_masker m \<longleftrightarrow> [] \<notin> set (mk_secrets m)
     \<and> (\<forall>s \<in> set (mk_secrets m). length s \<le> mk_max_len m)"

lemma set_with_mask: "set (mk_secrets (with_mask S msk)) = set S - {[]}"
  by (auto simp: with_mask_def Let_def)

lemma sorted_with_mask: "sorted (map (\<lambda>s. - int (length s)) (mk_secrets (with_mask S msk)))"
proof -
  have "sorted (map f (remdups_adj xs))" if "sorted (map f xs)"
    for f :: "byte list \<Rightarrow> int" and xs
    using that by (induction xs rule: remdups_adj.induct) (auto split: if_splits)
  then show ?thesis by (simp add: with_mask_def Let_def)
qed

lemma max_len_with_mask:
  "mk_max_len (with_mask S msk) = (case mk_secrets (with_mask S msk) of [] \<Rightarrow> 0 | s # _ \<Rightarrow> length s)"
  by (simp add: with_mask_def Let_def)

lemma mk_mask_with_mask [simp]: "mk_mask (with_mask S msk) = msk"
  and mk_buf_with_mask [simp]: "mk_buf (with_mask S msk) = []"
  by (simp_all add: with_mask_def Let_def)

lemma wf_with_mask: "wf_masker (with_mask S msk)"
proof -
  have "length s \<le> mk_max_len (with_mask S msk)" if "s \<in> set (mk_secrets (with_mask S msk))" for s
    using that sorted_with_mask [of S msk]
    by (auto simp: max_len_with_mask split: list.splits)
  then show ?thesis by (auto simp: wf_masker_def set_with_mask)
qed

lemma wf_masker_buf [simp]: "wf_masker (m\<lparr>mk_buf := b\<rparr>) = wf_masker m"
  by (simp add: wf_masker_def)

section \<open>The scan meets the specification\<close>

lemma mask_toks_Cons:
  assumes "[] \<notin> set S"
  shows "mask_toks S (b # xs) = (case find (\<lambda>s. starts_with (b # xs) s) S of
      Some s \<Rightarrow> Masked s # mask_toks S (drop (length s) (b # xs))
    | None \<Rightarrow> Raw b # mask_toks S xs)"
proof -
  have "find (\<lambda>s. s \<noteq> [] \<and> starts_with (b # xs) s) S = find (\<lambda>s. starts_with (b # xs) s) S"
    using assms by (intro find_cong) auto
  then show ?thesis by simp
qed

lemma find_secret_in: "find P S = Some s \<Longrightarrow> s \<in> set S \<and> P s"
  by (auto simp: find_Some_iff)

declare mask_toks.simps(2) [simp del]

text \<open>The source of the tokens is the input: nothing is dropped and nothing is made up.\<close>

lemma source_mask_toks: "source_of (mask_toks S xs) = xs"
proof (induction S xs rule: mask_toks.induct)
  case (1 S)
  then show ?case by simp
next
  case (2 S b xs)
  show ?case
  proof (cases "find (\<lambda>s. s \<noteq> [] \<and> starts_with (b # xs) s) S")
    case None
    with 2 show ?thesis by (simp add: mask_toks.simps(2))
  next
    case (Some s)
    then have "starts_with (b # xs) s" by (auto dest: find_secret_in)
    then have "s @ drop (length s) (b # xs) = b # xs"
      by (metis append_eq_conv_conj append_take_drop_id starts_with_take)
    with 2(2)[OF Some] Some show ?thesis by (simp add: mask_toks.simps(2))
  qed
qed

lemma scan_loop_Nil: "scan_loop m eof [] out = Some (out, [])"
  by (simp add: scan_loop.simps)

lemma scan_loop_Cons:
  "scan_loop m eof (b # tail) out =
     (if \<not> eof \<and> length (b # tail) < mk_max_len m \<and> is_secret_prefix m (b # tail)
      then Some (out, b # tail)
      else (case find (\<lambda>s. starts_with (b # tail) s) (mk_secrets m) of
          Some s \<Rightarrow> scan_loop m eof (drop (length s) (b # tail)) (out @ mk_mask m)
        | None \<Rightarrow> scan_loop m eof tail (out @ [b])))"
  by (subst scan_loop.simps) (simp add: match_at_def split: option.splits)

lemma scan_loop_eof:
  assumes "wf_masker m"
  shows "scan_loop m True xs out =
    Some (out @ output_of (mk_mask m) (mask_toks (mk_secrets m) xs), [])"
  using assms
proof (induction xs arbitrary: out rule: length_induct)
  case (1 xs)
  have ne: "[] \<notin> set (mk_secrets m)" using 1(2) by (simp add: wf_masker_def)
  show ?case
  proof (cases xs)
    case Nil
    then show ?thesis by (simp add: scan_loop_Nil)
  next
    case (Cons b tail)
    show ?thesis
    proof (cases "find (\<lambda>s. starts_with (b # tail) s) (mk_secrets m)")
      case None
      have "scan_loop m True tail (out @ [b]) =
        Some ((out @ [b]) @ output_of (mk_mask m) (mask_toks (mk_secrets m) tail), [])"
        using 1 Cons by (metis length_Cons lessI)
      then show ?thesis using None Cons ne by (simp add: scan_loop_Cons mask_toks_Cons)
    next
      case (Some s)
      then have "s \<noteq> []" using ne by (auto dest: find_secret_in)
      then have "length (drop (length s) xs) < length xs" by (simp add: Cons)
      with 1 have "scan_loop m True (drop (length s) xs) (out @ mk_mask m) =
        Some ((out @ mk_mask m) @ output_of (mk_mask m)
          (mask_toks (mk_secrets m) (drop (length s) xs)), [])"
        by blast
      then show ?thesis using Some Cons ne by (simp add: scan_loop_Cons mask_toks_Cons)
    qed
  qed
qed

text \<open>
  A position that is not held back is decided: more input cannot change which secret
  matches there.
\<close>

lemma decided_position:
  assumes "wf_masker m"
    and "\<not> (length rest < mk_max_len m \<and> is_secret_prefix m rest)"
  shows "find (\<lambda>s. starts_with (rest @ ys) s) (mk_secrets m)
       = find (\<lambda>s. starts_with rest s) (mk_secrets m)"
proof (rule find_cong)
  show "mk_secrets m = mk_secrets m" ..
  fix s assume s: "s \<in> set (mk_secrets m)"
  have "\<not> (length rest < length s \<and> starts_with s rest)"
    using assms s by (auto simp: wf_masker_def is_secret_prefix_def)
  then show "starts_with (rest @ ys) s = starts_with rest s"
    by (cases "length rest < length s") (auto simp: starts_with_iff append_eq_append_conv2)
qed

lemma scan_loop_partial:
  assumes "wf_masker m"
  shows "\<exists>ts carry. scan_loop m False xs out = Some (out @ output_of (mk_mask m) ts, carry)
    \<and> (\<forall>ys. mask_toks (mk_secrets m) (xs @ ys) = ts @ mask_toks (mk_secrets m) (carry @ ys))"
    (is "\<exists>ts carry. ?P xs out ts carry")
  using assms
proof (induction xs arbitrary: out rule: length_induct)
  case (1 xs)
  have ne: "[] \<notin> set (mk_secrets m)" using 1(2) by (simp add: wf_masker_def)
  show ?case
  proof (cases xs)
    case Nil
    then have "?P xs out [] []" by (simp add: scan_loop_Nil)
    then show ?thesis by blast
  next
    case (Cons b tail)
    show ?thesis
    proof (cases "length xs < mk_max_len m \<and> is_secret_prefix m xs")
      case True
      then have "?P xs out [] xs" using Cons by (simp add: scan_loop_Cons)
      then show ?thesis by blast
    next
      case False
      note dec = decided_position [OF 1(2) False, unfolded Cons append_Cons]
      show ?thesis
      proof (cases "find (\<lambda>s. starts_with xs s) (mk_secrets m)")
        case None
        have "length tail < length xs" by (simp add: Cons)
        with 1 obtain ts carry where IH: "?P tail (out @ [b]) ts carry" by blast
        have "scan_loop m False xs out = scan_loop m False tail (out @ [b])"
          using Cons False None by (auto simp: scan_loop_Cons)
        moreover have "mask_toks (mk_secrets m) (xs @ ys) = Raw b # mask_toks (mk_secrets m) (tail @ ys)" for ys
          using dec [of ys] None ne by (simp add: Cons mask_toks_Cons)
        ultimately have "?P xs out (Raw b # ts) carry" using IH by simp
        then show ?thesis by blast
      next
        case (Some s)
        then have s: "s \<noteq> []" "starts_with xs s" using ne by (auto dest: find_secret_in)
        then have len: "length s \<le> length xs" by (simp add: starts_with_length)
        have "length (drop (length s) xs) < length xs" using s by (simp add: Cons)
        with 1 obtain ts carry where
          IH: "?P (drop (length s) xs) (out @ mk_mask m) ts carry" by blast
        have "scan_loop m False xs out = scan_loop m False (drop (length s) xs) (out @ mk_mask m)"
          using Cons False Some by (auto simp: scan_loop_Cons)
        moreover have "mask_toks (mk_secrets m) (xs @ ys) =
            Masked s # mask_toks (mk_secrets m) (drop (length s) xs @ ys)" for ys
          using dec [of ys] Some ne len drop_append [of "length s" xs ys]
          by (simp add: Cons mask_toks_Cons)
        ultimately have "?P xs out (Masked s # ts) carry" using IH by simp
        then show ?thesis by blast
      qed
    qed
  qed
qed

lemma scan_loop_total: "wf_masker m \<Longrightarrow> \<exists>r. scan_loop m eof xs out = Some r"
  using scan_loop_eof scan_loop_partial by (cases eof) fastforce+

lemma mask_stream_spec:
  assumes "wf_masker m" "\<not> is_passthrough m"
  shows "mask_stream m cs =
    Some (output_of (mk_mask m) (mask_toks (mk_secrets m) (mk_buf m @ concat cs)))"
  using assms
proof (induction cs arbitrary: m)
  case Nil
  then show ?case by (simp add: finish_def scan_def scan_loop_eof)
next
  case (Cons c cs)
  let ?m = "m\<lparr>mk_buf := mk_buf m @ c\<rparr>"
  from Cons.prems obtain ts carry where
    step: "scan_loop ?m False (mk_buf m @ c) [] = Some (output_of (mk_mask m) ts, carry)"
    and toks: "\<And>ys. mask_toks (mk_secrets m) ((mk_buf m @ c) @ ys)
                 = ts @ mask_toks (mk_secrets m) (carry @ ys)"
    using scan_loop_partial [of ?m "mk_buf m @ c" "[]"] by auto
  have "mask_stream (m\<lparr>mk_buf := carry\<rparr>) cs =
    Some (output_of (mk_mask m) (mask_toks (mk_secrets m) (carry @ concat cs)))"
    using Cons.IH [of "m\<lparr>mk_buf := carry\<rparr>"] Cons.prems by (simp add: is_passthrough_def)
  with step toks [of "concat cs"] Cons.prems show ?case
    by (simp add: push_def scan_def)
qed

lemma mask_stream_passthrough:
  "is_passthrough m \<Longrightarrow> mask_stream m cs = Some (concat cs)"
  by (induction cs) (simp_all add: finish_def push_def)

lemma mask_toks_no_secrets: "mask_toks [] xs = map Raw xs"
  by (induction xs) (simp_all add: mask_toks.simps(2))

lemma output_of_map_Raw [simp]: "output_of msk (map Raw xs) = xs"
  by (induction xs) simp_all

text \<open>Every token is faithful: a masked run is a secret, and no secret starts at a passed byte.\<close>

lemma mask_toks_tokens:
  assumes "mask_toks S xs = us @ t # vs"
  shows "case t of Masked s \<Rightarrow> s \<in> set S \<and> s \<noteq> []
    | Raw b \<Rightarrow> (\<forall>s \<in> set S. s \<noteq> [] \<longrightarrow> \<not> starts_with (source_of (t # vs)) s)"
  using assms
proof (induction S xs arbitrary: us rule: mask_toks.induct)
  case (1 S)
  then show ?case by simp
next
  case (2 S b xs)
  show ?case
  proof (cases us)
    case (Cons u us')
    with 2 show ?thesis
      by (auto simp: mask_toks.simps(2) split: option.splits)
  next
    case Nil
    then have all: "mask_toks S (b # xs) = t # vs" using 2 by simp
    then have src: "source_of (t # vs) = b # xs" using source_mask_toks [of S "b # xs"] by simp
    show ?thesis
    proof (cases "find (\<lambda>s. s \<noteq> [] \<and> starts_with (b # xs) s) S")
      case None
      then have "t = Raw b" using all by (simp add: mask_toks.simps(2))
      then show ?thesis using None src by (auto simp: find_None_iff)
    next
      case (Some s)
      then have "t = Masked s" using all by (simp add: mask_toks.simps(2))
      then show ?thesis using Some by (auto dest: find_secret_in)
    qed
  qed
qed

section \<open>Properties\<close>

lemma mask_stream_toks:
  "mask_stream (with_mask S msk) cs =
     Some (output_of msk (mask_toks (mk_secrets (with_mask S msk)) (concat cs)))"
proof (cases "is_passthrough (with_mask S msk)")
  case True
  then show ?thesis
    by (simp add: mask_stream_passthrough is_passthrough_def mask_toks_no_secrets)
next
  case False
  then show ?thesis using mask_stream_spec [OF wf_with_mask] by simp
qed

text \<open>
  The reference: cut the stream at every position where a secret starts, taking the longest one
  that starts there, and pass the other bytes. It reads the secrets as they were given.
\<close>

definition starting :: "byte list list \<Rightarrow> byte list \<Rightarrow> byte list list" where
  "starting S xs = filter (\<lambda>s. s \<noteq> [] \<and> starts_with xs s) S"

function redact_longest :: "byte list list \<Rightarrow> byte list \<Rightarrow> byte list \<Rightarrow> byte list" where
  "redact_longest S msk [] = []"
| "redact_longest S msk (b # xs) =
     (if starting S (b # xs) = [] then b # redact_longest S msk xs
      else msk @ redact_longest S msk (drop (Max (length ` set (starting S (b # xs)))) (b # xs)))"
  by pat_completeness auto

lemma starting_longest:
  assumes "starting S xs \<noteq> []"
  shows "\<exists>s \<in> set S. s \<noteq> [] \<and> starts_with xs s \<and> length s = Max (length ` set (starting S xs))"
proof -
  have "Max (length ` set (starting S xs)) \<in> length ` set (starting S xs)" using assms by (intro Max_in) auto
  then show ?thesis by (auto simp: starting_def)
qed

termination redact_longest
proof (relation "measure (\<lambda>(S, msk, xs). length xs)")
  fix S msk b and xs :: "byte list"
  assume "starting S (b # xs) \<noteq> []"
  then have "0 < Max (length ` set (starting S (b # xs)))" by (metis starting_longest length_greater_0_conv)
  then show "((S, msk, drop (Max (length ` set (starting S (b # xs)))) (b # xs)), S, msk, b # xs) \<in> measure (\<lambda>(S, msk, xs). length xs)"
    by simp
qed auto

text \<open>The stored secrets go from long to short, so the first that starts is the longest.\<close>

definition longest_first :: "byte list list \<Rightarrow> bool" where
  "longest_first S \<longleftrightarrow> sorted_wrt (\<lambda>a b. length b \<le> length a) S"

lemma with_mask_longest_first: "longest_first (mk_secrets (with_mask S msk))"
  using sorted_with_mask [of S msk] by (simp add: longest_first_def sorted_map)

lemma find_longest:
  "longest_first S \<Longrightarrow> find P S = Some s \<Longrightarrow> x \<in> set S \<Longrightarrow> P x \<Longrightarrow> length x \<le> length s"
  by (induction S) (auto simp: longest_first_def split: if_splits)

lemma mask_toks_redact:
  assumes "longest_first L" "set L = {s \<in> set S. s \<noteq> []}"
  shows "output_of msk (mask_toks L xs) = redact_longest S msk xs"
  using assms(2)
proof (induction S msk xs rule: redact_longest.induct)
  case (2 S msk b xs)
  have IH: "starting S (b # xs) = [] \<Longrightarrow> output_of msk (mask_toks L xs) = redact_longest S msk xs"
    "starting S (b # xs) \<noteq> [] \<Longrightarrow> output_of msk (mask_toks L (drop (Max (length ` set (starting S (b # xs)))) (b # xs)))
       = redact_longest S msk (drop (Max (length ` set (starting S (b # xs)))) (b # xs))"
    using 2 by simp_all
  note L = 2(3)
  let ?P = "\<lambda>s. s \<noteq> [] \<and> starts_with (b # xs) s"
  show ?case
  proof (cases "find ?P L")
    case None
    then have "starting S (b # xs) = []" using L by (auto simp: find_None_iff starting_def filter_empty_conv)
    then show ?thesis using None IH(1) by (simp add: mask_toks.simps(2))
  next
    case (Some s)
    then have s: "s \<in> set (starting S (b # xs))" using find_secret_in [OF Some] L by (auto simp: starting_def)
    have "length x \<le> length s" if "x \<in> set (starting S (b # xs))" for x
      using find_longest [OF assms(1) Some, of x] that L by (auto simp: starting_def)
    then have "Max (length ` set (starting S (b # xs))) = length s"
      using s by (intro Max_eqI) auto
    moreover have "starting S (b # xs) \<noteq> []" using s by auto
    ultimately show ?thesis using Some IH(2) by (simp add: mask_toks.simps(2))
  qed
qed simp

text \<open>
  C29. Chunk independence: a masker built for any secrets turns a stream into the same bytes however
  it is cut into chunks, namely the reference's redaction of the whole stream: at every position
  the longest secret that starts there is replaced, whatever order the secrets were given in. In
  particular the scan always terminates.
\<close>

theorem masking_chunk_independent:
  "mask_stream (with_mask S msk) cs = Some (redact_longest S msk (concat cs))"
proof -
  have "set (mk_secrets (with_mask S msk)) = {s \<in> set S. s \<noteq> []}" by (auto simp: set_with_mask)
  then show ?thesis using mask_toks_redact [OF with_mask_longest_first] by (simp add: mask_stream_toks)
qed

lemma mask_stream_redacts:
  "\<exists>ts. mask_stream (with_mask S msk) cs = Some (output_of msk ts)
     \<and> source_of ts = concat cs
     \<and> (\<forall>s. Masked s \<in> set ts \<longrightarrow> s \<in> set S)
     \<and> (\<forall>us b vs. ts = us @ Raw b # vs \<longrightarrow>
          (\<forall>s \<in> set S. s \<noteq> [] \<longrightarrow> \<not> starts_with (b # source_of vs) s))"
proof -
  let ?S = "mk_secrets (with_mask S msk)"
  let ?ts = "mask_toks ?S (concat cs)"
  have "s \<in> set S" if "Masked s \<in> set ?ts" for s
  proof -
    from that obtain us vs where "?ts = us @ Masked s # vs" by (meson split_list)
    then have "s \<in> set ?S" using mask_toks_tokens by fastforce
    then show ?thesis by (simp add: set_with_mask)
  qed
  moreover have "\<not> starts_with (b # source_of vs) s"
    if "?ts = us @ Raw b # vs" "s \<in> set S" "s \<noteq> []" for us b vs s
    using mask_toks_tokens [OF that(1)] that(2,3) by (simp add: set_with_mask)
  ultimately show ?thesis
    using mask_stream_toks source_mask_toks by blast
qed

text \<open>
  C6. Redaction: for any secrets and any chunking, the output is obtained from the stream by
  replacing whole occurrences of secrets with the mask and passing the other bytes, and at no
  passed byte does an occurrence of a secret start in what is left of the stream. So no secret
  goes through verbatim, in particular not one that straddles two chunks.
\<close>

theorem masking_redacts:
  "\<exists>ts. mask_stream (with_mask S msk) cs = Some (output_of msk ts)
     \<and> source_of ts = concat cs
     \<and> (\<forall>s. Masked s \<in> set ts \<longrightarrow> s \<in> set S)
     \<and> (\<forall>us b vs. ts = us @ Raw b # vs \<longrightarrow>
          (\<forall>s \<in> set S. s \<noteq> [] \<longrightarrow> \<not> starts_with (b # source_of vs) s))"
  by (rule mask_stream_redacts)

text \<open>At a stream where a secret straddles two chunks.\<close>

theorem masking_redacts_witness:
  "mask_stream (with_mask [[1,2,3]] [42]) [[9,1], [2,3,7]] = Some [9, 42, 7]
   \<and> mk_secrets (with_mask [[1,2,3]] [42]) = [[1,2,3]]"
proof -
  have s: "mk_secrets (with_mask [[1,2,3]] [42]) = [[1,2,3]]"
    by (simp add: with_mask_def)
  show ?thesis
    using masking_redacts [of "[[1,2,3]]" "[42]" "[[9,1], [2,3,7]]"]
      mask_stream_toks [of "[[1,2,3]]" "[42]" "[[9,1], [2,3,7]]"]
    by (simp add: s mask_toks.simps starts_with_def)
qed

end
