(* ===== verification/Provenance.thy ===== *)
theory Provenance
  imports Prelude
begin

text \<open>
  \<open>src/packages/secreq/src/provenance.rs\<close>: who is asking. The display sanitizer, the walk
  up the process tree, and the choice of the process a signing grant is bound to.

  The source iterates over \<open>char\<close>s here, so text is a list of code points (\<open>ustring\<close>).
  The Unicode general category comes from a third-party crate and is the parameter \<open>gc\<close>.
  The process table (\<open>sysinfo\<close>) is a map from pids to the fields the walk reads.
\<close>

section \<open>Code points\<close>

type_synonym ustring = "nat list"

definition ustr :: "string \<Rightarrow> ustring" where
  "ustr s = map of_char s"

datatype general_category = Control | Format | NonspacingMark | SpacingMark | EnclosingMark
  | OtherCategory

type_synonym categories = "nat \<Rightarrow> general_category"

text \<open>\<open>char::is_whitespace\<close> of the standard library: the \<open>White_Space\<close> property.\<close>

definition is_whitespace :: "nat \<Rightarrow> bool" where
  "is_whitespace c \<longleftrightarrow> (9 \<le> c \<and> c \<le> 13) \<or> c = 32 \<or> c = 0x85 \<or> c = 0xA0 \<or> c = 0x1680
     \<or> (0x2000 \<le> c \<and> c \<le> 0x200A) \<or> c = 0x2028 \<or> c = 0x2029 \<or> c = 0x202F \<or> c = 0x205F
     \<or> c = 0x3000"

definition is_invisible_or_reordering :: "categories \<Rightarrow> nat \<Rightarrow> bool" where
  "is_invisible_or_reordering gc c \<longleftrightarrow>
     (gc c = Control \<or> gc c = Format)
     \<or> c = 0x034F
     \<or> (0x115F \<le> c \<and> c \<le> 0x1160)
     \<or> (0x17B4 \<le> c \<and> c \<le> 0x17B5)
     \<or> (0x180B \<le> c \<and> c \<le> 0x180D)
     \<or> c = 0x180F
     \<or> c = 0x2065
     \<or> c = 0x3164
     \<or> (0xFE00 \<le> c \<and> c \<le> 0xFE0F)
     \<or> c = 0xFFA0
     \<or> (0xFFF0 \<le> c \<and> c \<le> 0xFFF8)
     \<or> (0xE0000 \<le> c \<and> c \<le> 0xE0FFF)"

definition is_combining_mark :: "categories \<Rightarrow> nat \<Rightarrow> bool" where
  "is_combining_mark gc c \<longleftrightarrow>
     gc c = NonspacingMark \<or> gc c = SpacingMark \<or> gc c = EnclosingMark"

section \<open>The display sanitizer\<close>

definition MAX_DISPLAY_CHARS :: nat where
  "MAX_DISPLAY_CHARS = 300"

text \<open>\<open>while kept.last().is_some_and(p) { kept.pop(); }\<close>\<close>

definition pop_while :: "('a \<Rightarrow> bool) \<Rightarrow> 'a list \<Rightarrow> 'a list" where
  "pop_while p xs = rev (dropWhile p (rev xs))"

fun truncate_loop :: "categories \<Rightarrow> nat \<Rightarrow> ustring \<Rightarrow> ustring \<Rightarrow> ustring \<times> bool" where
  "truncate_loop gc limit kept [] = (kept, False)"
| "truncate_loop gc limit kept (c # s) =
     (if kept = [] \<and> is_combining_mark gc c then truncate_loop gc limit kept s
      else if length kept = limit then
        (if is_combining_mark gc c then butlast (pop_while (is_combining_mark gc) kept) else kept,
         True)
      else truncate_loop gc limit (kept @ [c]) s)"

definition truncate_at_cluster_edge :: "categories \<Rightarrow> ustring \<Rightarrow> nat \<Rightarrow> ustring \<times> bool" where
  "truncate_at_cluster_edge gc s limit = truncate_loop gc limit [] s"

text \<open>The loop of \<open>sanitize_display\<close>, with its locals \<open>visible\<close>, \<open>visible_chars\<close>, \<open>last_was_space\<close>.\<close>

fun sanitize_loop :: "categories \<Rightarrow> ustring \<Rightarrow> nat \<Rightarrow> bool \<Rightarrow> ustring \<Rightarrow> ustring" where
  "sanitize_loop gc visible n sp [] = visible"
| "sanitize_loop gc visible n sp (c # raw) =
     (if is_whitespace c then
        (if \<not> sp \<and> visible \<noteq> [] then sanitize_loop gc (visible @ [32]) (n + 1) True raw
         else sanitize_loop gc visible n sp raw)
      else if is_invisible_or_reordering gc c then sanitize_loop gc visible n sp raw
      else if n + 1 > MAX_DISPLAY_CHARS then visible @ [c]
      else sanitize_loop gc (visible @ [c]) (n + 1) False raw)"

definition sanitize_display :: "categories \<Rightarrow> ustring \<Rightarrow> ustring" where
  "sanitize_display gc raw =
     (let visible = sanitize_loop gc [] 0 False raw;
          (out, truncated) = truncate_at_cluster_edge gc visible MAX_DISPLAY_CHARS;
          out = pop_while (\<lambda>c. c = 32) out
      in if truncated then out @ [0x2026] else out)"

definition command_for_display :: "categories \<Rightarrow> ustring \<Rightarrow> ustring" where
  "command_for_display gc command = sanitize_display gc command"

section \<open>Processes and callers\<close>

record ProcessIdentity =
  pi_pid :: nat
  pi_start_time :: nat

record Caller =
  ca_pid :: nat
  ca_name :: ustring
  ca_command :: ustring
  ca_exe :: "ustring option"
  ca_start_time :: nat

definition caller_identity :: "Caller \<Rightarrow> ProcessIdentity" where
  "caller_identity c = \<lparr>pi_pid = ca_pid c, pi_start_time = ca_start_time c\<rparr>"

definition MAX_CHAIN :: nat where "MAX_CHAIN = 16"

definition MAX_WALK :: nat where "MAX_WALK = 256"

record CallerChain =
  cc_frames :: "Caller list"
  cc_truncated :: bool

text \<open>
  \<open>std::path::Path\<close> on Unix: components are separated by slashes, empty and \<open>.\<close> components
  are skipped (a leading \<open>.\<close> is kept), and two paths are equal iff their components are.
\<close>

fun split_on :: "'a \<Rightarrow> 'a list \<Rightarrow> 'a list list" where
  "split_on c [] = [[]]"
| "split_on c (x # s) =
     (if x = c then [] # split_on c s
      else (case split_on c s of [] \<Rightarrow> [[x]] | w # ws \<Rightarrow> (x # w) # ws))"

definition path_parts :: "ustring \<Rightarrow> ustring list" where
  "path_parts s = filter (\<lambda>p. p \<noteq> [] \<and> p \<noteq> ustr ''.'') (split_on (of_char (CHR ''/'')) s)"

definition path_file_name :: "ustring \<Rightarrow> ustring option" where
  "path_file_name s = (case rev (path_parts s) of
      [] \<Rightarrow> None
    | p # _ \<Rightarrow> if p = ustr ''..'' then None else Some p)"

definition path_eq :: "ustring \<Rightarrow> ustring \<Rightarrow> bool" where
  "path_eq a b \<longleftrightarrow> path_parts a = path_parts b
     \<and> starts_with a (ustr ''/'') = starts_with b (ustr ''/'')
     \<and> (hd (split_on (of_char (CHR ''/'')) a) = ustr ''.'') = (hd (split_on (of_char (CHR ''/'')) b) = ustr ''.'')"

definition TRANSPORT_FRAMES :: "ustring list" where
  "TRANSPORT_FRAMES = map ustr [''ssh'', ''scp'', ''sftp'', ''ssh-agent'']"

definition SESSION_FRAMES :: "ustring list" where
  "SESSION_FRAMES = map ustr [''sh'', ''bash'', ''zsh'', ''fish'', ''dash'', ''ksh'', ''tcsh'', ''csh'',
     ''nu'', ''pwsh'', ''powershell'', ''tmux'', ''tmux: server'', ''screen'']"

definition frame_identity :: "Caller \<Rightarrow> ustring" where
  "frame_identity c =
     (case Option.bind (ca_exe c) path_file_name of Some n \<Rightarrow> n | None \<Rightarrow> ca_name c)"

definition is_session_frame :: "Caller \<Rightarrow> bool" where
  "is_session_frame c =
     (let ident = frame_identity c;
          base = (case strip_prefix (ustr ''-'') ident of Some b \<Rightarrow> b | None \<Rightarrow> ident)
      in base \<in> set SESSION_FRAMES)"

definition is_transport_frame :: "Caller \<Rightarrow> bool" where
  "is_transport_frame c \<longleftrightarrow> frame_identity c \<in> set TRANSPORT_FRAMES"

definition last_opt :: "'a list \<Rightarrow> 'a option" where
  "last_opt xs = (if xs = [] then None else Some (last xs))"

definition or_else :: "'a option \<Rightarrow> 'a option \<Rightarrow> 'a option" where
  "or_else a b = (case a of Some x \<Rightarrow> Some x | None \<Rightarrow> b)"

definition select_anchor :: "Caller list \<Rightarrow> Caller option" where
  "select_anchor chain =
     or_else (find is_session_frame chain)
       (or_else (find (\<lambda>c. \<not> is_transport_frame c) chain) (last_opt chain))"

section \<open>Agent forwarding\<close>

definition SSH_VALUELESS_FLAGS :: ustring where
  "SSH_VALUELESS_FLAGS = ustr ''46AaCfGgKMNnqsTtVvXxYy''"

definition FORWARD_AGENT_AFFIRMATIVE :: "ustring list" where
  "FORWARD_AGENT_AFFIRMATIVE = map ustr [''yes'', ''true'', ''1'', ''ask'']"

definition is_valueless_cluster_forwarding_the_agent :: "ustring \<Rightarrow> bool" where
  "is_valueless_cluster_forwarding_the_agent token = (case strip_prefix (ustr ''-'') token of
      None \<Rightarrow> False
    | Some flags \<Rightarrow> flags \<noteq> [] \<and> of_char (CHR ''A'') \<in> set flags
        \<and> (\<forall>c \<in> set flags. c \<in> set SSH_VALUELESS_FLAGS))"

text \<open>\<open>split(|c| c.is_whitespace() || c == '=')\<close> with the empty pieces filtered out.\<close>

fun split_fields :: "('a \<Rightarrow> bool) \<Rightarrow> 'a list \<Rightarrow> 'a list \<Rightarrow> 'a list list" where
  "split_fields sep cur [] = (if cur = [] then [] else [cur])"
| "split_fields sep cur (c # s) =
     (if sep c then (if cur = [] then split_fields sep [] s else cur # split_fields sep [] s)
      else split_fields sep (cur @ [c]) s)"

definition to_ascii_lowercase :: "nat \<Rightarrow> nat" where
  "to_ascii_lowercase c = (if 65 \<le> c \<and> c \<le> 90 then c + 32 else c)"

text \<open>\<open>while let Some(token) = tokens.next()\<close>: an affirmative value is only peeked at, so it is
  read as a token of its own when the loop goes on.\<close>

fun forwarding_loop :: "ustring list \<Rightarrow> bool" where
  "forwarding_loop [] = False"
| "forwarding_loop (token # tokens) =
     (if token = ustr ''-A'' then True
      else
        let opt = (case strip_prefix (ustr ''-o'') token of Some r \<Rightarrow> r | None \<Rightarrow> token) in
        if map to_ascii_lowercase opt = map to_ascii_lowercase (ustr ''ForwardAgent'') then
          (case tokens of
             value # _ \<Rightarrow> if map to_ascii_lowercase value \<in> set FORWARD_AGENT_AFFIRMATIVE then True
                         else forwarding_loop tokens
           | [] \<Rightarrow> forwarding_loop tokens)
        else if is_valueless_cluster_forwarding_the_agent token then True
        else forwarding_loop tokens)"

definition requests_agent_forwarding :: "ustring \<Rightarrow> bool" where
  "requests_agent_forwarding command =
     forwarding_loop (split_fields (\<lambda>c. is_whitespace c \<or> c = of_char (CHR ''='')) [] command)"

record PeerProcess =
  pp_caller :: Caller
  pp_forwards_agent :: bool

datatype SignAnchorKind = Session | ForwardedSsh

record SignAnchor =
  sa_identity :: ProcessIdentity
  sa_name :: ustring
  sa_command :: ustring
  sa_kind :: SignAnchorKind

definition sign_anchor_of :: "Caller \<Rightarrow> SignAnchorKind \<Rightarrow> SignAnchor" where
  "sign_anchor_of c kind =
     \<lparr>sa_identity = caller_identity c, sa_name = ca_name c, sa_command = ca_command c, sa_kind = kind\<rparr>"

definition peer_forwards :: "PeerProcess option \<Rightarrow> PeerProcess option" where
  "peer_forwards peer = (case peer of
      Some p \<Rightarrow> if pp_forwards_agent p \<and> is_transport_frame (pp_caller p) then Some p else None
    | None \<Rightarrow> None)"

definition forwarding_frame :: "Caller \<Rightarrow> bool" where
  "forwarding_frame c \<longleftrightarrow> is_transport_frame c \<and> requests_agent_forwarding (ca_command c)"

definition select_sign_anchor :: "PeerProcess option \<Rightarrow> Caller list \<Rightarrow> SignAnchor option" where
  "select_sign_anchor peer chain = (case peer_forwards peer of
      Some p \<Rightarrow> Some (sign_anchor_of (pp_caller p) ForwardedSsh)
    | None \<Rightarrow>
        (case find forwarding_frame chain of
           Some frame \<Rightarrow> Some (sign_anchor_of frame ForwardedSsh)
         | None \<Rightarrow> map_option (\<lambda>c. sign_anchor_of c Session) (select_anchor chain)))"

section \<open>The walk\<close>

record process =
  pr_name :: ustring
  pr_cmd :: "ustring list"
  pr_exe :: "ustring option"
  pr_start_time :: nat
  pr_parent :: "nat option"

type_synonym system = "nat \<Rightarrow> process option"

definition join_cmd :: "ustring list \<Rightarrow> ustring" where
  "join_cmd cmd = join_with (ustr '' '') cmd"

definition process_command :: "process \<Rightarrow> ustring" where
  "process_command p = (let command = join_cmd (pr_cmd p) in if command = [] then pr_name p else command)"

definition is_self_frame :: "Caller \<Rightarrow> ustring option \<Rightarrow> bool" where
  "is_self_frame c my_exe = (case (ca_exe c, my_exe) of
      (Some caller_exe, Some mine) \<Rightarrow> path_eq caller_exe mine
    | _ \<Rightarrow> ca_name c = ustr ''secreq'')"

definition describe_process :: "categories \<Rightarrow> nat \<Rightarrow> process \<Rightarrow> Caller" where
  "describe_process gc pid p =
     \<lparr>ca_pid = pid, ca_name = sanitize_display gc (pr_name p),
      ca_command = sanitize_display gc (join_cmd (pr_cmd p)), ca_exe = pr_exe p,
      ca_start_time = pr_start_time p\<rparr>"

definition describe_pid :: "categories \<Rightarrow> system \<Rightarrow> nat \<Rightarrow> PeerProcess option" where
  "describe_pid gc sys pid = (case sys pid of
      None \<Rightarrow> None
    | Some p \<Rightarrow> Some \<lparr>pp_caller = describe_process gc pid p,
        pp_forwards_agent = requests_agent_forwarding (join_cmd (pr_cmd p))\<rparr>)"

function walk_loop ::
  "categories \<Rightarrow> system \<Rightarrow> ustring option \<Rightarrow> nat \<Rightarrow> nat \<Rightarrow> Caller list \<Rightarrow> nat option \<Rightarrow> nat \<Rightarrow> CallerChain"
where
  "walk_loop gc sys my_exe max_chain max_walk frames None walked =
     \<lparr>cc_frames = frames, cc_truncated = False\<rparr>"
| "walk_loop gc sys my_exe max_chain max_walk frames (Some pid) walked =
     (if walked \<ge> max_walk \<or> length frames \<ge> max_chain
      then \<lparr>cc_frames = frames, cc_truncated = True\<rparr>
      else (case sys pid of
          None \<Rightarrow> \<lparr>cc_frames = frames, cc_truncated = False\<rparr>
        | Some p \<Rightarrow>
            (let c = describe_process gc pid p;
                 frames = (if is_self_frame c my_exe then frames else frames @ [c])
             in walk_loop gc sys my_exe max_chain max_walk frames (pr_parent p) (walked + 1))))"
  by pat_completeness auto
termination
  by (relation "measure (\<lambda>(gc, sys, e, mc, mw, fr, cur, walked). mw - walked)") auto

definition walk :: "categories \<Rightarrow> system \<Rightarrow> nat option \<Rightarrow> ustring option \<Rightarrow> nat \<Rightarrow> nat \<Rightarrow> CallerChain" where
  "walk gc sys start my_exe max_chain max_walk =
     walk_loop gc sys my_exe max_chain max_walk [] start 0"

definition parent_of :: "system \<Rightarrow> nat \<Rightarrow> nat option" where
  "parent_of sys pid = Option.bind (sys pid) pr_parent"

text \<open>\<open>self_pid\<close> is the result of \<open>get_current_pid\<close>, \<open>None\<close> when the platform has none.\<close>

definition caller_chain_with_limit ::
  "categories \<Rightarrow> system \<Rightarrow> nat option \<Rightarrow> ustring option \<Rightarrow> nat \<Rightarrow> nat \<Rightarrow> CallerChain" where
  "caller_chain_with_limit gc sys self_pid my_exe max_chain max_walk = (case self_pid of
      None \<Rightarrow> \<lparr>cc_frames = [], cc_truncated = False\<rparr>
    | Some pid \<Rightarrow> walk gc sys (parent_of sys pid) my_exe max_chain max_walk)"

definition caller_chain :: "categories \<Rightarrow> system \<Rightarrow> nat option \<Rightarrow> ustring option \<Rightarrow> CallerChain" where
  "caller_chain gc sys self_pid my_exe =
     caller_chain_with_limit gc sys self_pid my_exe MAX_CHAIN MAX_WALK"

definition caller_chain_from_pid :: "categories \<Rightarrow> system \<Rightarrow> ustring option \<Rightarrow> nat \<Rightarrow> CallerChain" where
  "caller_chain_from_pid gc sys my_exe seed =
     walk gc sys (parent_of sys seed) my_exe MAX_CHAIN MAX_WALK"

section \<open>The sanitizer's output\<close>

lemma pop_while_split: "\<exists>ms. xs = pop_while p xs @ ms \<and> (\<forall>m \<in> set ms. p m)"
proof -
  have "rev xs = takeWhile p (rev xs) @ dropWhile p (rev xs)" by simp
  then have "xs = pop_while p xs @ rev (takeWhile p (rev xs))"
    unfolding pop_while_def by (metis rev_append rev_rev_ident)
  moreover have "\<forall>m \<in> set (rev (takeWhile p (rev xs))). p m"
    by (auto dest: set_takeWhileD)
  ultimately show ?thesis by blast
qed

lemma pop_while_ne: "xs \<noteq> [] \<Longrightarrow> \<not> p (hd xs) \<Longrightarrow> pop_while p xs \<noteq> []"
  by (cases xs) (auto simp: pop_while_def dropWhile_append)

lemma pop_while_last: "pop_while p xs \<noteq> [] \<Longrightarrow> \<not> p (last (pop_while p xs))"
  by (simp add: pop_while_def last_rev hd_dropWhile)

lemma truncate_loop_spec:
  assumes "truncate_loop gc limit kept s = (out, t)" "length kept \<le> limit"
    and "kept = [] \<or> \<not> is_combining_mark gc (hd kept)"
  shows "\<exists>rest. kept @ (if kept = [] then dropWhile (is_combining_mark gc) s else s) = out @ rest
    \<and> (t \<longleftrightarrow> rest \<noteq> []) \<and> (rest = [] \<or> \<not> is_combining_mark gc (hd rest)) \<and> length out \<le> limit"
  using assms
proof (induction gc limit kept s rule: truncate_loop.induct)
  case (1 gc limit kept)
  then show ?case by auto
next
  case (2 gc limit kept c s)
  let ?m = "is_combining_mark gc"
  consider (skip) "kept = []" "?m c"
    | (full) "kept \<noteq> [] \<or> \<not> ?m c" "length kept = limit"
    | (keep) "kept \<noteq> [] \<or> \<not> ?m c" "length kept \<noteq> limit" by blast
  then show ?case
  proof cases
    case skip
    then show ?thesis using 2 by simp
  next
    case full
    show ?thesis
    proof (cases "?m c")
      case True
      with full have ne: "kept \<noteq> []" by simp
      with "2.prems" have pne: "pop_while ?m kept \<noteq> []" by (simp add: pop_while_ne)
      obtain ms where ms: "kept = pop_while ?m kept @ ms" using pop_while_split [of kept ?m] by metis
      have out: "out = butlast (pop_while ?m kept)" "t" using "2.prems"(1) full True ne by auto
      with pne obtain b where b: "pop_while ?m kept = out @ [b]" "\<not> ?m b"
        using pop_while_last [of ?m kept] by (metis append_butlast_last_id)
      with ms have split: "kept = out @ b # ms" by simp
      then have "length out \<le> limit" using "2.prems"(2) by simp
      then show ?thesis
        using out(2) ne b split by (intro exI [of _ "b # ms @ c # s"]) simp
    next
      case False
      then show ?thesis using "2.prems"(1) full by (intro exI [of _ "c # s"]) auto
    qed
  next
    case keep
    then have "truncate_loop gc limit (kept @ [c]) s = (out, t)" using "2.prems"(1) by auto
    moreover have "length (kept @ [c]) \<le> limit" using "2.prems"(2) keep by simp
    moreover have "kept @ [c] = [] \<or> \<not> ?m (hd (kept @ [c]))" using "2.prems"(3) keep by (cases kept) auto
    ultimately show ?thesis using "2.IH"(2) keep by auto
  qed
qed

lemma truncate_at_cluster_edge_spec:
  assumes "truncate_at_cluster_edge gc s limit = (out, t)"
  shows "\<exists>rest. dropWhile (is_combining_mark gc) s = out @ rest
    \<and> (t \<longleftrightarrow> rest \<noteq> []) \<and> (rest = [] \<or> \<not> is_combining_mark gc (hd rest)) \<and> length out \<le> limit"
  using truncate_loop_spec [of gc limit "[]" s out t] assms
  by (simp add: truncate_at_cluster_edge_def)

definition visible_char :: "categories \<Rightarrow> nat \<Rightarrow> bool" where
  "visible_char gc c \<longleftrightarrow> \<not> is_whitespace c \<and> \<not> is_invisible_or_reordering gc c"

definition single_spaced :: "ustring \<Rightarrow> bool" where
  "single_spaced s \<longleftrightarrow> (\<forall>a b. s \<noteq> a @ [32, 32] @ b)"

lemma single_spaced_snoc:
  "single_spaced s \<Longrightarrow> c \<noteq> 32 \<or> s = [] \<or> last s \<noteq> 32 \<Longrightarrow> single_spaced (s @ [c])"
  unfolding single_spaced_def
proof (intro allI notI)
  fix a b
  assume s: "\<forall>a b. s \<noteq> a @ [32, 32] @ b" and c: "c \<noteq> 32 \<or> s = [] \<or> last s \<noteq> 32"
    and eq: "s @ [c] = a @ [32, 32] @ b"
  show False
  proof (cases b rule: rev_cases)
    case Nil
    with eq have "(s @ [c]) = (a @ [32]) @ [32]" by simp
    then have "s = a @ [32]" "c = 32" by (metis append1_eq_conv)+
    with c show False by auto
  next
    case (snoc b' x)
    with eq have "s @ [c] = (a @ [32, 32] @ b') @ [x]" by simp
    then have "s = a @ [32, 32] @ b'" by (metis append1_eq_conv)
    with s show False by blast
  qed
qed

lemma single_spaced_infix: "single_spaced (a @ s @ b) \<Longrightarrow> single_spaced s"
  unfolding single_spaced_def by (metis append.assoc)

lemma sanitize_loop_clean:
  assumes "set vis \<subseteq> {32} \<union> Collect (visible_char gc)" "single_spaced vis"
    and "vis \<noteq> [] \<and> last vis = 32 \<longrightarrow> sp"
  shows "set (sanitize_loop gc vis n sp raw) \<subseteq> {32} \<union> Collect (visible_char gc)
    \<and> single_spaced (sanitize_loop gc vis n sp raw)"
  using assms
proof (induction gc vis n sp raw rule: sanitize_loop.induct)
  case (1 gc vis n sp)
  then show ?case by simp
next
  case (2 gc vis n sp c raw)
  have ws: "c \<noteq> 32" if "\<not> is_whitespace c" using that by (auto simp: is_whitespace_def)
  consider (sp) "is_whitespace c" | (inv) "\<not> is_whitespace c" "is_invisible_or_reordering gc c"
    | (vis) "visible_char gc c" by (auto simp: visible_char_def)
  then show ?case
  proof cases
    case sp
    then show ?thesis using 2 by (auto intro!: single_spaced_snoc)
  next
    case inv
    then show ?thesis using 2 by simp
  next
    case vis
    then have "c \<noteq> 32" using ws by (simp add: visible_char_def)
    with vis 2 have "set (vis @ [c]) \<subseteq> {32} \<union> Collect (visible_char gc)" "single_spaced (vis @ [c])"
      by (auto intro!: single_spaced_snoc)
    with vis \<open>c \<noteq> 32\<close> 2 show ?thesis by (auto simp: visible_char_def)
  qed
qed

lemma single_spaced_Nil [simp]: "single_spaced []"
  by (simp add: single_spaced_def)

lemma set_pop_while: "set (pop_while p xs) \<subseteq> set xs"
  by (auto simp: pop_while_def dest: set_dropWhileD)

lemma sanitize_display_out:
  assumes "sanitize_display gc raw = out"
  shows "set out \<subseteq> {32, 0x2026} \<union> Collect (visible_char gc) \<and> single_spaced out
    \<and> length out \<le> MAX_DISPLAY_CHARS + 1 \<and> (out = [] \<or> last out \<noteq> 32)"
proof -
  let ?vis = "sanitize_loop gc [] 0 False raw"
  obtain cut t where cut: "truncate_at_cluster_edge gc ?vis MAX_DISPLAY_CHARS = (cut, t)" by force
  let ?p = "pop_while (\<lambda>c. c = 32) cut"
  have out: "out = (if t then ?p @ [0x2026] else ?p)"
    using assms cut by (simp add: sanitize_display_def Let_def)
  from truncate_at_cluster_edge_spec [OF cut] obtain rest
    where rest: "dropWhile (is_combining_mark gc) ?vis = cut @ rest"
      and len: "length cut \<le> MAX_DISPLAY_CHARS" by blast
  obtain ms where "cut = ?p @ ms" using pop_while_split [of cut] by metis
  with rest have vis: "?vis = takeWhile (is_combining_mark gc) ?vis @ ?p @ (ms @ rest)"
    by (metis append.assoc takeWhile_dropWhile_id)
  have clean: "set ?vis \<subseteq> {32} \<union> Collect (visible_char gc)" "single_spaced ?vis"
    using sanitize_loop_clean [of "[]" gc False 0 raw] by simp_all
  have "set ?p \<subseteq> set ?vis" by (subst vis) auto
  moreover have "single_spaced ?p" using clean(2) by (subst (asm) vis) (rule single_spaced_infix)
  moreover have "length ?p \<le> length cut"
    using \<open>cut = ?p @ ms\<close> by (metis le_add1 length_append)
  moreover have "?p = [] \<or> last ?p \<noteq> 32" using pop_while_last [of "\<lambda>c. c = 32" cut] by auto
  ultimately show ?thesis using out clean len by (auto intro: single_spaced_snoc)
qed

section \<open>The walk collects the ancestry\<close>

text \<open>The first \<open>n\<close> processes met when following parents from \<open>cur\<close>, and the pid met next.\<close>

fun ancestors :: "system \<Rightarrow> nat option \<Rightarrow> nat \<Rightarrow> (nat \<times> process) list" where
  "ancestors sys cur 0 = []"
| "ancestors sys cur (Suc n) = (case cur of
      None \<Rightarrow> []
    | Some pid \<Rightarrow> (case sys pid of None \<Rightarrow> [] | Some p \<Rightarrow> (pid, p) # ancestors sys (pr_parent p) n))"

fun after_steps :: "system \<Rightarrow> nat option \<Rightarrow> nat \<Rightarrow> nat option" where
  "after_steps sys cur 0 = cur"
| "after_steps sys cur (Suc n) = after_steps sys (Option.bind cur (parent_of sys)) n"

definition useful_frames :: "categories \<Rightarrow> ustring option \<Rightarrow> (nat \<times> process) list \<Rightarrow> Caller list" where
  "useful_frames gc my_exe ps =
     filter (\<lambda>c. \<not> is_self_frame c my_exe) (map (\<lambda>(pid, p). describe_process gc pid p) ps)"

lemma useful_frames_simps [simp]:
  "useful_frames gc e [] = []"
  "useful_frames gc e ((pid, p) # ps) =
     (if is_self_frame (describe_process gc pid p) e then useful_frames gc e ps
      else describe_process gc pid p # useful_frames gc e ps)"
  by (auto simp: useful_frames_def)

lemma walk_loop_spec:
  assumes "length frames \<le> max_chain" "walked \<le> max_walk"
  shows "\<exists>n. walked + n \<le> max_walk \<and> length (ancestors sys cur n) = n
    \<and> (let r = walk_loop gc sys e max_chain max_walk frames cur walked;
           nxt = after_steps sys cur n
       in cc_frames r = frames @ useful_frames gc e (ancestors sys cur n)
          \<and> length (cc_frames r) \<le> max_chain
          \<and> (cc_truncated r \<longleftrightarrow>
               nxt \<noteq> None \<and> (walked + n = max_walk \<or> length (cc_frames r) = max_chain))
          \<and> (\<not> cc_truncated r \<longrightarrow> Option.bind nxt sys = None))"
  using assms
proof (induction gc sys e max_chain max_walk frames cur walked rule: walk_loop.induct)
  case (1 gc sys e mc mw frames walked)
  then show ?case by (intro exI [of _ 0]) simp
next
  case (2 gc sys e mc mw frames pid walked)
  show ?case
  proof (cases "walked \<ge> mw \<or> length frames \<ge> mc")
    case True
    then show ?thesis using "2.prems" by (intro exI [of _ 0]) auto
  next
    case go: False
    show ?thesis
    proof (cases "sys pid")
      case None
      with go show ?thesis using "2.prems" by (intro exI [of _ 0]) auto
    next
      case (Some p)
      let ?c = "describe_process gc pid p"
      let ?fr = "if is_self_frame ?c e then frames else frames @ [?c]"
      have len: "length ?fr \<le> mc" "walked + 1 \<le> mw" using go by auto
      from "2.IH" [OF go Some refl refl len] obtain n where
        n: "walked + 1 + n \<le> mw" "length (ancestors sys (pr_parent p) n) = n"
        "let r = walk_loop gc sys e mc mw ?fr (pr_parent p) (walked + 1);
             nxt = after_steps sys (pr_parent p) n
         in cc_frames r = ?fr @ useful_frames gc e (ancestors sys (pr_parent p) n)
          \<and> length (cc_frames r) \<le> mc
          \<and> (cc_truncated r \<longleftrightarrow> nxt \<noteq> None \<and> (walked + 1 + n = mw \<or> length (cc_frames r) = mc))
          \<and> (\<not> cc_truncated r \<longrightarrow> Option.bind nxt sys = None)"
        by blast
      have step: "walk_loop gc sys e mc mw frames (Some pid) walked =
          walk_loop gc sys e mc mw ?fr (pr_parent p) (walked + 1)"
        using go Some by (simp add: Let_def)
      have par: "parent_of sys pid = pr_parent p" using Some by (simp add: parent_of_def)
      show ?thesis
        using n Some unfolding step Let_def
        by (intro exI [of _ "Suc n"]) (auto simp: par)
    qed
  qed
qed

section \<open>The anchor of a signing grant\<close>

definition rename_frame :: "(ustring \<Rightarrow> ustring) \<Rightarrow> Caller \<Rightarrow> Caller" where
  "rename_frame f c = c\<lparr>ca_name := f (ca_name c)\<rparr>"

definition exe_known :: "Caller \<Rightarrow> bool" where
  "exe_known c \<longleftrightarrow> Option.bind (ca_exe c) path_file_name \<noteq> None"

lemma frame_identity_rename: "exe_known c \<Longrightarrow> frame_identity (rename_frame f c) = frame_identity c"
  by (auto simp: exe_known_def frame_identity_def rename_frame_def)

lemma frame_predicates_rename:
  assumes "exe_known c"
  shows "is_session_frame (rename_frame f c) = is_session_frame c"
    "is_transport_frame (rename_frame f c) = is_transport_frame c"
    "forwarding_frame (rename_frame f c) = forwarding_frame c"
  using frame_identity_rename [OF assms, of f]
  by (simp_all add: is_session_frame_def is_transport_frame_def forwarding_frame_def)
    (simp add: rename_frame_def)

lemma identity_rename [simp]: "caller_identity (rename_frame f c) = caller_identity c"
  by (simp add: caller_identity_def rename_frame_def)

lemma find_map_cong:
  "(\<And>x. x \<in> set xs \<Longrightarrow> P (g x) = P x) \<Longrightarrow> find P (map g xs) = map_option g (find P xs)"
  by (induction xs) auto

lemma select_anchor_rename:
  assumes "\<forall>c \<in> set chain. exe_known c"
  shows "select_anchor (map (rename_frame f) chain) = map_option (rename_frame f) (select_anchor chain)"
proof -
  have a: "find is_session_frame (map (rename_frame f) chain) = map_option (rename_frame f) (find is_session_frame chain)"
    using assms by (intro find_map_cong) (simp add: frame_predicates_rename)
  have b: "find (\<lambda>c. \<not> is_transport_frame c) (map (rename_frame f) chain) =
      map_option (rename_frame f) (find (\<lambda>c. \<not> is_transport_frame c) chain)"
    using assms by (intro find_map_cong) (simp add: frame_predicates_rename)
  show ?thesis
    by (simp add: select_anchor_def a b or_else_def last_opt_def last_map split: option.splits)
qed

lemma select_anchor_in: "select_anchor chain = Some c \<Longrightarrow> c \<in> set chain"
  by (auto simp: select_anchor_def or_else_def last_opt_def find_Some_iff
      split: option.splits if_splits)

lemma select_anchor_None: "select_anchor chain = None \<longleftrightarrow> chain = []"
  by (auto simp: select_anchor_def or_else_def last_opt_def split: option.splits if_splits)

section \<open>Properties\<close>

text \<open>
  Whatever a process calls itself, the text shown for it is one row: it holds single
  spaces, visible characters and at most the closing ellipsis, no control or reordering
  character, no line break, and at most one character more than the display cap.
\<close>

theorem sanitized_text_is_one_row:
  "set (sanitize_display gc raw)
     \<subseteq> {32, 0x2026} \<union> {c. \<not> is_whitespace c \<and> \<not> is_invisible_or_reordering gc c}
   \<and> (\<forall>a b. sanitize_display gc raw \<noteq> a @ [32, 32] @ b)
   \<and> length (sanitize_display gc raw) \<le> 301"
  using sanitize_display_out [OF refl, of gc raw]
  by (simp add: single_spaced_def visible_char_def [abs_def] MAX_DISPLAY_CHARS_def)

text \<open>
  C5. The walk returns the frames of the first \<open>n\<close> ancestors that are not secreq's own, nearest
  first, and nothing else; it is marked truncated exactly when a ceiling stopped it below a
  further ancestor, and otherwise the ancestry ended (or its next process had exited).
\<close>

theorem walk_reports_truncation:
  "\<exists>n \<le> max_walk. let r = walk gc sys start e max_chain max_walk; nxt = after_steps sys start n in
     length (ancestors sys start n) = n
     \<and> cc_frames r = useful_frames gc e (ancestors sys start n)
     \<and> length (cc_frames r) \<le> max_chain
     \<and> cc_truncated r = (nxt \<noteq> None \<and> (n = max_walk \<or> length (cc_frames r) = max_chain))
     \<and> (cc_truncated r \<or> Option.bind nxt sys = None)"
  using walk_loop_spec [of "[]" max_chain 0 max_walk sys start gc e]
  by (simp add: walk_def Let_def) blast

text \<open>
  C38. No process can nominate itself: where the kernel reports the executables, the process a
  signing grant binds to, and whether a frame is dropped as secreq's own, do not depend on any
  name the processes chose.
\<close>

theorem anchor_ignores_chosen_names:
  assumes "\<forall>c \<in> set chain. exe_known c"
    and "\<forall>p \<in> set_option peer. exe_known (pp_caller p)"
  shows "map_option (\<lambda>a. (sa_identity a, sa_kind a))
      (select_sign_anchor (map_option (\<lambda>p. p\<lparr>pp_caller := rename_frame f (pp_caller p)\<rparr>) peer)
         (map (rename_frame f) chain)) =
    map_option (\<lambda>a. (sa_identity a, sa_kind a)) (select_sign_anchor peer chain)
    \<and> (\<forall>c \<in> set chain. is_self_frame (rename_frame f c) (Some mine) = is_self_frame c (Some mine))"
proof -
  have peer: "peer_forwards (map_option (\<lambda>p. p\<lparr>pp_caller := rename_frame f (pp_caller p)\<rparr>) peer) =
      map_option (\<lambda>p. p\<lparr>pp_caller := rename_frame f (pp_caller p)\<rparr>) (peer_forwards peer)"
    using assms(2) by (auto simp: peer_forwards_def frame_predicates_rename split: option.splits)
  have ff: "find forwarding_frame (map (rename_frame f) chain) =
      map_option (rename_frame f) (find forwarding_frame chain)"
    using assms(1) by (intro find_map_cong) (simp add: frame_predicates_rename)
  have "is_self_frame (rename_frame f c) (Some mine) = is_self_frame c (Some mine)"
    if "c \<in> set chain" for c
    using assms(1) that by (auto simp: is_self_frame_def rename_frame_def exe_known_def split: option.splits)
  then show ?thesis
    by (auto simp: select_sign_anchor_def peer ff select_anchor_rename [OF assms(1)]
        sign_anchor_of_def option.map_comp comp_def split: option.splits)
qed

text \<open>At a shell that calls itself \<open>secreq\<close> below a peer that calls itself \<open>zsh\<close>.\<close>

definition sample_frame :: "nat \<Rightarrow> string \<Rightarrow> string \<Rightarrow> Caller" where
  "sample_frame pid exe name =
     \<lparr>ca_pid = pid, ca_name = ustr name, ca_command = ustr name, ca_exe = Some (ustr exe), ca_start_time = 7\<rparr>"

lemma exe_known_sample:
  "exe_known (sample_frame 10 ''/bin/zsh'' n)" "exe_known (sample_frame 11 ''/tmp/zz'' n)"
  by (simp_all add: exe_known_def sample_frame_def path_file_name_def path_parts_def ustr_def)

theorem anchor_ignores_chosen_names_witness:
  "map_option (\<lambda>a. (sa_identity a, sa_kind a))
     (select_sign_anchor
        (Some \<lparr>pp_caller = sample_frame 11 ''/tmp/zz'' ''zsh'', pp_forwards_agent = True\<rparr>)
        [sample_frame 10 ''/bin/zsh'' ''secreq'']) =
   Some (\<lparr>pi_pid = 10, pi_start_time = 7\<rparr>, Session)"
proof -
  let ?shell = "sample_frame 10 ''/bin/zsh'' ''zsh''"
  let ?peer = "Some \<lparr>pp_caller = sample_frame 11 ''/tmp/zz'' ''ssh'', pp_forwards_agent = True\<rparr>"
  let ?f = "\<lambda>n. if n = ustr ''ssh'' then ustr ''zsh'' else ustr ''secreq''"
  have "map_option (\<lambda>a. (sa_identity a, sa_kind a)) (select_sign_anchor ?peer [?shell])
      = Some (\<lparr>pi_pid = 10, pi_start_time = 7\<rparr>, Session)"
    by (simp add: select_sign_anchor_def peer_forwards_def is_transport_frame_def frame_identity_def
        path_file_name_def path_parts_def sample_frame_def ustr_def TRANSPORT_FRAMES_def
        forwarding_frame_def select_anchor_def is_session_frame_def SESSION_FRAMES_def
        or_else_def sign_anchor_of_def caller_identity_def)
  with anchor_ignores_chosen_names [of "[?shell]" ?peer ?f]
  have "map_option (\<lambda>a. (sa_identity a, sa_kind a))
      (select_sign_anchor (map_option (\<lambda>p. p\<lparr>pp_caller := rename_frame ?f (pp_caller p)\<rparr>) ?peer)
        (map (rename_frame ?f) [?shell])) = Some (\<lparr>pi_pid = 10, pi_start_time = 7\<rparr>, Session)"
    by (simp add: exe_known_sample)
  then show ?thesis
    by (simp add: rename_frame_def sample_frame_def ustr_def select_sign_anchor_def peer_forwards_def
        is_transport_frame_def frame_identity_def path_file_name_def path_parts_def
        TRANSPORT_FRAMES_def forwarding_frame_def select_anchor_def is_session_frame_def
        SESSION_FRAMES_def or_else_def sign_anchor_of_def caller_identity_def)
qed

end
