(* ===== verification/Consent.thy ===== *)
theory Consent
  imports Provenance
begin

text \<open>
  \<open>src/packages/secreq/src/consent.rs\<close>: the decision a user or a rule makes, the remembered
  approvals, and the two kinds of time-bounded grant. Times are Unix seconds as \<open>nat\<close>; the
  code only compares them here.
\<close>

section \<open>Decisions\<close>

datatype Decision =
    Approve | ApproveRemember | ApproveCached | ApproveAuto
  | ApproveSshSession | ApproveSshSessionAll | ApproveAgentSession
  | Deny | DenyAuto | DenyOutOfScope | Abandoned

fun approved :: "Decision \<Rightarrow> bool" where
  "approved Approve = True"
| "approved ApproveRemember = True"
| "approved ApproveCached = True"
| "approved ApproveAuto = True"
| "approved ApproveSshSession = True"
| "approved ApproveSshSessionAll = True"
| "approved ApproveAgentSession = True"
| "approved Deny = False"
| "approved DenyAuto = False"
| "approved DenyOutOfScope = False"
| "approved Abandoned = False"

fun decision_as_str :: "Decision \<Rightarrow> string" where
  "decision_as_str Approve = ''approve''"
| "decision_as_str ApproveRemember = ''approve+remember''"
| "decision_as_str ApproveCached = ''approve+cached''"
| "decision_as_str ApproveAuto = ''approve+auto''"
| "decision_as_str ApproveSshSession = ''approve+ssh-session''"
| "decision_as_str ApproveSshSessionAll = ''approve+ssh-session-all''"
| "decision_as_str ApproveAgentSession = ''approve+agent-session''"
| "decision_as_str Deny = ''deny''"
| "decision_as_str DenyAuto = ''deny+auto''"
| "decision_as_str DenyOutOfScope = ''deny+out-of-scope''"
| "decision_as_str Abandoned = ''abandoned''"

text \<open>The audit spelling of a decision tells at a glance whether a secret was released.\<close>

lemma approved_spelling: "approved d \<longleftrightarrow> starts_with (decision_as_str d) ''approve''"
  by (cases d) (simp_all add: starts_with_def)

lemma decision_as_str_inj: "decision_as_str d = decision_as_str e \<Longrightarrow> d = e"
  by (cases d; cases e; simp)

section \<open>Remembered approvals\<close>

record ApprovalEntry =
  ap_wrap :: string
  ap_parent :: ProcessIdentity

section \<open>Time-bounded grants\<close>

datatype SshGrantScope = OneKey string | AllKeys

record SshGrant =
  sg_scope :: SshGrantScope
  sg_anchor :: ProcessIdentity
  sg_expires_at :: nat

definition ssh_grant_matches :: "SshGrant \<Rightarrow> string \<Rightarrow> ProcessIdentity \<Rightarrow> nat \<Rightarrow> bool" where
  "ssh_grant_matches g key_id anchor now =
     (let key_ok = (case sg_scope g of OneKey i \<Rightarrow> i = key_id | AllKeys \<Rightarrow> True)
      in key_ok \<and> sg_anchor g = anchor \<and> now < sg_expires_at g)"

record AgentAnchor =
  aa_scope :: string

record AgentGrant =
  ag_anchor :: AgentAnchor
  ag_reference :: string
  ag_expires_at :: nat

definition agent_grant_matches :: "AgentGrant \<Rightarrow> string \<Rightarrow> string \<Rightarrow> nat \<Rightarrow> bool" where
  "agent_grant_matches g scope ref now \<longleftrightarrow>
     aa_scope (ag_anchor g) = scope \<and> ag_reference g = ref \<and> now < ag_expires_at g"

section \<open>The interface of a grant store\<close>

text \<open>
  What a list of grants needs of its grants: a grant matches a request iff it covers it and the
  clock has not reached its expiry. Everything else about a store (pruning on access,
  de-duplicated recording) follows.
\<close>

locale grant_store =
  fixes grant_matches :: "'g \<Rightarrow> 'q \<Rightarrow> nat \<Rightarrow> bool"
    and covers :: "'g \<Rightarrow> 'q \<Rightarrow> bool"
    and expiry :: "'g \<Rightarrow> nat"
  assumes grant_matches_iff: "grant_matches g q now \<longleftrightarrow> covers g q \<and> now < expiry g"
begin

lemma live_mono: "grant_matches g q now \<Longrightarrow> earlier \<le> now \<Longrightarrow> grant_matches g q earlier"
  by (simp add: grant_matches_iff)

lemma expired_never: "expiry g \<le> now \<Longrightarrow> \<not> grant_matches g q now"
  by (simp add: grant_matches_iff)

lemma prune_lookup:
  "now \<le> t \<Longrightarrow>
   list_ex (\<lambda>g. grant_matches g q t) (filter (\<lambda>g. now < expiry g) gs) =
   list_ex (\<lambda>g. grant_matches g q t) gs"
  by (auto simp: list_ex_iff grant_matches_iff)

lemma record_lookup:
  "list_ex (\<lambda>g. grant_matches g q t) (if g0 \<in> set gs then gs else gs @ [g0]) \<longleftrightarrow>
   grant_matches g0 q t \<or> list_ex (\<lambda>g. grant_matches g q t) gs"
  by (auto simp: list_ex_iff)

end

definition ssh_covers :: "SshGrant \<Rightarrow> string \<times> ProcessIdentity \<Rightarrow> bool" where
  "ssh_covers g q \<longleftrightarrow> sg_anchor g = snd q \<and> (sg_scope g = AllKeys \<or> sg_scope g = OneKey (fst q))"

lemma ssh_grant_matches_iff:
  "ssh_grant_matches g k a now \<longleftrightarrow> ssh_covers g (k, a) \<and> now < sg_expires_at g"
  by (auto simp: ssh_grant_matches_def ssh_covers_def split: SshGrantScope.splits)

interpretation ssh_grants: grant_store
  "\<lambda>g (k, a). ssh_grant_matches g k a" ssh_covers sg_expires_at
  by unfold_locales (auto simp: ssh_grant_matches_iff split: prod.splits)

interpretation agent_grants: grant_store
  "\<lambda>g (s, r). agent_grant_matches g s r"
  "\<lambda>g (s, r). aa_scope (ag_anchor g) = s \<and> ag_reference g = r" ag_expires_at
  by unfold_locales (auto simp: agent_grant_matches_def split: prod.splits)

end
