(* ===== verification/Proto.thy ===== *)
theory Proto
  imports Consent Reference
begin

text \<open>
  \<open>src/packages/secreq/src/daemon/proto.rs\<close>: the ask a client sends, the kinds of subject it
  can be about and the projections of it the daemon reads, with the cache lifetime of
  \<open>wraps.rs\<close> that rides on each requested secret. A \<open>Duration\<close> is a number of nanoseconds.
  The message enums are in the theory \<open>Messages\<close>, after the rules they carry.
\<close>

section \<open>Cache lifetimes\<close>

datatype CacheTtl = DaemonLifetime | Secs nat

definition NANOS :: nat where "NANOS = 1000000000"

fun expired_after :: "CacheTtl \<Rightarrow> nat \<Rightarrow> bool" where
  "expired_after DaemonLifetime age = False"
| "expired_after (Secs secs) age = (age \<ge> secs * NANOS)"

lemma expired_after_mono: "expired_after ttl a \<Longrightarrow> a \<le> b \<Longrightarrow> expired_after ttl b"
  by (cases ttl) auto

section \<open>The ask\<close>

record WireCaller =
  wc_pid :: nat
  wc_name :: string
  wc_command :: string
  wc_start_time :: nat
  wc_exe :: "string option"

definition wire_identity :: "WireCaller \<Rightarrow> ProcessIdentity" where
  "wire_identity c = \<lparr>pi_pid = wc_pid c, pi_start_time = wc_start_time c\<rparr>"

record SecretAsk =
  sk_name :: string
  sk_provider :: string
  sk_locator :: string
  sk_default :: "string option"
  sk_description :: "string option"
  sk_reason :: "string option"
  sk_requested_by :: "string list"
  sk_declared_as :: "string option"
  sk_ttl :: CacheTtl

record WireBatchRetrieve =
  wb_command :: "string list"
  wb_env_value_template :: string

record WireProvider =
  wp_name :: string
  wp_retrieve :: "string list"
  wp_retrieve_batch :: "WireBatchRetrieve option"

record WrapSubject =
  ws_cwd :: string
  ws_callers :: "WireCaller list"
  ws_callers_truncated :: bool
  ws_secrets :: "SecretAsk list"
  ws_providers :: "(string, WireProvider) hmap"
  ws_allow_remember :: bool
  ws_nested_run :: bool
  ws_ignore_remembered :: bool

record SshAnchorInfo =
  si_name :: string
  si_pid :: nat
  si_kind :: SignAnchorKind
  si_command :: "string option"

record SshAskInfo =
  sh_key_id :: string
  sh_fingerprint :: string
  sh_reason :: "string option"
  sh_anchor :: "SshAnchorInfo option"

record SshSubject =
  ss_cwd :: string
  ss_callers :: "WireCaller list"
  ss_callers_truncated :: bool
  ss_info :: SshAskInfo

record LocalPeer =
  lp_pid :: nat
  lp_name :: string
  lp_command :: string
  lp_exe :: "string option"

record AgentAskInfo =
  ai_scope :: string
  ai_reference :: string
  ai_guest_chain :: "string option"
  ai_declared_by :: "LocalPeer option"

datatype AskSubject = Wrap WrapSubject | SshSign SshSubject | ScopedAgent AgentAskInfo

datatype AskAnchor = ProcessAnchor ProcessIdentity | RunSessionAnchor nat nat | AgentSocketAnchor nat

fun process_identity :: "AskAnchor \<Rightarrow> ProcessIdentity option" where
  "process_identity (ProcessAnchor i) = Some i"
| "process_identity (RunSessionAnchor pid nonce) = None"
| "process_identity (AgentSocketAnchor pid) = None"

fun anchor_pid :: "AskAnchor \<Rightarrow> nat" where
  "anchor_pid (ProcessAnchor i) = pi_pid i"
| "anchor_pid (RunSessionAnchor pid nonce) = pid"
| "anchor_pid (AgentSocketAnchor pid) = pid"

record DedupeKey =
  dk_wrap :: string
  dk_anchor :: AskAnchor
  dk_subject_digest :: "string option"

record Ask =
  ask_command :: "string list"
  ask_dedupe_key :: DedupeKey
  ask_subject :: AskSubject

text \<open>\<open>ScopeDeclarant\<close> of \<open>audit.rs\<close>; an \<open>AuditLocalPeer\<close> has the fields of a \<open>LocalPeer\<close>.\<close>

datatype ScopeDeclarant = Peer LocalPeer | Gone | NotRead

section \<open>Projections of an ask\<close>

definition callers :: "Ask \<Rightarrow> WireCaller list" where
  "callers a = (case ask_subject a of
      Wrap w \<Rightarrow> ws_callers w | SshSign s \<Rightarrow> ss_callers s | ScopedAgent _ \<Rightarrow> [])"

definition callers_truncated :: "Ask \<Rightarrow> bool" where
  "callers_truncated a = (case ask_subject a of
      Wrap w \<Rightarrow> ws_callers_truncated w | SshSign s \<Rightarrow> ss_callers_truncated s | ScopedAgent _ \<Rightarrow> False)"

definition declared_by :: "Ask \<Rightarrow> ScopeDeclarant option" where
  "declared_by a = (case ask_subject a of
      ScopedAgent agent \<Rightarrow> Some (case ai_declared_by agent of Some p \<Rightarrow> Peer p | None \<Rightarrow> Gone)
    | Wrap _ \<Rightarrow> None | SshSign _ \<Rightarrow> None)"

definition sign_anchor :: "Ask \<Rightarrow> SshAnchorInfo option" where
  "sign_anchor a = (case ask_subject a of
      SshSign s \<Rightarrow> sh_anchor (ss_info s) | Wrap _ \<Rightarrow> None | ScopedAgent _ \<Rightarrow> None)"

definition secrets :: "Ask \<Rightarrow> SecretAsk list" where
  "secrets a = (case ask_subject a of
      Wrap w \<Rightarrow> ws_secrets w | SshSign _ \<Rightarrow> [] | ScopedAgent _ \<Rightarrow> [])"

definition cwd :: "Ask \<Rightarrow> string" where
  "cwd a = (case ask_subject a of Wrap w \<Rightarrow> ws_cwd w | SshSign s \<Rightarrow> ss_cwd s | ScopedAgent _ \<Rightarrow> [])"

definition allow_remember :: "Ask \<Rightarrow> bool" where
  "allow_remember a = (case ask_subject a of
      Wrap w \<Rightarrow> ws_allow_remember w | SshSign _ \<Rightarrow> False | ScopedAgent _ \<Rightarrow> False)"

definition providers :: "Ask \<Rightarrow> (string, WireProvider) hmap" where
  "providers a = (case ask_subject a of
      Wrap w \<Rightarrow> ws_providers w | SshSign _ \<Rightarrow> [] | ScopedAgent _ \<Rightarrow> [])"

definition ignore_remembered :: "Ask \<Rightarrow> bool" where
  "ignore_remembered a = (case ask_subject a of
      Wrap w \<Rightarrow> ws_ignore_remembered w | SshSign _ \<Rightarrow> False | ScopedAgent _ \<Rightarrow> False)"

definition nested_run :: "Ask \<Rightarrow> bool" where
  "nested_run a = (case ask_subject a of
      Wrap w \<Rightarrow> ws_nested_run w | SshSign _ \<Rightarrow> False | ScopedAgent _ \<Rightarrow> False)"

text \<open>\<open>if let Some(w) = ask.wrap_mut() { f(w) }\<close>.\<close>

definition wrap_mut :: "(WrapSubject \<Rightarrow> WrapSubject) \<Rightarrow> Ask \<Rightarrow> Ask" where
  "wrap_mut f a = (case ask_subject a of
      Wrap w \<Rightarrow> a\<lparr>ask_subject := Wrap (f w)\<rparr> | SshSign _ \<Rightarrow> a | ScopedAgent _ \<Rightarrow> a)"

lemma secrets_wrap_mut:
  "secrets (wrap_mut f a) = (case ask_subject a of Wrap w \<Rightarrow> ws_secrets (f w) | _ \<Rightarrow> [])"
  by (auto simp: secrets_def wrap_mut_def split: AskSubject.splits)

lemma wrap_mut_key [simp]: "ask_dedupe_key (wrap_mut f a) = ask_dedupe_key a"
  by (auto simp: wrap_mut_def split: AskSubject.splits)

text \<open>
  What the daemon tells of a scoped agent never depends on the guest: a guest can fill in only
  the chain it claims.
\<close>

definition set_guest_chain :: "string option \<Rightarrow> Ask \<Rightarrow> Ask" where
  "set_guest_chain g a = (case ask_subject a of
      ScopedAgent i \<Rightarrow> a\<lparr>ask_subject := ScopedAgent (i\<lparr>ai_guest_chain := g\<rparr>)\<rparr> | _ \<Rightarrow> a)"

lemma guest_chain_unread:
  "callers (set_guest_chain g a) = callers a" "secrets (set_guest_chain g a) = secrets a"
  "declared_by (set_guest_chain g a) = declared_by a"
  "allow_remember (set_guest_chain g a) = allow_remember a"
  "ask_dedupe_key (set_guest_chain g a) = ask_dedupe_key a"
  by (simp_all add: set_guest_chain_def callers_def secrets_def declared_by_def allow_remember_def
      split: AskSubject.splits)

end
