(* ===== verification/Provider.thy ===== *)
theory Provider
  imports Prelude Reference
begin

text \<open>
  \<open>src/packages/secreq/src/provider.rs\<close> and the data of \<open>manifest.rs\<close>: turning locators into
  values through provider subprocesses. A subprocess is the parameter \<open>run\<close>, a function from
  what it is started with to how it ended; its standard error reaches the model after
  \<open>from_utf8_lossy\<close>. \<open>BatchTiming\<close> (wall-clock measurements) is left out of the outcomes.
\<close>

section \<open>The data of manifest.rs\<close>

record FieldSpec =
  fs_required :: bool
  fs_default :: "string option"

datatype ValueMode = Arg | Stdin

record StoreCapability =
  sc_command :: "string list"
  sc_fields :: "(string, FieldSpec) btmap"
  sc_value_mode :: ValueMode
  sc_locator_template :: string

record BatchRetrieve =
  br_command :: "string list"
  br_env_value_template :: string

record Provider =
  pv_name :: string
  pv_retrieve :: "string list"
  pv_store :: "StoreCapability option"
  pv_retrieve_batch :: "BatchRetrieve option"

record Manifest =
  mf_providers :: "(string, Provider) btmap"

text \<open>\<open>FieldSpecWire\<close> and its conversion: \<open>optional\<close> wins when both are present.\<close>

record FieldSpecWire =
  fw_required :: bool
  fw_optional :: "bool option"
  fw_default :: "string option"

definition field_spec_of_wire :: "FieldSpecWire \<Rightarrow> FieldSpec" where
  "field_spec_of_wire w =
     \<lparr>fs_required = (case fw_optional w of None \<Rightarrow> fw_required w | Some opt \<Rightarrow> \<not> opt),
      fs_default = fw_default w\<rparr>"

definition value_mode_serialize :: "ValueMode \<Rightarrow> string" where
  "value_mode_serialize m = (case m of Stdin \<Rightarrow> ''stdin'' | Arg \<Rightarrow> ''{value}'')"

definition value_mode_deserialize :: "string \<Rightarrow> ValueMode" where
  "value_mode_deserialize raw = (if raw = ''stdin'' then Stdin else Arg)"

lemma value_mode_roundtrip: "value_mode_deserialize (value_mode_serialize m) = m"
  by (cases m) (simp_all add: value_mode_serialize_def value_mode_deserialize_def)

datatype provider_error =
    EmptyRetrieve string
  | EmptyStoreCommand string
  | EmptyBatchCommand string
  | EmptyTemplate
  | SpawnFailed string string
  | NonUtf8 string
  | NoBatchCapability string
  | BatchFailed string string string
  | NoStore string
  | StoreFailed string string string
  | MissingField string string
  | LiteralMismatch string
  | AdjacentPlaceholders
  | TrailingContent string
  | NotRoundTrip string string

text \<open>\<open>Provider::validate\<close> of \<open>manifest.rs\<close>, run on every provider of a config.\<close>

definition provider_validate :: "Provider \<Rightarrow> string \<Rightarrow> provider_error + unit" where
  "provider_validate p name =
     (if pv_retrieve p = [] then Inl (EmptyRetrieve name)
      else if (case pv_store p of Some st \<Rightarrow> sc_command st = [] | None \<Rightarrow> False)
      then Inl (EmptyStoreCommand name)
      else if (case pv_retrieve_batch p of Some b \<Rightarrow> br_command b = [] | None \<Rightarrow> False)
      then Inl (EmptyBatchCommand name)
      else Inr ())"

definition validate :: "Provider \<Rightarrow> provider_error + unit" where
  "validate p = (if pv_retrieve p = [] then Inl (EmptyRetrieve (pv_name p)) else Inr ())"

definition retrieve_program :: "Provider \<Rightarrow> string option" where
  "retrieve_program p = (case pv_retrieve p of [] \<Rightarrow> None | x # _ \<Rightarrow> Some x)"

definition required_field :: FieldSpec where
  "required_field = \<lparr>fs_required = True, fs_default = None\<rparr>"

text \<open>The built-in providers on Linux (the keychain entry is compiled for macOS only).\<close>

definition builtin_providers :: "(string, Provider) btmap" where
  "builtin_providers =
     fold (\<lambda>(k, v). bt_insert k v)
      [(''op'', \<lparr>pv_name = ''op'', pv_retrieve = [''op'', ''read'', ''op://{locator}''],
          pv_store = None,
          pv_retrieve_batch = Some \<lparr>br_command = [''op'', ''run'', ''--no-masking'', ''--'', ''printenv''],
            br_env_value_template = ''op://{locator}''\<rparr>\<rparr>),
       (''lastpass'', \<lparr>pv_name = ''lastpass'',
          pv_retrieve = [''lpass'', ''show'', ''--password'', ''{locator}''],
          pv_store = None, pv_retrieve_batch = None\<rparr>),
       (''pass'', \<lparr>pv_name = ''pass'', pv_retrieve = [''pass'', ''show'', ''{locator}''],
          pv_store = Some \<lparr>sc_command = [''pass'', ''insert'', ''-f'', ''-e'', ''{name}''],
            sc_fields = [(''name'', required_field)], sc_value_mode = Stdin,
            sc_locator_template = ''{name}''\<rparr>,
          pv_retrieve_batch = None\<rparr>)] []"

section \<open>Subprocesses\<close>

record run_request =
  rq_program :: string
  rq_args :: "string list"
  rq_env :: "(string \<times> string) list"
  rq_stdin :: "string option"

datatype run_result =
    NotStarted
  | Exited (succeeded: bool) (out_bytes: string) (err_text: string) (status: string)

type_synonym runner = "run_request \<Rightarrow> run_result"

definition RESOLVING_ENV :: string where
  "RESOLVING_ENV = ''SECREQ_RESOLVING''"

definition LOCATOR_PLACEHOLDER :: string where
  "LOCATOR_PLACEHOLDER = ''{locator}''"

definition VALUE_PLACEHOLDER :: string where
  "VALUE_PLACEHOLDER = ''{value}''"

definition MAX_PROVIDER_STDERR_CHARS :: nat where
  "MAX_PROVIDER_STDERR_CHARS = 400"

definition TRUNCATED :: string where
  "TRUNCATED = bytes [0xE2, 0x80, 0xA6] @ '' (truncated)''"

definition capture_stderr :: "string \<Rightarrow> string" where
  "capture_stderr text =
     (let kept = take_chars MAX_PROVIDER_STDERR_CHARS (trim text)
      in if char_count kept = MAX_PROVIDER_STDERR_CHARS then kept @ TRUNCATED else kept)"

definition strip_one_trailing_newline :: "string \<Rightarrow> string" where
  "strip_one_trailing_newline bs =
     (if bs \<noteq> [] \<and> last bs = CHR 0x0A then
        (let bs = butlast bs in if bs \<noteq> [] \<and> last bs = CHR 0x0D then butlast bs else bs)
      else bs)"

definition substitute_locator :: "string list \<Rightarrow> string \<Rightarrow> string list" where
  "substitute_locator template loc = map (replace_sub LOCATOR_PLACEHOLDER loc) template"

datatype RetrieveOutcome = Found string | NotFound string string

fun is_found :: "RetrieveOutcome \<Rightarrow> bool" where
  "is_found (Found _) = True"
| "is_found (NotFound _ _) = False"

section \<open>Retrieve\<close>

definition retrieve :: "runner \<Rightarrow> Provider \<Rightarrow> string \<Rightarrow> provider_error + RetrieveOutcome" where
  "retrieve run p loc = (case substitute_locator (pv_retrieve p) loc of
      [] \<Rightarrow> Inl EmptyTemplate
    | program # args \<Rightarrow>
        (case run \<lparr>rq_program = program, rq_args = args, rq_env = [(RESOLVING_ENV, ''1'')],
                   rq_stdin = None\<rparr> of
           NotStarted \<Rightarrow> Inl (SpawnFailed (pv_name p) program)
         | Exited ok out err st \<Rightarrow>
             if ok then
               (let v = strip_one_trailing_newline out
                in if utf8_ok v then Inr (Found v) else Inl (NonUtf8 (pv_name p)))
             else Inr (NotFound st (capture_stderr err))))"

text \<open>The lines of a batch output whose key was requested, later lines overriding earlier ones.\<close>

fun parse_batch_lines ::
  "string list \<Rightarrow> string list \<Rightarrow> (string, RetrieveOutcome) btmap \<Rightarrow> (string, RetrieveOutcome) btmap"
where
  "parse_batch_lines requested [] outcomes = outcomes"
| "parse_batch_lines requested (l # ls) outcomes =
     parse_batch_lines requested ls
       (case split_once (CHR ''='') l of
          Some (k, v) \<Rightarrow> if k \<in> set requested then bt_insert k (Found v) outcomes else outcomes
        | None \<Rightarrow> outcomes)"

definition NOT_PRESENT :: string where
  "NOT_PRESENT = ''not present in batch output (multi-line value? command misconfigured?)''"

fun fill_missing ::
  "string list \<Rightarrow> (string, RetrieveOutcome) btmap \<Rightarrow> (string, RetrieveOutcome) btmap" where
  "fill_missing [] outcomes = outcomes"
| "fill_missing (n # ns) outcomes =
     fill_missing ns (case map_of outcomes n of
        Some _ \<Rightarrow> outcomes | None \<Rightarrow> bt_insert n (NotFound NOT_PRESENT []) outcomes)"

definition batch_outcomes ::
  "(string \<times> string) list \<Rightarrow> string \<Rightarrow> (string, RetrieveOutcome) btmap" where
  "batch_outcomes requests text =
     fill_missing (map fst requests) (parse_batch_lines (map fst requests) (lines text) [])"

definition batch_failure :: "Provider \<Rightarrow> string \<Rightarrow> string \<Rightarrow> provider_error" where
  "batch_failure p st stderr =
     BatchFailed (pv_name p) st (if stderr = [] then [] else '': '' @ stderr)"

definition retrieve_batch ::
  "runner \<Rightarrow> Provider \<Rightarrow> (string \<times> string) list \<Rightarrow> provider_error + (string, RetrieveOutcome) btmap"
where
  "retrieve_batch run p requests = (case pv_retrieve_batch p of
      None \<Rightarrow> Inl (NoBatchCapability (pv_name p))
    | Some cap \<Rightarrow> (case br_command cap of
          [] \<Rightarrow> Inl EmptyTemplate
        | program # args \<Rightarrow>
            (case run \<lparr>rq_program = program, rq_args = args,
                rq_env = (RESOLVING_ENV, ''1'') #
                  map (\<lambda>(n, loc). (n, replace_sub LOCATOR_PLACEHOLDER loc (br_env_value_template cap)))
                    requests,
                rq_stdin = Some []\<rparr> of
               NotStarted \<Rightarrow> Inl (SpawnFailed (pv_name p) program)
             | Exited ok out err st \<Rightarrow>
                 if \<not> ok then Inl (batch_failure p st (capture_stderr err))
                 else if utf8_ok out then Inr (batch_outcomes requests out)
                 else Inl (NonUtf8 (pv_name p)))))"

section \<open>Store\<close>

fun substitute_fields :: "(string, string) btmap \<Rightarrow> string \<Rightarrow> string" where
  "substitute_fields [] out = out"
| "substitute_fields ((k, v) # fs) out =
     substitute_fields fs (replace_sub (''{'' @ k @ ''}'') v out)"

definition substitute_fields_and_value ::
  "string list \<Rightarrow> (string, string) btmap \<Rightarrow> string \<Rightarrow> ValueMode \<Rightarrow> string list" where
  "substitute_fields_and_value template fs v mode =
     map (\<lambda>arg. if mode \<noteq> Arg then substitute_fields fs arg
                else join_with v (map (substitute_fields fs) (split_sub VALUE_PLACEHOLDER arg)))
       template"

fun resolve_field_specs ::
  "string \<Rightarrow> (string \<times> FieldSpec) list \<Rightarrow> (string, string) btmap \<Rightarrow> (string, string) btmap
     \<Rightarrow> provider_error + (string, string) btmap" where
  "resolve_field_specs pname [] inputs out = Inr out"
| "resolve_field_specs pname ((f, spec) # specs) inputs out =
     (case map_of inputs f of
        Some v \<Rightarrow> resolve_field_specs pname specs inputs (bt_insert f v out)
      | None \<Rightarrow> (case fs_default spec of
            Some d \<Rightarrow> resolve_field_specs pname specs inputs (bt_insert f d out)
          | None \<Rightarrow> if fs_required spec then Inl (MissingField pname f)
                    else resolve_field_specs pname specs inputs out))"

fun extra_inputs :: "(string \<times> string) list \<Rightarrow> (string, string) btmap \<Rightarrow> (string, string) btmap" where
  "extra_inputs [] out = out"
| "extra_inputs ((k, v) # kvs) out =
     extra_inputs kvs (case map_of out k of Some _ \<Rightarrow> out | None \<Rightarrow> bt_insert k v out)"

definition resolve_fields ::
  "string \<Rightarrow> StoreCapability \<Rightarrow> (string, string) btmap \<Rightarrow> provider_error + (string, string) btmap" where
  "resolve_fields pname cap inputs =
     (case resolve_field_specs pname (sc_fields cap) inputs [] of
        Inl e \<Rightarrow> Inl e
      | Inr out \<Rightarrow> Inr (extra_inputs inputs out))"

definition stdin_payload :: "string \<Rightarrow> string" where
  "stdin_payload v = (if v \<noteq> [] \<and> last v = CHR 0x0A then v else v @ [CHR 0x0A])"

definition store :: "runner \<Rightarrow> Provider \<Rightarrow> (string, string) btmap \<Rightarrow> string \<Rightarrow> provider_error + string" where
  "store run p inputs v = (case pv_store p of
      None \<Rightarrow> Inl (NoStore (pv_name p))
    | Some cap \<Rightarrow> (case resolve_fields (pv_name p) cap inputs of
          Inl e \<Rightarrow> Inl e
        | Inr resolved \<Rightarrow>
            (case substitute_fields_and_value (sc_command cap) resolved v (sc_value_mode cap) of
               [] \<Rightarrow> Inl EmptyTemplate
             | program # args \<Rightarrow>
                 (case run \<lparr>rq_program = program, rq_args = args, rq_env = [(RESOLVING_ENV, ''1'')],
                     rq_stdin = Some (if sc_value_mode cap = Stdin then stdin_payload v else [])\<rparr> of
                    NotStarted \<Rightarrow> Inl (SpawnFailed (pv_name p) program)
                  | Exited ok out err st \<Rightarrow>
                      if \<not> ok then
                        Inl (StoreFailed (pv_name p) st
                          (if capture_stderr err = [] then [] else '': '' @ capture_stderr err))
                      else Inr (substitute_fields resolved (sc_locator_template cap))))))"

section \<open>Recovering fields from a locator\<close>

datatype TemplateToken = Literal string | Field string

function tokenize_locator_template :: "string \<Rightarrow> TemplateToken list" where
  "tokenize_locator_template rest = (case split_once (CHR ''{'') rest of
      None \<Rightarrow> if rest \<noteq> [] then [Literal rest] else []
    | Some (before, after) \<Rightarrow>
        (if before \<noteq> [] then [Literal before] else []) @
        (case split_once (CHR ''}'') after of
           Some (name, rest') \<Rightarrow> Field name # tokenize_locator_template rest'
         | None \<Rightarrow> [Literal (CHR ''{'' # after)]))"
  by pat_completeness auto
termination
  by (relation "measure length") (auto simp: split_once_Some)

declare tokenize_locator_template.simps [simp del]

fun match_tokens ::
  "TemplateToken list \<Rightarrow> string \<Rightarrow> (string, string) btmap \<Rightarrow> provider_error + (string, string) btmap"
where
  "match_tokens [] rest fs = (if rest \<noteq> [] then Inl (TrailingContent rest) else Inr fs)"
| "match_tokens (Literal lit # ts) rest fs = (case strip_prefix lit rest of
      None \<Rightarrow> Inl (LiteralMismatch lit)
    | Some rest' \<Rightarrow> match_tokens ts rest' fs)"
| "match_tokens [Field name] rest fs = match_tokens [] [] (bt_insert name rest fs)"
| "match_tokens (Field name # Literal lit # ts) rest fs = (case find_sub lit rest of
      None \<Rightarrow> Inl (LiteralMismatch lit)
    | Some i \<Rightarrow> match_tokens (Literal lit # ts) (drop i rest) (bt_insert name (take i rest) fs))"
| "match_tokens (Field name # Field name' # ts) rest fs = Inl AdjacentPlaceholders"

definition fields_from_locator ::
  "StoreCapability \<Rightarrow> string \<Rightarrow> provider_error + (string, string) btmap" where
  "fields_from_locator cap loc = match_tokens (tokenize_locator_template (sc_locator_template cap)) loc []"

definition store_at_locator :: "runner \<Rightarrow> Provider \<Rightarrow> string \<Rightarrow> string \<Rightarrow> provider_error + unit" where
  "store_at_locator run p loc v = (case pv_store p of
      None \<Rightarrow> Inl (NoStore (pv_name p))
    | Some cap \<Rightarrow> (case fields_from_locator cap loc of
          Inl e \<Rightarrow> Inl e
        | Inr fs \<Rightarrow> (case store run p fs v of
              Inl e \<Rightarrow> Inl e
            | Inr computed \<Rightarrow> if computed \<noteq> loc then Inl (NotRoundTrip computed loc) else Inr ())))"

section \<open>Pasted locators\<close>

definition native_locator_prefix :: "Provider \<Rightarrow> string option" where
  "native_locator_prefix p =
     (case find (\<lambda>arg. contains_sub arg LOCATOR_PLACEHOLDER) (pv_retrieve p) of
        None \<Rightarrow> None
      | Some arg \<Rightarrow> (case find_sub LOCATOR_PLACEHOLDER arg of
            None \<Rightarrow> None
          | Some i \<Rightarrow> if ends_with (take i arg) ''://'' then Some (take i arg) else None))"

definition unquote :: "string \<Rightarrow> string \<Rightarrow> string option" where
  "unquote q s = Option.bind (strip_prefix q s) (strip_suffix q)"

definition normalize_pasted_locator :: "Provider \<Rightarrow> string \<Rightarrow> string" where
  "normalize_pasted_locator p raw =
     (let s = trim raw;
          s = (case unquote [CHR 0x22] s of
                 Some inner \<Rightarrow> trim inner
               | None \<Rightarrow> (case unquote [CHR 0x27] s of Some inner \<Rightarrow> trim inner | None \<Rightarrow> s))
      in case strip_prefix (SCHEME @ pv_name p @ ''/'') s of
           Some rest \<Rightarrow> rest
         | None \<Rightarrow> (case native_locator_prefix p of
               Some pre \<Rightarrow> (case strip_prefix pre s of Some rest \<Rightarrow> rest | None \<Rightarrow> s)
             | None \<Rightarrow> s))"

section \<open>Batch outcomes\<close>

text \<open>The value the output gives a name: the last line \<open>name=value\<close>.\<close>

definition key_values :: "string list \<Rightarrow> (string \<times> string) list" where
  "key_values ls = List.map_filter (split_once (CHR ''='')) ls"

definition batch_value :: "string list \<Rightarrow> string \<Rightarrow> string option" where
  "batch_value ls n = map_of (rev (key_values ls)) n"

lemma key_values_simps [simp]:
  "key_values [] = []"
  "key_values (l # ls) = (case split_once (CHR ''='') l of
     Some kv \<Rightarrow> kv # key_values ls | None \<Rightarrow> key_values ls)"
  by (auto simp: key_values_def List.map_filter_def split: option.splits)

lemma batch_value_Cons:
  "batch_value (l # ls) n = (case batch_value ls n of Some v \<Rightarrow> Some v | None \<Rightarrow>
     (case split_once (CHR ''='') l of Some (k, v) \<Rightarrow> if k = n then Some v else None | None \<Rightarrow> None))"
  by (auto simp: batch_value_def map_add_def split: option.splits)

lemma batch_value_Nil [simp]: "batch_value [] n = None"
  by (simp add: batch_value_def)

lemma parse_batch_lines_get:
  "bt_wf m \<Longrightarrow> bt_wf (parse_batch_lines req ls m) \<and>
   map_of (parse_batch_lines req ls m) n =
     (case (if n \<in> set req then batch_value ls n else None) of
        Some v \<Rightarrow> Some (Found v) | None \<Rightarrow> map_of m n)"
proof (induction req ls m rule: parse_batch_lines.induct)
  case (1 req m)
  then show ?case by simp
next
  case (2 req l ls m)
  show ?case
  proof (cases "split_once (CHR ''='') l")
    case None
    with 2 show ?thesis by (simp add: batch_value_Cons split: option.splits)
  next
    case (Some kv)
    obtain k v where kv: "kv = (k, v)" by force
    show ?thesis
    proof (cases "k \<in> set req")
      case True
      with 2 Some kv show ?thesis by (auto simp: batch_value_Cons split: option.splits)
    next
      case False
      with 2 Some kv show ?thesis by (auto simp: batch_value_Cons split: option.splits)
    qed
  qed
qed

lemma fill_missing_get:
  "bt_wf m \<Longrightarrow> bt_wf (fill_missing ns m) \<and>
   map_of (fill_missing ns m) n =
     (case map_of m n of Some x \<Rightarrow> Some x
      | None \<Rightarrow> if n \<in> set ns then Some (NotFound NOT_PRESENT []) else None)"
proof (induction ns m rule: fill_missing.induct)
  case (1 m)
  then show ?case by (simp split: option.splits)
next
  case (2 n' ns m)
  then show ?case by (cases "map_of m n'") (auto split: option.splits)
qed

lemma batch_outcomes_get:
  "map_of (batch_outcomes reqs text) n =
     (if n \<in> fst ` set reqs then
        Some (case batch_value (lines text) n of
            Some v \<Rightarrow> Found v | None \<Rightarrow> NotFound NOT_PRESENT [])
      else None)"
proof -
  let ?p = "parse_batch_lines (map fst reqs) (lines text) []"
  have p: "bt_wf ?p" "map_of ?p n =
      (case (if n \<in> set (map fst reqs) then batch_value (lines text) n else None) of
        Some v \<Rightarrow> Some (Found v) | None \<Rightarrow> None)"
    using parse_batch_lines_get [of "[]" "map fst reqs" "lines text" n]
    by (simp_all split: option.splits)
  then show ?thesis
    using fill_missing_get [OF p(1), of "map fst reqs" n]
    by (simp add: batch_outcomes_def split: option.splits)
qed

lemma bt_wf_batch_outcomes: "bt_wf (batch_outcomes reqs text)"
  using parse_batch_lines_get [of "[]"] fill_missing_get by (simp add: batch_outcomes_def)

lemma retrieve_batch_outs:
  "retrieve_batch run p reqs = Inr outs \<Longrightarrow> \<exists>text. outs = batch_outcomes reqs text"
  by (auto simp: retrieve_batch_def split: option.splits list.splits run_result.splits if_splits)

lemma retrieve_batch_Inr:
  "retrieve_batch run p reqs = Inr outs \<Longrightarrow> bt_wf outs"
  "retrieve_batch run p reqs = Inr outs \<Longrightarrow> map_of outs n \<noteq> None \<longleftrightarrow> n \<in> fst ` set reqs"
proof -
  assume "retrieve_batch run p reqs = Inr outs"
  then obtain t where "outs = batch_outcomes reqs t" using retrieve_batch_outs by blast
  then show "bt_wf outs" "map_of outs n \<noteq> None \<longleftrightarrow> n \<in> fst ` set reqs"
    by (simp_all add: bt_wf_batch_outcomes batch_outcomes_get)
qed

section \<open>Lines\<close>

lemma split_lines_append:
  "CHR 0x0A \<notin> set l \<Longrightarrow> split_lines cur (l @ s) = split_lines (cur @ l) s"
  by (induction l arbitrary: cur) auto

lemma lines_first:
  assumes "CHR 0x0A \<notin> set l" "\<not> ends_with l [CHR 0x0D]"
  shows "lines (l @ CHR 0x0A # s) = l # lines s"
  using assms by (simp add: lines_def split_lines_append ends_with_def)

section \<open>Locator templates\<close>

fun spell :: "TemplateToken \<Rightarrow> string" where
  "spell (Literal l) = l"
| "spell (Field n) = ''{'' @ n @ ''}''"

fun render :: "(string, string) btmap \<Rightarrow> TemplateToken \<Rightarrow> string" where
  "render fs (Literal l) = l"
| "render fs (Field n) = (case map_of fs n of Some v \<Rightarrow> v | None \<Rightarrow> [])"

definition field_names :: "TemplateToken list \<Rightarrow> string list" where
  "field_names ts = List.map_filter (\<lambda>t. case t of Field n \<Rightarrow> Some n | Literal _ \<Rightarrow> None) ts"

lemma field_names_simps [simp]:
  "field_names [] = []"
  "field_names (Literal l # ts) = field_names ts"
  "field_names (Field n # ts) = n # field_names ts"
  by (simp_all add: field_names_def List.map_filter_def)

lemma spell_tokens: "concat (map spell (tokenize_locator_template s)) = s"
proof (induction s rule: tokenize_locator_template.induct)
  case (1 s)
  show ?case
  proof (cases "split_once (CHR ''{'') s")
    case None
    then show ?thesis by (subst tokenize_locator_template.simps) simp
  next
    case (Some ba)
    obtain b a where ba: "ba = (b, a)" by force
    with Some have s: "s = b @ CHR ''{'' # a" by (simp add: split_once_Some)
    show ?thesis
    proof (cases "split_once (CHR ''}'') a")
      case None
      with Some ba s show ?thesis by (subst tokenize_locator_template.simps) simp
    next
      case (Some nr)
      obtain n r where nr: "nr = (n, r)" by force
      with Some have "a = n @ CHR ''}'' # r" by (simp add: split_once_Some)
      moreover have "concat (map spell (tokenize_locator_template r)) = r"
        using 1 \<open>split_once (CHR ''{'') s = Some ba\<close> ba Some nr by simp
      ultimately show ?thesis
        using \<open>split_once (CHR ''{'') s = Some ba\<close> ba Some nr s
        by (subst tokenize_locator_template.simps) simp
    qed
  qed
qed

lemma render_insert_other:
  "n \<notin> set (field_names ts) \<Longrightarrow> bt_wf fs \<Longrightarrow>
   map (render (bt_insert n v fs)) ts = map (render fs) ts"
proof (induction ts)
  case Nil
  then show ?case by simp
next
  case (Cons t ts)
  then show ?case by (cases t) auto
qed

lemma match_tokens_spec:
  "match_tokens ts rest fs = Inr fs' \<Longrightarrow> bt_wf fs \<Longrightarrow> distinct (field_names ts) \<Longrightarrow>
   concat (map (render fs') ts) = rest \<and> bt_wf fs'
   \<and> (\<forall>n. n \<notin> set (field_names ts) \<longrightarrow> map_of fs' n = map_of fs n)
   \<and> (\<forall>n \<in> set (field_names ts). map_of fs' n \<noteq> None)"
proof (induction ts rest fs rule: match_tokens.induct)
  case (1 rest fs)
  then show ?case by (auto split: if_splits)
next
  case (2 lit ts rest fs)
  then show ?case by (auto simp: strip_prefix_Some split: option.splits)
next
  case (3 name rest fs)
  then show ?case by auto
next
  case (4 name lit ts rest fs)
  then obtain i where i: "find_sub lit rest = Some i"
    and m: "match_tokens (Literal lit # ts) (drop i rest) (bt_insert name (take i rest) fs) = Inr fs'"
    by (auto split: option.splits)
  have IH: "concat (map (render fs') (Literal lit # ts)) = drop i rest" "bt_wf fs'"
    "\<forall>n. n \<notin> set (field_names ts) \<longrightarrow> map_of fs' n = map_of (bt_insert name (take i rest) fs) n"
    "\<forall>n \<in> set (field_names ts). map_of fs' n \<noteq> None"
    using "4.IH" [OF i m] "4.prems" by simp_all
  moreover have "map_of fs' name = Some (take i rest)" using IH(3) "4.prems" by simp
  ultimately show ?case using "4.prems" by (auto simp: append_take_drop_id)
next
  case (5 name name' ts rest fs)
  then show ?case by simp
qed

section \<open>Properties\<close>

text \<open>
  A locator that matches a store template is taken apart exactly: putting the recovered
  fields back in place of the template's placeholders gives the locator, every placeholder has
  a value, nothing else does, and the tokens spell the template.
\<close>

theorem locator_fields_exact:
  assumes "fields_from_locator cap loc = Inr fs"
    and "distinct (field_names (tokenize_locator_template (sc_locator_template cap)))"
  shows "concat (map (render fs) (tokenize_locator_template (sc_locator_template cap))) = loc
    \<and> {n. map_of fs n \<noteq> None} = set (field_names (tokenize_locator_template (sc_locator_template cap)))
    \<and> concat (map spell (tokenize_locator_template (sc_locator_template cap))) = sc_locator_template cap"
proof -
  let ?ts = "tokenize_locator_template (sc_locator_template cap)"
  have "match_tokens ?ts loc [] = Inr fs" using assms(1) by (simp add: fields_from_locator_def)
  from match_tokens_spec [OF this bt_wf_Nil assms(2)]
  have "concat (map (render fs) ?ts) = loc" "{n. map_of fs n \<noteq> None} = set (field_names ?ts)"
    by auto
  then show ?thesis by (simp add: spell_tokens)
qed

text \<open>
  A value that spans two lines is delivered truncated by a batch: the name is present in
  the output, so the outcome is its first line and not the miss that would trigger the
  single-secret retry.
\<close>

theorem batch_truncates_multiline:
  assumes "CHR 0x0A \<notin> set n" "CHR ''='' \<notin> set n" "CHR 0x0A \<notin> set first" "\<not> ends_with first [CHR 0x0D]"
    and "batch_value (lines tail) n = None" "n \<in> fst ` set reqs"
  shows "map_of (batch_outcomes reqs (n @ ''='' @ (first @ [CHR 0x0A] @ tail))) n = Some (Found first)"
proof -
  have "\<not> ends_with (n @ ''='' @ first) [CHR 0x0D]"
    using assms(4) by (auto simp: ends_with_iff append_eq_append_conv2 append_eq_Cons_conv Cons_eq_append_conv)
  then have "lines ((n @ ''='' @ first) @ CHR 0x0A # tail) = (n @ ''='' @ first) # lines tail"
    using assms by (intro lines_first) auto
  moreover have "split_once (CHR ''='') (n @ ''='' @ first) = Some (n, first)"
    using assms(2) by (simp add: split_once_Some)
  ultimately have "batch_value (lines (n @ ''='' @ (first @ [CHR 0x0A] @ tail))) n = Some first"
    using assms(5) by (simp add: batch_value_Cons)
  then show ?thesis using assms(6) by (simp add: batch_outcomes_get)
qed

text \<open>At \<open>op://{vault}/{item}\<close> and at a two-line value.\<close>

theorem locator_fields_exact_witness:
  "fields_from_locator \<lparr>sc_command = [], sc_fields = [], sc_value_mode = Stdin,
       sc_locator_template = ''{v}/{i}''\<rparr> ''Work/db/url'' = Inr [(''i'', ''db/url''), (''v'', ''Work'')]
   \<and> concat (map (render [(''i'', ''db/url''), (''v'', ''Work'')]) [Field ''v'', Literal ''/'', Field ''i''])
     = ''Work/db/url''"
proof -
  let ?cap = "\<lparr>sc_command = [], sc_fields = [], sc_value_mode = Stdin, sc_locator_template = ''{v}/{i}''\<rparr>"
  have t: "tokenize_locator_template ''{v}/{i}'' = [Field ''v'', Literal ''/'', Field ''i'']"
    by (simp add: tokenize_locator_template.simps)
  have f: "fields_from_locator ?cap ''Work/db/url'' = Inr [(''i'', ''db/url''), (''v'', ''Work'')]"
    by (simp add: fields_from_locator_def t starts_with_def)
  show ?thesis using locator_fields_exact [OF f] f by (simp add: t)
qed

theorem batch_truncates_multiline_witness:
  "map_of (batch_outcomes [(''KEY'', ''vault/key'')] (''KEY='' @ ''begin'' @ [CHR 0x0A] @ ''end'' @ [CHR 0x0A])) ''KEY''
     = Some (Found ''begin'')"
  using batch_truncates_multiline [of "''KEY''" "''begin''" "''end'' @ [CHR 0x0A]" "[(''KEY'', ''vault/key'')]"]
  by (simp add: ends_with_def strip_suffix_def batch_value_def key_values_def List.map_filter_def lines_def)

end
