(* ===== verification/Resolve.thy ===== *)
theory Resolve
  imports Provider
begin

text \<open>
  \<open>src/packages/secreq/src/resolve.rs\<close>: executing a resolution plan. Requests are grouped by
  provider, a group of two or more goes through one batch invocation where the provider has one,
  names the batch missed are retried singly, and the values are assembled in plan order. Of
  \<open>ResolveStats\<close> the two counters are kept; its durations are wall-clock measurements.
\<close>

section \<open>The plan\<close>

record SecretRequest =
  sr_name :: string
  sr_provider :: string
  sr_locator :: string
  sr_reason :: "string option"
  sr_description :: "string option"
  sr_default :: "string option"
  sr_declared_as :: "string option"

definition request_label :: "SecretRequest \<Rightarrow> string" where
  "request_label r = (case sr_declared_as r of
      Some declared \<Rightarrow> declared
    | None \<Rightarrow> sr_provider r @ ''/'' @ sr_locator r)"

type_synonym ResolutionPlan = "SecretRequest list"

record ResolvedSecret =
  rs_name :: string
  rs_value :: string

record ResolveStats =
  st_batched :: nat
  st_per_secret :: nat

text \<open>
  The error keeps the provider's own text apart from the message that names the secret: the
  first component is what is logged, the second what only the asking terminal sees.
\<close>

datatype resolve_error =
    UnknownProvider string string
  | ProviderError provider_error
  | Unresolved (top_level: "string \<times> string \<times> string") (detail: string)

type_synonym outcome_map = "(string, RetrieveOutcome) btmap"

section \<open>resolve_all\<close>

definition group_push ::
  "SecretRequest \<Rightarrow> (string, SecretRequest list) btmap \<Rightarrow> (string, SecretRequest list) btmap" where
  "group_push r m =
     bt_insert (sr_provider r) ((case map_of m (sr_provider r) of Some l \<Rightarrow> l | None \<Rightarrow> []) @ [r]) m"

definition by_provider :: "SecretRequest list \<Rightarrow> (string, SecretRequest list) btmap" where
  "by_provider reqs = fold group_push reqs []"

fun retrieve_each ::
  "runner \<Rightarrow> Provider \<Rightarrow> SecretRequest list \<Rightarrow> outcome_map \<Rightarrow> resolve_error + outcome_map" where
  "retrieve_each run p [] outs = Inr outs"
| "retrieve_each run p (r # rs) outs = (case retrieve run p (sr_locator r) of
      Inl e \<Rightarrow> Inl (ProviderError e)
    | Inr out \<Rightarrow> retrieve_each run p rs (bt_insert (sr_name r) out outs))"

definition try_batch :: "runner \<Rightarrow> Provider \<Rightarrow> SecretRequest list \<Rightarrow> outcome_map option" where
  "try_batch run p reqs =
     (if length reqs \<ge> 2 \<and> pv_retrieve_batch p \<noteq> None then
        (case retrieve_batch run p (map (\<lambda>r. (sr_name r, sr_locator r)) reqs) of
           Inr outs \<Rightarrow> Some outs
         | Inl _ \<Rightarrow> None)
      else None)"

definition to_salvage :: "outcome_map \<Rightarrow> SecretRequest list \<Rightarrow> SecretRequest list" where
  "to_salvage outs reqs =
     filter (\<lambda>r. case map_of outs (sr_name r) of Some (NotFound _ _) \<Rightarrow> True | _ \<Rightarrow> False) reqs"

definition resolve_group ::
  "runner \<Rightarrow> Provider \<Rightarrow> SecretRequest list \<Rightarrow> outcome_map \<times> ResolveStats
     \<Rightarrow> resolve_error + outcome_map \<times> ResolveStats" where
  "resolve_group run p reqs = (\<lambda>(outs, stats). case try_batch run p reqs of
      Some batch \<Rightarrow>
        (let outs = bt_extend batch outs;
             salvage = to_salvage outs reqs;
             stats = stats\<lparr>st_batched := st_batched stats + (length reqs - length salvage),
                           st_per_secret := st_per_secret stats + length salvage\<rparr>
         in map_sum id (\<lambda>o'. (o', stats)) (retrieve_each run p salvage outs))
    | None \<Rightarrow>
        (let stats = stats\<lparr>st_per_secret := st_per_secret stats + length reqs\<rparr>
         in map_sum id (\<lambda>o'. (o', stats)) (retrieve_each run p reqs outs)))"

fun resolve_groups ::
  "runner \<Rightarrow> Manifest \<Rightarrow> (string \<times> SecretRequest list) list \<Rightarrow> outcome_map \<times> ResolveStats
     \<Rightarrow> resolve_error + outcome_map \<times> ResolveStats" where
  "resolve_groups run mf [] acc = Inr acc"
| "resolve_groups run mf ((pname, reqs) # groups) acc =
     (case map_of (mf_providers mf) pname of
        None \<Rightarrow> Inl (UnknownProvider (case reqs of r # _ \<Rightarrow> sr_name r | [] \<Rightarrow> []) pname)
      | Some p \<Rightarrow> (case resolve_group run p reqs acc of
            Inl e \<Rightarrow> Inl e
          | Inr acc' \<Rightarrow> resolve_groups run mf groups acc'))"

definition MISSING_OUTCOME :: RetrieveOutcome where
  "MISSING_OUTCOME = NotFound ''missing from resolver output'' []"

fun assemble :: "SecretRequest list \<Rightarrow> outcome_map \<Rightarrow> resolve_error + ResolvedSecret list" where
  "assemble [] outs = Inr []"
| "assemble (r # rs) outs =
     (let out = (case map_of outs (sr_name r) of Some out \<Rightarrow> out | None \<Rightarrow> MISSING_OUTCOME);
          outs = AList.delete (sr_name r) outs
      in case out of
           Found v \<Rightarrow> map_sum id (Cons \<lparr>rs_name = sr_name r, rs_value = v\<rparr>) (assemble rs outs)
         | NotFound st stderr \<Rightarrow> (case sr_default r of
               Some d \<Rightarrow> map_sum id (Cons \<lparr>rs_name = sr_name r, rs_value = d\<rparr>) (assemble rs outs)
             | None \<Rightarrow> Inl (Unresolved (sr_name r, request_label r, sr_provider r)
                 (if stderr = [] then st else st @ '': '' @ stderr))))"

definition resolve_all ::
  "runner \<Rightarrow> Manifest \<Rightarrow> ResolutionPlan \<Rightarrow> resolve_error + ResolvedSecret list \<times> ResolveStats" where
  "resolve_all run mf plan =
     (case resolve_groups run mf (by_provider plan) ([], \<lparr>st_batched = 0, st_per_secret = 0\<rparr>) of
        Inl e \<Rightarrow> Inl e
      | Inr (outs, stats) \<Rightarrow> map_sum id (\<lambda>rs. (rs, stats)) (assemble plan outs))"

section \<open>Grouping\<close>

lemma group_fold_get:
  "bt_wf m \<Longrightarrow> bt_wf (fold group_push reqs m)
   \<and> map_of (fold group_push reqs m) p =
      (case (case map_of m p of Some l \<Rightarrow> l | None \<Rightarrow> []) @ filter (\<lambda>r. sr_provider r = p) reqs of
         [] \<Rightarrow> map_of m p | l \<Rightarrow> Some l)"
proof (induction reqs arbitrary: m)
  case Nil
  then show ?case by (auto split: option.splits list.splits)
next
  case (Cons r reqs)
  then show ?case
    by (auto simp: group_push_def split: option.splits list.splits)
qed

lemma by_provider_wf: "bt_wf (by_provider reqs)"
  using group_fold_get [of "[]" reqs] by (simp add: by_provider_def)

lemma by_provider_get:
  "map_of (by_provider reqs) p =
     (case filter (\<lambda>r. sr_provider r = p) reqs of [] \<Rightarrow> None | l \<Rightarrow> Some l)"
  using group_fold_get [of "[]" reqs p] by (simp add: by_provider_def split: list.splits)

lemma by_provider_entry:
  "(p, rs) \<in> set (by_provider reqs) \<longleftrightarrow> rs \<noteq> [] \<and> rs = filter (\<lambda>r. sr_provider r = p) reqs"
proof -
  have "(p, rs) \<in> set (by_provider reqs) \<longleftrightarrow> map_of (by_provider reqs) p = Some rs"
    using by_provider_wf bt_wf_distinct by (metis map_of_eq_Some_iff)
  then show ?thesis by (auto simp: by_provider_get split: list.splits)
qed

section \<open>What a request is given\<close>

text \<open>
  The outcomes a request may be given: what its own locator retrieves, or what a batch over its
  own provider's requests found under its name.
\<close>

definition own_outcome :: "runner \<Rightarrow> Manifest \<Rightarrow> ResolutionPlan \<Rightarrow> SecretRequest \<Rightarrow> RetrieveOutcome \<Rightarrow> bool" where
  "own_outcome run mf plan r out \<longleftrightarrow>
     (\<exists>p. map_of (mf_providers mf) (sr_provider r) = Some p
        \<and> (retrieve run p (sr_locator r) = Inr out
           \<or> (is_found out \<and> (\<exists>batch. retrieve_batch run p (map (\<lambda>q. (sr_name q, sr_locator q))
                 (filter (\<lambda>q. sr_provider q = sr_provider r) plan)) = Inr batch
               \<and> map_of batch (sr_name r) = Some out))))"

lemma map_of_rev_eq: "distinct (map fst kvs) \<Longrightarrow> map_of (rev kvs) = map_of kvs"
proof (rule ext)
  fix k
  assume d: "distinct (map fst kvs)"
  show "map_of (rev kvs) k = map_of kvs k"
  proof (cases "map_of kvs k")
    case None
    then show ?thesis by (metis map_of_eq_None_iff set_rev)
  next
    case (Some v)
    then have "(k, v) \<in> set kvs" by (rule map_of_SomeD)
    then show ?thesis using d Some by (simp add: tree_map.map_of_rev_distinct)
  qed
qed

lemma retrieve_each_spec:
  "retrieve_each run p rs outs = Inr outs' \<Longrightarrow> bt_wf outs \<Longrightarrow> distinct (map sr_name rs) \<Longrightarrow>
   bt_wf outs'
   \<and> (\<forall>r \<in> set rs. \<exists>out. retrieve run p (sr_locator r) = Inr out \<and> map_of outs' (sr_name r) = Some out)
   \<and> (\<forall>n. n \<notin> sr_name ` set rs \<longrightarrow> map_of outs' n = map_of outs n)"
proof (induction run p rs outs rule: retrieve_each.induct)
  case (1 run p outs)
  then show ?case by simp
next
  case (2 run p r rs outs)
  then obtain out where out: "retrieve run p (sr_locator r) = Inr out"
    "retrieve_each run p rs (bt_insert (sr_name r) out outs) = Inr outs'"
    by (auto split: sum.splits)
  from "2.IH" [OF out] "2.prems" show ?case using out(1) by auto
qed

lemma resolve_group_spec:
  assumes "resolve_group run p reqs (outs, st) = Inr (outs', st')" "bt_wf outs"
    and "distinct (map sr_name reqs)"
    and p: "map_of (mf_providers mf) pname = Some p"
    and reqs: "reqs = filter (\<lambda>q. sr_provider q = pname) plan"
  shows "bt_wf outs'
   \<and> (\<forall>r \<in> set reqs. \<exists>out. map_of outs' (sr_name r) = Some out \<and> own_outcome run mf plan r out)
   \<and> (\<forall>n. n \<notin> sr_name ` set reqs \<longrightarrow> map_of outs' n = map_of outs n)"
proof (cases "try_batch run p reqs")
  case None
  with assms(1) have "retrieve_each run p reqs outs = Inr outs'"
    by (cases "retrieve_each run p reqs outs") (auto simp: resolve_group_def Let_def)
  from retrieve_each_spec [OF this assms(2,3)] show ?thesis
    using p reqs unfolding own_outcome_def by fastforce
next
  case (Some batch)
  let ?outs = "bt_extend batch outs"
  have batch: "retrieve_batch run p (map (\<lambda>r. (sr_name r, sr_locator r)) reqs) = Inr batch"
    using Some by (auto simp: try_batch_def split: if_splits sum.splits)
  have ext: "bt_wf ?outs" "map_of ?outs n = (case map_of batch n of Some v \<Rightarrow> Some v | None \<Rightarrow> map_of outs n)" for n
    using assms(2) retrieve_batch_Inr(1) [OF batch]
    by (simp_all add: bt_extend_eq tree_map.wf_extend tree_map.get_extend map_of_rev_eq bt_wf_distinct)
  have each: "retrieve_each run p (to_salvage ?outs reqs) ?outs = Inr outs'"
    using assms(1) Some
    by (cases "retrieve_each run p (to_salvage ?outs reqs) ?outs") (auto simp: resolve_group_def Let_def)
  have "distinct (map sr_name (to_salvage ?outs reqs))"
    using assms(3) by (simp add: to_salvage_def distinct_map_filter)
  note sp = retrieve_each_spec [OF each ext(1) this]
  have keys: "map_of batch n \<noteq> None \<longleftrightarrow> n \<in> sr_name ` set reqs" for n
    using retrieve_batch_Inr(2) [OF batch, of n] by (force simp: image_iff)
  have "\<exists>out. map_of outs' (sr_name r) = Some out \<and> own_outcome run mf plan r out" if r: "r \<in> set reqs" for r
  proof (cases "r \<in> set (to_salvage ?outs reqs)")
    case True
    with sp r p reqs show ?thesis unfolding own_outcome_def by fastforce
  next
    case False
    obtain out where out: "map_of batch (sr_name r) = Some out" using keys [of "sr_name r"] r by auto
    with ext(2) [of "sr_name r"] False r have f: "is_found out"
      by (cases out) (auto simp: to_salvage_def)
    have "sr_name r \<notin> sr_name ` set (to_salvage ?outs reqs)"
    proof
      assume "sr_name r \<in> sr_name ` set (to_salvage ?outs reqs)"
      then obtain q where "q \<in> set reqs" "sr_name q = sr_name r" "q \<in> set (to_salvage ?outs reqs)"
        by (auto simp: to_salvage_def)
      with assms(3) r False show False by (metis distinct_map inj_onD)
    qed
    with sp ext(2) out have "map_of outs' (sr_name r) = Some out" by simp
    with out f batch p reqs r show ?thesis unfolding own_outcome_def by fastforce
  qed
  moreover have "map_of outs' n = map_of outs n" if "n \<notin> sr_name ` set reqs" for n
  proof -
    have "n \<notin> sr_name ` set (to_salvage ?outs reqs)" using that by (auto simp: to_salvage_def)
    with sp have "map_of outs' n = map_of ?outs n" by blast
    moreover have "map_of batch n = None" using that keys [of n] by auto
    ultimately show ?thesis using ext(2) [of n] by simp
  qed
  ultimately show ?thesis using sp by blast
qed

lemma resolve_groups_spec:
  assumes "distinct (map sr_name plan)"
  shows "resolve_groups run mf gs (outs, st) = Inr (outs', st') \<Longrightarrow> bt_wf outs \<Longrightarrow>
    \<forall>(p, rs) \<in> set gs. rs = filter (\<lambda>q. sr_provider q = p) plan \<Longrightarrow> distinct (map fst gs) \<Longrightarrow>
   bt_wf outs'
   \<and> (\<forall>r. r \<in> set plan \<longrightarrow> sr_provider r \<in> fst ` set gs \<longrightarrow>
        (\<exists>out. map_of outs' (sr_name r) = Some out \<and> own_outcome run mf plan r out))
   \<and> (\<forall>r. r \<in> set plan \<longrightarrow> sr_provider r \<notin> fst ` set gs \<longrightarrow>
        map_of outs' (sr_name r) = map_of outs (sr_name r))"
proof (induction gs arbitrary: outs st)
  case Nil
  then show ?case by simp
next
  case (Cons g gs)
  obtain pname reqs where g: "g = (pname, reqs)" by force
  then have reqs: "reqs = filter (\<lambda>q. sr_provider q = pname) plan" using Cons.prems by simp
  obtain p o1 s1 where p: "map_of (mf_providers mf) pname = Some p"
    and grp: "resolve_group run p reqs (outs, st) = Inr (o1, s1)"
    and rest: "resolve_groups run mf gs (o1, s1) = Inr (outs', st')"
    using Cons.prems(1) by (auto simp: g split: option.splits sum.splits)
  have d: "distinct (map sr_name reqs)" using assms reqs by (simp add: distinct_map_filter)
  note G = resolve_group_spec [OF grp Cons.prems(2) d p reqs]
  have IH: "bt_wf outs'"
    "\<And>r. r \<in> set plan \<Longrightarrow> sr_provider r \<in> fst ` set gs \<Longrightarrow>
       \<exists>out. map_of outs' (sr_name r) = Some out \<and> own_outcome run mf plan r out"
    "\<And>r. r \<in> set plan \<Longrightarrow> sr_provider r \<notin> fst ` set gs \<Longrightarrow> map_of outs' (sr_name r) = map_of o1 (sr_name r)"
    using Cons.IH [OF rest] G Cons.prems(3,4) by auto
  have fresh: "pname \<notin> fst ` set gs" using Cons.prems(4) by (simp add: g)
  have "\<exists>out. map_of outs' (sr_name r) = Some out \<and> own_outcome run mf plan r out"
    if "r \<in> set plan" "sr_provider r = pname" for r
    using G IH(3) [of r] that fresh reqs by auto
  moreover have "map_of o1 (sr_name r) = map_of outs (sr_name r)"
    if "r \<in> set plan" "sr_provider r \<noteq> pname" for r
  proof -
    have "sr_name r \<notin> sr_name ` set reqs"
      using assms that reqs by (auto simp: distinct_map dest: inj_onD)
    with G show ?thesis by blast
  qed
  ultimately show ?case using IH by (auto simp: g)
qed

definition given :: "outcome_map \<Rightarrow> SecretRequest \<Rightarrow> string \<Rightarrow> bool" where
  "given outs r v = (case map_of outs (sr_name r) of
      Some (Found w) \<Rightarrow> v = w | _ \<Rightarrow> sr_default r = Some v)"

lemma assemble_Cons:
  "assemble (r # rs) outs = Inr xs \<longleftrightarrow>
   (\<exists>v ys. assemble rs (AList.delete (sr_name r) outs) = Inr ys
      \<and> xs = \<lparr>rs_name = sr_name r, rs_value = v\<rparr> # ys \<and> given outs r v)"
  by (cases "assemble rs (AList.delete (sr_name r) outs)")
    (auto simp: Let_def MISSING_OUTCOME_def given_def split: option.splits RetrieveOutcome.splits)

lemma assemble_spec:
  "assemble reqs outs = Inr rs \<Longrightarrow> distinct (map sr_name reqs) \<Longrightarrow>
   list_all2 (\<lambda>r x. rs_name x = sr_name r \<and> given outs r (rs_value x)) reqs rs"
proof (induction reqs arbitrary: outs rs)
  case Nil
  then show ?case by simp
next
  case (Cons r reqs)
  let ?outs = "AList.delete (sr_name r) outs"
  obtain v xs where rest: "assemble reqs ?outs = Inr xs" and v: "given outs r v"
    and rs: "rs = \<lparr>rs_name = sr_name r, rs_value = v\<rparr> # xs"
    using Cons.prems(1) unfolding assemble_Cons by blast
  have "list_all2 (\<lambda>q x. rs_name x = sr_name q \<and> given ?outs q (rs_value x)) reqs xs"
    using Cons.IH [OF rest] Cons.prems(2) by simp
  then have "list_all2 (\<lambda>q x. rs_name x = sr_name q \<and> given outs q (rs_value x)) reqs xs"
  proof (elim list.rel_mono_strong)
    fix q x
    assume "q \<in> set reqs" and x: "rs_name x = sr_name q \<and> given ?outs q (rs_value x)"
    then have "sr_name q \<in> sr_name ` set reqs" by simp
    then have "sr_name q \<noteq> sr_name r" using Cons.prems(2) by auto
    with x show "rs_name x = sr_name q \<and> given outs q (rs_value x)" by (simp add: given_def)
  qed
  then show ?case using v rs by simp
qed

lemma resolve_all_Inr:
  assumes "resolve_all run mf plan = Inr (rs, stats)"
  shows "\<exists>outs. resolve_groups run mf (by_provider plan) ([], \<lparr>st_batched = 0, st_per_secret = 0\<rparr>)
      = Inr (outs, stats) \<and> assemble plan outs = Inr rs"
proof (cases "resolve_groups run mf (by_provider plan) ([], \<lparr>st_batched = 0, st_per_secret = 0\<rparr>)")
  case (Inl e)
  then show ?thesis using assms by (simp add: resolve_all_def)
next
  case (Inr acc)
  then obtain outs st where acc: "acc = (outs, st)" by force
  show ?thesis
    using assms Inr unfolding resolve_all_def acc by (cases "assemble plan outs") auto
qed

section \<open>Properties\<close>

lemma resolve_all_own:
  assumes "resolve_all run mf plan = Inr (rs, stats)" and "distinct (map sr_name plan)"
  shows "list_all2 (\<lambda>r x. rs_name x = sr_name r
     \<and> (own_outcome run mf plan r (Found (rs_value x))
        \<or> (sr_default r = Some (rs_value x) \<and> (\<exists>st e. own_outcome run mf plan r (NotFound st e)))))
    plan rs"
proof -
  obtain outs where groups: "resolve_groups run mf (by_provider plan)
      ([], \<lparr>st_batched = 0, st_per_secret = 0\<rparr>) = Inr (outs, stats)"
    and asm: "assemble plan outs = Inr rs"
    using resolve_all_Inr [OF assms(1)] by blast
  have "\<forall>(p, rs) \<in> set (by_provider plan). rs = filter (\<lambda>q. sr_provider q = p) plan"
    by (auto simp: by_provider_entry)
  note sp = resolve_groups_spec [OF assms(2) groups bt_wf_Nil this bt_wf_distinct [OF by_provider_wf]]
  have "sr_provider r \<in> fst ` set (by_provider plan)" if "r \<in> set plan" for r
  proof -
    have "(sr_provider r, filter (\<lambda>q. sr_provider q = sr_provider r) plan) \<in> set (by_provider plan)"
      using that by (auto simp: by_provider_entry filter_empty_conv)
    then show ?thesis by (metis fst_conv image_eqI)
  qed
  with sp have own: "\<exists>out. map_of outs (sr_name r) = Some out \<and> own_outcome run mf plan r out"
    if "r \<in> set plan" for r using that by blast
  show ?thesis
    using assemble_spec [OF asm assms(2)]
  proof (elim list.rel_mono_strong)
    fix r x
    assume r: "r \<in> set plan" and x: "rs_name x = sr_name r \<and> given outs r (rs_value x)"
    obtain out where "map_of outs (sr_name r) = Some out" "own_outcome run mf plan r out"
      using own [OF r] by blast
    with x show "rs_name x = sr_name r
     \<and> (own_outcome run mf plan r (Found (rs_value x))
        \<or> (sr_default r = Some (rs_value x) \<and> (\<exists>st e. own_outcome run mf plan r (NotFound st e))))"
      by (cases out) (auto simp: given_def)
  qed
qed

text \<open>
  A resolution that succeeds returns one value per request, in plan order and under the
  request's name, and each is that request's own: retrieved through its provider at its locator,
  or found under its name by a batch over its provider's requests, or its declared default
  after its own single retrieve reported a miss.
\<close>

theorem resolved_values_are_own:
  assumes "resolve_all run mf plan = Inr (rs, stats)" and "distinct (map sr_name plan)"
  shows "list_all2 (\<lambda>r x. rs_name x = sr_name r
     \<and> (own_outcome run mf plan r (Found (rs_value x))
        \<or> (sr_default r = Some (rs_value x) \<and> (\<exists>st e. own_outcome run mf plan r (NotFound st e)))))
    plan rs"
  using assms by (rule resolve_all_own)

text \<open>At two requests of one provider without a batch capability, one of them missing.\<close>

definition echo_run :: runner where
  "echo_run rq = (if rq_args rq = [''a''] then Exited True ''s3cret'' [] ''0''
     else Exited False [] [] ''exit status: 1'')"

definition sample_request :: "string \<Rightarrow> string \<Rightarrow> string option \<Rightarrow> SecretRequest" where
  "sample_request n l d = \<lparr>sr_name = n, sr_provider = ''op'', sr_locator = l, sr_reason = None,
     sr_description = None, sr_default = d, sr_declared_as = None\<rparr>"

definition sample_manifest :: Manifest where
  "sample_manifest = \<lparr>mf_providers = [(''op'', \<lparr>pv_name = ''op'', pv_retrieve = [''get'', ''{locator}''],
     pv_store = None, pv_retrieve_batch = None\<rparr>)]\<rparr>"

theorem resolved_values_are_own_witness:
  "let plan = [sample_request ''A'' ''a'' None, sample_request ''B'' ''b'' (Some ''dflt'')] in
   list_all2 (\<lambda>r x. rs_name x = sr_name r
     \<and> (own_outcome echo_run sample_manifest plan r (Found (rs_value x))
        \<or> (sr_default r = Some (rs_value x)
           \<and> (\<exists>st e. own_outcome echo_run sample_manifest plan r (NotFound st e)))))
    plan [\<lparr>rs_name = ''A'', rs_value = ''s3cret''\<rparr>, \<lparr>rs_name = ''B'', rs_value = ''dflt''\<rparr>]"
proof -
  let ?plan = "[sample_request ''A'' ''a'' None, sample_request ''B'' ''b'' (Some ''dflt'')]"
  have sub: "replace_sub LOCATOR_PLACEHOLDER ''a'' ''{locator}'' = ''a''"
    "replace_sub LOCATOR_PLACEHOLDER ''b'' ''{locator}'' = ''b''"
    "replace_sub LOCATOR_PLACEHOLDER x ''get'' = ''get''" for x
    by (simp_all add: replace_sub_def LOCATOR_PLACEHOLDER_def split_sub.simps starts_with_def)
  have "\<exists>st. resolve_all echo_run sample_manifest ?plan =
      Inr ([\<lparr>rs_name = ''A'', rs_value = ''s3cret''\<rparr>, \<lparr>rs_name = ''B'', rs_value = ''dflt''\<rparr>], st)"
    by (simp add: resolve_all_def by_provider_def group_push_def sample_request_def
        sample_manifest_def resolve_group_def try_batch_def retrieve_def substitute_locator_def sub
        echo_run_def strip_one_trailing_newline_def)
  then obtain st where "resolve_all echo_run sample_manifest ?plan =
      Inr ([\<lparr>rs_name = ''A'', rs_value = ''s3cret''\<rparr>, \<lparr>rs_name = ''B'', rs_value = ''dflt''\<rparr>], st)" ..
  from resolved_values_are_own [OF this]
  show ?thesis by (simp add: sample_request_def)
qed

end
