(* ===== verification/Wraps.thy ===== *)
theory Wraps
  imports Proto Provider
begin

text \<open>
  \<open>src/packages/secreq/src/wraps.rs\<close>: the wraps configuration after \<open>toml::from_str\<close> (a
  parameter), its load-time checks, and how a \<open>secret://\<close> value of it is resolved to a
  provider reference and a cache lifetime. The \<open>CacheTtl\<close> type is in the theory \<open>Proto\<close>.
\<close>

section \<open>Decimal numbers\<close>

fun show_nat :: "nat \<Rightarrow> string" where
  "show_nat n = (if n < 10 then [char_of (48 + n)] else show_nat (n div 10) @ [char_of (48 + n mod 10)])"

declare show_nat.simps [simp del]

definition is_ascii_digit :: "char \<Rightarrow> bool" where
  "is_ascii_digit c \<longleftrightarrow> 48 \<le> (of_char c :: nat) \<and> (of_char c :: nat) \<le> 57"

definition digits_value :: "string \<Rightarrow> nat" where
  "digits_value s = foldl (\<lambda>acc c. acc * 10 + (of_char c - 48)) 0 s"

definition U64_MAX :: nat where "U64_MAX = 2 ^ 64 - 1"

text \<open>\<open>str::parse::<u64>\<close> on a string of digits.\<close>

definition parse_u64_digits :: "string \<Rightarrow> nat option" where
  "parse_u64_digits s = (if s = [] then None
     else if digits_value s \<le> U64_MAX then Some (digits_value s) else None)"

section \<open>Cache lifetimes\<close>

definition ttl_label :: "CacheTtl \<Rightarrow> string" where
  "ttl_label ttl = (case ttl of DaemonLifetime \<Rightarrow> ''daemon lifetime'' | Secs secs \<Rightarrow> show_nat secs @ ''s'')"

definition is_daemon_lifetime :: "CacheTtl \<Rightarrow> bool" where
  "is_daemon_lifetime ttl = (ttl = DaemonLifetime)"

fun to_config_string :: "CacheTtl \<Rightarrow> string" where
  "to_config_string DaemonLifetime = []"
| "to_config_string (Secs secs) =
     (let MINUTE = 60; HOUR = 60 * 60; DAY = 24 * 60 * 60
      in if secs > 0 \<and> secs mod DAY = 0 then show_nat (secs div DAY) @ ''d''
         else if secs > 0 \<and> secs mod HOUR = 0 then show_nat (secs div HOUR) @ ''h''
         else if secs > 0 \<and> secs mod MINUTE = 0 then show_nat (secs div MINUTE) @ ''m''
         else show_nat secs @ ''s'')"

datatype ttl_error = NeedsUnit string | UnknownUnit string string | NotADuration string | TooLong string

definition unit_multiplier :: "string \<Rightarrow> string \<Rightarrow> ttl_error + nat" where
  "unit_multiplier raw unit =
     (if unit = ''s'' then Inr 1
      else if unit = ''m'' then Inr 60
      else if unit = ''h'' then Inr (60 * 60)
      else if unit = ''d'' then Inr (24 * 60 * 60)
      else if unit = [] then Inl (NeedsUnit raw)
      else Inl (UnknownUnit raw unit))"

definition parse_ttl :: "string \<Rightarrow> ttl_error + CacheTtl" where
  "parse_ttl raw =
     (let trimmed = trim raw;
          digits = takeWhile is_ascii_digit trimmed;
          unit = dropWhile is_ascii_digit trimmed
      in case unit_multiplier raw unit of
           Inl e \<Rightarrow> Inl e
         | Inr multiplier \<Rightarrow> (case parse_u64_digits digits of
               None \<Rightarrow> Inl (NotADuration raw)
             | Some count \<Rightarrow>
                 if count * multiplier \<le> U64_MAX then Inr (Secs (count * multiplier))
                 else Inl (TooLong raw)))"

section \<open>The configuration\<close>

record SecretDecl =
  sd_reference :: reference
  sd_ttl :: CacheTtl

record ResolvedRef =
  rr_reference :: reference
  rr_declared_as :: "string option"
  rr_ttl :: CacheTtl

definition resolved_label :: "ResolvedRef \<Rightarrow> string" where
  "resolved_label r = (case rr_declared_as r of Some name \<Rightarrow> name | None \<Rightarrow> display_ref (rr_reference r))"

record SshIdentity =
  id_reason :: "string option"
  id_public_key :: string
  id_private_key :: reference

record WrapEntry =
  wr_name :: string
  wr_reason :: "string option"
  wr_env_secrets :: "string list"
  wr_env :: "(string, string) btmap"

record WrapsConfig =
  cfg_shim_dir :: "string option"
  cfg_wraps :: "(string, WrapEntry) btmap"
  cfg_secrets :: "(string, SecretDecl) btmap"
  cfg_providers :: "(string, Provider) btmap"
  cfg_ssh :: "(string, SshIdentity) btmap"
  cfg_wait_indicator :: "bool option"
  cfg_editor :: "string option"

definition is_ascii_alphabetic :: "char \<Rightarrow> bool" where
  "is_ascii_alphabetic c \<longleftrightarrow> (let n = (of_char c :: nat) in (65 \<le> n \<and> n \<le> 90) \<or> (97 \<le> n \<and> n \<le> 122))"

definition is_env_var_name :: "string \<Rightarrow> bool" where
  "is_env_var_name name \<longleftrightarrow> name \<noteq> []
     \<and> (hd name = CHR ''_'' \<or> is_ascii_alphabetic (hd name))
     \<and> (\<forall>c \<in> set name. c = CHR ''_'' \<or> is_ascii_alphabetic c \<or> is_ascii_digit c)"

definition is_gate_only :: "WrapEntry \<Rightarrow> bool" where
  "is_gate_only w \<longleftrightarrow> wr_env_secrets w = [] \<and> wr_env w = []"

definition env_names :: "WrapEntry \<Rightarrow> string list" where
  "env_names w = wr_env_secrets w @ map fst (wr_env w)"

section \<open>Edit distance\<close>

definition get0 :: "nat list \<Rightarrow> nat \<Rightarrow> nat" where
  "get0 xs i = (if i < length xs then xs ! i else 0)"

text \<open>One row of the dynamic programme: \<open>previous\<close> is the row before, \<open>current\<close> the row so far.\<close>

fun distance_row :: "'a \<Rightarrow> 'a list \<Rightarrow> nat list \<Rightarrow> nat \<Rightarrow> nat list \<Rightarrow> nat list" where
  "distance_row left [] previous j current = current"
| "distance_row left (right # rights) previous j current =
     (let insertion = get0 current j + 1;
          deletion = get0 previous (j + 1) + 1;
          substitution = get0 previous j + (if left \<noteq> right then 1 else 0)
      in distance_row left rights previous (j + 1) (current @ [min (min insertion deletion) substitution]))"

fun distance_rows :: "'a list \<Rightarrow> 'a list \<Rightarrow> nat \<Rightarrow> nat list \<Rightarrow> nat list" where
  "distance_rows [] right i previous = previous"
| "distance_rows (left # lefts) right i previous =
     distance_rows lefts right (i + 1) (distance_row left right previous 0 [i + 1])"

definition edit_distance :: "'a list \<Rightarrow> 'a list \<Rightarrow> nat" where
  "edit_distance left right = last (distance_rows left right 0 [0 ..< length right + 1])"

text \<open>The characters of a UTF-8 string, each as its bytes.\<close>

function chars_of :: "string \<Rightarrow> string list" where
  "chars_of [] = []"
| "chars_of (c # s) =
     (c # takeWhile (\<lambda>b. \<not> starts_char b) s) # chars_of (dropWhile (\<lambda>b. \<not> starts_char b) s)"
  by pat_completeness auto
termination
  by (relation "measure length") (auto simp: le_imp_less_Suc length_dropWhile_le)

definition to_ascii_uppercase :: "string \<Rightarrow> string" where
  "to_ascii_uppercase s = map (\<lambda>c. let n = (of_char c :: nat) in
     if 97 \<le> n \<and> n \<le> 122 then char_of (n - 32) else c) s"

text \<open>\<open>min_by_key\<close>: the first element with the least key.\<close>

fun min_by_key :: "('a \<Rightarrow> nat) \<Rightarrow> 'a list \<Rightarrow> 'a option" where
  "min_by_key f [] = None"
| "min_by_key f (x # xs) = (case min_by_key f xs of
      None \<Rightarrow> Some x
    | Some y \<Rightarrow> if f y < f x then Some y else Some x)"

definition closest_secret_name :: "WrapsConfig \<Rightarrow> string \<Rightarrow> string option" where
  "closest_secret_name cfg name =
     (let folded = chars_of (to_ascii_uppercase name);
          max_distance = max ((length folded + 2) div 3) 2;
          dist = (\<lambda>candidate. edit_distance folded (chars_of (to_ascii_uppercase candidate)))
      in case min_by_key dist (map fst (cfg_secrets cfg)) of
           Some c \<Rightarrow> if dist c \<le> max_distance then Some c else None
         | None \<Rightarrow> None)"

section \<open>Resolving references\<close>

datatype config_error =
    TomlError
  | BadProvider string provider_error
  | SlashInName string
  | TtlConflict string string
  | EnvSecretIsRef string string
  | NotEnvVar string string
  | DuplicateEnvSecret string string
  | UndeclaredEnvSecret string string "string option"
  | DoublyInjected string string
  | InvalidRef string
  | InvalidArg string
  | UndeclaredSecret string

definition ttl_for :: "WrapsConfig \<Rightarrow> reference \<Rightarrow> CacheTtl" where
  "ttl_for cfg ref = (case find (\<lambda>d. sd_reference d = ref) (map snd (cfg_secrets cfg)) of
      None \<Rightarrow> DaemonLifetime | Some d \<Rightarrow> sd_ttl d)"

definition resolve_form :: "WrapsConfig \<Rightarrow> ref_form \<Rightarrow> config_error + ResolvedRef" where
  "resolve_form cfg form = (case form of
      Direct ref \<Rightarrow> Inr \<lparr>rr_reference = ref, rr_declared_as = None, rr_ttl = ttl_for cfg ref\<rparr>
    | Named name \<Rightarrow> (case map_of (cfg_secrets cfg) name of
          None \<Rightarrow> Inl (UndeclaredSecret name)
        | Some decl \<Rightarrow> Inr \<lparr>rr_reference = sd_reference decl, rr_declared_as = Some name,
            rr_ttl = ttl_for cfg (sd_reference decl)\<rparr>))"

definition resolve_ref :: "WrapsConfig \<Rightarrow> string \<Rightarrow> config_error + ResolvedRef" where
  "resolve_ref cfg raw = (case parse_form raw of
      None \<Rightarrow> Inl (InvalidRef raw) | Some form \<Rightarrow> resolve_form cfg form)"

definition resolve_arg :: "WrapsConfig \<Rightarrow> string \<Rightarrow> config_error + ResolvedRef" where
  "resolve_arg cfg raw = (case parse_arg_form raw of
      None \<Rightarrow> Inl (InvalidArg raw) | Some form \<Rightarrow> resolve_form cfg form)"

text \<open>\<open>for x in xs { ys.push((key(x), f(x)?)) }\<close>.\<close>

fun collect_refs :: "('a \<Rightarrow> config_error + ResolvedRef) \<Rightarrow> (string \<times> 'a) list
     \<Rightarrow> config_error + (string \<times> ResolvedRef) list" where
  "collect_refs f [] = Inr []"
| "collect_refs f ((k, x) # xs) = (case f x of
      Inl e \<Rightarrow> Inl e
    | Inr r \<Rightarrow> (case collect_refs f xs of Inl e \<Rightarrow> Inl e | Inr rs \<Rightarrow> Inr ((k, r) # rs)))"

definition wrap_refs :: "WrapsConfig \<Rightarrow> WrapEntry \<Rightarrow> config_error + (string \<times> ResolvedRef) list" where
  "wrap_refs cfg w =
     (case collect_refs (\<lambda>n. resolve_form cfg (Named n)) (map (\<lambda>n. (n, n)) (wr_env_secrets w)) of
        Inl e \<Rightarrow> Inl e
      | Inr named \<Rightarrow> (case collect_refs (resolve_ref cfg) (wr_env w) of
            Inl e \<Rightarrow> Inl e
          | Inr inline \<Rightarrow> Inr (named @ inline)))"

section \<open>Load-time checks\<close>

fun check_secrets ::
  "(string \<times> SecretDecl) list \<Rightarrow> (reference, string \<times> CacheTtl) hmap \<Rightarrow> config_error + unit" where
  "check_secrets [] claimed = Inr ()"
| "check_secrets ((name, decl) # ds) claimed =
     (if CHR ''/'' \<in> set name then Inl (SlashInName name)
      else (case map_of claimed (sd_reference decl) of
          Some (other, other_ttl) \<Rightarrow>
            if other_ttl \<noteq> sd_ttl decl then Inl (TtlConflict other name)
            else check_secrets ds (hm_insert (sd_reference decl) (name, sd_ttl decl) claimed)
        | None \<Rightarrow> check_secrets ds (hm_insert (sd_reference decl) (name, sd_ttl decl) claimed)))"

fun check_env_secrets ::
  "WrapsConfig \<Rightarrow> WrapEntry \<Rightarrow> string list \<Rightarrow> string list \<Rightarrow> config_error + unit" where
  "check_env_secrets cfg w seen [] = Inr ()"
| "check_env_secrets cfg w seen (name # names) =
     (if looks_like_ref name \<or> CHR ''/'' \<in> set name then Inl (EnvSecretIsRef (wr_name w) name)
      else if \<not> is_env_var_name name then Inl (NotEnvVar (wr_name w) name)
      else if name \<in> set seen then Inl (DuplicateEnvSecret (wr_name w) name)
      else if map_of (cfg_secrets cfg) name = None
      then Inl (UndeclaredEnvSecret (wr_name w) name (closest_secret_name cfg name))
      else if map_of (wr_env w) name \<noteq> None then Inl (DoublyInjected (wr_name w) name)
      else check_env_secrets cfg w (name # seen) names)"

fun check_wraps :: "WrapsConfig \<Rightarrow> WrapEntry list \<Rightarrow> config_error + unit" where
  "check_wraps cfg [] = Inr ()"
| "check_wraps cfg (w # ws) =
     (case check_env_secrets cfg w [] (wr_env_secrets w) of
        Inl e \<Rightarrow> Inl e
      | Inr _ \<Rightarrow> (case collect_refs (resolve_ref cfg) (wr_env w) of
            Inl e \<Rightarrow> Inl e
          | Inr _ \<Rightarrow> check_wraps cfg ws))"

definition check_declarations :: "WrapsConfig \<Rightarrow> config_error + unit" where
  "check_declarations cfg = (case check_secrets (cfg_secrets cfg) [] of
      Inl e \<Rightarrow> Inl e | Inr _ \<Rightarrow> check_wraps cfg (map snd (cfg_wraps cfg)))"

fun check_providers :: "(string \<times> Provider) list \<Rightarrow> config_error + unit" where
  "check_providers [] = Inr ()"
| "check_providers ((name, p) # ps) = (case provider_validate (p\<lparr>pv_name := name\<rparr>) name of
      Inl e \<Rightarrow> Inl (BadProvider name e) | Inr _ \<Rightarrow> check_providers ps)"

definition config_parse :: "(string \<Rightarrow> WrapsConfig option) \<Rightarrow> string \<Rightarrow> config_error + WrapsConfig" where
  "config_parse toml source = (case toml source of
      None \<Rightarrow> Inl TomlError
    | Some cfg0 \<Rightarrow>
        (let cfg = cfg0\<lparr>cfg_wraps := map (\<lambda>(n, w). (n, w\<lparr>wr_name := n\<rparr>)) (cfg_wraps cfg0),
                        cfg_providers := map (\<lambda>(n, p). (n, p\<lparr>pv_name := n\<rparr>)) (cfg_providers cfg0)\<rparr>
         in case check_providers (cfg_providers cfg) of
              Inl e \<Rightarrow> Inl e
            | Inr _ \<Rightarrow> (case check_declarations cfg of Inl e \<Rightarrow> Inl e | Inr _ \<Rightarrow> Inr cfg)))"

section \<open>Accessors\<close>

definition with_builtin_providers :: WrapsConfig where
  "with_builtin_providers = \<lparr>cfg_shim_dir = None, cfg_wraps = [], cfg_secrets = [],
     cfg_providers = builtin_providers, cfg_ssh = [], cfg_wait_indicator = None, cfg_editor = None\<rparr>"

definition wait_indicator_enabled :: "WrapsConfig \<Rightarrow> bool" where
  "wait_indicator_enabled cfg \<longleftrightarrow> cfg_wait_indicator cfg \<noteq> Some False"

definition known_secret_refs :: "WrapsConfig \<Rightarrow> string list" where
  "known_secret_refs cfg =
     bs_collect (map (\<lambda>(n, _). SCHEME @ n) (cfg_secrets cfg)
       @ filter looks_like_ref (concat (map (\<lambda>(_, w). map snd (wr_env w)) (cfg_wraps cfg))))"

definition merge_builtin_providers :: "WrapsConfig \<Rightarrow> WrapsConfig" where
  "merge_builtin_providers cfg =
     cfg\<lparr>cfg_providers := bt_extend (cfg_providers cfg) builtin_providers\<rparr>"

definition expand_tilde :: "string option \<Rightarrow> string \<Rightarrow> string" where
  "expand_tilde home raw =
     (case (strip_prefix ''~/'' raw, home) of
        (Some rest, Some h) \<Rightarrow>
          (if starts_with rest ''/'' then rest
           else if h = [] \<or> ends_with h ''/'' then h @ rest else h @ ''/'' @ rest)
      | _ \<Rightarrow> (case home of Some h \<Rightarrow> if raw = ''~'' then h else raw | None \<Rightarrow> raw))"

section \<open>Decimal round trip\<close>

lemma of_char_of_digit: "n < 10 \<Longrightarrow> of_char (char_of (48 + n)) = (48 + n :: nat)"
  by (simp add: of_char_of)

lemma digits_value_snoc: "digits_value (s @ [c]) = digits_value s * 10 + (of_char c - 48)"
  by (simp add: digits_value_def)

lemma show_nat_digits: "\<forall>c \<in> set (show_nat n). is_ascii_digit c"
proof (induction n rule: show_nat.induct)
  case (1 n)
  have d: "is_ascii_digit (char_of (48 + m mod 10))" for m :: nat
  proof -
    have "m mod 10 < 10" by simp
    then show ?thesis using of_char_of_digit [of "m mod 10"] by (simp add: is_ascii_digit_def)
  qed
  show ?case using 1 d [of n] by (subst show_nat.simps) auto
qed

lemma show_nat_value: "digits_value (show_nat n) = n"
proof (induction n rule: show_nat.induct)
  case (1 n)
  show ?case
  proof (cases "n < 10")
    case True
    then show ?thesis using of_char_of_digit [of n]
      by (subst show_nat.simps) (simp add: digits_value_def)
  next
    case False
    have "n mod 10 < 10" by simp
    then have "(of_char (char_of (48 + n mod 10) :: char) :: nat) = 48 + n mod 10"
      by (rule of_char_of_digit)
    then show ?thesis using 1 False by (subst show_nat.simps) (simp add: digits_value_snoc)
  qed
qed

lemma show_nat_ne [simp]: "show_nat n \<noteq> []"
  by (subst show_nat.simps) simp

lemma parse_show_nat: "n \<le> U64_MAX \<Longrightarrow> parse_u64_digits (show_nat n) = Some n"
  by (simp add: parse_u64_digits_def show_nat_value)

lemma starts_trim_id:
  assumes "s \<noteq> []" "\<And>w. w \<in> set ws \<Longrightarrow> w \<noteq> [] \<and> hd w \<noteq> hd s"
  shows "trim_with ws s = s"
proof -
  have "strip_any ws s = None" using assms
  proof (induction ws)
    case Nil
    then show ?case by simp
  next
    case (Cons w ws)
    have "w \<noteq> []" "hd w \<noteq> hd s" using Cons.prems(2) [of w] by simp_all
    with Cons.prems(1) have "strip_prefix w s = None" by (cases w; cases s) auto
    with Cons show ?case by simp
  qed
  then show ?thesis by (subst trim_with.simps) simp
qed

text \<open>A string between two printable ASCII characters is its own trim.\<close>

lemma white_space_edges:
  "w \<in> set WHITE_SPACE \<Longrightarrow> w \<noteq> [] \<and>
     (of_char (hd w) :: nat) \<in> {9, 10, 11, 12, 13, 32, 0xC2, 0xE1, 0xE2, 0xE3}
     \<and> (of_char (last w) :: nat) \<in> {9, 10, 11, 12, 13, 32} \<union> {0x80 ..< 0xC0}"
  by (auto simp: WHITE_SPACE_def bytes_def of_char_of)

lemma trim_id:
  assumes "s \<noteq> []" "(of_char (hd s) :: nat) \<in> {33 ..< 128}" "(of_char (last s) :: nat) \<in> {33 ..< 128}"
  shows "trim s = s"
proof -
  have "trim_start s = s"
    unfolding trim_start_def using assms(1,2) white_space_edges
    by (intro starts_trim_id) fastforce+
  moreover have "trim_with (map rev WHITE_SPACE) (rev s) = rev s"
    using assms(1,3) white_space_edges
    by (intro starts_trim_id) (fastforce simp: hd_rev)+
  ultimately show ?thesis by (simp add: trim_def trim_end_def)
qed

lemma digit_code: "is_ascii_digit c \<Longrightarrow> (of_char c :: nat) \<in> {33 ..< 128}"
  by (simp add: is_ascii_digit_def)

lemma parse_ttl_show:
  assumes "unit \<in> {''s'', ''m'', ''h'', ''d''}" "unit_multiplier (show_nat n @ unit) unit = Inr m"
    and "n \<le> U64_MAX" "n * m \<le> U64_MAX"
  shows "parse_ttl (show_nat n @ unit) = Inr (Secs (n * m))"
proof -
  have hd: "is_ascii_digit (hd (show_nat n))" using show_nat_digits [of n] by (simp add: hd_in_set)
  have "trim (show_nat n @ unit) = show_nat n @ unit"
    using assms(1) digit_code [OF hd] by (intro trim_id) auto
  moreover have "takeWhile is_ascii_digit (show_nat n @ unit) = show_nat n"
    "dropWhile is_ascii_digit (show_nat n @ unit) = unit"
    using show_nat_digits [of n] assms(1)
    by (auto simp: takeWhile_append dropWhile_append is_ascii_digit_def)
  ultimately show ?thesis using assms by (simp add: parse_ttl_def parse_show_nat)
qed

section \<open>Edit distance is minimal\<close>

text \<open>An edit script: keep, substitute, delete or insert one element at a time.\<close>

inductive edits :: "'a list \<Rightarrow> 'a list \<Rightarrow> nat \<Rightarrow> bool" where
  done_edit: "edits [] [] 0"
| keep: "edits a b n \<Longrightarrow> edits (x # a) (x # b) n"
| substitute: "edits a b n \<Longrightarrow> edits (x # a) (y # b) (n + 1)"
| delete: "edits a b n \<Longrightarrow> edits (x # a) b (n + 1)"
| insert_edit: "edits a b n \<Longrightarrow> edits a (y # b) (n + 1)"

lemma edits_append: "edits a b n \<Longrightarrow> edits a' b' m \<Longrightarrow> edits (a @ a') (b @ b') (n + m)"
proof (induction rule: edits.induct)
  case done_edit
  then show ?case by simp
next
  case (keep a b n x)
  then show ?case by (simp add: edits.keep)
next
  case (substitute a b n x y)
  then show ?case using edits.substitute by fastforce
next
  case (delete a b n x)
  then show ?case using edits.delete by fastforce
next
  case (insert_edit a b n y)
  then show ?case using edits.insert_edit by fastforce
qed

lemma edits_single:
  "edits [x] [x] 0" "edits [x] [y] 1" "edits [x] [] 1" "edits [] [y] 1"
  using edits.intros(1) edits.keep edits.substitute edits.delete edits.insert_edit
  by (metis add_0)+

lemma edits_rev: "edits a b n \<Longrightarrow> edits (rev a) (rev b) n"
proof (induction rule: edits.induct)
  case done_edit
  then show ?case by (simp add: edits.done_edit)
next
  case (keep a b n x)
  then show ?case using edits_append [OF keep.IH edits_single(1) [of x]] by simp
next
  case (substitute a b n x y)
  then show ?case using edits_append [OF substitute.IH edits_single(2) [of x y]] by simp
next
  case (delete a b n x)
  then show ?case using edits_append [OF delete.IH edits_single(3) [of x]] by simp
next
  case (insert_edit a b n y)
  then show ?case using edits_append [OF insert_edit.IH edits_single(4) [of y]] by simp
qed

text \<open>The textbook recursion, on suffixes.\<close>

fun lev :: "'a list \<Rightarrow> 'a list \<Rightarrow> nat" where
  "lev [] b = length b"
| "lev (x # a) [] = Suc (length a)"
| "lev (x # a) (y # b) =
     min (min (lev a (y # b) + 1) (lev (x # a) b + 1)) (lev a b + (if x = y then 0 else 1))"

lemma edits_inserts: "edits [] b (length b)"
  by (induction b) (use edits.done_edit edits.insert_edit in fastforce)+

lemma edits_deletes: "edits a [] (length a)"
  by (induction a) (use edits.done_edit edits.delete in fastforce)+

lemma lev_edits: "edits a b (lev a b)"
proof (induction a b rule: lev.induct)
  case (1 b)
  then show ?case by (simp add: edits_inserts)
next
  case (2 x a)
  then show ?case using edits_deletes [of "x # a"] by simp
next
  case (3 x a y b)
  consider "lev (x # a) (y # b) = lev a (y # b) + 1" | "lev (x # a) (y # b) = lev (x # a) b + 1"
    | "lev (x # a) (y # b) = lev a b + (if x = y then 0 else 1)"
    by (metis lev.simps(3) min_def)
  then show ?case
  proof cases
    case 1
    then show ?thesis using edits.delete [OF 3(1)] by metis
  next
    case 2
    then show ?thesis using edits.insert_edit [OF 3(2)] by metis
  next
    case neither: 3
    show ?thesis
      using edits.keep [OF 3(3)] edits.substitute [OF 3(3)] unfolding neither
      by (cases "x = y") auto
  qed
qed

lemma lev_delete: "lev (x # a) b \<le> lev a b + 1"
  by (cases b; cases a) (auto simp: min_def)

lemma lev_insert: "lev a (y # b) \<le> lev a b + 1"
  by (cases a) auto

lemma lev_least: "edits a b n \<Longrightarrow> lev a b \<le> n"
proof (induction rule: edits.induct)
  case done_edit
  then show ?case by simp
next
  case (keep a b n x)
  then show ?case by simp
next
  case (substitute a b n x y)
  then show ?case by (simp add: min_le_iff_disj)
next
  case (delete a b n x)
  then show ?case using lev_delete [of x a b] by linarith
next
  case (insert_edit a b n y)
  then show ?case using lev_insert [of a y b] by linarith
qed

lemma lev_rev: "lev (rev a) (rev b) = lev a b"
proof (rule antisym)
  show "lev (rev a) (rev b) \<le> lev a b" by (intro lev_least edits_rev lev_edits)
  show "lev a b \<le> lev (rev a) (rev b)"
    using lev_least [OF edits_rev [OF lev_edits [of "rev a" "rev b"]]] by simp
qed

text \<open>Row \<open>i\<close> of the programme holds the distances of the prefix of length \<open>i\<close> to every prefix
  of the right-hand side.\<close>

definition prefix_row :: "'a list \<Rightarrow> 'a list \<Rightarrow> nat list" where
  "prefix_row p b = map (\<lambda>j. lev p (take j b)) [0 ..< length b + 1]"

lemma prefix_row_length [simp]: "length (prefix_row p b) = length b + 1"
  by (simp add: prefix_row_def)

lemma get0_prefix_row: "j \<le> length b \<Longrightarrow> get0 (prefix_row p b) j = lev p (take j b)"
  by (simp add: get0_def prefix_row_def del: upt_Suc)

lemma lev_snoc:
  "lev (a @ [x]) (b @ [y]) =
   min (min (lev (a @ [x]) b + 1) (lev a (b @ [y]) + 1)) (lev a b + (if x = y then 0 else 1))"
proof -
  have "lev (a @ [x]) (b @ [y]) = lev (x # rev a) (y # rev b)"
    using lev_rev [of "a @ [x]" "b @ [y]"] by simp
  also have "\<dots> = min (min (lev (rev a) (y # rev b) + 1) (lev (x # rev a) (rev b) + 1))
      (lev (rev a) (rev b) + (if x = y then 0 else 1))" by simp
  also have "lev (rev a) (y # rev b) = lev a (b @ [y])" using lev_rev [of a "b @ [y]"] by simp
  also have "lev (x # rev a) (rev b) = lev (a @ [x]) b" using lev_rev [of "a @ [x]" b] by simp
  also have "lev (rev a) (rev b) = lev a b" by (rule lev_rev)
  finally show ?thesis by (simp add: min.commute)
qed

lemma lev_right_Nil: "lev a [] = length a"
  by (cases a) auto

lemma distance_row_prefix:
  assumes "b = done @ rest" "cur = map (\<lambda>j. lev (p @ [x]) (take j b)) [0 ..< length done + 1]"
  shows "distance_row x rest (prefix_row p b) (length done) cur = prefix_row (p @ [x]) b"
  using assms
proof (induction rest arbitrary: "done" cur)
  case Nil
  then show ?case by (simp add: prefix_row_def)
next
  case (Cons y rest)
  let ?j = "length done"
  have j: "?j < length b" "take ?j b = done" "take (Suc ?j) b = done @ [y]" using Cons.prems(1) by auto
  have "get0 cur ?j = lev (p @ [x]) done"
    using Cons.prems(2) j by (simp add: get0_def nth_append del: upt_Suc)
  moreover have "get0 (prefix_row p b) (?j + 1) = lev p (done @ [y])" "get0 (prefix_row p b) ?j = lev p done"
    using j by (simp_all add: get0_prefix_row)
  ultimately have new: "min (min (get0 cur ?j + 1) (get0 (prefix_row p b) (?j + 1) + 1))
      (get0 (prefix_row p b) ?j + (if x \<noteq> y then 1 else 0)) = lev (p @ [x]) (take (?j + 1) b)"
    using j by (simp add: lev_snoc)
  have "distance_row x rest (prefix_row p b) (length (done @ [y]))
      (cur @ [lev (p @ [x]) (take (?j + 1) b)]) = prefix_row (p @ [x]) b"
    using Cons.prems by (intro Cons.IH) auto
  with new show ?case by (simp add: Let_def)
qed

lemma distance_rows_prefix: "distance_rows a b (length p) (prefix_row p b) = prefix_row (p @ a) b"
proof (induction a arbitrary: p)
  case Nil
  then show ?case by simp
next
  case (Cons x a)
  have "distance_row x b (prefix_row p b) (length []) [length p + 1] = prefix_row (p @ [x]) b"
    using distance_row_prefix [of b "[]" b "[length p + 1]" p x] by (simp add: lev_right_Nil)
  then have "distance_rows (x # a) b (length p) (prefix_row p b)
      = distance_rows a b (length (p @ [x])) (prefix_row (p @ [x]) b)" by simp
  with Cons [of "p @ [x]"] show ?case by simp
qed

lemma edit_distance_lev: "edit_distance a b = lev a b"
proof -
  have "[0 ..< length b + 1] = prefix_row [] b"
    by (simp add: prefix_row_def del: upt_Suc cong: map_cong) (auto intro!: map_idI [symmetric] simp: min_absorb2)
  then have "edit_distance a b = last (prefix_row a b)"
    using distance_rows_prefix [of a b "[]"] by (simp add: edit_distance_def)
  then show ?thesis by (simp add: prefix_row_def)
qed

section \<open>A checked configuration resolves\<close>

lemma collect_refs_Inr:
  "collect_refs f xs = Inr rs \<Longrightarrow> map fst rs = map fst xs"
  by (induction f xs arbitrary: rs rule: collect_refs.induct) (auto split: sum.splits)

lemma collect_refs_total:
  "(\<And>k x. (k, x) \<in> set xs \<Longrightarrow> \<exists>r. f x = Inr r) \<Longrightarrow> \<exists>rs. collect_refs f xs = Inr rs"
proof (induction f xs rule: collect_refs.induct)
  case (1 f)
  then show ?case by simp
next
  case (2 f k x xs)
  from "2.prems" obtain r where r: "f x = Inr r" by fastforce
  from "2.IH" [OF r] "2.prems" obtain rs where "collect_refs f xs = Inr rs" by fastforce
  with r show ?case by simp
qed

lemma check_env_secrets_Inr:
  "check_env_secrets cfg w seen ns = Inr u \<Longrightarrow>
   distinct ns \<and> set ns \<inter> set seen = {}
   \<and> (\<forall>n \<in> set ns. map_of (cfg_secrets cfg) n \<noteq> None \<and> map_of (wr_env w) n = None
        \<and> is_env_var_name n)"
proof (induction ns arbitrary: seen)
  case Nil
  then show ?case by simp
next
  case (Cons n ns)
  then have "check_env_secrets cfg w (n # seen) ns = Inr u"
    "n \<notin> set seen" "map_of (cfg_secrets cfg) n \<noteq> None" "map_of (wr_env w) n = None" "is_env_var_name n"
    by (auto split: if_splits)
  with Cons.IH [of "n # seen"] show ?case by auto
qed

lemma check_wraps_Inr:
  "check_wraps cfg ws = Inr u \<Longrightarrow> w \<in> set ws \<Longrightarrow>
   (\<exists>u. check_env_secrets cfg w [] (wr_env_secrets w) = Inr u)
   \<and> (\<exists>rs. collect_refs (resolve_ref cfg) (wr_env w) = Inr rs)"
  by (induction cfg ws rule: check_wraps.induct) (auto split: sum.splits)

lemma wrap_refs_total:
  assumes "check_declarations cfg = Inr u" "(n, w) \<in> set (cfg_wraps cfg)"
    and "distinct (map fst (wr_env w))"
  shows "\<exists>rs. wrap_refs cfg w = Inr rs \<and> map fst rs = env_names w \<and> distinct (env_names w)"
proof -
  have "check_wraps cfg (map snd (cfg_wraps cfg)) = Inr ()" "w \<in> set (map snd (cfg_wraps cfg))"
    using assms by (auto simp: check_declarations_def split: sum.splits) force
  from check_wraps_Inr [OF this] obtain u' inline where
    env: "check_env_secrets cfg w [] (wr_env_secrets w) = Inr u'"
    and inline: "collect_refs (resolve_ref cfg) (wr_env w) = Inr inline" by blast
  note E = check_env_secrets_Inr [OF env]
  have "\<exists>rs. collect_refs (\<lambda>n. resolve_form cfg (Named n)) (map (\<lambda>n. (n, n)) (wr_env_secrets w)) = Inr rs"
    using E by (intro collect_refs_total) (auto simp: resolve_form_def split: option.splits)
  then obtain named where
    named: "collect_refs (\<lambda>n. resolve_form cfg (Named n)) (map (\<lambda>n. (n, n)) (wr_env_secrets w)) = Inr named"
    by blast
  have "distinct (env_names w)"
    using E assms(3) by (auto simp: env_names_def map_of_eq_None_iff)
  moreover have "map fst (named @ inline) = env_names w"
    using collect_refs_Inr [OF named] collect_refs_Inr [OF inline] by (simp add: env_names_def comp_def)
  ultimately show ?thesis using named inline by (simp add: wrap_refs_def)
qed

lemma check_secrets_Inr:
  "check_secrets ds claimed = Inr u \<Longrightarrow>
   (\<forall>x \<in> set ds. \<forall>y \<in> set ds. sd_reference (snd x) = sd_reference (snd y) \<longrightarrow> sd_ttl (snd x) = sd_ttl (snd y))
   \<and> (\<forall>x \<in> set ds. CHR ''/'' \<notin> set (fst x))
   \<and> (\<forall>x \<in> set ds. \<forall>c. map_of claimed (sd_reference (snd x)) = Some c \<longrightarrow> snd c = sd_ttl (snd x))"
proof (induction ds arbitrary: claimed)
  case Nil
  then show ?case by simp
next
  case (Cons nd ds)
  obtain n d where nd: "nd = (n, d)" by force
  from Cons.prems have rest: "check_secrets ds (hm_insert (sd_reference d) (n, sd_ttl d) claimed) = Inr u"
    and name: "CHR ''/'' \<notin> set n"
    and here: "\<forall>c. map_of claimed (sd_reference d) = Some c \<longrightarrow> snd c = sd_ttl d"
    by (auto simp: nd split: if_splits option.splits)
  note IH = Cons.IH [OF rest]
  have claim: "snd c = sd_ttl (snd y)"
    if "y \<in> set ds" "(if sd_reference d = sd_reference (snd y) then Some (n, sd_ttl d)
       else map_of claimed (sd_reference (snd y))) = Some c" for y c
  proof -
    have "map_of (hm_insert (sd_reference d) (n, sd_ttl d) claimed) (sd_reference (snd y)) = Some c"
      using that(2) by simp
    with IH that(1) show ?thesis by blast
  qed
  have same: "sd_ttl d = sd_ttl (snd y)" if "y \<in> set ds" "sd_reference d = sd_reference (snd y)" for y
    using claim [of y "(n, sd_ttl d)"] that by simp
  have "snd c = sd_ttl (snd y)" if "y \<in> set ds" "map_of claimed (sd_reference (snd y)) = Some c" for y c
  proof (cases "sd_reference d = sd_reference (snd y)")
    case True
    then show ?thesis using here same that by simp
  next
    case False
    then show ?thesis using claim [of y c] that by simp
  qed
  moreover have "\<forall>x \<in> set ds. \<forall>y \<in> set ds. sd_reference (snd x) = sd_reference (snd y) \<longrightarrow>
      sd_ttl (snd x) = sd_ttl (snd y)" "\<forall>x \<in> set ds. CHR ''/'' \<notin> set (fst x)"
    using IH by blast+
  moreover have "\<forall>x \<in> set ds. sd_reference (snd x) = sd_reference d \<longrightarrow> sd_ttl (snd x) = sd_ttl d"
    "\<forall>x \<in> set ds. sd_reference d = sd_reference (snd x) \<longrightarrow> sd_ttl d = sd_ttl (snd x)"
    using same by (metis, metis)
  ultimately show ?case using name here
    unfolding nd list.set ball_simps(7) fst_conv snd_conv by blast
qed

text \<open>After the checks, the lifetime of a declared secret is the one its own declaration states.\<close>

lemma ttl_for_declared:
  assumes "check_declarations cfg = Inr u" "(n, d) \<in> set (cfg_secrets cfg)"
  shows "ttl_for cfg (sd_reference d) = sd_ttl d"
proof -
  have "check_secrets (cfg_secrets cfg) [] = Inr ()"
    using assms(1) by (auto simp: check_declarations_def split: sum.splits)
  note S = check_secrets_Inr [OF this]
  obtain d' where d': "find (\<lambda>e. sd_reference e = sd_reference d) (map snd (cfg_secrets cfg)) = Some d'"
    using assms(2) by (cases "find (\<lambda>e. sd_reference e = sd_reference d) (map snd (cfg_secrets cfg))")
      (fastforce simp: find_None_iff)+
  then obtain n' where "(n', d') \<in> set (cfg_secrets cfg)" "sd_reference d' = sd_reference d"
    by (auto simp: find_Some_iff) (metis nth_mem prod.collapse)
  with S assms(2) have "sd_ttl d' = sd_ttl d" by (metis snd_conv)
  with d' show ?thesis by (simp add: ttl_for_def)
qed

section \<open>Properties\<close>

text \<open>
  A cache lifetime written back to the config is read as the same lifetime, whatever unit
  the writer chose, for every number of seconds the field can hold.
\<close>

theorem ttl_round_trip:
  assumes "n \<le> U64_MAX"
  shows "parse_ttl (to_config_string (Secs n)) = Inr (Secs n)"
proof -
  have div: "n div k * k = n" if "n mod k = 0" for k :: nat using that by auto
  have le: "n div k \<le> U64_MAX" for k :: nat using assms div_le_dividend le_trans by blast
  show ?thesis
  proof (cases "n = 0")
    case True
    then show ?thesis
      using parse_ttl_show [of "''s''" n 1] by (simp add: U64_MAX_def unit_multiplier_def)
  next
    case False
    then show ?thesis
    using assms le div parse_ttl_show [of "''d''" "n div 86400" 86400]
      parse_ttl_show [of "''h''" "n div 3600" 3600] parse_ttl_show [of "''m''" "n div 60" 60]
      parse_ttl_show [of "''s''" n 1]
    by (simp add: Let_def unit_multiplier_def)
  qed
qed

text \<open>
  Load-time checks pay off: in a configuration that passes them every wrap's references
  resolve, under distinct environment names in the wrap's order, and every declared secret is
  given the lifetime of its own declaration however it is referenced.
\<close>

theorem checked_config_resolves:
  assumes "check_declarations cfg = Inr u"
  shows "(\<forall>(n, w) \<in> set (cfg_wraps cfg). distinct (map fst (wr_env w)) \<longrightarrow>
      (\<exists>rs. wrap_refs cfg w = Inr rs \<and> map fst rs = env_names w \<and> distinct (env_names w)))
    \<and> (\<forall>(n, d) \<in> set (cfg_secrets cfg). ttl_for cfg (sd_reference d) = sd_ttl d)"
  using wrap_refs_total [OF assms] ttl_for_declared [OF assms] by blast

text \<open>
  The distance behind every "did you mean" is the least number of single-character edits
  between the two names: some script of that many edits exists and no shorter one does.
\<close>

theorem edit_distance_minimal:
  "edits a b (edit_distance a b) \<and> \<not> (\<exists>n < edit_distance a b. edits a b n)"
  using lev_edits [of a b] lev_least [of a b] by (auto simp: edit_distance_lev not_less [symmetric])

text \<open>At a lifetime of fifteen minutes, and at a config with one declared secret and one wrap.\<close>

theorem ttl_round_trip_witness:
  "to_config_string (Secs 900) = show_nat 15 @ ''m'' \<and> parse_ttl (show_nat 15 @ ''m'') = Inr (Secs 900)"
  using ttl_round_trip [of 900] by (simp add: U64_MAX_def Let_def)

definition sample_ref :: reference where
  "sample_ref = \<lparr>ref_provider = ''op'', ref_locator = ''v/i''\<rparr>"

definition sample_config :: WrapsConfig where
  "sample_config = \<lparr>cfg_shim_dir = None,
     cfg_wraps = [(''gh'', \<lparr>wr_name = ''gh'', wr_reason = None, wr_env_secrets = [''TOK''], wr_env = []\<rparr>)],
     cfg_secrets = [(''TOK'', \<lparr>sd_reference = sample_ref, sd_ttl = Secs 60\<rparr>)],
     cfg_providers = [], cfg_ssh = [], cfg_wait_indicator = None, cfg_editor = None\<rparr>"

lemma sample_config_checked: "check_declarations sample_config = Inr ()"
  by (simp add: sample_config_def check_declarations_def looks_like_ref_def starts_with_def SCHEME_def
      is_env_var_name_def is_ascii_alphabetic_def)

theorem checked_config_resolves_witness:
  "check_declarations sample_config = Inr () \<and> ttl_for sample_config sample_ref = Secs 60
   \<and> (\<exists>rs. wrap_refs sample_config \<lparr>wr_name = ''gh'', wr_reason = None, wr_env_secrets = [''TOK''],
        wr_env = []\<rparr> = Inr rs \<and> map fst rs = [''TOK''])"
  using checked_config_resolves [OF sample_config_checked] sample_config_checked
  by (simp add: sample_config_def env_names_def)

end
