(* ===== verification/Rules.thy ===== *)
theory Rules
  imports Wraps
begin

text \<open>
  The data half of \<open>src/packages/secreq/src/rules.rs\<close>: a rule in memory and on the wire, its
  match patterns, why a rule may be refused at load time, and loading and editing the rule list.
  Third-party parts are parameters: the glob crate (record \<open>glob_crate\<close>; a compiled glob is
  named by the text it was compiled from, which is also what \<open>Pattern\<close> compares), the wasm host
  (\<open>wasm_host\<close>), SHA-256, TOML and the file system (\<open>rules_env\<close>). A \<open>BTreeSet<String>\<close> is a
  strictly increasing list. The TOML document an edit works on is represented by the rules it
  holds, one table per rule.
\<close>

section \<open>Patterns\<close>

record glob_crate =
  gl_new :: "string \<Rightarrow> string option"
  gl_matches :: "string \<Rightarrow> string \<Rightarrow> bool"

text \<open>\<open>gl_new raw\<close> is the compile error of \<open>glob::Pattern::new\<close>, if there is one.\<close>

datatype PatternKind = LiteralKind | GlobKind | InvalidKind string

record Pattern =
  pt_raw :: string
  pt_kind :: PatternKind

definition has_wildcards :: "string \<Rightarrow> bool" where
  "has_wildcards s \<longleftrightarrow> (\<exists>c \<in> set s. c \<in> {CHR ''*'', CHR ''?'', CHR ''[''})"

definition pattern_parse :: "glob_crate \<Rightarrow> string \<Rightarrow> Pattern" where
  "pattern_parse G raw = \<lparr>pt_raw = raw, pt_kind =
     (if has_wildcards raw then (case gl_new G raw of None \<Rightarrow> GlobKind | Some err \<Rightarrow> InvalidKind err)
      else LiteralKind)\<rparr>"

definition invalid_reason :: "Pattern \<Rightarrow> string option" where
  "invalid_reason p = (case pt_kind p of InvalidKind err \<Rightarrow> Some err | LiteralKind \<Rightarrow> None | GlobKind \<Rightarrow> None)"

definition is_invalid :: "Pattern \<Rightarrow> bool" where
  "is_invalid p \<longleftrightarrow> invalid_reason p \<noteq> None"

definition matches_prefix :: "glob_crate \<Rightarrow> Pattern \<Rightarrow> string \<Rightarrow> bool" where
  "matches_prefix G p s = (case pt_kind p of
      LiteralKind \<Rightarrow> starts_with s (pt_raw p)
    | GlobKind \<Rightarrow> gl_matches G (pt_raw p) s
    | InvalidKind _ \<Rightarrow> False)"

definition matches_path_prefix :: "glob_crate \<Rightarrow> Pattern \<Rightarrow> string \<Rightarrow> bool" where
  "matches_path_prefix G p s = (case pt_kind p of
      GlobKind \<Rightarrow> gl_matches G (pt_raw p) s
    | InvalidKind _ \<Rightarrow> False
    | LiteralKind \<Rightarrow>
        (let want = (case strip_suffix ''/'' (pt_raw p) of Some w \<Rightarrow> w | None \<Rightarrow> pt_raw p)
         in if want = [] then True
            else (case strip_prefix want s of
                None \<Rightarrow> False
              | Some rest \<Rightarrow> rest = [] \<or> starts_with rest ''/'')))"

definition matches_substring :: "glob_crate \<Rightarrow> Pattern \<Rightarrow> string \<Rightarrow> bool" where
  "matches_substring G p s = (case pt_kind p of
      LiteralKind \<Rightarrow> contains_sub s (pt_raw p)
    | GlobKind \<Rightarrow> gl_matches G (pt_raw p) s
    | InvalidKind _ \<Rightarrow> False)"

record EvalCaller =
  ec_name :: string
  ec_command :: string
  ec_exe :: "string option"

definition matches_ancestor :: "glob_crate \<Rightarrow> Pattern \<Rightarrow> EvalCaller \<Rightarrow> bool" where
  "matches_ancestor G p c = (case ec_exe c of
      Some exe \<Rightarrow> matches_substring G p exe
    | None \<Rightarrow> matches_substring G p (ec_name c) \<or> matches_substring G p (ec_command c))"

section \<open>Rules\<close>

datatype RuleDecision = ApproveRule | DenyRule

datatype StaticDecision = StaticApprove | StaticDeny "string option"

fun static_decision :: "StaticDecision \<Rightarrow> RuleDecision" where
  "static_decision StaticApprove = ApproveRule"
| "static_decision (StaticDeny _) = DenyRule"

fun static_deny_message :: "StaticDecision \<Rightarrow> string option" where
  "static_deny_message StaticApprove = None"
| "static_deny_message (StaticDeny m) = m"

fun static_of_rule_decision :: "RuleDecision \<Rightarrow> StaticDecision" where
  "static_of_rule_decision ApproveRule = StaticApprove"
| "static_of_rule_decision DenyRule = StaticDeny None"

record RuleMatch =
  rm_wrap :: string
  rm_argv :: "Pattern option"
  rm_ancestor :: "Pattern option"
  rm_cwd :: "Pattern option"

record WasmRule =
  wm_path :: string
  wm_sha256 :: string
  wm_declared_secrets :: "string list option"

datatype RuleBody = Declarative RuleMatch StaticDecision | Wasm WasmRule

record Rule =
  ru_id :: string
  ru_name :: string
  ru_enabled :: bool
  ru_wraps :: "string list option"
  ru_trained_secrets :: "string list"
  ru_created_at_unix :: nat
  ru_body :: RuleBody

definition is_wasm :: "Rule \<Rightarrow> bool" where
  "is_wasm r = (case ru_body r of Wasm _ \<Rightarrow> True | Declarative _ _ \<Rightarrow> False)"

definition rule_wasm :: "Rule \<Rightarrow> WasmRule option" where
  "rule_wasm r = (case ru_body r of Wasm w \<Rightarrow> Some w | Declarative _ _ \<Rightarrow> None)"

record RuleWire =
  rw_id :: string
  rw_name :: string
  rw_enabled :: bool
  rw_wraps :: "string list option"
  rw_decide :: "RuleDecision option"
  rw_match :: "RuleMatch option"
  rw_wasm :: "WasmRule option"
  rw_declared_secrets :: "string list option"
  rw_trained_secrets :: "string list"
  rw_deny_message :: "string option"
  rw_created_at_unix :: nat

datatype rule_error =
    BothMatchAndWasm | NeitherMatchNorWasm | WasmSetsDecide | WasmSetsDenyMessage
  | DeclarativeSetsDeclared | MatchWithoutDecide

definition wire_body :: "RuleWire \<Rightarrow> rule_error + RuleBody" where
  "wire_body w = (case (rw_wasm w, rw_match w) of
      (Some _, Some _) \<Rightarrow> Inl BothMatchAndWasm
    | (None, None) \<Rightarrow> Inl NeitherMatchNorWasm
    | (Some wasm, None) \<Rightarrow>
        (if rw_decide w \<noteq> None then Inl WasmSetsDecide
         else if rw_deny_message w \<noteq> None then Inl WasmSetsDenyMessage
         else Inr (Wasm (wasm\<lparr>wm_declared_secrets := rw_declared_secrets w\<rparr>)))
    | (None, Some m) \<Rightarrow>
        (if rw_declared_secrets w \<noteq> None then Inl DeclarativeSetsDeclared
         else (case rw_decide w of
             None \<Rightarrow> Inl MatchWithoutDecide
           | Some ApproveRule \<Rightarrow> Inr (Declarative m StaticApprove)
           | Some DenyRule \<Rightarrow> Inr (Declarative m (StaticDeny (rw_deny_message w))))))"

definition rule_of_wire :: "RuleWire \<Rightarrow> rule_error + Rule" where
  "rule_of_wire w = (case wire_body w of
      Inl e \<Rightarrow> Inl e
    | Inr body \<Rightarrow> Inr \<lparr>ru_id = rw_id w, ru_name = rw_name w, ru_enabled = rw_enabled w,
        ru_wraps = rw_wraps w, ru_trained_secrets = rw_trained_secrets w,
        ru_created_at_unix = rw_created_at_unix w, ru_body = body\<rparr>)"

definition wire_of_rule :: "Rule \<Rightarrow> RuleWire" where
  "wire_of_rule r =
     (let (decide, mtch, wasm, declared, deny_message) = (case ru_body r of
          Declarative m d \<Rightarrow> (case d of
              StaticApprove \<Rightarrow> (Some ApproveRule, Some m, None, None, None)
            | StaticDeny message \<Rightarrow> (Some DenyRule, Some m, None, None, message))
        | Wasm wasm \<Rightarrow> (None, None, Some wasm, wm_declared_secrets wasm, None))
      in \<lparr>rw_id = ru_id r, rw_name = ru_name r, rw_enabled = ru_enabled r, rw_wraps = ru_wraps r,
          rw_decide = decide, rw_match = mtch, rw_wasm = wasm, rw_declared_secrets = declared,
          rw_trained_secrets = ru_trained_secrets r, rw_deny_message = deny_message,
          rw_created_at_unix = ru_created_at_unix r\<rparr>)"

section \<open>Refusals\<close>

definition is_known_wrap_scope :: "WrapsConfig \<Rightarrow> string \<Rightarrow> bool" where
  "is_known_wrap_scope cfg name \<longleftrightarrow>
     name = ''run'' \<or> name = ''read'' \<or> map_of (cfg_wraps cfg) name \<noteq> None
     \<or> (case strip_prefix ''ssh:'' name of
          Some identity \<Rightarrow> map_of (cfg_ssh cfg) identity \<noteq> None | None \<Rightarrow> False)"

datatype WasmRefusalCategory = MissingModule | Sha256Mismatch | DeclarationMismatch | ModuleRejected

fun wasm_refusal_label :: "WasmRefusalCategory \<Rightarrow> string" where
  "wasm_refusal_label MissingModule = ''module missing''"
| "wasm_refusal_label Sha256Mismatch = ''sha256 mismatch''"
| "wasm_refusal_label DeclarationMismatch = ''declaration changed''"
| "wasm_refusal_label ModuleRejected = ''module rejected''"

record WasmRefusal =
  wf_rule_id :: string
  wf_category :: WasmRefusalCategory
  wf_reason :: string

datatype PatternField = ArgvField | AncestorField | CwdField

fun pattern_field_as_str :: "PatternField \<Rightarrow> string" where
  "pattern_field_as_str ArgvField = ''argv''"
| "pattern_field_as_str AncestorField = ''ancestor''"
| "pattern_field_as_str CwdField = ''cwd''"

record PatternRefusal =
  pf_rule_id :: string
  pf_field :: PatternField
  pf_pattern :: string
  pf_reason :: string

datatype WrapScopeRefusalCategory = EmptyScope | UnknownScope

fun scope_refusal_label :: "WrapScopeRefusalCategory \<Rightarrow> string" where
  "scope_refusal_label EmptyScope = ''empty wrap scope''"
| "scope_refusal_label UnknownScope = ''unknown wrap scope''"

record WrapScopeRefusal =
  sf_rule_id :: string
  sf_category :: WrapScopeRefusalCategory
  sf_reason :: string

record RuleRefusals =
  rf_wasm :: "WasmRefusal list"
  rf_patterns :: "PatternRefusal list"
  rf_scopes :: "WrapScopeRefusal list"

definition no_refusals :: RuleRefusals where
  "no_refusals = \<lparr>rf_wasm = [], rf_patterns = [], rf_scopes = []\<rparr>"

definition pattern_refusal_label :: "PatternRefusal \<Rightarrow> string" where
  "pattern_refusal_label r = ''bad '' @ pattern_field_as_str (pf_field r) @ '' glob''"

definition refusals_for_rule :: "RuleRefusals \<Rightarrow> string \<Rightarrow> (string \<times> string) list" where
  "refusals_for_rule rf rid =
     map (\<lambda>r. (wasm_refusal_label (wf_category r), wf_reason r)) (filter (\<lambda>r. wf_rule_id r = rid) (rf_wasm rf))
     @ map (\<lambda>r. (pattern_refusal_label r, pf_reason r)) (filter (\<lambda>r. pf_rule_id r = rid) (rf_patterns rf))
     @ map (\<lambda>r. (scope_refusal_label (sf_category r), sf_reason r)) (filter (\<lambda>r. sf_rule_id r = rid) (rf_scopes rf))"

definition refusals_is_empty :: "RuleRefusals \<Rightarrow> bool" where
  "refusals_is_empty rf \<longleftrightarrow> rf_wasm rf = [] \<and> rf_patterns rf = [] \<and> rf_scopes rf = []"

fun refused_pattern_consequence :: "RuleDecision \<Rightarrow> string" where
  "refused_pattern_consequence DenyRule =
     ''this rule cannot be evaluated, so every ask it might have denied now goes to the consent prompt instead of being released by another rule's approve''"
| "refused_pattern_consequence ApproveRule =
     ''this rule never fires; asks it was meant to approve prompt as they did before it was written''"

definition EM_DASH :: string where
  "EM_DASH = bytes [0xE2, 0x80, 0x94]"

definition rule_label :: "Rule \<Rightarrow> string" where
  "rule_label r = ''rule `'' @ ru_name r @ ''` (id '' @ ru_id r @ '')''"

definition pattern_refusal ::
  "Rule \<Rightarrow> StaticDecision \<Rightarrow> PatternField \<times> Pattern option \<Rightarrow> PatternRefusal option" where
  "pattern_refusal r d = (\<lambda>(field, pat). case pat of
      None \<Rightarrow> None
    | Some p \<Rightarrow> (case invalid_reason p of
          None \<Rightarrow> None
        | Some err \<Rightarrow> Some \<lparr>pf_rule_id = ru_id r, pf_field = field, pf_pattern = pt_raw p,
            pf_reason = rule_label r @ '': the `'' @ pattern_field_as_str field @ ''` pattern `'' @ pt_raw p
              @ ''` is not a valid glob ('' @ err @ '') '' @ EM_DASH @ '' ''
              @ refused_pattern_consequence (static_decision d)\<rparr>))"

definition pattern_refusals :: "Rule list \<Rightarrow> PatternRefusal list" where
  "pattern_refusals rules = concat (map (\<lambda>r. case ru_body r of
      Wasm _ \<Rightarrow> []
    | Declarative m d \<Rightarrow> List.map_filter (pattern_refusal r d)
        [(ArgvField, rm_argv m), (AncestorField, rm_ancestor m), (CwdField, rm_cwd m)]) rules)"

definition wrap_scope_refusal :: "WrapsConfig \<Rightarrow> Rule \<Rightarrow> WrapScopeRefusal option" where
  "wrap_scope_refusal cfg r = (case ru_wraps r of
      None \<Rightarrow> None
    | Some ws \<Rightarrow>
        if ws = [] then Some \<lparr>sf_rule_id = ru_id r, sf_category = EmptyScope,
            sf_reason = rule_label r @ '' has an empty `wraps` allowlist, which matches no ask''\<rparr>
        else (let unknown = filter (\<lambda>w. \<not> is_known_wrap_scope cfg w) ws
              in if unknown = [] then None
                 else Some \<lparr>sf_rule_id = ru_id r, sf_category = UnknownScope,
                   sf_reason = rule_label r @ '' names unknown wrap scope(s): '' @ join_with '', '' unknown\<rparr>))"

definition wrap_scope_refusals :: "Rule list \<Rightarrow> WrapsConfig \<Rightarrow> WrapScopeRefusal list" where
  "wrap_scope_refusals rules cfg = List.map_filter (wrap_scope_refusal cfg) rules"

definition unvalidated_scope :: "string \<Rightarrow> Rule \<Rightarrow> WrapScopeRefusal" where
  "unvalidated_scope err r = \<lparr>sf_rule_id = ru_id r, sf_category = UnknownScope,
     sf_reason = rule_label r @ '' has a wrap scope that cannot be validated: '' @ err\<rparr>"

section \<open>Loading\<close>

datatype WasmDecision = Pass | ApproveWasm | DenyWasm string | PromptWasm string

record EvalCtx =
  cx_wrap :: string
  cx_joined_argv :: string
  cx_callers :: "EvalCaller list"
  cx_cwd :: string
  cx_secrets :: "string list"

record 'm wasm_host =
  wh_from_binary :: "string \<Rightarrow> string + 'm"
  wh_declared_subjects :: "'m \<Rightarrow> string + string list option"
  wh_evaluate :: "'m \<Rightarrow> EvalCtx \<Rightarrow> string + WasmDecision"

datatype stat_result = NotFoundOnDisk | StatFailed string | Stat "nat option"

record 'm rules_env =
  re_glob :: glob_crate
  re_wasm :: "'m wasm_host"
  re_sha256_hex :: "string \<Rightarrow> string"
  re_stat :: "string \<Rightarrow> stat_result"
  re_read :: "string \<Rightarrow> string + string"
  re_is_file :: "string \<Rightarrow> bool"
  re_rules_toml :: "string \<Rightarrow> string + RuleWire list"
  re_config_toml :: "string \<Rightarrow> WrapsConfig option"

definition path_join :: "string \<Rightarrow> string \<Rightarrow> string" where
  "path_join dir p = (if starts_with p ''/'' then p else if dir = [] then p
     else if ends_with dir ''/'' then dir @ p else dir @ ''/'' @ p)"

definition to_lower :: "string \<Rightarrow> string" where
  "to_lower s = map (\<lambda>c. let n = (of_char c :: nat) in if 65 \<le> n \<and> n \<le> 90 then char_of (n + 32) else c) s"

definition eq_ignore_ascii_case :: "string \<Rightarrow> string \<Rightarrow> bool" where
  "eq_ignore_ascii_case a b \<longleftrightarrow> to_lower a = to_lower b"

text \<open>The text of a load failure is shortened to the rule's label or the cause.\<close>

definition load_rule_module ::
  "'m rules_env \<Rightarrow> string \<Rightarrow> Rule \<Rightarrow> WasmRefusalCategory \<times> string + 'm option" where
  "load_rule_module E rules_dir rule = (case ru_body rule of
      Declarative _ _ \<Rightarrow> Inr None
    | Wasm wasm \<Rightarrow> (case re_read E (path_join rules_dir (wm_path wasm)) of
          Inl err \<Rightarrow> Inl (MissingModule, err)
        | Inr bs \<Rightarrow>
            if \<not> eq_ignore_ascii_case (re_sha256_hex E bs) (wm_sha256 wasm)
            then Inl (Sha256Mismatch, rule_label rule)
            else (case wh_from_binary (re_wasm E) bs of
                Inl err \<Rightarrow> Inl (ModuleRejected, err)
              | Inr m \<Rightarrow> (case wm_declared_secrets wasm of
                    None \<Rightarrow> Inr (Some m)
                  | Some expected \<Rightarrow> (case wh_declared_subjects (re_wasm E) m of
                        Inl err \<Rightarrow> Inl (ModuleRejected, err)
                      | Inr actual \<Rightarrow> if actual \<noteq> Some expected then Inl (DeclarationMismatch, rule_label rule)
                                     else Inr (Some m))))))"

type_synonym 'm RuleModules = "(string, 'm) hmap"

record StrayDenyMessage =
  sy_rule_id :: string
  sy_rule_name :: string

record 'm LoadedRules =
  lr_rules :: "Rule list"
  lr_mtime :: "nat option"
  lr_scope_config_mtime :: "nat option"
  lr_modules :: "'m RuleModules"
  lr_refusals :: RuleRefusals
  lr_stray :: "StrayDenyMessage list"

definition file_mtime :: "'m rules_env \<Rightarrow> string \<Rightarrow> nat option" where
  "file_mtime E path = (case re_stat E path of Stat m \<Rightarrow> m | _ \<Rightarrow> None)"

definition CONFIG_UNREADABLE :: string where
  "CONFIG_UNREADABLE = ''validate rule wrap scopes against config.toml''"

definition empty_config :: WrapsConfig where
  "empty_config = \<lparr>cfg_shim_dir = None, cfg_wraps = [], cfg_secrets = [], cfg_providers = [],
     cfg_ssh = [], cfg_wait_indicator = None, cfg_editor = None\<rparr>"

definition wrap_scope_config_path :: "string \<Rightarrow> string" where
  "wrap_scope_config_path rules_dir = path_join rules_dir ''config.toml''"

definition load_wrap_scope_config :: "'m rules_env \<Rightarrow> string \<Rightarrow> string + WrapsConfig" where
  "load_wrap_scope_config E rules_dir =
     (let path = wrap_scope_config_path rules_dir
      in if re_is_file E path then (case re_read E path of
             Inl err \<Rightarrow> Inl CONFIG_UNREADABLE
           | Inr txt \<Rightarrow> (case config_parse (re_config_toml E) txt of
                 Inl e \<Rightarrow> Inl CONFIG_UNREADABLE | Inr cfg \<Rightarrow> Inr cfg))
         else Inr empty_config)"

definition wrap_scope_refusals_for_path ::
  "'m rules_env \<Rightarrow> Rule list \<Rightarrow> string \<Rightarrow> WrapScopeRefusal list \<times> nat option" where
  "wrap_scope_refusals_for_path E rules rules_dir =
     (let mtime = file_mtime E (wrap_scope_config_path rules_dir)
      in case load_wrap_scope_config E rules_dir of
           Inr cfg \<Rightarrow> (wrap_scope_refusals rules cfg, mtime)
         | Inl err \<Rightarrow> (map (unvalidated_scope err) (filter (\<lambda>r. ru_wraps r \<noteq> None) rules), mtime))"

fun convert_rules ::
  "RuleWire list \<Rightarrow> rule_error + (Rule list \<times> StrayDenyMessage list)" where
  "convert_rules [] = Inr ([], [])"
| "convert_rules (w # ws) = (case rule_of_wire w of
      Inl e \<Rightarrow> Inl e
    | Inr r \<Rightarrow> map_sum id (\<lambda>(rs, sy). (r # rs,
        (if rw_decide w = Some ApproveRule \<and> rw_deny_message w \<noteq> None
         then [\<lparr>sy_rule_id = rw_id w, sy_rule_name = rw_name w\<rparr>] else []) @ sy)) (convert_rules ws))"

fun load_modules ::
  "'m rules_env \<Rightarrow> string \<Rightarrow> Rule list \<Rightarrow> 'm RuleModules \<times> WasmRefusal list
     \<Rightarrow> 'm RuleModules \<times> WasmRefusal list" where
  "load_modules E dir [] acc = acc"
| "load_modules E dir (r # rs) (mods, refs) =
     load_modules E dir rs (case load_rule_module E dir r of
        Inr (Some m) \<Rightarrow> (hm_insert (ru_id r) m mods, refs)
      | Inr None \<Rightarrow> (mods, refs)
      | Inl (cat, reason) \<Rightarrow> (mods, refs @ [\<lparr>wf_rule_id = ru_id r, wf_category = cat, wf_reason = reason\<rparr>]))"

datatype load_error = CannotStat string | CannotRead string | CannotParse string | BadRule rule_error

definition load_rules ::
  "'m rules_env \<Rightarrow> string \<Rightarrow> string \<Rightarrow> load_error + 'm LoadedRules" where
  "load_rules E rules_dir path = (case re_stat E path of
      NotFoundOnDisk \<Rightarrow> Inr \<lparr>lr_rules = [], lr_mtime = None,
        lr_scope_config_mtime = file_mtime E (wrap_scope_config_path rules_dir),
        lr_modules = [], lr_refusals = no_refusals, lr_stray = []\<rparr>
    | StatFailed err \<Rightarrow> Inl (CannotStat err)
    | Stat mtime \<Rightarrow> (case re_read E path of
          Inl err \<Rightarrow> Inl (CannotRead err)
        | Inr txt \<Rightarrow> (case re_rules_toml E txt of
              Inl err \<Rightarrow> Inl (CannotParse err)
            | Inr wires \<Rightarrow> (case convert_rules wires of
                  Inl e \<Rightarrow> Inl (BadRule e)
                | Inr (rules, stray) \<Rightarrow>
                    (let (modules, wasm) = load_modules E rules_dir rules ([], []);
                         (scopes, scope_mtime) = wrap_scope_refusals_for_path E rules rules_dir
                     in Inr \<lparr>lr_rules = rules, lr_mtime = mtime, lr_scope_config_mtime = scope_mtime,
                          lr_modules = modules,
                          lr_refusals = \<lparr>rf_wasm = wasm, rf_patterns = pattern_refusals rules, rf_scopes = scopes\<rparr>,
                          lr_stray = stray\<rparr>)))))"

section \<open>Editing the rule list\<close>

datatype RuleEdit = AddEdit Rule | UpdateEdit Rule Rule | DeleteEdit Rule | SetEnabledEdit Rule bool

datatype edit_error = DuplicateId string | IdChanged string string | RuleDeleted string | RuleChanged string

text \<open>\<open>PartialEq\<close> of \<open>Pattern\<close> compares the raw text only; the derived comparisons follow it.\<close>

definition pattern_eq :: "Pattern option \<Rightarrow> Pattern option \<Rightarrow> bool" where
  "pattern_eq a b \<longleftrightarrow> map_option pt_raw a = map_option pt_raw b"

definition match_eq :: "RuleMatch \<Rightarrow> RuleMatch \<Rightarrow> bool" where
  "match_eq a b \<longleftrightarrow> rm_wrap a = rm_wrap b \<and> pattern_eq (rm_argv a) (rm_argv b)
     \<and> pattern_eq (rm_ancestor a) (rm_ancestor b) \<and> pattern_eq (rm_cwd a) (rm_cwd b)"

definition rule_eq :: "Rule \<Rightarrow> Rule \<Rightarrow> bool" where
  "rule_eq a b \<longleftrightarrow> ru_id a = ru_id b \<and> ru_name a = ru_name b \<and> ru_enabled a = ru_enabled b
     \<and> ru_wraps a = ru_wraps b \<and> ru_trained_secrets a = ru_trained_secrets b
     \<and> ru_created_at_unix a = ru_created_at_unix b
     \<and> (case (ru_body a, ru_body b) of
          (Declarative m d, Declarative m' d') \<Rightarrow> match_eq m m' \<and> d = d'
        | (Wasm w, Wasm w') \<Rightarrow> w = w'
        | _ \<Rightarrow> False)"

definition ensure_rule_is_current :: "Rule list \<Rightarrow> Rule \<Rightarrow> edit_error + unit" where
  "ensure_rule_is_current current expected =
     (case find (\<lambda>r. ru_id r = ru_id expected) current of
        None \<Rightarrow> Inl (RuleDeleted (ru_id expected))
      | Some actual \<Rightarrow> if \<not> rule_eq actual expected then Inl (RuleChanged (ru_id expected)) else Inr ())"

text \<open>\<open>tables.get_mut(rule_table_index(tables, id))\<close>: the first table with the id.\<close>

fun modify_rule :: "(Rule \<Rightarrow> Rule list) \<Rightarrow> string \<Rightarrow> Rule list \<Rightarrow> Rule list" where
  "modify_rule f rid [] = []"
| "modify_rule f rid (r # rs) = (if ru_id r = rid then f r @ rs else r # modify_rule f rid rs)"

definition apply_rule_edit :: "Rule list \<Rightarrow> RuleEdit \<Rightarrow> edit_error + Rule list" where
  "apply_rule_edit current edit = (case edit of
      AddEdit rule \<Rightarrow>
        (if list_ex (\<lambda>c. ru_id c = ru_id rule) current then Inl (DuplicateId (ru_id rule))
         else Inr (current @ [rule]))
    | UpdateEdit expected replacement \<Rightarrow>
        (if ru_id expected \<noteq> ru_id replacement then Inl (IdChanged (ru_id expected) (ru_id replacement))
         else (case ensure_rule_is_current current expected of
             Inl e \<Rightarrow> Inl e
           | Inr _ \<Rightarrow> Inr (modify_rule (\<lambda>_. [replacement]) (ru_id expected) current)))
    | DeleteEdit expected \<Rightarrow> (case ensure_rule_is_current current expected of
          Inl e \<Rightarrow> Inl e
        | Inr _ \<Rightarrow> Inr (modify_rule (\<lambda>_. []) (ru_id expected) current))
    | SetEnabledEdit expected enabled \<Rightarrow> (case ensure_rule_is_current current expected of
          Inl e \<Rightarrow> Inl e
        | Inr _ \<Rightarrow> Inr (modify_rule (\<lambda>r. [r\<lparr>ru_enabled := enabled\<rparr>]) (ru_id expected) current)))"

section \<open>Facts about loading and editing\<close>

text \<open>The rule read back from the file differs from the parsed table only where the table said
  nothing effective: a deny message on an approve, and the skipped field of the module.\<close>

lemma wire_of_parsed_rule:
  "rule_of_wire w = Inr r \<Longrightarrow>
   wire_of_rule r = w\<lparr>rw_deny_message := (if rw_decide w = Some ApproveRule then None else rw_deny_message w),
     rw_wasm := map_option (\<lambda>x. x\<lparr>wm_declared_secrets := rw_declared_secrets w\<rparr>) (rw_wasm w)\<rparr>"
  by (auto simp: rule_of_wire_def wire_body_def wire_of_rule_def
      split: sum.splits option.splits if_splits RuleDecision.splits)

definition pinned :: "'m rules_env \<Rightarrow> string \<Rightarrow> Rule \<Rightarrow> 'm \<Rightarrow> bool" where
  "pinned E dir r m \<longleftrightarrow> (\<exists>w bs. ru_body r = Wasm w \<and> re_read E (path_join dir (wm_path w)) = Inr bs
     \<and> eq_ignore_ascii_case (re_sha256_hex E bs) (wm_sha256 w) \<and> wh_from_binary (re_wasm E) bs = Inr m
     \<and> (wm_declared_secrets w = None \<or> wh_declared_subjects (re_wasm E) m = Inr (wm_declared_secrets w)))"

lemma load_rule_module_pinned: "load_rule_module E dir r = Inr (Some m) \<Longrightarrow> pinned E dir r m"
  by (auto simp: load_rule_module_def pinned_def split: RuleBody.splits sum.splits if_splits option.splits)

lemma load_rule_module_None: "load_rule_module E dir r = Inr None \<Longrightarrow> \<not> is_wasm r"
  by (auto simp: load_rule_module_def is_wasm_def split: RuleBody.splits sum.splits if_splits option.splits)

definition accounted :: "'m RuleModules \<Rightarrow> WasmRefusal list \<Rightarrow> Rule \<Rightarrow> bool" where
  "accounted mods refs r \<longleftrightarrow> map_of mods (ru_id r) \<noteq> None \<or> ru_id r \<in> wf_rule_id ` set refs"

lemma load_modules_spec:
  assumes "load_modules E dir rs (mods, refs) = (mods', refs')"
  shows "(\<forall>rid m. map_of mods' rid = Some m \<longrightarrow> map_of mods rid = Some m
      \<or> (\<exists>r \<in> set rs. ru_id r = rid \<and> pinned E dir r m))
    \<and> (\<forall>r \<in> set rs. is_wasm r \<longrightarrow> accounted mods' refs' r)
    \<and> (\<forall>r. accounted mods refs r \<longrightarrow> accounted mods' refs' r)"
  using assms
proof (induction rs arbitrary: mods refs)
  case Nil
  then show ?case by simp
next
  case (Cons r rs)
  show ?case
  proof (cases "load_rule_module E dir r")
    case (Inl e)
    obtain cat why where e: "e = (cat, why)" by force
    let ?refs = "refs @ [\<lparr>wf_rule_id = ru_id r, wf_category = cat, wf_reason = why\<rparr>]"
    have "load_modules E dir rs (mods, ?refs) = (mods', refs')" using Cons.prems Inl by (simp add: e)
    note IH = Cons.IH [OF this]
    moreover have "accounted mods ?refs r" by (simp add: accounted_def)
    moreover have "accounted mods ?refs q" if "accounted mods refs q" for q using that by (auto simp: accounted_def)
    ultimately show ?thesis by auto
  next
    case (Inr mo)
    show ?thesis
    proof (cases mo)
      case None
      then have "load_modules E dir rs (mods, refs) = (mods', refs')" using Cons.prems Inr by simp
      note IH = Cons.IH [OF this]
      then show ?thesis using load_rule_module_None [of E dir r] Inr None by auto
    next
      case (Some m)
      then have "load_modules E dir rs (hm_insert (ru_id r) m mods, refs) = (mods', refs')"
        using Cons.prems Inr by simp
      note IH = Cons.IH [OF this]
      have p: "pinned E dir r m" using Inr Some by (simp add: load_rule_module_pinned)
      have "accounted (hm_insert (ru_id r) m mods) refs r" by (simp add: accounted_def)
      moreover have "accounted (hm_insert (ru_id r) m mods) refs q" if "accounted mods refs q" for q
        using that by (auto simp: accounted_def)
      ultimately show ?thesis using IH p by (auto split: if_splits)
    qed
  qed
qed

definition edit_target :: "RuleEdit \<Rightarrow> string" where
  "edit_target edit = (case edit of AddEdit r \<Rightarrow> ru_id r | UpdateEdit e _ \<Rightarrow> ru_id e
     | DeleteEdit e \<Rightarrow> ru_id e | SetEnabledEdit e _ \<Rightarrow> ru_id e)"

definition edit_expected :: "RuleEdit \<Rightarrow> Rule option" where
  "edit_expected edit = (case edit of AddEdit _ \<Rightarrow> None | UpdateEdit e _ \<Rightarrow> Some e
     | DeleteEdit e \<Rightarrow> Some e | SetEnabledEdit e _ \<Rightarrow> Some e)"

lemma modify_rule_others:
  "(\<And>r. ru_id r = rid \<Longrightarrow> \<forall>q \<in> set (f r). ru_id q = rid) \<Longrightarrow>
   filter (\<lambda>q. ru_id q \<noteq> rid) (modify_rule f rid rs) = filter (\<lambda>q. ru_id q \<noteq> rid) rs"
  by (induction f rid rs rule: modify_rule.induct) auto

lemma modify_rule_ids:
  "(\<And>r. ru_id r = rid \<Longrightarrow> map ru_id (f r) \<in> {[rid], []}) \<Longrightarrow> distinct (map ru_id rs) \<Longrightarrow>
   distinct (map ru_id (modify_rule f rid rs)) \<and> set (map ru_id (modify_rule f rid rs)) \<subseteq> set (map ru_id rs)"
proof (induction f rid rs rule: modify_rule.induct)
  case (1 f rid)
  then show ?case by simp
next
  case (2 f rid r rs)
  show ?case
  proof (cases "ru_id r = rid")
    case True
    have "distinct (map ru_id (f r @ rs))" "set (map ru_id (f r @ rs)) \<subseteq> set (map ru_id (r # rs))"
      using "2.prems" (1) [OF True] "2.prems"(2) True by auto
    then show ?thesis using True by simp
  next
    case False
    then show ?thesis using 2 by auto
  qed
qed

lemma ensure_current:
  "ensure_rule_is_current rs e = Inr () \<Longrightarrow> \<exists>r \<in> set rs. ru_id r = ru_id e \<and> rule_eq r e"
  by (auto simp: ensure_rule_is_current_def find_Some_iff split: option.splits if_splits)

lemma apply_rule_edit_Inr:
  assumes "apply_rule_edit rs edit = Inr rs'"
  shows "filter (\<lambda>q. ru_id q \<noteq> edit_target edit) rs' = filter (\<lambda>q. ru_id q \<noteq> edit_target edit) rs
    \<and> (distinct (map ru_id rs) \<longrightarrow> distinct (map ru_id rs'))
    \<and> (\<forall>e. edit_expected edit = Some e \<longrightarrow> (\<exists>r \<in> set rs. ru_id r = ru_id e \<and> rule_eq r e))
    \<and> (edit_expected edit = None \<longrightarrow> edit_target edit \<notin> ru_id ` set rs)"
proof (cases edit)
  case (AddEdit rule)
  then have "rs' = rs @ [rule]" "ru_id rule \<notin> ru_id ` set rs"
    using assms by (force simp: apply_rule_edit_def list_ex_iff split: if_splits)+
  with AddEdit show ?thesis by (auto simp: edit_target_def edit_expected_def)
next
  case (UpdateEdit e new)
  have cur: "ensure_rule_is_current rs e = Inr ()" and ids: "ru_id e = ru_id new"
    and rs': "rs' = modify_rule (\<lambda>_. [new]) (ru_id e) rs"
    using assms UpdateEdit by (auto simp: apply_rule_edit_def split: if_splits sum.splits)
  then show ?thesis
    using UpdateEdit ensure_current [OF cur] modify_rule_others [of "ru_id e" "\<lambda>_. [new]" rs]
      modify_rule_ids [of "ru_id e" "\<lambda>_. [new]" rs]
    by (simp add: edit_target_def edit_expected_def)
next
  case (DeleteEdit e)
  have cur: "ensure_rule_is_current rs e = Inr ()" and rs': "rs' = modify_rule (\<lambda>_. []) (ru_id e) rs"
    using assms DeleteEdit by (auto simp: apply_rule_edit_def split: if_splits sum.splits)
  then show ?thesis
    using DeleteEdit ensure_current [OF cur] modify_rule_others [of "ru_id e" "\<lambda>_. []" rs]
      modify_rule_ids [of "ru_id e" "\<lambda>_. []" rs]
    by (simp add: edit_target_def edit_expected_def)
next
  case (SetEnabledEdit e b)
  have cur: "ensure_rule_is_current rs e = Inr ()"
    and rs': "rs' = modify_rule (\<lambda>r. [r\<lparr>ru_enabled := b\<rparr>]) (ru_id e) rs"
    using assms SetEnabledEdit by (auto simp: apply_rule_edit_def split: if_splits sum.splits)
  then show ?thesis
    using SetEnabledEdit ensure_current [OF cur] modify_rule_others [of "ru_id e" "\<lambda>r. [r\<lparr>ru_enabled := b\<rparr>]" rs]
      modify_rule_ids [of "ru_id e" "\<lambda>r. [r\<lparr>ru_enabled := b\<rparr>]" rs]
    by (simp add: edit_target_def edit_expected_def)
qed

section \<open>Properties\<close>

text \<open>
  A rule survives being written to the flat table and read back, for declarative and wasm
  rules alike.
\<close>

theorem rule_wire_round_trip:
  "rule_of_wire (wire_of_rule r) = Inr r"
  by (auto simp: rule_of_wire_def wire_body_def wire_of_rule_def split: RuleBody.splits StaticDecision.splits)

text \<open>
  Loading is tamper-evident and leaves no wasm rule silently inert: every module in the
  table was compiled from bytes that hash to the digest pinned by a rule of that id and declares
  what that rule recorded, and every wasm rule has a module or a refusal that names it.
\<close>

theorem loaded_modules_are_pinned:
  assumes "load_rules E dir path = Inr l"
  shows "(\<forall>rid m. map_of (lr_modules l) rid = Some m \<longrightarrow>
      (\<exists>r \<in> set (lr_rules l). ru_id r = rid \<and> pinned E dir r m))
    \<and> (\<forall>r \<in> set (lr_rules l). is_wasm r \<longrightarrow> map_of (lr_modules l) (ru_id r) \<noteq> None
        \<or> ru_id r \<in> wf_rule_id ` set (rf_wasm (lr_refusals l)))"
proof (cases "re_stat E path")
  case NotFoundOnDisk
  then show ?thesis using assms by (auto simp: load_rules_def)
next
  case (StatFailed e)
  then show ?thesis using assms by (simp add: load_rules_def)
next
  case (Stat mt)
  then obtain rules mods refs stray where "load_modules E dir rules ([], []) = (mods, refs)"
    "lr_rules l = rules" "lr_modules l = mods" "rf_wasm (lr_refusals l) = refs"
    using assms by (auto simp: load_rules_def Let_def split: sum.splits prod.splits)
  with load_modules_spec [of E dir rules "[]" "[]" mods refs] show ?thesis
    by (auto simp: accounted_def)
qed

text \<open>
  Edits are optimistic and local: one that succeeds started from a file that still held the
  rule the caller was looking at, changes no rule with another id and keeps their order, and
  keeps ids distinct; an addition never reuses an id.
\<close>

theorem rule_edits_are_local:
  assumes "apply_rule_edit rs edit = Inr rs'"
  shows "filter (\<lambda>q. ru_id q \<noteq> edit_target edit) rs' = filter (\<lambda>q. ru_id q \<noteq> edit_target edit) rs
    \<and> (distinct (map ru_id rs) \<longrightarrow> distinct (map ru_id rs'))
    \<and> (\<forall>e. edit_expected edit = Some e \<longrightarrow> (\<exists>r \<in> set rs. ru_id r = ru_id e \<and> rule_eq r e))
    \<and> (edit_expected edit = None \<longrightarrow> edit_target edit \<notin> ru_id ` set rs)"
  by (rule apply_rule_edit_Inr [OF assms])

text \<open>At a rule list of one wasm rule whose module is present, and at a toggle.\<close>

definition wasm_sample :: Rule where
  "wasm_sample = \<lparr>ru_id = ''w'', ru_name = ''w'', ru_enabled = True, ru_wraps = None,
     ru_trained_secrets = [], ru_created_at_unix = 0,
     ru_body = Wasm \<lparr>wm_path = ''w.wasm'', wm_sha256 = ''ab'', wm_declared_secrets = None\<rparr>\<rparr>"

definition sample_env :: "unit rules_env" where
  "sample_env = \<lparr>re_glob = \<lparr>gl_new = (\<lambda>_. None), gl_matches = (\<lambda>_ _. False)\<rparr>,
     re_wasm = \<lparr>wh_from_binary = (\<lambda>_. Inr ()), wh_declared_subjects = (\<lambda>_. Inr None), wh_evaluate = (\<lambda>_ _. Inr Pass)\<rparr>,
     re_sha256_hex = (\<lambda>_. ''ab''), re_stat = (\<lambda>_. Stat (Some 1)), re_read = (\<lambda>_. Inr ''bytes''),
     re_is_file = (\<lambda>_. False), re_rules_toml = (\<lambda>_. Inr [wire_of_rule wasm_sample]),
     re_config_toml = (\<lambda>_. None)\<rparr>"

theorem loaded_modules_are_pinned_witness:
  "\<exists>l. load_rules sample_env ''/d'' ''/d/rules.toml'' = Inr l \<and> map_of (lr_modules l) ''w'' = Some ()
     \<and> pinned sample_env ''/d'' wasm_sample ()"
proof -
  have "\<exists>l. load_rules sample_env ''/d'' ''/d/rules.toml'' = Inr l \<and> map_of (lr_modules l) ''w'' = Some ()
     \<and> lr_rules l = [wasm_sample]"
    by (simp add: load_rules_def sample_env_def wire_of_rule_def rule_of_wire_def wire_body_def wasm_sample_def
        load_rule_module_def eq_ignore_ascii_case_def to_lower_def wrap_scope_refusals_for_path_def
        load_wrap_scope_config_def Let_def)
  then obtain l where l: "load_rules sample_env ''/d'' ''/d/rules.toml'' = Inr l"
    "map_of (lr_modules l) ''w'' = Some ()" "lr_rules l = [wasm_sample]" by blast
  from loaded_modules_are_pinned [OF l(1)] l(2,3) have "pinned sample_env ''/d'' wasm_sample ()" by auto
  with l show ?thesis by blast
qed

theorem rule_edits_are_local_witness:
  "apply_rule_edit [wasm_sample] (SetEnabledEdit wasm_sample False) = Inr [wasm_sample\<lparr>ru_enabled := False\<rparr>]
   \<and> (\<exists>r \<in> set [wasm_sample]. rule_eq r wasm_sample)"
proof -
  have e: "apply_rule_edit [wasm_sample] (SetEnabledEdit wasm_sample False) = Inr [wasm_sample\<lparr>ru_enabled := False\<rparr>]"
    by (simp add: apply_rule_edit_def ensure_rule_is_current_def rule_eq_def wasm_sample_def)
  show ?thesis using e rule_edits_are_local [OF e] by (simp add: edit_expected_def)
qed

end
