(* ===== verification/Evaluate.thy ===== *)
theory Evaluate
  imports Rules
begin

text \<open>
  The evaluation half of \<open>src/packages/secreq/src/rules.rs\<close>: one pass over the rule list that
  gathers the best deny, the best approver of every requested secret, the first reason to ask
  a human, and the failures of wasm modules; then \<open>Deny > Prompt > Approve\<close>.
\<close>

section \<open>The interface of a ranking\<close>

text \<open>What keeping the best of a sequence relies on: a strict weak order.\<close>

locale ranking =
  fixes better :: "'a \<Rightarrow> 'a \<Rightarrow> bool"
  assumes better_irrefl: "\<not> better x x"
    and better_trans: "better x y \<Longrightarrow> better y z \<Longrightarrow> better x z"
    and better_negtrans: "better x z \<Longrightarrow> better x y \<or> better y z"
begin

definition keep_best :: "'a option \<Rightarrow> 'a \<Rightarrow> 'a option" where
  "keep_best slot x = (case slot of
      None \<Rightarrow> Some x | Some cur \<Rightarrow> if better x cur then Some x else Some cur)"

definition unbeaten :: "'a \<Rightarrow> 'a set \<Rightarrow> bool" where
  "unbeaten x S \<longleftrightarrow> (\<forall>y \<in> S. \<not> better y x)"

lemma unbeaten_step:
  "unbeaten cur S \<Longrightarrow> unbeaten (if better x cur then x else cur) (insert x S)"
  using better_irrefl better_trans by (auto simp: unbeaten_def)

lemma keep_best_fold:
  assumes "case slot of None \<Rightarrow> S = {} | Some cur \<Rightarrow> cur \<in> S \<and> unbeaten cur S"
  shows "case fold (\<lambda>x s. keep_best s x) xs slot of
      None \<Rightarrow> S \<union> set xs = {} | Some b \<Rightarrow> b \<in> S \<union> set xs \<and> unbeaten b (S \<union> set xs)"
  using assms
proof (induction xs arbitrary: slot S)
  case Nil
  then show ?case by (simp split: option.splits)
next
  case (Cons x xs)
  have "case keep_best slot x of None \<Rightarrow> insert x S = {} | Some b \<Rightarrow> b \<in> insert x S \<and> unbeaten b (insert x S)"
  proof (cases slot)
    case None
    then show ?thesis using Cons.prems by (simp add: keep_best_def unbeaten_def better_irrefl)
  next
    case (Some cur)
    then show ?thesis using Cons.prems unbeaten_step [of cur S x] by (auto simp: keep_best_def)
  qed
  from Cons.IH [OF this] show ?case by (simp split: option.splits)
qed

lemma reduce_best:
  "b = foldl (\<lambda>acc cur. if better cur acc then cur else acc) x xs \<Longrightarrow>
   b \<in> insert x (set xs) \<and> unbeaten b (insert x (set xs))"
proof (induction xs arbitrary: b rule: rev_induct)
  case Nil
  then show ?case by (simp add: unbeaten_def better_irrefl)
next
  case (snoc y ys)
  let ?c = "foldl (\<lambda>acc cur. if better cur acc then cur else acc) x ys"
  have c: "?c \<in> insert x (set ys)" "unbeaten ?c (insert x (set ys))" using snoc.IH by simp_all
  have b: "b = (if better y ?c then y else ?c)" using snoc.prems by simp
  have "unbeaten b (insert y (insert x (set ys)))" unfolding b by (rule unbeaten_step [OF c(2)])
  moreover have "b \<in> insert y (insert x (set ys))" using b c(1) by auto
  moreover have "insert x (set (ys @ [y])) = insert y (insert x (set ys))" by auto
  ultimately show ?case by simp
qed

end

section \<open>What a rule is asked\<close>

definition evaluation_subjects :: "string \<Rightarrow> string list \<Rightarrow> string list" where
  "evaluation_subjects wrap names =
     (if names \<noteq> [] then names
      else if starts_with wrap ''ssh:'' then [wrap]
      else [''wrap:'' @ wrap])"

definition joined_argv :: "string list \<Rightarrow> string" where
  "joined_argv command = join_with '' '' command"

definition legacy_audit_command :: "string \<Rightarrow> string list \<Rightarrow> string list" where
  "legacy_audit_command wrap args =
     (if wrap = ''run'' \<or> wrap = ''read'' \<or> wrap = ''store'' then args
      else (case strip_prefix ''ssh:'' wrap of
          Some key_id \<Rightarrow> [''ssh-sign '' @ key_id]
        | None \<Rightarrow> wrap # args))"

definition wrap_in_scope :: "Rule \<Rightarrow> string \<Rightarrow> bool" where
  "wrap_in_scope r wrap = (case ru_wraps r of None \<Rightarrow> True | Some ws \<Rightarrow> wrap \<in> set ws)"

definition wasm_overlaps :: "Rule \<Rightarrow> EvalCtx \<Rightarrow> bool" where
  "wasm_overlaps r ctx \<longleftrightarrow> ru_trained_secrets r = []
     \<or> list_ex (\<lambda>n. n \<in> set (ru_trained_secrets r)) (cx_secrets ctx)"

definition declarative_approve_in_scope :: "Rule \<Rightarrow> EvalCtx \<Rightarrow> bool" where
  "declarative_approve_in_scope r ctx =
     (if ru_trained_secrets r = [] then True
      else if cx_secrets ctx = [] then False
      else list_all (\<lambda>n. n \<in> set (ru_trained_secrets r)) (cx_secrets ctx))"

datatype ClauseOutcome = Match | NoMatch | Unconsultable

definition clause_outcome :: "glob_crate \<Rightarrow> RuleMatch \<Rightarrow> EvalCtx \<Rightarrow> ClauseOutcome" where
  "clause_outcome G m ctx =
     (let fails = (\<lambda>pat ok. case pat of Some p \<Rightarrow> \<not> is_invalid p \<and> \<not> ok p | None \<Rightarrow> False);
          broken = (\<lambda>pat. case pat of Some p \<Rightarrow> is_invalid p | None \<Rightarrow> False)
      in if rm_wrap m \<noteq> cx_wrap ctx then NoMatch
         else if fails (rm_argv m) (\<lambda>p. matches_prefix G p (cx_joined_argv ctx)) then NoMatch
         else if fails (rm_ancestor m) (\<lambda>p. list_ex (matches_ancestor G p) (cx_callers ctx)) then NoMatch
         else if fails (rm_cwd m) (\<lambda>p. matches_path_prefix G p (cx_cwd ctx)) then NoMatch
         else if broken (rm_argv m) \<or> broken (rm_ancestor m) \<or> broken (rm_cwd m) then Unconsultable
         else Match)"

definition WASM_DECISION_SPECIFICITY :: nat where
  "WASM_DECISION_SPECIFICITY = 2 ^ 32 - 1"

definition specificity :: "RuleMatch \<Rightarrow> nat" where
  "specificity m = of_bool (rm_argv m \<noteq> None) + of_bool (rm_ancestor m \<noteq> None) + of_bool (rm_cwd m \<noteq> None)"

section \<open>The pass\<close>

record Candidate =
  cd_rule :: Rule
  cd_deny_message :: "string option"
  cd_specificity :: nat

definition beats :: "Candidate \<Rightarrow> Candidate \<Rightarrow> bool" where
  "beats a b = (if cd_specificity a \<noteq> cd_specificity b then cd_specificity a > cd_specificity b
     else ru_id (cd_rule a) < ru_id (cd_rule b))"

interpretation best: ranking beats
  by unfold_locales (auto simp: beats_def split: if_splits)

definition record_deny :: "Candidate option \<Rightarrow> Candidate \<Rightarrow> Candidate option" where
  "record_deny slot candidate = (case slot of
      None \<Rightarrow> Some candidate
    | Some cur \<Rightarrow> if beats candidate cur then Some candidate else Some cur)"

type_synonym approver_map = "(string, Candidate) hmap"

definition record_approval :: "string \<Rightarrow> Candidate \<Rightarrow> approver_map \<Rightarrow> approver_map" where
  "record_approval secret candidate approvers =
     (if (case map_of approvers secret of None \<Rightarrow> True | Some cur \<Rightarrow> beats candidate cur)
      then hm_insert secret candidate approvers else approvers)"

record PromptMandate =
  pm_rule_id :: string
  pm_rule_name :: string
  pm_reason :: string

record WasmFailure =
  wx_rule_id :: string
  wx_rule_name :: string
  wx_error :: string

record RuleHit =
  rh_rule_id :: string
  rh_rule_name :: string
  rh_decide :: RuleDecision
  rh_deny_message :: "string option"
  rh_approvals :: "(string, string) btmap"

record Evaluation =
  ev_hit :: "RuleHit option"
  ev_mandated_prompt :: "PromptMandate option"
  ev_wasm_failures :: "WasmFailure list"

record pass_state =
  ps_best_deny :: "Candidate option"
  ps_approvers :: approver_map
  ps_mandate :: "PromptMandate option"
  ps_failures :: "WasmFailure list"

definition mandate :: "Rule \<Rightarrow> string \<Rightarrow> pass_state \<Rightarrow> pass_state" where
  "mandate r reason s = (if ps_mandate s = None then
     s\<lparr>ps_mandate := Some \<lparr>pm_rule_id = ru_id r, pm_rule_name = ru_name r, pm_reason = reason\<rparr>\<rparr> else s)"

definition candidate :: "Rule \<Rightarrow> string option \<Rightarrow> nat \<Rightarrow> Candidate" where
  "candidate r msg spec = \<lparr>cd_rule = r, cd_deny_message = msg, cd_specificity = spec\<rparr>"

definition UNLOADED :: string where
  "UNLOADED = ''a rule module could not be loaded, so the ruleset is incomplete''"

definition ERRORED :: string where
  "ERRORED = ''a rule module errored, so the ruleset is incomplete''"

definition BAD_GLOB :: string where
  "BAD_GLOB = ''a deny rule's pattern is not a valid glob, so the ruleset is incomplete''"

definition step_wasm :: "'m wasm_host \<Rightarrow> 'm RuleModules \<Rightarrow> EvalCtx \<Rightarrow> Rule \<Rightarrow> pass_state \<Rightarrow> pass_state" where
  "step_wasm H modules ctx r s =
     (if \<not> wasm_overlaps r ctx then s
      else (case map_of modules (ru_id r) of
          None \<Rightarrow> mandate r UNLOADED s
        | Some m \<Rightarrow> (case wh_evaluate H m ctx of
              Inr Pass \<Rightarrow> s
            | Inr ApproveWasm \<Rightarrow>
                s\<lparr>ps_approvers := fold (\<lambda>secret. if ru_trained_secrets r = [] \<or> secret \<in> set (ru_trained_secrets r)
                     then record_approval secret (candidate r None WASM_DECISION_SPECIFICITY) else id)
                   (cx_secrets ctx) (ps_approvers s)\<rparr>
            | Inr (DenyWasm reason) \<Rightarrow>
                s\<lparr>ps_best_deny := record_deny (ps_best_deny s)
                   (candidate r (Some reason) WASM_DECISION_SPECIFICITY)\<rparr>
            | Inr (PromptWasm reason) \<Rightarrow> mandate r reason s
            | Inl err \<Rightarrow>
                mandate r ERRORED (s\<lparr>ps_failures := ps_failures s @
                  [\<lparr>wx_rule_id = ru_id r, wx_rule_name = ru_name r, wx_error = err\<rparr>]\<rparr>))))"

definition step_declarative ::
  "glob_crate \<Rightarrow> EvalCtx \<Rightarrow> Rule \<Rightarrow> RuleMatch \<Rightarrow> StaticDecision \<Rightarrow> pass_state \<Rightarrow> pass_state" where
  "step_declarative G ctx r m d s = (case clause_outcome G m ctx of
      NoMatch \<Rightarrow> s
    | Unconsultable \<Rightarrow> (case static_decision d of DenyRule \<Rightarrow> mandate r BAD_GLOB s | ApproveRule \<Rightarrow> s)
    | Match \<Rightarrow> (case static_decision d of
          DenyRule \<Rightarrow> s\<lparr>ps_best_deny := record_deny (ps_best_deny s)
             (candidate r (static_deny_message d) (specificity m))\<rparr>
        | ApproveRule \<Rightarrow>
            (if declarative_approve_in_scope r ctx then
               s\<lparr>ps_approvers := fold (\<lambda>secret. record_approval secret (candidate r None (specificity m)))
                  (cx_secrets ctx) (ps_approvers s)\<rparr>
             else s)))"

definition scope_refusal_of :: "RuleRefusals \<Rightarrow> Rule \<Rightarrow> WrapScopeRefusal option" where
  "scope_refusal_of R r = find (\<lambda>f. sf_rule_id f = ru_id r) (rf_scopes R)"

definition eval_step ::
  "glob_crate \<Rightarrow> 'm wasm_host \<Rightarrow> 'm RuleModules \<Rightarrow> RuleRefusals \<Rightarrow> EvalCtx \<Rightarrow> Rule \<Rightarrow> pass_state \<Rightarrow> pass_state"
where
  "eval_step G H modules R ctx r s =
     (if \<not> ru_enabled r then s
      else (case scope_refusal_of R r of
          Some refusal \<Rightarrow> (case ru_body r of
              Wasm _ \<Rightarrow> if wasm_overlaps r ctx then mandate r (sf_reason refusal) s else s
            | Declarative m d \<Rightarrow>
                if clause_outcome G m ctx \<noteq> NoMatch \<and> static_decision d = DenyRule
                then mandate r (sf_reason refusal) s else s)
        | None \<Rightarrow>
            if \<not> wrap_in_scope r (cx_wrap ctx) then s
            else (case ru_body r of
                Wasm _ \<Rightarrow> step_wasm H modules ctx r s
              | Declarative m d \<Rightarrow> step_declarative G ctx r m d s)))"

definition approve_hit :: "EvalCtx \<Rightarrow> approver_map \<Rightarrow> RuleHit option" where
  "approve_hit ctx approvers =
     (if cx_secrets ctx = [] \<or> \<not> list_all (\<lambda>s. map_of approvers s \<noteq> None) (cx_secrets ctx) then None
      else
        (let approvals = fold (\<lambda>s. bt_insert s (ru_id (cd_rule (the (map_of approvers s))))) (cx_secrets ctx) []
         in case hm_values approvers of
              [] \<Rightarrow> None
            | c # cs \<Rightarrow>
                (let winner = foldl (\<lambda>acc cur. if beats cur acc then cur else acc) c cs
                 in Some \<lparr>rh_rule_id = ru_id (cd_rule winner), rh_rule_name = ru_name (cd_rule winner),
                      rh_decide = ApproveRule, rh_deny_message = None, rh_approvals = approvals\<rparr>)))"

definition pass_init :: pass_state where
  "pass_init = \<lparr>ps_best_deny = None, ps_approvers = [], ps_mandate = None, ps_failures = []\<rparr>"

definition evaluate_with_refusals ::
  "glob_crate \<Rightarrow> 'm wasm_host \<Rightarrow> Rule list \<Rightarrow> 'm RuleModules \<Rightarrow> RuleRefusals \<Rightarrow> EvalCtx \<Rightarrow> Evaluation" where
  "evaluate_with_refusals G H rules modules R ctx =
     (let s = fold (eval_step G H modules R ctx) rules pass_init;
          hit = (case (ps_best_deny s, ps_mandate s) of
              (Some deny, _) \<Rightarrow> Some \<lparr>rh_rule_id = ru_id (cd_rule deny), rh_rule_name = ru_name (cd_rule deny),
                  rh_decide = DenyRule, rh_deny_message = cd_deny_message deny, rh_approvals = []\<rparr>
            | (None, Some _) \<Rightarrow> None
            | (None, None) \<Rightarrow> approve_hit ctx (ps_approvers s))
      in \<lparr>ev_hit = hit, ev_mandated_prompt = (if hit \<noteq> None then None else ps_mandate s),
          ev_wasm_failures = ps_failures s\<rparr>)"

definition evaluate ::
  "glob_crate \<Rightarrow> 'm wasm_host \<Rightarrow> Rule list \<Rightarrow> 'm RuleModules \<Rightarrow> EvalCtx \<Rightarrow> Evaluation" where
  "evaluate G H rules modules ctx = evaluate_with_refusals G H rules modules no_refusals ctx"

section \<open>What each rule contributes\<close>

definition consulted :: "RuleRefusals \<Rightarrow> EvalCtx \<Rightarrow> Rule \<Rightarrow> bool" where
  "consulted R ctx r \<longleftrightarrow> ru_enabled r \<and> scope_refusal_of R r = None \<and> wrap_in_scope r (cx_wrap ctx)"

definition module_says :: "'m wasm_host \<Rightarrow> 'm RuleModules \<Rightarrow> EvalCtx \<Rightarrow> Rule \<Rightarrow> (string + WasmDecision) option" where
  "module_says H modules ctx r = map_option (\<lambda>m. wh_evaluate H m ctx) (map_of modules (ru_id r))"

text \<open>The rule refuses the ask, asks for a human, or vouches for one secret.\<close>

definition denies ::
  "glob_crate \<Rightarrow> 'm wasm_host \<Rightarrow> 'm RuleModules \<Rightarrow> RuleRefusals \<Rightarrow> EvalCtx \<Rightarrow> Rule \<Rightarrow> bool" where
  "denies G H modules R ctx r \<longleftrightarrow> consulted R ctx r
     \<and> (case ru_body r of
          Wasm _ \<Rightarrow> wasm_overlaps r ctx \<and> (\<exists>why. module_says H modules ctx r = Some (Inr (DenyWasm why)))
        | Declarative m d \<Rightarrow> clause_outcome G m ctx = Match \<and> static_decision d = DenyRule)"

definition asks_for_human ::
  "glob_crate \<Rightarrow> 'm wasm_host \<Rightarrow> 'm RuleModules \<Rightarrow> RuleRefusals \<Rightarrow> EvalCtx \<Rightarrow> Rule \<Rightarrow> bool" where
  "asks_for_human G H modules R ctx r \<longleftrightarrow> ru_enabled r
     \<and> (if scope_refusal_of R r \<noteq> None
        then (case ru_body r of
            Wasm _ \<Rightarrow> wasm_overlaps r ctx
          | Declarative m d \<Rightarrow> clause_outcome G m ctx \<noteq> NoMatch \<and> static_decision d = DenyRule)
        else wrap_in_scope r (cx_wrap ctx)
          \<and> (case ru_body r of
              Wasm _ \<Rightarrow> wasm_overlaps r ctx \<and> (case module_says H modules ctx r of
                  None \<Rightarrow> True | Some (Inl _) \<Rightarrow> True | Some (Inr (PromptWasm _)) \<Rightarrow> True | _ \<Rightarrow> False)
            | Declarative m d \<Rightarrow> clause_outcome G m ctx = Unconsultable \<and> static_decision d = DenyRule))"

definition blesses ::
  "glob_crate \<Rightarrow> 'm wasm_host \<Rightarrow> 'm RuleModules \<Rightarrow> RuleRefusals \<Rightarrow> EvalCtx \<Rightarrow> string \<Rightarrow> Rule \<Rightarrow> bool" where
  "blesses G H modules R ctx secret r \<longleftrightarrow> consulted R ctx r \<and> secret \<in> set (cx_secrets ctx)
     \<and> (case ru_body r of
          Wasm _ \<Rightarrow> wasm_overlaps r ctx \<and> module_says H modules ctx r = Some (Inr ApproveWasm)
            \<and> (ru_trained_secrets r = [] \<or> secret \<in> set (ru_trained_secrets r))
        | Declarative m d \<Rightarrow> clause_outcome G m ctx = Match \<and> static_decision d = ApproveRule
            \<and> declarative_approve_in_scope r ctx)"

definition rule_specificity :: "Rule \<Rightarrow> nat" where
  "rule_specificity r = (case ru_body r of Wasm _ \<Rightarrow> WASM_DECISION_SPECIFICITY | Declarative m _ \<Rightarrow> specificity m)"

text \<open>\<open>outranks a b\<close>: the order in which rules of the same side are credited.\<close>

definition outranks :: "Rule \<Rightarrow> Rule \<Rightarrow> bool" where
  "outranks a b = beats (candidate a None (rule_specificity a)) (candidate b None (rule_specificity b))"

definition deny_candidate :: "'m wasm_host \<Rightarrow> 'm RuleModules \<Rightarrow> EvalCtx \<Rightarrow> Rule \<Rightarrow> Candidate" where
  "deny_candidate H modules ctx r = candidate r
     (case ru_body r of
        Wasm _ \<Rightarrow> (case module_says H modules ctx r of Some (Inr (DenyWasm why)) \<Rightarrow> Some why | _ \<Rightarrow> None)
      | Declarative m d \<Rightarrow> static_deny_message d) (rule_specificity r)"

lemma record_deny_keep: "record_deny = best.keep_best"
  by (intro ext) (simp add: record_deny_def best.keep_best_def)

lemma record_approval_get:
  "map_of (record_approval x c ap) y = (if x = y then best.keep_best (map_of ap x) c else map_of ap y)"
  by (auto simp: record_approval_def best.keep_best_def split: option.splits)

lemma keep_best_idem: "best.keep_best (best.keep_best s c) c = best.keep_best s c"
  by (auto simp: best.keep_best_def best.better_irrefl split: option.splits)

lemma record_approvals_get:
  "map_of (fold (\<lambda>x. if P x then record_approval x c else id) xs ap) y =
     (if y \<in> set xs \<and> P y then best.keep_best (map_of ap y) c else map_of ap y)"
  by (induction xs arbitrary: ap) (auto simp: record_approval_get keep_best_idem)

lemma record_approvals_get_all:
  "map_of (fold (\<lambda>x. record_approval x c) xs ap) y =
     (if y \<in> set xs then best.keep_best (map_of ap y) c else map_of ap y)"
  using record_approvals_get [of "\<lambda>_. True" c xs ap y] by simp

lemma hm_wf_record_approvals:
  "hm_wf ap \<Longrightarrow> hm_wf (fold (\<lambda>x. if P x then record_approval x c else id) xs ap)"
  by (induction xs arbitrary: ap) (auto simp: record_approval_def)

lemma hm_wf_record_approvals_all: "hm_wf ap \<Longrightarrow> hm_wf (fold (\<lambda>x. record_approval x c) xs ap)"
  using hm_wf_record_approvals [of ap "\<lambda>_. True"] by simp

lemma mandate_simps [simp]:
  "ps_best_deny (mandate r why s) = ps_best_deny s"
  "ps_approvers (mandate r why s) = ps_approvers s"
  "ps_failures (mandate r why s) = ps_failures s"
  "ps_mandate (mandate r why s) \<noteq> None"
  by (simp_all add: mandate_def)

lemmas step_defs = eval_step_def step_wasm_def step_declarative_def
lemmas vote_defs = consulted_def module_says_def denies_def asks_for_human_def blesses_def
  rule_specificity_def

lemma eval_step_deny:
  "ps_best_deny (eval_step G H modules R ctx r s) =
     (if denies G H modules R ctx r
      then best.keep_best (ps_best_deny s) (deny_candidate H modules ctx r) else ps_best_deny s)"
  by (simp add: step_defs vote_defs deny_candidate_def record_deny_keep split: option.split
      RuleBody.split ClauseOutcome.split RuleDecision.split sum.split WasmDecision.split)

lemma eval_step_mandate:
  "ps_mandate (eval_step G H modules R ctx r s) \<noteq> None \<longleftrightarrow>
     ps_mandate s \<noteq> None \<or> asks_for_human G H modules R ctx r"
  by (simp add: step_defs vote_defs mandate_def split: option.split
      RuleBody.split ClauseOutcome.split RuleDecision.split sum.split WasmDecision.split)

lemma eval_step_approvers:
  "map_of (ps_approvers (eval_step G H modules R ctx r s)) x =
     (if blesses G H modules R ctx x r
      then best.keep_best (map_of (ps_approvers s) x) (candidate r None (rule_specificity r))
      else map_of (ps_approvers s) x)"
  by (simp add: step_defs vote_defs record_approvals_get record_approvals_get_all split: option.split
      RuleBody.split ClauseOutcome.split RuleDecision.split sum.split WasmDecision.split) auto

lemma eval_step_wf:
  "hm_wf (ps_approvers s) \<Longrightarrow> hm_wf (ps_approvers (eval_step G H modules R ctx r s))"
  by (simp add: step_defs hm_wf_record_approvals hm_wf_record_approvals_all split: option.split
      RuleBody.split ClauseOutcome.split RuleDecision.split sum.split WasmDecision.split)

lemma eval_fold_wf:
  "hm_wf (ps_approvers s) \<Longrightarrow> hm_wf (ps_approvers (fold (eval_step G H modules R ctx) rules s))"
  by (induction rules arbitrary: s) (simp_all add: eval_step_wf)

lemma eval_fold:
  "ps_best_deny (fold (eval_step G H modules R ctx) rules s) =
     fold (\<lambda>c b. best.keep_best b c)
       (map (deny_candidate H modules ctx) (filter (denies G H modules R ctx) rules)) (ps_best_deny s)"
  "map_of (ps_approvers (fold (eval_step G H modules R ctx) rules s)) x =
     fold (\<lambda>c b. best.keep_best b c)
       (map (\<lambda>r. candidate r None (rule_specificity r)) (filter (blesses G H modules R ctx x) rules))
       (map_of (ps_approvers s) x)"
  by (induction rules arbitrary: s) (simp_all add: eval_step_deny eval_step_approvers)

lemma eval_fold_mandate:
  "ps_mandate (fold (eval_step G H modules R ctx) rules s) \<noteq> None \<longleftrightarrow>
     ps_mandate s \<noteq> None \<or> (\<exists>r \<in> set rules. asks_for_human G H modules R ctx r)"
proof (induction rules arbitrary: s)
  case Nil
  then show ?case by simp
next
  case (Cons r rules)
  from Cons [of "eval_step G H modules R ctx r s"] show ?case
    unfolding eval_step_mandate by (simp only: fold_Cons comp_apply list.set) blast
qed

section \<open>The outcome of the pass\<close>

definition after_pass ::
  "glob_crate \<Rightarrow> 'm wasm_host \<Rightarrow> Rule list \<Rightarrow> 'm RuleModules \<Rightarrow> RuleRefusals \<Rightarrow> EvalCtx \<Rightarrow> pass_state" where
  "after_pass G H rules modules R ctx = fold (eval_step G H modules R ctx) rules pass_init"

lemma after_pass_deny:
  "case ps_best_deny (after_pass G H rules modules R ctx) of
     None \<Rightarrow> (\<forall>r \<in> set rules. \<not> denies G H modules R ctx r)
   | Some c \<Rightarrow> c \<in> deny_candidate H modules ctx ` {r \<in> set rules. denies G H modules R ctx r}
       \<and> best.unbeaten c (deny_candidate H modules ctx ` {r \<in> set rules. denies G H modules R ctx r})"
  using best.keep_best_fold [where slot = None and S = "{}" and
      xs = "map (deny_candidate H modules ctx) (filter (denies G H modules R ctx) rules)"]
  by (simp add: after_pass_def eval_fold pass_init_def filter_empty_conv split: option.splits)

lemma after_pass_approver:
  "case map_of (ps_approvers (after_pass G H rules modules R ctx)) x of
     None \<Rightarrow> (\<forall>r \<in> set rules. \<not> blesses G H modules R ctx x r)
   | Some c \<Rightarrow> (\<exists>r \<in> set rules. blesses G H modules R ctx x r \<and> c = candidate r None (rule_specificity r)
       \<and> (\<forall>r' \<in> set rules. blesses G H modules R ctx x r' \<longrightarrow> \<not> outranks r' r))"
  using best.keep_best_fold [where slot = None and S = "{}" and xs = "map (\<lambda>r. candidate r None (rule_specificity r))
      (filter (blesses G H modules R ctx x) rules)"]
  by (simp add: after_pass_def eval_fold pass_init_def outranks_def best.unbeaten_def split: option.splits)
    (auto simp: filter_empty_conv)

lemma after_pass_mandate:
  "ps_mandate (after_pass G H rules modules R ctx) \<noteq> None \<longleftrightarrow>
     (\<exists>r \<in> set rules. asks_for_human G H modules R ctx r)"
  unfolding after_pass_def eval_fold_mandate by (simp add: pass_init_def)

lemma after_pass_wf: "hm_wf (ps_approvers (after_pass G H rules modules R ctx))"
  by (simp add: after_pass_def eval_fold_wf pass_init_def)

lemma approvals_get:
  "bt_wf m \<Longrightarrow> bt_wf (fold (\<lambda>s. bt_insert s (f s)) xs m) \<and>
   map_of (fold (\<lambda>s. bt_insert s (f s)) xs m) k = (if k \<in> set xs then Some (f k) else map_of m k)"
  by (induction xs arbitrary: m) auto

lemma approve_hit_Some:
  assumes "approve_hit ctx ap = Some h"
  shows "rh_decide h = ApproveRule \<and> cx_secrets ctx \<noteq> []
    \<and> (\<forall>s \<in> set (cx_secrets ctx). \<exists>c. map_of ap s = Some c
        \<and> map_of (rh_approvals h) s = Some (ru_id (cd_rule c)))
    \<and> (\<exists>c \<in> set (hm_values ap). rh_rule_id h = ru_id (cd_rule c) \<and> best.unbeaten c (set (hm_values ap)))"
proof -
  let ?f = "\<lambda>s. ru_id (cd_rule (the (map_of ap s)))"
  obtain c cs where vals: "hm_values ap = c # cs"
    and cov: "cx_secrets ctx \<noteq> []" "\<forall>s \<in> set (cx_secrets ctx). map_of ap s \<noteq> None"
    using assms by (auto simp: approve_hit_def list_all_iff split: if_splits list.splits)
  let ?w = "foldl (\<lambda>acc cur. if beats cur acc then cur else acc) c cs"
  have h: "h = \<lparr>rh_rule_id = ru_id (cd_rule ?w), rh_rule_name = ru_name (cd_rule ?w),
      rh_decide = ApproveRule, rh_deny_message = None,
      rh_approvals = fold (\<lambda>s. bt_insert s (?f s)) (cx_secrets ctx) []\<rparr>"
    using assms cov vals by (simp add: approve_hit_def Let_def list_all_iff)
  have "map_of (rh_approvals h) s = Some (?f s)" if "s \<in> set (cx_secrets ctx)" for s
    using approvals_get [of "[]" ?f "cx_secrets ctx" s] that by (simp add: h)
  moreover have "?w \<in> set (hm_values ap) \<and> best.unbeaten ?w (set (hm_values ap))"
    using best.reduce_best [OF refl, of c cs] by (simp add: vals)
  ultimately show ?thesis using cov by (auto simp: h)
qed

lemma approve_hit_iff:
  "approve_hit ctx ap \<noteq> None \<longleftrightarrow>
     cx_secrets ctx \<noteq> [] \<and> (\<forall>s \<in> set (cx_secrets ctx). map_of ap s \<noteq> None)"
proof (cases "cx_secrets ctx \<noteq> [] \<and> (\<forall>s \<in> set (cx_secrets ctx). map_of ap s \<noteq> None)")
  case True
  then have "hm_values ap \<noteq> []" by (cases ap; cases "cx_secrets ctx") (auto simp: hm_values_def)
  then have "approve_hit ctx ap \<noteq> None"
    using True by (auto simp: approve_hit_def list_all_iff Let_def split: list.split)
  with True show ?thesis by blast
next
  case False
  then have "approve_hit ctx ap = None" by (auto simp: approve_hit_def list_all_iff)
  with False show ?thesis by blast
qed

lemma evaluate_hit:
  "ev_hit (evaluate_with_refusals G H rules modules R ctx) =
     (let s = after_pass G H rules modules R ctx in
      case ps_best_deny s of
        Some d \<Rightarrow> Some \<lparr>rh_rule_id = ru_id (cd_rule d), rh_rule_name = ru_name (cd_rule d),
            rh_decide = DenyRule, rh_deny_message = cd_deny_message d, rh_approvals = []\<rparr>
      | None \<Rightarrow> if ps_mandate s \<noteq> None then None else approve_hit ctx (ps_approvers s))"
  by (simp add: evaluate_with_refusals_def after_pass_def Let_def split: option.splits)

lemma hit_denies_iff:
  "(\<exists>h. ev_hit (evaluate_with_refusals G H rules modules R ctx) = Some h \<and> rh_decide h = DenyRule
      \<and> (\<exists>r \<in> set rules. denies G H modules R ctx r \<and> rh_rule_id h = ru_id r))
   = (\<exists>r \<in> set rules. denies G H modules R ctx r)"
proof -
  let ?s = "after_pass G H rules modules R ctx"
  show ?thesis
  proof (cases "ps_best_deny ?s")
    case None
    then show ?thesis using after_pass_deny [where G = G and H = H and rules = rules and modules = modules and R = R and ctx = ctx] by (auto simp: evaluate_hit Let_def)
  next
    case (Some d)
    then show ?thesis using after_pass_deny [where G = G and H = H and rules = rules and modules = modules and R = R and ctx = ctx]
      by (auto simp: evaluate_hit Let_def deny_candidate_def candidate_def)
  qed
qed

lemma hit_approves_iff:
  "(\<exists>h. ev_hit (evaluate_with_refusals G H rules modules R ctx) = Some h \<and> rh_decide h = ApproveRule)
   = (\<not> (\<exists>r \<in> set rules. denies G H modules R ctx r)
      \<and> \<not> (\<exists>r \<in> set rules. asks_for_human G H modules R ctx r)
      \<and> cx_secrets ctx \<noteq> []
      \<and> set (cx_secrets ctx) \<subseteq> {s. \<exists>r \<in> set rules. blesses G H modules R ctx s r})"
proof -
  let ?s = "after_pass G H rules modules R ctx"
  have deny: "ps_best_deny ?s = None \<longleftrightarrow> \<not> (\<exists>r \<in> set rules. denies G H modules R ctx r)"
    using after_pass_deny [where G = G and H = H and rules = rules and modules = modules and R = R and ctx = ctx] by (auto split: option.splits)
  have app: "map_of (ps_approvers ?s) x \<noteq> None \<longleftrightarrow> (\<exists>r \<in> set rules. blesses G H modules R ctx x r)" for x
    using after_pass_approver [where G = G and H = H and rules = rules and modules = modules and R = R and ctx = ctx and x = x] by (auto split: option.splits)
  have hit: "(\<exists>h. approve_hit ctx (ps_approvers ?s) = Some h \<and> rh_decide h = ApproveRule) \<longleftrightarrow>
      approve_hit ctx (ps_approvers ?s) \<noteq> None"
    using approve_hit_Some by blast
  show ?thesis
  proof (cases "ps_best_deny ?s")
    case (Some d)
    then show ?thesis using deny by (simp add: evaluate_hit Let_def)
  next
    case None
    then show ?thesis
      using deny after_pass_mandate [where G = G and H = H and rules = rules and modules = modules and R = R and ctx = ctx] hit
      unfolding approve_hit_iff app evaluate_hit Let_def by (auto split: if_splits)
  qed
qed

lemma hit_decision:
  "map_option rh_decide (ev_hit (evaluate_with_refusals G H rules modules R ctx)) =
     (if \<exists>r \<in> set rules. denies G H modules R ctx r then Some DenyRule
      else if \<exists>r \<in> set rules. asks_for_human G H modules R ctx r then None
      else if cx_secrets ctx \<noteq> [] \<and> set (cx_secrets ctx) \<subseteq> {s. \<exists>r \<in> set rules. blesses G H modules R ctx s r}
      then Some ApproveRule else None)"
proof (cases "map_option rh_decide (ev_hit (evaluate_with_refusals G H rules modules R ctx))")
  case None
  then show ?thesis
    using hit_denies_iff [where G = G and H = H and rules = rules and modules = modules and R = R and ctx = ctx]
      hit_approves_iff [where G = G and H = H and rules = rules and modules = modules and R = R and ctx = ctx]
    by auto
next
  case (Some d)
  then obtain h where h: "ev_hit (evaluate_with_refusals G H rules modules R ctx) = Some h" "rh_decide h = d" by auto
  show ?thesis
  proof (cases d)
    case ApproveRule
    then show ?thesis
      using h hit_approves_iff [where G = G and H = H and rules = rules and modules = modules and R = R and ctx = ctx]
      by simp
  next
    case DenyRule
    then have "ps_best_deny (after_pass G H rules modules R ctx) \<noteq> None"
      using h approve_hit_Some [of ctx "ps_approvers (after_pass G H rules modules R ctx)" h]
      by (auto simp: evaluate_hit Let_def split: option.splits if_splits)
    then have "\<exists>r \<in> set rules. denies G H modules R ctx r"
      using after_pass_deny [where G = G and H = H and rules = rules and modules = modules and R = R and ctx = ctx]
      by auto
    then show ?thesis using h DenyRule by simp
  qed
qed

section \<open>Properties\<close>

text \<open>
  C19. A deny is a veto: the evaluation refuses the ask exactly when some consulted rule denies
  it, whatever other rules approve, ask for or fail at; the rule named is one of them, and no
  denying rule outranks it.
\<close>

theorem deny_is_a_veto:
  "(\<exists>h. ev_hit (evaluate_with_refusals G H rules modules R ctx) = Some h \<and> rh_decide h = DenyRule
      \<and> (\<exists>r \<in> set rules. denies G H modules R ctx r \<and> rh_rule_id h = ru_id r))
   = (\<exists>r \<in> set rules. denies G H modules R ctx r)"
  by (rule hit_denies_iff)

text \<open>
  C3. An approval needs everything: the evaluation approves exactly when no rule denies, no
  rule asks for a human (a mandate, a broken deny pattern, a module that could not be loaded or
  failed, a scope that could not be validated), the ask names a secret, and every named secret
  is vouched for by some consulted rule.
\<close>

theorem approve_needs_every_secret:
  "(\<exists>h. ev_hit (evaluate_with_refusals G H rules modules R ctx) = Some h \<and> rh_decide h = ApproveRule)
   = (\<not> (\<exists>r \<in> set rules. denies G H modules R ctx r)
      \<and> \<not> (\<exists>r \<in> set rules. asks_for_human G H modules R ctx r)
      \<and> cx_secrets ctx \<noteq> []
      \<and> set (cx_secrets ctx) \<subseteq> {s. \<exists>r \<in> set rules. blesses G H modules R ctx s r})"
  by (rule hit_approves_iff)

text \<open>
  Credit where it is due: an approval attributes every requested secret to a rule that
  vouches for that very secret and that no other voucher outranks; a wasm rule is credited only
  inside its trained set. The rule named for the whole ask vouches for one of the secrets.
\<close>

theorem approvals_credit_vouching_rules:
  assumes "ev_hit (evaluate_with_refusals G H rules modules R ctx) = Some h" "rh_decide h = ApproveRule"
  shows "(\<forall>s \<in> set (cx_secrets ctx). \<exists>r \<in> set rules.
      map_of (rh_approvals h) s = Some (ru_id r) \<and> blesses G H modules R ctx s r
      \<and> (is_wasm r \<longrightarrow> ru_trained_secrets r = [] \<or> s \<in> set (ru_trained_secrets r))
      \<and> (\<forall>r' \<in> set rules. blesses G H modules R ctx s r' \<longrightarrow> \<not> outranks r' r))
    \<and> (\<exists>s r. r \<in> set rules \<and> blesses G H modules R ctx s r \<and> rh_rule_id h = ru_id r)"
proof -
  let ?s = "after_pass G H rules modules R ctx"
  have hit: "approve_hit ctx (ps_approvers ?s) = Some h"
    using assms by (auto simp: evaluate_hit Let_def split: option.splits if_splits)
  note A = approve_hit_Some [OF hit]
  have "\<exists>r \<in> set rules. map_of (rh_approvals h) s = Some (ru_id r) \<and> blesses G H modules R ctx s r
      \<and> (is_wasm r \<longrightarrow> ru_trained_secrets r = [] \<or> s \<in> set (ru_trained_secrets r))
      \<and> (\<forall>r' \<in> set rules. blesses G H modules R ctx s r' \<longrightarrow> \<not> outranks r' r)"
    if "s \<in> set (cx_secrets ctx)" for s
  proof -
    from A that obtain c where c: "map_of (ps_approvers ?s) s = Some c"
      "map_of (rh_approvals h) s = Some (ru_id (cd_rule c))" by blast
    with after_pass_approver [where G = G and H = H and rules = rules and modules = modules and R = R and ctx = ctx and x = s] obtain r where
      r: "r \<in> set rules" "blesses G H modules R ctx s r" "c = candidate r None (rule_specificity r)"
      "\<forall>r' \<in> set rules. blesses G H modules R ctx s r' \<longrightarrow> \<not> outranks r' r" by auto
    have "is_wasm r \<longrightarrow> ru_trained_secrets r = [] \<or> s \<in> set (ru_trained_secrets r)"
      using r(2) by (auto simp: blesses_def is_wasm_def split: RuleBody.splits)
    then show ?thesis using c r by (auto simp: candidate_def)
  qed
  moreover obtain c where "c \<in> set (hm_values (ps_approvers ?s))" "rh_rule_id h = ru_id (cd_rule c)"
    using A by blast
  then obtain s where "map_of (ps_approvers ?s) s = Some c"
    using hm_values_iff [OF after_pass_wf] by metis
  with after_pass_approver [where G = G and H = H and rules = rules and modules = modules and R = R and ctx = ctx and x = s]
  obtain r where r: "r \<in> set rules" "blesses G H modules R ctx s r" "c = candidate r None (rule_specificity r)"
    by auto
  with \<open>rh_rule_id h = ru_id (cd_rule c)\<close> have "rh_rule_id h = ru_id r" by (simp add: candidate_def)
  with r have "\<exists>s r. r \<in> set rules \<and> blesses G H modules R ctx s r \<and> rh_rule_id h = ru_id r" by blast
  ultimately show ?thesis by blast
qed

text \<open>
  The order of the rules in the file does not decide: two rule lists with the same rules
  refuse the same asks, approve the same asks, and leave the same asks to the prompt.
\<close>

theorem rule_order_irrelevant:
  assumes "set rules = set rules'"
  shows "map_option rh_decide (ev_hit (evaluate_with_refusals G H rules modules R ctx)) =
    map_option rh_decide (ev_hit (evaluate_with_refusals G H rules' modules R ctx))"
  unfolding hit_decision assms ..

text \<open>At one declarative rule that approves \<open>gh\<close> with its token.\<close>

definition sample_rule :: "string \<Rightarrow> StaticDecision \<Rightarrow> Rule" where
  "sample_rule rid d = \<lparr>ru_id = rid, ru_name = rid, ru_enabled = True, ru_wraps = None,
     ru_trained_secrets = [''TOK''], ru_created_at_unix = 0,
     ru_body = Declarative \<lparr>rm_wrap = ''gh'', rm_argv = None, rm_ancestor = None, rm_cwd = None\<rparr> d\<rparr>"

definition sample_glob :: glob_crate where
  "sample_glob = \<lparr>gl_new = (\<lambda>_. None), gl_matches = (\<lambda>_ _. False)\<rparr>"

definition sample_host :: "unit wasm_host" where
  "sample_host = \<lparr>wh_from_binary = (\<lambda>_. Inr ()), wh_declared_subjects = (\<lambda>_. Inr None),
     wh_evaluate = (\<lambda>_ _. Inr Pass)\<rparr>"

definition sample_ctx :: EvalCtx where
  "sample_ctx = \<lparr>cx_wrap = ''gh'', cx_joined_argv = ''gh pr'', cx_callers = [], cx_cwd = ''/'', cx_secrets = [''TOK'']\<rparr>"

lemmas sample_defs = sample_rule_def sample_glob_def sample_host_def sample_ctx_def
lemmas evaluate_defs = evaluate_with_refusals_def pass_init_def step_defs scope_refusal_of_def
  no_refusals_def wrap_in_scope_def clause_outcome_def declarative_approve_in_scope_def
  record_approval_def record_deny_def candidate_def approve_hit_def hm_values_def specificity_def

theorem approvals_credit_vouching_rules_witness:
  "\<exists>h. ev_hit (evaluate_with_refusals sample_glob sample_host [sample_rule ''r1'' StaticApprove] []
       no_refusals sample_ctx) = Some h
     \<and> map_of (rh_approvals h) ''TOK'' = Some ''r1''"
proof -
  have e: "ev_hit (evaluate_with_refusals sample_glob sample_host [sample_rule ''r1'' StaticApprove] []
       no_refusals sample_ctx) = Some \<lparr>rh_rule_id = ''r1'', rh_rule_name = ''r1'', rh_decide = ApproveRule,
         rh_deny_message = None, rh_approvals = [(''TOK'', ''r1'')]\<rparr>"
    by (simp add: sample_defs evaluate_defs)
  show ?thesis using e approvals_credit_vouching_rules [OF e] by (simp add: sample_defs)
qed

theorem rule_order_irrelevant_witness:
  "map_option rh_decide (ev_hit (evaluate_with_refusals sample_glob sample_host
      [sample_rule ''r1'' StaticApprove, sample_rule ''r2'' (StaticDeny None)] [] no_refusals sample_ctx))
   = Some DenyRule"
proof -
  have "map_option rh_decide (ev_hit (evaluate_with_refusals sample_glob sample_host
      [sample_rule ''r2'' (StaticDeny None), sample_rule ''r1'' StaticApprove] [] no_refusals sample_ctx))
   = Some DenyRule"
    by (simp add: sample_defs evaluate_defs)
  then show ?thesis
    using rule_order_irrelevant [of "[sample_rule ''r1'' StaticApprove, sample_rule ''r2'' (StaticDeny None)]"
      "[sample_rule ''r2'' (StaticDeny None), sample_rule ''r1'' StaticApprove]"
      sample_glob sample_host "[]" no_refusals sample_ctx] by (simp add: insert_commute)
qed

end
