(* ===== verification/Subjects.thy ===== *)
theory Subjects
  imports Rules
begin

text \<open>
  \<open>SubjectUniverse\<close> of \<open>src/packages/secreq/src/rules.rs\<close>: the names a rule may be trained on,
  checked against the wraps configuration before a rule is admitted.
\<close>

section \<open>The universe\<close>

record SubjectUniverse =
  su_valid :: "string list"
  su_named :: "string list"
  su_named_bindings :: "(string, string list) btmap"

definition add_binding :: "string \<Rightarrow> string \<Rightarrow> SubjectUniverse \<Rightarrow> SubjectUniverse" where
  "add_binding name env_key un = un\<lparr>su_named_bindings :=
     bt_insert name (bs_insert env_key (case map_of (su_named_bindings un) name of Some b \<Rightarrow> b | None \<Rightarrow> []))
       (su_named_bindings un)\<rparr>"

definition add_env :: "WrapsConfig \<Rightarrow> string \<times> string \<Rightarrow> SubjectUniverse \<Rightarrow> SubjectUniverse" where
  "add_env cfg = (\<lambda>(env_key, raw) un.
     (let un = un\<lparr>su_valid := bs_insert env_key (su_valid un)\<rparr>
      in case resolve_ref cfg raw of
           Inr r \<Rightarrow> (case rr_declared_as r of Some name \<Rightarrow> add_binding name env_key un | None \<Rightarrow> un)
         | Inl _ \<Rightarrow> un))"

definition add_wrap :: "WrapsConfig \<Rightarrow> string \<times> WrapEntry \<Rightarrow> SubjectUniverse \<Rightarrow> SubjectUniverse" where
  "add_wrap cfg = (\<lambda>(wrap_name, w) un.
     (let un = (if wr_env w = [] then un\<lparr>su_valid := bs_insert (''wrap:'' @ wrap_name) (su_valid un)\<rparr> else un)
      in fold (add_env cfg) (wr_env w) un))"

definition from_config :: "WrapsConfig \<Rightarrow> SubjectUniverse" where
  "from_config cfg =
     (let un = fold (add_wrap cfg) (cfg_wraps cfg)
        \<lparr>su_valid = [], su_named = bs_collect (map fst (cfg_secrets cfg)), su_named_bindings = []\<rparr>
      in un\<lparr>su_valid := fold bs_insert (map (\<lambda>(i, _). ''ssh:'' @ i) (cfg_ssh cfg)) (su_valid un)\<rparr>)"

definition levenshtein_ascii :: "string \<Rightarrow> string \<Rightarrow> nat" where
  "levenshtein_ascii a b = edit_distance a b"

definition closest_subject :: "string \<Rightarrow> string list \<Rightarrow> string option" where
  "closest_subject subject candidates =
     map_option fst (min_by_key snd
       (filter (\<lambda>(c, d). d \<le> max 2 (length c div 3))
         (map (\<lambda>c. (c, levenshtein_ascii (to_lower subject) (to_lower c))) candidates)))"

datatype subject_error =
    NamedUnbound string
  | NamedBound string "string list"
  | MatchesNothing string "string option"

definition subject_error :: "SubjectUniverse \<Rightarrow> string \<Rightarrow> subject_error option" where
  "subject_error un subject =
     (if subject \<in> set (su_valid un) then None
      else if subject \<in> set (su_named un) then
        (let bindings = (case map_of (su_named_bindings un) subject of Some b \<Rightarrow> b | None \<Rightarrow> [])
         in Some (if bindings = [] then NamedUnbound subject else NamedBound subject bindings))
      else Some (MatchesNothing subject (closest_subject subject (su_valid un))))"

definition subject_validation_errors :: "WrapsConfig \<Rightarrow> string list \<Rightarrow> subject_error list" where
  "subject_validation_errors cfg subjects = List.map_filter (subject_error (from_config cfg)) subjects"

section \<open>What the universe holds\<close>

definition wrap_subjects :: "string \<times> WrapEntry \<Rightarrow> string set" where
  "wrap_subjects w = (if wr_env (snd w) = [] then {''wrap:'' @ fst w} else fst ` set (wr_env (snd w)))"

lemma add_env_valid: "set (su_valid (add_env cfg e un)) = insert (fst e) (set (su_valid un))"
  by (cases e) (auto simp: add_env_def add_binding_def Let_def split: sum.splits option.splits)

lemma add_env_named [simp]: "su_named (add_env cfg e un) = su_named un"
  by (cases e) (auto simp: add_env_def add_binding_def Let_def split: sum.splits option.splits)

lemma fold_add_env:
  "set (su_valid (fold (add_env cfg) es un)) = fst ` set es \<union> set (su_valid un)"
  "su_named (fold (add_env cfg) es un) = su_named un"
  by (induction es arbitrary: un) (auto simp: add_env_valid)

lemma add_wrap_valid:
  "set (su_valid (add_wrap cfg w un)) =
     set (su_valid un) \<union> wrap_subjects w"
  "su_named (add_wrap cfg w un) = su_named un"
  by (cases w; auto simp: add_wrap_def wrap_subjects_def Let_def fold_add_env)+

lemma fold_add_wrap:
  "set (su_valid (fold (add_wrap cfg) ws un)) = set (su_valid un)
     \<union> (\<Union>w \<in> set ws. wrap_subjects w)"
  "su_named (fold (add_wrap cfg) ws un) = su_named un"
  by (induction ws arbitrary: un) (auto simp: add_wrap_valid)

lemma from_config_valid:
  "set (su_valid (from_config cfg)) =
     (\<Union>w \<in> set (cfg_wraps cfg). wrap_subjects w)
     \<union> (\<lambda>i. ''ssh:'' @ fst i) ` set (cfg_ssh cfg)"
  "set (su_named (from_config cfg)) = fst ` set (cfg_secrets cfg)"
  by (force simp: from_config_def Let_def set_fold_bs_insert fold_add_wrap)+

lemma subject_error_None: "subject_error un s = None \<longleftrightarrow> s \<in> set (su_valid un)"
  by (simp add: subject_error_def Let_def)

lemma subject_validation_errors_Nil:
  "subject_validation_errors cfg ss = [] \<longleftrightarrow> set ss \<subseteq> set (su_valid (from_config cfg))"
  by (induction ss) (auto simp: subject_validation_errors_def List.map_filter_def subject_error_None
      dest: subject_error_None [THEN iffD1] split: option.splits)

section \<open>Properties\<close>

text \<open>
  C36. The accepted subjects, exactly: the environment keys of wraps with an \<open>env\<close> table, the
  names \<open>wrap:<w>\<close> of wraps without one, and the SSH identities.
\<close>

theorem accepted_subjects:
  "subject_validation_errors cfg ss = [] \<longleftrightarrow> set ss \<subseteq>
     (\<Union>w \<in> set (cfg_wraps cfg). wrap_subjects w)
     \<union> (\<lambda>i. ''ssh:'' @ fst i) ` set (cfg_ssh cfg)"
  unfolding subject_validation_errors_Nil from_config_valid ..

text \<open>
  C37. A name injected through \<open>env_secrets\<close> is refused as a subject: in a checked config, a
  wrap's asks carry the name, yet unless some \<open>env\<close> table also has it as a key it is not an
  accepted subject, although the wrap's own references resolve under it.
\<close>

theorem env_secret_subjects_refused:
  assumes "check_declarations cfg = Inr ok" "(n, w) \<in> set (cfg_wraps cfg)" "s \<in> set (wr_env_secrets w)"
    and "\<forall>x \<in> set (cfg_wraps cfg). s \<notin> fst ` set (wr_env (snd x))"
  shows "s \<in> set (env_names w) \<and> is_env_var_name s \<and> subject_validation_errors cfg [s] \<noteq> []"
proof -
  have "check_wraps cfg (map snd (cfg_wraps cfg)) = Inr ()" "w \<in> set (map snd (cfg_wraps cfg))"
    using assms(1,2) by (auto simp: check_declarations_def split: sum.splits) force
  from check_wraps_Inr [OF this] obtain x where "check_env_secrets cfg w [] (wr_env_secrets w) = Inr x" by blast
  with check_env_secrets_Inr assms(3) have env: "is_env_var_name s" by blast
  have colon: "CHR '':'' \<notin> set s"
  proof
    assume "CHR '':'' \<in> set s"
    with env have "CHR '':'' = CHR ''_'' \<or> is_ascii_alphabetic (CHR '':'') \<or> is_ascii_digit (CHR '':'')"
      unfolding is_env_var_name_def by blast
    then show False by (simp add: is_ascii_alphabetic_def is_ascii_digit_def)
  qed
  have "s \<notin> set (su_valid (from_config cfg))"
    using assms(4) colon unfolding from_config_valid by (auto simp: wrap_subjects_def split: if_splits)
  then have "subject_validation_errors cfg [s] \<noteq> []"
    unfolding subject_validation_errors_Nil by simp
  then show ?thesis using env assms(3) by (simp add: env_names_def)
qed

theorem env_secret_subjects_refused_witness:
  "''TOK'' \<in> set (env_names (snd (hd (cfg_wraps sample_config))))
   \<and> subject_validation_errors sample_config [''TOK''] \<noteq> []"
  using env_secret_subjects_refused [OF sample_config_checked, of "''gh''" "snd (hd (cfg_wraps sample_config))" "''TOK''"]
  by (simp add: sample_config_def)

end
