(* ===== verification/Secret_Cache.thy ===== *)
theory Secret_Cache
  imports Proto
begin

text \<open>
  \<open>src/packages/secreq/src/daemon/cache.rs\<close>: the daemon's in-memory store of resolved values.
  The cipher and the keyed hash are third-party code (record \<open>crypto\<close>), a nonce is an argument
  of the insertion that draws it, and an \<open>Instant\<close> is a number of nanoseconds. What the code
  relies on of the cipher is \<open>aead_ok\<close>: decryption undoes encryption under the same key and
  nonce.
\<close>

section \<open>The store\<close>

record CacheKey =
  ck_provider :: string
  ck_locator :: string

definition cache_key :: "string \<Rightarrow> string \<Rightarrow> CacheKey" where
  "cache_key prov loc = \<lparr>ck_provider = prov, ck_locator = loc\<rparr>"

text \<open>\<open>(n as u32).to_be_bytes()\<close>: the cast drops the high bits.\<close>

definition u32_be :: "nat \<Rightarrow> string" where
  "u32_be n = map char_of [n div 2 ^ 24 mod 256, n div 2 ^ 16 mod 256, n div 2 ^ 8 mod 256, n mod 256]"

definition to_kdf_bytes :: "CacheKey \<Rightarrow> string" where
  "to_kdf_bytes k = u32_be (length (ck_provider k)) @ ck_provider k
     @ u32_be (length (ck_locator k)) @ ck_locator k"

record crypto =
  cr_keyed_hash :: "string \<Rightarrow> string \<Rightarrow> string"
  cr_encrypt :: "string \<Rightarrow> string \<Rightarrow> string \<Rightarrow> string option"
  cr_decrypt :: "string \<Rightarrow> string \<Rightarrow> string \<Rightarrow> string option"

record Entry =
  en_ciphertext :: string
  en_nonce :: string
  en_stored_at :: nat
  en_ttl :: CacheTtl

definition expired_at :: "Entry \<Rightarrow> nat \<Rightarrow> bool" where
  "expired_at e now = expired_after (en_ttl e) (now - en_stored_at e)"

record SecretCache =
  sc_master_key :: string
  sc_entries :: "(CacheKey, Entry) hmap"

definition new_cache :: "string \<Rightarrow> SecretCache" where
  "new_cache master = \<lparr>sc_master_key = master, sc_entries = []\<rparr>"

definition derive_key :: "crypto \<Rightarrow> SecretCache \<Rightarrow> CacheKey \<Rightarrow> string" where
  "derive_key C c k = cr_keyed_hash C (sc_master_key c) (to_kdf_bytes k)"

definition put_at ::
  "crypto \<Rightarrow> CacheKey \<Rightarrow> string \<Rightarrow> CacheTtl \<Rightarrow> nat \<Rightarrow> string \<Rightarrow> SecretCache \<Rightarrow> SecretCache" where
  "put_at C k v ttl now nonce c = (case cr_encrypt C (derive_key C c k) nonce v of
      None \<Rightarrow> c
    | Some ct \<Rightarrow> c\<lparr>sc_entries := hm_insert k
        \<lparr>en_ciphertext = ct, en_nonce = nonce, en_stored_at = now, en_ttl = ttl\<rparr> (sc_entries c)\<rparr>)"

definition get_at :: "crypto \<Rightarrow> SecretCache \<Rightarrow> CacheKey \<Rightarrow> nat \<Rightarrow> string option" where
  "get_at C c k now = (case map_of (sc_entries c) k of
      None \<Rightarrow> None
    | Some e \<Rightarrow> if expired_at e now then None
        else (case cr_decrypt C (derive_key C c k) (en_nonce e) (en_ciphertext e) of
            None \<Rightarrow> None
          | Some plain \<Rightarrow> if utf8_ok plain then Some plain else None))"

definition prune_expired_at :: "nat \<Rightarrow> SecretCache \<Rightarrow> nat \<times> SecretCache" where
  "prune_expired_at now c =
     (let entries = hm_retain (\<lambda>_ e. \<not> expired_at e now) (sc_entries c)
      in (length (sc_entries c) - length entries, c\<lparr>sc_entries := entries\<rparr>))"

section \<open>The specification\<close>

text \<open>
  What a sequence of insertions and prunes promises a reader, with no trace of encryption or
  pruning: the last value put under the key, until its own lifetime has passed.
\<close>

datatype cache_op = Put CacheKey string CacheTtl nat string | Prune nat

fun op_time :: "cache_op \<Rightarrow> nat" where
  "op_time (Put k v ttl now nonce) = now"
| "op_time (Prune now) = now"

fun apply_op :: "crypto \<Rightarrow> cache_op \<Rightarrow> SecretCache \<Rightarrow> SecretCache" where
  "apply_op C (Put k v ttl now nonce) c = put_at C k v ttl now nonce c"
| "apply_op C (Prune now) c = snd (prune_expired_at now c)"

fun last_put :: "CacheKey \<Rightarrow> cache_op list \<Rightarrow> (string \<times> CacheTtl \<times> nat) option" where
  "last_put k [] = None"
| "last_put k (Put k' v ttl now nonce # ops) = (case last_put k ops of
      Some r \<Rightarrow> Some r | None \<Rightarrow> if k' = k then Some (v, ttl, now) else None)"
| "last_put k (Prune now # ops) = last_put k ops"

definition promised :: "cache_op list \<Rightarrow> CacheKey \<Rightarrow> nat \<Rightarrow> string option" where
  "promised ops k now = (case last_put k ops of
      None \<Rightarrow> None
    | Some (v, ttl, t) \<Rightarrow> if expired_after ttl (now - t) then None else Some v)"

definition aead_ok :: "crypto \<Rightarrow> bool" where
  "aead_ok C \<longleftrightarrow> (\<forall>k n p ct. cr_encrypt C k n p = Some ct \<longrightarrow> cr_decrypt C k n ct = Some p)"

definition storable :: "crypto \<Rightarrow> cache_op \<Rightarrow> bool" where
  "storable C o' = (case o' of
      Put k v ttl now nonce \<Rightarrow> utf8_ok v \<and> (\<forall>key. cr_encrypt C key nonce v \<noteq> None)
    | Prune _ \<Rightarrow> True)"

section \<open>The store meets it\<close>

text \<open>\<open>stores c k e r\<close>: the entry of \<open>k\<close> decrypts to the promised value, or was dropped expired.\<close>

definition slot_ok :: "crypto \<Rightarrow> SecretCache \<Rightarrow> CacheKey \<Rightarrow> nat \<Rightarrow> (string \<times> CacheTtl \<times> nat) option \<Rightarrow> bool" where
  "slot_ok C c k now r = (case (map_of (sc_entries c) k, r) of
      (None, None) \<Rightarrow> True
    | (None, Some (v, ttl, t)) \<Rightarrow> expired_after ttl (now - t)
    | (Some e, None) \<Rightarrow> False
    | (Some e, Some (v, ttl, t)) \<Rightarrow> en_ttl e = ttl \<and> en_stored_at e = t \<and> utf8_ok v
        \<and> cr_decrypt C (derive_key C c k) (en_nonce e) (en_ciphertext e) = Some v)"

lemma last_put_append:
  "last_put k (ops @ ops') = (case last_put k ops' of Some r \<Rightarrow> Some r | None \<Rightarrow> last_put k ops)"
  by (induction k ops rule: last_put.induct) (auto split: option.splits)

lemma derive_key_entries [simp]: "derive_key C (c\<lparr>sc_entries := es\<rparr>) k = derive_key C c k"
  by (simp add: derive_key_def)

lemma slot_ok_later: "slot_ok C c k now r \<Longrightarrow> now \<le> later \<Longrightarrow> slot_ok C c k later r"
  by (auto simp: slot_ok_def split: option.splits elim: expired_after_mono)

lemma put_at_slot:
  assumes "aead_ok C" "storable C (Put k' v ttl now nonce)" "slot_ok C c k now r"
  shows "slot_ok C (put_at C k' v ttl now nonce c) k now (if k' = k then Some (v, ttl, now) else r)"
proof -
  obtain ct where ct: "cr_encrypt C (derive_key C c k') nonce v = Some ct"
    using assms(2) by (auto simp: storable_def)
  then have "cr_decrypt C (derive_key C c k') nonce ct = Some v" using assms(1) by (simp add: aead_ok_def)
  moreover have "derive_key C (c\<lparr>sc_entries := es\<rparr>) k2 = derive_key C c k2" for es k2 by simp
  ultimately show ?thesis using assms(2,3) ct
    by (cases "k' = k") (auto simp: put_at_def slot_ok_def storable_def update_conv' split: option.splits)
qed

lemma prune_slot:
  "hm_wf (sc_entries c) \<Longrightarrow> slot_ok C c k now r \<Longrightarrow> slot_ok C (snd (prune_expired_at now c)) k now r"
  by (auto simp: prune_expired_at_def slot_ok_def Let_def hm_get_retain expired_at_def split: option.splits)

lemma apply_op_wf: "hm_wf (sc_entries c) \<Longrightarrow> hm_wf (sc_entries (apply_op C o' c))"
  by (cases o') (auto simp: put_at_def prune_expired_at_def Let_def split: option.splits)

lemma run_ops_slot:
  assumes "aead_ok C" "hm_wf (sc_entries (new_cache m))"
  shows "list_all (storable C) ops \<Longrightarrow> sorted (map op_time ops) \<Longrightarrow> list_all (\<lambda>o'. op_time o' \<le> now) ops \<Longrightarrow>
    hm_wf (sc_entries (fold (apply_op C) ops (new_cache m)))
    \<and> slot_ok C (fold (apply_op C) ops (new_cache m)) k now (last_put k ops)"
proof (induction ops arbitrary: now rule: rev_induct)
  case Nil
  then show ?case by (simp add: new_cache_def slot_ok_def)
next
  case (snoc o' ops)
  let ?c = "fold (apply_op C) ops (new_cache m)"
  have IH: "hm_wf (sc_entries ?c) \<and> slot_ok C ?c k (op_time o') (last_put k ops)"
    using snoc.prems by (intro snoc.IH) (auto simp: sorted_append list_all_iff)
  have "slot_ok C (apply_op C o' ?c) k (op_time o') (last_put k (ops @ [o']))"
  proof (cases o')
    case (Put k' v ttl t nonce)
    then have "storable C (Put k' v ttl t nonce)" using snoc.prems by simp
    from put_at_slot [OF assms(1) this, of ?c k "last_put k ops"] show ?thesis
      using IH Put by (auto simp: last_put_append split: if_splits)
  next
    case (Prune t)
    then show ?thesis using IH prune_slot [of ?c C k t "last_put k ops"] by (simp add: last_put_append)
  qed
  then show ?case using slot_ok_later apply_op_wf IH snoc.prems by auto
qed

lemma slot_ok_get: "slot_ok C c k now (last_put k ops) \<Longrightarrow> get_at C c k now = promised ops k now"
  by (auto simp: slot_ok_def get_at_def promised_def expired_at_def split: option.splits)

section \<open>The key encoding\<close>

lemma u32_be_length [simp]: "length (u32_be n) = 4"
  by (simp add: u32_be_def)

lemma char_of_inj_byte: "a < 256 \<Longrightarrow> b < 256 \<Longrightarrow> (char_of a :: char) = char_of b \<Longrightarrow> a = (b::nat)"
  by (metis mod_less of_char_of)

lemma byte_step: "a mod 256 = b mod 256 \<Longrightarrow> a div 256 = b div 256 \<Longrightarrow> a = (b :: nat)"
  by (metis div_mult_mod_eq)

lemma u32_be_inj:
  assumes "n < 2 ^ 32" "m < 2 ^ 32" "u32_be n = u32_be m"
  shows "n = m"
proof -
  have bytes: "n mod 256 = m mod 256" "n div 256 mod 256 = m div 256 mod 256"
    "n div 65536 mod 256 = m div 65536 mod 256" "n div 16777216 mod 256 = m div 16777216 mod 256"
    using assms(3) char_of_inj_byte by (auto simp: u32_be_def)
  have small: "n div 16777216 < 256" "m div 16777216 < 256"
    using assms(1,2) by (simp_all add: less_mult_imp_div_less)
  have chain: "x div 256 div 256 = x div 65536" "x div 65536 div 256 = x div 16777216" for x :: nat
    using div_mult2_eq [of x 256 256] div_mult2_eq [of x 65536 256] by simp_all
  from small bytes(4) have "n div 16777216 = m div 16777216" by simp
  then have "n div 65536 = m div 65536"
    by (intro byte_step [OF bytes(3)]) (simp only: chain)
  then have "n div 256 = m div 256"
    by (intro byte_step [OF bytes(2)]) (simp only: chain)
  then show ?thesis by (rule byte_step [OF bytes(1)])
qed

section \<open>Properties\<close>

text \<open>
  C33. The encrypted, pruned store is a plain map with lifetimes: after any sequence of
  insertions and prunes at non-decreasing times, a read returns the last value put under the
  key until its lifetime has passed and nothing afterwards.
\<close>

theorem cache_serves_last_live_value:
  assumes "aead_ok C" "list_all (storable C) ops" "sorted (map op_time ops)"
    and "list_all (\<lambda>o'. op_time o' \<le> now) ops"
  shows "get_at C (fold (apply_op C) ops (new_cache m)) k now = promised ops k now"
  using run_ops_slot [OF assms(1) _ assms(2-4)] slot_ok_get by (simp add: new_cache_def)

text \<open>
  Two cache keys share a derived encryption key's input only if they are the same key, for
  provider names and locators whose lengths fit the 32-bit prefix.
\<close>

theorem kdf_bytes_injective:
  assumes "to_kdf_bytes a = to_kdf_bytes b"
    and "length (ck_provider a) < 2 ^ 32" "length (ck_locator a) < 2 ^ 32"
    and "length (ck_provider b) < 2 ^ 32" "length (ck_locator b) < 2 ^ 32"
  shows "a = b"
proof -
  have p: "u32_be (length (ck_provider a)) = u32_be (length (ck_provider b))"
    and rest: "ck_provider a @ u32_be (length (ck_locator a)) @ ck_locator a
      = ck_provider b @ u32_be (length (ck_locator b)) @ ck_locator b"
    using assms(1) by (simp_all add: to_kdf_bytes_def)
  have "length (ck_provider a) = length (ck_provider b)" using p assms(2,4) u32_be_inj by blast
  with rest have "ck_provider a = ck_provider b"
    "u32_be (length (ck_locator a)) @ ck_locator a = u32_be (length (ck_locator b)) @ ck_locator b"
    by simp_all
  then show ?thesis by (cases a; cases b) simp
qed

text \<open>At a stored value with a lifetime of one second, and at two different keys.\<close>

definition plain_crypto :: crypto where
  "plain_crypto = \<lparr>cr_keyed_hash = (\<lambda>m k. m @ k), cr_encrypt = (\<lambda>k n p. Some (n @ p)),
     cr_decrypt = (\<lambda>k n ct. strip_prefix n ct)\<rparr>"

theorem cache_serves_last_live_value_witness:
  "let ops = [Put (cache_key ''op'' ''a'') ''v1'' (Secs 1) 5 ''n1'', Prune 7]
   in get_at plain_crypto (fold (apply_op plain_crypto) ops (new_cache ''m'')) (cache_key ''op'' ''a'') 8 = Some ''v1''"
proof -
  let ?ops = "[Put (cache_key ''op'' ''a'') ''v1'' (Secs 1) 5 ''n1'', Prune 7]"
  have "aead_ok plain_crypto" by (simp add: aead_ok_def plain_crypto_def)
  moreover have "list_all (storable plain_crypto) ?ops" by (simp add: storable_def plain_crypto_def)
  ultimately show ?thesis
    using cache_serves_last_live_value [of plain_crypto ?ops 8 "''m''" "cache_key ''op'' ''a''"]
    by (simp add: promised_def NANOS_def Let_def)
qed

theorem kdf_bytes_injective_witness:
  "to_kdf_bytes (cache_key ''a'' ''bc'') \<noteq> to_kdf_bytes (cache_key ''ab'' ''c'')"
  using kdf_bytes_injective [of "cache_key ''a'' ''bc''" "cache_key ''ab'' ''c''"]
  by (auto simp: cache_key_def)

end
