(* ===== verification/In_Flight.thy ===== *)
theory In_Flight
  imports Secret_Cache "HOL-Library.Multiset"
begin

text \<open>
  \<open>src/packages/secreq/src/daemon/in_flight.rs\<close>, the coordinator that lets one thread resolve a
  key while others wait, and the use \<open>daemon/state.rs\<close> makes of it (the acquire loops of
  \<open>resolve_for_ask\<close> and \<open>resolve_union\<close>). A slot shared through an \<open>Arc\<close> is an index into a list
  of slot states; the map's mutex makes each operation below atomic, and a guard's drop is the
  two operations its source performs under two locks. Threads interleave arbitrarily.
\<close>

section \<open>The coordinator\<close>

datatype SlotState = Pending | Ready | Failed string

record InFlightMap =
  if_inner :: "(CacheKey, nat) hmap"
  if_slots :: "SlotState list"

record InFlightGuard =
  gd_slot :: nat
  gd_key :: CacheKey
  gd_final_state :: "SlotState option"

datatype Acquired = Resolver InFlightGuard | AcquiredReady | AcquiredFailed string

definition new_in_flight :: InFlightMap where
  "new_in_flight = \<lparr>if_inner = [], if_slots = []\<rparr>"

text \<open>
  \<open>acquire\<close> under the map's lock: the caller becomes the resolver of a key nobody holds, or
  learns the slot to wait on.
\<close>

definition acquire_enter :: "CacheKey \<Rightarrow> InFlightMap \<Rightarrow> (nat + InFlightGuard) \<times> InFlightMap" where
  "acquire_enter key m = (case hm_get (if_inner m) key of
      Some slot \<Rightarrow> (Inl slot, m)
    | None \<Rightarrow> (let slot = length (if_slots m) in
        (Inr \<lparr>gd_slot = slot, gd_key = key, gd_final_state = None\<rparr>,
         \<lparr>if_inner = hm_insert key slot (if_inner m), if_slots = if_slots m @ [Pending]\<rparr>)))"

text \<open>The wait on the slot's condition variable: no outcome while the slot is pending.\<close>

definition slot_wait :: "nat \<Rightarrow> InFlightMap \<Rightarrow> Acquired option" where
  "slot_wait slot m = (case if_slots m ! slot of
      Pending \<Rightarrow> None | Ready \<Rightarrow> Some AcquiredReady | Failed msg \<Rightarrow> Some (AcquiredFailed msg))"

text \<open>The whole of \<open>acquire\<close> for a caller nobody interrupts; \<open>None\<close> is a caller left parked.\<close>

definition acquire :: "CacheKey \<Rightarrow> InFlightMap \<Rightarrow> Acquired option \<times> InFlightMap" where
  "acquire key m = (case acquire_enter key m of
      (Inl slot, m') \<Rightarrow> (slot_wait slot m', m')
    | (Inr g, m') \<Rightarrow> (Some (Resolver g), m'))"

definition mark_ready :: "InFlightGuard \<Rightarrow> InFlightGuard" where
  "mark_ready g = g\<lparr>gd_final_state := Some Ready\<rparr>"

definition mark_failed :: "InFlightGuard \<Rightarrow> string \<Rightarrow> InFlightGuard" where
  "mark_failed g msg = g\<lparr>gd_final_state := Some (Failed msg)\<rparr>"

text \<open>The two halves of the guard's drop.\<close>

definition drop_unmap :: "InFlightGuard \<Rightarrow> InFlightMap \<Rightarrow> InFlightMap" where
  "drop_unmap g m = m\<lparr>if_inner := hm_remove (gd_key g) (if_inner m)\<rparr>"

definition drop_publish :: "InFlightGuard \<Rightarrow> InFlightMap \<Rightarrow> InFlightMap" where
  "drop_publish g m = m\<lparr>if_slots := (if_slots m)[gd_slot g :=
     (case gd_final_state g of Some st \<Rightarrow> st | None \<Rightarrow> Failed ''resolver did not signal completion'')]\<rparr>"

definition drop_guard :: "InFlightGuard \<Rightarrow> InFlightMap \<Rightarrow> InFlightMap" where
  "drop_guard g m = drop_publish g (drop_unmap g m)"

section \<open>The threads that use it\<close>

text \<open>
  Where a thread stands in \<open>resolve_for_ask\<close> (\<open>th_union\<close> false) or \<open>resolve_union\<close> (true): the
  cache lookup of the next key, the acquire after a miss, the wait, the provider call, and the
  drop of the guards one by one. The cache is the list of keys a lookup would hit.
\<close>

datatype phase =
    Visiting "CacheKey list"
  | Missed CacheKey "CacheKey list"
  | Parked nat CacheKey "CacheKey list"
  | Resolving
  | Releasing
  | Publishing InFlightGuard
  | Returned

record thread =
  th_union :: bool
  th_phase :: phase
  th_guards :: "InFlightGuard list"

definition start :: "bool \<Rightarrow> CacheKey list \<Rightarrow> thread" where
  "start u ks = \<lparr>th_union = u, th_phase = Visiting ks, th_guards = []\<rparr>"

definition fail_guards :: "InFlightGuard list \<Rightarrow> string \<Rightarrow> InFlightGuard list" where
  "fail_guards gs msg = map (\<lambda>g. mark_failed g msg) gs"

text \<open>A wake-up without a value ends \<open>resolve_for_ask\<close> and is one pair's error in \<open>resolve_union\<close>.\<close>

definition give_up :: "thread \<Rightarrow> string \<Rightarrow> CacheKey list \<Rightarrow> thread" where
  "give_up t msg ks = (if th_union t then t\<lparr>th_phase := Visiting ks\<rparr>
     else t\<lparr>th_phase := Releasing, th_guards := fail_guards (th_guards t) msg\<rparr>)"

definition ready_but_empty :: "CacheKey \<Rightarrow> string" where
  "ready_but_empty k = ''in-flight slot for '' @ ck_provider k @ ''/'' @ ck_locator k
     @ '' signalled ready but cache was empty''"

inductive thread_step ::
  "InFlightMap \<Rightarrow> CacheKey list \<Rightarrow> thread \<Rightarrow> InFlightMap \<Rightarrow> CacheKey list \<Rightarrow> thread \<Rightarrow> bool" where
  hit: "th_phase t = Visiting (k # ks) \<Longrightarrow> k \<in> set cached \<Longrightarrow>
    thread_step m cached t m cached (t\<lparr>th_phase := Visiting ks\<rparr>)"
| miss: "th_phase t = Visiting (k # ks) \<Longrightarrow> k \<notin> set cached \<Longrightarrow>
    thread_step m cached t m cached (t\<lparr>th_phase := Missed k ks\<rparr>)"
| win: "th_phase t = Missed k ks \<Longrightarrow> acquire_enter k m = (Inr g, m') \<Longrightarrow>
    thread_step m cached t m' cached (t\<lparr>th_phase := Visiting ks, th_guards := th_guards t @ [g]\<rparr>)"
| park: "th_phase t = Missed k ks \<Longrightarrow> acquire_enter k m = (Inl slot, m') \<Longrightarrow>
    thread_step m cached t m' cached (t\<lparr>th_phase := Parked slot k ks\<rparr>)"
| wake_hit: "th_phase t = Parked slot k ks \<Longrightarrow> slot_wait slot m = Some AcquiredReady \<Longrightarrow>
    k \<in> set cached \<Longrightarrow> thread_step m cached t m cached (t\<lparr>th_phase := Visiting ks\<rparr>)"
| wake_empty: "th_phase t = Parked slot k ks \<Longrightarrow> slot_wait slot m = Some AcquiredReady \<Longrightarrow>
    k \<notin> set cached \<Longrightarrow> thread_step m cached t m cached (give_up t (ready_but_empty k) ks)"
| wake_failed: "th_phase t = Parked slot k ks \<Longrightarrow> slot_wait slot m = Some (AcquiredFailed msg) \<Longrightarrow>
    thread_step m cached t m cached (give_up t msg ks)"
| nothing_owned: "th_phase t = Visiting [] \<Longrightarrow> th_guards t = [] \<Longrightarrow>
    thread_step m cached t m cached (t\<lparr>th_phase := Returned\<rparr>)"
| run_provider: "th_phase t = Visiting [] \<Longrightarrow> th_guards t \<noteq> [] \<Longrightarrow>
    thread_step m cached t m cached (t\<lparr>th_phase := Resolving\<rparr>)"
| provider_ok: "th_phase t = Resolving \<Longrightarrow> set stored \<subseteq> gd_key ` set (th_guards t) \<Longrightarrow>
    thread_step m cached t m (stored @ cached)
      (t\<lparr>th_phase := Releasing, th_guards := map mark_ready (th_guards t)\<rparr>)"
| provider_err: "th_phase t = Resolving \<Longrightarrow>
    thread_step m cached t m cached
      (t\<lparr>th_phase := Releasing, th_guards := fail_guards (th_guards t) msg\<rparr>)"
| panic: "th_phase t = Resolving \<Longrightarrow> thread_step m cached t m cached (t\<lparr>th_phase := Releasing\<rparr>)"
| unmap: "th_phase t = Releasing \<Longrightarrow> th_guards t = g # gs \<Longrightarrow>
    thread_step m cached t (drop_unmap g m) cached (t\<lparr>th_phase := Publishing g, th_guards := gs\<rparr>)"
| publish: "th_phase t = Publishing g \<Longrightarrow>
    thread_step m cached t (drop_publish g m) cached (t\<lparr>th_phase := Releasing\<rparr>)"
| returns: "th_phase t = Releasing \<Longrightarrow> th_guards t = [] \<Longrightarrow>
    thread_step m cached t m cached (t\<lparr>th_phase := Returned\<rparr>)"

record world =
  w_map :: InFlightMap
  w_cached :: "CacheKey list"
  w_threads :: "thread list"

text \<open>One step of the process: a thread moves, or cached values expire.\<close>

inductive world_step :: "world \<Rightarrow> world \<Rightarrow> bool" where
  moves: "i < length (w_threads w) \<Longrightarrow>
    thread_step (w_map w) (w_cached w) (w_threads w ! i) m' cached' t' \<Longrightarrow>
    world_step w \<lparr>w_map = m', w_cached = cached', w_threads = (w_threads w)[i := t']\<rparr>"
| expires: "world_step w (w\<lparr>w_cached := filter p (w_cached w)\<rparr>)"

definition initial :: "CacheKey list \<Rightarrow> (bool \<times> CacheKey list) list \<Rightarrow> world" where
  "initial cached asks = \<lparr>w_map = new_in_flight, w_cached = cached,
     w_threads = map (\<lambda>(u, ks). start u ks) asks\<rparr>"

inductive reachable :: "world \<Rightarrow> world \<Rightarrow> bool" for w0 where
  here: "reachable w0 w0"
| there: "reachable w0 w \<Longrightarrow> world_step w w' \<Longrightarrow> reachable w0 w'"

section \<open>The invariant\<close>

text \<open>
  What the threads hold: \<open>held\<close> the mapped slots they are resolving, \<open>publishing\<close> the slots already
  out of the map whose outcome is not published yet.
\<close>

definition guard_entry :: "InFlightGuard \<Rightarrow> CacheKey \<times> nat" where
  "guard_entry g = (gd_key g, gd_slot g)"

definition held :: "world \<Rightarrow> (CacheKey \<times> nat) list" where
  "held w = concat (map (\<lambda>t. map guard_entry (th_guards t)) (w_threads w))"

definition publishing :: "thread \<Rightarrow> nat list" where
  "publishing t = (case th_phase t of Publishing g \<Rightarrow> [gd_slot g] | _ \<Rightarrow> [])"

definition owned :: "thread \<Rightarrow> nat list" where
  "owned t = map gd_slot (th_guards t) @ publishing t"

definition owners :: "world \<Rightarrow> nat list" where
  "owners w = concat (map owned (w_threads w))"

definition pending_slots :: "InFlightMap \<Rightarrow> nat set" where
  "pending_slots m = {s. s < length (if_slots m) \<and> if_slots m ! s = Pending}"

definition finals_ok :: "thread \<Rightarrow> bool" where
  "finals_ok t \<longleftrightarrow> (\<forall>g \<in> set (th_guards t). gd_final_state g \<noteq> Some Pending)
     \<and> (\<forall>g. th_phase t = Publishing g \<longrightarrow> gd_final_state g \<noteq> Some Pending)"

text \<open>
  Every mapped key has exactly one holder and every pending slot exactly one owner, no key or
  slot twice.
\<close>

definition coordinated :: "world \<Rightarrow> bool" where
  "coordinated w \<longleftrightarrow> hm_wf (if_inner (w_map w)) \<and> list_all finals_ok (w_threads w)
     \<and> mset (held w) = mset (if_inner (w_map w))
     \<and> mset (owners w) = mset_set (pending_slots (w_map w))"

lemma finite_pending [simp]: "finite (pending_slots m)"
  by (simp add: pending_slots_def)

lemma mset_concat_update:
  "i < length xs \<Longrightarrow> mset (concat (map f (xs[i := y]))) + mset (f (xs ! i)) = mset (concat (map f xs)) + mset (f y)"
proof (induction xs arbitrary: i)
  case (Cons x xs)
  then show ?case by (cases i) (auto simp: algebra_simps)
qed simp

lemma pending_append: "pending_slots (m\<lparr>if_slots := if_slots m @ [Pending]\<rparr>)
    = insert (length (if_slots m)) (pending_slots m)"
  by (auto simp: pending_slots_def nth_append)

text \<open>What a step of one thread does to its holdings and to the map: one of four.\<close>

datatype slot_effect = Keeps | Wins InFlightGuard | Unmaps InFlightGuard | Publishes InFlightGuard

fun effect_on :: "slot_effect \<Rightarrow> InFlightMap \<Rightarrow> InFlightMap" where
  "effect_on Keeps m = m"
| "effect_on (Wins g) m = \<lparr>if_inner = hm_insert (gd_key g) (gd_slot g) (if_inner m), if_slots = if_slots m @ [Pending]\<rparr>"
| "effect_on (Unmaps g) m = drop_unmap g m"
| "effect_on (Publishes g) m = drop_publish g m"

fun accounts :: "slot_effect \<Rightarrow> InFlightMap \<Rightarrow> thread \<Rightarrow> thread \<Rightarrow> bool" where
  "accounts Keeps m t t' = (map guard_entry (th_guards t') = map guard_entry (th_guards t) \<and> owned t' = owned t)"
| "accounts (Wins g) m t t' = (hm_get (if_inner m) (gd_key g) = None \<and> gd_slot g = length (if_slots m)
     \<and> map guard_entry (th_guards t') = map guard_entry (th_guards t) @ [guard_entry g]
     \<and> owned t' = owned t @ [gd_slot g])"
| "accounts (Unmaps g) m t t' = (map guard_entry (th_guards t) = guard_entry g # map guard_entry (th_guards t')
     \<and> mset (owned t') = mset (owned t))"
| "accounts (Publishes g) m t t' = (map guard_entry (th_guards t') = map guard_entry (th_guards t)
     \<and> mset (owned t) = add_mset (gd_slot g) (mset (owned t')) \<and> gd_final_state g \<noteq> Some Pending)"

lemma marks_keep [simp]:
  "guard_entry (mark_ready g) = guard_entry g" "guard_entry (mark_failed g msg) = guard_entry g"
  "gd_slot (mark_ready g) = gd_slot g" "gd_slot (mark_failed g msg) = gd_slot g"
  "gd_key (mark_ready g) = gd_key g" "gd_key (mark_failed g msg) = gd_key g"
  by (simp_all add: mark_ready_def mark_failed_def guard_entry_def)

lemma fail_guards_keep [simp]:
  "map guard_entry (fail_guards gs msg) = map guard_entry gs" "map gd_slot (fail_guards gs msg) = map gd_slot gs"
  by (simp_all add: fail_guards_def)

lemma acquire_enter_cases:
  "acquire_enter k m = (Inl slot, m') \<Longrightarrow> m' = m \<and> hm_get (if_inner m) k = Some slot"
  "acquire_enter k m = (Inr g, m') \<Longrightarrow> hm_get (if_inner m) k = None
     \<and> g = \<lparr>gd_slot = length (if_slots m), gd_key = k, gd_final_state = None\<rparr>
     \<and> m' = \<lparr>if_inner = hm_insert k (length (if_slots m)) (if_inner m), if_slots = if_slots m @ [Pending]\<rparr>"
  by (auto simp: acquire_enter_def Let_def split: option.splits)

lemma thread_step_effect:
  assumes "thread_step m cached t m' cached' t'" "finals_ok t"
  shows "\<exists>e. m' = effect_on e m \<and> accounts e m t t'"
  using assms
proof (cases rule: thread_step.cases)
  case (win k ks g)
  then have "m' = effect_on (Wins g) m \<and> accounts (Wins g) m t t'"
    using acquire_enter_cases(2) [of k m g m'] by (auto simp: owned_def publishing_def)
  then show ?thesis by blast
next
  case (park k ks slot)
  then have "m' = effect_on Keeps m \<and> accounts Keeps m t t'"
    using acquire_enter_cases(1) [of k m slot m'] by (auto simp: owned_def publishing_def)
  then show ?thesis by blast
next
  case (unmap g gs)
  then have "m' = effect_on (Unmaps g) m \<and> accounts (Unmaps g) m t t'"
    by (auto simp: owned_def publishing_def)
  then show ?thesis by blast
next
  case (publish g)
  then have "m' = effect_on (Publishes g) m \<and> accounts (Publishes g) m t t'"
    using assms(2) by (auto simp: owned_def publishing_def finals_ok_def)
  then show ?thesis by blast
qed (intro exI [of _ Keeps]; auto simp: owned_def publishing_def give_up_def o_def)+

lemma thread_step_finals: "thread_step m cached t m' cached' t' \<Longrightarrow> finals_ok t \<Longrightarrow> finals_ok t'"
  by (induction rule: thread_step.induct)
    (auto simp: finals_ok_def give_up_def fail_guards_def mark_ready_def mark_failed_def dest: acquire_enter_cases)

lemma mset_remove_key:
  "hm_wf m \<Longrightarrow> (k, v) \<in> set m \<Longrightarrow> add_mset (k, v) (mset (hm_remove k m)) = mset m"
proof (induction m)
  case (Cons kv m)
  obtain k' v' where kv: "kv = (k', v')" by force
  show ?case
  proof (cases "k' = k")
    case True
    then have "k \<notin> fst ` set m" using Cons.prems(1) kv by (auto simp: hm_wf_def)
    then have "v' = v" "hm_remove k m = m" using Cons.prems(2) kv True
      by (auto simp: delete_id rev_image_eqI)
    then show ?thesis using kv True by simp
  next
    case False
    then show ?thesis using Cons kv by (auto simp: add_mset_commute hm_wf_def)
  qed
qed simp

lemma update_absent: "hm_get m k = None \<Longrightarrow> hm_insert k v m = m @ [(k, v)]"
  by (induction m) (auto split: if_splits)

lemma held_update:
  "i < length (w_threads w) \<Longrightarrow>
   mset (held \<lparr>w_map = m, w_cached = c, w_threads = (w_threads w)[i := t']\<rparr>)
     + mset (map guard_entry (th_guards (w_threads w ! i))) = mset (held w) + mset (map guard_entry (th_guards t'))"
  using mset_concat_update [of i "w_threads w" "\<lambda>t. map guard_entry (th_guards t)" t'] by (simp add: held_def)

lemma owners_update:
  "i < length (w_threads w) \<Longrightarrow>
   mset (owners \<lparr>w_map = m, w_cached = c, w_threads = (w_threads w)[i := t']\<rparr>)
     + mset (owned (w_threads w ! i)) = mset (owners w) + mset (owned t')"
  using mset_concat_update [of i "w_threads w" owned t'] by (simp add: owners_def)

lemma owner_pending:
  assumes "coordinated w" "i < length (w_threads w)" "s \<in> set (owned (w_threads w ! i))"
  shows "s \<in> pending_slots (w_map w)"
proof -
  have "s \<in> set (owners w)" using assms(2,3) by (auto simp: owners_def)
  then have "s \<in># mset_set (pending_slots (w_map w))" using assms(1) by (metis coordinated_def set_mset_mset)
  then show ?thesis by simp
qed

lemma pending_publish:
  assumes "gd_final_state g \<noteq> Some Pending" "gd_slot g < length (if_slots m)"
  shows "pending_slots (drop_publish g m) = pending_slots m - {gd_slot g}"
  using assms by (auto simp: pending_slots_def drop_publish_def nth_list_update split: option.splits if_splits)

lemma effect_coordinated:
  assumes c: "coordinated w" and i: "i < length (w_threads w)"
    and acc: "accounts e (w_map w) (w_threads w ! i) t'" and fin: "finals_ok t'"
  shows "coordinated \<lparr>w_map = effect_on e (w_map w), w_cached = cached', w_threads = (w_threads w)[i := t']\<rparr>"
proof -
  let ?w = "\<lparr>w_map = effect_on e (w_map w), w_cached = cached', w_threads = (w_threads w)[i := t']\<rparr>"
  let ?m = "w_map w" and ?t = "w_threads w ! i"
  have H: "mset (held ?w) + mset (map guard_entry (th_guards ?t)) = mset (if_inner ?m) + mset (map guard_entry (th_guards t'))"
    and O: "mset (owners ?w) + mset (owned ?t) = mset_set (pending_slots ?m) + mset (owned t')"
    using held_update [OF i] owners_update [OF i] c by (simp_all add: coordinated_def del: mset_map)
  have wf: "hm_wf (if_inner ?m)" and all: "list_all finals_ok ((w_threads w)[i := t'])"
    using c fin by (auto simp: coordinated_def list_all_iff set_update_memI dest: set_update_subset_insert [THEN subsetD])
  have "hm_wf (if_inner (w_map ?w)) \<and> mset (held ?w) = mset (if_inner (w_map ?w))
    \<and> mset (owners ?w) = mset_set (pending_slots (w_map ?w))"
  proof (cases e)
    case Keeps
    then show ?thesis using H O acc wf by (simp del: mset_map)
  next
    case (Wins g)
    have "pending_slots (effect_on e ?m) = insert (gd_slot g) (pending_slots ?m)" "gd_slot g \<notin> pending_slots ?m"
      using acc Wins by (auto simp: pending_slots_def nth_append)
    then show ?thesis using H O acc Wins hm_wf_insert [OF wf, of "gd_key g" "gd_slot g"]
      by (auto simp: update_absent guard_entry_def simp del: mset_map)
  next
    case (Unmaps g)
    have "guard_entry g \<in> set (map guard_entry (th_guards ?t))" using acc Unmaps by simp
    then have "guard_entry g \<in> set (held w)" using i by (auto simp: held_def)
    then have "(gd_key g, gd_slot g) \<in># mset (if_inner ?m)"
      using c by (metis coordinated_def guard_entry_def set_mset_mset)
    then have "add_mset (guard_entry g) (mset (hm_remove (gd_key g) (if_inner ?m))) = mset (if_inner ?m)"
      using mset_remove_key [OF wf] by (simp add: guard_entry_def)
    moreover have "mset (held ?w) + {#guard_entry g#} = mset (if_inner ?m)" using H acc Unmaps by (simp del: mset_map)
    ultimately have "mset (held ?w) = mset (hm_remove (gd_key g) (if_inner ?m))"
      by (metis add_mset_add_single add_right_cancel)
    moreover have "pending_slots (drop_unmap g ?m) = pending_slots ?m" by (simp add: pending_slots_def drop_unmap_def)
    ultimately show ?thesis using O acc Unmaps wf by (simp add: drop_unmap_def)
  next
    case (Publishes g)
    have "gd_slot g \<in># mset (owned ?t)" using acc Publishes by simp
    then have p: "gd_slot g \<in> pending_slots ?m" using owner_pending [OF c i] by simp
    then have "pending_slots (drop_publish g ?m) = pending_slots ?m - {gd_slot g}"
      using acc Publishes by (intro pending_publish) (auto simp: pending_slots_def)
    moreover have "mset (owners ?w) + {#gd_slot g#} = mset_set (pending_slots ?m)" using O acc Publishes by simp
    ultimately have "mset (owners ?w) = mset_set (pending_slots (drop_publish g ?m))"
      using p by (metis add_diff_cancel_right' finite_pending mset_set_Diff mset_set.insert mset_set.empty empty_iff finite.emptyI empty_subsetI insert_subset add_mset_add_single add_0)
    then show ?thesis using H acc Publishes wf by (simp add: drop_publish_def del: mset_map)
  qed
  with all show ?thesis by (simp add: coordinated_def)
qed

lemma world_step_coordinated: "world_step w w' \<Longrightarrow> coordinated w \<Longrightarrow> coordinated w'"
proof (induction rule: world_step.induct)
  case (moves i w m' cached' t')
  then have "finals_ok (w_threads w ! i)" by (simp add: coordinated_def list_all_length)
  then obtain e where "m' = effect_on e (w_map w)" "accounts e (w_map w) (w_threads w ! i) t'"
    using thread_step_effect moves(2) by blast
  then show ?case
    using effect_coordinated [OF moves(3) moves(1)] thread_step_finals [OF moves(2) \<open>finals_ok _\<close>] by simp
next
  case (expires w p)
  then show ?case by (simp add: coordinated_def held_def owners_def)
qed

lemma initial_coordinated: "coordinated (initial cached asks)"
proof -
  have "held (initial cached asks) = []" "owners (initial cached asks) = []"
    by (auto simp: held_def owners_def initial_def start_def owned_def publishing_def)
  then show ?thesis
    by (auto simp: coordinated_def pending_slots_def initial_def new_in_flight_def finals_ok_def start_def list_all_iff)
qed

lemma reachable_coordinated: "reachable (initial cached asks) w \<Longrightarrow> coordinated w"
  by (induction rule: reachable.induct) (auto intro: initial_coordinated world_step_coordinated)

section \<open>Waiters\<close>

fun todo :: "thread \<Rightarrow> CacheKey list" where
  "todo t = (case th_phase t of
      Visiting ks \<Rightarrow> ks | Missed k ks \<Rightarrow> k # ks | Parked s k ks \<Rightarrow> k # ks | _ \<Rightarrow> [])"

definition waits_well :: "InFlightMap \<Rightarrow> thread \<Rightarrow> bool" where
  "waits_well m t = (case th_phase t of
      Parked s k ks \<Rightarrow> s < length (if_slots m) \<and> (\<forall>k'. (k', s) \<in> set (if_inner m) \<longrightarrow> k' = k)
    | Returned \<Rightarrow> th_guards t = []
    | _ \<Rightarrow> True)"

definition in_rank :: "(CacheKey \<Rightarrow> nat) \<Rightarrow> thread \<Rightarrow> bool" where
  "in_rank r t = sorted_wrt (\<lambda>a b. r a < r b) (map gd_key (th_guards t) @ todo t)"

definition can_move :: "world \<Rightarrow> bool" where
  "can_move w = (\<exists>i < length (w_threads w). \<exists>m' cached' t'.
     thread_step (w_map w) (w_cached w) (w_threads w ! i) m' cached' t')"

definition returned :: "thread \<Rightarrow> bool" where
  "returned t \<longleftrightarrow> th_phase t = Returned"

lemma distinct_submset: "distinct ys \<Longrightarrow> mset xs \<subseteq># mset ys \<Longrightarrow> distinct xs"
  by (metis distinct_append ex_mset mset_append mset_eq_imp_distinct_iff subset_mset.le_iff_add)

lemma slot_of_one_key:
  assumes "coordinated w" "(k, s) \<in> set (if_inner (w_map w))" "(k', s) \<in> set (if_inner (w_map w))"
  shows "k = k'"
proof -
  have set_eq: "set (held w) = set (if_inner (w_map w))" using assms(1) by (metis coordinated_def set_mset_mset)
  have "distinct (owners w)"
    using assms(1) by (metis coordinated_def count_mset_set(1) count_mset_set(2) count_mset_set(3) distinct_count_atmost_1 finite_pending set_mset_mset finite_set_mset_mset_set)
  moreover have "mset (map snd (held w)) \<subseteq># mset (owners w)"
  proof -
    have "mset (concat (map (\<lambda>t. map gd_slot (th_guards t)) ts)) \<subseteq># mset (concat (map owned ts))" for ts
    proof (induction ts)
      case (Cons t ts)
      then show ?case
        using subset_mset.add_mono [OF mset_subset_eq_add_left [of "mset (map gd_slot (th_guards t))" "mset (publishing t)"] Cons]
        by (simp add: owned_def)
    qed simp
    moreover have "map snd (held w) = concat (map (\<lambda>t. map gd_slot (th_guards t)) (w_threads w))"
      by (simp add: held_def map_concat o_def guard_entry_def)
    ultimately show ?thesis by (simp add: owners_def)
  qed
  ultimately have "distinct (map snd (held w))" by (rule distinct_submset)
  then show ?thesis using assms(2,3) set_eq by (metis distinct_map inj_onD prod.inject snd_conv)
qed

lemma thread_step_rank: "thread_step m cached t m' cached' t' \<Longrightarrow> in_rank r t \<Longrightarrow> in_rank r t'"
proof (induction rule: thread_step.induct)
  case (win t k ks m g m' cached)
  then show ?case using acquire_enter_cases(2) [of k m g m'] by (auto simp: in_rank_def)
qed (auto simp: in_rank_def give_up_def sorted_wrt_append fail_guards_def o_def mark_ready_def mark_failed_def)

text \<open>A thread that has not returned moves, unless it is parked on a pending slot.\<close>

lemma local_progress:
  assumes "\<not> returned t" "\<And>s k ks. th_phase t = Parked s k ks \<Longrightarrow> if_slots m ! s \<noteq> Pending"
  shows "\<exists>m' cached' t'. thread_step m cached t m' cached' t'"
proof (cases "th_phase t")
  case (Visiting ks)
  then show ?thesis by (metis hit miss nothing_owned run_provider list.exhaust)
next
  case (Missed k ks)
  show ?thesis
  proof (cases "acquire_enter k m")
    case (Pair a m')
    then show ?thesis using Missed by (metis win park sum.exhaust)
  qed
next
  case (Parked s k ks)
  then have "slot_wait s m = Some AcquiredReady \<or> (\<exists>msg. slot_wait s m = Some (AcquiredFailed msg))"
    using assms(2) [OF Parked] by (cases "if_slots m ! s") (auto simp: slot_wait_def)
  then show ?thesis using wake_hit [OF Parked] wake_empty [OF Parked] wake_failed [OF Parked] by metis
next
  case Resolving
  then show ?thesis using panic by blast
next
  case Releasing
  then show ?thesis by (metis unmap returns list.exhaust)
next
  case (Publishing g)
  then show ?thesis using publish by blast
next
  case Returned
  then show ?thesis using assms(1) by (simp add: returned_def)
qed

definition sound :: "(CacheKey \<Rightarrow> nat) \<Rightarrow> world \<Rightarrow> bool" where
  "sound r w \<longleftrightarrow> coordinated w \<and> list_all (waits_well (w_map w)) (w_threads w) \<and> list_all (in_rank r) (w_threads w)"

lemma effect_waits:
  assumes "accounts e m t t'" "waits_well m t2"
  shows "waits_well (effect_on e m) t2"
proof (cases e)
  case (Wins g)
  then show ?thesis using assms
    by (auto simp: waits_well_def update_absent split: phase.splits)
next
  case (Unmaps g)
  have "set (hm_remove k es) \<subseteq> set es" for k and es :: "(CacheKey, nat) hmap"
    by (induction es) auto
  then show ?thesis using assms Unmaps by (auto simp: waits_well_def drop_unmap_def split: phase.splits)
next
  case (Publishes g)
  then show ?thesis using assms by (auto simp: waits_well_def drop_publish_def split: phase.splits)
qed (use assms in simp)

lemma mapped_pending:
  assumes "coordinated w" "(k, s) \<in> set (if_inner (w_map w))"
  shows "s \<in> pending_slots (w_map w)"
proof -
  have "(k, s) \<in> set (held w)" using assms by (metis coordinated_def set_mset_mset)
  then obtain i where "i < length (w_threads w)" "s \<in> set (owned (w_threads w ! i))"
    by (force simp: held_def owned_def guard_entry_def in_set_conv_nth)
  then show ?thesis using owner_pending assms(1) by blast
qed

lemma thread_step_waits:
  assumes "thread_step (w_map w) cached t m' cached' t'" "coordinated w" "waits_well (w_map w) t"
  shows "waits_well m' t'"
  using assms(1)
proof (cases rule: thread_step.cases)
  case (park k ks slot)
  then have m: "m' = w_map w" "(k, slot) \<in> set (if_inner (w_map w))"
    using acquire_enter_cases(1) map_of_SomeD by fast+
  then have "slot < length (if_slots (w_map w))"
    using mapped_pending [OF assms(2)] by (auto simp: pending_slots_def)
  then show ?thesis using park m slot_of_one_key [OF assms(2)] by (auto simp: waits_well_def)
qed (auto simp: waits_well_def give_up_def)

lemma world_step_sound: "world_step w w' \<Longrightarrow> sound r w \<Longrightarrow> sound r w'"
proof (induction rule: world_step.induct)
  case (moves i w m' cached' t')
  let ?t = "w_threads w ! i"
  have c: "coordinated w" and ww: "\<And>t. t \<in> set (w_threads w) \<Longrightarrow> waits_well (w_map w) t"
    and rk: "\<And>t. t \<in> set (w_threads w) \<Longrightarrow> in_rank r t" and "?t \<in> set (w_threads w)" "finals_ok ?t"
    using moves(1,3) by (auto simp: sound_def coordinated_def list_all_iff)
  then obtain e where "m' = effect_on e (w_map w)" "accounts e (w_map w) ?t t'"
    using thread_step_effect moves(2) by blast
  then have "\<And>t. t \<in> set (w_threads w) \<Longrightarrow> waits_well m' t" using effect_waits ww by blast
  moreover have "waits_well m' t'" "in_rank r t'"
    using thread_step_waits [OF moves(2) c] thread_step_rank [OF moves(2)] ww rk \<open>?t \<in> _\<close> by blast+
  ultimately have "\<forall>t \<in> set ((w_threads w)[i := t']). waits_well m' t \<and> in_rank r t"
    using rk set_update_subset_insert [of "w_threads w" i t'] by blast
  then show ?case
    using world_step_coordinated [OF world_step.moves [OF moves(1,2)] c] by (simp add: sound_def list_all_iff)
next
  case (expires w p)
  then show ?case using world_step_coordinated [OF world_step.expires] by (simp add: sound_def)
qed

lemma initial_sound:
  "list_all (\<lambda>(u, ks). sorted_wrt (\<lambda>a b. r a < r b) ks) asks \<Longrightarrow> sound r (initial cached asks)"
  using initial_coordinated [of cached asks]
  by (auto simp: sound_def list_all_iff waits_well_def in_rank_def start_def initial_def)

lemma reachable_sound:
  "reachable (initial cached asks) w \<Longrightarrow> list_all (\<lambda>(u, ks). sorted_wrt (\<lambda>a b. r a < r b) ks) asks \<Longrightarrow> sound r w"
  by (induction rule: reachable.induct) (auto intro: initial_sound world_step_sound)

text \<open>
  The owner of a pending slot somebody waits on: either about to publish it, or holding it
  under the waiter's key.
\<close>

lemma waiter_has_owner:
  assumes "coordinated w" "t \<in> set (w_threads w)" "waits_well (w_map w) t"
    and "th_phase t = Parked s k ks" "if_slots (w_map w) ! s = Pending"
  shows "\<exists>t2 \<in> set (w_threads w). (\<exists>g. th_phase t2 = Publishing g) \<or> k \<in> gd_key ` set (th_guards t2)"
proof -
  have "s \<in> pending_slots (w_map w)" using assms(3-5) by (auto simp: waits_well_def pending_slots_def)
  then have "s \<in># mset (owners w)" using assms(1) by (simp add: coordinated_def)
  then obtain t2 where t2: "t2 \<in> set (w_threads w)" "s \<in> set (owned t2)" by (auto simp: owners_def)
  show ?thesis
  proof (cases "s \<in> set (publishing t2)")
    case True
    then show ?thesis using t2(1) by (cases "th_phase t2") (auto simp: publishing_def)
  next
    case False
    then obtain g where g: "g \<in> set (th_guards t2)" "gd_slot g = s" using t2(2) by (auto simp: owned_def)
    then have "(gd_key g, s) \<in> set (held w)" using t2(1) by (force simp: held_def guard_entry_def)
    then have "(gd_key g, s) \<in> set (if_inner (w_map w))" using assms(1) by (metis coordinated_def set_mset_mset)
    then have "gd_key g = k" using assms(3,4) by (auto simp: waits_well_def)
    then show ?thesis using g t2(1) by blast
  qed
qed

definition parked_rank :: "(CacheKey \<Rightarrow> nat) \<Rightarrow> thread \<Rightarrow> nat" where
  "parked_rank r t = (case th_phase t of Parked s k ks \<Rightarrow> r k | _ \<Rightarrow> 0)"

lemma sound_progress:
  assumes "sound r w" "\<not> list_all returned (w_threads w)"
  shows "can_move w"
proof (rule ccontr)
  assume stuck: "\<not> can_move w"
  have moves: "\<exists>s k ks. th_phase t = Parked s k ks \<and> if_slots (w_map w) ! s = Pending"
    if "t \<in> set (w_threads w)" "\<not> returned t" for t
    using stuck local_progress [OF that(2)] that(1) by (force simp: can_move_def in_set_conv_nth)
  let ?live = "{t \<in> set (w_threads w). \<not> returned t}"
  have "?live \<noteq> {}" using assms(2) by (auto simp: list_all_iff)
  then have "Max (parked_rank r ` ?live) \<in> parked_rank r ` ?live" by (intro Max_in) auto
  then obtain t where t: "t \<in> set (w_threads w)" "\<not> returned t"
    and top: "parked_rank r t = Max (parked_rank r ` ?live)" by auto
  obtain s k ks where p: "th_phase t = Parked s k ks" "if_slots (w_map w) ! s = Pending" using moves [OF t] by blast
  have c: "coordinated w" and ww: "\<And>t. t \<in> set (w_threads w) \<Longrightarrow> waits_well (w_map w) t"
    and rk: "\<And>t. t \<in> set (w_threads w) \<Longrightarrow> in_rank r t"
    using assms(1) by (auto simp: sound_def list_all_iff)
  obtain t2 where t2: "t2 \<in> set (w_threads w)"
    and own: "(\<exists>g. th_phase t2 = Publishing g) \<or> k \<in> gd_key ` set (th_guards t2)"
    using waiter_has_owner [OF c t(1) ww [OF t(1)] p] by blast
  have live: "\<not> returned t2" using own ww [OF t2] by (auto simp: returned_def waits_well_def)
  then obtain s2 k2 ks2 where p2: "th_phase t2 = Parked s2 k2 ks2" using moves [OF t2] by blast
  then have "k \<in> gd_key ` set (th_guards t2)" using own by simp
  then have "r k < r k2" using rk [OF t2] p2 by (auto simp: in_rank_def sorted_wrt_append)
  moreover have "parked_rank r t2 \<le> parked_rank r t" unfolding top using live t2 by (intro Max_ge) auto
  ultimately show False using p p2 by (simp add: parked_rank_def)
qed

text \<open>What a thread still has to do; every move of a thread does some of it.\<close>

definition work :: "thread \<Rightarrow> nat" where
  "work t = 2 * length (th_guards t) + (case th_phase t of
      Visiting ks \<Rightarrow> 5 * length ks + 3
    | Missed k ks \<Rightarrow> 5 * length ks + 7
    | Parked s k ks \<Rightarrow> 5 * length ks + 6
    | Resolving \<Rightarrow> 2
    | Releasing \<Rightarrow> 1
    | Publishing g \<Rightarrow> 2
    | Returned \<Rightarrow> 0)"

lemma thread_step_work: "thread_step m cached t m' cached' t' \<Longrightarrow> work t' < work t"
  by (induction rule: thread_step.induct) (auto simp: work_def give_up_def fail_guards_def)

definition total_work :: "world \<Rightarrow> nat" where
  "total_work w = sum_list (map work (w_threads w))"

lemma sum_list_update_less:
  "i < length xs \<Longrightarrow> f y < f (xs ! i) \<Longrightarrow> sum_list (map f (xs[i := y])) < (sum_list (map f xs) :: nat)"
proof (induction xs arbitrary: i)
  case (Cons x xs)
  then show ?case by (cases i) auto
qed simp

lemma move_works:
  "i < length (w_threads w) \<Longrightarrow> thread_step (w_map w) (w_cached w) (w_threads w ! i) m' cached' t' \<Longrightarrow>
   total_work \<lparr>w_map = m', w_cached = cached', w_threads = (w_threads w)[i := t']\<rparr> < total_work w"
  using sum_list_update_less [of i "w_threads w" work t'] thread_step_work by (simp add: total_work_def)

lemma runs_to_return: "sound r w \<Longrightarrow> \<exists>w'. world_step\<^sup>*\<^sup>* w w' \<and> list_all returned (w_threads w')"
proof (induction "total_work w" arbitrary: w rule: less_induct)
  case less
  show ?case
  proof (cases "list_all returned (w_threads w)")
    case False
    then obtain i m' cached' t' where i: "i < length (w_threads w)"
      "thread_step (w_map w) (w_cached w) (w_threads w ! i) m' cached' t'"
      using sound_progress [OF less.prems] by (auto simp: can_move_def)
    then show ?thesis
      using less.hyps [OF move_works [OF i] world_step_sound [OF world_step.moves [OF i] less.prems]]
        world_step.moves [OF i] by (meson converse_rtranclp_into_rtranclp)
  qed blast
qed

section \<open>Two ways to wait for ever\<close>

lemma parked_stuck:
  "th_phase t = Parked s k ks \<Longrightarrow> if_slots m ! s = Pending \<Longrightarrow> \<not> thread_step m cached t m' cached' t'"
  by (auto elim!: thread_step.cases simp: slot_wait_def)

lemma all_parked_stuck:
  "list_all (\<lambda>t. \<exists>s k ks. th_phase t = Parked s k ks \<and> if_slots (w_map w) ! s = Pending) (w_threads w)
   \<Longrightarrow> \<not> can_move w"
  using parked_stuck by (fastforce simp: can_move_def list_all_length)

lemma reach_move:
  "reachable w0 w \<Longrightarrow> i < length (w_threads w) \<Longrightarrow>
   thread_step (w_map w) (w_cached w) (w_threads w ! i) m' cached' t' \<Longrightarrow>
   w' = \<lparr>w_map = m', w_cached = cached', w_threads = (w_threads w)[i := t']\<rparr> \<Longrightarrow> reachable w0 w'"
  by (auto intro: reachable.there world_step.moves)

definition mk_thread :: "bool \<Rightarrow> phase \<Rightarrow> InFlightGuard list \<Rightarrow> thread" where
  "mk_thread u ph gs = \<lparr>th_union = u, th_phase = ph, th_guards = gs\<rparr>"

definition own_guard :: "nat \<Rightarrow> CacheKey \<Rightarrow> InFlightGuard" where
  "own_guard s k = \<lparr>gd_slot = s, gd_key = k, gd_final_state = None\<rparr>"

definition pend :: "CacheKey list \<Rightarrow> InFlightMap" where
  "pend ks = \<lparr>if_inner = zip ks [0..<length ks], if_slots = replicate (length ks) Pending\<rparr>"

lemma mk_thread_simps [simp]:
  "th_phase (mk_thread u ph gs) = ph" "th_guards (mk_thread u ph gs) = gs" "th_union (mk_thread u ph gs) = u"
  "(mk_thread u ph gs)\<lparr>th_phase := ph'\<rparr> = mk_thread u ph' gs"
  "(mk_thread u ph gs)\<lparr>th_guards := gs'\<rparr> = mk_thread u ph gs'"
  by (simp_all add: mk_thread_def)

lemma acquire_pend:
  "acquire_enter k (pend []) = (Inr (own_guard 0 k), pend [k])"
  "acquire_enter k (pend [k]) = (Inl 0, pend [k])"
  "k1 \<noteq> k2 \<Longrightarrow> acquire_enter k2 (pend [k1]) = (Inr (own_guard 1 k2), pend [k1, k2])"
  "acquire_enter k1 (pend [k1, k2]) = (Inl 0, pend [k1, k2])"
  "k1 \<noteq> k2 \<Longrightarrow> acquire_enter k2 (pend [k1, k2]) = (Inl 1, pend [k1, k2])"
  by (simp_all add: acquire_enter_def pend_def own_guard_def upt_rec)

text \<open>The five states a lone thread that names one key twice can be in.\<close>

fun twice :: "bool \<Rightarrow> CacheKey \<Rightarrow> InFlightMap \<Rightarrow> thread \<Rightarrow> bool" where
  "twice u k m t \<longleftrightarrow> (m, t) \<in> {
     (pend [], mk_thread u (Visiting [k, k]) []),
     (pend [], mk_thread u (Missed k [k]) []),
     (pend [k], mk_thread u (Visiting [k]) [own_guard 0 k]),
     (pend [k], mk_thread u (Missed k []) [own_guard 0 k]),
     (pend [k], mk_thread u (Parked 0 k []) [own_guard 0 k])}"

lemma twice_step:
  assumes "twice u k m t" "thread_step m [] t m' cached' t'"
  shows "cached' = [] \<and> twice u k m' t'"
proof -
  have pending: "slot_wait 0 (pend [k]) = None" by (simp add: slot_wait_def pend_def)
  consider "m = pend []" "t = mk_thread u (Visiting [k, k]) []"
    | "m = pend []" "t = mk_thread u (Missed k [k]) []"
    | "m = pend [k]" "t = mk_thread u (Visiting [k]) [own_guard 0 k]"
    | "m = pend [k]" "t = mk_thread u (Missed k []) [own_guard 0 k]"
    | "m = pend [k]" "t = mk_thread u (Parked 0 k []) [own_guard 0 k]"
    using assms(1) by auto
  then show ?thesis
  proof cases
    case 1 then show ?thesis using assms(2) by (auto elim!: thread_step.cases)
  next
    case 2 then show ?thesis using assms(2) by (auto elim!: thread_step.cases simp: acquire_pend)
  next
    case 3 then show ?thesis using assms(2) by (auto elim!: thread_step.cases)
  next
    case 4 then show ?thesis using assms(2) by (auto elim!: thread_step.cases simp: acquire_pend)
  next
    case 5 then show ?thesis using assms(2) pending by (auto elim!: thread_step.cases)
  qed
qed

lemma twice_reachable:
  "reachable (initial [] [(u, [k, k])]) w \<Longrightarrow> w_cached w = [] \<and> (\<exists>t. w_threads w = [t] \<and> twice u k (w_map w) t)"
proof (induction rule: reachable.induct)
  case here
  then show ?case by (simp add: initial_def new_in_flight_def pend_def start_def mk_thread_def)
next
  case (there w w')
  then obtain t where t: "w_threads w = [t]" "twice u k (w_map w) t" "w_cached w = []" by blast
  from there(2) show ?case
  proof (cases rule: world_step.cases)
    case (moves i m' cached' t')
    then show ?thesis using t twice_step [OF t(2), of m' cached' t'] by simp
  next
    case (expires p)
    then show ?thesis using t by simp
  qed
qed

lemma twice_stuck: "\<exists>w. reachable (initial [] [(u, [k, k])]) w \<and> \<not> can_move w"
proof -
  let ?init = "initial [] [(u, [k, k])]"
  let ?w = "\<lambda>ks ph gs. \<lparr>w_map = pend ks, w_cached = [], w_threads = [mk_thread u ph gs]\<rparr>"
  have "?init = ?w [] (Visiting [k, k]) []"
    by (simp add: initial_def new_in_flight_def pend_def start_def mk_thread_def)
  then have "reachable ?init (?w [] (Visiting [k, k]) [])" by (metis reachable.here)
  then have "reachable ?init (?w [] (Missed k [k]) [])"
    by (rule reach_move [where i = 0, OF _ _ miss [where k = k and ks = "[k]"]]) auto
  then have "reachable ?init (?w [k] (Visiting [k]) [own_guard 0 k])"
    by (rule reach_move [where i = 0, OF _ _ win [where k = k and ks = "[k]"]]) (auto simp: acquire_pend)
  then have "reachable ?init (?w [k] (Missed k []) [own_guard 0 k])"
    by (rule reach_move [where i = 0, OF _ _ miss [where k = k and ks = "[]"]]) auto
  then have "reachable ?init (?w [k] (Parked 0 k []) [own_guard 0 k])"
    by (rule reach_move [where i = 0, OF _ _ park [where k = k and ks = "[]"]]) (auto simp: acquire_pend)
  moreover have "\<not> can_move (?w [k] (Parked 0 k []) [own_guard 0 k])"
    by (rule all_parked_stuck) (simp add: pend_def)
  ultimately show ?thesis by blast
qed

lemma crossed_stuck:
  assumes "a \<noteq> b"
  shows "\<exists>w. reachable (initial [] [(u, [a, b]), (v, [b, a])]) w \<and> \<not> can_move w \<and> \<not> list_ex returned (w_threads w)"
proof -
  let ?init = "initial [] [(u, [a, b]), (v, [b, a])]"
  let ?w = "\<lambda>ks ph gs ph' gs'. \<lparr>w_map = pend ks, w_cached = [], w_threads = [mk_thread u ph gs, mk_thread v ph' gs']\<rparr>"
  let ?a = "[own_guard 0 a]" and ?b = "[own_guard 1 b]"
  have "?init = ?w [] (Visiting [a, b]) [] (Visiting [b, a]) []"
    by (simp add: initial_def new_in_flight_def pend_def start_def mk_thread_def)
  then have "reachable ?init (?w [] (Visiting [a, b]) [] (Visiting [b, a]) [])" by (metis reachable.here)
  then have "reachable ?init (?w [] (Missed a [b]) [] (Visiting [b, a]) [])"
    by (rule reach_move [where i = 0, OF _ _ miss [where k = a and ks = "[b]"]]) auto
  then have "reachable ?init (?w [a] (Visiting [b]) ?a (Visiting [b, a]) [])"
    by (rule reach_move [where i = 0, OF _ _ win [where k = a and ks = "[b]"]]) (auto simp: acquire_pend)
  then have "reachable ?init (?w [a] (Visiting [b]) ?a (Missed b [a]) [])"
    by (rule reach_move [where i = 1, OF _ _ miss [where k = b and ks = "[a]"]]) auto
  then have "reachable ?init (?w [a, b] (Visiting [b]) ?a (Visiting [a]) ?b)"
    by (rule reach_move [where i = 1, OF _ _ win [where k = b and ks = "[a]"]]) (auto simp: acquire_pend assms)
  then have "reachable ?init (?w [a, b] (Missed b []) ?a (Visiting [a]) ?b)"
    by (rule reach_move [where i = 0, OF _ _ miss [where k = b and ks = "[]"]]) auto
  then have "reachable ?init (?w [a, b] (Parked 1 b []) ?a (Visiting [a]) ?b)"
    by (rule reach_move [where i = 0, OF _ _ park [where k = b and ks = "[]"]]) (auto simp: acquire_pend assms)
  then have "reachable ?init (?w [a, b] (Parked 1 b []) ?a (Missed a []) ?b)"
    by (rule reach_move [where i = 1, OF _ _ miss [where k = a and ks = "[]"]]) auto
  then have "reachable ?init (?w [a, b] (Parked 1 b []) ?a (Parked 0 a []) ?b)"
    by (rule reach_move [where i = 1, OF _ _ park [where k = a and ks = "[]"]]) (auto simp: acquire_pend assms)
  moreover have "\<not> can_move (?w [a, b] (Parked 1 b []) ?a (Parked 0 a []) ?b)"
    by (rule all_parked_stuck) (simp add: pend_def)
  ultimately show ?thesis by (force simp: returned_def)
qed

section \<open>Properties\<close>

lemma drop_then_acquire:
  assumes "acquire k m = (Some (Resolver g), m')"
  shows "gd_key g = k \<and> fst (acquire k m') = None
    \<and> (\<exists>g' m''. acquire k (drop_guard (mark_failed g msg) m') = (Some (Resolver g'), m''))"
  using assms
  by (auto simp: acquire_def acquire_enter_def Let_def slot_wait_def drop_guard_def drop_unmap_def
      drop_publish_def mark_failed_def split: option.splits SlotState.splits)

text \<open>
  C32. Whatever the interleaving, no two threads resolve the same key at once: each key is held
  by at most one guard, and the keys held are exactly the keys of the map, on pending slots.
\<close>

theorem one_resolver_per_key:
  assumes "reachable (initial cached asks) w"
  shows "distinct (map fst (held w)) \<and> set (held w) = set (if_inner (w_map w))
    \<and> list_all (\<lambda>(k, s). if_slots (w_map w) ! s = Pending) (held w)"
proof -
  have c: "coordinated w" using reachable_coordinated assms by blast
  then have eq: "mset (held w) = mset (if_inner (w_map w))" by (simp add: coordinated_def)
  then have "mset (map fst (held w)) = mset (map fst (if_inner (w_map w)))" by simp
  moreover have "distinct (map fst (if_inner (w_map w)))" using c by (simp add: coordinated_def hm_wf_def)
  ultimately have "distinct (map fst (held w))" using mset_eq_imp_distinct_iff by blast
  moreover have s: "set (held w) = set (if_inner (w_map w))" using eq by (rule mset_eq_setD)
  moreover have "list_all (\<lambda>(k, s). if_slots (w_map w) ! s = Pending) (held w)"
    using mapped_pending [OF c] s by (auto simp: list_all_iff pending_slots_def)
  ultimately show ?thesis by blast
qed

text \<open>
  C25. When every ask names its keys in one common strict order, no thread waits for ever: some
  thread can move until all have returned, whatever the providers answer and whenever values
  expire, and a run to that end always exists; every move lowers \<open>total_work\<close>
  (lemma \<open>move_works\<close>).
\<close>

theorem ordered_asks_all_return:
  fixes r :: "CacheKey \<Rightarrow> nat"
  assumes "list_all (\<lambda>(u, ks). sorted_wrt (\<lambda>a b. r a < r b) ks) asks"
    and "reachable (initial cached asks) w"
  shows "(can_move w \<or> list_all returned (w_threads w))
    \<and> (\<exists>w'. world_step\<^sup>*\<^sup>* w w' \<and> list_all returned (w_threads w'))"
  using reachable_sound [OF assms(2,1)] sound_progress runs_to_return by blast

text \<open>
  An ask that names one reference under two variables, on a cold cache, parks on the slot
  its own thread holds: a stuck world is reachable and no reachable world has returned.
\<close>

theorem duplicate_reference_deadlocks:
  "(\<exists>w. reachable (initial [] [(u, [k, k])]) w \<and> \<not> can_move w)
   \<and> \<not> (\<exists>w. reachable (initial [] [(u, [k, k])]) w \<and> list_ex returned (w_threads w))"
  using twice_stuck twice_reachable by (fastforce simp: returned_def)

text \<open>
  Two asks that name the same two references in opposite orders can each hold the one the
  other waits for.
\<close>

theorem crossed_asks_deadlock:
  assumes "a \<noteq> b"
  shows "\<exists>w. reachable (initial [] [(u, [a, b]), (v, [b, a])]) w \<and> \<not> can_move w
    \<and> \<not> list_ex returned (w_threads w)"
  using assms by (rule crossed_stuck)

text \<open>At concrete keys: a stuck world, two threads in step, and two crossed asks.\<close>

theorem one_resolver_per_key_witness:
  "\<exists>w. reachable (initial [] [(False, [cache_key ''op'' ''a'', cache_key ''op'' ''a''])]) w \<and> \<not> can_move w
    \<and> distinct (map fst (held w))"
  using twice_stuck one_resolver_per_key by blast

theorem ordered_asks_all_return_witness:
  "\<exists>w'. world_step\<^sup>*\<^sup>* (initial [] [(False, [cache_key ''op'' ''a'', cache_key ''op'' ''bb'']), (True, [cache_key ''op'' ''bb''])]) w'
    \<and> list_all returned (w_threads w')"
  by (rule ordered_asks_all_return [where r = "\<lambda>k. length (ck_locator k)", OF _ reachable.here, THEN conjunct2])
    (simp add: cache_key_def)

theorem crossed_asks_deadlock_witness:
  "\<exists>w. reachable (initial [] [(False, [cache_key ''op'' ''a'', cache_key ''op'' ''b'']), (False, [cache_key ''op'' ''b'', cache_key ''op'' ''a''])]) w
    \<and> \<not> can_move w \<and> \<not> list_ex returned (w_threads w)"
  by (rule crossed_asks_deadlock) (simp add: cache_key_def)

end
