(* ===== verification/Resolution.thy ===== *)
theory Resolution
  imports In_Flight Resolve Consent Wraps
begin

text \<open>
  How the daemon turns an authorised ask into values: \<open>resolve_for_ask\<close>, \<open>resolve_union\<close> and
  \<open>resolve_single_cached\<close> of \<open>src/packages/secreq/src/daemon/state.rs\<close>, on the calling thread's
  view of the shared memory (cache, slots, clock). What is not this thread is the record
  \<open>outside\<close>: the cipher, the nonces drawn, the provider command runner, what the other threads
  do to the memory while this one is parked on a slot (\<open>ot_wait\<close>, \<open>None\<close> when nobody ever wakes
  it) or waits for a provider (\<open>ot_during\<close>), and the two renderings of an error (the full chain
  and its top level). A result of \<open>None\<close> is a call that never returns.
\<close>

section \<open>The shared memory\<close>

record memory =
  me_cache :: SecretCache
  me_flight :: InFlightMap
  me_now :: nat
  me_draws :: nat

record outside =
  ot_crypto :: crypto
  ot_nonce :: "nat \<Rightarrow> string"
  ot_run :: runner
  ot_wait :: "nat \<Rightarrow> memory \<Rightarrow> memory option"
  ot_during :: "ResolutionPlan \<Rightarrow> memory \<Rightarrow> memory"
  ot_chain :: "resolve_error \<Rightarrow> string"
  ot_top :: "resolve_error \<Rightarrow> string"

definition cache_get :: "outside \<Rightarrow> CacheKey \<Rightarrow> memory \<Rightarrow> string option" where
  "cache_get E k M = get_at (ot_crypto E) (me_cache M) k (me_now M)"

definition cache_put :: "outside \<Rightarrow> CacheKey \<Rightarrow> string \<Rightarrow> CacheTtl \<Rightarrow> memory \<Rightarrow> memory" where
  "cache_put E k v ttl M = M\<lparr>
     me_cache := put_at (ot_crypto E) k v ttl (me_now M) (ot_nonce E (me_draws M)) (me_cache M),
     me_draws := Suc (me_draws M)\<rparr>"

definition acquire_blocking :: "outside \<Rightarrow> CacheKey \<Rightarrow> memory \<Rightarrow> (Acquired \<times> memory) option" where
  "acquire_blocking E key M = (case acquire_enter key (me_flight M) of
      (Inr g, f) \<Rightarrow> Some (Resolver g, M\<lparr>me_flight := f\<rparr>)
    | (Inl slot, f) \<Rightarrow> (case ot_wait E slot M of
          None \<Rightarrow> None
        | Some M' \<Rightarrow> (case slot_wait slot (me_flight M') of None \<Rightarrow> None | Some a \<Rightarrow> Some (a, M'))))"

definition drop_guards :: "InFlightGuard list \<Rightarrow> memory \<Rightarrow> memory" where
  "drop_guards gs M = M\<lparr>me_flight := fold drop_guard gs (me_flight M)\<rparr>"

definition ask_key :: "SecretAsk \<Rightarrow> CacheKey" where
  "ask_key s = cache_key (sk_provider s) (sk_locator s)"

section \<open>Replies\<close>

datatype WaiterReply =
    Decided Decision "(string, string) hmap" "string option" "string option"
  | ReplyErr (message: string) (public_message: string)

fun map_decision :: "(Decision \<Rightarrow> Decision) \<Rightarrow> WaiterReply \<Rightarrow> WaiterReply" where
  "map_decision f (Decided d secs dev r) = Decided (f d) secs dev r"
| "map_decision f (ReplyErr m p) = ReplyErr m p"

record ResolveFailure =
  rx_full :: string
  rx_public :: string

definition plain_failure :: "string \<Rightarrow> ResolveFailure" where
  "plain_failure m = \<lparr>rx_full = m, rx_public = m\<rparr>"

type_synonym union_result = "(string \<times> string, ResolveFailure + string) hmap"

text \<open>The first failure in the map's order; the source's map has no order, so any will do.\<close>

definition union_public_error :: "union_result \<Rightarrow> string option" where
  "union_public_error u = (case List.map_filter (\<lambda>(k, r). case r of Inl f \<Rightarrow> Some (rx_public f) | Inr _ \<Rightarrow> None) u of
      [] \<Rightarrow> None | m # _ \<Rightarrow> Some m)"

section \<open>The provider call\<close>

definition provider_of_wire :: "WireProvider \<Rightarrow> Provider" where
  "provider_of_wire wp = \<lparr>pv_name = wp_name wp, pv_retrieve = wp_retrieve wp, pv_store = None,
     pv_retrieve_batch = map_option (\<lambda>b. \<lparr>br_command = wb_command b,
       br_env_value_template = wb_env_value_template b\<rparr>) (wp_retrieve_batch wp)\<rparr>"

definition build_manifest :: "(string, WireProvider) hmap \<Rightarrow> Manifest" where
  "build_manifest ps = \<lparr>mf_providers = fold (\<lambda>(n, wp). bt_insert n (provider_of_wire wp)) ps []\<rparr>"

definition request_of :: "string \<Rightarrow> SecretAsk \<Rightarrow> SecretRequest" where
  "request_of name s = \<lparr>sr_name = name, sr_provider = sk_provider s, sr_locator = sk_locator s,
     sr_reason = sk_reason s, sr_description = sk_description s, sr_default = sk_default s,
     sr_declared_as = sk_declared_as s\<rparr>"

definition by_name :: "ResolvedSecret list \<Rightarrow> (string, string) hmap" where
  "by_name rs = fold (\<lambda>r. hm_insert (rs_name r) (rs_value r)) rs []"

definition PROVIDER_FAILED :: string where
  "PROVIDER_FAILED = ''secret provider resolution failed''"

section \<open>resolve_for_ask\<close>

type_synonym gathered = "(string, string) hmap \<times> SecretAsk list \<times> InFlightGuard list"

fun gather :: "outside \<Rightarrow> SecretAsk list \<Rightarrow> gathered \<Rightarrow> memory \<Rightarrow> ((WaiterReply + gathered) \<times> memory) option" where
  "gather E [] acc M = Some (Inr acc, M)"
| "gather E (s # ss) (secs, needs, gs) M = (case cache_get E (ask_key s) M of
      Some v \<Rightarrow> gather E ss (hm_insert (sk_name s) v secs, needs, gs) M
    | None \<Rightarrow> (case acquire_blocking E (ask_key s) M of
          None \<Rightarrow> None
        | Some (Resolver g, M') \<Rightarrow> gather E ss (secs, needs @ [s], gs @ [g]) M'
        | Some (AcquiredReady, M') \<Rightarrow> (case cache_get E (ask_key s) M' of
              Some v \<Rightarrow> gather E ss (hm_insert (sk_name s) v secs, needs, gs) M'
            | None \<Rightarrow> Some (Inl (ReplyErr (ready_but_empty (ask_key s)) (ready_but_empty (ask_key s))),
                drop_guards (fail_guards gs (ready_but_empty (ask_key s))) M'))
        | Some (AcquiredFailed msg, M') \<Rightarrow>
            Some (Inl (ReplyErr msg PROVIDER_FAILED), drop_guards (fail_guards gs msg) M')))"

fun store_values :: "outside \<Rightarrow> (string, string) hmap \<Rightarrow> SecretAsk list \<Rightarrow> (string, string) hmap \<times> memory
    \<Rightarrow> (string, string) hmap \<times> memory" where
  "store_values E vals [] acc = acc"
| "store_values E vals (s # ss) (secs, M) = (case hm_get vals (sk_name s) of
      None \<Rightarrow> store_values E vals ss (secs, M)
    | Some v \<Rightarrow> store_values E vals ss (hm_insert (sk_name s) v secs, cache_put E (ask_key s) v (sk_ttl s) M))"

definition resolve_for_ask :: "outside \<Rightarrow> Ask \<Rightarrow> memory \<Rightarrow> (WaiterReply \<times> memory) option" where
  "resolve_for_ask E ask M = (case gather E (secrets ask) ([], [], []) M of
      None \<Rightarrow> None
    | Some (Inl reply, M) \<Rightarrow> Some (reply, M)
    | Some (Inr (secs, needs, gs), M) \<Rightarrow>
        if needs = [] then Some (Decided Approve secs None None, M)
        else (let plan = map (\<lambda>s. request_of (sk_name s) s) needs;
                  M = ot_during E plan M
              in case resolve_all (ot_run E) (build_manifest (providers ask)) plan of
                   Inr (rs, stats) \<Rightarrow>
                     (let (secs, M) = store_values E (by_name rs) needs (secs, M)
                      in Some (Decided Approve secs None None, drop_guards (map mark_ready gs) M))
                 | Inl err \<Rightarrow> Some (ReplyErr (ot_chain E err) (ot_top E err),
                     drop_guards (fail_guards gs (ot_chain E err)) M)))"

section \<open>resolve_union\<close>

definition ask_pair :: "SecretAsk \<Rightarrow> string \<times> string" where
  "ask_pair s = (sk_provider s, sk_locator s)"

text \<open>The distinct pairs in arrival order, each with the first ask that named it.\<close>

fun first_asks :: "SecretAsk list \<Rightarrow> (string \<times> string, SecretAsk) hmap \<Rightarrow> (string \<times> string, SecretAsk) hmap" where
  "first_asks [] acc = acc"
| "first_asks (s # ss) acc = first_asks ss
     (case hm_get acc (ask_pair s) of Some _ \<Rightarrow> acc | None \<Rightarrow> acc @ [(ask_pair s, s)])"

definition ttl_for_pair :: "(string \<times> string, SecretAsk) hmap \<Rightarrow> string \<Rightarrow> string \<Rightarrow> CacheTtl" where
  "ttl_for_pair firsts p l = (case hm_get firsts (p, l) of None \<Rightarrow> DaemonLifetime | Some s \<Rightarrow> sk_ttl s)"

definition pair_key :: "string \<times> string \<Rightarrow> CacheKey" where
  "pair_key pl = cache_key (fst pl) (snd pl)"

type_synonym union_gathered = "union_result \<times> ((string \<times> string) \<times> string) list \<times> InFlightGuard list"

fun gather_union :: "outside \<Rightarrow> (string \<times> string) list \<Rightarrow> union_gathered \<Rightarrow> memory
    \<Rightarrow> (union_gathered \<times> memory) option" where
  "gather_union E [] acc M = Some (acc, M)"
| "gather_union E (pl # pls) (out, needs, gs) M = (case cache_get E (pair_key pl) M of
      Some v \<Rightarrow> gather_union E pls (hm_insert pl (Inr v) out, needs, gs) M
    | None \<Rightarrow> (case acquire_blocking E (pair_key pl) M of
          None \<Rightarrow> None
        | Some (Resolver g, M') \<Rightarrow> gather_union E pls
            (out, needs @ [(pl, ''secreq_req_'' @ show_nat (length needs))], gs @ [g]) M'
        | Some (AcquiredReady, M') \<Rightarrow> gather_union E pls (hm_insert pl
            (case cache_get E (pair_key pl) M' of
               Some v \<Rightarrow> Inr v | None \<Rightarrow> Inl (plain_failure (ready_but_empty (pair_key pl)))) out, needs, gs) M'
        | Some (AcquiredFailed msg, M') \<Rightarrow> gather_union E pls
            (hm_insert pl (Inl \<lparr>rx_full = msg, rx_public = PROVIDER_FAILED\<rparr>) out, needs, gs) M'))"

definition no_value :: "string \<times> string \<Rightarrow> string" where
  "no_value pl = ''provider '' @ fst pl @ '' returned no value for '' @ snd pl"

fun store_union :: "outside \<Rightarrow> (string \<times> string, SecretAsk) hmap \<Rightarrow> (string, string) hmap
    \<Rightarrow> ((string \<times> string) \<times> string) list \<Rightarrow> union_result \<times> memory \<Rightarrow> union_result \<times> memory" where
  "store_union E firsts vals [] acc = acc"
| "store_union E firsts vals ((pl, n) # needs) (out, M) = (case hm_get vals n of
      Some v \<Rightarrow> store_union E firsts vals needs (hm_insert pl (Inr v) out,
        cache_put E (pair_key pl) v (ttl_for_pair firsts (fst pl) (snd pl)) M)
    | None \<Rightarrow> store_union E firsts vals needs (hm_insert pl (Inl (plain_failure (no_value pl))) out, M))"

definition resolve_union :: "outside \<Rightarrow> Ask \<Rightarrow> memory \<Rightarrow> (union_result \<times> memory) option" where
  "resolve_union E rep M =
     (let firsts = first_asks (secrets rep) [] in
      case gather_union E (map fst firsts) ([], [], []) M of
        None \<Rightarrow> None
      | Some ((out, needs, gs), M) \<Rightarrow>
          if needs = [] then Some (out, M)
          else (let plan = List.map_filter (\<lambda>(pl, n). map_option (request_of n) (hm_get firsts pl)) needs;
                    M = ot_during E plan M
                in case resolve_all (ot_run E) (build_manifest (providers rep)) plan of
                     Inr (rs, stats) \<Rightarrow>
                       (let (out, M) = store_union E firsts (by_name rs) needs (out, M)
                        in Some (out, drop_guards (map mark_ready gs) M))
                   | Inl err \<Rightarrow>
                       (let f = \<lparr>rx_full = ot_chain E err, rx_public = ot_top E err\<rparr>
                        in Some (fold (\<lambda>(pl, n). hm_insert pl (Inl f)) needs out,
                             drop_guards (fail_guards gs (rx_full f)) M))))"

section \<open>resolve_single_cached\<close>

datatype single_error = Resolving_Failed resolve_error | No_Row string | Waited string

definition resolve_single_cached ::
  "outside \<Rightarrow> CacheKey \<Rightarrow> CacheTtl \<Rightarrow> string \<Rightarrow> string option \<Rightarrow> (string, Provider) btmap \<Rightarrow> memory
     \<Rightarrow> ((single_error + string) \<times> memory) option" where
  "resolve_single_cached E key ttl name reason provs M = (case cache_get E key M of
      Some v \<Rightarrow> Some (Inr v, M)
    | None \<Rightarrow> (case acquire_blocking E key M of
          None \<Rightarrow> None
        | Some (Resolver g, M) \<Rightarrow>
            (let plan = [\<lparr>sr_name = name, sr_provider = ck_provider key, sr_locator = ck_locator key,
                 sr_reason = reason, sr_description = None, sr_default = None, sr_declared_as = None\<rparr>];
                 M = ot_during E plan M;
                 result = (case resolve_all (ot_run E) \<lparr>mf_providers = provs\<rparr> plan of
                   Inl err \<Rightarrow> Inl (Resolving_Failed err)
                 | Inr (rows, stats) \<Rightarrow> (case rows of [] \<Rightarrow> Inl (No_Row name) | r # _ \<Rightarrow> Inr (rs_value r)))
             in case result of
                  Inr v \<Rightarrow> Some (Inr v, drop_guards [mark_ready g] (cache_put E key v ttl M))
                | Inl err \<Rightarrow> Some (Inl err, drop_guards [mark_failed g (case err of
                      Resolving_Failed e \<Rightarrow> ot_chain E e
                    | No_Row n \<Rightarrow> ''provider returned no value for '' @ n
                    | Waited m \<Rightarrow> m)] M))
        | Some (AcquiredReady, M) \<Rightarrow> Some (case cache_get E key M of
              Some v \<Rightarrow> Inr v | None \<Rightarrow> Inl (Waited (ready_but_empty key)), M)
        | Some (AcquiredFailed msg, M) \<Rightarrow> Some (Inl (Waited msg), M)))"

definition ask_fully_cached :: "outside \<Rightarrow> Ask \<Rightarrow> memory \<Rightarrow> bool" where
  "ask_fully_cached E ask M = list_all (\<lambda>s. cache_get E (ask_key s) M \<noteq> None) (secrets ask)"

section \<open>The gathering loop\<close>

definition misses :: "outside \<Rightarrow> memory \<Rightarrow> SecretAsk list \<Rightarrow> SecretAsk list" where
  "misses E M ss = filter (\<lambda>s. cache_get E (ask_key s) M = None) ss"

definition hits :: "outside \<Rightarrow> memory \<Rightarrow> SecretAsk list \<Rightarrow> (string, string) hmap \<Rightarrow> (string, string) hmap" where
  "hits E M ss secs = fold (\<lambda>s acc. case cache_get E (ask_key s) M of
     Some v \<Rightarrow> hm_insert (sk_name s) v acc | None \<Rightarrow> acc) ss secs"

text \<open>No other thread holds a slot this ask will want, and this ask wants none twice.\<close>

definition unclaimed :: "outside \<Rightarrow> memory \<Rightarrow> CacheKey list \<Rightarrow> bool" where
  "unclaimed E M ks \<longleftrightarrow> (let cold = filter (\<lambda>k. cache_get E k M = None) ks in
     distinct cold \<and> list_all (\<lambda>k. hm_get (if_inner (me_flight M)) k = None) cold)"

lemma cache_get_flight [simp]: "cache_get E k (M\<lparr>me_flight := f\<rparr>) = cache_get E k M"
  by (simp add: cache_get_def)

lemma acquire_free:
  "hm_get (if_inner (me_flight M)) k = None \<Longrightarrow> acquire_blocking E k M =
     Some (Resolver (own_guard (length (if_slots (me_flight M))) k),
       M\<lparr>me_flight := \<lparr>if_inner = if_inner (me_flight M) @ [(k, length (if_slots (me_flight M)))],
         if_slots = if_slots (me_flight M) @ [Pending]\<rparr>\<rparr>)"
  by (simp add: acquire_blocking_def acquire_enter_def own_guard_def update_absent Let_def)

lemma gather_unclaimed:
  "unclaimed E M (map ask_key ss) \<Longrightarrow>
   \<exists>gs' f. gather E ss (secs, needs, gs) M =
       Some (Inr (hits E M ss secs, needs @ misses E M ss, gs @ gs'), M\<lparr>me_flight := f\<rparr>)
     \<and> map gd_key gs' = map ask_key (misses E M ss)
     \<and> if_inner f = if_inner (me_flight M) @ map guard_entry gs'"
proof (induction ss arbitrary: secs needs gs M)
  case Nil
  have "M = M\<lparr>me_flight := me_flight M\<rparr>" by simp
  then show ?case by (intro exI [of _ "[]"] exI [of _ "me_flight M"]) (simp add: hits_def misses_def)
next
  case (Cons s ss)
  show ?case
  proof (cases "cache_get E (ask_key s) M")
    case (Some v)
    then have "unclaimed E M (map ask_key ss)" using Cons.prems by (simp add: unclaimed_def)
    from Cons.IH [OF this, of "hm_insert (sk_name s) v secs" needs gs] show ?thesis
      using Some by (simp add: hits_def misses_def)
  next
    case None
    let ?k = "ask_key s" and ?f = "me_flight M"
    define M' where "M' = M\<lparr>me_flight := \<lparr>if_inner = if_inner ?f @ [(?k, length (if_slots ?f))],
      if_slots = if_slots ?f @ [Pending]\<rparr>\<rparr>"
    have free: "hm_get (if_inner ?f) ?k = None" using Cons.prems None by (simp add: unclaimed_def Let_def)
    have same: "cache_get E k M' = cache_get E k M" for k by (simp add: M'_def)
    have "unclaimed E M' (map ask_key ss)"
      using Cons.prems None same by (auto simp: unclaimed_def Let_def list_all_iff M'_def map_add_def)
    from Cons.IH [OF this, of secs "needs @ [s]" "gs @ [own_guard (length (if_slots ?f)) ?k]"]
    obtain gs' f where "gather E ss (secs, needs @ [s], gs @ [own_guard (length (if_slots ?f)) ?k]) M' =
        Some (Inr (hits E M' ss secs, (needs @ [s]) @ misses E M' ss,
          (gs @ [own_guard (length (if_slots ?f)) ?k]) @ gs'), M'\<lparr>me_flight := f\<rparr>)"
      "map gd_key gs' = map ask_key (misses E M' ss)" "if_inner f = if_inner (me_flight M') @ map guard_entry gs'"
      by blast
    then show ?thesis using None acquire_free [OF free, of E] same
      by (intro exI [of _ "own_guard (length (if_slots ?f)) ?k # gs'"] exI [of _ f])
        (simp add: hits_def misses_def M'_def own_guard_def guard_entry_def)
  qed
qed

text \<open>Dropping a thread's guards leaves the map as it was before it took them.\<close>

lemma drop_guards_inner:
  "if_inner (me_flight (drop_guards gs M)) = filter (\<lambda>(k, s). k \<notin> gd_key ` set gs) (if_inner (me_flight M))"
proof -
  have remove: "hm_remove k es = filter (\<lambda>(k', s). k' \<noteq> k) es" for k and es :: "(CacheKey, nat) hmap"
    by (induction es) auto
  have "if_inner (fold drop_guard gs f) = filter (\<lambda>(k, s). k \<notin> gd_key ` set gs) (if_inner f)" for f
  proof (induction gs arbitrary: f)
    case (Cons g gs)
    then show ?case
      by (auto simp: drop_guard_def drop_publish_def drop_unmap_def remove intro!: filter_cong)
  qed (simp add: filter_True split_def)
  then show ?thesis by (simp add: drop_guards_def)
qed

lemma drop_guards_restore:
  assumes "if_inner (me_flight M') = es @ map guard_entry gs'" "map gd_key gs = map gd_key gs'"
    and "\<forall>k \<in> set (map gd_key gs'). hm_get es k = None"
  shows "if_inner (me_flight (drop_guards gs M')) = es"
proof -
  have k: "gd_key ` set gs = gd_key ` set gs'" using assms(2) by (metis list.set_map)
  have "filter (\<lambda>(k, s). k \<notin> gd_key ` set gs') es = es"
    using assms(3) by (auto simp: filter_id_conv map_of_eq_None_iff rev_image_eqI)
  moreover have "filter (\<lambda>(k, s). k \<notin> gd_key ` set gs') (map guard_entry gs') = []"
    by (auto simp: filter_empty_conv guard_entry_def)
  ultimately show ?thesis using assms(1) k by (simp add: drop_guards_inner)
qed

section \<open>What an ask gets\<close>

lemma fold_insert_other:
  "x \<notin> n ` set ss \<Longrightarrow>
   hm_get (fold (\<lambda>s acc. case g s of None \<Rightarrow> acc | Some v \<Rightarrow> hm_insert (n s) v acc) ss m) x = hm_get m x"
  by (induction ss arbitrary: m) (auto split: option.splits)

lemma fold_insert_own:
  "distinct (map n ss) \<Longrightarrow> s \<in> set ss \<Longrightarrow>
   hm_get (fold (\<lambda>s acc. case g s of None \<Rightarrow> acc | Some v \<Rightarrow> hm_insert (n s) v acc) ss m) (n s) =
     (case g s of None \<Rightarrow> hm_get m (n s) | Some v \<Rightarrow> Some v)"
proof (induction ss arbitrary: m)
  case (Cons s0 ss)
  show ?case
  proof (cases "s = s0")
    case True
    then have "n s \<notin> n ` set ss" using Cons.prems by auto
    from fold_insert_other [OF this, where g = g] show ?thesis using True by (auto split: option.splits)
  next
    case False
    then have "n s0 \<noteq> n s" using Cons.prems by auto
    then show ?thesis using Cons False by (auto split: option.splits)
  qed
qed simp

lemma by_name_get:
  assumes "distinct (map rs_name rs)" "x \<in> set rs"
  shows "hm_get (by_name rs) (rs_name x) = Some (rs_value x)"
  using fold_insert_own [OF assms, of "\<lambda>r. Some (rs_value r)" "[]"] by (simp add: by_name_def)

definition put_named :: "(string, string) hmap \<Rightarrow> SecretAsk list \<Rightarrow> (string, string) hmap \<Rightarrow> (string, string) hmap" where
  "put_named vals ss secs = fold (\<lambda>s acc. case hm_get vals (sk_name s) of
     None \<Rightarrow> acc | Some v \<Rightarrow> hm_insert (sk_name s) v acc) ss secs"

lemma store_values_effect:
  "fst (store_values E vals ss (secs, M)) = put_named vals ss secs
   \<and> me_flight (snd (store_values E vals ss (secs, M))) = me_flight M"
  by (induction ss arbitrary: secs M) (auto simp: put_named_def cache_put_def split: option.splits)

definition ask_plan :: "outside \<Rightarrow> memory \<Rightarrow> Ask \<Rightarrow> ResolutionPlan" where
  "ask_plan E M ask = map (\<lambda>s. request_of (sk_name s) s) (misses E M (secrets ask))"

definition quiet :: "outside \<Rightarrow> bool" where
  "quiet E \<longleftrightarrow> (\<forall>plan M. me_flight (ot_during E plan M) = me_flight M)"

text \<open>The outcome of an ask nobody interferes with, and the slots it leaves behind.\<close>

definition lone_reply :: "outside \<Rightarrow> memory \<Rightarrow> Ask \<Rightarrow> WaiterReply" where
  "lone_reply E M ask =
     (if misses E M (secrets ask) = [] then Decided Approve (hits E M (secrets ask) []) None None
      else case resolve_all (ot_run E) (build_manifest (providers ask)) (ask_plan E M ask) of
          Inr (rs, st) \<Rightarrow> Decided Approve
            (put_named (by_name rs) (misses E M (secrets ask)) (hits E M (secrets ask) [])) None None
        | Inl err \<Rightarrow> ReplyErr (ot_chain E err) (ot_top E err))"

lemma fail_guards_keys: "map gd_key (fail_guards gs msg) = map gd_key gs" "map gd_key (map mark_ready gs) = map gd_key gs"
  by (simp_all add: fail_guards_def)

lemma resolve_for_ask_lone:
  assumes "quiet E" "unclaimed E M (map ask_key (secrets ask))"
  shows "\<exists>M'. resolve_for_ask E ask M = Some (lone_reply E M ask, M')
    \<and> if_inner (me_flight M') = if_inner (me_flight M)"
proof -
  let ?cold = "misses E M (secrets ask)"
  obtain gs f where g: "gather E (secrets ask) ([], [], []) M =
      Some (Inr (hits E M (secrets ask) [], ?cold, gs), M\<lparr>me_flight := f\<rparr>)"
    and keys: "map gd_key gs = map ask_key ?cold" and inner: "if_inner f = if_inner (me_flight M) @ map guard_entry gs"
    using gather_unclaimed [OF assms(2), of "[]" "[]" "[]"] by auto
  have free: "\<forall>k \<in> set (map gd_key gs). hm_get (if_inner (me_flight M)) k = None"
    using assms(2) unfolding keys by (auto simp: unclaimed_def misses_def Let_def list_all_iff)
  show ?thesis
  proof (cases "?cold = []")
    case True
    then show ?thesis using g inner keys by (auto simp: resolve_for_ask_def lone_reply_def)
  next
    case False
    define M1 where "M1 = ot_during E (ask_plan E M ask) (M\<lparr>me_flight := f\<rparr>)"
    have f1: "me_flight M1 = f" using assms(1) by (simp add: quiet_def M1_def)
    note restore = drop_guards_restore [OF _ _ free]
    show ?thesis
    proof (cases "resolve_all (ot_run E) (build_manifest (providers ask)) (ask_plan E M ask)")
      case (Inl err)
      have "if_inner (me_flight (drop_guards (fail_guards gs (ot_chain E err)) M1)) = if_inner (me_flight M)"
        using f1 inner by (intro restore) (simp_all only: fail_guards_keys)
      then show ?thesis using g False Inl
        by (simp add: resolve_for_ask_def lone_reply_def ask_plan_def M1_def Let_def)
    next
      case (Inr r)
      obtain rs st where r: "r = (rs, st)" by force
      define M2 where "M2 = snd (store_values E (by_name rs) ?cold (hits E M (secrets ask) [], M1))"
      have "me_flight M2 = f" using f1 store_values_effect by (simp add: M2_def)
      then have "if_inner (me_flight (drop_guards (map mark_ready gs) M2)) = if_inner (me_flight M)"
        using inner by (intro restore) (simp_all only: fail_guards_keys)
      moreover have "store_values E (by_name rs) ?cold (hits E M (secrets ask) [], M1)
          = (put_named (by_name rs) ?cold (hits E M (secrets ask) []), M2)"
        by (simp add: M2_def store_values_effect prod_eq_iff)
      ultimately show ?thesis using g False Inr r
        by (simp add: resolve_for_ask_def lone_reply_def ask_plan_def M1_def Let_def)
    qed
  qed
qed

lemma put_named_get:
  "distinct (map sk_name ss) \<Longrightarrow> s \<in> set ss \<Longrightarrow> hm_get (put_named vals ss m) (sk_name s) =
     (case hm_get vals (sk_name s) of None \<Rightarrow> hm_get m (sk_name s) | Some v \<Rightarrow> Some v)"
  unfolding put_named_def by (rule fold_insert_own)

lemma lone_reply_secs:
  assumes "lone_reply E M ask = Decided d secs dev why"
  shows "misses E M (secrets ask) = [] \<and> secs = hits E M (secrets ask) []
    \<or> (\<exists>rs st. resolve_all (ot_run E) (build_manifest (providers ask)) (ask_plan E M ask) = Inr (rs, st)
        \<and> secs = put_named (by_name rs) (misses E M (secrets ask)) (hits E M (secrets ask) []))"
proof (cases "misses E M (secrets ask) = []")
  case False
  then show ?thesis using assms
    by (cases "resolve_all (ot_run E) (build_manifest (providers ask)) (ask_plan E M ask)")
      (auto simp: lone_reply_def)
qed (use assms in \<open>simp add: lone_reply_def\<close>)

lemma lone_values:
  assumes "lone_reply E M ask = Decided d secs dev why" "distinct (map sk_name (secrets ask))"
    and "s \<in> set (secrets ask)"
  shows "\<exists>v. hm_get secs (sk_name s) = Some v \<and> (case cache_get E (ask_key s) M of
      Some c \<Rightarrow> v = c
    | None \<Rightarrow> own_outcome (ot_run E) (build_manifest (providers ask)) (ask_plan E M ask) (request_of (sk_name s) s) (Found v)
        \<or> sk_default s = Some v)"
proof -
  let ?ss = "secrets ask" and ?cold = "misses E M (secrets ask)"
  have flip: "hits E M ?ss [] = fold (\<lambda>s acc. case cache_get E (ask_key s) M of
      None \<Rightarrow> acc | Some v \<Rightarrow> hm_insert (sk_name s) v acc) ?ss []"
    unfolding hits_def by (intro fold_cong) (auto split: option.splits)
  have hit: "hm_get (hits E M ?ss []) (sk_name s) = (case cache_get E (ask_key s) M of None \<Rightarrow> None | Some v \<Rightarrow> Some v)"
    unfolding flip using fold_insert_own [OF assms(2,3), of "\<lambda>s. cache_get E (ask_key s) M" "[]"]
    by (simp only: map_of.simps(1))
  have cold_names: "distinct (map sk_name ?cold)" using assms(2) by (simp add: misses_def distinct_map_filter)
  show ?thesis
  proof (cases "cache_get E (ask_key s) M")
    case (Some c)
    have "sk_name s \<notin> sk_name ` set ?cold"
    proof
      assume "sk_name s \<in> sk_name ` set ?cold"
      then obtain s' where s': "s' \<in> set ?ss" "cache_get E (ask_key s') M = None" "sk_name s = sk_name s'"
        by (auto simp: misses_def)
      then have "s = s'" using assms(2,3) by (metis distinct_map inj_onD)
      with s' Some show False by simp
    qed
    then have other: "hm_get (put_named vals ?cold m) (sk_name s) = hm_get m (sk_name s)" for vals m
      unfolding put_named_def by (rule fold_insert_other)
    have "secs = hits E M ?ss [] \<or> (\<exists>vals. secs = put_named vals ?cold (hits E M ?ss []))"
      using lone_reply_secs [OF assms(1)] by blast
    then have "hm_get secs (sk_name s) = Some c" using other hit Some by (metis option.simps(5))
    then show ?thesis using Some by simp
  next
    case None
    then have cold: "s \<in> set ?cold" using assms(3) by (simp add: misses_def)
    then obtain rs st where rs: "resolve_all (ot_run E) (build_manifest (providers ask)) (ask_plan E M ask) = Inr (rs, st)"
      and secs: "secs = put_named (by_name rs) ?cold (hits E M ?ss [])"
      using lone_reply_secs [OF assms(1)] by (metis empty_iff empty_set)
    have names: "map sr_name (ask_plan E M ask) = map sk_name ?cold" by (simp add: ask_plan_def request_of_def)
    have own: "list_all2 (\<lambda>r x. rs_name x = sr_name r
       \<and> (own_outcome (ot_run E) (build_manifest (providers ask)) (ask_plan E M ask) r (Found (rs_value x))
          \<or> (sr_default r = Some (rs_value x) \<and> (\<exists>st e. own_outcome (ot_run E) (build_manifest (providers ask))
               (ask_plan E M ask) r (NotFound st e))))) (ask_plan E M ask) rs"
      by (rule resolve_all_own [OF rs]) (simp add: names cold_names)
    then have "map rs_name rs = map sr_name (ask_plan E M ask)"
      by (auto simp: list_all2_conv_all_nth intro!: nth_equalityI)
    then have dist: "distinct (map rs_name rs)" using names cold_names by simp
    have "request_of (sk_name s) s \<in> set (ask_plan E M ask)" using cold by (auto simp: ask_plan_def)
    then obtain x where x: "x \<in> set rs" "rs_name x = sk_name s"
      and v: "own_outcome (ot_run E) (build_manifest (providers ask)) (ask_plan E M ask) (request_of (sk_name s) s) (Found (rs_value x))
        \<or> sk_default s = Some (rs_value x)"
      using own by (force simp: list_all2_conv_all_nth in_set_conv_nth request_of_def)
    have "hm_get (by_name rs) (sk_name s) = Some (rs_value x)" using by_name_get [OF dist x(1)] x(2) by simp
    then show ?thesis using put_named_get [OF cold_names cold] secs None v by auto
  qed
qed

section \<open>The union of a card\<close>

lemma dom_insert [simp]: "dom (hm_get (hm_insert k v m)) = insert k (dom (hm_get m))"
  by (auto simp: dom_def)

lemma dom_if_insert [simp]: "dom (\<lambda>b. if k = b then Some v else m b) = insert k (dom m)"
  by (auto simp: dom_def)

lemma dom_append_one: "dom (hm_get (m @ [(k, v)])) = insert k (dom (hm_get m))"
  by (auto simp: dom_def map_add_def split: option.splits)

lemma first_asks_keys:
  "distinct (map fst acc) \<Longrightarrow> distinct (map fst (first_asks ss acc))
   \<and> dom (hm_get (first_asks ss acc)) = dom (hm_get acc) \<union> ask_pair ` set ss"
proof (induction ss arbitrary: acc)
  case (Cons s ss)
  show ?case
  proof (cases "hm_get acc (ask_pair s)")
    case None
    then have "distinct (map fst (acc @ [(ask_pair s, s)]))"
      using Cons.prems by (auto simp: map_of_eq_None_iff)
    from Cons.IH [OF this] show ?thesis using None by (simp add: dom_append_one)
  next
    case (Some x)
    then have "ask_pair s \<in> dom (hm_get acc)" by blast
    then show ?thesis using Cons Some by (simp add: insert_absorb)
  qed
qed simp

lemma gather_union_keys:
  "gather_union E pls (out, needs, gs) M = Some ((out', needs', gs'), M') \<Longrightarrow>
   dom (hm_get out') \<union> fst ` set needs' = dom (hm_get out) \<union> fst ` set needs \<union> set pls"
proof (induction pls arbitrary: out needs gs M)
  case (Cons pl pls)
  show ?case
  proof (cases "cache_get E (pair_key pl) M")
    case (Some v)
    then have "gather_union E pls (hm_insert pl (Inr v) out, needs, gs) M = Some ((out', needs', gs'), M')"
      using Cons.prems by simp
    from Cons.IH [OF this] show ?thesis by (simp add: Un_ac)
  next
    case None
    then obtain a M1 where a: "acquire_blocking E (pair_key pl) M = Some (a, M1)"
      using Cons.prems by (auto split: option.splits)
    show ?thesis
    proof (cases a)
      case (Resolver g)
      then have "gather_union E pls (out, needs @ [(pl, ''secreq_req_'' @ show_nat (length needs))], gs @ [g]) M1
          = Some ((out', needs', gs'), M')"
        using Cons.prems None a by simp
      from Cons.IH [OF this] show ?thesis by (simp add: Un_ac)
    next
      case AcquiredReady
      then obtain r where "gather_union E pls (hm_insert pl r out, needs, gs) M1 = Some ((out', needs', gs'), M')"
        using Cons.prems None a by simp
      from Cons.IH [OF this] show ?thesis by (simp add: Un_ac)
    next
      case (AcquiredFailed m)
      then obtain r where "gather_union E pls (hm_insert pl r out, needs, gs) M1 = Some ((out', needs', gs'), M')"
        using Cons.prems None a by simp
      from Cons.IH [OF this] show ?thesis by (simp add: Un_ac)
    qed
  qed
qed simp

lemma store_union_keys:
  "dom (hm_get (fst (store_union E firsts vals needs (out, M)))) = dom (hm_get out) \<union> fst ` set needs"
proof (induction needs arbitrary: out M)
  case (Cons x needs)
  obtain pl n where "x = (pl, n)" by (cases x)
  then show ?case by (cases "hm_get vals n") (simp_all add: Cons.IH)
qed simp

lemma fold_fail_keys:
  "dom (hm_get (fold (\<lambda>(pl, n). hm_insert pl x) needs out)) = dom (hm_get out) \<union> fst ` set needs"
proof (induction needs arbitrary: out)
  case (Cons y needs)
  show ?case by (cases y) (simp add: Cons.IH)
qed simp

lemma store_union_flight: "me_flight (snd (store_union E firsts vals needs (out, M))) = me_flight M"
proof (induction needs arbitrary: out M)
  case (Cons x needs)
  obtain pl n where "x = (pl, n)" by (cases x)
  then show ?case by (cases "hm_get vals n") (simp_all add: Cons.IH cache_put_def)
qed simp

lemma firsts_pairs: "set (map fst (first_asks ss [])) = ask_pair ` set ss \<and> distinct (map fst (first_asks ss []))"
  using first_asks_keys [of "[]" ss] by (simp add: dom_map_of_conv_image_fst)

text \<open>The tail of \<open>resolve_union\<close>, after the pairs were gathered.\<close>

lemma resolve_union_tail:
  assumes "gather_union E (map fst (first_asks (secrets rep) [])) ([], [], []) M = Some ((out1, needs, gs), M1)"
  obtains out M' where "resolve_union E rep M = Some (out, M')"
    "dom (hm_get out) = dom (hm_get out1) \<union> fst ` set needs"
    "needs = [] \<and> M' = M1 \<or> (\<exists>plan gs' M2. map gd_key gs' = map gd_key gs
       \<and> me_flight M2 = me_flight (ot_during E plan M1) \<and> M' = drop_guards gs' M2)"
proof (cases "needs = []")
  case True
  then show ?thesis using assms by (intro that [of out1 M1]) (simp_all add: resolve_union_def)
next
  case False
  let ?firsts = "first_asks (secrets rep) []"
  define plan where "plan = List.map_filter (\<lambda>(pl, n). map_option (request_of n) (hm_get ?firsts pl)) needs"
  define M1' where "M1' = ot_during E plan M1"
  show ?thesis
  proof (cases "resolve_all (ot_run E) (build_manifest (providers rep)) plan")
    case (Inl err)
    show ?thesis
    proof (rule that)
      show "resolve_union E rep M = Some (fold (\<lambda>(pl, n). hm_insert pl (Inl \<lparr>rx_full = ot_chain E err, rx_public = ot_top E err\<rparr>)) needs out1,
          drop_guards (fail_guards gs (ot_chain E err)) M1')"
        using assms False Inl by (simp add: resolve_union_def Let_def plan_def M1'_def)
      show "needs = [] \<and> drop_guards (fail_guards gs (ot_chain E err)) M1' = M1 \<or> (\<exists>plan gs' M2.
          map gd_key gs' = map gd_key gs \<and> me_flight M2 = me_flight (ot_during E plan M1)
          \<and> drop_guards (fail_guards gs (ot_chain E err)) M1' = drop_guards gs' M2)"
        using fail_guards_keys(1) [of gs] unfolding M1'_def by blast
    qed (simp add: fold_fail_keys)
  next
    case (Inr r)
    obtain rs st where r: "r = (rs, st)" by force
    obtain out2 M2 where s: "store_union E ?firsts (by_name rs) needs (out1, M1') = (out2, M2)" by force
    show ?thesis
    proof (rule that)
      show "resolve_union E rep M = Some (out2, drop_guards (map mark_ready gs) M2)"
        using assms False Inr r s by (simp add: resolve_union_def Let_def plan_def M1'_def)
      show "dom (hm_get out2) = dom (hm_get out1) \<union> fst ` set needs"
        using store_union_keys [of E ?firsts "by_name rs" needs out1 M1'] s by simp
      have "me_flight M2 = me_flight M1'"
        using store_union_flight [of E ?firsts "by_name rs" needs out1 M1'] s by simp
      then show "needs = [] \<and> drop_guards (map mark_ready gs) M2 = M1 \<or> (\<exists>plan gs' M2'. map gd_key gs' = map gd_key gs
         \<and> me_flight M2' = me_flight (ot_during E plan M1) \<and> drop_guards (map mark_ready gs) M2 = drop_guards gs' M2')"
        using fail_guards_keys(2) [of gs] unfolding M1'_def by blast
    qed
  qed
qed

lemma union_keys:
  assumes "resolve_union E rep M = Some (out, M')"
  shows "dom (hm_get out) = ask_pair ` set (secrets rep)"
proof -
  obtain out1 needs gs M1 where g: "gather_union E (map fst (first_asks (secrets rep) [])) ([], [], []) M
      = Some ((out1, needs, gs), M1)"
    using assms by (auto simp: resolve_union_def Let_def split: option.splits)
  obtain out2 M2 where "resolve_union E rep M = Some (out2, M2)" "dom (hm_get out2) = dom (hm_get out1) \<union> fst ` set needs"
    using resolve_union_tail [OF g] by metis
  then show ?thesis using assms gather_union_keys [OF g] firsts_pairs [of "secrets rep"] by simp
qed

lemma pair_key_inj: "pair_key a = pair_key b \<longleftrightarrow> a = b"
  by (cases a; cases b) (auto simp: pair_key_def cache_key_def)

lemma gather_union_free:
  "distinct pls \<Longrightarrow> \<forall>pl \<in> set pls. hm_get (if_inner (me_flight M)) (pair_key pl) = None \<Longrightarrow>
   \<exists>out' needs' gs' f. gather_union E pls (out, needs, gs) M = Some ((out', needs', gs @ gs'), M\<lparr>me_flight := f\<rparr>)
     \<and> if_inner f = if_inner (me_flight M) @ map guard_entry gs' \<and> gd_key ` set gs' \<subseteq> pair_key ` set pls
     \<and> length needs' = length needs + length gs'"
proof (induction pls arbitrary: out needs gs M)
  case Nil
  have "M = M\<lparr>me_flight := me_flight M\<rparr>" by simp
  then show ?case by (intro exI [of _ out] exI [of _ needs] exI [of _ "[]"] exI [of _ "me_flight M"]) simp
next
  case (Cons pl pls)
  show ?case
  proof (cases "cache_get E (pair_key pl) M")
    case (Some v)
    have "\<forall>q \<in> set pls. hm_get (if_inner (me_flight M)) (pair_key q) = None" "distinct pls" using Cons.prems by auto
    from Cons.IH [OF this(2,1), of "hm_insert pl (Inr v) out" needs gs]
    obtain out' needs' gs' f where
      "gather_union E pls (hm_insert pl (Inr v) out, needs, gs) M = Some ((out', needs', gs @ gs'), M\<lparr>me_flight := f\<rparr>)"
      "if_inner f = if_inner (me_flight M) @ map guard_entry gs'" "gd_key ` set gs' \<subseteq> pair_key ` set pls"
      "length needs' = length needs + length gs'" by blast
    then show ?thesis using Some
      by (intro exI [of _ out'] exI [of _ needs'] exI [of _ gs'] exI [of _ f]) auto
  next
    case None
    let ?f = "me_flight M" and ?g = "own_guard (length (if_slots (me_flight M))) (pair_key pl)"
    let ?needs = "needs @ [(pl, ''secreq_req_'' @ show_nat (length needs))]"
    define M1 where "M1 = M\<lparr>me_flight := \<lparr>if_inner = if_inner ?f @ [(pair_key pl, length (if_slots ?f))],
      if_slots = if_slots ?f @ [Pending]\<rparr>\<rparr>"
    have "\<forall>q \<in> set pls. hm_get (if_inner (me_flight M1)) (pair_key q) = None" "distinct pls"
      using Cons.prems by (auto simp: M1_def map_add_def pair_key_inj)
    from Cons.IH [OF this(2,1), of out ?needs "gs @ [?g]"]
    obtain out' needs' gs' f where
      "gather_union E pls (out, ?needs, gs @ [?g]) M1 = Some ((out', needs', (gs @ [?g]) @ gs'), M1\<lparr>me_flight := f\<rparr>)"
      "if_inner f = if_inner (me_flight M1) @ map guard_entry gs'" "gd_key ` set gs' \<subseteq> pair_key ` set pls"
      "length needs' = length ?needs + length gs'" by blast
    then show ?thesis using None acquire_free [of M "pair_key pl" E] Cons.prems
      by (intro exI [of _ out'] exI [of _ needs'] exI [of _ "?g # gs'"] exI [of _ f])
        (auto simp: M1_def own_guard_def guard_entry_def)
  qed
qed

lemma union_returns:
  assumes "quiet E" "\<forall>s \<in> set (secrets rep). hm_get (if_inner (me_flight M)) (ask_key s) = None"
  shows "\<exists>out M'. resolve_union E rep M = Some (out, M') \<and> if_inner (me_flight M') = if_inner (me_flight M)"
proof -
  let ?pls = "map fst (first_asks (secrets rep) [])"
  have pls_free: "\<forall>pl \<in> set ?pls. hm_get (if_inner (me_flight M)) (pair_key pl) = None"
    unfolding conjunct1 [OF firsts_pairs] using assms(2) by (auto simp: ask_pair_def pair_key_def ask_key_def)
  from gather_union_free [OF conjunct2 [OF firsts_pairs] pls_free, where out = "[]" and needs = "[]" and gs = "[]" and E = E]
  obtain out1 needs gs f where g: "gather_union E ?pls ([], [], []) M = Some ((out1, needs, gs), M\<lparr>me_flight := f\<rparr>)"
    and inner: "if_inner f = if_inner (me_flight M) @ map guard_entry gs" "gd_key ` set gs \<subseteq> pair_key ` set ?pls"
    and len: "length needs = length gs" by auto
  have free: "\<forall>k \<in> set (map gd_key gs). hm_get (if_inner (me_flight M)) k = None"
  proof
    fix k assume "k \<in> set (map gd_key gs)"
    then obtain pl where "pl \<in> set ?pls" "k = pair_key pl" using inner(2) by force
    then show "hm_get (if_inner (me_flight M)) k = None" using bspec [OF pls_free] by metis
  qed
  show ?thesis
  proof (rule resolve_union_tail [OF g])
    fix out M' assume r: "resolve_union E rep M = Some (out, M')"
      and t: "needs = [] \<and> M' = M\<lparr>me_flight := f\<rparr> \<or> (\<exists>plan gs' M2. map gd_key gs' = map gd_key gs
         \<and> me_flight M2 = me_flight (ot_during E plan (M\<lparr>me_flight := f\<rparr>)) \<and> M' = drop_guards gs' M2)"
    from t have "if_inner (me_flight M') = if_inner (me_flight M)"
    proof
      assume "needs = [] \<and> M' = M\<lparr>me_flight := f\<rparr>"
      then show ?thesis using len inner(1) by simp
    next
      assume "\<exists>plan gs' M2. map gd_key gs' = map gd_key gs
         \<and> me_flight M2 = me_flight (ot_during E plan (M\<lparr>me_flight := f\<rparr>)) \<and> M' = drop_guards gs' M2"
      then obtain gs' M2 where "map gd_key gs' = map gd_key gs" "me_flight M2 = f" "M' = drop_guards gs' M2"
        using assms(1) by (auto simp: quiet_def)
      then show ?thesis using drop_guards_restore [OF _ _ free] inner(1) by simp
    qed
    with r show ?thesis by blast
  qed
qed

section \<open>A reference whose provider is not known\<close>

lemma gather_union_needs:
  "distinct pls \<Longrightarrow> \<forall>pl \<in> set pls. hm_get (if_inner (me_flight M)) (pair_key pl) = None \<Longrightarrow>
   gather_union E pls (out, needs, gs) M = Some ((out', needs', gs'), M') \<Longrightarrow>
   map fst needs' = map fst needs @ filter (\<lambda>pl. cache_get E (pair_key pl) M = None) pls"
proof (induction pls arbitrary: out needs gs M)
  case (Cons pl pls)
  show ?case
  proof (cases "cache_get E (pair_key pl) M")
    case (Some v)
    then have "gather_union E pls (hm_insert pl (Inr v) out, needs, gs) M = Some ((out', needs', gs'), M')"
      using Cons.prems(3) by simp
    from Cons.IH [OF _ _ this] show ?thesis using Cons.prems(1,2) Some by simp
  next
    case None
    let ?f = "me_flight M"
    define M1 where "M1 = M\<lparr>me_flight := \<lparr>if_inner = if_inner ?f @ [(pair_key pl, length (if_slots ?f))],
      if_slots = if_slots ?f @ [Pending]\<rparr>\<rparr>"
    have free: "\<forall>q \<in> set pls. hm_get (if_inner (me_flight M1)) (pair_key q) = None"
      using Cons.prems(1,2) by (auto simp: M1_def map_add_def pair_key_inj)
    have "gather_union E pls (out, needs @ [(pl, ''secreq_req_'' @ show_nat (length needs))],
        gs @ [own_guard (length (if_slots ?f)) (pair_key pl)]) M1 = Some ((out', needs', gs'), M')"
      using Cons.prems(2,3) None acquire_free [of M "pair_key pl" E] by (simp add: M1_def)
    from Cons.IH [OF _ free this] show ?thesis using Cons.prems(1) None by (simp add: M1_def)
  qed
qed simp

lemma resolve_groups_unknown:
  "(p, rs) \<in> set groups \<Longrightarrow> map_of (mf_providers mf) p = None \<Longrightarrow> \<exists>e. resolve_groups run mf groups acc = Inl e"
proof (induction groups arbitrary: acc)
  case (Cons g groups)
  obtain p' rs' where "g = (p', rs')" by (cases g)
  then show ?case using Cons by (auto split: option.split sum.split)
qed simp

lemma resolve_all_unknown:
  assumes "r \<in> set plan" "map_of (mf_providers mf) (sr_provider r) = None"
  shows "\<exists>e. resolve_all run mf plan = Inl e"
proof -
  have "(sr_provider r, filter (\<lambda>q. sr_provider q = sr_provider r) plan) \<in> set (by_provider plan)"
    using assms(1) by (auto simp: by_provider_entry filter_empty_conv)
  from resolve_groups_unknown [OF this assms(2), of run "([], \<lparr>st_batched = 0, st_per_secret = 0\<rparr>)"]
  show ?thesis by (auto simp: resolve_all_def)
qed

lemma build_manifest_get: "map_of (mf_providers (build_manifest ps)) p = None \<longleftrightarrow> p \<notin> fst ` set ps"
proof -
  have "bt_wf m \<Longrightarrow> map_of (fold (\<lambda>(n, wp). bt_insert n (provider_of_wire wp)) ps m) p = None
     \<longleftrightarrow> map_of m p = None \<and> p \<notin> fst ` set ps" for m
  proof (induction ps arbitrary: m)
    case (Cons q ps)
    obtain n wp where "q = (n, wp)" by (cases q)
    then show ?case using Cons by (auto simp: tree_map.wf_put tree_map.get_put)
  qed simp
  from this [of "[]"] show ?thesis by (simp add: build_manifest_def)
qed

lemma fold_fail_keep:
  "hm_get out pl = Some x \<Longrightarrow> hm_get (fold (\<lambda>(pl, n). hm_insert pl x) needs out) pl = Some x"
  by (induction needs arbitrary: out) auto

lemma fold_fail_get:
  "pl \<in> fst ` set needs \<Longrightarrow> hm_get (fold (\<lambda>(pl, n). hm_insert pl x) needs out) pl = Some x"
proof (induction needs arbitrary: out)
  case (Cons y needs)
  obtain q n where y: "y = (q, n)" by (cases y)
  show ?case
  proof (cases "q = pl")
    case True
    have "hm_get (hm_insert pl x out) pl = Some x" by simp
    from fold_fail_keep [OF this, of needs] show ?thesis using y True by simp
  next
    case False
    then show ?thesis using Cons y by simp
  qed
qed simp

lemma first_asks_keeps:
  "\<forall>kv \<in> set acc. P kv \<Longrightarrow> \<forall>s \<in> set ss. P (ask_pair s, s) \<Longrightarrow> \<forall>kv \<in> set (first_asks ss acc). P kv"
proof (induction ss arbitrary: acc)
  case (Cons s ss)
  show ?case
  proof (cases "hm_get acc (ask_pair s)")
    case None
    have "\<forall>kv \<in> set (acc @ [(ask_pair s, s)]). P kv" using Cons.prems by simp
    from Cons.IH [OF this] show ?thesis using None Cons.prems(2) by simp
  next
    case (Some t)
    then show ?thesis using Cons.IH [OF Cons.prems(1)] Cons.prems(2) by simp
  qed
qed simp

lemma first_asks_get: "hm_get (first_asks ss []) pl = Some s \<Longrightarrow> s \<in> set ss \<and> ask_pair s = pl"
  using first_asks_keeps [of "[]" "\<lambda>(k, v). v \<in> set ss \<and> ask_pair v = k" ss] by (auto dest!: map_of_SomeD)

lemma unknown_provider_fails_all:
  assumes "quiet E" "\<forall>s \<in> set (secrets rep). hm_get (if_inner (me_flight M)) (ask_key s) = None"
    and s: "s \<in> set (secrets rep)" "cache_get E (ask_key s) M = None" "sk_provider s \<notin> fst ` set (providers rep)"
  shows "\<exists>out M' f. resolve_union E rep M = Some (out, M')
    \<and> (\<forall>t \<in> set (secrets rep). cache_get E (ask_key t) M = None \<longrightarrow> hm_get out (ask_pair t) = Some (Inl f))"
proof -
  let ?firsts = "first_asks (secrets rep) []" and ?pls = "map fst (first_asks (secrets rep) [])"
  have key: "ask_key t = pair_key (ask_pair t)" for t by (simp add: ask_key_def pair_key_def ask_pair_def)
  have pls_free: "\<forall>pl \<in> set ?pls. hm_get (if_inner (me_flight M)) (pair_key pl) = None"
    unfolding conjunct1 [OF firsts_pairs] using assms(2) by (auto simp: key)
  from gather_union_free [OF conjunct2 [OF firsts_pairs] pls_free, where out = "[]" and needs = "[]" and gs = "[]" and E = E]
  obtain out1 needs gs f where g: "gather_union E ?pls ([], [], []) M = Some ((out1, needs, gs), M\<lparr>me_flight := f\<rparr>)" by auto
  have needs: "map fst needs = filter (\<lambda>pl. cache_get E (pair_key pl) M = None) ?pls"
    using gather_union_needs [OF conjunct2 [OF firsts_pairs] pls_free g] by simp
  have cold: "ask_pair t \<in> fst ` set needs" if "t \<in> set (secrets rep)" "cache_get E (ask_key t) M = None" for t
  proof -
    have "ask_pair t \<in> set ?pls" using that(1) conjunct1 [OF firsts_pairs] by blast
    then have "ask_pair t \<in> set (map fst needs)" unfolding needs using that(2) by (simp add: key)
    then show ?thesis by simp
  qed
  define plan where "plan = List.map_filter (\<lambda>(pl, n). map_option (request_of n) (hm_get ?firsts pl)) needs"
  obtain pl n where pl: "(pl, n) \<in> set needs" "pl = ask_pair s" using cold [OF s(1,2)] by force
  have "hm_get ?firsts pl \<noteq> None" using pl(2) s(1) conjunct1 [OF firsts_pairs]
    by (metis image_eqI list.set_map map_of_eq_None_iff)
  then obtain t where t: "hm_get ?firsts pl = Some t" by blast
  then have "request_of n t \<in> set plan" using pl(1) unfolding plan_def by (force simp: List.map_filter_def)
  moreover have "sr_provider (request_of n t) = sk_provider s"
    using first_asks_get [OF t] pl(2) by (simp add: request_of_def ask_pair_def)
  ultimately obtain err where err: "resolve_all (ot_run E) (build_manifest (providers rep)) plan = Inl err"
    using resolve_all_unknown build_manifest_get s(3) by metis
  have "needs \<noteq> []" using pl(1) by auto
  then have "resolve_union E rep M = Some (fold (\<lambda>(pl, n). hm_insert pl (Inl \<lparr>rx_full = ot_chain E err, rx_public = ot_top E err\<rparr>)) needs out1,
      drop_guards (fail_guards gs (ot_chain E err)) (ot_during E plan (M\<lparr>me_flight := f\<rparr>)))"
    using g err by (simp add: resolve_union_def Let_def plan_def)
  moreover have "hm_get (fold (\<lambda>(pl, n). hm_insert pl (Inl \<lparr>rx_full = ot_chain E err, rx_public = ot_top E err\<rparr>)) needs out1) (ask_pair t)
      = Some (Inl \<lparr>rx_full = ot_chain E err, rx_public = ot_top E err\<rparr>)"
    if "t \<in> set (secrets rep)" "cache_get E (ask_key t) M = None" for t
    by (rule fold_fail_get [OF cold [OF that]])
  ultimately show ?thesis by blast
qed

section \<open>Properties\<close>

lemma gather_cached:
  "list_all (\<lambda>s. cache_get E (ask_key s) M \<noteq> None) ss \<Longrightarrow>
   gather E ss (secs, needs, gs) M = Some (Inr (hits E M ss secs, needs, gs), M)"
  by (induction ss arbitrary: secs) (auto simp: hits_def)

text \<open>
  An ask whose values are all cached runs no provider, waits on nobody and changes nothing:
  it is approved with the cached values.
\<close>

theorem fully_cached_asks_run_nothing:
  assumes "ask_fully_cached E ask M"
  shows "resolve_for_ask E ask M = Some (Decided Approve (hits E M (secrets ask) []) None None, M)"
  using assms gather_cached by (simp add: resolve_for_ask_def ask_fully_cached_def)

text \<open>
  An ask for distinct cold references that nobody else is resolving always returns and
  releases every slot it took, on success and on error; on success each of its variables has the
  value cached for its own reference, or else what the provider answered for that reference, or
  its own default.
\<close>

theorem lone_ask_is_served:
  assumes "quiet E" "unclaimed E M (map ask_key (secrets ask))" "distinct (map sk_name (secrets ask))"
  shows "\<exists>reply M'. resolve_for_ask E ask M = Some (reply, M') \<and> if_inner (me_flight M') = if_inner (me_flight M)
    \<and> (case reply of ReplyErr m p \<Rightarrow> True | Decided d secs dev why \<Rightarrow> \<forall>s \<in> set (secrets ask).
        \<exists>v. hm_get secs (sk_name s) = Some v \<and> (case cache_get E (ask_key s) M of
          Some c \<Rightarrow> v = c
        | None \<Rightarrow> own_outcome (ot_run E) (build_manifest (providers ask)) (ask_plan E M ask)
              (request_of (sk_name s) s) (Found v) \<or> sk_default s = Some v))"
proof -
  obtain M' where "resolve_for_ask E ask M = Some (lone_reply E M ask, M')"
    "if_inner (me_flight M') = if_inner (me_flight M)" using resolve_for_ask_lone assms(1,2) by blast
  moreover have "case lone_reply E M ask of ReplyErr m p \<Rightarrow> True | Decided d secs dev why \<Rightarrow> \<forall>s \<in> set (secrets ask).
        \<exists>v. hm_get secs (sk_name s) = Some v \<and> (case cache_get E (ask_key s) M of
          Some c \<Rightarrow> v = c
        | None \<Rightarrow> own_outcome (ot_run E) (build_manifest (providers ask)) (ask_plan E M ask)
              (request_of (sk_name s) s) (Found v) \<or> sk_default s = Some v)"
  proof (cases "lone_reply E M ask")
    case (Decided d secs dev why)
    then show ?thesis using lone_values [OF Decided assms(3)] by (simp only: WaiterReply.simps) blast
  qed simp
  ultimately show ?thesis by blast
qed

text \<open>
  The union resolution answers for every distinct reference of its card and for nothing
  else, whatever the other threads and the provider do.
\<close>

theorem union_answers_every_pair:
  assumes "resolve_union E rep M = Some (out, M')"
  shows "dom (hm_get out) = ask_pair ` set (secrets rep)"
  using assms by (rule union_keys)

text \<open>
  The union resolution takes each slot once, so with nobody else resolving its references it
  returns, and every slot it took is released, even when one reference is named twice.
\<close>

theorem union_resolution_returns:
  assumes "quiet E" "\<forall>s \<in> set (secrets rep). hm_get (if_inner (me_flight M)) (ask_key s) = None"
  shows "\<exists>out M'. resolve_union E rep M = Some (out, M') \<and> if_inner (me_flight M') = if_inner (me_flight M)"
  using assms by (rule union_returns)

text \<open>
  A waiter woken by a success whose value has already expired (a lifetime of zero seconds,
  say) is refused instead of running the provider again.
\<close>

theorem expired_before_wake_is_an_error:
  assumes "secrets ask = s # ss" "cache_get E (ask_key s) M = None"
    and "hm_get (if_inner (me_flight M)) (ask_key s) = Some slot" "ot_wait E slot M = Some M'"
    and "if_slots (me_flight M') ! slot = Ready"
    and "map_of (sc_entries (me_cache M')) (ask_key s) = Some e" "en_ttl e = Secs 0"
  shows "resolve_for_ask E ask M = Some (ReplyErr (ready_but_empty (ask_key s)) (ready_but_empty (ask_key s)), M')"
proof -
  have "acquire_blocking E (ask_key s) M = Some (AcquiredReady, M')"
    using assms(3-5) by (simp add: acquire_blocking_def acquire_enter_def slot_wait_def)
  moreover have "cache_get E (ask_key s) M' = None"
    using assms(6,7) by (simp add: cache_get_def get_at_def expired_at_def)
  ultimately show ?thesis using assms(1,2)
    by (simp add: resolve_for_ask_def drop_guards_def fail_guards_def)
qed

section \<open>Witnesses\<close>

definition sample_secret :: "string \<Rightarrow> string \<Rightarrow> SecretAsk" where
  "sample_secret n l = \<lparr>sk_name = n, sk_provider = ''op'', sk_locator = l, sk_default = None,
     sk_description = None, sk_reason = None, sk_requested_by = [], sk_declared_as = None, sk_ttl = Secs 0\<rparr>"

definition sample_ask :: "SecretAsk list \<Rightarrow> Ask" where
  "sample_ask ss = \<lparr>ask_command = [''gh''], ask_dedupe_key = \<lparr>dk_wrap = ''gh'',
     dk_anchor = ProcessAnchor \<lparr>pi_pid = 7, pi_start_time = 1\<rparr>, dk_subject_digest = None\<rparr>,
     ask_subject = Wrap \<lparr>ws_cwd = ''/'', ws_callers = [], ws_callers_truncated = False, ws_secrets = ss,
       ws_providers = [(''op'', \<lparr>wp_name = ''op'', wp_retrieve = [''get'', ''{locator}''], wp_retrieve_batch = None\<rparr>)],
       ws_allow_remember = True, ws_nested_run = False, ws_ignore_remembered = False\<rparr>\<rparr>"

lemma secrets_sample [simp]: "secrets (sample_ask ss) = ss"
  by (simp add: sample_ask_def secrets_def)

text \<open>Waiting on a slot ends with the other thread publishing a value that is not kept.\<close>

definition sample_outside :: outside where
  "sample_outside = \<lparr>ot_crypto = plain_crypto, ot_nonce = (\<lambda>_. ''n''), ot_run = echo_run,
     ot_wait = (\<lambda>slot M. Some (M\<lparr>me_cache := put_at plain_crypto (cache_key ''op'' ''a'') ''v'' (Secs 0) 5 ''n'' (me_cache M),
        me_flight := \<lparr>if_inner = [], if_slots = [Ready]\<rparr>\<rparr>)),
     ot_during = (\<lambda>plan M. M), ot_chain = (\<lambda>_. ''chain''), ot_top = (\<lambda>_. ''top'')\<rparr>"

definition cold_memory :: memory where
  "cold_memory = \<lparr>me_cache = new_cache [], me_flight = new_in_flight, me_now = 5, me_draws = 0\<rparr>"

definition warm_memory :: memory where
  "warm_memory = cold_memory\<lparr>me_cache := put_at plain_crypto (cache_key ''op'' ''a'') ''v'' DaemonLifetime 5 ''n'' (new_cache [])\<rparr>"

lemmas sample_defs = sample_outside_def cold_memory_def warm_memory_def sample_secret_def cache_get_def ask_key_def
  cache_key_def get_at_def put_at_def new_cache_def new_in_flight_def plain_crypto_def derive_key_def expired_at_def

lemma quiet_sample: "quiet sample_outside"
  by (simp add: quiet_def sample_outside_def)

theorem fully_cached_asks_run_nothing_witness:
  "resolve_for_ask sample_outside (sample_ask [sample_secret ''A'' ''a'']) warm_memory
     = Some (Decided Approve [(''A'', ''v'')] None None, warm_memory)"
proof -
  have "cache_get sample_outside (ask_key (sample_secret ''A'' ''a'')) warm_memory = Some ''v''"
    by (simp add: sample_defs)
  then show ?thesis
    using fully_cached_asks_run_nothing [of sample_outside "sample_ask [sample_secret ''A'' ''a'']" warm_memory]
    by (simp add: ask_fully_cached_def hits_def) (simp add: sample_secret_def)
qed

theorem lone_ask_is_served_witness:
  "\<exists>reply M'. resolve_for_ask sample_outside (sample_ask [sample_secret ''A'' ''a'', sample_secret ''B'' ''b'']) cold_memory
     = Some (reply, M') \<and> if_inner (me_flight M') = []"
proof -
  have "unclaimed sample_outside cold_memory (map ask_key [sample_secret ''A'' ''a'', sample_secret ''B'' ''b''])"
    by (simp add: unclaimed_def sample_defs)
  then show ?thesis
    using lone_ask_is_served [OF quiet_sample, of cold_memory "sample_ask [sample_secret ''A'' ''a'', sample_secret ''B'' ''b'']"]
    by (auto simp: sample_secret_def cold_memory_def new_in_flight_def)
qed

theorem union_answers_every_pair_witness:
  "\<exists>out M'. resolve_union sample_outside (sample_ask [sample_secret ''A'' ''a'']) cold_memory = Some (out, M')
     \<and> dom (hm_get out) = {(''op'', ''a'')}"
proof -
  have "\<forall>s \<in> set (secrets (sample_ask [sample_secret ''A'' ''a''])). hm_get (if_inner (me_flight cold_memory)) (ask_key s) = None"
    by (simp add: cold_memory_def new_in_flight_def)
  from union_returns [OF quiet_sample this] obtain out M'
    where "resolve_union sample_outside (sample_ask [sample_secret ''A'' ''a'']) cold_memory = Some (out, M')" by blast
  with union_answers_every_pair [OF this] show ?thesis by (simp add: ask_pair_def) (simp add: sample_secret_def)
qed

theorem union_resolution_returns_witness:
  "\<exists>out M'. resolve_union sample_outside (sample_ask [sample_secret ''A'' ''a'', sample_secret ''B'' ''a'']) cold_memory
     = Some (out, M') \<and> if_inner (me_flight M') = if_inner (me_flight cold_memory)"
  by (rule union_resolution_returns [OF quiet_sample]) (simp add: cold_memory_def new_in_flight_def)

theorem expired_before_wake_is_an_error_witness:
  "\<exists>M'. resolve_for_ask sample_outside (sample_ask [sample_secret ''A'' ''a''])
     (cold_memory\<lparr>me_flight := \<lparr>if_inner = [(cache_key ''op'' ''a'', 0)], if_slots = [Pending]\<rparr>\<rparr>)
     = Some (ReplyErr (ready_but_empty (ask_key (sample_secret ''A'' ''a''))) (ready_but_empty (ask_key (sample_secret ''A'' ''a''))), M')"
  by (rule exI, rule expired_before_wake_is_an_error [where slot = 0 and ss = "[]" and
        e = "\<lparr>en_ciphertext = ''nv'', en_nonce = ''n'', en_stored_at = 5, en_ttl = Secs 0\<rparr>"])
    (simp add: sample_defs)+

end
