(* ===== verification/Link_Projection.thy ===== *)
theory Link_Projection
  imports Proto Rules Secret_Cache
begin

text \<open>
  \<open>src/packages/secreq/src/link/projection.rs\<close> and \<open>link/canonical.rs\<close>: what of a pending ask is
  shown to a linked device, and the canonical bytes whose hash the device signs. The wire
  snapshot they project is the one of \<open>daemon/proto.rs\<close>. The digest itself (SHA-256) is a
  parameter.
\<close>

section \<open>The desktop snapshot\<close>

datatype RowStatus = Awaiting | RowResolving

record WireQueueRow =
  qr_request_id :: string
  qr_ask_hash_hex :: string
  qr_key :: DedupeKey
  qr_representative :: Ask
  qr_waiter_count :: nat
  qr_first_seen_secs_ago :: nat
  qr_status :: RowStatus
  qr_resolving_since :: "nat option"

record LinkResolveError =
  le_request_id :: string
  le_message :: string

record WireSnapshot =
  ws_queue :: "WireQueueRow list"
  ws_viewer_mode :: bool
  ws_link_error :: "LinkResolveError option"
  ws_rules :: "Rule list"
  ws_refusals :: RuleRefusals

section \<open>The projection\<close>

record LinkCaller =
  lc_pid :: nat
  lc_name :: string
  lc_command :: string
  lc_exe :: "string option"

record LinkSecretAsk =
  ls_name :: string
  ls_provider :: string
  ls_locator :: string
  ls_description :: "string option"
  ls_reason :: "string option"
  ls_requested_by :: "string list"
  ls_declared_as :: "string option"

record LinkWrapSubject =
  lw_wrap :: string
  lw_cwd :: string
  lw_callers :: "LinkCaller list"
  lw_callers_truncated :: bool
  lw_secrets :: "LinkSecretAsk list"
  lw_allow_remember :: bool

record LinkSshAnchorInfo =
  lx_name :: string
  lx_pid :: nat
  lx_kind :: SignAnchorKind
  lx_command :: "string option"

record LinkSshAskInfo =
  li_key_id :: string
  li_fingerprint :: string
  li_reason :: "string option"
  li_anchor :: "LinkSshAnchorInfo option"

record LinkSshSubject =
  lh_wrap :: string
  lh_cwd :: string
  lh_callers :: "LinkCaller list"
  lh_callers_truncated :: bool
  lh_info :: LinkSshAskInfo

record LinkLocalPeer =
  ll_pid :: nat
  ll_name :: string
  ll_exe :: "string option"

record LinkAgentAskInfo =
  lg_scope :: string
  lg_reference :: string
  lg_guest_chain :: "string option"
  lg_declared_by :: "LinkLocalPeer option"

datatype LinkAskSubject =
    LinkWrap LinkWrapSubject
  | LinkSshSign LinkSshSubject
  | LinkScopedAgent LinkAgentAskInfo

record LinkAsk =
  la_command :: "string list"
  la_subject :: LinkAskSubject

record LinkQueueRow =
  lq_request_id :: string
  lq_ask_hash_hex :: string
  lq_representative :: LinkAsk
  lq_status :: RowStatus
  lq_resolving_since :: "nat option"

record LinkError =
  lerr_message :: string

record LinkSnapshot =
  lk_queue :: "LinkQueueRow list"
  lk_link_error :: "LinkError option"

datatype LinkEvent = LinkSnap LinkSnapshot | LinkExitPlease

definition link_caller :: "WireCaller \<Rightarrow> LinkCaller" where
  "link_caller c = \<lparr>lc_pid = wc_pid c, lc_name = wc_name c, lc_command = wc_command c, lc_exe = wc_exe c\<rparr>"

definition link_secret :: "SecretAsk \<Rightarrow> LinkSecretAsk" where
  "link_secret s = \<lparr>ls_name = sk_name s, ls_provider = sk_provider s, ls_locator = sk_locator s,
     ls_description = sk_description s, ls_reason = sk_reason s, ls_requested_by = sk_requested_by s,
     ls_declared_as = sk_declared_as s\<rparr>"

definition link_anchor :: "SshAnchorInfo \<Rightarrow> LinkSshAnchorInfo" where
  "link_anchor a = \<lparr>lx_name = si_name a, lx_pid = si_pid a, lx_kind = si_kind a, lx_command = si_command a\<rparr>"

definition link_ask :: "Ask \<Rightarrow> LinkAsk" where
  "link_ask ask = \<lparr>la_command = ask_command ask, la_subject = (case ask_subject ask of
      Wrap w \<Rightarrow> LinkWrap \<lparr>lw_wrap = dk_wrap (ask_dedupe_key ask), lw_cwd = ws_cwd w,
        lw_callers = map link_caller (ws_callers w), lw_callers_truncated = ws_callers_truncated w,
        lw_secrets = map link_secret (ws_secrets w), lw_allow_remember = ws_allow_remember w\<rparr>
    | SshSign s \<Rightarrow> LinkSshSign \<lparr>lh_wrap = dk_wrap (ask_dedupe_key ask), lh_cwd = ss_cwd s,
        lh_callers = map link_caller (ss_callers s), lh_callers_truncated = ss_callers_truncated s,
        lh_info = \<lparr>li_key_id = sh_key_id (ss_info s), li_fingerprint = sh_fingerprint (ss_info s),
          li_reason = sh_reason (ss_info s), li_anchor = map_option link_anchor (sh_anchor (ss_info s))\<rparr>\<rparr>
    | ScopedAgent g \<Rightarrow> LinkScopedAgent \<lparr>lg_scope = ai_scope g, lg_reference = ai_reference g,
        lg_guest_chain = ai_guest_chain g, lg_declared_by = map_option (\<lambda>p. \<lparr>ll_pid = lp_pid p,
          ll_name = lp_name p, ll_exe = lp_exe p\<rparr>) (ai_declared_by g)\<rparr>)\<rparr>"

definition link_row :: "WireQueueRow \<Rightarrow> LinkQueueRow" where
  "link_row r = \<lparr>lq_request_id = qr_request_id r, lq_ask_hash_hex = qr_ask_hash_hex r,
     lq_representative = link_ask (qr_representative r), lq_status = qr_status r,
     lq_resolving_since = qr_resolving_since r\<rparr>"

definition link_snapshot :: "WireSnapshot \<Rightarrow> LinkSnapshot" where
  "link_snapshot s = \<lparr>lk_queue = map link_row (ws_queue s), lk_link_error = map_option (\<lambda>e. \<lparr>lerr_message = le_message e\<rparr>) (ws_link_error s)\<rparr>"

section \<open>The canonical form\<close>

text \<open>
  The writer's calls, as the list of the parts they write; a part is its length on four bytes
  and its bytes. A part longer than 32 bits can say stops the program (\<open>None\<close>).
\<close>

definition w_field :: "string \<Rightarrow> string \<Rightarrow> string list" where
  "w_field n v = [n, v]"

definition w_number :: "string \<Rightarrow> nat \<Rightarrow> string list" where
  "w_number n v = w_field n (show_nat v)"

definition w_bool :: "string \<Rightarrow> bool \<Rightarrow> string list" where
  "w_bool n v = w_field n (if v then ''true'' else ''false'')"

definition w_option :: "string \<Rightarrow> string option \<Rightarrow> string list" where
  "w_option n v = n # (case v of Some x \<Rightarrow> [''some'', x] | None \<Rightarrow> [''none''])"

definition w_count :: "string \<Rightarrow> nat \<Rightarrow> string list" where
  "w_count n c = w_number n c"

definition w_strings :: "string \<Rightarrow> string list \<Rightarrow> string list" where
  "w_strings n vs = w_count n (length vs) @ concat (map (\<lambda>v. [v]) vs)"

definition w_caller :: "LinkCaller \<Rightarrow> string list" where
  "w_caller c = w_number ''caller_pid'' (lc_pid c) @ w_field ''caller_name'' (lc_name c)
     @ w_field ''caller_command'' (lc_command c) @ w_option ''caller_exe'' (lc_exe c)"

definition w_callers :: "LinkCaller list \<Rightarrow> string list" where
  "w_callers cs = w_count ''callers'' (length cs) @ concat (map w_caller cs)"

definition w_secret :: "LinkSecretAsk \<Rightarrow> string list" where
  "w_secret s = w_field ''secret_name'' (ls_name s) @ w_field ''secret_provider'' (ls_provider s)
     @ w_field ''secret_locator'' (ls_locator s) @ w_option ''secret_description'' (ls_description s)
     @ w_option ''secret_reason'' (ls_reason s) @ w_strings ''secret_requested_by'' (ls_requested_by s)
     @ w_option ''secret_declared_as'' (ls_declared_as s)"

definition anchor_kind_str :: "SignAnchorKind \<Rightarrow> string" where
  "anchor_kind_str k = (case k of Session \<Rightarrow> ''session'' | ForwardedSsh \<Rightarrow> ''forwarded_ssh'')"

definition w_anchor :: "LinkSshAnchorInfo option \<Rightarrow> string list" where
  "w_anchor a = (case a of
      Some x \<Rightarrow> ''anchor_some'' # w_field ''anchor_name'' (lx_name x) @ w_number ''anchor_pid'' (lx_pid x)
        @ w_field ''anchor_kind'' (anchor_kind_str (lx_kind x)) @ w_option ''anchor_command'' (lx_command x)
    | None \<Rightarrow> [''anchor_none''])"

definition w_peer :: "LinkLocalPeer option \<Rightarrow> string list" where
  "w_peer p = (case p of
      Some x \<Rightarrow> ''declared_by_some'' # w_number ''declared_by_pid'' (ll_pid x)
        @ w_field ''declared_by_name'' (ll_name x) @ w_option ''declared_by_exe'' (ll_exe x)
    | None \<Rightarrow> [''declared_by_none''])"

definition w_subject :: "LinkAskSubject \<Rightarrow> string list" where
  "w_subject subj = (case subj of
      LinkWrap w \<Rightarrow> ''wrap'' # w_field ''wrap'' (lw_wrap w) @ w_field ''cwd'' (lw_cwd w)
        @ w_bool ''callers_truncated'' (lw_callers_truncated w) @ w_callers (lw_callers w)
        @ w_count ''secrets'' (length (lw_secrets w)) @ concat (map w_secret (lw_secrets w))
        @ w_bool ''allow_remember'' (lw_allow_remember w)
    | LinkSshSign s \<Rightarrow> ''ssh_sign'' # w_field ''wrap'' (lh_wrap s) @ w_field ''cwd'' (lh_cwd s)
        @ w_bool ''callers_truncated'' (lh_callers_truncated s) @ w_callers (lh_callers s)
        @ w_field ''key_id'' (li_key_id (lh_info s)) @ w_field ''fingerprint'' (li_fingerprint (lh_info s))
        @ w_option ''reason'' (li_reason (lh_info s)) @ w_anchor (li_anchor (lh_info s))
    | LinkScopedAgent g \<Rightarrow> ''scoped_agent'' # w_field ''scope'' (lg_scope g) @ w_field ''reference'' (lg_reference g)
        @ w_option ''guest_chain'' (lg_guest_chain g) @ w_peer (lg_declared_by g))"

definition link_parts :: "LinkAsk \<Rightarrow> string list" where
  "link_parts a = ''secreq-link-ask-v1'' # w_strings ''command'' (la_command a) @ w_subject (la_subject a)"

definition w_part :: "string \<Rightarrow> string" where
  "w_part p = u32_be (length p) @ p"

definition canonical_parts :: "string list \<Rightarrow> string option" where
  "canonical_parts ps = (if list_all (\<lambda>p. length p < 2 ^ 32) ps then Some (concat (map w_part ps)) else None)"

definition canonical_link_bytes :: "LinkAsk \<Rightarrow> string option" where
  "canonical_link_bytes a = canonical_parts (link_parts a)"

definition canonical_bytes :: "Ask \<Rightarrow> string option" where
  "canonical_bytes ask = canonical_link_bytes (link_ask ask)"

definition canonical_hash :: "(string \<Rightarrow> string) \<Rightarrow> Ask \<Rightarrow> string option" where
  "canonical_hash sha256_hex ask = map_option sha256_hex (canonical_bytes ask)"

section \<open>Self-delimiting encodings\<close>

text \<open>
  The contract of every piece of the format: whatever follows it, the piece determines what was
  encoded and where it ends. Sequences keep it once their length is known.
\<close>

locale self_delimiting =
  fixes encode :: "'a \<Rightarrow> 'b list"
  assumes delim: "encode x @ r = encode y @ s \<Longrightarrow> x = y \<and> r = s"
begin

lemma cancel [simp]: "encode x @ r = encode y @ s \<longleftrightarrow> x = y \<and> r = s"
  using delim by blast

lemma inj: "encode x = encode y \<Longrightarrow> x = y"
  using delim [of x "[]" y "[]"] by simp

lemma sequence:
  "length xs = length ys \<Longrightarrow> concat (map encode xs) @ r = concat (map encode ys) @ s \<Longrightarrow> xs = ys \<and> r = s"
proof (induction xs arbitrary: ys)
  case (Cons x xs)
  then obtain y zs where "ys = y # zs" by (cases ys) auto
  then show ?case using Cons by auto
qed simp

end

lemma show_nat_inj [simp]: "show_nat m = show_nat n \<longleftrightarrow> m = n"
  by (metis show_nat_value)

interpretation field: self_delimiting "w_field n" for n
  by unfold_locales (simp add: w_field_def)

interpretation number: self_delimiting "w_number n" for n
  by unfold_locales (simp add: w_number_def w_field_def)

interpretation flag: self_delimiting "w_bool n" for n
  by unfold_locales (auto simp: w_bool_def w_field_def split: if_splits)

interpretation optional: self_delimiting "w_option n" for n
  by unfold_locales (auto simp: w_option_def split: option.splits)

interpretation single: self_delimiting "\<lambda>v. [v]"
  by unfold_locales simp

interpretation texts: self_delimiting "w_strings n" for n
proof unfold_locales
  fix x r y s assume a: "w_strings n x @ r = w_strings n y @ s"
  then have len: "length x = length y" by (simp add: w_strings_def w_count_def)
  have "w_count n (length x) @ concat (map (\<lambda>v. [v]) x) @ r = w_count n (length y) @ concat (map (\<lambda>v. [v]) y) @ s"
    using a by (simp only: w_strings_def append_assoc)
  then have "concat (map (\<lambda>v. [v]) x) @ r = concat (map (\<lambda>v. [v]) y) @ s"
    unfolding w_count_def using number.delim by blast
  then show "x = y \<and> r = s" by (rule single.sequence [OF len])
qed

interpretation caller: self_delimiting w_caller
  by unfold_locales (auto simp: w_caller_def LinkCaller.equality)

interpretation callers: self_delimiting w_callers
proof unfold_locales
  fix x r y s assume a: "w_callers x @ r = w_callers y @ s"
  then have len: "length x = length y" by (simp add: w_callers_def w_count_def)
  have "concat (map w_caller x) @ r = concat (map w_caller y) @ s"
    using a by (simp add: w_callers_def w_count_def)
  then show "x = y \<and> r = s" by (rule caller.sequence [OF len])
qed

interpretation secret: self_delimiting w_secret
  by unfold_locales (auto simp: w_secret_def LinkSecretAsk.equality)

lemma anchor_kind_inj: "anchor_kind_str a = anchor_kind_str b \<longleftrightarrow> a = b"
  by (cases a; cases b) (simp_all add: anchor_kind_str_def)

interpretation anchor: self_delimiting w_anchor
  by unfold_locales (auto simp: w_anchor_def anchor_kind_inj LinkSshAnchorInfo.equality split: option.splits)

interpretation peer: self_delimiting w_peer
  by unfold_locales (auto simp: w_peer_def LinkLocalPeer.equality split: option.splits)

text \<open>The bytes of one part.\<close>

lemma part_delim:
  assumes "length p < 2 ^ 32" "length q < 2 ^ 32" "w_part p @ r = w_part q @ s"
  shows "p = q \<and> r = s"
proof -
  have "u32_be (length p) @ p @ r = u32_be (length q) @ q @ s" using assms(3) by (simp add: w_part_def)
  then have "u32_be (length p) = u32_be (length q)" "p @ r = q @ s" by simp_all
  then show ?thesis using u32_be_inj [OF assms(1,2)] by simp
qed

lemma canonical_parts_inj: "canonical_parts ps = Some bs \<Longrightarrow> canonical_parts qs = Some bs \<Longrightarrow> ps = qs"
proof (induction ps arbitrary: qs bs)
  case Nil
  then show ?case by (cases qs) (auto simp: canonical_parts_def w_part_def u32_be_def split: if_splits)
next
  case (Cons p ps)
  then obtain q qs' where qs: "qs = q # qs'"
    by (cases qs) (auto simp: canonical_parts_def w_part_def u32_be_def split: if_splits)
  have "w_part p @ concat (map w_part ps) = w_part q @ concat (map w_part qs')"
    "length p < 2 ^ 32" "length q < 2 ^ 32"
    using Cons.prems qs by (auto simp: canonical_parts_def split: if_splits)
  then have "p = q" "concat (map w_part ps) = concat (map w_part qs')" using part_delim by blast+
  then show ?case using Cons qs by (simp add: canonical_parts_def split: if_splits)
qed

lemma subject_inj: "w_subject a = w_subject b \<Longrightarrow> a = b"
proof -
  assume eq: "w_subject a = w_subject b"
  show "a = b"
  proof (cases a)
    case (LinkWrap w)
    then obtain v where v: "b = LinkWrap v" using eq by (cases b) (simp_all add: w_subject_def)
    from eq LinkWrap v have "length (lw_secrets w) = length (lw_secrets v)"
      by (simp add: w_subject_def w_count_def)
    with eq LinkWrap v show ?thesis
      by (auto simp: w_subject_def dest!: secret.sequence flag.inj intro!: LinkWrapSubject.equality)
  next
    case (LinkSshSign s)
    then show ?thesis using eq
      by (cases b) (auto simp: w_subject_def dest!: anchor.inj intro!: LinkSshSubject.equality LinkSshAskInfo.equality)
  next
    case (LinkScopedAgent g)
    then show ?thesis using eq
      by (cases b) (auto simp: w_subject_def dest!: peer.inj intro!: LinkAgentAskInfo.equality)
  qed
qed

lemma link_parts_inj: "link_parts a = link_parts b \<Longrightarrow> a = b"
  by (auto simp: link_parts_def dest!: subject_inj intro!: LinkAsk.equality)

section \<open>Properties\<close>

text \<open>
  C24. What a linked device signs fixes everything it was shown: two asks with the same
  canonical bytes have the same projection, field for field.
\<close>

theorem signed_bytes_fix_the_display:
  assumes "canonical_bytes a = Some bs" "canonical_bytes b = Some bs"
  shows "link_ask a = link_ask b"
  using assms canonical_parts_inj link_parts_inj
  by (metis canonical_bytes_def canonical_link_bytes_def)

text \<open>Two asks that run the parts together differently have different bytes.\<close>

definition sandbox_ask :: "string \<Rightarrow> string \<Rightarrow> Ask" where
  "sandbox_ask scope ref = \<lparr>ask_command = [''agent-resolve'', ref],
     ask_dedupe_key = \<lparr>dk_wrap = ''agent'', dk_anchor = AgentSocketAnchor 9, dk_subject_digest = None\<rparr>,
     ask_subject = ScopedAgent \<lparr>ai_scope = scope, ai_reference = ref, ai_guest_chain = None, ai_declared_by = None\<rparr>\<rparr>"

theorem signed_bytes_fix_the_display_witness:
  "\<exists>bs. canonical_bytes (sandbox_ask ''ab'' ''c'') = Some bs \<and> canonical_bytes (sandbox_ask ''a'' ''bc'') \<noteq> Some bs"
proof -
  have "list_all (\<lambda>p. length p < 2 ^ 32) (link_parts (link_ask (sandbox_ask ''ab'' ''c'')))"
    by (simp add: link_parts_def link_ask_def sandbox_ask_def w_strings_def w_count_def w_number_def w_field_def
        w_subject_def w_option_def w_peer_def show_nat.simps)
  then obtain bs where bs: "canonical_bytes (sandbox_ask ''ab'' ''c'') = Some bs"
    by (simp add: canonical_bytes_def canonical_link_bytes_def canonical_parts_def)
  have "link_ask (sandbox_ask ''ab'' ''c'') \<noteq> link_ask (sandbox_ask ''a'' ''bc'')"
    by (simp add: link_ask_def sandbox_ask_def)
  then show ?thesis using bs signed_bytes_fix_the_display [OF bs] by blast
qed

end
