(* ===== verification/Link_Devices.thy ===== *)
theory Link_Devices
  imports Link_Projection "HOL-Library.Word"
begin

unbundle bit_operations_syntax

text \<open>
  The linked-device side of \<open>src/packages/secreq/src/link\<close>: the device registry (\<open>devices.rs\<close>),
  enrollment (\<open>pair.rs\<close>), replay protection (\<open>nonce.rs\<close>), signature checking (\<open>sig.rs\<close>) and the
  address and route decisions of the LAN listener (\<open>lan.rs\<close>, \<open>assets.rs\<close>). Third-party code is
  the record \<open>link_crates\<close>: JSON, Base64 and P-256. The registry file is a value of
  \<open>registry_file\<close>; the lock that serialises its readers and writers makes each operation below
  atomic. Instants are nanoseconds.
\<close>

section \<open>The registry file\<close>

record Device =
  dv_nickname :: string
  dv_public_key_b64 :: string
  dv_enrolled_at :: nat
  dv_last_seen :: "nat option"

record link_crates =
  lib_json_devices :: "string \<Rightarrow> Device list option"
  lib_devices_json :: "Device list \<Rightarrow> string"
  lib_b64_decode :: "string \<Rightarrow> string option"
  lib_b64_encode :: "string \<Rightarrow> string"
  lib_p256_point :: "string \<Rightarrow> bool"
  lib_p256_signature :: "string \<Rightarrow> bool"
  lib_p256_verify :: "string \<Rightarrow> string \<Rightarrow> string \<Rightarrow> bool"

datatype registry_file = Absent | Unopenable | RegistryFile nat string

datatype registry_error = OpenFailed | InsecurePermissions nat | ParseFailed | SaveFailed

definition load :: "link_crates \<Rightarrow> registry_file \<Rightarrow> registry_error + Device list" where
  "load L f = (case f of
      Absent \<Rightarrow> Inr []
    | Unopenable \<Rightarrow> Inl OpenFailed
    | RegistryFile mode bs \<Rightarrow>
        (let mode = mode mod 512 in
         if mode mod 64 \<noteq> 0 then Inl (InsecurePermissions mode)
         else case lib_json_devices L bs of None \<Rightarrow> Inl ParseFailed | Some ds \<Rightarrow> Inr ds))"

text \<open>Octal modes are written in decimal: 0o777 + 1 is 512, 0o077 + 1 is 64, 0o600 is 384.\<close>

text \<open>\<open>atomic::replace\<close> either installs the new contents or leaves the old file (\<open>ok\<close> false).\<close>

definition save :: "link_crates \<Rightarrow> bool \<Rightarrow> Device list \<Rightarrow> registry_file \<Rightarrow> (registry_error + unit) \<times> registry_file" where
  "save L ok ds f = (if ok then (Inr (), RegistryFile 384 (lib_devices_json L ds)) else (Inl SaveFailed, f))"

section \<open>Enrollment\<close>

definition ENROLLMENT_TTL :: nat where
  "ENROLLMENT_TTL = 60 * NANOS"

definition MAX_FAILED_TOKEN_ATTEMPTS :: nat where
  "MAX_FAILED_TOKEN_ATTEMPTS = 5"

definition MAX_NICKNAME_CHARS :: nat where
  "MAX_NICKNAME_CHARS = 64"

record PairRequest =
  pq_token :: string
  pq_public_key_b64 :: string
  pq_nickname :: string

record Window =
  wi_token :: string
  wi_expires_at :: nat
  wi_failed_token_attempts :: nat

record Pairing =
  pa_registry :: registry_file
  pa_window :: "Window option"

datatype PairError =
    NoOpenWindow | Expired | InvalidToken | TooManyTokenAttempts | InvalidPublicKey | EmptyNickname
  | NicknameTooLong | NicknameControlCharacter | NicknameCollision string | PublicKeyCollision string
  | Unavailable | ClockError | Registry registry_error

definition open_at :: "string \<Rightarrow> nat \<Rightarrow> Pairing \<Rightarrow> Pairing" where
  "open_at token now p = p\<lparr>pa_window := Some \<lparr>wi_token = token, wi_expires_at = now + ENROLLMENT_TTL,
     wi_failed_token_attempts = 0\<rparr>\<rparr>"

text \<open>\<open>char::is_control\<close>: U+0000 to U+001F and U+007F to U+009F, on UTF-8 bytes.\<close>

fun has_control :: "string \<Rightarrow> bool" where
  "has_control [] = False"
| "has_control (c # s) = ((of_char c :: nat) < 0x20 \<or> (of_char c :: nat) = 0x7F
     \<or> ((of_char c :: nat) = 0xC2 \<and> (case s of d # _ \<Rightarrow> 0x80 \<le> (of_char d :: nat) \<and> (of_char d :: nat) \<le> 0x9F | [] \<Rightarrow> False))
     \<or> has_control s)"

definition normalize_nickname :: "string \<Rightarrow> PairError + string" where
  "normalize_nickname raw =
     (if has_control raw then Inl NicknameControlCharacter
      else let nickname = trim raw in
        if nickname = [] then Inl EmptyNickname
        else if char_count nickname > MAX_NICKNAME_CHARS then Inl NicknameTooLong
        else Inr nickname)"

definition validate_public_key :: "link_crates \<Rightarrow> string \<Rightarrow> PairError + string" where
  "validate_public_key L b64 = (case lib_b64_decode L b64 of
      None \<Rightarrow> Inl InvalidPublicKey
    | Some bs \<Rightarrow> if length bs \<noteq> 65 \<or> (case bs of b # _ \<Rightarrow> (of_char b :: nat) \<noteq> 4 | [] \<Rightarrow> True) then Inl InvalidPublicKey
        else if \<not> lib_p256_point L bs then Inl InvalidPublicKey else Inr bs)"

text \<open>The part of \<open>pair_at\<close> after the token matched: the window stays open unless it succeeds.\<close>

definition enroll :: "link_crates \<Rightarrow> bool \<Rightarrow> PairRequest \<Rightarrow> nat \<Rightarrow> Pairing \<Rightarrow> (PairError + Device) \<times> Pairing" where
  "enroll L ok req enrolled_at p = (case normalize_nickname (pq_nickname req) of
      Inl e \<Rightarrow> (Inl e, p)
    | Inr nickname \<Rightarrow> (case validate_public_key L (pq_public_key_b64 req) of
        Inl e \<Rightarrow> (Inl e, p)
      | Inr public_key \<Rightarrow> (case load L (pa_registry p) of
          Inl e \<Rightarrow> (Inl (Registry e), p)
        | Inr devices \<Rightarrow>
            if list_ex (\<lambda>d. dv_nickname d = nickname) devices then (Inl (NicknameCollision nickname), p)
            else (case find (\<lambda>d. lib_b64_decode L (dv_public_key_b64 d) = Some public_key) devices of
                Some existing \<Rightarrow> (Inl (PublicKeyCollision (dv_nickname existing)), p)
              | None \<Rightarrow>
                  (let device = \<lparr>dv_nickname = nickname, dv_public_key_b64 = lib_b64_encode L public_key,
                         dv_enrolled_at = enrolled_at, dv_last_seen = None\<rparr>
                   in case save L ok (devices @ [device]) (pa_registry p) of
                        (Inl e, f) \<Rightarrow> (Inl (Registry e), p\<lparr>pa_registry := f\<rparr>)
                      | (Inr _, f) \<Rightarrow> (Inr device, p\<lparr>pa_registry := f, pa_window := None\<rparr>))))))"

definition U8_MAX :: nat where
  "U8_MAX = 255"

definition pair_at :: "link_crates \<Rightarrow> bool \<Rightarrow> PairRequest \<Rightarrow> nat \<Rightarrow> nat \<Rightarrow> Pairing \<Rightarrow> (PairError + Device) \<times> Pairing" where
  "pair_at L ok req now enrolled_at p = (case pa_window p of
      None \<Rightarrow> (Inl NoOpenWindow, p)
    | Some w \<Rightarrow>
        if wi_expires_at w \<le> now then (Inl Expired, p\<lparr>pa_window := None\<rparr>)
        else if wi_token w \<noteq> pq_token req then
          (let failed = min U8_MAX (wi_failed_token_attempts w + 1) in
           if failed \<ge> MAX_FAILED_TOKEN_ATTEMPTS then (Inl TooManyTokenAttempts, p\<lparr>pa_window := None\<rparr>)
           else (Inl InvalidToken, p\<lparr>pa_window := Some (w\<lparr>wi_failed_token_attempts := failed\<rparr>)\<rparr>))
        else enroll L ok req enrolled_at p)"

definition devices :: "link_crates \<Rightarrow> Pairing \<Rightarrow> PairError + Device list" where
  "devices L p = map_sum Registry id (load L (pa_registry p))"

fun remove_first :: "('a \<Rightarrow> bool) \<Rightarrow> 'a list \<Rightarrow> 'a list" where
  "remove_first P [] = []"
| "remove_first P (x # xs) = (if P x then xs else x # remove_first P xs)"

definition remove_device :: "link_crates \<Rightarrow> bool \<Rightarrow> string \<Rightarrow> Pairing \<Rightarrow> (PairError + (Device \<times> nat) option) \<times> Pairing" where
  "remove_device L ok nickname p = (case load L (pa_registry p) of
      Inl e \<Rightarrow> (Inl (Registry e), p)
    | Inr ds \<Rightarrow> (case find (\<lambda>d. dv_nickname d = nickname) ds of
        None \<Rightarrow> (Inr None, p)
      | Some removed \<Rightarrow>
          (let ds = remove_first (\<lambda>d. dv_nickname d = nickname) ds
           in case save L ok ds (pa_registry p) of
                (Inl e, f) \<Rightarrow> (Inl (Registry e), p\<lparr>pa_registry := f\<rparr>)
              | (Inr _, f) \<Rightarrow> (Inr (Some (removed, length ds)), p\<lparr>pa_registry := f\<rparr>))))"

section \<open>Signed decisions and their nonces\<close>

record SignedDecision =
  sn_request_id :: string
  sn_ask_hash_hex :: string
  sn_decision :: string
  sn_nonce :: string
  sn_signature_b64 :: string

text \<open>Every failure is the same refusal; the writer's panic on an over-long field is \<open>None\<close>.\<close>

definition verify :: "link_crates \<Rightarrow> Device \<Rightarrow> SignedDecision \<Rightarrow> bool option" where
  "verify L d s = (case lib_b64_decode L (dv_public_key_b64 d) of
      None \<Rightarrow> Some False
    | Some key \<Rightarrow> if \<not> lib_p256_point L key then Some False else (case lib_b64_decode L (sn_signature_b64 s) of
        None \<Rightarrow> Some False
      | Some sig \<Rightarrow> if \<not> lib_p256_signature L sig then Some False
          else map_option (\<lambda>msg. lib_p256_verify L key msg sig)
            (canonical_parts [sn_request_id s, sn_ask_hash_hex s, sn_decision s, sn_nonce s])))"

type_synonym NonceStore = "(string, string list) hmap"

definition accept :: "string \<Rightarrow> string \<Rightarrow> NonceStore \<Rightarrow> bool \<times> NonceStore" where
  "accept request_id nonce used =
     (let seen = (case hm_get used request_id of None \<Rightarrow> [] | Some ns \<Rightarrow> ns)
      in if nonce \<in> set seen then (False, hm_insert request_id seen used)
         else (True, hm_insert request_id (nonce # seen) used))"

definition retire :: "string \<Rightarrow> NonceStore \<Rightarrow> NonceStore" where
  "retire request_id used = hm_remove request_id used"

section \<open>The LAN listener's decisions\<close>

datatype IpAddr = V4 "32 word" | V6 "128 word"

definition v4_private :: "32 word \<Rightarrow> bool" where
  "v4_private ip \<longleftrightarrow> drop_bit 24 ip = 10 \<or> drop_bit 20 ip = 0xAC1 \<or> drop_bit 16 ip = 0xC0A8"

definition v4_loopback :: "32 word \<Rightarrow> bool" where
  "v4_loopback ip \<longleftrightarrow> drop_bit 24 ip = 127"

definition to_ipv4_mapped :: "128 word \<Rightarrow> 32 word option" where
  "to_ipv4_mapped ip = (if drop_bit 32 ip = 0xFFFF then Some (ucast ip) else None)"

fun is_lan :: "IpAddr \<Rightarrow> bool" where
  "is_lan (V4 ip) = (v4_private ip \<or> v4_loopback ip)"
| "is_lan (V6 ip) = ((case to_ipv4_mapped ip of Some v \<Rightarrow> v4_private v \<or> v4_loopback v | None \<Rightarrow> False)
     \<or> drop_bit 121 ip = 0x7E \<or> ip = 1)"

datatype Asset = IndexHtml | AppJs | AppCss

definition get_asset :: "string \<Rightarrow> Asset option" where
  "get_asset path = (if path = ''/'' \<or> path = ''/pair'' then Some IndexHtml
     else if path = ''/app.js'' then Some AppJs
     else if path = ''/app.css'' then Some AppCss else None)"

datatype Method = Get | Post | OtherMethod

datatype RouteDecision = Forbidden | Health | Pair_Route | Events | Decide | AssetRoute Asset | NotFound_Route

definition route_decision :: "IpAddr option \<Rightarrow> Method \<Rightarrow> string \<Rightarrow> RouteDecision" where
  "route_decision remote m url =
     (if (case remote of Some ip \<Rightarrow> \<not> is_lan ip | None \<Rightarrow> True) then Forbidden
      else if m = Get \<and> url = ''/healthz'' then Health
      else if m = Post \<and> url = ''/pair'' then Pair_Route
      else if m = Get \<and> url = ''/events'' then Events
      else if m = Post \<and> url = ''/decision'' then Decide
      else if m = Get then (case get_asset url of Some a \<Rightarrow> AssetRoute a | None \<Rightarrow> NotFound_Route)
      else NotFound_Route)"

fun pair_error_status :: "PairError \<Rightarrow> nat" where
  "pair_error_status NoOpenWindow = 403"
| "pair_error_status Expired = 403"
| "pair_error_status InvalidToken = 403"
| "pair_error_status TooManyTokenAttempts = 403"
| "pair_error_status InvalidPublicKey = 400"
| "pair_error_status EmptyNickname = 400"
| "pair_error_status NicknameTooLong = 400"
| "pair_error_status NicknameControlCharacter = 400"
| "pair_error_status (NicknameCollision n) = 409"
| "pair_error_status (PublicKeyCollision n) = 409"
| "pair_error_status Unavailable = 500"
| "pair_error_status ClockError = 500"
| "pair_error_status (Registry e) = 500"

definition MAX_PAIR_BODY_BYTES :: nat where
  "MAX_PAIR_BODY_BYTES = 16 * 1024"

text \<open>\<open>handle_pair\<close>: the status sent, and the pairing state after it.\<close>

definition handle_pair :: "link_crates \<Rightarrow> (string \<Rightarrow> PairRequest option) \<Rightarrow> bool \<Rightarrow> nat \<Rightarrow> nat \<Rightarrow> string \<Rightarrow> Pairing \<Rightarrow> nat \<times> Pairing" where
  "handle_pair L json ok now enrolled_at body p =
     (let body = take (MAX_PAIR_BODY_BYTES + 1) body in
      if length body > MAX_PAIR_BODY_BYTES then (413, p)
      else case json body of
        None \<Rightarrow> (400, p)
      | Some req \<Rightarrow> (case pair_at L ok req now enrolled_at p of
            (Inr d, p) \<Rightarrow> (204, p)
          | (Inl e, p) \<Rightarrow> (pair_error_status e, p)))"

section \<open>The registry's invariant\<close>

text \<open>What the registry relies on of its JSON and Base64 crates: what is written reads back.\<close>

definition crates_ok :: "link_crates \<Rightarrow> bool" where
  "crates_ok L \<longleftrightarrow> (\<forall>ds. lib_json_devices L (lib_devices_json L ds) = Some ds)
     \<and> (\<forall>bs. lib_b64_decode L (lib_b64_encode L bs) = Some bs)"

definition told_apart :: "link_crates \<Rightarrow> Device \<Rightarrow> Device \<Rightarrow> bool" where
  "told_apart L d e \<longleftrightarrow> dv_nickname d \<noteq> dv_nickname e
     \<and> (lib_b64_decode L (dv_public_key_b64 d) = None
        \<or> lib_b64_decode L (dv_public_key_b64 d) \<noteq> lib_b64_decode L (dv_public_key_b64 e))"

definition registry_ok :: "link_crates \<Rightarrow> registry_file \<Rightarrow> bool" where
  "registry_ok L f \<longleftrightarrow> (\<exists>ds. load L f = Inr ds \<and> sorted_wrt (told_apart L) ds)"

datatype pair_op =
    OpenWindow string nat
  | Enroll PairRequest bool nat nat
  | Revoke string bool

fun apply_pair_op :: "link_crates \<Rightarrow> pair_op \<Rightarrow> Pairing \<Rightarrow> Pairing" where
  "apply_pair_op L (OpenWindow token now) p = open_at token now p"
| "apply_pair_op L (Enroll req ok now at) p = snd (pair_at L ok req now at p)"
| "apply_pair_op L (Revoke nickname ok) p = snd (remove_device L ok nickname p)"

lemma load_saved: "crates_ok L \<Longrightarrow> load L (RegistryFile 384 (lib_devices_json L ds)) = Inr ds"
  by (simp add: load_def crates_ok_def)

lemma sorted_remove_first: "sorted_wrt P xs \<Longrightarrow> sorted_wrt P (remove_first Q xs)"
proof (induction xs)
  case (Cons x xs)
  moreover have "set (remove_first Q ys) \<subseteq> set ys" for ys by (induction ys) auto
  ultimately show ?case by auto
qed simp

lemma find_None_iff_all: "find P xs = None \<longleftrightarrow> list_all (\<lambda>x. \<not> P x) xs"
  by (auto simp: find_None_iff list_all_iff)

lemma enroll_cases:
  assumes "enroll L ok req at p = (r, p')"
  obtains e where "r = Inl e" "pa_registry p' = pa_registry p" "pa_window p' = pa_window p"
  | ds d k where "r = Inr d" "load L (pa_registry p) = Inr ds" "pa_window p' = None"
      "pa_registry p' = RegistryFile 384 (lib_devices_json L (ds @ [d]))"
      "dv_public_key_b64 d = lib_b64_encode L k" "list_all (\<lambda>e. dv_nickname e \<noteq> dv_nickname d) ds"
      "list_all (\<lambda>e. lib_b64_decode L (dv_public_key_b64 e) \<noteq> Some k) ds"
proof (cases "normalize_nickname (pq_nickname req)")
  case (Inl e)
  then show ?thesis using assms that(1) by (auto simp: enroll_def)
next
  case nick: (Inr nick)
  show ?thesis
  proof (cases "validate_public_key L (pq_public_key_b64 req)")
    case (Inl e)
    then show ?thesis using assms nick that(1) by (auto simp: enroll_def)
  next
    case key: (Inr k)
    show ?thesis
    proof (cases "load L (pa_registry p)")
      case (Inl e)
      then show ?thesis using assms nick key that(1) by (auto simp: enroll_def)
    next
      case ds: (Inr ds)
      show ?thesis
      proof (cases "list_ex (\<lambda>d. dv_nickname d = nick) ds")
        case True
        then show ?thesis using assms nick key ds that(1) by (auto simp: enroll_def)
      next
        case False
        then have names: "list_all (\<lambda>e. dv_nickname e \<noteq> nick) ds" by (simp add: list_all_iff list_ex_iff)
        show ?thesis
        proof (cases "find (\<lambda>d. lib_b64_decode L (dv_public_key_b64 d) = Some k) ds")
          case (Some e)
          then show ?thesis using assms nick key ds False that(1) by (auto simp: enroll_def)
        next
          case None
          then have keys: "list_all (\<lambda>e. lib_b64_decode L (dv_public_key_b64 e) \<noteq> Some k) ds"
            by (simp add: find_None_iff_all)
          show ?thesis
          proof (cases ok)
            case True
            then show ?thesis using assms nick key ds False None names keys
              by (intro that(2)) (auto simp: enroll_def save_def Let_def)
          next
            case False
            then show ?thesis using assms nick key ds \<open>\<not> list_ex _ _\<close> None that(1)
              by (auto simp: enroll_def save_def Let_def)
          qed
        qed
      qed
    qed
  qed
qed

lemma enroll_registry_ok:
  assumes "crates_ok L" "registry_ok L (pa_registry p)" "enroll L ok req at p = (r, p')"
  shows "registry_ok L (pa_registry p')"
  using assms(3)
proof (cases rule: enroll_cases)
  case (1 e)
  then show ?thesis using assms(2) by simp
next
  case (2 ds d k)
  then have "sorted_wrt (told_apart L) ds" using assms(2) by (simp add: registry_ok_def)
  then have "sorted_wrt (told_apart L) (ds @ [d])"
    using 2(5-7) assms(1) by (auto simp: sorted_wrt_append told_apart_def list_all_iff crates_ok_def)
  then show ?thesis using 2(4) load_saved [OF assms(1)] by (simp add: registry_ok_def)
qed

lemma remove_registry_ok:
  assumes "crates_ok L" "registry_ok L (pa_registry p)"
  shows "registry_ok L (pa_registry (snd (remove_device L ok nickname p)))"
proof -
  obtain ds where ds: "load L (pa_registry p) = Inr ds" "sorted_wrt (told_apart L) ds"
    using assms(2) by (auto simp: registry_ok_def)
  show ?thesis
  proof (cases "find (\<lambda>d. dv_nickname d = nickname) ds")
    case None
    then show ?thesis using ds assms(2) by (simp add: remove_device_def)
  next
    case (Some d)
    then show ?thesis using ds assms load_saved [OF assms(1)] sorted_remove_first [OF ds(2)]
      by (cases ok) (simp_all add: remove_device_def save_def Let_def registry_ok_def)
  qed
qed

lemma pair_registry_ok:
  assumes "crates_ok L" "registry_ok L (pa_registry p)"
  shows "registry_ok L (pa_registry (snd (pair_at L ok req now at p)))"
proof -
  obtain r p' where e: "enroll L ok req at p = (r, p')" by force
  show ?thesis using enroll_registry_ok [OF assms e] assms(2) e
    by (auto simp: pair_at_def Let_def split: option.splits)
qed

lemma pair_ops_registry_ok:
  "crates_ok L \<Longrightarrow> registry_ok L (pa_registry p) \<Longrightarrow> registry_ok L (pa_registry (fold (apply_pair_op L) ops p))"
proof (induction ops arbitrary: p)
  case (Cons op ops)
  have "registry_ok L (pa_registry (apply_pair_op L op p))"
    using Cons.prems pair_registry_ok remove_registry_ok by (cases op) (auto simp: open_at_def)
  then show ?case using Cons.IH Cons.prems(1) by simp
qed simp

section \<open>Guessing the token\<close>

definition attempt :: "link_crates \<Rightarrow> PairRequest \<times> bool \<times> nat \<times> nat \<Rightarrow> Pairing \<Rightarrow> Pairing" where
  "attempt L = (\<lambda>(req, ok, now, at) p. snd (pair_at L ok req now at p))"

text \<open>Either no window is open, or the one of this token is, with this many failures counted.\<close>

definition guesses_left :: "string \<Rightarrow> nat \<Rightarrow> Pairing \<Rightarrow> bool" where
  "guesses_left token n p \<longleftrightarrow> (case pa_window p of None \<Rightarrow> True
     | Some w \<Rightarrow> wi_token w = token \<and> wi_failed_token_attempts w + n = MAX_FAILED_TOKEN_ATTEMPTS \<and> 0 < n)"

lemma wrong_attempt:
  assumes "guesses_left token (Suc n) p" "pq_token (fst a) \<noteq> token"
  shows "guesses_left token n (attempt L a p) \<and> pa_registry (attempt L a p) = pa_registry p"
proof -
  obtain req ok now at' where a: "a = (req, ok, now, at')" by (cases a) auto
  show ?thesis
  proof (cases "pa_window p")
    case None
    then show ?thesis using a by (simp add: attempt_def pair_at_def guesses_left_def)
  next
    case (Some w)
    then have "wi_token w \<noteq> pq_token req" using assms a by (auto simp: guesses_left_def)
    then show ?thesis using assms(1) Some a
      by (auto simp: attempt_def pair_at_def guesses_left_def Let_def MAX_FAILED_TOKEN_ATTEMPTS_def U8_MAX_def)
  qed
qed

lemma wrong_attempts:
  "guesses_left token n p \<Longrightarrow> \<forall>a \<in> set as. pq_token (fst a) \<noteq> token \<Longrightarrow>
   guesses_left token (n - length as) (fold (attempt L) as p) \<and> pa_registry (fold (attempt L) as p) = pa_registry p"
proof (induction as arbitrary: n p)
  case (Cons a as)
  show ?case
  proof (cases n)
    case 0
    then have "pa_window p = None" using Cons.prems(1) by (auto simp: guesses_left_def split: option.splits)
    then have "attempt L a p = p" by (auto simp: attempt_def pair_at_def split: prod.splits)
    then show ?thesis using Cons.IH [of 0 p] Cons.prems 0 by simp
  next
    case (Suc m)
    then show ?thesis using Cons.IH [of m "attempt L a p"] wrong_attempt [of token m p a L] Cons.prems by simp
  qed
qed simp

section \<open>A sample registry\<close>

text \<open>A self-delimiting encoding of the registry, standing for its JSON: numbers in unary, a mark
  before every character of a string.\<close>

definition put_nat :: "nat \<Rightarrow> string" where
  "put_nat n = replicate n CHR ''a'' @ ''b''"

fun get_nat :: "string \<Rightarrow> nat \<times> string" where
  "get_nat [] = (0, [])"
| "get_nat (c # s) = (if c = CHR ''a'' then let (n, r) = get_nat s in (Suc n, r) else (0, s))"

definition put_str :: "string \<Rightarrow> string" where
  "put_str s = concat (map (\<lambda>c. [CHR ''c'', c]) s) @ ''e''"

fun get_str :: "string \<Rightarrow> string \<times> string" where
  "get_str (m # c # s) = (if m = CHR ''c'' then let (t, r) = get_str s in (c # t, r) else ([], c # s))"
| "get_str [m] = ([], [])"
| "get_str [] = ([], [])"

definition put_dev :: "Device \<Rightarrow> string" where
  "put_dev d = put_str (dv_nickname d) @ put_str (dv_public_key_b64 d) @ put_nat (dv_enrolled_at d)
     @ put_nat (case dv_last_seen d of None \<Rightarrow> 0 | Some n \<Rightarrow> Suc n)"

definition get_dev :: "string \<Rightarrow> Device \<times> string" where
  "get_dev s = (let (n, s) = get_str s; (k, s) = get_str s; (e, s) = get_nat s; (l, s) = get_nat s
     in (\<lparr>dv_nickname = n, dv_public_key_b64 = k, dv_enrolled_at = e,
          dv_last_seen = (case l of 0 \<Rightarrow> None | Suc m \<Rightarrow> Some m)\<rparr>, s))"

fun get_devs :: "nat \<Rightarrow> string \<Rightarrow> Device list" where
  "get_devs 0 s = []"
| "get_devs (Suc n) s = (let (d, r) = get_dev s in d # get_devs n r)"

definition sample_crates :: link_crates where
  "sample_crates = \<lparr>lib_json_devices = (\<lambda>s. let (n, r) = get_nat s in Some (get_devs n r)),
     lib_devices_json = (\<lambda>ds. put_nat (length ds) @ concat (map put_dev ds)),
     lib_b64_decode = Some, lib_b64_encode = id, lib_p256_point = (\<lambda>_. True),
     lib_p256_signature = (\<lambda>_. True), lib_p256_verify = (\<lambda>k m s. s = m)\<rparr>"

definition sample_key :: string where
  "sample_key = CHR 0x04 # replicate 64 CHR ''k''"

definition sample_pairing :: Pairing where
  "sample_pairing = \<lparr>pa_registry = Absent, pa_window = None\<rparr>"

definition pair_sample :: PairRequest where
  "pair_sample = \<lparr>pq_token = ''t'', pq_public_key_b64 = sample_key, pq_nickname = ''phone''\<rparr>"

lemma get_put_nat [simp]: "get_nat (put_nat n @ r) = (n, r)"
  by (induction n) (simp_all add: put_nat_def)

lemma get_put_str [simp]: "get_str (put_str s @ r) = (s, r)"
proof (induction s)
  case Nil
  then show ?case by (cases r) (simp_all add: put_str_def)
qed (simp add: put_str_def)

lemma get_put_dev [simp]: "get_dev (put_dev d @ r) = (d, r)"
  by (simp add: get_dev_def put_dev_def split: option.split)

lemma get_put_devs: "get_devs (length ds) (concat (map put_dev ds)) = ds"
  by (induction ds) simp_all

lemma sample_crates_ok: "crates_ok sample_crates"
  by (simp add: crates_ok_def sample_crates_def get_put_devs)

lemma sample_registry_ok: "registry_ok L (pa_registry sample_pairing)"
  by (simp add: registry_ok_def load_def sample_pairing_def)

lemma sample_pairs:
  "pair_at sample_crates True pair_sample 0 7 (open_at ''t'' 0 sample_pairing)
   = (Inr \<lparr>dv_nickname = ''phone'', dv_public_key_b64 = sample_key, dv_enrolled_at = 7, dv_last_seen = None\<rparr>,
      \<lparr>pa_registry = RegistryFile 384 (lib_devices_json sample_crates
         [\<lparr>dv_nickname = ''phone'', dv_public_key_b64 = sample_key, dv_enrolled_at = 7, dv_last_seen = None\<rparr>]),
       pa_window = None\<rparr>)"
proof -
  have "normalize_nickname ''phone'' = Inr ''phone''" by code_simp
  moreover have "validate_public_key sample_crates sample_key = Inr sample_key"
    by (simp add: validate_public_key_def sample_crates_def sample_key_def)
  moreover have "lib_b64_encode sample_crates sample_key = sample_key" by (simp add: sample_crates_def)
  ultimately show ?thesis
    by (simp add: pair_at_def enroll_def open_at_def pair_sample_def sample_pairing_def load_def save_def
        ENROLLMENT_TTL_def NANOS_def Let_def)
qed

section \<open>Properties\<close>

text \<open>
  Whatever is enrolled, revoked or refused, and whether or not the file can be written, the
  registry stays readable by its owner only and never names two devices alike nor one key
  twice.
\<close>

theorem registry_tells_devices_apart:
  assumes "crates_ok L" "registry_ok L (pa_registry p)"
  shows "registry_ok L (pa_registry (fold (apply_pair_op L) ops p))"
  using assms by (rule pair_ops_registry_ok)

theorem registry_tells_devices_apart_witness:
  "registry_ok sample_crates (pa_registry (fold (apply_pair_op sample_crates)
     [OpenWindow ''t'' 0, Enroll pair_sample True 0 7, OpenWindow ''u'' 9, Enroll pair_sample True 9 9,
      Revoke ''phone'' True] sample_pairing))"
  by (rule registry_tells_devices_apart [OF sample_crates_ok sample_registry_ok])

text \<open>
  C31. An enrollment window survives at most four wrong tokens: after five it is closed, nobody
  was enrolled, and the right token no longer opens it.
\<close>

theorem token_guesses_are_bounded:
  assumes "\<forall>a \<in> set as. pq_token (fst a) \<noteq> token" "MAX_FAILED_TOKEN_ATTEMPTS \<le> length as"
  shows "pa_registry (fold (attempt L) as (open_at token now p)) = pa_registry p
    \<and> fst (pair_at L ok req t at (fold (attempt L) as (open_at token now p))) = Inl NoOpenWindow"
proof -
  have "guesses_left token MAX_FAILED_TOKEN_ATTEMPTS (open_at token now p)"
    by (simp add: guesses_left_def open_at_def MAX_FAILED_TOKEN_ATTEMPTS_def)
  from wrong_attempts [OF this assms(1), of L] assms(2)
  show ?thesis by (auto simp: guesses_left_def open_at_def pair_at_def split: option.splits)
qed

theorem token_guesses_are_bounded_witness:
  "fst (pair_at sample_crates True pair_sample 0 7 (fold (attempt sample_crates)
     (replicate 5 (pair_sample\<lparr>pq_token := ''x''\<rparr>, True, 0, 0)) (open_at ''t'' 0 sample_pairing))) = Inl NoOpenWindow
   \<and> (\<exists>d. fst (pair_at sample_crates True pair_sample 0 7 (open_at ''t'' 0 sample_pairing)) = Inr d)"
proof -
  have "\<forall>a \<in> set (replicate 5 (pair_sample\<lparr>pq_token := ''x''\<rparr>, True, 0::nat, 0::nat)). pq_token (fst a) \<noteq> ''t''"
    by simp
  from token_guesses_are_bounded [OF this, of sample_crates 0 sample_pairing True pair_sample 0 7]
  show ?thesis by (simp add: MAX_FAILED_TOKEN_ATTEMPTS_def sample_pairs)
qed

text \<open>
  A token enrolls at most one device: once it has, every later attempt is refused until a
  window is opened again.
\<close>

theorem token_enrolls_once:
  assumes "pair_at L ok req now at p = (Inr d, p')"
  shows "pa_window p' = None \<and> fst (pair_at L ok2 req2 now2 at2 (fold (attempt L) as p')) = Inl NoOpenWindow"
proof -
  have "\<exists>w. pa_window p = Some w \<and> enroll L ok req at p = (Inr d, p')"
    using assms by (auto simp: pair_at_def Let_def split: option.splits if_splits)
  then have closed: "pa_window p' = None" by (auto elim: enroll_cases)
  have "fold (attempt L) as p' = p'"
  proof (induction as)
    case (Cons a as)
    have "attempt L a p' = p'" using closed by (auto simp: attempt_def pair_at_def split: prod.splits)
    then show ?case using Cons by simp
  qed simp
  then show ?thesis using closed by (simp add: pair_at_def)
qed

theorem token_enrolls_once_witness:
  "fst (pair_at sample_crates True pair_sample 0 7
     (snd (pair_at sample_crates True pair_sample 0 7 (open_at ''t'' 0 sample_pairing)))) = Inl NoOpenWindow"
  using token_enrolls_once [OF sample_pairs, of True pair_sample 0 7 "[]"] by (simp add: sample_pairs)

end
