(* ===== verification/Messages.thy ===== *)
theory Messages
  imports Link_Devices
begin

text \<open>
  \<open>src/packages/secreq/src/daemon/proto.rs\<close>: the messages between a client and the daemon, the
  names the daemon's log gives them, and the hand-written \<open>Debug\<close> of a reply. The derived
  \<open>Debug\<close> of a whole value (a rule, a decision) is a leaf carrying that value.
\<close>

section \<open>The messages\<close>

datatype ManagerFocus = RulesView | AuditView

datatype ClientMsg =
    AskMsg Ask
  | ShowWindow
  | ShowViewer
  | Ping
  | Hello string
  | LinkPair
  | LinkList
  | LinkRemove string
  | Shutdown
  | ConsentWindowAttach nat
  | ConsentDecision DedupeKey Decision "string option" "ProcessIdentity option"
  | ConsentWindowDetach
  | ConsentWindowDismissed
  | ConsentWindowFocus bool
  | ManagerWindowAttach nat
  | OpenManager ManagerFocus
  | ListRules
  | AddRule Rule
  | AddWasmRule string string "string list option" "string list" bool
  | UpdateRule Rule Rule
  | DeleteRule Rule
  | SetRuleEnabled Rule bool

fun client_tag :: "ClientMsg \<Rightarrow> string" where
  "client_tag Ping = ''Ping''"
| "client_tag (Hello b) = ''Hello''"
| "client_tag LinkPair = ''LinkPair''"
| "client_tag LinkList = ''LinkList''"
| "client_tag (LinkRemove n) = ''LinkRemove''"
| "client_tag ShowWindow = ''ShowWindow''"
| "client_tag ShowViewer = ''ShowViewer''"
| "client_tag (AskMsg a) = ''Ask''"
| "client_tag Shutdown = ''Shutdown''"
| "client_tag (ConsentWindowAttach p) = ''ConsentWindowAttach''"
| "client_tag (ConsentDecision k d r s) = ''ConsentDecision''"
| "client_tag ConsentWindowDetach = ''ConsentWindowDetach''"
| "client_tag ConsentWindowDismissed = ''ConsentWindowDismissed''"
| "client_tag (ConsentWindowFocus f) = ''ConsentWindowFocus''"
| "client_tag (ManagerWindowAttach p) = ''ManagerWindowAttach''"
| "client_tag (OpenManager f) = ''OpenManager''"
| "client_tag ListRules = ''ListRules''"
| "client_tag (AddRule r) = ''AddRule''"
| "client_tag (AddWasmRule n p w t a) = ''AddWasmRule''"
| "client_tag (UpdateRule e r) = ''UpdateRule''"
| "client_tag (DeleteRule e) = ''DeleteRule''"
| "client_tag (SetRuleEnabled e b) = ''SetRuleEnabled''"

text \<open>The fields of \<open>DaemonMsg::Decision\<close>.\<close>

record DecisionReply =
  dr_decision :: Decision
  dr_secrets :: "(string, string) hmap"
  dr_deciding_device :: "string option"
  dr_rule_id :: "string option"
  dr_rule_name :: "string option"
  dr_reason :: "string option"
  dr_declared_by :: "ScopeDeclarant option"
  dr_approvers :: "(string, string) btmap"

datatype DaemonMsg =
    DecisionMsg DecisionReply
  | OkMsg
  | HelloMsg string
  | LinkPairing string
  | LinkDevicesMsg "Device list"
  | WindowOpened "nat option"
  | ErrMsg string
  | ConsentUpdate WireSnapshot
  | ConsentExitPlease
  | RulesList "Rule list" RuleRefusals
  | RuleAdded Rule
  | AutoDenyToast string "string option"

fun decision_tag :: "Decision \<Rightarrow> string" where
  "decision_tag Approve = ''Decision::Approve''"
| "decision_tag ApproveRemember = ''Decision::ApproveRemember''"
| "decision_tag ApproveCached = ''Decision::ApproveCached''"
| "decision_tag ApproveAuto = ''Decision::ApproveAuto''"
| "decision_tag ApproveSshSession = ''Decision::ApproveSshSession''"
| "decision_tag ApproveSshSessionAll = ''Decision::ApproveSshSessionAll''"
| "decision_tag ApproveAgentSession = ''Decision::ApproveAgentSession''"
| "decision_tag Deny = ''Decision::Deny''"
| "decision_tag DenyAuto = ''Decision::DenyAuto''"
| "decision_tag DenyOutOfScope = ''Decision::DenyOutOfScope''"
| "decision_tag Abandoned = ''Decision::Abandoned''"

fun daemon_tag :: "DaemonMsg \<Rightarrow> string" where
  "daemon_tag OkMsg = ''Ok''"
| "daemon_tag (HelloMsg b) = ''Hello''"
| "daemon_tag (LinkPairing u) = ''LinkPairing''"
| "daemon_tag (LinkDevicesMsg ds) = ''LinkDevices''"
| "daemon_tag (WindowOpened pid) = (case pid of Some _ \<Rightarrow> ''WindowOpened(existing)'' | None \<Rightarrow> ''WindowOpened(spawning)'')"
| "daemon_tag (DecisionMsg d) = decision_tag (dr_decision d)"
| "daemon_tag (ErrMsg m) = ''Err''"
| "daemon_tag (ConsentUpdate s) = ''ConsentUpdate''"
| "daemon_tag ConsentExitPlease = ''ConsentExitPlease''"
| "daemon_tag (RulesList rs rf) = ''RulesList''"
| "daemon_tag (RuleAdded r) = ''RuleAdded''"
| "daemon_tag (AutoDenyToast n m) = ''AutoDenyToast''"

section \<open>Debug\<close>

datatype debug_tree =
    Raw string
  | DebugDecision Decision
  | DebugOption "string option"
  | DebugStr string
  | DebugStrs "string list"
  | DebugPid "nat option"
  | DebugDeclarant "ScopeDeclarant option"
  | DebugMap "(string, string) btmap"
  | DebugRule Rule
  | DebugStruct string "(string \<times> debug_tree) list"

text \<open>\<open>RedactedNames\<close>: how many there are, and the sorted names.\<close>

definition redacted_names :: "(string, string) hmap \<Rightarrow> debug_tree" where
  "redacted_names m = DebugStruct (show_nat (length (hm_keys m)) @ '' redacted'') [('''', DebugStrs (sort (hm_keys m)))]"

fun debug :: "DaemonMsg \<Rightarrow> debug_tree" where
  "debug (DecisionMsg d) = DebugStruct ''Decision''
     [(''decision'', DebugDecision (dr_decision d)),
      (''secrets'', redacted_names (dr_secrets d)),
      (''deciding_device'', DebugOption (dr_deciding_device d)),
      (''rule_id'', DebugOption (dr_rule_id d)),
      (''rule_name'', DebugOption (dr_rule_name d)),
      (''reason'', DebugOption (dr_reason d)),
      (''declared_by'', DebugDeclarant (dr_declared_by d)),
      (''approvers'', DebugMap (dr_approvers d))]"
| "debug OkMsg = Raw ''Ok''"
| "debug (HelloMsg b) = DebugStruct ''Hello'' [(''build_id'', DebugStr b)]"
| "debug (LinkPairing u) = Raw ''LinkPairing { url: [redacted] }''"
| "debug (LinkDevicesMsg ds) = DebugStruct ''LinkDevices'' [(''nicknames'', DebugStrs (map dv_nickname ds))]"
| "debug (WindowOpened pid) = DebugStruct ''WindowOpened'' [(''child_pid'', DebugPid pid)]"
| "debug (ErrMsg m) = DebugStruct ''Err'' [(''message'', DebugStr m)]"
| "debug (ConsentUpdate s) = Raw ''ConsentUpdate { .. }''"
| "debug ConsentExitPlease = Raw ''ConsentExitPlease''"
| "debug (RulesList rs rf) = Raw ''RulesList { .. }''"
| "debug (RuleAdded r) = DebugStruct ''RuleAdded'' [(''rule'', DebugRule r)]"
| "debug (AutoDenyToast n m) = Raw ''AutoDenyToast { .. }''"

section \<open>What a log line can reveal\<close>

text \<open>A reply with its credentials replaced: every secret value and the pairing URL.\<close>

fun scrub :: "(string \<Rightarrow> string) \<Rightarrow> DaemonMsg \<Rightarrow> DaemonMsg" where
  "scrub f (DecisionMsg d) = DecisionMsg (d\<lparr>dr_secrets := map (\<lambda>(n, v). (n, f v)) (dr_secrets d)\<rparr>)"
| "scrub f (LinkPairing u) = LinkPairing (f u)"
| "scrub f m = m"

lemma hm_keys_map_values [simp]: "hm_keys (map (\<lambda>(n, v). (n, f v)) m) = hm_keys m"
  by (simp add: hm_keys_def case_prod_beta comp_def)

lemma debug_scrub: "debug (scrub f m) = debug m"
  by (cases m) (simp_all add: redacted_names_def)

lemma tag_scrub: "daemon_tag (scrub f m) = daemon_tag m"
  by (cases m) simp_all

section \<open>Properties\<close>

text \<open>
  C37. Neither the log name nor the \<open>Debug\<close> form of a reply depends on the secret values or the
  enrollment token it carries: replacing them all changes neither.
\<close>

theorem log_lines_hold_no_secrets:
  "daemon_tag (scrub f m) = daemon_tag m \<and> debug (scrub f m) = debug m"
  by (simp add: tag_scrub debug_scrub)

end
