(* ===== verification/Audit_Log.thy ===== *)
theory Audit_Log
  imports Evaluate
begin

text \<open>
  \<open>src/packages/secreq/src/audit.rs\<close>: the rows of the append-only log, their constructors, and
  the reader that survives rows written by other versions and by torn appends. The log file is
  its bytes. JSON is third-party code: the record \<open>audit_json\<close> gives the line of an entry and,
  for the bytes of one physical line, what its stream deserialiser yields in turn (\<open>None\<close> for
  bytes that are no entry, after which it stops). The clock and the current directory are
  arguments.
\<close>

section \<open>Rows\<close>

record AuditCaller =
  uc_pid :: nat
  uc_name :: string
  uc_command :: string
  uc_exe :: "string option"

record AuditSurvivor =
  us_pid :: nat
  us_command :: string

record AuditSignAnchor =
  ua_kind :: SignAnchorKind
  ua_pid :: nat
  ua_name :: string
  ua_command :: "string option"

record AuditEntry =
  ae_ts_unix :: nat
  ae_cwd :: string
  ae_wrap :: string
  ae_args :: "string list"
  ae_command :: "string list option"
  ae_callers :: "AuditCaller list"
  ae_callers_truncated :: "bool option"
  ae_secrets :: "string list"
  ae_decision :: string
  ae_deciding_device :: "string option"
  ae_reason :: "string option"
  ae_rule_id :: "string option"
  ae_approvers :: "(string, string) btmap"
  ae_fingerprint :: "string option"
  ae_sign_anchor :: "AuditSignAnchor option"
  ae_declared_by :: "ScopeDeclarant option"
  ae_unverified_guest_chain :: "string option"

record SurvivorAuditEntry =
  se_ts_unix :: nat
  se_event :: string
  se_cwd :: string
  se_command :: "string list"
  se_survivors :: "AuditSurvivor list"
  se_reach :: string

record AbandonedAsk =
  ab_wrap :: string
  ab_args :: "string list"
  ab_command :: "string list"
  ab_cwd :: string
  ab_callers :: "AuditCaller list"
  ab_callers_truncated :: bool
  ab_secret_names :: "string list"
  ab_sign_anchor :: "AuditSignAnchor option"
  ab_declared_by :: "ScopeDeclarant option"

text \<open>The UTF-8 bytes of a string of scalar values (the \<open>Provenance\<close> theory's \<open>ustring\<close>).\<close>

definition utf8_char :: "nat \<Rightarrow> string" where
  "utf8_char n = map char_of (if n < 0x80 then [n]
     else if n < 0x800 then [0xC0 + n div 64, 0x80 + n mod 64]
     else if n < 0x10000 then [0xE0 + n div 4096, 0x80 + n div 64 mod 64, 0x80 + n mod 64]
     else [0xF0 + n div 262144, 0x80 + n div 4096 mod 64, 0x80 + n div 64 mod 64, 0x80 + n mod 64])"

definition utf8 :: "ustring \<Rightarrow> string" where
  "utf8 s = concat (map utf8_char s)"

definition audit_caller :: "Caller \<Rightarrow> AuditCaller" where
  "audit_caller c = \<lparr>uc_pid = ca_pid c, uc_name = utf8 (ca_name c), uc_command = utf8 (ca_command c),
     uc_exe = map_option utf8 (ca_exe c)\<rparr>"

definition audit_anchor :: "SignAnchor \<Rightarrow> AuditSignAnchor" where
  "audit_anchor a = \<lparr>ua_kind = sa_kind a, ua_pid = pi_pid (sa_identity a), ua_name = utf8 (sa_name a),
     ua_command = (case sa_kind a of ForwardedSsh \<Rightarrow> Some (utf8 (sa_command a)) | Session \<Rightarrow> None)\<rparr>"

definition forwarded :: "AuditSignAnchor \<Rightarrow> bool" where
  "forwarded a \<longleftrightarrow> ua_kind a = ForwardedSsh"

definition rules_were_evaluated :: "AuditEntry \<Rightarrow> bool" where
  "rules_were_evaluated e \<longleftrightarrow> ae_wrap e \<noteq> ''store'' \<and> \<not> starts_with (ae_wrap e) ''agent:''"

definition evaluator_command :: "AuditEntry \<Rightarrow> string list" where
  "evaluator_command e = (case ae_command e of Some c \<Rightarrow> c | None \<Rightarrow> legacy_audit_command (ae_wrap e) (ae_args e))"

definition entry_joined_argv :: "AuditEntry \<Rightarrow> string" where
  "entry_joined_argv e = joined_argv (evaluator_command e)"

definition audit_new :: "nat \<Rightarrow> string \<Rightarrow> string \<Rightarrow> string list \<Rightarrow> CallerChain \<Rightarrow> string list \<Rightarrow> Decision \<Rightarrow> AuditEntry" where
  "audit_new now dir wrap args chain names d = \<lparr>
     ae_ts_unix = now, ae_cwd = dir, ae_wrap = wrap, ae_args = args,
     ae_command = Some (legacy_audit_command wrap args),
     ae_callers = map audit_caller (cc_frames chain), ae_callers_truncated = Some (cc_truncated chain),
     ae_secrets = names, ae_decision = decision_as_str d, ae_deciding_device = None, ae_reason = None,
     ae_rule_id = None, ae_approvers = [], ae_fingerprint = None, ae_sign_anchor = None,
     ae_declared_by = None, ae_unverified_guest_chain = None\<rparr>"

definition ssh_sign_entry ::
  "nat \<Rightarrow> string \<Rightarrow> string \<Rightarrow> CallerChain \<Rightarrow> SignAnchor \<Rightarrow> string \<Rightarrow> Decision \<Rightarrow> AuditEntry" where
  "ssh_sign_entry now key_id fp chain anchor dir d = \<lparr>
     ae_ts_unix = now, ae_cwd = dir, ae_wrap = ''ssh:'' @ key_id, ae_args = [],
     ae_command = Some [''ssh-sign '' @ key_id],
     ae_callers = map audit_caller (cc_frames chain), ae_callers_truncated = Some (cc_truncated chain),
     ae_secrets = [], ae_decision = decision_as_str d, ae_deciding_device = None, ae_reason = None,
     ae_rule_id = None, ae_approvers = [], ae_fingerprint = Some fp,
     ae_sign_anchor = Some (audit_anchor anchor), ae_declared_by = None, ae_unverified_guest_chain = None\<rparr>"

definition agent_resolve_entry ::
  "nat \<Rightarrow> string \<Rightarrow> string \<Rightarrow> Decision \<Rightarrow> string option \<Rightarrow> ScopeDeclarant \<Rightarrow> AuditEntry" where
  "agent_resolve_entry now scope ref d guest by = \<lparr>
     ae_ts_unix = now, ae_cwd = [], ae_wrap = ''agent:'' @ scope, ae_args = [], ae_command = None,
     ae_callers = [], ae_callers_truncated = Some False, ae_secrets = [ref],
     ae_decision = decision_as_str d, ae_deciding_device = None, ae_reason = None, ae_rule_id = None,
     ae_approvers = [], ae_fingerprint = None, ae_sign_anchor = None, ae_declared_by = Some by,
     ae_unverified_guest_chain = guest\<rparr>"

definition abandoned :: "nat \<Rightarrow> AbandonedAsk \<Rightarrow> AuditEntry" where
  "abandoned now a = \<lparr>
     ae_ts_unix = now, ae_cwd = ab_cwd a, ae_wrap = ab_wrap a, ae_args = ab_args a,
     ae_command = Some (ab_command a), ae_callers = ab_callers a,
     ae_callers_truncated = Some (ab_callers_truncated a), ae_secrets = ab_secret_names a,
     ae_decision = decision_as_str Abandoned, ae_deciding_device = None, ae_reason = None,
     ae_rule_id = None, ae_approvers = [], ae_fingerprint = None, ae_sign_anchor = ab_sign_anchor a,
     ae_declared_by = ab_declared_by a, ae_unverified_guest_chain = None\<rparr>"

definition with_rule_id :: "string option \<Rightarrow> AuditEntry \<Rightarrow> AuditEntry" where
  "with_rule_id r e = e\<lparr>ae_rule_id := r\<rparr>"

definition with_reason :: "string option \<Rightarrow> AuditEntry \<Rightarrow> AuditEntry" where
  "with_reason r e = e\<lparr>ae_reason := r\<rparr>"

definition with_approvers :: "(string, string) btmap \<Rightarrow> AuditEntry \<Rightarrow> AuditEntry" where
  "with_approvers a e = e\<lparr>ae_approvers := a\<rparr>"

definition with_deciding_device :: "string option \<Rightarrow> AuditEntry \<Rightarrow> AuditEntry" where
  "with_deciding_device d e = e\<lparr>ae_deciding_device := d\<rparr>"

section \<open>The log file\<close>

record audit_json =
  aj_entry :: "AuditEntry \<Rightarrow> string"
  aj_survivors :: "SurvivorAuditEntry \<Rightarrow> string"
  aj_stream :: "string \<Rightarrow> AuditEntry option list"

definition append_record :: "string \<Rightarrow> string \<Rightarrow> string" where
  "append_record line log = log @ line @ [CHR 0x0A]"

definition append_entry :: "audit_json \<Rightarrow> AuditEntry \<Rightarrow> string \<Rightarrow> string" where
  "append_entry J e log = append_record (aj_entry J e) log"

definition append_survivors ::
  "audit_json \<Rightarrow> nat \<Rightarrow> string list \<Rightarrow> string \<Rightarrow> AuditSurvivor list \<Rightarrow> string \<Rightarrow> string" where
  "append_survivors J now command dir survivors log = append_record (aj_survivors J
     \<lparr>se_ts_unix = now, se_event = ''background_survivors'', se_cwd = dir, se_command = command,
      se_survivors = survivors, se_reach = ''child_session_or_process_group''\<rparr>) log"

text \<open>\<open>read_until\<close> a newline: the physical lines, each with its newline, the last perhaps without.\<close>

fun physical_lines :: "string \<Rightarrow> string \<Rightarrow> string list" where
  "physical_lines cur [] = (if cur = [] then [] else [cur])"
| "physical_lines cur (c # s) =
     (if c = CHR 0x0A then (cur @ [c]) # physical_lines [] s else physical_lines (cur @ [c]) s)"

definition is_ascii_whitespace :: "char \<Rightarrow> bool" where
  "is_ascii_whitespace c \<longleftrightarrow> c \<in> {CHR 0x20, CHR 0x09, CHR 0x0A, CHR 0x0C, CHR 0x0D}"

record AuditReadSummary =
  rs_entries :: nat
  rs_malformed :: nat

fun visit_line :: "('s \<Rightarrow> AuditEntry \<Rightarrow> 's) \<Rightarrow> AuditEntry option list \<Rightarrow> 's \<times> AuditReadSummary \<Rightarrow> 's \<times> AuditReadSummary" where
  "visit_line visit [] acc = acc"
| "visit_line visit (Some e # es) (s, m) = visit_line visit es (visit s e, m\<lparr>rs_entries := Suc (rs_entries m)\<rparr>)"
| "visit_line visit (None # es) (s, m) = (s, m\<lparr>rs_malformed := Suc (rs_malformed m)\<rparr>)"

definition visit_history ::
  "audit_json \<Rightarrow> ('s \<Rightarrow> AuditEntry \<Rightarrow> 's) \<Rightarrow> string option \<Rightarrow> 's \<Rightarrow> 's \<times> AuditReadSummary" where
  "visit_history J visit file s = (case file of
      None \<Rightarrow> (s, \<lparr>rs_entries = 0, rs_malformed = 0\<rparr>)
    | Some log \<Rightarrow> fold (\<lambda>l acc. if list_all is_ascii_whitespace l then acc else visit_line visit (aj_stream J l) acc)
        (physical_lines [] log) (s, \<lparr>rs_entries = 0, rs_malformed = 0\<rparr>))"

definition keep_newest :: "nat option \<Rightarrow> AuditEntry list \<Rightarrow> AuditEntry \<Rightarrow> AuditEntry list" where
  "keep_newest limit entries e = (if limit = Some 0 then entries
     else let entries = entries @ [e] in (case limit of
         Some m \<Rightarrow> if length entries > m then tl entries else entries
       | None \<Rightarrow> entries))"

definition read_history_path :: "audit_json \<Rightarrow> string option \<Rightarrow> nat option \<Rightarrow> AuditEntry list \<times> AuditReadSummary" where
  "read_history_path J file limit = visit_history J (keep_newest limit) file []"

definition read_history :: "audit_json \<Rightarrow> string option \<Rightarrow> nat option \<Rightarrow> AuditEntry list" where
  "read_history J file limit = fst (read_history_path J file limit)"

section \<open>What a reader gets\<close>

text \<open>The entries of a physical line: those before the first undecodable bytes.\<close>

fun decoded :: "'a option list \<Rightarrow> 'a list" where
  "decoded [] = []"
| "decoded (None # es) = []"
| "decoded (Some e # es) = e # decoded es"

definition line_entries :: "audit_json \<Rightarrow> string \<Rightarrow> AuditEntry list" where
  "line_entries J l = (if list_all is_ascii_whitespace l then [] else decoded (aj_stream J l))"

definition log_entries :: "audit_json \<Rightarrow> string \<Rightarrow> AuditEntry list" where
  "log_entries J log = concat (map (line_entries J) (physical_lines [] log))"

definition newest :: "nat option \<Rightarrow> 'a list \<Rightarrow> 'a list" where
  "newest limit xs = (case limit of None \<Rightarrow> xs | Some n \<Rightarrow> drop (length xs - n) xs)"

text \<open>What the reader relies on of its JSON crate, for these entries: each is one object without a
  newline, and the stream yields it and goes on behind it.\<close>

definition json_ok :: "audit_json \<Rightarrow> AuditEntry list \<Rightarrow> bool" where
  "json_ok J es \<longleftrightarrow> aj_stream J [] = [] \<and> aj_stream J [CHR 0x0A] = []
     \<and> (\<forall>e \<in> set es. (\<forall>r. aj_stream J (aj_entry J e @ r) = Some e # aj_stream J r)
         \<and> CHR 0x0A \<notin> set (aj_entry J e) \<and> \<not> list_all is_ascii_whitespace (aj_entry J e))"

text \<open>\<open>writeln!\<close> on a file writes the line and the newline separately, so the appends of several
  processes can interleave between the two.\<close>

datatype log_write = EntryWritten AuditEntry | NewlineWritten

fun written_bytes :: "audit_json \<Rightarrow> log_write \<Rightarrow> string" where
  "written_bytes J (EntryWritten e) = aj_entry J e"
| "written_bytes J NewlineWritten = [CHR 0x0A]"

fun written_entries :: "log_write list \<Rightarrow> AuditEntry list" where
  "written_entries [] = []"
| "written_entries (EntryWritten e # ws) = e # written_entries ws"
| "written_entries (NewlineWritten # ws) = written_entries ws"

lemma visit_line_decoded: "fst (visit_line visit es acc) = fold (\<lambda>e s. visit s e) (decoded es) (fst acc)"
  by (induction visit es acc rule: visit_line.induct) simp_all

lemma visit_history_entries:
  "fst (visit_history J visit (Some log) s) = fold (\<lambda>e s. visit s e) (log_entries J log) s"
proof -
  have "fst (fold (\<lambda>l acc. if list_all is_ascii_whitespace l then acc else visit_line visit (aj_stream J l) acc) ls acc)
     = fold (\<lambda>e s. visit s e) (concat (map (line_entries J) ls)) (fst acc)" for ls acc
    by (induction ls arbitrary: acc) (simp_all add: line_entries_def visit_line_decoded)
  then show ?thesis by (simp add: visit_history_def log_entries_def)
qed

lemma newest_append: "newest limit (newest limit xs @ ys) = newest limit (xs @ ys)"
proof (cases limit)
  case (Some n)
  have last: "newest (Some n) zs = rev (take n (rev zs))" for zs :: "'a list" by (simp add: newest_def take_rev)
  show ?thesis by (simp add: Some last min_def)
qed (simp add: newest_def)

lemma keep_newest_fold:
  "newest limit acc = acc \<Longrightarrow> fold (\<lambda>e s. keep_newest limit s e) es acc = newest limit (acc @ es)"
proof (induction es arbitrary: acc)
  case (Cons e es)
  have step: "keep_newest limit acc e = newest limit (acc @ [e])"
  proof (cases limit)
    case (Some n)
    then have "length acc \<le> n" using Cons.prems by (auto simp: newest_def drop_eq_Nil dest!: arg_cong [where f = length])
    then show ?thesis using Some
      by (cases n; cases acc) (auto simp: keep_newest_def newest_def Let_def le_Suc_eq Suc_diff_le)
  qed (simp add: keep_newest_def newest_def)
  have "newest limit (newest limit (acc @ [e])) = newest limit (acc @ [e])"
    using newest_append [of limit "acc @ [e]" "[]"] by simp
  then have "fold (\<lambda>e s. keep_newest limit s e) es (newest limit (acc @ [e])) = newest limit (newest limit (acc @ [e]) @ es)"
    by (rule Cons.IH)
  moreover have "newest limit (newest limit (acc @ [e]) @ es) = newest limit (acc @ e # es)"
    using newest_append [of limit "acc @ [e]" es] by simp
  ultimately show ?case using step by simp
qed (simp add: newest_def)

lemma read_history_newest: "read_history J (Some log) limit = newest limit (log_entries J log)"
proof -
  have "newest limit ([] :: AuditEntry list) = []" by (simp add: newest_def split: option.split)
  from keep_newest_fold [OF this] show ?thesis
    by (simp add: read_history_def read_history_path_def visit_history_entries)
qed

lemma physical_lines_skip: "CHR 0x0A \<notin> set x \<Longrightarrow> physical_lines cur (x @ s) = physical_lines (cur @ x) s"
  by (induction x arbitrary: cur) auto

lemma decoded_entries:
  assumes "json_ok J es" "aj_stream J r = []" "list_all is_ascii_whitespace r"
  shows "line_entries J (concat (map (aj_entry J) es) @ r) = es"
proof (cases es)
  case Nil
  then show ?thesis using assms(3) by (simp add: line_entries_def)
next
  case (Cons e es')
  have "aj_stream J (concat (map (aj_entry J) es) @ r) = map Some es"
    using assms by (induction es) (simp_all add: json_ok_def)
  moreover have "decoded (map Some es) = es" by (induction es) simp_all
  moreover have "\<not> list_all is_ascii_whitespace (concat (map (aj_entry J) es) @ r)"
    using assms(1) Cons by (simp add: json_ok_def)
  ultimately show ?thesis by (auto simp: line_entries_def)
qed

lemma json_okD:
  assumes "json_ok J es" "e \<in> set es"
  shows "aj_stream J (aj_entry J e @ r) = Some e # aj_stream J r" "CHR 0x0A \<notin> set (aj_entry J e)"
    "\<not> list_all is_ascii_whitespace (aj_entry J e)"
  using assms by (auto simp: json_ok_def)

lemma log_entries_written:
  "json_ok J (es @ written_entries ws) \<Longrightarrow>
   concat (map (line_entries J) (physical_lines (concat (map (aj_entry J) es))
     (concat (map (written_bytes J) ws)))) = es @ written_entries ws"
proof (induction ws arbitrary: es)
  case Nil
  then have J: "json_ok J es" by simp
  have "line_entries J (concat (map (aj_entry J) es) @ []) = es"
    by (rule decoded_entries) (use J in \<open>simp_all add: json_ok_def\<close>)
  moreover have "es = []" if "concat (map (aj_entry J) es) = []"
  proof (cases es)
    case (Cons e es')
    then have "aj_entry J e = []" using that by simp
    moreover have "\<not> list_all is_ascii_whitespace (aj_entry J e)" using json_okD(3) [OF J] Cons by simp
    ultimately show ?thesis by simp
  qed
  ultimately show ?case by auto
next
  case (Cons w ws)
  show ?case
  proof (cases w)
    case (EntryWritten e)
    then have "CHR 0x0A \<notin> set (aj_entry J e)" using json_okD(2) [OF Cons.prems] by simp
    then show ?thesis using Cons.IH [of "es @ [e]"] Cons.prems EntryWritten by (simp add: physical_lines_skip)
  next
    case NewlineWritten
    have J: "json_ok J es" "json_ok J (written_entries ws)" using Cons.prems NewlineWritten by (simp_all add: json_ok_def)
    have "line_entries J (concat (map (aj_entry J) es) @ [CHR 0x0A]) = es"
      by (rule decoded_entries [OF J(1)]) (use J in \<open>simp_all add: json_ok_def is_ascii_whitespace_def\<close>)
    then show ?thesis using Cons.IH [of "[]"] J(2) NewlineWritten by simp
  qed
qed

section \<open>A sample log\<close>

definition sample_row :: "string \<Rightarrow> AuditEntry" where
  "sample_row wrap = audit_new 0 ''/'' wrap [] \<lparr>cc_frames = [], cc_truncated = False\<rparr> [] Approve"

fun sample_stream :: "string \<Rightarrow> AuditEntry option list" where
  "sample_stream [] = []"
| "sample_stream (c # s) = (if is_ascii_whitespace c then sample_stream s
     else if c = CHR ''g'' \<or> c = CHR ''n'' then Some (sample_row [c]) # sample_stream s else [None])"

definition sample_json :: audit_json where
  "sample_json = \<lparr>aj_entry = ae_wrap, aj_survivors = (\<lambda>_. ''s''), aj_stream = sample_stream\<rparr>"

lemma sample_json_ok: "json_ok sample_json [sample_row ''g'', sample_row ''n'']"
  by (simp add: json_ok_def sample_json_def is_ascii_whitespace_def sample_row_def audit_new_def)

section \<open>Properties\<close>

text \<open>
  However the appends of concurrent processes interleave, even with two entries on one
  line and blank lines between, a reader gets every entry in the order written; with a limit,
  the newest ones.
\<close>

theorem interleaved_appends_lose_nothing:
  assumes "json_ok J (written_entries ws)"
  shows "read_history J (Some (concat (map (written_bytes J) ws))) limit = newest limit (written_entries ws)"
  using log_entries_written [of J "[]" ws] assms by (simp add: read_history_newest log_entries_def)

theorem interleaved_appends_lose_nothing_witness:
  "read_history sample_json (Some (''gn'' @ [CHR 0x0A, CHR 0x0A])) (Some 1) = [sample_row ''n'']"
proof -
  let ?ws = "[EntryWritten (sample_row ''g''), EntryWritten (sample_row ''n''), NewlineWritten, NewlineWritten]"
  have "json_ok sample_json (written_entries ?ws)" using sample_json_ok by simp
  from interleaved_appends_lose_nothing [OF this, of "Some 1"] show ?thesis
    by (simp add: sample_json_def sample_row_def audit_new_def newest_def)
qed

end
