(* ===== verification/Windows.thy ===== *)
theory Windows
  imports Messages Audit_Log Resolution
begin

text \<open>
  The window bookkeeping of \<open>src/packages/secreq/src/daemon/state.rs\<close>: the spawn debounce, the
  reaper of exited children, and the groups of attached subscribers with their broadcasts.

  What the daemon's process gives an operation is the record \<open>host\<close>: the clocks (read once per
  operation; instants are nanoseconds), the random bytes drawn, the digest, which receivers take
  a message at the moment of the \<open>n\<close>-th effect, the wait status of children, and whether
  \<open>audit.log\<close> takes a row, and what the resolver calls on. What an operation does to the outside is appended to a log of \<open>effect\<close>s.
\<close>

section \<open>The host and the effects\<close>

datatype wait_status = StillRunning | HasExited | WaitError

record host =
  ho_now :: nat
  ho_unix_secs :: nat
  ho_unix_millis :: nat
  ho_random :: string
  ho_sha256_hex :: "string \<Rightarrow> string"
  ho_accepts :: "nat \<Rightarrow> nat \<Rightarrow> bool"
  ho_try_wait :: "nat \<Rightarrow> wait_status"
  ho_append :: "AuditEntry \<Rightarrow> bool"
  ho_outside :: outside

text \<open>Channels are numbers. A reply names the waiter it goes to; \<open>Landed\<close> notes a decision taken
  on a queued ask, with the process it was chosen to hold for, and \<open>Withdrawn\<close> a waiter whose
  client went away, its audit row and whether the log took it.\<close>

datatype effect =
    ToWindow nat DaemonMsg
  | ToLink nat LinkEvent
  | ToWaiter nat WaiterReply
  | Landed Ask Decision "ProcessIdentity option"
  | Withdrawn nat AuditEntry bool

definition mint_link_request_id :: "string \<Rightarrow> string" where
  "mint_link_request_id bs = concat (map (\<lambda>b. let n = (of_char b :: nat) in
     [''0123456789abcdef'' ! (n div 16), ''0123456789abcdef'' ! (n mod 16)]) bs)"

section \<open>Spawning and reaping children\<close>

type_synonym SpawnDebounce = "nat option"

definition CONSENT_SPAWN_TIMEOUT :: nat where
  "CONSENT_SPAWN_TIMEOUT = 3 * NANOS"

text \<open>\<open>in_flight\<close>: whether a spawn is under way, and the mark after a stale one was cleared.\<close>

definition spawn_in_flight :: "nat \<Rightarrow> SpawnDebounce \<Rightarrow> bool \<times> SpawnDebounce" where
  "spawn_in_flight now d = (case d of
      Some at \<Rightarrow> if now - at < CONSENT_SPAWN_TIMEOUT then (True, d) else (False, None)
    | None \<Rightarrow> (False, None))"

definition spawn_mark :: "nat \<Rightarrow> SpawnDebounce \<Rightarrow> SpawnDebounce" where
  "spawn_mark now d = Some now"

definition spawn_clear :: "SpawnDebounce \<Rightarrow> SpawnDebounce" where
  "spawn_clear d = None"

type_synonym ChildReaper = "nat list"

definition adopt :: "nat \<Rightarrow> ChildReaper \<Rightarrow> ChildReaper" where
  "adopt child r = r @ [child]"

definition reap :: "(nat \<Rightarrow> wait_status) \<Rightarrow> ChildReaper \<Rightarrow> nat \<times> ChildReaper" where
  "reap wait r = (let kept = filter (\<lambda>c. wait c = StillRunning) r in (length r - length kept, kept))"

section \<open>Subscriber groups\<close>

record 'x Subscriber =
  sb_id :: nat
  sb_tx :: nat
  sb_extra :: 'x

record ConsentExtra =
  ce_pid :: nat
  ce_focused :: bool

record ManagerExtra =
  me_pid :: nat

record 'x SubscriberGroup =
  gr_label :: string
  gr_subscribers :: "'x Subscriber list"
  gr_next_id :: nat
  gr_spawn :: SpawnDebounce

definition U64 :: nat where
  "U64 = 2 ^ 64"

definition new_group :: "string \<Rightarrow> 'x SubscriberGroup" where
  "new_group label = \<lparr>gr_label = label, gr_subscribers = [], gr_next_id = 1, gr_spawn = None\<rparr>"

definition attach :: "nat \<Rightarrow> 'x \<Rightarrow> 'x SubscriberGroup \<Rightarrow> nat \<times> 'x SubscriberGroup" where
  "attach tx extra g = (gr_next_id g, g\<lparr>gr_next_id := (gr_next_id g + 1) mod U64,
     gr_spawn := spawn_clear (gr_spawn g),
     gr_subscribers := gr_subscribers g @ [\<lparr>sb_id = gr_next_id g, sb_tx = tx, sb_extra = extra\<rparr>]\<rparr>)"

definition detach :: "nat \<Rightarrow> 'x SubscriberGroup \<Rightarrow> 'x SubscriberGroup" where
  "detach i g = g\<lparr>gr_subscribers := filter (\<lambda>s. sb_id s \<noteq> i) (gr_subscribers g)\<rparr>"

definition group_count :: "'x SubscriberGroup \<Rightarrow> nat" where
  "group_count g = length (gr_subscribers g)"

definition group_is_empty :: "'x SubscriberGroup \<Rightarrow> bool" where
  "group_is_empty g \<longleftrightarrow> gr_subscribers g = []"

definition first_pid :: "('x \<Rightarrow> nat option) \<Rightarrow> 'x SubscriberGroup \<Rightarrow> nat option" where
  "first_pid pid g = (case gr_subscribers g of [] \<Rightarrow> None | s # _ \<Rightarrow> pid (sb_extra s))"

text \<open>\<open>if let Some(s) = g.find_mut(id) { f(&mut s.extra) }\<close>: the first subscriber of that id.\<close>

fun find_mut :: "nat \<Rightarrow> ('x \<Rightarrow> 'x) \<Rightarrow> 'x Subscriber list \<Rightarrow> 'x Subscriber list" where
  "find_mut i f [] = []"
| "find_mut i f (s # ss) = (if sb_id s = i then s\<lparr>sb_extra := f (sb_extra s)\<rparr> # ss else s # find_mut i f ss)"

fun send_each :: "host \<Rightarrow> (nat \<Rightarrow> effect) \<Rightarrow> ('s \<Rightarrow> nat) \<Rightarrow> 's list \<Rightarrow> effect list \<Rightarrow> 's list \<times> effect list" where
  "send_each H msg tx [] out = ([], out)"
| "send_each H msg tx (s # ss) out = (if ho_accepts H (length out) (tx s)
     then (let (kept, out) = send_each H msg tx ss (out @ [msg (tx s)]) in (s # kept, out))
     else send_each H msg tx ss out)"

definition broadcast :: "host \<Rightarrow> DaemonMsg \<Rightarrow> 'x SubscriberGroup \<Rightarrow> effect list \<Rightarrow> 'x SubscriberGroup \<times> effect list" where
  "broadcast H msg g out = (let (kept, out) = send_each H (\<lambda>tx. ToWindow tx msg) sb_tx (gr_subscribers g) out
     in (g\<lparr>gr_subscribers := kept\<rparr>, out))"

record LinkSubscriber =
  lu_id :: nat
  lu_tx :: nat

record LinkSubscriberGroup =
  lg_subscribers :: "LinkSubscriber list"
  lg_next_id :: nat

definition new_link_group :: LinkSubscriberGroup where
  "new_link_group = \<lparr>lg_subscribers = [], lg_next_id = 1\<rparr>"

definition link_attach :: "nat \<Rightarrow> LinkSubscriberGroup \<Rightarrow> nat \<times> LinkSubscriberGroup" where
  "link_attach tx g = (lg_next_id g, g\<lparr>lg_next_id := (lg_next_id g + 1) mod U64,
     lg_subscribers := lg_subscribers g @ [\<lparr>lu_id = lg_next_id g, lu_tx = tx\<rparr>]\<rparr>)"

definition link_detach :: "nat \<Rightarrow> LinkSubscriberGroup \<Rightarrow> LinkSubscriberGroup" where
  "link_detach i g = g\<lparr>lg_subscribers := filter (\<lambda>s. lu_id s \<noteq> i) (lg_subscribers g)\<rparr>"

text \<open>A full or a disconnected channel loses its subscriber: \<open>try_send\<close> never waits.\<close>

definition link_broadcast :: "host \<Rightarrow> LinkEvent \<Rightarrow> LinkSubscriberGroup \<Rightarrow> effect list \<Rightarrow> LinkSubscriberGroup \<times> effect list" where
  "link_broadcast H ev g out = (let (kept, out) = send_each H (\<lambda>tx. ToLink tx ev) lu_tx (lg_subscribers g) out
     in (g\<lparr>lg_subscribers := kept\<rparr>, out))"

section \<open>What a broadcast leaves alone\<close>

text \<open>The effects of a broadcast, seen through a projection that ignores window traffic.\<close>

lemma send_each_filter:
  "(\<And>tx. \<not> P (msg tx)) \<Longrightarrow> filter P (snd (send_each H msg tx ss out)) = filter P out"
  by (induction ss arbitrary: out) (auto simp: split_beta)

definition to_screen :: "effect \<Rightarrow> bool" where
  "to_screen e = (case e of ToWindow _ _ \<Rightarrow> True | ToLink _ _ \<Rightarrow> True | _ \<Rightarrow> False)"

definition recorded :: "effect list \<Rightarrow> effect list" where
  "recorded out = filter (\<lambda>e. \<not> to_screen e) out"

lemma recorded_broadcast [simp]: "recorded (snd (broadcast H msg g out)) = recorded out"
  by (simp add: recorded_def broadcast_def split_beta send_each_filter to_screen_def)

lemma recorded_link_broadcast [simp]: "recorded (snd (link_broadcast H ev g out)) = recorded out"
  by (simp add: recorded_def link_broadcast_def split_beta send_each_filter to_screen_def)

lemma recorded_append [simp]: "recorded (xs @ ys) = recorded xs @ recorded ys"
  by (simp add: recorded_def)

lemma recorded_simps [simp]:
  "recorded [] = []" "recorded (ToWindow c m # out) = recorded out" "recorded (ToLink c v # out) = recorded out"
  "recorded (ToWaiter i r # out) = ToWaiter i r # recorded out" "recorded (Landed a d p # out) = Landed a d p # recorded out"
  "recorded (Withdrawn i e b # out) = Withdrawn i e b # recorded out"
  by (simp_all add: recorded_def to_screen_def)

text \<open>Everyone still attached after a broadcast was sent the message, and nobody else was dropped
  than those who would not take it.\<close>

lemma send_each_delivers:
  "send_each H msg tx ss out = (kept, out') \<Longrightarrow> out' = out @ map (\<lambda>s. msg (tx s)) kept \<and> set kept \<subseteq> set ss"
proof (induction ss arbitrary: out kept out')
  case (Cons s ss)
  obtain k o' where rest: "send_each H msg tx ss (out @ [msg (tx s)]) = (k, o')" by force
  show ?case
  proof (cases "ho_accepts H (length out) (tx s)")
    case True
    then show ?thesis using Cons.prems Cons.IH [OF rest] rest by auto
  next
    case False
    then show ?thesis using Cons.prems Cons.IH [of out kept out'] by auto
  qed
qed simp

end
