(* ===== verification/Daemon_State.thy ===== *)
theory Daemon_State
  imports Windows
begin

text \<open>
  \<open>src/packages/secreq/src/daemon/state.rs\<close>: the state of the daemon and the operations on it
  that are not the queue's transitions: attaching windows and linked devices, snapshots and
  their broadcast, the remembered approvals and grants, and the suppression of asks nobody can
  answer. Each operation holds the state's mutex, so it is a function on the state record. The
  field \<open>st_out\<close> logs the effects, \<open>st_jobs\<close> holds the resolver threads that were spawned and
  have not finished, and \<open>st_memory\<close> is the cache and the slots those threads share.
\<close>

section \<open>The state\<close>

record Waiter =
  wt_id :: nat
  wt_sender :: nat
  wt_requested :: "SecretAsk list"
  wt_command :: "string list"
  wt_cwd :: string
  wt_callers :: "WireCaller list"
  wt_callers_truncated :: bool
  wt_sign_anchor :: "AuditSignAnchor option"
  wt_declared_by :: "ScopeDeclarant option"

record QueueEntry =
  qe_key :: DedupeKey
  qe_request_id :: string
  qe_representative :: Ask
  qe_waiters :: "Waiter list"
  qe_first_seen :: nat

definition waiter_count :: "QueueEntry \<Rightarrow> nat" where
  "waiter_count e = length (qe_waiters e)"

record PendingEntry =
  pe_representative :: Ask
  pe_request_id :: string
  pe_since :: nat
  pe_resolving_since_unix_ms :: nat

record RunSession =
  rn_pid :: nat
  rn_nonce :: nat

definition run_session_of :: "Ask \<Rightarrow> RunSession option" where
  "run_session_of a = (case dk_anchor (ask_dedupe_key a) of
      RunSessionAnchor pid nonce \<Rightarrow> Some \<lparr>rn_pid = pid, rn_nonce = nonce\<rparr>
    | ProcessAnchor _ \<Rightarrow> None | AgentSocketAnchor _ \<Rightarrow> None)"

record AskSignature =
  ag_wrap :: string
  ag_argv :: string
  ag_caller :: "ProcessIdentity option"

record AbandonStreak =
  ak_count :: nat
  ak_last_abandon :: nat
  ak_quiet_until :: nat

text \<open>A spawned resolver thread: what it owns.\<close>

record Job =
  jb_key :: DedupeKey
  jb_entry :: QueueEntry
  jb_decision :: Decision
  jb_device :: "string option"
  jb_cold :: bool

record 'm State =
  st_queue :: "(DedupeKey, QueueEntry) hmap"
  st_pending :: "(DedupeKey, PendingEntry) hmap"
  st_approvals :: "ApprovalEntry list"
  st_ssh_grants :: "SshGrant list"
  st_abandon_streaks :: "(AskSignature, AbandonStreak) hmap"
  st_memory :: memory
  st_last_activity :: nat
  st_window_visible :: bool
  st_viewer_mode :: bool
  st_shutdown_flag :: bool
  st_consent :: "ConsentExtra SubscriberGroup"
  st_manager :: "ManagerExtra SubscriberGroup"
  st_window_children :: ChildReaper
  st_link :: LinkSubscriberGroup
  st_link_nonces :: NonceStore
  st_link_error :: "LinkResolveError option"
  st_consent_restart_pending :: bool
  st_queue_empty_since :: "nat option"
  st_rules_path :: "string option"
  st_scope_config :: "WrapsConfig option"
  st_rules :: "Rule list"
  st_rule_modules :: "'m RuleModules"
  st_wasm_refusals :: "WasmRefusal list"
  st_scope_refusals :: "WrapScopeRefusal list"
  st_rules_loaded_at :: "nat option"
  st_scope_config_loaded_at :: "nat option"
  st_waiter_next_id :: nat
  st_run_session_releases :: "(RunSession, (string \<times> string) list) hmap"
  st_jobs :: "Job list"
  st_out :: "effect list"

definition new_state :: "nat \<Rightarrow> memory \<Rightarrow> 'm State" where
  "new_state now M = \<lparr>st_queue = [], st_pending = [], st_approvals = [], st_ssh_grants = [],
     st_abandon_streaks = [], st_memory = M, st_last_activity = now, st_window_visible = False,
     st_viewer_mode = False, st_shutdown_flag = False, st_consent = new_group ''consent window'',
     st_manager = new_group ''manager window'', st_window_children = [], st_link = new_link_group,
     st_link_nonces = [], st_link_error = None, st_consent_restart_pending = False,
     st_queue_empty_since = Some now, st_rules_path = None, st_scope_config = None, st_rules = [],
     st_rule_modules = [], st_wasm_refusals = [], st_scope_refusals = [], st_rules_loaded_at = None,
     st_scope_config_loaded_at = None, st_waiter_next_id = 1, st_run_session_releases = [],
     st_jobs = [], st_out = []\<rparr>"

section \<open>Snapshots and broadcasts\<close>

text \<open>The source panics on a field of 4 GiB or more, which no message can hold.\<close>

definition ask_hash :: "host \<Rightarrow> Ask \<Rightarrow> string" where
  "ask_hash H a = (case canonical_hash (ho_sha256_hex H) a of Some h \<Rightarrow> h | None \<Rightarrow> [])"

definition refusals_snapshot :: "'m State \<Rightarrow> RuleRefusals" where
  "refusals_snapshot st = \<lparr>rf_wasm = st_wasm_refusals st, rf_patterns = pattern_refusals (st_rules st),
     rf_scopes = st_scope_refusals st\<rparr>"

definition secs_since :: "host \<Rightarrow> nat \<Rightarrow> nat" where
  "secs_since H t = (ho_now H - t) div NANOS"

definition queue_row :: "host \<Rightarrow> QueueEntry \<Rightarrow> WireQueueRow" where
  "queue_row H e = \<lparr>qr_request_id = qe_request_id e, qr_ask_hash_hex = ask_hash H (qe_representative e),
     qr_key = qe_key e, qr_representative = qe_representative e, qr_waiter_count = waiter_count e,
     qr_first_seen_secs_ago = secs_since H (qe_first_seen e), qr_status = Awaiting, qr_resolving_since = None\<rparr>"

definition pending_row :: "host \<Rightarrow> PendingEntry \<Rightarrow> WireQueueRow" where
  "pending_row H p = \<lparr>qr_request_id = pe_request_id p, qr_ask_hash_hex = ask_hash H (pe_representative p),
     qr_key = ask_dedupe_key (pe_representative p), qr_representative = pe_representative p, qr_waiter_count = 0,
     qr_first_seen_secs_ago = secs_since H (pe_since p), qr_status = RowResolving,
     qr_resolving_since = Some (pe_resolving_since_unix_ms p)\<rparr>"

definition snapshot_for_wire :: "host \<Rightarrow> 'm State \<Rightarrow> WireSnapshot" where
  "snapshot_for_wire H st = \<lparr>
     ws_queue = map (queue_row H) (hm_values (st_queue st)) @ map (pending_row H) (hm_values (st_pending st)),
     ws_viewer_mode = st_viewer_mode st, ws_link_error = st_link_error st, ws_rules = st_rules st,
     ws_refusals = refusals_snapshot st\<rparr>"

definition snapshot_for_link :: "host \<Rightarrow> 'm State \<Rightarrow> LinkSnapshot" where
  "snapshot_for_link H st = link_snapshot (snapshot_for_wire H st)"

text \<open>\<open>consent.broadcast(msg)\<close>, \<open>manager.broadcast(msg)\<close> and \<open>link.broadcast(event)\<close>.\<close>

definition tell_consent :: "host \<Rightarrow> DaemonMsg \<Rightarrow> 'm State \<Rightarrow> 'm State" where
  "tell_consent H msg st = (let (g, out) = broadcast H msg (st_consent st) (st_out st)
     in st\<lparr>st_consent := g, st_out := out\<rparr>)"

definition tell_manager :: "host \<Rightarrow> DaemonMsg \<Rightarrow> 'm State \<Rightarrow> 'm State" where
  "tell_manager H msg st = (let (g, out) = broadcast H msg (st_manager st) (st_out st)
     in st\<lparr>st_manager := g, st_out := out\<rparr>)"

definition tell_link :: "host \<Rightarrow> LinkEvent \<Rightarrow> 'm State \<Rightarrow> 'm State" where
  "tell_link H ev st = (let (g, out) = link_broadcast H ev (st_link st) (st_out st)
     in st\<lparr>st_link := g, st_out := out\<rparr>)"

definition broadcast_consent_update :: "host \<Rightarrow> 'm State \<Rightarrow> 'm State" where
  "broadcast_consent_update H st =
     (let snapshot = snapshot_for_wire H st;
          msg = ConsentUpdate snapshot
      in tell_link H (LinkSnap (link_snapshot snapshot)) (tell_manager H msg (tell_consent H msg st)))"

record QueueRow =
  qw_key :: DedupeKey
  qw_representative :: Ask
  qw_waiter_count :: nat
  qw_first_seen :: nat
  qw_status :: RowStatus

definition snapshot :: "'m State \<Rightarrow> QueueRow list" where
  "snapshot st = sort_key qw_first_seen
     (map (\<lambda>e. \<lparr>qw_key = qe_key e, qw_representative = qe_representative e, qw_waiter_count = waiter_count e,
        qw_first_seen = qe_first_seen e, qw_status = Awaiting\<rparr>) (hm_values (st_queue st))
      @ map (\<lambda>p. \<lparr>qw_key = ask_dedupe_key (pe_representative p), qw_representative = pe_representative p,
        qw_waiter_count = 0, qw_first_seen = pe_since p, qw_status = RowResolving\<rparr>) (hm_values (st_pending st)))"

section \<open>Windows\<close>

definition request_shutdown :: "host \<Rightarrow> 'm State \<Rightarrow> 'm State" where
  "request_shutdown H st = tell_link H LinkExitPlease (tell_consent H ConsentExitPlease (st\<lparr>st_shutdown_flag := True\<rparr>))"

definition attach_consent_window :: "host \<Rightarrow> nat \<Rightarrow> nat \<Rightarrow> 'm State \<Rightarrow> (nat \<times> WireSnapshot) \<times> 'm State" where
  "attach_consent_window H pid tx st =
     (let (i, g) = attach tx \<lparr>ce_pid = pid, ce_focused = True\<rparr> (st_consent st);
          st = st\<lparr>st_consent := g\<rparr>
      in ((i, snapshot_for_wire H st), st))"

definition consent_child_pid :: "'m State \<Rightarrow> nat option" where
  "consent_child_pid st = first_pid (\<lambda>e. Some (ce_pid e)) (st_consent st)"

definition initiate_consent_restart :: "host \<Rightarrow> 'm State \<Rightarrow> 'm State" where
  "initiate_consent_restart H st = (if group_is_empty (st_consent st) then st
     else let st = tell_consent H ConsentExitPlease (st\<lparr>st_consent_restart_pending := True\<rparr>)
       in st\<lparr>st_consent := (st_consent st)\<lparr>gr_subscribers := []\<rparr>\<rparr>)"

definition take_consent_restart_pending :: "'m State \<Rightarrow> bool \<times> 'm State" where
  "take_consent_restart_pending st = (st_consent_restart_pending st, st\<lparr>st_consent_restart_pending := False\<rparr>)"

definition detach_consent_window :: "nat \<Rightarrow> 'm State \<Rightarrow> 'm State" where
  "detach_consent_window i st = st\<lparr>st_consent := detach i (st_consent st)\<rparr>"

definition attach_link_events :: "host \<Rightarrow> nat \<Rightarrow> 'm State \<Rightarrow> (nat \<times> LinkSnapshot) \<times> 'm State" where
  "attach_link_events H tx st =
     (let (i, g) = link_attach tx (st_link st); st = st\<lparr>st_link := g\<rparr>
      in ((i, snapshot_for_link H st), st))"

definition detach_link_events :: "nat \<Rightarrow> 'm State \<Rightarrow> 'm State" where
  "detach_link_events i st = st\<lparr>st_link := link_detach i (st_link st)\<rparr>"

definition close_link_events :: "host \<Rightarrow> 'm State \<Rightarrow> 'm State" where
  "close_link_events H st = tell_link H LinkExitPlease st"

definition link_request_matches :: "host \<Rightarrow> string \<Rightarrow> string \<Rightarrow> 'm State \<Rightarrow> bool" where
  "link_request_matches H request_id ask_hash_hex st \<longleftrightarrow>
     list_ex (\<lambda>e. qe_request_id e = request_id \<and> ask_hash H (qe_representative e) = ask_hash_hex) (hm_values (st_queue st))"

definition adopt_window_child :: "nat \<Rightarrow> 'm State \<Rightarrow> 'm State" where
  "adopt_window_child child st = st\<lparr>st_window_children := adopt child (st_window_children st)\<rparr>"

definition reap_exited_window_children :: "host \<Rightarrow> 'm State \<Rightarrow> nat \<times> 'm State" where
  "reap_exited_window_children H st = (let (n, r) = reap (ho_try_wait H) (st_window_children st)
     in (n, st\<lparr>st_window_children := r\<rparr>))"

definition set_consent_focused :: "nat \<Rightarrow> bool \<Rightarrow> 'm State \<Rightarrow> 'm State" where
  "set_consent_focused i focused st = st\<lparr>st_consent := (st_consent st)\<lparr>gr_subscribers :=
     find_mut i (\<lambda>e. e\<lparr>ce_focused := focused\<rparr>) (gr_subscribers (st_consent st))\<rparr>\<rparr>"

definition any_consent_focused :: "'m State \<Rightarrow> bool" where
  "any_consent_focused st \<longleftrightarrow> list_ex (\<lambda>s. ce_focused (sb_extra s)) (gr_subscribers (st_consent st))"

definition attach_manager_window :: "host \<Rightarrow> nat \<Rightarrow> nat \<Rightarrow> 'm State \<Rightarrow> (nat \<times> WireSnapshot) \<times> 'm State" where
  "attach_manager_window H pid tx st =
     (let (i, g) = attach tx \<lparr>me_pid = pid\<rparr> (st_manager st); st = st\<lparr>st_manager := g\<rparr>
      in ((i, snapshot_for_wire H st), st))"

definition detach_manager_window :: "nat \<Rightarrow> 'm State \<Rightarrow> 'm State" where
  "detach_manager_window i st = (let st = st\<lparr>st_manager := detach i (st_manager st)\<rparr>
     in if group_is_empty (st_manager st) then st\<lparr>st_viewer_mode := False\<rparr> else st)"

definition manager_child_pid :: "'m State \<Rightarrow> nat option" where
  "manager_child_pid st = first_pid (\<lambda>e. Some (me_pid e)) (st_manager st)"

definition needs_manager_window :: "'m State \<Rightarrow> bool" where
  "needs_manager_window st \<longleftrightarrow> group_is_empty (st_manager st)"

definition manager_spawn_in_flight :: "host \<Rightarrow> 'm State \<Rightarrow> bool \<times> 'm State" where
  "manager_spawn_in_flight H st = (let (b, d) = spawn_in_flight (ho_now H) (gr_spawn (st_manager st))
     in (b, st\<lparr>st_manager := (st_manager st)\<lparr>gr_spawn := d\<rparr>\<rparr>))"

definition mark_manager_spawn_in_flight :: "host \<Rightarrow> 'm State \<Rightarrow> 'm State" where
  "mark_manager_spawn_in_flight H st = st\<lparr>st_manager := (st_manager st)\<lparr>gr_spawn :=
     spawn_mark (ho_now H) (gr_spawn (st_manager st))\<rparr>\<rparr>"

definition broadcast_auto_deny_toast :: "host \<Rightarrow> string \<Rightarrow> string option \<Rightarrow> 'm State \<Rightarrow> 'm State" where
  "broadcast_auto_deny_toast H rule_name deny_message st = tell_consent H (AutoDenyToast rule_name deny_message) st"

definition broadcast_consent_exit_please :: "host \<Rightarrow> 'm State \<Rightarrow> 'm State" where
  "broadcast_consent_exit_please H st = (if group_is_empty (st_consent st) then st
     else (tell_consent H ConsentExitPlease st)\<lparr>st_queue_empty_since := None\<rparr>)"

definition refresh_queue_empty_since :: "host \<Rightarrow> 'm State \<Rightarrow> 'm State" where
  "refresh_queue_empty_since H st = (if st_queue st = [] \<and> st_pending st = []
     then (if st_queue_empty_since st = None then st\<lparr>st_queue_empty_since := Some (ho_now H)\<rparr> else st)
     else st\<lparr>st_queue_empty_since := None\<rparr>)"

definition maybe_immediate_auto_hide :: "host \<Rightarrow> 'm State \<Rightarrow> 'm State" where
  "maybe_immediate_auto_hide H st = (if st_queue_empty_since st = None then st else broadcast_consent_exit_please H st)"

definition consent_spawn_in_flight :: "host \<Rightarrow> 'm State \<Rightarrow> bool \<times> 'm State" where
  "consent_spawn_in_flight H st = (let (b, d) = spawn_in_flight (ho_now H) (gr_spawn (st_consent st))
     in (b, st\<lparr>st_consent := (st_consent st)\<lparr>gr_spawn := d\<rparr>\<rparr>))"

definition mark_consent_spawn_in_flight :: "host \<Rightarrow> 'm State \<Rightarrow> 'm State" where
  "mark_consent_spawn_in_flight H st = st\<lparr>st_consent := (st_consent st)\<lparr>gr_spawn :=
     spawn_mark (ho_now H) (gr_spawn (st_consent st))\<rparr>\<rparr>"

definition show_window :: "host \<Rightarrow> 'm State \<Rightarrow> 'm State" where
  "show_window H st = broadcast_consent_update H (st\<lparr>st_window_visible := True\<rparr>)"

definition enter_viewer_mode :: "host \<Rightarrow> 'm State \<Rightarrow> 'm State" where
  "enter_viewer_mode H st = broadcast_consent_update H (st\<lparr>st_viewer_mode := True\<rparr>)"

definition hide_window :: "host \<Rightarrow> 'm State \<Rightarrow> 'm State" where
  "hide_window H st = broadcast_consent_update H (st\<lparr>st_window_visible := False\<rparr>)"

definition touch :: "host \<Rightarrow> 'm State \<Rightarrow> 'm State" where
  "touch H st = st\<lparr>st_last_activity := ho_now H\<rparr>"

definition prune_expired_secrets :: "'m State \<Rightarrow> nat \<times> 'm State" where
  "prune_expired_secrets st = (let (n, c) = prune_expired_at (me_now (st_memory st)) (me_cache (st_memory st))
     in (n, st\<lparr>st_memory := (st_memory st)\<lparr>me_cache := c\<rparr>\<rparr>))"

section \<open>Remembered approvals and grants\<close>

definition has_entry :: "ApprovalEntry list \<Rightarrow> string \<Rightarrow> ProcessIdentity \<Rightarrow> bool" where
  "has_entry approvals wrap scope \<longleftrightarrow> list_ex (\<lambda>e. ap_wrap e = wrap \<and> ap_parent e = scope) approvals"

definition approval_scope_for :: "ApprovalEntry list \<Rightarrow> Ask \<Rightarrow> ProcessIdentity option" where
  "approval_scope_for approvals ask =
     (let wrap = dk_wrap (ask_dedupe_key ask);
          ancestors = find (has_entry approvals wrap) (map wire_identity (drop 1 (callers ask)))
      in case process_identity (dk_anchor (ask_dedupe_key ask)) of
           Some direct \<Rightarrow> if has_entry approvals wrap direct then Some direct else ancestors
         | None \<Rightarrow> ancestors)"

definition has_cached_approval :: "Ask \<Rightarrow> 'm State \<Rightarrow> bool" where
  "has_cached_approval ask st \<longleftrightarrow> approval_scope_for (st_approvals st) ask \<noteq> None"

definition has_ssh_grant_at :: "string \<Rightarrow> ProcessIdentity \<Rightarrow> nat \<Rightarrow> 'm State \<Rightarrow> bool \<times> 'm State" where
  "has_ssh_grant_at key_id anchor now st =
     (let st = st\<lparr>st_ssh_grants := filter (\<lambda>g. now < sg_expires_at g) (st_ssh_grants st)\<rparr>
      in (list_ex (\<lambda>g. ssh_grant_matches g key_id anchor now) (st_ssh_grants st), st))"

definition remember_ssh_grant :: "SshGrant \<Rightarrow> 'm State \<Rightarrow> 'm State" where
  "remember_ssh_grant g st = (if g \<in> set (st_ssh_grants st) then st else st\<lparr>st_ssh_grants := st_ssh_grants st @ [g]\<rparr>)"

section \<open>Asks nobody can answer\<close>

definition ABANDON_SUPPRESS_AFTER :: nat where "ABANDON_SUPPRESS_AFTER = 3"

definition ABANDON_QUIET_BASE_SECS :: nat where "ABANDON_QUIET_BASE_SECS = 30"

definition ABANDON_QUIET_MAX_SECS :: nat where "ABANDON_QUIET_MAX_SECS = 300"

definition ABANDON_STREAK_RESET_SECS :: nat where "ABANDON_STREAK_RESET_SECS = 600"

definition U32_MAX :: nat where "U32_MAX = 2 ^ 32 - 1"

definition signature :: "string \<Rightarrow> string list \<Rightarrow> WireCaller list \<Rightarrow> AskSignature" where
  "signature wrap command cs = \<lparr>ag_wrap = wrap, ag_argv = joined_argv command,
     ag_caller = (case cs of [] \<Rightarrow> None | c # _ \<Rightarrow> Some (wire_identity c))\<rparr>"

definition waiter_signature :: "DedupeKey \<Rightarrow> Waiter \<Rightarrow> AskSignature" where
  "waiter_signature key w = signature (dk_wrap key) (wt_command w) (wt_callers w)"

definition record_abandonment_at :: "AskSignature \<Rightarrow> nat \<Rightarrow> 'm State \<Rightarrow> 'm State" where
  "record_abandonment_at sig now st =
     (let streaks = hm_retain (\<lambda>_ s. now - ak_last_abandon s \<le> ABANDON_STREAK_RESET_SECS) (st_abandon_streaks st);
          streak = (case hm_get streaks sig of Some s \<Rightarrow> s
            | None \<Rightarrow> \<lparr>ak_count = 0, ak_last_abandon = now, ak_quiet_until = 0\<rparr>);
          streak = (if now - ak_last_abandon streak > ABANDON_STREAK_RESET_SECS
            then streak\<lparr>ak_count := 0, ak_quiet_until := 0\<rparr> else streak);
          streak = streak\<lparr>ak_count := min U32_MAX (ak_count streak + 1), ak_last_abandon := now\<rparr>;
          streak = (if ak_count streak \<ge> ABANDON_SUPPRESS_AFTER
            then (let steps = ak_count streak - ABANDON_SUPPRESS_AFTER;
                      quiet = min (ABANDON_QUIET_BASE_SECS * 2 ^ min steps 6) ABANDON_QUIET_MAX_SECS
                  in streak\<lparr>ak_quiet_until := min U64_MAX (now + quiet)\<rparr>)
            else streak)
      in st\<lparr>st_abandon_streaks := hm_insert sig streak streaks\<rparr>)"

definition clear_abandon_streak :: "AskSignature \<Rightarrow> 'm State \<Rightarrow> 'm State" where
  "clear_abandon_streak sig st = st\<lparr>st_abandon_streaks := hm_remove sig (st_abandon_streaks st)\<rparr>"

definition waiter_suppressed_at :: "DedupeKey \<Rightarrow> Waiter \<Rightarrow> nat \<Rightarrow> 'm State \<Rightarrow> bool" where
  "waiter_suppressed_at key w now st = (case hm_get (st_abandon_streaks st) (waiter_signature key w) of
      Some s \<Rightarrow> now < ak_quiet_until s | None \<Rightarrow> False)"

definition entry_is_suppressed_at :: "QueueEntry \<Rightarrow> nat \<Rightarrow> 'm State \<Rightarrow> bool" where
  "entry_is_suppressed_at e now st \<longleftrightarrow> qe_waiters e \<noteq> []
     \<and> list_all (\<lambda>w. waiter_suppressed_at (qe_key e) w now st) (qe_waiters e)"

definition needs_consent_window_at :: "nat \<Rightarrow> 'm State \<Rightarrow> bool" where
  "needs_consent_window_at now st = (if \<not> group_is_empty (st_consent st) then False
     else if st_pending st \<noteq> [] then True
     else list_ex (\<lambda>e. \<not> entry_is_suppressed_at e now st) (hm_values (st_queue st)))"

definition needs_consent_window :: "host \<Rightarrow> 'm State \<Rightarrow> bool" where
  "needs_consent_window H st = needs_consent_window_at (ho_unix_secs H) st"

section \<open>What the window operations leave alone\<close>

text \<open>The rest of the state: everything but the windows, the activity clocks and the log.\<close>

definition core :: "'m State \<Rightarrow> 'm State" where
  "core st = st\<lparr>st_last_activity := 0, st_window_visible := False, st_viewer_mode := False,
     st_shutdown_flag := False, st_consent := new_group [], st_manager := new_group [],
     st_window_children := [], st_link := new_link_group, st_link_error := None,
     st_consent_restart_pending := False, st_queue_empty_since := None, st_out := recorded (st_out st)\<rparr>"

named_theorems core_simps \<open>operations that touch only windows, clocks and screens\<close>

lemma core_tell_consent [core_simps]: "core (tell_consent H m st) = core st"
  using recorded_broadcast [of H m "st_consent st" "st_out st"] by (simp add: tell_consent_def core_def split_beta)

lemma core_tell_manager [core_simps]: "core (tell_manager H m st) = core st"
  using recorded_broadcast [of H m "st_manager st" "st_out st"] by (simp add: tell_manager_def core_def split_beta)

lemma core_tell_link [core_simps]: "core (tell_link H ev st) = core st"
  using recorded_link_broadcast [of H ev "st_link st" "st_out st"] by (simp add: tell_link_def core_def split_beta)

lemma core_broadcast_consent_update [core_simps]: "core (broadcast_consent_update H st) = core st"
  by (simp add: broadcast_consent_update_def Let_def core_simps)

lemma core_updates [core_simps]:
  "core (st\<lparr>st_last_activity := t\<rparr>) = core st" "core (st\<lparr>st_window_visible := b\<rparr>) = core st"
  "core (st\<lparr>st_viewer_mode := b\<rparr>) = core st" "core (st\<lparr>st_shutdown_flag := b\<rparr>) = core st"
  "core (st\<lparr>st_consent := g\<rparr>) = core st" "core (st\<lparr>st_manager := m\<rparr>) = core st"
  "core (st\<lparr>st_window_children := r\<rparr>) = core st" "core (st\<lparr>st_link := l\<rparr>) = core st"
  "core (st\<lparr>st_link_error := e\<rparr>) = core st" "core (st\<lparr>st_consent_restart_pending := b\<rparr>) = core st"
  "core (st\<lparr>st_queue_empty_since := o'\<rparr>) = core st"
  by (simp_all add: core_def)

lemma core_window_ops [core_simps]:
  "core (request_shutdown H st) = core st" "core (initiate_consent_restart H st) = core st"
  "core (detach_consent_window i st) = core st" "core (detach_link_events i st) = core st"
  "core (close_link_events H st) = core st" "core (adopt_window_child c st) = core st"
  "core (set_consent_focused i b st) = core st" "core (detach_manager_window i st) = core st"
  "core (mark_manager_spawn_in_flight H st) = core st" "core (broadcast_auto_deny_toast H n d st) = core st"
  "core (mark_consent_spawn_in_flight H st) = core st" "core (show_window H st) = core st"
  "core (enter_viewer_mode H st) = core st" "core (hide_window H st) = core st" "core (touch H st) = core st"
  by (simp_all add: request_shutdown_def initiate_consent_restart_def detach_consent_window_def
      detach_link_events_def close_link_events_def adopt_window_child_def set_consent_focused_def
      detach_manager_window_def mark_manager_spawn_in_flight_def broadcast_auto_deny_toast_def
      mark_consent_spawn_in_flight_def show_window_def enter_viewer_mode_def hide_window_def touch_def
      Let_def core_simps)

lemma core_broadcast_consent_exit_please [core_simps]: "core (broadcast_consent_exit_please H st) = core st"
  by (simp add: broadcast_consent_exit_please_def core_simps)

lemma core_refresh [core_simps]: "core (refresh_queue_empty_since H st) = core st"
  by (simp add: refresh_queue_empty_since_def core_simps)

lemma core_auto_hide [core_simps]: "core (maybe_immediate_auto_hide H st) = core st"
  by (simp add: maybe_immediate_auto_hide_def core_simps)

end
