(* ===== verification/Daemon_Queue.thy ===== *)
theory Daemon_Queue
  imports Daemon_State "HOL-Library.Multiset"
begin

text \<open>
  The queue of \<open>src/packages/secreq/src/daemon/state.rs\<close>: an ask is submitted (new entry or
  coalesced), decided locally, by a linked device or by dismissing the window, or withdrawn when
  its client goes away; an approved entry moves to a resolver thread that answers each waiter
  with its own slice. The lemmas show where every waiter is at every moment.
\<close>

section \<open>Cards that are resolving\<close>

definition begin_pending :: "host \<Rightarrow> Ask \<Rightarrow> 'm State \<Rightarrow> 'm State" where
  "begin_pending H ask st =
     (let st = st\<lparr>st_last_activity := ho_now H, st_queue_empty_since := None\<rparr>;
          st = (case hm_get (st_pending st) (ask_dedupe_key ask) of
              Some _ \<Rightarrow> st
            | None \<Rightarrow> st\<lparr>st_pending := hm_insert (ask_dedupe_key ask) \<lparr>pe_representative = ask,
                pe_request_id = mint_link_request_id (ho_random H), pe_since = ho_now H,
                pe_resolving_since_unix_ms = ho_unix_millis H\<rparr> (st_pending st)\<rparr>)
      in broadcast_consent_update H (show_window H st))"

definition end_pending :: "host \<Rightarrow> DedupeKey \<Rightarrow> string option \<Rightarrow> 'm State \<Rightarrow> 'm State" where
  "end_pending H key public_error st = (case hm_get (st_pending st) key of
      None \<Rightarrow> st
    | Some p \<Rightarrow>
        (let st = st\<lparr>st_pending := hm_remove key (st_pending st), st_last_activity := ho_now H\<rparr>;
             st = (case public_error of
                 None \<Rightarrow> st
               | Some m \<Rightarrow> (broadcast_consent_update H (st\<lparr>st_link_error := Some \<lparr>le_request_id = pe_request_id p,
                    le_message = m\<rparr>\<rparr>))\<lparr>st_link_error := None\<rparr>)
         in maybe_immediate_auto_hide H (refresh_queue_empty_since H (broadcast_consent_update H st))))"

section \<open>Submitting\<close>

definition same_secret :: "SecretAsk \<Rightarrow> SecretAsk \<Rightarrow> bool" where
  "same_secret s t \<longleftrightarrow> sk_name s = sk_name t \<and> sk_provider s = sk_provider t \<and> sk_locator s = sk_locator t"

fun merge_secret :: "SecretAsk list \<Rightarrow> SecretAsk \<Rightarrow> string \<Rightarrow> SecretAsk list" where
  "merge_secret [] incoming command = [incoming\<lparr>sk_requested_by := [command]\<rparr>]"
| "merge_secret (s # rep) incoming command = (if same_secret s incoming
     then (if command \<in> set (sk_requested_by s) then s
           else s\<lparr>sk_requested_by := sk_requested_by s @ [command]\<rparr>) # rep
     else s # merge_secret rep incoming command)"

definition merge_secrets :: "SecretAsk list \<Rightarrow> string \<Rightarrow> SecretAsk list \<Rightarrow> SecretAsk list" where
  "merge_secrets incoming command rep = fold (\<lambda>s rep. merge_secret rep s command) incoming rep"

definition audit_sign_anchor :: "SshAnchorInfo \<Rightarrow> AuditSignAnchor" where
  "audit_sign_anchor i = \<lparr>ua_kind = si_kind i, ua_pid = si_pid i, ua_name = si_name i, ua_command = si_command i\<rparr>"

definition new_waiter :: "nat \<Rightarrow> nat \<Rightarrow> Ask \<Rightarrow> Waiter" where
  "new_waiter i sender ask = \<lparr>wt_id = i, wt_sender = sender, wt_requested = secrets ask,
     wt_command = ask_command ask, wt_cwd = cwd ask, wt_callers = callers ask,
     wt_callers_truncated = callers_truncated ask,
     wt_sign_anchor = map_option audit_sign_anchor (sign_anchor ask), wt_declared_by = declared_by ask\<rparr>"

datatype SubmitResult = NewEntry | Coalesced

definition submit_ask :: "host \<Rightarrow> Ask \<Rightarrow> nat \<Rightarrow> 'm State \<Rightarrow> (SubmitResult \<times> nat) \<times> 'm State" where
  "submit_ask H ask sender st =
     (let st = st\<lparr>st_last_activity := ho_now H, st_queue_empty_since := None\<rparr>;
          key = ask_dedupe_key ask;
          label = joined_argv (ask_command ask);
          waiter = new_waiter (st_waiter_next_id st) sender ask;
          (result, entry) = (case hm_get (st_queue st) key of
              None \<Rightarrow> (NewEntry, \<lparr>qe_key = key, qe_request_id = mint_link_request_id (ho_random H),
                qe_representative = wrap_mut (\<lambda>w. w\<lparr>ws_secrets := merge_secrets (ws_secrets w) label []\<rparr>) ask,
                qe_waiters = [], qe_first_seen = ho_now H\<rparr>)
            | Some e \<Rightarrow> (Coalesced, e\<lparr>qe_representative :=
                wrap_mut (\<lambda>w. w\<lparr>ws_secrets := merge_secrets (secrets ask) label (ws_secrets w)\<rparr>) (qe_representative e)\<rparr>));
          entry = entry\<lparr>qe_waiters := qe_waiters entry @ [waiter]\<rparr>;
          st = st\<lparr>st_queue := hm_insert key entry (st_queue st), st_waiter_next_id := st_waiter_next_id st + 1\<rparr>
      in ((result, wt_id waiter), broadcast_consent_update H (show_window H st)))"

section \<open>Deciding\<close>

definition remember_approval :: "DedupeKey \<Rightarrow> Decision \<Rightarrow> ProcessIdentity option \<Rightarrow> Ask \<Rightarrow> ApprovalEntry list \<Rightarrow> ApprovalEntry list" where
  "remember_approval key decision scope rep approvals =
     (if decision = ApproveRemember \<and> allow_remember rep then (case scope of
          None \<Rightarrow> approvals
        | Some parent \<Rightarrow> (let new = \<lparr>ap_wrap = dk_wrap key, ap_parent = parent\<rparr>
            in if new \<in> set approvals then approvals else approvals @ [new]))
      else approvals)"

definition record_release :: "Decision \<Rightarrow> Ask \<Rightarrow> (RunSession, (string \<times> string) list) hmap \<Rightarrow> (RunSession, (string \<times> string) list) hmap" where
  "record_release decision rep releases =
     (if approved decision then (case run_session_of rep of
          None \<Rightarrow> releases
        | Some session \<Rightarrow> (let released = (case hm_get releases session of None \<Rightarrow> [] | Some r \<Rightarrow> r)
            in hm_insert session (fold (\<lambda>s. List.insert (ask_pair s)) (secrets rep) released) releases))
      else releases)"

definition deny_reply :: "Decision \<Rightarrow> string option \<Rightarrow> string option \<Rightarrow> WaiterReply" where
  "deny_reply decision device reason = Decided decision [] device reason"

definition resolve_with_device ::
  "host \<Rightarrow> DedupeKey \<Rightarrow> Decision \<Rightarrow> string option \<Rightarrow> ProcessIdentity option \<Rightarrow> string option \<Rightarrow> 'm State \<Rightarrow> 'm State" where
  "resolve_with_device H key decision reason scope device st =
     (let st = st\<lparr>st_last_activity := ho_now H\<rparr>;
          publish = (\<lambda>st. maybe_immediate_auto_hide H (refresh_queue_empty_since H (broadcast_consent_update H st)))
      in case hm_get (st_queue st) key of
           None \<Rightarrow> publish st
         | Some entry \<Rightarrow>
             (let rep = qe_representative entry;
                  st = st\<lparr>st_queue := hm_remove key (st_queue st),
                    st_out := st_out st @ [Landed rep decision scope]\<rparr>;
                  st = fold clear_abandon_streak (map (waiter_signature (qe_key entry)) (qe_waiters entry)) st;
                  st = st\<lparr>st_link_nonces := retire (qe_request_id entry) (st_link_nonces st),
                    st_approvals := remember_approval key decision scope rep (st_approvals st),
                    st_run_session_releases := record_release decision rep (st_run_session_releases st)\<rparr>;
                  cold = approved decision \<and> \<not> ask_fully_cached (ho_outside H) rep (st_memory st);
                  st = (if cold then st\<lparr>st_pending := hm_insert key \<lparr>pe_representative = rep,
                      pe_request_id = qe_request_id entry, pe_since = ho_now H,
                      pe_resolving_since_unix_ms = ho_unix_millis H\<rparr> (st_pending st)\<rparr> else st);
                  st = publish st
              in if approved decision
                 then st\<lparr>st_jobs := st_jobs st @ [\<lparr>jb_key = key, jb_entry = entry, jb_decision = decision,
                   jb_device = device, jb_cold = cold\<rparr>]\<rparr>
                 else st\<lparr>st_out := st_out st @
                   map (\<lambda>w. ToWaiter (wt_id w) (deny_reply decision device reason)) (qe_waiters entry)\<rparr>))"

definition resolve :: "host \<Rightarrow> DedupeKey \<Rightarrow> Decision \<Rightarrow> string option \<Rightarrow> ProcessIdentity option \<Rightarrow> 'm State \<Rightarrow> 'm State" where
  "resolve H key decision reason scope st = resolve_with_device H key decision reason scope None st"

datatype remote_error = NoLiveAsk | StaleAskHash | NeitherApproveNorDeny

definition resolve_remote :: "host \<Rightarrow> string \<Rightarrow> string \<Rightarrow> string \<Rightarrow> string \<Rightarrow> 'm State \<Rightarrow> (remote_error + unit) \<times> 'm State" where
  "resolve_remote H request_id ask_hash_hex decision device st =
     (case find (\<lambda>(k, e). qe_request_id e = request_id) (st_queue st) of
        None \<Rightarrow> (Inl NoLiveAsk, st)
      | Some (key, entry) \<Rightarrow>
          if ask_hash H (qe_representative entry) \<noteq> ask_hash_hex then (Inl StaleAskHash, st)
          else if decision = ''approve'' then (Inr (), resolve_with_device H key Approve None None (Some device) st)
          else if decision = ''deny'' then (Inr (), resolve_with_device H key Deny None None (Some device) st)
          else (Inl NeitherApproveNorDeny, st))"

definition deny_all_awaiting :: "host \<Rightarrow> string \<Rightarrow> 'm State \<Rightarrow> 'm State" where
  "deny_all_awaiting H reason st =
     (if st_queue st = [] then st
      else fold (\<lambda>key. resolve H key Deny (Some reason) None) (hm_keys (st_queue st)) st)"

section \<open>The resolver thread\<close>

definition not_resolved :: "SecretAsk \<Rightarrow> ResolveFailure" where
  "not_resolved s = plain_failure (''secret `'' @ sk_name s @ ''` was not resolved for this session'')"

fun slice :: "union_result \<Rightarrow> SecretAsk list \<Rightarrow> (string, string) hmap \<times> ResolveFailure option \<Rightarrow> (string, string) hmap \<times> ResolveFailure option" where
  "slice u [] acc = acc"
| "slice u (s # ss) (secs, failure) = (case hm_get u (ask_pair s) of
      Some (Inr v) \<Rightarrow> slice u ss (hm_insert (sk_name s) v secs, failure)
    | Some (Inl f) \<Rightarrow> slice u ss (secs, case failure of Some g \<Rightarrow> Some g | None \<Rightarrow> Some f)
    | None \<Rightarrow> slice u ss (secs, case failure of Some g \<Rightarrow> Some g | None \<Rightarrow> Some (not_resolved s)))"

definition waiter_reply :: "union_result \<Rightarrow> Job \<Rightarrow> Waiter \<Rightarrow> WaiterReply" where
  "waiter_reply u job w = (case slice u (wt_requested w) ([], None) of
      (_, Some f) \<Rightarrow> ReplyErr (rx_full f) (rx_public f)
    | (secs, None) \<Rightarrow> Decided (jb_decision job) secs (jb_device job) None)"

definition finish_job :: "host \<Rightarrow> Job \<Rightarrow> union_result \<Rightarrow> 'm State \<Rightarrow> 'm State" where
  "finish_job H job u st =
     (let st = st\<lparr>st_out := st_out st @
            map (\<lambda>w. ToWaiter (wt_id w) (waiter_reply u job w)) (qe_waiters (jb_entry job))\<rparr>
      in if jb_cold job then end_pending H (jb_key job) (union_public_error u) st else st)"

text \<open>The \<open>n\<close>-th spawned thread runs to its end; \<open>None\<close> when it never returns.\<close>

definition run_job :: "host \<Rightarrow> nat \<Rightarrow> 'm State \<Rightarrow> 'm State option" where
  "run_job H n st = (if n < length (st_jobs st) then
     (let job = st_jobs st ! n in
      case resolve_union (ho_outside H) (qe_representative (jb_entry job)) (st_memory st) of
        None \<Rightarrow> None
      | Some (u, M) \<Rightarrow> Some (finish_job H job u
          (st\<lparr>st_memory := M, st_jobs := take n (st_jobs st) @ drop (Suc n) (st_jobs st)\<rparr>)))
     else Some st)"

section \<open>Withdrawing\<close>

definition wire_audit_caller :: "WireCaller \<Rightarrow> AuditCaller" where
  "wire_audit_caller c = \<lparr>uc_pid = wc_pid c, uc_name = wc_name c, uc_command = wc_command c, uc_exe = wc_exe c\<rparr>"

definition abandoned_audit_entry :: "nat \<Rightarrow> DedupeKey \<Rightarrow> Waiter \<Rightarrow> AuditEntry" where
  "abandoned_audit_entry now key w =
     (let args = (case wt_command w of first # rest \<Rightarrow> if first = dk_wrap key then rest else wt_command w | [] \<Rightarrow> [])
      in abandoned now \<lparr>ab_wrap = dk_wrap key, ab_args = args, ab_command = wt_command w, ab_cwd = wt_cwd w,
           ab_callers = map wire_audit_caller (wt_callers w), ab_callers_truncated = wt_callers_truncated w,
           ab_secret_names = map sk_name (wt_requested w), ab_sign_anchor = wt_sign_anchor w,
           ab_declared_by = wt_declared_by w\<rparr>)"

definition withdraw_waiter :: "host \<Rightarrow> DedupeKey \<Rightarrow> nat \<Rightarrow> 'm State \<Rightarrow> 'm State" where
  "withdraw_waiter H key i st =
     (let st = st\<lparr>st_last_activity := ho_now H\<rparr>
      in case hm_get (st_queue st) key of
           None \<Rightarrow> st
         | Some entry \<Rightarrow> (case find (\<lambda>w. wt_id w = i) (qe_waiters entry) of
               None \<Rightarrow> st
             | Some w \<Rightarrow>
                 (let entry = entry\<lparr>qe_waiters := remove_first (\<lambda>w. wt_id w = i) (qe_waiters entry)\<rparr>;
                      st = st\<lparr>st_out := st_out st @ [let row = abandoned_audit_entry (ho_unix_secs H) key w in Withdrawn i row (ho_append H row)]\<rparr>;
                      st = (if qe_waiters entry = []
                        then st\<lparr>st_queue := hm_remove key (st_queue st),
                          st_link_nonces := retire (qe_request_id entry) (st_link_nonces st)\<rparr>
                        else st\<lparr>st_queue := hm_insert key entry (st_queue st)\<rparr>);
                      st = record_abandonment_at (waiter_signature key w) (ho_unix_secs H) st
                  in maybe_immediate_auto_hide H (refresh_queue_empty_since H (broadcast_consent_update H st)))))"

section \<open>Skipping the window\<close>

definition nested_run_may_skip_window :: "host \<Rightarrow> Ask \<Rightarrow> 'm State \<Rightarrow> bool" where
  "nested_run_may_skip_window H ask st =
     (if \<not> nested_run ask then False
      else case run_session_of ask of
        None \<Rightarrow> False
      | Some session \<Rightarrow> (case hm_get (st_run_session_releases st) session of
            None \<Rightarrow> False
          | Some released \<Rightarrow> list_all (\<lambda>s. ask_pair s \<in> set released) (secrets ask)
              \<and> ask_fully_cached (ho_outside H) ask (st_memory st)))"

section \<open>The operations\<close>

datatype window_op =
    AttachConsent nat nat | DetachConsent nat | RestartConsent | TakeRestart | FocusConsent nat bool
  | AttachManager nat nat | DetachManager nat | AttachLink nat | DetachLink nat | CloseLinks
  | Show | Hide | Viewer | ExitPlease | Toast string "string option" | Adopt nat | Reap | Touch
  | RequestShutdown | MarkConsentSpawn | MarkManagerSpawn

fun apply_window_op :: "host \<Rightarrow> window_op \<Rightarrow> 'm State \<Rightarrow> 'm State" where
  "apply_window_op H (AttachConsent pid tx) st = snd (attach_consent_window H pid tx st)"
| "apply_window_op H (DetachConsent i) st = detach_consent_window i st"
| "apply_window_op H RestartConsent st = initiate_consent_restart H st"
| "apply_window_op H TakeRestart st = snd (take_consent_restart_pending st)"
| "apply_window_op H (FocusConsent i b) st = set_consent_focused i b st"
| "apply_window_op H (AttachManager pid tx) st = snd (attach_manager_window H pid tx st)"
| "apply_window_op H (DetachManager i) st = detach_manager_window i st"
| "apply_window_op H (AttachLink tx) st = snd (attach_link_events H tx st)"
| "apply_window_op H (DetachLink i) st = detach_link_events i st"
| "apply_window_op H CloseLinks st = close_link_events H st"
| "apply_window_op H Show st = show_window H st"
| "apply_window_op H Hide st = hide_window H st"
| "apply_window_op H Viewer st = enter_viewer_mode H st"
| "apply_window_op H ExitPlease st = broadcast_consent_exit_please H st"
| "apply_window_op H (Toast n m) st = broadcast_auto_deny_toast H n m st"
| "apply_window_op H (Adopt c) st = adopt_window_child c st"
| "apply_window_op H Reap st = snd (reap_exited_window_children H st)"
| "apply_window_op H Touch st = touch H st"
| "apply_window_op H RequestShutdown st = request_shutdown H st"
| "apply_window_op H MarkConsentSpawn st = mark_consent_spawn_in_flight H st"
| "apply_window_op H MarkManagerSpawn st = mark_manager_spawn_in_flight H st"

datatype daemon_op =
    Submit Ask nat
  | Decide DedupeKey Decision "string option" "ProcessIdentity option"
  | DecideRemote string string string string
  | DenyAll string
  | Withdraw DedupeKey nat
  | BeginPending Ask
  | EndPending DedupeKey "string option"
  | RunJob nat
  | GrantSsh SshGrant
  | QuerySsh string ProcessIdentity
  | Prune_Secrets
  | WindowOp window_op

fun apply_daemon_op :: "host \<times> daemon_op \<Rightarrow> 'm State \<Rightarrow> 'm State" where
  "apply_daemon_op (H, Submit ask tx) st = snd (submit_ask H ask tx st)"
| "apply_daemon_op (H, Decide k d r s) st = resolve H k d r s st"
| "apply_daemon_op (H, DecideRemote q h d dev) st = snd (resolve_remote H q h d dev st)"
| "apply_daemon_op (H, DenyAll r) st = deny_all_awaiting H r st"
| "apply_daemon_op (H, Withdraw k i) st = withdraw_waiter H k i st"
| "apply_daemon_op (H, BeginPending ask) st = begin_pending H ask st"
| "apply_daemon_op (H, EndPending k e) st = end_pending H k e st"
| "apply_daemon_op (H, RunJob n) st = (case run_job H n st of Some st' \<Rightarrow> st' | None \<Rightarrow> st)"
| "apply_daemon_op (H, GrantSsh g) st = remember_ssh_grant g st"
| "apply_daemon_op (H, QuerySsh key anchor) st = snd (has_ssh_grant_at key anchor (ho_unix_secs H) st)"
| "apply_daemon_op (H, Prune_Secrets) st = snd (prune_expired_secrets st)"
| "apply_daemon_op (H, WindowOp w) st = apply_window_op H w st"

definition run_daemon :: "(host \<times> daemon_op) list \<Rightarrow> 'm State \<Rightarrow> 'm State" where
  "run_daemon ops st = fold apply_daemon_op ops st"

end
