(* ===== verification/Queue_Invariants.thy ===== *)
theory Queue_Invariants
  imports Daemon_Queue
begin

text \<open>
  What holds of the daemon's queue after any sequence of operations
  (\<open>src/packages/secreq/src/daemon/state.rs\<close>): every waiter is parked, being resolved, answered
  once or withdrawn; approvals, releases and suppressed prompts are accounted for by decisions
  and withdrawals in the log.
\<close>

section \<open>Updates seen through the core\<close>

lemma core_push [core_simps]:
  "core (st\<lparr>st_queue := q\<rparr>) = (core st)\<lparr>st_queue := q\<rparr>"
  "core (st\<lparr>st_pending := p\<rparr>) = (core st)\<lparr>st_pending := p\<rparr>"
  "core (st\<lparr>st_approvals := a\<rparr>) = (core st)\<lparr>st_approvals := a\<rparr>"
  "core (st\<lparr>st_ssh_grants := g\<rparr>) = (core st)\<lparr>st_ssh_grants := g\<rparr>"
  "core (st\<lparr>st_abandon_streaks := s\<rparr>) = (core st)\<lparr>st_abandon_streaks := s\<rparr>"
  "core (st\<lparr>st_memory := m\<rparr>) = (core st)\<lparr>st_memory := m\<rparr>"
  "core (st\<lparr>st_link_nonces := n\<rparr>) = (core st)\<lparr>st_link_nonces := n\<rparr>"
  "core (st\<lparr>st_waiter_next_id := i\<rparr>) = (core st)\<lparr>st_waiter_next_id := i\<rparr>"
  "core (st\<lparr>st_run_session_releases := r\<rparr>) = (core st)\<lparr>st_run_session_releases := r\<rparr>"
  "core (st\<lparr>st_jobs := j\<rparr>) = (core st)\<lparr>st_jobs := j\<rparr>"
  "core (st\<lparr>st_out := out\<rparr>) = (core st)\<lparr>st_out := recorded out\<rparr>"
  by (simp_all add: core_def)

lemma core_fields [simp]:
  "st_queue (core st) = st_queue st" "st_pending (core st) = st_pending st"
  "st_approvals (core st) = st_approvals st" "st_ssh_grants (core st) = st_ssh_grants st"
  "st_abandon_streaks (core st) = st_abandon_streaks st" "st_memory (core st) = st_memory st"
  "st_link_nonces (core st) = st_link_nonces st" "st_waiter_next_id (core st) = st_waiter_next_id st"
  "st_run_session_releases (core st) = st_run_session_releases st" "st_jobs (core st) = st_jobs st"
  "st_out (core st) = recorded (st_out st)"
  by (simp_all add: core_def)

lemma core_retrieve:
  assumes "core a = core b"
  shows "st_queue a = st_queue b" "st_pending a = st_pending b" "st_approvals a = st_approvals b"
    "st_ssh_grants a = st_ssh_grants b" "st_abandon_streaks a = st_abandon_streaks b"
    "st_memory a = st_memory b" "st_link_nonces a = st_link_nonces b"
    "st_waiter_next_id a = st_waiter_next_id b" "st_run_session_releases a = st_run_session_releases b"
    "st_jobs a = st_jobs b" "recorded (st_out a) = recorded (st_out b)"
  using assms core_fields [of a] core_fields [of b] by metis+

lemma core_take_restart [core_simps]: "core (snd (take_consent_restart_pending st)) = core st"
  by (simp add: take_consent_restart_pending_def core_simps)

lemma core_attach [core_simps]:
  "core (snd (attach_consent_window H pid tx st)) = core st"
  "core (snd (attach_manager_window H pid tx st)) = core st" "core (snd (attach_link_events H tx st)) = core st"
  "core (snd (reap_exited_window_children H st)) = core st"
  by (simp_all add: attach_consent_window_def attach_manager_window_def attach_link_events_def
      reap_exited_window_children_def attach_def link_attach_def split_beta Let_def core_simps)

lemma core_window_op [core_simps]: "core (apply_window_op H w st) = core st"
  by (cases w) (simp_all add: core_simps)

lemma core_end_pending [core_simps]:
  "core (end_pending H key err st) = (core st)\<lparr>st_pending := hm_remove key (st_pending st)\<rparr>"
proof (cases "hm_get (st_pending st) key")
  case None
  then have "hm_remove key (st_pending st) = st_pending (core st)"
    by (metis core_fields(2) delete_id map_of_eq_None_iff)
  then show ?thesis using None by (simp add: end_pending_def)
next
  case (Some p)
  then show ?thesis by (simp add: end_pending_def Let_def core_simps split: option.split)
qed

lemma core_begin_pending [core_simps]:
  "core (begin_pending H ask st) = (core st)\<lparr>st_pending := (case hm_get (st_pending st) (ask_dedupe_key ask) of
     Some _ \<Rightarrow> st_pending st
   | None \<Rightarrow> hm_insert (ask_dedupe_key ask) \<lparr>pe_representative = ask,
                pe_request_id = mint_link_request_id (ho_random H), pe_since = ho_now H,
                pe_resolving_since_unix_ms = ho_unix_millis H\<rparr> (st_pending st))\<rparr>"
  by (simp add: begin_pending_def Let_def core_simps split: option.split)

lemma fold_clear: "fold clear_abandon_streak sigs st = st\<lparr>st_abandon_streaks := fold hm_remove sigs (st_abandon_streaks st)\<rparr>"
  by (induction sigs arbitrary: st) (simp_all add: clear_abandon_streak_def)

definition is_cold :: "host \<Rightarrow> Decision \<Rightarrow> Ask \<Rightarrow> 'm State \<Rightarrow> bool" where
  "is_cold H d rep st \<longleftrightarrow> approved d \<and> \<not> ask_fully_cached (ho_outside H) rep (st_memory st)"

lemma core_resolve_none:
  "hm_get (st_queue st) key = None \<Longrightarrow> core (resolve_with_device H key d reason scope dev st) = core st"
  by (simp add: resolve_with_device_def Let_def core_simps)

lemma core_resolve_some:
  assumes "hm_get (st_queue st) key = Some e"
  shows "core (resolve_with_device H key d reason scope dev st) = (core st)\<lparr>
     st_queue := hm_remove key (st_queue st),
     st_abandon_streaks := fold hm_remove (map (waiter_signature (qe_key e)) (qe_waiters e)) (st_abandon_streaks st),
     st_link_nonces := retire (qe_request_id e) (st_link_nonces st),
     st_approvals := remember_approval key d scope (qe_representative e) (st_approvals st),
     st_run_session_releases := record_release d (qe_representative e) (st_run_session_releases st),
     st_pending := (if is_cold H d (qe_representative e) st
       then hm_insert key \<lparr>pe_representative = qe_representative e, pe_request_id = qe_request_id e,
         pe_since = ho_now H, pe_resolving_since_unix_ms = ho_unix_millis H\<rparr> (st_pending st)
       else st_pending st),
     st_jobs := (if approved d then st_jobs st @ [\<lparr>jb_key = key, jb_entry = e, jb_decision = d, jb_device = dev,
       jb_cold = is_cold H d (qe_representative e) st\<rparr>] else st_jobs st),
     st_out := recorded (st_out st) @ [Landed (qe_representative e) d scope]
       @ (if approved d then [] else map (\<lambda>w. ToWaiter (wt_id w) (deny_reply d dev reason)) (qe_waiters e))\<rparr>"
proof -
  have replies: "recorded (map (\<lambda>w. ToWaiter (wt_id w) r) ws) = map (\<lambda>w. ToWaiter (wt_id w) r) ws" for r ws
    by (induction ws) simp_all
  have jobs: "st_jobs (maybe_immediate_auto_hide H (refresh_queue_empty_since H (broadcast_consent_update H s))) = st_jobs s"
    and out: "recorded (st_out (maybe_immediate_auto_hide H (refresh_queue_empty_since H (broadcast_consent_update H s)))) = recorded (st_out s)"
    for s :: "'a State" using core_retrieve(10,11) core_auto_hide core_refresh core_broadcast_consent_update by metis+
  show ?thesis
    by (simp add: resolve_with_device_def assms Let_def fold_clear core_simps is_cold_def jobs out replies)
qed

definition submitted_entry :: "host \<Rightarrow> Ask \<Rightarrow> nat \<Rightarrow> 'm State \<Rightarrow> QueueEntry" where
  "submitted_entry H ask sender st =
     (let label = joined_argv (ask_command ask); key = ask_dedupe_key ask;
          entry = (case hm_get (st_queue st) key of
              None \<Rightarrow> \<lparr>qe_key = key, qe_request_id = mint_link_request_id (ho_random H),
                qe_representative = wrap_mut (\<lambda>w. w\<lparr>ws_secrets := merge_secrets (ws_secrets w) label []\<rparr>) ask,
                qe_waiters = [], qe_first_seen = ho_now H\<rparr>
            | Some e \<Rightarrow> e\<lparr>qe_representative :=
                wrap_mut (\<lambda>w. w\<lparr>ws_secrets := merge_secrets (secrets ask) label (ws_secrets w)\<rparr>) (qe_representative e)\<rparr>)
      in entry\<lparr>qe_waiters := qe_waiters entry @ [new_waiter (st_waiter_next_id st) sender ask]\<rparr>)"

lemma core_submit:
  "core (snd (submit_ask H ask sender st)) = (core st)\<lparr>
     st_queue := hm_insert (ask_dedupe_key ask) (submitted_entry H ask sender st) (st_queue st),
     st_waiter_next_id := st_waiter_next_id st + 1\<rparr>"
  by (simp add: submit_ask_def submitted_entry_def Let_def core_simps split: option.split)

lemma core_withdraw_none:
  "hm_get (st_queue st) key = None \<Longrightarrow> core (withdraw_waiter H key i st) = core st"
  "hm_get (st_queue st) key = Some e \<Longrightarrow> find (\<lambda>w. wt_id w = i) (qe_waiters e) = None \<Longrightarrow>
   core (withdraw_waiter H key i st) = core st"
  by (simp_all add: withdraw_waiter_def Let_def core_simps)

lemma core_record_abandonment [core_simps]:
  "core (record_abandonment_at sig now st) = record_abandonment_at sig now (core st)"
  by (simp add: record_abandonment_at_def Let_def core_simps)

lemma core_withdraw_some:
  assumes "hm_get (st_queue st) key = Some e" "find (\<lambda>w. wt_id w = i) (qe_waiters e) = Some w"
    and "ws = remove_first (\<lambda>w. wt_id w = i) (qe_waiters e)"
  shows "core (withdraw_waiter H key i st) = record_abandonment_at (waiter_signature key w) (ho_unix_secs H) ((core st)\<lparr>
     st_queue := (if ws = [] then hm_remove key (st_queue st) else hm_insert key (e\<lparr>qe_waiters := ws\<rparr>) (st_queue st)),
     st_link_nonces := (if ws = [] then retire (qe_request_id e) (st_link_nonces st) else st_link_nonces st),
     st_out := recorded (st_out st) @ [Withdrawn i (abandoned_audit_entry (ho_unix_secs H) key w) (ho_append H (abandoned_audit_entry (ho_unix_secs H) key w))]\<rparr>)"
  using assms(1,2) unfolding assms(3)
  by (auto simp: withdraw_waiter_def Let_def core_simps
      intro!: arg_cong [where f = "record_abandonment_at (waiter_signature key w) (ho_unix_secs H)"])

lemma core_finish_job:
  "core (finish_job H job u st) = (core st)\<lparr>
     st_pending := (if jb_cold job then hm_remove (jb_key job) (st_pending st) else st_pending st),
     st_out := recorded (st_out st) @ map (\<lambda>w. ToWaiter (wt_id w) (waiter_reply u job w)) (qe_waiters (jb_entry job))\<rparr>"
proof -
  have replies: "recorded (map (\<lambda>w. ToWaiter (wt_id w) (f w)) ws) = map (\<lambda>w. ToWaiter (wt_id w) (f w)) ws" for f ws
    by (induction ws) simp_all
  show ?thesis by (simp add: finish_job_def Let_def core_simps replies)
qed

section \<open>Where every waiter is\<close>

definition ids_of :: "QueueEntry \<Rightarrow> nat multiset" where
  "ids_of e = mset (map wt_id (qe_waiters e))"

definition parked :: "'m State \<Rightarrow> nat multiset" where
  "parked st = sum_list (map (ids_of \<circ> snd) (st_queue st))"

definition resolving :: "'m State \<Rightarrow> nat multiset" where
  "resolving st = sum_list (map (ids_of \<circ> jb_entry) (st_jobs st))"

fun effect_answers :: "effect \<Rightarrow> nat multiset" where
  "effect_answers (ToWaiter i r) = {#i#}"
| "effect_answers (ToWindow c m) = {#}"
| "effect_answers (ToLink c v) = {#}"
| "effect_answers (Landed a d p) = {#}"
| "effect_answers (Withdrawn i e b) = {#}"

fun effect_withdraws :: "effect \<Rightarrow> nat multiset" where
  "effect_withdraws (Withdrawn i e b) = {#i#}"
| "effect_withdraws (ToWindow c m) = {#}"
| "effect_withdraws (ToLink c v) = {#}"
| "effect_withdraws (Landed a d p) = {#}"
| "effect_withdraws (ToWaiter i r) = {#}"

definition answered :: "'m State \<Rightarrow> nat multiset" where
  "answered st = sum_list (map effect_answers (st_out st))"

definition withdrawn :: "'m State \<Rightarrow> nat multiset" where
  "withdrawn st = sum_list (map effect_withdraws (st_out st))"

definition account :: "'m State \<Rightarrow> nat multiset" where
  "account st = parked st + resolving st + answered st + withdrawn st"

lemma sum_recorded:
  "sum_list (map effect_answers (recorded out)) = sum_list (map effect_answers out)"
  "sum_list (map effect_withdraws (recorded out)) = sum_list (map effect_withdraws out)"
proof -
  have "effect_answers e = {#} \<and> effect_withdraws e = {#}" if "to_screen e" for e
    using that by (cases e) (simp_all add: to_screen_def)
  then show "sum_list (map effect_answers (recorded out)) = sum_list (map effect_answers out)"
    "sum_list (map effect_withdraws (recorded out)) = sum_list (map effect_withdraws out)"
    by (induction out) (simp_all add: recorded_def)
qed

lemma account_core [simp]: "account (core st) = account st"
  by (simp add: account_def parked_def resolving_def answered_def withdrawn_def sum_recorded)

lemma account_cong: "core a = core b \<Longrightarrow> account a = account b"
  by (metis account_core)

lemma sum_delete:
  "hm_wf q \<Longrightarrow> sum_list (map (f \<circ> snd) q) = sum_list (map (f \<circ> snd) (hm_remove k q))
     + (case hm_get q k of None \<Rightarrow> {#} | Some e \<Rightarrow> f e)"
  for f :: "'v \<Rightarrow> 'i multiset"
proof (induction q)
  case (Cons p q)
  obtain k' e where p: "p = (k', e)" by (cases p)
  show ?case
  proof (cases "k' = k")
    case True
    then have "k \<notin> fst ` set q" using Cons.prems p by (simp add: hm_wf_def)
    then have "hm_remove k q = q" by (rule delete_id)
    then show ?thesis using True p by simp
  next
    case False
    then show ?thesis using Cons p by (simp add: hm_wf_def ac_simps)
  qed
qed simp

lemma sum_update:
  "hm_wf q \<Longrightarrow> sum_list (map (f \<circ> snd) (hm_insert k e q)) = sum_list (map (f \<circ> snd) (hm_remove k q)) + f e"
  for f :: "'v \<Rightarrow> 'i multiset"
proof (induction q)
  case (Cons p q)
  obtain k' e' where p: "p = (k', e')" by (cases p)
  show ?case
  proof (cases "k' = k")
    case True
    then have "k \<notin> fst ` set q" using Cons.prems p by (simp add: hm_wf_def)
    then have "hm_remove k q = q" by (rule delete_id)
    then show ?thesis using True p by simp
  next
    case False
    then show ?thesis using Cons p by (simp add: hm_wf_def ac_simps)
  qed
qed simp

definition conserved :: "'m State \<Rightarrow> bool" where
  "conserved st \<longleftrightarrow> hm_wf (st_queue st) \<and> 1 \<le> st_waiter_next_id st \<and> account st = mset [1..<st_waiter_next_id st]"

lemma conserved_core [simp]: "conserved (core st) = conserved st"
  by (simp add: conserved_def)

lemma conserved_cong: "core a = core b \<Longrightarrow> conserved b \<Longrightarrow> conserved a"
  by (metis conserved_core)

lemma wf_insert [simp]: "hm_wf q \<Longrightarrow> hm_wf (hm_insert k e q)"
  by (simp add: hm_wf_def distinct_update)

lemma wf_remove [simp]: "hm_wf q \<Longrightarrow> hm_wf (hm_remove k q)"
  by (simp add: hm_wf_def distinct_delete)

lemma ids_submitted:
  "ids_of (submitted_entry H ask sender st) =
   (case hm_get (st_queue st) (ask_dedupe_key ask) of None \<Rightarrow> {#} | Some e \<Rightarrow> ids_of e) + {#st_waiter_next_id st#}"
  by (simp add: submitted_entry_def Let_def ids_of_def new_waiter_def split: option.split)

lemma submit_conserved: "conserved st \<Longrightarrow> conserved (snd (submit_ask H ask sender st))"
proof -
  assume c: "conserved st"
  let ?k = "ask_dedupe_key ask"
  let ?st = "(core st)\<lparr>st_queue := hm_insert ?k (submitted_entry H ask sender st) (st_queue st),
     st_waiter_next_id := st_waiter_next_id st + 1\<rparr>"
  have wf: "hm_wf (st_queue st)" using c by (simp add: conserved_def)
  have "parked ?st = parked st + {#st_waiter_next_id st#}"
    using sum_update [OF wf, of ids_of ?k] sum_delete [OF wf, of ids_of ?k]
    by (simp add: parked_def ids_submitted)
  moreover have "resolving ?st = resolving (core st)" "answered ?st = answered (core st)" "withdrawn ?st = withdrawn (core st)"
    by (simp_all add: resolving_def answered_def withdrawn_def)
  moreover have "parked st = parked (core st)" by (simp add: parked_def)
  ultimately have "account ?st = account (core st) + {#st_waiter_next_id st#}" by (simp add: account_def)
  then have "conserved ?st" using c by (simp add: conserved_def upt_Suc_append)
  then show ?thesis using core_submit conserved_core by metis
qed

lemma account_parts:
  assumes "st_queue a = q" "st_jobs a = j" "sum_list (map effect_answers (st_out a)) = x" "sum_list (map effect_withdraws (st_out a)) = y"
  shows "account a = sum_list (map (ids_of \<circ> snd) q) + sum_list (map (ids_of \<circ> jb_entry) j) + x + y"
  using assms by (simp add: account_def parked_def resolving_def answered_def withdrawn_def)

lemma sum_answers:
  "sum_list (map effect_answers (map (\<lambda>w. ToWaiter (wt_id w) (f w)) (qe_waiters e))) = ids_of e"
  "sum_list (map effect_withdraws (map (\<lambda>w. ToWaiter (wt_id w) (f w)) (qe_waiters e))) = {#}"
proof -
  have "sum_list (map effect_answers (map (\<lambda>w. ToWaiter (wt_id w) (f w)) ws)) = mset (map wt_id ws)"
    "sum_list (map effect_withdraws (map (\<lambda>w. ToWaiter (wt_id w) (f w)) ws)) = {#}" for ws
    by (induction ws) simp_all
  then show "sum_list (map effect_answers (map (\<lambda>w. ToWaiter (wt_id w) (f w)) (qe_waiters e))) = ids_of e"
    "sum_list (map effect_withdraws (map (\<lambda>w. ToWaiter (wt_id w) (f w)) (qe_waiters e))) = {#}"
    by (simp_all add: ids_of_def)
qed

lemma resolve_conserved:
  assumes "conserved st"
  shows "conserved (resolve_with_device H key d reason scope dev st)"
proof (cases "hm_get (st_queue st) key")
  case None
  then show ?thesis using conserved_cong [OF core_resolve_none] assms by blast
next
  case (Some e)
  let ?r = "core (resolve_with_device H key d reason scope dev st)"
  have wf: "hm_wf (st_queue st)" using assms by (simp add: conserved_def)
  have q: "st_queue ?r = hm_remove key (st_queue st)" "st_waiter_next_id ?r = st_waiter_next_id st"
    by (simp_all add: core_resolve_some [OF Some] del: core_fields) simp_all
  have "account ?r = account st"
    using sum_delete [OF wf, of ids_of key] Some
    by (simp add: core_resolve_some [OF Some] account_def parked_def resolving_def answered_def withdrawn_def
        sum_answers sum_recorded del: map_map)
  then have "conserved ?r" using assms q by (simp add: conserved_def)
  then show ?thesis by simp
qed

lemma remove_first_ids:
  "find (\<lambda>w. wt_id w = i) ws = Some w \<Longrightarrow>
   mset (map wt_id ws) = mset (map wt_id (remove_first (\<lambda>w. wt_id w = i) ws)) + {#i#}"
  by (induction ws) (auto split: if_splits)

lemma record_abandonment_fields [simp]:
  "st_queue (record_abandonment_at sig now st) = st_queue st" "st_jobs (record_abandonment_at sig now st) = st_jobs st"
  "st_out (record_abandonment_at sig now st) = st_out st" "st_approvals (record_abandonment_at sig now st) = st_approvals st"
  "st_waiter_next_id (record_abandonment_at sig now st) = st_waiter_next_id st"
  "st_run_session_releases (record_abandonment_at sig now st) = st_run_session_releases st"
  "st_ssh_grants (record_abandonment_at sig now st) = st_ssh_grants st"
  by (simp_all add: record_abandonment_at_def Let_def)

lemma withdraw_conserved:
  assumes "conserved st"
  shows "conserved (withdraw_waiter H key i st)"
proof (cases "hm_get (st_queue st) key")
  case None
  then show ?thesis using conserved_cong [OF core_withdraw_none(1)] assms by blast
next
  case (Some e)
  show ?thesis
  proof (cases "find (\<lambda>w. wt_id w = i) (qe_waiters e)")
    case None
    then show ?thesis using conserved_cong [OF core_withdraw_none(2) [OF Some]] assms by blast
  next
    case w: (Some w)
    let ?r = "core (withdraw_waiter H key i st)" and ?ws = "remove_first (\<lambda>w. wt_id w = i) (qe_waiters e)"
    have wf: "hm_wf (st_queue st)" using assms by (simp add: conserved_def)
    have ids: "ids_of e = mset (map wt_id ?ws) + {#i#}" using remove_first_ids [OF w] by (simp add: ids_of_def)
    have eq: "?r = record_abandonment_at (waiter_signature key w) (ho_unix_secs H) ((core st)\<lparr>
       st_queue := (if ?ws = [] then hm_remove key (st_queue st) else hm_insert key (e\<lparr>qe_waiters := ?ws\<rparr>) (st_queue st)),
       st_link_nonces := (if ?ws = [] then retire (qe_request_id e) (st_link_nonces st) else st_link_nonces st),
       st_out := recorded (st_out st) @ [Withdrawn i (abandoned_audit_entry (ho_unix_secs H) key w) (ho_append H (abandoned_audit_entry (ho_unix_secs H) key w))]\<rparr>)"
      by (rule core_withdraw_some [OF Some w refl])
    have "account ?r = account st"
      using sum_delete [OF wf, of ids_of key] sum_update [OF wf, of ids_of key "e\<lparr>qe_waiters := ?ws\<rparr>"] Some ids
      unfolding eq
      by (simp add: account_def parked_def resolving_def answered_def withdrawn_def sum_recorded ids_of_def)
    moreover have "hm_wf (st_queue ?r)" "st_waiter_next_id ?r = st_waiter_next_id st"
      unfolding eq using wf by simp_all
    ultimately have "conserved ?r" using assms by (simp add: conserved_def)
    then show ?thesis by simp
  qed
qed

lemma finish_conserved:
  assumes "hm_wf (st_queue st)" "1 \<le> st_waiter_next_id st"
    and "account st + ids_of (jb_entry job) = mset [1..<st_waiter_next_id st]"
  shows "conserved (finish_job H job u st)"
proof -
  have "account (core (finish_job H job u st)) = account st + ids_of (jb_entry job)"
    by (simp add: core_finish_job account_def parked_def resolving_def answered_def withdrawn_def sum_recorded
        sum_answers del: map_map account_core)
  then have "conserved (core (finish_job H job u st))" using assms
    by (simp add: conserved_def core_finish_job del: conserved_core account_core)
  then show ?thesis by simp
qed

lemma run_job_conserved:
  assumes "conserved st" "run_job H n st = Some st'"
  shows "conserved st'"
proof (cases "n < length (st_jobs st)")
  case True
  let ?job = "st_jobs st ! n" and ?rest = "take n (st_jobs st) @ drop (Suc n) (st_jobs st)"
  obtain u M where st': "st' = finish_job H ?job u (st\<lparr>st_memory := M, st_jobs := ?rest\<rparr>)"
    using assms(2) True by (auto simp: run_job_def Let_def split: option.splits prod.splits)
  have "st_jobs st = take n (st_jobs st) @ ?job # drop (Suc n) (st_jobs st)" using True by (rule id_take_nth_drop)
  then have "resolving st = sum_list (map (ids_of \<circ> jb_entry) (take n (st_jobs st) @ ?job # drop (Suc n) (st_jobs st)))"
    unfolding resolving_def by (rule arg_cong)
  then have "account (st\<lparr>st_memory := M, st_jobs := ?rest\<rparr>) + ids_of (jb_entry ?job) = account st"
    by (simp add: account_def parked_def resolving_def answered_def withdrawn_def ac_simps)
  then show ?thesis unfolding st' using assms(1) by (intro finish_conserved) (simp_all add: conserved_def)
next
  case False
  then show ?thesis using assms by (simp add: run_job_def)
qed

lemma remote_cases:
  obtains err where "resolve_remote H q h d dev st = (Inl err, st)"
  | key e dec where "(key, e) \<in> set (st_queue st)" "qe_request_id e = q" "ask_hash H (qe_representative e) = h"
      "dec = Approve \<and> d = ''approve'' \<or> dec = Deny \<and> d = ''deny''"
      "resolve_remote H q h d dev st = (Inr (), resolve_with_device H key dec None None (Some dev) st)"
proof (cases "find (\<lambda>(k, e). qe_request_id e = q) (st_queue st)")
  case None
  then show ?thesis using that(1) by (simp add: resolve_remote_def)
next
  case (Some p)
  obtain key e where p: "p = (key, e)" by (cases p)
  obtain i where "i < length (st_queue st)" "st_queue st ! i = (key, e)" "qe_request_id e = q"
    using Some p by (auto simp: find_Some_iff)
  then have "(key, e) \<in> set (st_queue st)" "qe_request_id e = q" using nth_mem by force+
  note found = this
  note eq = resolve_remote_def [of H q h d dev st, unfolded Some p option.case prod.case]
  show ?thesis
  proof (cases "ask_hash H (qe_representative e) = h \<and> (d = ''approve'' \<or> d = ''deny'')")
    case True
    let ?dec = "if d = ''approve'' then Approve else Deny"
    show ?thesis by (rule that(2) [OF found, of ?dec]) (use True eq in auto)
  next
    case False
    then have "\<exists>err. resolve_remote H q h d dev st = (Inl err, st)" unfolding eq by simp
    then show ?thesis using that(1) by blast
  qed
qed

lemma deny_all_invariant:
  assumes "\<And>key st. P st \<Longrightarrow> P (resolve H key Deny (Some reason) None st)" "P st"
  shows "P (deny_all_awaiting H reason st)"
proof -
  have "P (fold (\<lambda>key. resolve H key Deny (Some reason) None) ks s)" if "P s" for ks s
    using that by (induction ks arbitrary: s) (simp_all add: assms(1))
  then show ?thesis using assms(2) by (simp add: deny_all_awaiting_def)
qed

text \<open>An invariant of the core that submitting, deciding, withdrawing and finishing a job keep is
  kept by every operation.\<close>

lemma daemon_op_invariant:
  assumes core: "\<And>a b. core a = core b \<Longrightarrow> P a \<Longrightarrow> P b"
    and submit: "\<And>H ask tx st. P st \<Longrightarrow> P (snd (submit_ask H ask tx st))"
    and decide: "\<And>H key d reason scope dev st. P st \<Longrightarrow> P (resolve_with_device H key d reason scope dev st)"
    and withdraw: "\<And>H key i st. P st \<Longrightarrow> P (withdraw_waiter H key i st)"
    and job: "\<And>H n st st'. P st \<Longrightarrow> run_job H n st = Some st' \<Longrightarrow> P st'"
    and fields: "\<And>st p g m. P st \<Longrightarrow> P (st\<lparr>st_pending := p\<rparr>) \<and> P (st\<lparr>st_ssh_grants := g\<rparr>) \<and> P (st\<lparr>st_memory := m\<rparr>)"
    and st: "P st"
  shows "P (apply_daemon_op (H, op) st)"
proof (cases op)
  case (DecideRemote q h d dev)
  show ?thesis using DecideRemote st by (cases rule: remote_cases [of H q h d dev st]) (simp_all add: decide)
next
  case (DenyAll reason)
  then show ?thesis using deny_all_invariant [of P, OF _ st] decide by (simp add: resolve_def)
next
  case (BeginPending ask)
  obtain p where "core (begin_pending H ask st) = core (st\<lparr>st_pending := p\<rparr>)"
    by (simp add: core_simps)
  then have "P (begin_pending H ask st)" using core fields st by metis
  then show ?thesis using BeginPending by simp
next
  case (EndPending key err)
  have "core (end_pending H key err st) = core (st\<lparr>st_pending := hm_remove key (st_pending st)\<rparr>)"
    by (simp add: core_simps)
  then have "P (end_pending H key err st)" using core fields st by metis
  then show ?thesis using EndPending by simp
next
  case (RunJob n)
  then show ?thesis using job st by (simp split: option.split)
next
  case (WindowOp w)
  then show ?thesis using core [OF core_window_op [symmetric] st] by simp
next
  case (GrantSsh g)
  then show ?thesis using fields st by (simp add: remember_ssh_grant_def)
next
  case (QuerySsh key anchor)
  then show ?thesis using fields st by (simp add: has_ssh_grant_at_def Let_def)
next
  case Prune_Secrets
  then show ?thesis using fields st by (simp add: prune_expired_secrets_def split_beta Let_def)
qed (simp_all add: st submit decide withdraw resolve_def)

lemma run_daemon_invariant:
  assumes "\<And>H op st. P st \<Longrightarrow> P (apply_daemon_op (H, op) st)" "P st"
  shows "P (run_daemon ops st)"
proof -
  have "P (fold apply_daemon_op ops s)" if "P s" for s
    using that by (induction ops arbitrary: s) (auto simp: assms(1))
  then show ?thesis using assms(2) by (simp add: run_daemon_def)
qed

lemma op_conserved: "conserved st \<Longrightarrow> conserved (apply_daemon_op (H, op) st)"
proof (rule daemon_op_invariant [of conserved])
  fix st :: "'m State" and p g m
  assume "conserved st"
  then show "conserved (st\<lparr>st_pending := p\<rparr>) \<and> conserved (st\<lparr>st_ssh_grants := g\<rparr>) \<and> conserved (st\<lparr>st_memory := m\<rparr>)"
    by (simp add: conserved_def account_def parked_def resolving_def answered_def withdrawn_def)
next
  fix a b :: "'m State"
  assume "core a = core b" "conserved a"
  then show "conserved b" using conserved_cong [of b a] by simp
qed (simp_all add: submit_conserved resolve_conserved withdraw_conserved run_job_conserved)

lemma new_state_conserved: "conserved (new_state now M)"
  by (simp add: conserved_def new_state_def account_def parked_def resolving_def answered_def withdrawn_def hm_wf_def)

lemma run_daemon_conserved: "conserved (run_daemon ops (new_state now M))"
  by (rule run_daemon_invariant [OF op_conserved new_state_conserved])

section \<open>What was consented to\<close>

definition keyed :: "'m State \<Rightarrow> bool" where
  "keyed st \<longleftrightarrow> (\<forall>(k, e) \<in> set (st_queue st). qe_key e = k \<and> ask_dedupe_key (qe_representative e) = k
     \<and> qe_waiters e \<noteq> [])"

definition landed :: "Ask \<Rightarrow> Decision \<Rightarrow> effect list \<Rightarrow> bool" where
  "landed a d out \<longleftrightarrow> (\<exists>p. Landed a d p \<in> set out)"

definition approvals_landed :: "'m State \<Rightarrow> bool" where
  "approvals_landed st \<longleftrightarrow> (\<forall>a \<in> set (st_approvals st). \<exists>rep. Landed rep ApproveRemember (Some (ap_parent a)) \<in> set (st_out st)
     \<and> allow_remember rep \<and> dk_wrap (ask_dedupe_key rep) = ap_wrap a)"

definition releases_landed :: "'m State \<Rightarrow> bool" where
  "releases_landed st \<longleftrightarrow> (\<forall>(session, released) \<in> set (st_run_session_releases st). \<forall>pl \<in> set released.
     \<exists>rep d. landed rep d (st_out st) \<and> approved d \<and> run_session_of rep = Some session
       \<and> pl \<in> ask_pair ` set (secrets rep))"

definition consented :: "'m State \<Rightarrow> bool" where
  "consented st \<longleftrightarrow> keyed st \<and> approvals_landed st \<and> releases_landed st"

lemma landed_recorded [simp]:
  "Landed a d p \<in> set (recorded out) \<longleftrightarrow> Landed a d p \<in> set out" "landed a d (recorded out) = landed a d out"
  by (auto simp: recorded_def to_screen_def landed_def)

lemma landed_simps [simp]:
  "landed a d (xs @ ys) = (landed a d xs \<or> landed a d ys)" "landed a d [] = False"
  "landed a d (Landed b e p # out) = (b = a \<and> e = d \<or> landed a d out)"
  "landed a d (ToWaiter i r # out) = landed a d out" "landed a d (Withdrawn i w t # out) = landed a d out"
  "\<not> landed a d (map (\<lambda>w. ToWaiter (wt_id w) (f w)) ws)"
  by (auto simp: landed_def)

lemma consented_core [simp]: "consented (core st) = consented st"
  by (simp add: consented_def keyed_def approvals_landed_def releases_landed_def)

lemma set_update: "p \<in> set (hm_insert k v q) \<Longrightarrow> p = (k, v) \<or> p \<in> set q"
  by (induction q) (auto split: if_splits)

lemma set_remove: "p \<in> set (hm_remove k q) \<Longrightarrow> p \<in> set q"
  by (induction q) (auto split: if_splits)

lemma keyed_update:
  "keyed st \<Longrightarrow> qe_key e = k \<Longrightarrow> ask_dedupe_key (qe_representative e) = k \<Longrightarrow> qe_waiters e \<noteq> [] \<Longrightarrow>
   keyed (st\<lparr>st_queue := hm_insert k e (st_queue st)\<rparr>)"
  unfolding keyed_def using set_update by (fastforce dest!: set_update)

lemma keyed_remove: "keyed st \<Longrightarrow> keyed (st\<lparr>st_queue := hm_remove k (st_queue st)\<rparr>)"
  unfolding keyed_def by (auto dest!: set_remove)

lemma keyed_get: "keyed st \<Longrightarrow> hm_get (st_queue st) k = Some e \<Longrightarrow>
   qe_key e = k \<and> ask_dedupe_key (qe_representative e) = k \<and> qe_waiters e \<noteq> []"
  unfolding keyed_def by (auto dest: map_of_SomeD)

lemma keyed_cong: "st_queue a = st_queue b \<Longrightarrow> keyed a = keyed b"
  by (simp add: keyed_def)

lemma consented_grow:
  assumes "consented st" "keyed st'" "st_approvals st' = st_approvals st"
    and "st_run_session_releases st' = st_run_session_releases st"
    and "\<And>rep d p. Landed rep d p \<in> set (st_out st) \<Longrightarrow> Landed rep d p \<in> set (st_out st')"
  shows "consented st'"
  using assms unfolding consented_def approvals_landed_def releases_landed_def landed_def by fastforce

lemma submit_consented: "consented st \<Longrightarrow> consented (snd (submit_ask H ask tx st))"
proof -
  assume c: "consented st"
  let ?k = "ask_dedupe_key ask" and ?e = "submitted_entry H ask tx st"
  have "qe_key ?e = ?k \<and> ask_dedupe_key (qe_representative ?e) = ?k \<and> qe_waiters ?e \<noteq> []"
    using c keyed_get by (auto simp: submitted_entry_def Let_def consented_def split: option.split)
  then have "keyed (st\<lparr>st_queue := hm_insert ?k ?e (st_queue st)\<rparr>)"
    using c keyed_update by (auto simp: consented_def)
  then have "keyed (core (snd (submit_ask H ask tx st)))" by (simp add: core_submit keyed_def)
  then have "consented (core (snd (submit_ask H ask tx st)))"
    using c by (simp add: consented_def approvals_landed_def releases_landed_def core_submit keyed_def)
  then show ?thesis by simp
qed

lemma remember_approval_cases:
  "a \<in> set (remember_approval key d scope rep approvals) \<Longrightarrow>
   a \<in> set approvals \<or> (d = ApproveRemember \<and> allow_remember rep \<and> ap_wrap a = dk_wrap key \<and> scope = Some (ap_parent a))"
  by (auto simp: remember_approval_def Let_def split: if_splits option.splits)

lemma insert_fold: "set (fold (\<lambda>s. List.insert (f s)) ss acc) = f ` set ss \<union> set acc"
  by (induction ss arbitrary: acc) auto

lemma record_release_cases:
  assumes "(session, released) \<in> set (record_release d rep releases)" "pl \<in> set released"
  shows "(\<exists>r. (session, r) \<in> set releases \<and> pl \<in> set r)
    \<or> (approved d \<and> run_session_of rep = Some session \<and> pl \<in> ask_pair ` set (secrets rep))"
  using assms
  by (auto simp: record_release_def Let_def insert_fold dest!: set_update split: if_splits option.splits
      dest: map_of_SomeD)

lemma decide_consented:
  assumes "consented st"
  shows "consented (resolve_with_device H key d reason scope dev st)"
proof (cases "hm_get (st_queue st) key")
  case None
  then show ?thesis using core_resolve_none consented_core assms by metis
next
  case (Some e)
  let ?r = "core (resolve_with_device H key d reason scope dev st)"
  have rep: "ask_dedupe_key (qe_representative e) = key" using keyed_get Some assms by (auto simp: consented_def)
  have out: "Landed rep x p \<in> set (st_out st) \<Longrightarrow> Landed rep x p \<in> set (st_out ?r)" for rep x p
    by (simp add: core_resolve_some [OF Some] del: core_fields)
  have new: "Landed (qe_representative e) d scope \<in> set (st_out ?r)" by (simp add: core_resolve_some [OF Some] del: core_fields)
  have "keyed ?r" using assms by (simp add: core_resolve_some [OF Some] consented_def keyed_def) (auto dest: set_remove)
  moreover have "approvals_landed ?r"
    unfolding approvals_landed_def
  proof
    fix a assume "a \<in> set (st_approvals ?r)"
    then have "a \<in> set (remember_approval key d scope (qe_representative e) (st_approvals st))"
      by (simp add: core_resolve_some [OF Some] del: core_fields)
    then show "\<exists>rep. Landed rep ApproveRemember (Some (ap_parent a)) \<in> set (st_out ?r) \<and> allow_remember rep \<and> dk_wrap (ask_dedupe_key rep) = ap_wrap a"
      using assms out new rep by (fastforce simp: consented_def approvals_landed_def dest!: remember_approval_cases)
  qed
  moreover have "releases_landed ?r"
    unfolding releases_landed_def
  proof (clarify)
    fix session released p l
    assume "(session, released) \<in> set (st_run_session_releases ?r)" and pl: "(p, l) \<in> set released"
    then have "(session, released) \<in> set (record_release d (qe_representative e) (st_run_session_releases st))"
      by (simp add: core_resolve_some [OF Some] del: core_fields)
    from record_release_cases [OF this pl]
    show "\<exists>rep d. landed rep d (st_out ?r) \<and> approved d \<and> run_session_of rep = Some session
        \<and> (p, l) \<in> ask_pair ` set (secrets rep)"
      using assms out new by (fastforce simp: consented_def releases_landed_def landed_def)
  qed
  ultimately have "consented ?r" by (simp add: consented_def)
  then show ?thesis by simp
qed

lemma withdraw_consented:
  assumes "consented st"
  shows "consented (withdraw_waiter H key i st)"
proof (cases "hm_get (st_queue st) key")
  case None
  then show ?thesis using core_withdraw_none(1) consented_core assms by metis
next
  case (Some e)
  show ?thesis
  proof (cases "find (\<lambda>w. wt_id w = i) (qe_waiters e)")
    case None
    then show ?thesis using core_withdraw_none(2) [OF Some] consented_core assms by metis
  next
    case w: (Some w)
    let ?ws = "remove_first (\<lambda>w. wt_id w = i) (qe_waiters e)" and ?r = "core (withdraw_waiter H key i st)"
    note eq = core_withdraw_some [OF Some w refl, of H]
    have k: "keyed st" and e: "qe_key e = key" "ask_dedupe_key (qe_representative e) = key"
      using assms keyed_get Some by (auto simp: consented_def)
    have q: "st_queue ?r = (if ?ws = [] then hm_remove key (st_queue st) else hm_insert key (e\<lparr>qe_waiters := ?ws\<rparr>) (st_queue st))"
      unfolding eq by simp
    have "keyed ?r"
    proof (cases "?ws = []")
      case True
      show ?thesis using keyed_remove [OF k, of key] by (simp add: keyed_def q True del: core_fields)
    next
      case False
      show ?thesis using keyed_update [OF k, of "e\<lparr>qe_waiters := ?ws\<rparr>" key] e False by (simp add: keyed_def q del: core_fields)
    qed
    then have "consented ?r" by (rule consented_grow [OF assms]) (simp_all add: eq)
    then show ?thesis by simp
  qed
qed

lemma finish_consented: "consented st \<Longrightarrow> consented (finish_job H job u st)"
proof -
  assume c: "consented st"
  then have "keyed (core (finish_job H job u st))" by (simp add: core_finish_job consented_def keyed_def)
  then have "consented (core (finish_job H job u st))"
    by (rule consented_grow [OF c]) (simp_all add: core_finish_job del: core_fields, simp_all)
  then show ?thesis by simp
qed

lemma run_job_consented: "consented st \<Longrightarrow> run_job H n st = Some st' \<Longrightarrow> consented st'"
proof -
  assume c: "consented st" and j: "run_job H n st = Some st'"
  have "consented (st\<lparr>st_memory := M, st_jobs := js\<rparr>)" for M js
    using c by (simp add: consented_def keyed_def approvals_landed_def releases_landed_def)
  then have "consented (finish_job H (st_jobs st ! n) u (st\<lparr>st_memory := M, st_jobs := js\<rparr>))" for u M js
    by (rule finish_consented)
  then show ?thesis using c j by (auto simp: run_job_def Let_def split: if_splits option.splits)
qed

lemma op_consented: "consented st \<Longrightarrow> consented (apply_daemon_op (H, op) st)"
proof (rule daemon_op_invariant [of consented])
  fix a b :: "'m State"
  assume "core a = core b" "consented a"
  then show "consented b" using consented_core by metis
next
  fix st :: "'m State" and p g m
  assume "consented st"
  then show "consented (st\<lparr>st_pending := p\<rparr>) \<and> consented (st\<lparr>st_ssh_grants := g\<rparr>) \<and> consented (st\<lparr>st_memory := m\<rparr>)"
    by (simp add: consented_def keyed_def approvals_landed_def releases_landed_def)
qed (simp_all add: submit_consented decide_consented withdraw_consented run_job_consented)

lemma new_state_consented: "consented (new_state now M)"
  by (simp add: consented_def keyed_def approvals_landed_def releases_landed_def new_state_def)

lemma run_daemon_consented: "consented (run_daemon ops (new_state now M))"
  by (rule run_daemon_invariant [OF op_consented new_state_consented])

end
