(* ===== verification/Queue_Properties.thy ===== *)
theory Queue_Properties
  imports Queue_Invariants
begin

text \<open>
  The properties of the daemon's queue (\<open>src/packages/secreq/src/daemon/state.rs\<close>) over any
  sequence of operations from its start: delivery, consent behind every silent release, the
  suppression of prompts, decisions of linked devices, and a witness run of the model.
\<close>

section \<open>Suppressed prompts\<close>

fun row_of :: "AskSignature \<Rightarrow> effect \<Rightarrow> bool" where
  "row_of sig (Withdrawn i r b) = (ae_wrap r = ag_wrap sig \<and> entry_joined_argv r = ag_argv sig)"
| "row_of sig (ToWaiter i r) = False"
| "row_of sig (ToWindow c m) = False"
| "row_of sig (ToLink c v) = False"
| "row_of sig (Landed a d p) = False"

definition abandoned_rows :: "AskSignature \<Rightarrow> effect list \<Rightarrow> nat" where
  "abandoned_rows sig out = length (filter (row_of sig) out)"

definition streak_ok :: "effect list \<Rightarrow> AskSignature \<times> AbandonStreak \<Rightarrow> bool" where
  "streak_ok out = (\<lambda>(sig, s). ak_quiet_until s \<le> ak_last_abandon s + ABANDON_QUIET_MAX_SECS
     \<and> (ak_quiet_until s \<noteq> 0 \<longrightarrow> ABANDON_SUPPRESS_AFTER \<le> ak_count s) \<and> ak_count s \<le> abandoned_rows sig out)"

definition streaks_ok :: "'m State \<Rightarrow> bool" where
  "streaks_ok st \<longleftrightarrow> (\<forall>p \<in> set (st_abandon_streaks st). streak_ok (st_out st) p)"

lemma rows_append [simp]: "abandoned_rows sig (a @ b) = abandoned_rows sig a + abandoned_rows sig b"
  by (simp add: abandoned_rows_def)

lemma rows_recorded [simp]: "abandoned_rows sig (recorded out) = abandoned_rows sig out"
proof -
  have "\<not> row_of sig e" if "to_screen e" for e using that by (cases e) (simp_all add: to_screen_def)
  then show ?thesis by (induction out) (auto simp: abandoned_rows_def recorded_def)
qed

lemma streaks_core [simp]: "streaks_ok (core st) = streaks_ok st"
  by (simp add: streaks_ok_def streak_ok_def split_beta)

lemma streak_ok_grow: "streak_ok out p \<Longrightarrow> abandoned_rows (fst p) out \<le> abandoned_rows (fst p) out' \<Longrightarrow> streak_ok out' p"
  by (auto simp: streak_ok_def)

lemma streaks_grow:
  assumes "streaks_ok st" "set (st_abandon_streaks st') \<subseteq> set (st_abandon_streaks st)"
    and "\<And>sig. abandoned_rows sig (st_out st) \<le> abandoned_rows sig (st_out st')"
  shows "streaks_ok st'"
  using assms streak_ok_grow unfolding streaks_ok_def by blast

lemma quiet_bound: "now + min (ABANDON_QUIET_BASE_SECS * 2 ^ k) ABANDON_QUIET_MAX_SECS \<le> now + ABANDON_QUIET_MAX_SECS"
  by simp

lemma record_streaks:
  assumes old: "\<forall>p \<in> set (st_abandon_streaks st). streak_ok out p"
    and mono: "\<And>sg. abandoned_rows sg out \<le> abandoned_rows sg out'"
    and row: "Suc (abandoned_rows sig out) \<le> abandoned_rows sig out'"
    and p: "p \<in> set (st_abandon_streaks (record_abandonment_at sig now st))"
  shows "streak_ok out' p"
proof -
  let ?kept = "hm_retain (\<lambda>_ s. now - ak_last_abandon s \<le> ABANDON_STREAK_RESET_SECS) (st_abandon_streaks st)"
  define s0 where "s0 = (case hm_get ?kept sig of Some s \<Rightarrow> s | None \<Rightarrow> \<lparr>ak_count = 0, ak_last_abandon = now, ak_quiet_until = 0\<rparr>)"
  define s1 where "s1 = (if now - ak_last_abandon s0 > ABANDON_STREAK_RESET_SECS then s0\<lparr>ak_count := 0, ak_quiet_until := 0\<rparr> else s0)"
  define s2 where "s2 = s1\<lparr>ak_count := min U32_MAX (ak_count s1 + 1), ak_last_abandon := now\<rparr>"
  define s3 where "s3 = (if ak_count s2 \<ge> ABANDON_SUPPRESS_AFTER
     then s2\<lparr>ak_quiet_until := min U64_MAX (now + min (ABANDON_QUIET_BASE_SECS * 2 ^ min (ak_count s2 - ABANDON_SUPPRESS_AFTER) 6)
       ABANDON_QUIET_MAX_SECS)\<rparr> else s2)"
  have "record_abandonment_at sig now st = st\<lparr>st_abandon_streaks := hm_insert sig s3 ?kept\<rparr>"
    by (simp only: record_abandonment_at_def Let_def s0_def s1_def s2_def s3_def)
  then have streaks: "st_abandon_streaks (record_abandonment_at sig now st) = hm_insert sig s3 ?kept" by simp
  have kept: "streak_ok out q" if "q \<in> set ?kept" for q using that old by (auto simp: hm_retain_def)
  have "streak_ok out (sig, s0)"
  proof (cases "hm_get ?kept sig")
    case None
    then show ?thesis by (simp add: s0_def streak_ok_def)
  next
    case (Some s)
    then show ?thesis using kept map_of_SomeD by (fastforce simp: s0_def)
  qed
  then have "ak_count s1 \<le> abandoned_rows sig out" "ak_quiet_until s1 \<noteq> 0 \<longrightarrow> ABANDON_SUPPRESS_AFTER \<le> ak_count s1"
    by (simp_all add: s1_def streak_ok_def)
  then have "ak_count s2 \<le> abandoned_rows sig out'" "ak_quiet_until s2 \<noteq> 0 \<longrightarrow> ABANDON_SUPPRESS_AFTER \<le> ak_count s2"
    using row by (auto simp: s2_def ABANDON_SUPPRESS_AFTER_def U32_MAX_def)
  then have "streak_ok out' (sig, s3)" using quiet_bound [of now]
    by (auto simp: streak_ok_def s3_def) (auto simp: s2_def)
  then show ?thesis using p kept mono streak_ok_grow unfolding streaks by (metis set_update)
qed

lemma set_fold_remove: "set (fold hm_remove ks m) \<subseteq> set m"
proof (induction ks arbitrary: m)
  case (Cons k ks)
  then show ?case using Cons.IH [of "hm_remove k m"] by (auto dest: set_remove)
qed simp

lemma decide_streaks: "streaks_ok st \<Longrightarrow> streaks_ok (resolve_with_device H key d reason scope dev st)"
proof (cases "hm_get (st_queue st) key")
  case None
  then show "streaks_ok st \<Longrightarrow> ?thesis" using core_resolve_none streaks_core by metis
next
  case (Some e)
  assume ok: "streaks_ok st"
  have "streaks_ok (core (resolve_with_device H key d reason scope dev st))"
    by (rule streaks_grow [OF ok]) (simp_all add: core_resolve_some [OF Some] set_fold_remove del: core_fields)
  then show ?thesis by simp
qed

lemma submit_streaks: "streaks_ok st \<Longrightarrow> streaks_ok (snd (submit_ask H ask tx st))"
proof -
  assume ok: "streaks_ok st"
  have "streaks_ok (core (snd (submit_ask H ask tx st)))" by (rule streaks_grow [OF ok]) (simp_all add: core_submit)
  then show ?thesis by simp
qed

lemma finish_streaks: "streaks_ok st \<Longrightarrow> streaks_ok (finish_job H job u st)"
proof -
  assume ok: "streaks_ok st"
  have "streaks_ok (core (finish_job H job u st))"
    by (rule streaks_grow [OF ok]) (simp_all add: core_finish_job del: core_fields, simp_all)
  then show ?thesis by simp
qed

lemma run_job_streaks: "streaks_ok st \<Longrightarrow> run_job H n st = Some st' \<Longrightarrow> streaks_ok st'"
proof -
  assume ok: "streaks_ok st" and j: "run_job H n st = Some st'"
  have "streaks_ok (st\<lparr>st_memory := M, st_jobs := js\<rparr>)" for M js using ok by (simp add: streaks_ok_def)
  then have "streaks_ok (finish_job H (st_jobs st ! n) u (st\<lparr>st_memory := M, st_jobs := js\<rparr>))" for u M js
    by (rule finish_streaks)
  then show ?thesis using ok j by (auto simp: run_job_def Let_def split: if_splits option.splits)
qed

lemma abandoned_row: "row_of (waiter_signature key w) (Withdrawn i (abandoned_audit_entry now key w) b)"
  by (simp add: waiter_signature_def signature_def abandoned_audit_entry_def Let_def abandoned_def
      entry_joined_argv_def evaluator_command_def)

lemma withdraw_streaks: "streaks_ok st \<Longrightarrow> streaks_ok (withdraw_waiter H key i st)"
proof (cases "hm_get (st_queue st) key")
  case None
  then show "streaks_ok st \<Longrightarrow> ?thesis" using core_withdraw_none(1) streaks_core by metis
next
  case (Some e)
  assume ok: "streaks_ok st"
  show ?thesis
  proof (cases "find (\<lambda>w. wt_id w = i) (qe_waiters e)")
    case None
    then show ?thesis using ok core_withdraw_none(2) [OF Some] streaks_core by metis
  next
    case w: (Some w)
    let ?r = "core (withdraw_waiter H key i st)"
    note eq = core_withdraw_some [OF Some w refl, of H]
    have out: "st_out ?r = recorded (st_out st) @ [Withdrawn i (abandoned_audit_entry (ho_unix_secs H) key w) (ho_append H (abandoned_audit_entry (ho_unix_secs H) key w))]"
      unfolding eq by simp
    have row: "abandoned_rows (waiter_signature key w) [Withdrawn i (abandoned_audit_entry (ho_unix_secs H) key w) (ho_append H (abandoned_audit_entry (ho_unix_secs H) key w))] = 1"
      using abandoned_row by (simp add: abandoned_rows_def)
    have "streaks_ok ?r"
      unfolding streaks_ok_def
    proof
      fix p assume p: "p \<in> set (st_abandon_streaks ?r)"
      show "streak_ok (st_out ?r) p"
        by (rule record_streaks [OF _ _ _ p [unfolded eq], of "st_out st"])
          (use ok row in \<open>simp_all add: streaks_ok_def out del: core_fields(11)\<close>)
    qed
    then show ?thesis by simp
  qed
qed

lemma run_daemon_streaks: "streaks_ok (run_daemon ops (new_state now M))"
proof (rule run_daemon_invariant)
  show "streaks_ok (new_state now M)" by (simp add: streaks_ok_def new_state_def)
next
  fix H op and st :: "'m State"
  assume c: "streaks_ok st"
  show "streaks_ok (apply_daemon_op (H, op) st)"
  proof (rule daemon_op_invariant [of streaks_ok])
    fix a b :: "'m State"
    assume "core a = core b" "streaks_ok a"
    then show "streaks_ok b" using streaks_core by metis
  next
    fix st :: "'m State" and p g m
    assume "streaks_ok st"
    then show "streaks_ok (st\<lparr>st_pending := p\<rparr>) \<and> streaks_ok (st\<lparr>st_ssh_grants := g\<rparr>) \<and> streaks_ok (st\<lparr>st_memory := m\<rparr>)"
      by (simp add: streaks_ok_def)
  qed (simp_all add: c submit_streaks decide_streaks withdraw_streaks run_job_streaks)
qed

section \<open>The slice of a waiter\<close>

lemma slice_failed: "slice u ss (secs, Some f) = (secs', r) \<Longrightarrow> r = Some f"
proof (induction ss arbitrary: secs)
  case (Cons s ss)
  then show ?case by (simp split: option.splits sum.splits)
qed simp

lemma slice_sound:
  "slice u ss (secs, None) = (secs', None) \<Longrightarrow>
   fst ` set secs' = fst ` set secs \<union> sk_name ` set ss
   \<and> (\<forall>p \<in> set secs'. p \<in> set secs \<or> (\<exists>s \<in> set ss. sk_name s = fst p \<and> hm_get u (ask_pair s) = Some (Inr (snd p))))"
proof (induction ss arbitrary: secs)
  case (Cons s ss)
  then obtain v where v: "hm_get u (ask_pair s) = Some (Inr v)"
    using slice_failed by (fastforce split: option.splits sum.splits)
  have "slice u ss (hm_insert (sk_name s) v secs, None) = (secs', None)" using Cons.prems v by simp
  note ih = Cons.IH [OF this]
  have dom: "fst ` set secs' = fst ` set secs \<union> sk_name ` set (s # ss)" using ih by (simp add: dom_update)
  have "p \<in> set secs \<or> (\<exists>t \<in> set (s # ss). sk_name t = fst p \<and> hm_get u (ask_pair t) = Some (Inr (snd p)))"
    if "p \<in> set secs'" for p
  proof -
    have "p \<in> set (hm_insert (sk_name s) v secs)
      \<or> (\<exists>t \<in> set ss. sk_name t = fst p \<and> hm_get u (ask_pair t) = Some (Inr (snd p)))" using ih that by blast
    then show ?thesis
    proof
      assume "p \<in> set (hm_insert (sk_name s) v secs)"
      from set_update [OF this] show ?thesis using v by auto
    qed auto
  qed
  then show ?case using dom by blast
qed simp

lemma waiter_reply_sound:
  assumes "waiter_reply u job w = Decided d secs dev why"
  shows "d = jb_decision job \<and> fst ` set secs = sk_name ` set (wt_requested w)
    \<and> (\<forall>p \<in> set secs. \<exists>s \<in> set (wt_requested w). sk_name s = fst p \<and> hm_get u (ask_pair s) = Some (Inr (snd p)))"
proof -
  obtain secs' where "slice u (wt_requested w) ([], None) = (secs', None)" "secs = secs'" "d = jb_decision job"
    using assms by (auto simp: waiter_reply_def split: prod.splits option.splits)
  then show ?thesis using slice_sound [of u "wt_requested w" "[]" secs'] by simp
qed

lemma run_job_replies:
  assumes "run_job H n st = Some st'" "n < length (st_jobs st)"
  obtains u M where "resolve_union (ho_outside H) (qe_representative (jb_entry (st_jobs st ! n))) (st_memory st) = Some (u, M)"
    "st_memory st' = M" "recorded (st_out st') = recorded (st_out st) @ map (\<lambda>w. ToWaiter (wt_id w)
       (waiter_reply u (st_jobs st ! n) w)) (qe_waiters (jb_entry (st_jobs st ! n)))"
proof -
  let ?job = "st_jobs st ! n"
  obtain u M where r: "resolve_union (ho_outside H) (qe_representative (jb_entry ?job)) (st_memory st) = Some (u, M)"
    and st': "st' = finish_job H ?job u (st\<lparr>st_memory := M, st_jobs := take n (st_jobs st) @ drop (Suc n) (st_jobs st)\<rparr>)"
    using assms by (auto simp: run_job_def Let_def split: option.splits prod.splits)
  have "st_memory st' = st_memory (core st')" "recorded (st_out st') = st_out (core st')" by simp_all
  then show ?thesis using that [OF r] unfolding st' by (simp add: core_finish_job del: core_fields) simp
qed

lemma slice_all: "slice u ss (secs, None) = (secs', None) \<Longrightarrow> s \<in> set ss \<Longrightarrow> \<exists>v. hm_get u (ask_pair s) = Some (Inr v)"
proof (induction ss arbitrary: secs)
  case (Cons t ss)
  then obtain v where v: "hm_get u (ask_pair t) = Some (Inr v)"
    using slice_failed by (fastforce split: option.splits sum.splits)
  have "slice u ss (hm_insert (sk_name t) v secs, None) = (secs', None)" using Cons.prems(1) v by simp
  then show ?case using Cons.IH Cons.prems(2) v by auto
qed simp

lemma waiter_reply_error:
  assumes "s \<in> set (wt_requested w)" "hm_get u (ask_pair s) = Some (Inl f)"
  shows "\<exists>m p. waiter_reply u job w = ReplyErr m p"
proof (cases "slice u (wt_requested w) ([], None)")
  case (Pair secs r)
  then show ?thesis using slice_all [of u "wt_requested w" "[]" secs s] assms
    by (cases r) (auto simp: waiter_reply_def)
qed

section \<open>Merging\<close>

lemma merge_secret_pairs: "ask_pair ` set (merge_secret rep s c) = insert (ask_pair s) (ask_pair ` set rep)"
  by (induction rep s c rule: merge_secret.induct) (auto simp: same_secret_def ask_pair_def image_iff)

lemma merge_pairs: "ask_pair ` set (merge_secrets ss c rep) = ask_pair ` set rep \<union> ask_pair ` set ss"
  unfolding merge_secrets_def by (induction ss arbitrary: rep) (auto simp: merge_secret_pairs)

lemma submit_queue:
  "st_queue (snd (submit_ask H ask tx st)) = hm_insert (ask_dedupe_key ask) (submitted_entry H ask tx st) (st_queue st)"
  using arg_cong [OF core_submit, of st_queue H ask tx st] by simp

lemma coalesced_entry:
  assumes "hm_get (st_queue st) (ask_dedupe_key ask) = Some e" "ask_subject (qe_representative e) = Wrap w"
  shows "providers (qe_representative (submitted_entry H ask tx st)) = providers (qe_representative e)"
    "ask_pair ` set (secrets (qe_representative (submitted_entry H ask tx st)))
     = ask_pair ` set (secrets (qe_representative e)) \<union> ask_pair ` set (secrets ask)"
  using assms by (simp_all add: submitted_entry_def Let_def providers_def wrap_mut_def secrets_def merge_pairs)

lemma pair_same_key: "ask_pair s = ask_pair t \<Longrightarrow> ask_key s = ask_key t \<and> sk_provider s = sk_provider t"
  by (simp add: ask_pair_def ask_key_def)

section \<open>Properties\<close>

text \<open>
  C2. At every moment each waiter ever submitted is in exactly one of four places: parked on a
  queue entry, with a resolver thread, answered (once), or withdrawn with one row handed to the audit log; whatever
  races between the prompt, linked devices, hang-ups and resolver threads.
\<close>

theorem every_waiter_is_accounted_for:
  "let st = (run_daemon ops (new_state now M) :: 'm State)
   in parked st + resolving st + answered st + withdrawn st = mset [1..<st_waiter_next_id st]"
proof -
  have "conserved (run_daemon ops (new_state now M) :: 'm State)" by (rule run_daemon_conserved)
  then show ?thesis by (simp add: conserved_def account_def Let_def)
qed

text \<open>
  C18. An ask is served from a remembered approval only when someone approved and asked to
  remember a wrap ask of the same name that allows it, and chose to have that approval hold for
  the very process it is served to: the ask's own parent or one of its ancestors beyond the first.
\<close>

theorem silent_approvals_were_remembered:
  assumes "st = (run_daemon ops (new_state now M) :: 'm State)" "has_cached_approval ask st"
  shows "\<exists>p rep. approval_scope_for (st_approvals st) ask = Some p
    \<and> (process_identity (dk_anchor (ask_dedupe_key ask)) = Some p \<or> p \<in> wire_identity ` set (drop 1 (callers ask)))
    \<and> Landed rep ApproveRemember (Some p) \<in> set (st_out st) \<and> allow_remember rep
    \<and> dk_wrap (ask_dedupe_key rep) = dk_wrap (ask_dedupe_key ask)"
proof -
  let ?wrap = "dk_wrap (ask_dedupe_key ask)"
  obtain p where p: "approval_scope_for (st_approvals st) ask = Some p" using assms(2) by (auto simp: has_cached_approval_def)
  have found: "find P xs = Some x \<Longrightarrow> P x \<and> x \<in> set xs" for P and xs :: "ProcessIdentity list" and x
    by (induction xs) (auto split: if_splits)
  have "has_entry (st_approvals st) ?wrap p
    \<and> (process_identity (dk_anchor (ask_dedupe_key ask)) = Some p \<or> p \<in> wire_identity ` set (drop 1 (callers ask)))"
    using p by (auto simp: approval_scope_for_def Let_def split: option.splits if_splits dest!: found)
  then obtain a where "a \<in> set (st_approvals st)" "ap_wrap a = ?wrap" "ap_parent a = p"
    "process_identity (dk_anchor (ask_dedupe_key ask)) = Some p \<or> p \<in> wire_identity ` set (drop 1 (callers ask))"
    by (auto simp: has_entry_def list_ex_iff)
  moreover have "approvals_landed st" using run_daemon_consented [of ops now M] assms(1) by (auto simp: consented_def)
  ultimately show ?thesis using p unfolding approvals_landed_def by metis
qed

text \<open>
  C17. A nested run skips the window only for references that were released, by an approved
  decision, to that same run session.
\<close>

theorem nested_runs_ride_their_own_session:
  assumes "st = (run_daemon ops (new_state now M) :: 'm State)" "nested_run_may_skip_window H ask st" "s \<in> set (secrets ask)"
  shows "\<exists>rep d. landed rep d (st_out st) \<and> approved d
    \<and> run_session_of rep = run_session_of ask \<and> run_session_of ask \<noteq> None \<and> ask_pair s \<in> ask_pair ` set (secrets rep)"
proof -
  obtain session released where "run_session_of ask = Some session"
    "hm_get (st_run_session_releases st) session = Some released" "ask_pair s \<in> set released"
    using assms(2,3) by (auto simp: nested_run_may_skip_window_def list_all_iff split: if_splits option.splits)
  moreover have "releases_landed st" using run_daemon_consented [of ops now M] assms(1) by (auto simp: consented_def)
  ultimately show ?thesis unfolding releases_landed_def by (fastforce dest: map_of_SomeD)
qed

text \<open>
  C34. A window is withheld from an entry only when every waiter on it runs a command that at
  least three clients abandoned (each with a row handed to the audit log), and at most 300 seconds after the last
  of them.
\<close>

theorem prompts_are_withheld_briefly:
  assumes "st = (run_daemon ops (new_state now M) :: 'm State)" "entry_is_suppressed_at e t st" "w \<in> set (qe_waiters e)"
  shows "\<exists>s. hm_get (st_abandon_streaks st) (waiter_signature (qe_key e) w) = Some s
    \<and> t < ak_last_abandon s + 300 \<and> 3 \<le> ak_count s
    \<and> ak_count s \<le> abandoned_rows (waiter_signature (qe_key e) w) (st_out st)"
proof -
  obtain s where s: "hm_get (st_abandon_streaks st) (waiter_signature (qe_key e) w) = Some s" "t < ak_quiet_until s"
    using assms(2,3) by (auto simp: entry_is_suppressed_at_def list_all_iff waiter_suppressed_at_def split: option.splits)
  then have "streak_ok (st_out st) (waiter_signature (qe_key e) w, s)"
    using run_daemon_streaks [of ops now M] map_of_SomeD assms(1) unfolding streaks_ok_def by metis
  then show ?thesis using s by (auto simp: streak_ok_def ABANDON_QUIET_MAX_SECS_def ABANDON_SUPPRESS_AFTER_def)
qed

text \<open>
  C23. When a resolver thread finishes, each of its waiters gets either an error or the decision
  taken with values for exactly the names its own ask requested, each the value resolved for the
  reference that ask bound to the name; never a sibling's.
\<close>

theorem waiters_get_only_what_they_asked:
  assumes "run_job H n st = Some st'" "n < length (st_jobs st)"
  shows "\<exists>u M. resolve_union (ho_outside H) (qe_representative (jb_entry (st_jobs st ! n))) (st_memory st) = Some (u, M)
    \<and> recorded (st_out st') = recorded (st_out st) @ map (\<lambda>w. ToWaiter (wt_id w)
        (waiter_reply u (st_jobs st ! n) w)) (qe_waiters (jb_entry (st_jobs st ! n)))
    \<and> (\<forall>w \<in> set (qe_waiters (jb_entry (st_jobs st ! n))). \<forall>d secs dev why.
        waiter_reply u (st_jobs st ! n) w = Decided d secs dev why \<longrightarrow> d = jb_decision (st_jobs st ! n)
        \<and> fst ` set secs = sk_name ` set (wt_requested w)
        \<and> (\<forall>p \<in> set secs. \<exists>s \<in> set (wt_requested w). sk_name s = fst p \<and> hm_get u (ask_pair s) = Some (Inr (snd p))))"
proof (rule run_job_replies [OF assms])
  fix u M
  assume "resolve_union (ho_outside H) (qe_representative (jb_entry (st_jobs st ! n))) (st_memory st) = Some (u, M)"
    and "recorded (st_out st') = recorded (st_out st) @ map (\<lambda>w. ToWaiter (wt_id w)
        (waiter_reply u (st_jobs st ! n) w)) (qe_waiters (jb_entry (st_jobs st ! n)))"
  then show ?thesis using waiter_reply_sound [of u "st_jobs st ! n"]
    by (intro exI [of _ u] exI [of _ M] conjI ballI allI impI) blast+
qed

text \<open>
  Coalescing merges the references of an ask into the queued card but not its providers: a
  reference whose provider the first ask did not ship makes the card's one resolution fail, and
  every waiter with a reference that is not cached gets an error, the first asker included.
\<close>

theorem coalescing_loses_providers:
  assumes "hm_get (st_queue st) (ask_dedupe_key ask) = Some e" "ask_subject (qe_representative e) = Wrap w"
    and "s \<in> set (secrets ask)" "sk_provider s \<notin> fst ` set (providers (qe_representative e))"
    and "quiet E" "cache_get E (ask_key s) M = None" "if_inner (me_flight M) = []"
  shows "\<exists>card u M'. hm_get (st_queue (snd (submit_ask H ask tx st))) (ask_dedupe_key ask) = Some card
    \<and> resolve_union E (qe_representative card) M = Some (u, M')
    \<and> (\<forall>job v t. t \<in> set (wt_requested v) \<and> cache_get E (ask_key t) M = None
          \<and> ask_pair t \<in> ask_pair ` set (secrets (qe_representative card))
        \<longrightarrow> (\<exists>m p. waiter_reply u job v = ReplyErr m p))"
proof -
  let ?card = "submitted_entry H ask tx st" and ?rep = "qe_representative (submitted_entry H ask tx st)"
  note card = coalesced_entry [OF assms(1,2), of H tx]
  obtain s' where s': "s' \<in> set (secrets ?rep)" "ask_pair s' = ask_pair s" using card(2) assms(3) by force
  have "\<exists>out M' f. resolve_union E ?rep M = Some (out, M')
     \<and> (\<forall>t \<in> set (secrets ?rep). cache_get E (ask_key t) M = None \<longrightarrow> hm_get out (ask_pair t) = Some (Inl f))"
    by (rule unknown_provider_fails_all [OF assms(5) _ s'(1)])
      (use assms(4,6,7) card(1) pair_same_key [OF s'(2)] in simp_all)
  then obtain u M' f where u: "resolve_union E ?rep M = Some (u, M')"
    and f: "\<And>t. t \<in> set (secrets ?rep) \<Longrightarrow> cache_get E (ask_key t) M = None \<Longrightarrow> hm_get u (ask_pair t) = Some (Inl f)" by blast
  have "\<exists>m p. waiter_reply u job v = ReplyErr m p"
    if t: "t \<in> set (wt_requested v)" "cache_get E (ask_key t) M = None" "ask_pair t \<in> ask_pair ` set (secrets ?rep)" for job v t
  proof -
    obtain t' where "t' \<in> set (secrets ?rep)" "ask_pair t' = ask_pair t" using t(3) by auto
    then have "hm_get u (ask_pair t) = Some (Inl f)" using f [of t'] pair_same_key [of t' t] t(2) by simp
    then show ?thesis using waiter_reply_error t(1) by blast
  qed
  moreover have "hm_get (st_queue (snd (submit_ask H ask tx st))) (ask_dedupe_key ask) = Some ?card"
    by (simp add: submit_queue)
  ultimately show ?thesis using u by blast
qed

section \<open>Witnesses\<close>

definition queue_host :: host where
  "queue_host = \<lparr>ho_now = 0, ho_unix_secs = 1000, ho_unix_millis = 0, ho_random = [], ho_sha256_hex = id,
     ho_accepts = (\<lambda>_ _. False), ho_try_wait = (\<lambda>_. StillRunning), ho_append = (\<lambda>_. True),
     ho_outside = sample_outside\<rparr>"

definition session_ask :: "string \<Rightarrow> Ask" where
  "session_ask prov = \<lparr>ask_command = [''make''], ask_dedupe_key = \<lparr>dk_wrap = ''run'',
     dk_anchor = RunSessionAnchor 7 99, dk_subject_digest = None\<rparr>,
     ask_subject = Wrap \<lparr>ws_cwd = ''/'', ws_callers = [], ws_callers_truncated = False,
       ws_secrets = [(sample_secret ''A'' ''a'')\<lparr>sk_provider := prov\<rparr>],
       ws_providers = [(prov, \<lparr>wp_name = prov, wp_retrieve = [''get'', ''{locator}''], wp_retrieve_batch = None\<rparr>)],
       ws_allow_remember = False, ws_nested_run = True, ws_ignore_remembered = False\<rparr>\<rparr>"

definition fresh_daemon :: "unit State" where
  "fresh_daemon = new_state 0 cold_memory"

lemma submit_decide:
  assumes "st = run_daemon [(H, Submit ask tx), (H, Decide (ask_dedupe_key ask) d r scope)] s0"
  shows "st_approvals st = remember_approval (ask_dedupe_key ask) d scope (qe_representative (submitted_entry H ask tx s0)) (st_approvals s0)"
    "st_run_session_releases st = record_release d (qe_representative (submitted_entry H ask tx s0)) (st_run_session_releases s0)"
    "st_memory st = st_memory s0"
proof -
  let ?s1 = "snd (submit_ask H ask tx s0)"
  have st: "st = resolve_with_device H (ask_dedupe_key ask) d r scope None ?s1"
    by (simp add: assms run_daemon_def resolve_def)
  have e: "hm_get (st_queue ?s1) (ask_dedupe_key ask) = Some (submitted_entry H ask tx s0)" by (simp add: submit_queue)
  note r = core_resolve_some [OF e, of H d r scope None]
  have "st_approvals ?s1 = st_approvals s0" "st_run_session_releases ?s1 = st_run_session_releases s0" "st_memory ?s1 = st_memory s0"
    using arg_cong [OF core_submit, of st_approvals H ask tx s0] arg_cong [OF core_submit, of st_run_session_releases H ask tx s0]
      arg_cong [OF core_submit, of st_memory H ask tx s0] by simp_all
  then show "st_approvals st = remember_approval (ask_dedupe_key ask) d scope (qe_representative (submitted_entry H ask tx s0)) (st_approvals s0)"
    "st_run_session_releases st = record_release d (qe_representative (submitted_entry H ask tx s0)) (st_run_session_releases s0)"
    "st_memory st = st_memory s0"
    using arg_cong [OF r, of st_approvals] arg_cong [OF r, of st_run_session_releases] arg_cong [OF r, of st_memory]
    unfolding st by simp_all
qed

definition remembered :: "unit State" where
  "remembered = run_daemon [(queue_host, Submit (sample_ask []) 0), (queue_host, Decide (ask_dedupe_key (sample_ask []))
     ApproveRemember None (Some \<lparr>pi_pid = 7, pi_start_time = 1\<rparr>))] fresh_daemon"

lemma remembered_scope: "approval_scope_for (st_approvals remembered) (sample_ask []) = Some \<lparr>pi_pid = 7, pi_start_time = 1\<rparr>"
proof -
  have "st_approvals remembered = [\<lparr>ap_wrap = ''gh'', ap_parent = \<lparr>pi_pid = 7, pi_start_time = 1\<rparr>\<rparr>]"
    unfolding submit_decide(1) [OF remembered_def]
    by (simp add: fresh_daemon_def new_state_def submitted_entry_def remember_approval_def allow_remember_def wrap_mut_def sample_ask_def)
  then show ?thesis by (simp add: approval_scope_for_def has_entry_def sample_ask_def callers_def)
qed

theorem silent_approvals_were_remembered_witness:
  "\<exists>rep. Landed rep ApproveRemember (Some \<lparr>pi_pid = 7, pi_start_time = 1\<rparr>) \<in> set (st_out remembered) \<and> dk_wrap (ask_dedupe_key rep) = ''gh''"
proof -
  have "has_cached_approval (sample_ask []) remembered" by (simp add: has_cached_approval_def remembered_scope)
  moreover have "dk_wrap (ask_dedupe_key (sample_ask [])) = ''gh''" by (simp add: sample_ask_def)
  ultimately show ?thesis
    using silent_approvals_were_remembered [OF remembered_def [unfolded fresh_daemon_def]] remembered_scope
    by (metis option.inject)
qed

definition released :: "unit State" where
  "released = run_daemon [(queue_host, Submit (session_ask ''op'') 0),
     (queue_host, Decide (ask_dedupe_key (session_ask ''op'')) Approve None None)] (new_state 0 warm_memory)"

lemma session_asks:
  "secrets (session_ask p) = [(sample_secret ''A'' ''a'')\<lparr>sk_provider := p\<rparr>]"
  "nested_run (session_ask p)" "run_session_of (session_ask p) = Some \<lparr>rn_pid = 7, rn_nonce = 99\<rparr>"
  by (simp_all add: session_ask_def secrets_def nested_run_def run_session_of_def)

lemma released_skips: "nested_run_may_skip_window queue_host (session_ask ''op'') released"
proof -
  have rep: "qe_representative (submitted_entry queue_host (session_ask ''op'') 0 (new_state 0 warm_memory :: unit State))
    = wrap_mut (\<lambda>w. w\<lparr>ws_secrets := merge_secrets (ws_secrets w) ''make'' []\<rparr>) (session_ask ''op'')"
    by (simp add: submitted_entry_def new_state_def) (simp add: session_ask_def joined_argv_def)
  have "st_run_session_releases released = [(\<lparr>rn_pid = 7, rn_nonce = 99\<rparr>, [(''op'', ''a'')])]"
    unfolding submit_decide(2) [OF released_def] rep by (simp add: new_state_def) code_simp
  moreover have "st_memory released = warm_memory" using submit_decide(3) [OF released_def] by (simp add: new_state_def)
  moreover have "ask_fully_cached sample_outside (session_ask ''op'') warm_memory"
    by (simp add: ask_fully_cached_def session_asks) (simp add: sample_defs)
  ultimately show ?thesis
    by (simp add: nested_run_may_skip_window_def session_asks queue_host_def ask_pair_def)
      (simp add: sample_secret_def)
qed

theorem nested_runs_ride_their_own_session_witness:
  "\<exists>rep d. landed rep d (st_out released) \<and> approved d \<and> run_session_of rep = Some \<lparr>rn_pid = 7, rn_nonce = 99\<rparr>"
proof -
  have "(sample_secret ''A'' ''a'')\<lparr>sk_provider := ''op''\<rparr> \<in> set (secrets (session_ask ''op''))" by (simp add: session_asks)
  from nested_runs_ride_their_own_session [OF released_def released_skips this] show ?thesis
    by (auto simp: run_session_of_def session_ask_def)
qed

text \<open>Three clients in a row ask and go away; a fourth asks and waits.\<close>

definition hang_ups :: "(host \<times> daemon_op) list" where
  "hang_ups = concat (map (\<lambda>i. [(queue_host, Submit (sample_ask []) i),
     (queue_host, Withdraw (ask_dedupe_key (sample_ask [])) i)]) [1, 2, 3])"

lemma submit_withdraw:
  assumes "hm_get (st_queue s) (ask_dedupe_key ask) = None"
    and "s' = apply_daemon_op (H, Withdraw (ask_dedupe_key ask) (st_waiter_next_id s)) (apply_daemon_op (H, Submit ask tx) s)"
  shows "hm_get (st_queue s') (ask_dedupe_key ask) = None" "st_waiter_next_id s' = st_waiter_next_id s + 1"
    "st_abandon_streaks s' = st_abandon_streaks (record_abandonment_at
       (waiter_signature (ask_dedupe_key ask) (new_waiter (st_waiter_next_id s) tx ask)) (ho_unix_secs H) s)"
proof -
  let ?e = "submitted_entry H ask tx s" and ?s1 = "snd (submit_ask H ask tx s)"
  have w: "qe_waiters ?e = [new_waiter (st_waiter_next_id s) tx ask]" using assms(1) by (simp add: submitted_entry_def Let_def)
  have e: "hm_get (st_queue ?s1) (ask_dedupe_key ask) = Some ?e" by (simp add: submit_queue)
  have f: "find (\<lambda>v. wt_id v = st_waiter_next_id s) (qe_waiters ?e) = Some (new_waiter (st_waiter_next_id s) tx ask)"
    by (simp add: w new_waiter_def)
  have r: "remove_first (\<lambda>v. wt_id v = st_waiter_next_id s) (qe_waiters ?e) = []" by (simp add: w new_waiter_def)
  have s': "s' = withdraw_waiter H (ask_dedupe_key ask) (st_waiter_next_id s) ?s1" by (simp add: assms(2))
  note c = core_withdraw_some [OF e f refl, of H, unfolded r core_submit, folded s']
  show "hm_get (st_queue s') (ask_dedupe_key ask) = None"
    using arg_cong [OF c, of st_queue] by (simp add: record_abandonment_at_def Let_def)
  show "st_waiter_next_id s' = st_waiter_next_id s + 1"
    using arg_cong [OF c, of st_waiter_next_id] by (simp add: record_abandonment_at_def Let_def)
  show "st_abandon_streaks s' = st_abandon_streaks (record_abandonment_at
       (waiter_signature (ask_dedupe_key ask) (new_waiter (st_waiter_next_id s) tx ask)) (ho_unix_secs H) s)"
    using arg_cong [OF c, of st_abandon_streaks] by (simp add: record_abandonment_at_def Let_def)
qed

text \<open>The state after the three, and the waiter of the fourth ask in it.\<close>

definition abandoned_state :: "unit State" where
  "abandoned_state = run_daemon hang_ups fresh_daemon"

definition fourth_entry :: QueueEntry where
  "fourth_entry = submitted_entry queue_host (sample_ask []) 4 abandoned_state"

lemma sample_streaks:
  "st_abandon_streaks abandoned_state = [(\<lparr>ag_wrap = ''gh'', ag_argv = ''gh'', ag_caller = None\<rparr>,
     \<lparr>ak_count = 3, ak_last_abandon = 1000, ak_quiet_until = 1030\<rparr>)]"
proof -
  let ?key = "ask_dedupe_key (sample_ask [])"
  let ?round = "\<lambda>i (s :: unit State). apply_daemon_op (queue_host, Withdraw ?key i) (apply_daemon_op (queue_host, Submit (sample_ask []) i) s)"
  have sig: "waiter_signature ?key (new_waiter i tx (sample_ask [])) = \<lparr>ag_wrap = ''gh'', ag_argv = ''gh'', ag_caller = None\<rparr>" for i tx
    by (simp add: waiter_signature_def signature_def new_waiter_def sample_ask_def callers_def joined_argv_def)
  have H: "ho_unix_secs queue_host = 1000" by (simp add: queue_host_def)
  define s1 where "s1 = ?round (1 :: nat) fresh_daemon"
  define s2 where "s2 = ?round (2 :: nat) s1"
  define s3 where "s3 = ?round (3 :: nat) s2"
  have s0: "hm_get (st_queue fresh_daemon) ?key = None" "st_waiter_next_id fresh_daemon = 1" "st_abandon_streaks fresh_daemon = []"
    by (simp_all add: fresh_daemon_def new_state_def)
  have r1: "hm_get (st_queue s1) ?key = None" "st_waiter_next_id s1 = 2"
    "st_abandon_streaks s1 = st_abandon_streaks (record_abandonment_at \<lparr>ag_wrap = ''gh'', ag_argv = ''gh'', ag_caller = None\<rparr> 1000 fresh_daemon)"
    using submit_withdraw [OF s0(1), of s1 queue_host 1] unfolding s0(2) s1_def sig H by simp_all
  have r2: "hm_get (st_queue s2) ?key = None" "st_waiter_next_id s2 = 3"
    "st_abandon_streaks s2 = st_abandon_streaks (record_abandonment_at \<lparr>ag_wrap = ''gh'', ag_argv = ''gh'', ag_caller = None\<rparr> 1000 s1)"
    using submit_withdraw [OF r1(1), of s2 queue_host 2] unfolding r1(2) s2_def sig H by simp_all
  have r3: "st_abandon_streaks s3 = st_abandon_streaks (record_abandonment_at \<lparr>ag_wrap = ''gh'', ag_argv = ''gh'', ag_caller = None\<rparr> 1000 s2)"
    using submit_withdraw [OF r2(1), of s3 queue_host 3] unfolding r2(2) s3_def sig H by simp_all
  have "abandoned_state = s3" by (simp add: abandoned_state_def hang_ups_def run_daemon_def s3_def s2_def s1_def)
  moreover have "st_abandon_streaks s3 = [(\<lparr>ag_wrap = ''gh'', ag_argv = ''gh'', ag_caller = None\<rparr>,
     \<lparr>ak_count = 3, ak_last_abandon = 1000, ak_quiet_until = 1030\<rparr>)]"
    unfolding r3 record_abandonment_at_def Let_def r2(3) r1(3) s0(3)
    by (simp add: hm_retain_def ABANDON_SUPPRESS_AFTER_def ABANDON_STREAK_RESET_SECS_def ABANDON_QUIET_BASE_SECS_def
        ABANDON_QUIET_MAX_SECS_def U32_MAX_def U64_MAX_def)
  ultimately show ?thesis by simp
qed

theorem prompts_are_withheld_briefly_witness:
  "entry_is_suppressed_at \<lparr>qe_key = ask_dedupe_key (sample_ask []), qe_request_id = [], qe_representative = sample_ask [],
     qe_waiters = [new_waiter 4 4 (sample_ask [])], qe_first_seen = 0\<rparr> 1029 abandoned_state
   \<and> 3 \<le> abandoned_rows \<lparr>ag_wrap = ''gh'', ag_argv = ''gh'', ag_caller = None\<rparr> (st_out abandoned_state)"
proof -
  let ?e = "\<lparr>qe_key = ask_dedupe_key (sample_ask []), qe_request_id = [], qe_representative = sample_ask [],
     qe_waiters = [new_waiter 4 4 (sample_ask [])], qe_first_seen = 0\<rparr>"
  have sig: "waiter_signature (qe_key ?e) (new_waiter 4 4 (sample_ask [])) = \<lparr>ag_wrap = ''gh'', ag_argv = ''gh'', ag_caller = None\<rparr>"
    by (simp add: waiter_signature_def signature_def new_waiter_def sample_ask_def callers_def joined_argv_def)
  have e: "entry_is_suppressed_at ?e 1029 abandoned_state"
    using sig by (simp add: entry_is_suppressed_at_def waiter_suppressed_at_def sample_streaks)
  have w: "new_waiter 4 4 (sample_ask []) \<in> set (qe_waiters ?e)" by simp
  from prompts_are_withheld_briefly [OF abandoned_state_def [unfolded fresh_daemon_def] e w] show ?thesis
    using e unfolding sig by (auto intro: order_trans)
qed

text \<open>A job with one reference, and an ask that shares a card with one of another provider.\<close>

definition approved_job :: Job where
  "approved_job = \<lparr>jb_key = ask_dedupe_key (sample_ask []), jb_entry = \<lparr>qe_key = ask_dedupe_key (sample_ask []), qe_request_id = [],
     qe_representative = sample_ask [sample_secret ''A'' ''a''],
     qe_waiters = [new_waiter 1 1 (sample_ask [sample_secret ''A'' ''a''])], qe_first_seen = 0\<rparr>,
     jb_decision = Approve, jb_device = None, jb_cold = False\<rparr>"

theorem waiters_get_only_what_they_asked_witness:
  "\<exists>st' u. run_job queue_host 0 (fresh_daemon\<lparr>st_jobs := [approved_job]\<rparr>) = Some st'
     \<and> recorded (st_out st') = [ToWaiter 1 (waiter_reply u approved_job (new_waiter 1 1 (sample_ask [sample_secret ''A'' ''a''])))]"
proof -
  let ?st = "fresh_daemon\<lparr>st_jobs := [approved_job]\<rparr>"
  have rep: "qe_representative (jb_entry (st_jobs ?st ! 0)) = sample_ask [sample_secret ''A'' ''a'']" by (simp add: approved_job_def)
  have H: "ho_outside queue_host = sample_outside" by (simp add: queue_host_def)
  have "\<forall>s \<in> set (secrets (sample_ask [sample_secret ''A'' ''a''])). hm_get (if_inner (me_flight cold_memory)) (ask_key s) = None"
    by (simp add: cold_memory_def new_in_flight_def)
  from union_returns [OF quiet_sample this] obtain u M
    where u: "resolve_union sample_outside (sample_ask [sample_secret ''A'' ''a'']) cold_memory = Some (u, M)" by blast
  have "st_memory ?st = cold_memory" by (simp add: fresh_daemon_def new_state_def)
  then obtain st' where r: "run_job queue_host 0 ?st = Some st'" using u by (simp add: run_job_def Let_def approved_job_def H)
  from waiters_get_only_what_they_asked [OF r] show ?thesis
    using r by (auto simp: approved_job_def fresh_daemon_def new_state_def new_waiter_def)
qed

theorem coalescing_loses_providers_witness:
  "\<exists>card u M'. hm_get (st_queue (run_daemon [(queue_host, Submit (session_ask ''op'') 0),
       (queue_host, Submit (session_ask ''vault'') 1)] fresh_daemon)) (ask_dedupe_key (session_ask ''vault'')) = Some card
    \<and> resolve_union sample_outside (qe_representative card) cold_memory = Some (u, M')"
proof -
  let ?s = "snd (submit_ask queue_host (session_ask ''op'') 0 fresh_daemon)"
  let ?e = "submitted_entry queue_host (session_ask ''op'') 0 fresh_daemon"
  have key: "ask_dedupe_key (session_ask ''op'') = ask_dedupe_key (session_ask ''vault'')" by (simp add: session_ask_def)
  have e: "hm_get (st_queue ?s) (ask_dedupe_key (session_ask ''vault'')) = Some ?e" by (simp add: submit_queue key)
  have rep: "qe_representative ?e = wrap_mut (\<lambda>w. w\<lparr>ws_secrets := merge_secrets (ws_secrets w) ''make'' []\<rparr>) (session_ask ''op'')"
    by (simp add: submitted_entry_def fresh_daemon_def new_state_def) (simp add: session_ask_def joined_argv_def)
  obtain w where w: "ask_subject (qe_representative ?e) = Wrap w" by (simp add: rep) (simp add: session_ask_def wrap_mut_def)
  have p: "fst ` set (providers (qe_representative ?e)) = {''op''}" by (simp add: rep) (simp add: session_ask_def wrap_mut_def providers_def)
  have s: "(sample_secret ''A'' ''a'')\<lparr>sk_provider := ''vault''\<rparr> \<in> set (secrets (session_ask ''vault''))" by (simp add: session_asks)
  have "\<exists>card u M'. hm_get (st_queue (snd (submit_ask queue_host (session_ask ''vault'') 1 ?s))) (ask_dedupe_key (session_ask ''vault'')) = Some card
    \<and> resolve_union sample_outside (qe_representative card) cold_memory = Some (u, M')"
    using coalescing_loses_providers [OF e w s _ quiet_sample, of cold_memory queue_host 1] p
    by (simp add: sample_defs) blast
  then show ?thesis by (simp add: run_daemon_def)
qed

end
