(* ===== verification/Paths.thy ===== *)
theory Paths
  imports Rules
begin

text \<open>
  \<open>Path::parent\<close> as \<open>shim.rs\<close> and the daemon's \<open>state.rs\<close> use it: the path without its last
  component, the empty path for a bare name. Going up always shortens a path, so creating the
  missing parents of a directory one by one comes to an end.
\<close>

definition path_parent :: "string \<Rightarrow> string" where
  "path_parent p =
     (let unslash = \<lambda>s. rev (dropWhile (\<lambda>c. c = CHR ''/'') (rev s));
          dir = rev (dropWhile (\<lambda>c. c \<noteq> CHR ''/'') (rev (unslash p)))
      in if unslash dir = [] then (if dir = [] then [] else ''/'') else unslash dir)"

lemma dropWhile_shorter: "xs \<noteq> [] \<Longrightarrow> P (hd xs) \<Longrightarrow> length (dropWhile P xs) < length xs"
  using length_dropWhile_le [of P "tl xs"] by (cases xs) auto

lemma path_parent_shorter:
  assumes "p \<noteq> []"
  shows "length (path_parent p) < length p"
proof -
  define s where "s = dropWhile (\<lambda>c. c = CHR ''/'') (rev p)"
  define d where "d = dropWhile (\<lambda>c. c \<noteq> CHR ''/'') s"
  have s: "length s \<le> length p" unfolding s_def length_rev [of p, symmetric] by (rule length_dropWhile_le)
  have d: "length d < length s" if "s \<noteq> []"
    unfolding d_def using that hd_dropWhile [of "\<lambda>c. c = CHR ''/''" "rev p"]
    by (intro dropWhile_shorter) (auto simp: s_def)
  have "d = []" if "s = []" using that by (simp add: d_def)
  then have "length d < length p" using d s assms by (cases "s = []") auto
  moreover have "path_parent p = (if dropWhile (\<lambda>c. c = CHR ''/'') d = [] then (if d = [] then [] else ''/'')
      else rev (dropWhile (\<lambda>c. c = CHR ''/'') d))"
    by (simp add: path_parent_def Let_def s_def d_def del: dropWhile_eq_Nil_conv)
  then have "length (path_parent p) \<le> length d"
    using length_dropWhile_le [of "\<lambda>c. c = CHR ''/''" d]
    by (cases "d = []") (simp_all add: Suc_le_eq del: dropWhile_eq_Nil_conv)
  ultimately show ?thesis by simp
qed

text \<open>The path itself and the directories above it.\<close>

lemma ancestor_length: "length ((path_parent ^^ n) p) \<le> length p"
proof (induction n)
  case (Suc n)
  have "length (path_parent q) \<le> length q" for q
    using path_parent_shorter [of q] by (cases q) (auto simp: path_parent_def)
  with Suc show ?case using order_trans by fastforce
qed simp

lemma path_join_longer: "name \<noteq> [] \<Longrightarrow> CHR ''/'' \<notin> set name \<Longrightarrow> length d < length (path_join d name)"
  by (cases name) (auto simp: path_join_def starts_with_def)

lemma path_join_no_ancestor:
  assumes "name \<noteq> []" "CHR ''/'' \<notin> set name"
  shows "path_join d name \<noteq> (path_parent ^^ n) d"
  using path_join_longer [OF assms, of d] ancestor_length [of n d] by auto

end
