(* ===== verification/Rule_Admin.thy ===== *)
theory Rule_Admin
  imports Daemon_State Paths
begin

text \<open>
  The rules of the running daemon (\<open>src/packages/secreq/src/daemon/state.rs\<close>): loading and
  reloading the file, evaluating an ask against it, and the mutations (add, update, delete,
  enable, register a module) with their guards and their rollback; and \<open>edit_rule\<close> of \<open>rules.rs\<close>,
  which rewrites the file. The file system the rule code sees is a value of type \<open>rules_env\<close>,
  returned updated. Only what goes to the log file is left out.
\<close>

section \<open>Editing the file\<close>

text \<open>
  What the code takes from outside: what other processes do between the two reads of an edit,
  whether directories and files can be written, the document rewriting of \<open>toml_edit\<close>, the mtime
  of a new file, random bytes, the clock, and the root directory of secreq.
\<close>

record 'm admin_env =
  ad_between :: "'m rules_env \<Rightarrow> 'm rules_env"
  ad_dir_ok :: bool
  ad_write_ok :: bool
  ad_remove_ok :: bool
  ad_render :: "string \<Rightarrow> RuleEdit \<Rightarrow> string option"
  ad_stamp :: nat
  ad_new_id :: string
  ad_now :: nat
  ad_root :: "string option"

definition rules_dir_of :: "string option \<Rightarrow> string" where
  "rules_dir_of path = (case path of None \<Rightarrow> [] | Some p \<Rightarrow> path_parent p)"

definition disk_write :: "string \<Rightarrow> string \<Rightarrow> nat \<Rightarrow> 'm rules_env \<Rightarrow> 'm rules_env" where
  "disk_write path bs stamp E = E\<lparr>re_read := (re_read E)(path := Inr bs),
     re_stat := (re_stat E)(path := Stat (Some stamp)), re_is_file := (re_is_file E)(path := True)\<rparr>"

definition disk_remove :: "string \<Rightarrow> 'm rules_env \<Rightarrow> 'm rules_env" where
  "disk_remove path E = E\<lparr>re_read := (re_read E)(path := Inl ''not found''),
     re_stat := (re_stat E)(path := NotFoundOnDisk), re_is_file := (re_is_file E)(path := False)\<rparr>"

datatype edit_failure = DirNotCreated | RulesUnreadable string | RulesUnparsed | EditRefused edit_error
  | EditNotRendered | EditNotReparsed | ChangedMeanwhile | RulesNotWritten

definition SCHEMA_LINE :: string where
  "SCHEMA_LINE = ''#:schema ''"

text \<open>\<open>read_to_string\<close> with its \<open>NotFound\<close> case told apart.\<close>

definition read_existing :: "'m rules_env \<Rightarrow> string \<Rightarrow> string + string option" where
  "read_existing E path = (if re_stat E path = NotFoundOnDisk then Inr None
     else (case re_read E path of Inl e \<Rightarrow> Inl e | Inr t \<Rightarrow> Inr (Some t)))"

definition parse_rules :: "'m rules_env \<Rightarrow> string \<Rightarrow> Rule list option" where
  "parse_rules E txt = (case re_rules_toml E txt of
      Inl _ \<Rightarrow> None
    | Inr wires \<Rightarrow> (case convert_rules wires of Inl _ \<Rightarrow> None | Inr (rules, _) \<Rightarrow> Some rules))"

definition edit_rule ::
  "'m admin_env \<Rightarrow> string \<Rightarrow> RuleEdit \<Rightarrow> 'm rules_env \<Rightarrow> (edit_failure + unit) \<times> 'm rules_env" where
  "edit_rule A path edit E =
     (if path_parent path \<noteq> [] \<and> \<not> ad_dir_ok A then (Inl DirNotCreated, E)
      else (case read_existing E path of
          Inl err \<Rightarrow> (Inl (RulesUnreadable err), E)
        | Inr found \<Rightarrow>
            (let existing = (case found of Some t \<Rightarrow> t | None \<Rightarrow> SCHEMA_LINE) in
             case parse_rules E existing of
               None \<Rightarrow> (Inl RulesUnparsed, E)
             | Some current \<Rightarrow> (case apply_rule_edit current edit of
                   Inl e \<Rightarrow> (Inl (EditRefused e), E)
                 | Inr _ \<Rightarrow> (case ad_render A existing edit of
                       None \<Rightarrow> (Inl EditNotRendered, E)
                     | Some txt \<Rightarrow>
                         (case re_rules_toml E txt of
                            Inl _ \<Rightarrow> (Inl EditNotReparsed, E)
                          | Inr _ \<Rightarrow>
                              (let E = ad_between A E in
                               case read_existing E path of
                                 Inl err \<Rightarrow> (Inl (RulesUnreadable err), E)
                               | Inr None \<Rightarrow>
                                   if current \<noteq> [] then (Inl (RulesUnreadable ''not found''), E)
                                   else if \<not> ad_write_ok A then (Inl RulesNotWritten, E)
                                   else (Inr (), disk_write path txt (ad_stamp A) E)
                               | Inr (Some live) \<Rightarrow>
                                   if live \<noteq> existing then (Inl ChangedMeanwhile, E)
                                   else if \<not> ad_write_ok A then (Inl RulesNotWritten, E)
                                   else (Inr (), disk_write path txt (ad_stamp A) E))))))))"

section \<open>Loading and reloading\<close>

definition load_at :: "'m rules_env \<Rightarrow> string \<Rightarrow> load_error + 'm LoadedRules" where
  "load_at E path = load_rules E (path_parent path) path"

definition take_rules :: "'m LoadedRules \<Rightarrow> 'm State \<Rightarrow> 'm State" where
  "take_rules L st = st\<lparr>st_rules := lr_rules L, st_rule_modules := lr_modules L,
     st_wasm_refusals := rf_wasm (lr_refusals L), st_scope_refusals := rf_scopes (lr_refusals L),
     st_rules_loaded_at := lr_mtime L, st_scope_config_loaded_at := lr_scope_config_mtime L\<rparr>"

definition stamp_rules :: "'m rules_env \<Rightarrow> string \<Rightarrow> 'm State \<Rightarrow> 'm State" where
  "stamp_rules E path st = st\<lparr>st_rules_loaded_at := file_mtime E path,
     st_scope_config_loaded_at := file_mtime E (wrap_scope_config_path (path_parent path))\<rparr>"

definition with_rules_path_and_config ::
  "'m rules_env \<Rightarrow> nat \<Rightarrow> memory \<Rightarrow> string \<Rightarrow> WrapsConfig option \<Rightarrow> 'm State" where
  "with_rules_path_and_config E now M path cfg =
     (let st = new_state now M;
          st = (case load_at E path of Inr L \<Rightarrow> take_rules L st | Inl _ \<Rightarrow> stamp_rules E path st)
      in st\<lparr>st_rules_path := Some path, st_scope_config := cfg\<rparr>)"

definition with_rules_path :: "'m rules_env \<Rightarrow> nat \<Rightarrow> memory \<Rightarrow> string \<Rightarrow> 'm State" where
  "with_rules_path E now M path = with_rules_path_and_config E now M path None"

definition reload_rules_if_changed :: "host \<Rightarrow> 'm rules_env \<Rightarrow> 'm State \<Rightarrow> 'm State" where
  "reload_rules_if_changed H E st = (case st_rules_path st of
      None \<Rightarrow> st
    | Some path \<Rightarrow>
        if file_mtime E path = st_rules_loaded_at st
          \<and> file_mtime E (wrap_scope_config_path (path_parent path)) = st_scope_config_loaded_at st then st
        else (case load_at E path of
            Inr L \<Rightarrow> broadcast_consent_update H (take_rules L st)
          | Inl _ \<Rightarrow> stamp_rules E path st))"

text \<open>The scope refusals and the mtime of \<open>config.toml\<close> stay as they were.\<close>

definition reload_rules_after_edit :: "'m rules_env \<Rightarrow> string \<Rightarrow> 'm State \<Rightarrow> load_error + 'm State" where
  "reload_rules_after_edit E path st = (case load_at E path of
      Inl e \<Rightarrow> Inl e
    | Inr L \<Rightarrow> Inr (st\<lparr>st_rules := lr_rules L, st_rule_modules := lr_modules L,
        st_wasm_refusals := rf_wasm (lr_refusals L), st_rules_loaded_at := lr_mtime L\<rparr>))"

section \<open>Evaluating an ask\<close>

definition eval_caller :: "WireCaller \<Rightarrow> EvalCaller" where
  "eval_caller c = \<lparr>ec_name = wc_name c, ec_command = wc_command c, ec_exe = wc_exe c\<rparr>"

definition eval_ctx :: "Ask \<Rightarrow> EvalCtx" where
  "eval_ctx ask = \<lparr>cx_wrap = dk_wrap (ask_dedupe_key ask), cx_joined_argv = joined_argv (ask_command ask),
     cx_callers = map eval_caller (callers ask), cx_cwd = cwd ask,
     cx_secrets = evaluation_subjects (dk_wrap (ask_dedupe_key ask)) (map sk_name (secrets ask))\<rparr>"

definition evaluate_rules_for_ask :: "'m rules_env \<Rightarrow> Ask \<Rightarrow> 'm State \<Rightarrow> RuleHit option" where
  "evaluate_rules_for_ask E ask st = (case ask_subject ask of
      ScopedAgent _ \<Rightarrow> None
    | _ \<Rightarrow> if st_rules st = [] then None
           else ev_hit (evaluate_with_refusals (re_glob E) (re_wasm E) (st_rules st) (st_rule_modules st)
             (refusals_snapshot st) (eval_ctx ask)))"

section \<open>Mutations\<close>

datatype admin_error =
    EmptyWrapScope | UnknownWrapScopes "string list" | ScopeConfig string | BrokenPatterns "string list"
  | EmptySnapshot | DuplicateRuleId string | ModuleNotLoaded "WasmRefusalCategory \<times> string"
  | EditFailed edit_failure | NotReloaded load_error | NoSuchRule string | RuleIdChanged string string
  | RuleWasDeleted string | RuleWasChanged string
  | ModuleNotVetted string | SubjectsUnreadable string | EmptyDeclaration
  | DisjointSecrets "string list" "string list" | IdCollision string | BadStorePath | StoreExists
  | StoreDirNotCreated | ModuleNotStored

type_synonym ('m, 'a) admin_result = "(admin_error + 'a) \<times> 'm State \<times> 'm rules_env"

definition refuse_broken_wrap_scope :: "'m rules_env \<Rightarrow> string list option \<Rightarrow> 'm State \<Rightarrow> admin_error option" where
  "refuse_broken_wrap_scope E wraps st = (case wraps of
      None \<Rightarrow> None
    | Some ws \<Rightarrow>
        if ws = [] then Some EmptyWrapScope
        else (case (case st_rules_path st of
              Some path \<Rightarrow> load_wrap_scope_config E (path_parent path) | None \<Rightarrow> Inr empty_config) of
            Inl err \<Rightarrow> Some (ScopeConfig err)
          | Inr cfg \<Rightarrow> (let unknown = filter (\<lambda>w. \<not> is_known_wrap_scope cfg w) ws
              in if unknown = [] then None else Some (UnknownWrapScopes unknown))))"

definition refuse_broken_patterns :: "Rule \<Rightarrow> admin_error option" where
  "refuse_broken_patterns rule = (let refusals = pattern_refusals [rule]
     in if refusals = [] then None else Some (BrokenPatterns (map pf_reason refusals)))"

definition install_rule_module ::
  "'m rules_env \<Rightarrow> Rule \<Rightarrow> 'm State \<Rightarrow> WasmRefusalCategory \<times> string + 'm State" where
  "install_rule_module E rule st = (case load_rule_module E (rules_dir_of (st_rules_path st)) rule of
      Inl e \<Rightarrow> Inl e
    | Inr loaded \<Rightarrow> Inr (st\<lparr>st_rule_modules := (case loaded of
          Some m \<Rightarrow> hm_insert (ru_id rule) m (st_rule_modules st)
        | None \<Rightarrow> hm_remove (ru_id rule) (st_rule_modules st)),
        st_wasm_refusals := filter (\<lambda>r. wf_rule_id r \<noteq> ru_id rule) (st_wasm_refusals st)\<rparr>))"

definition restore_rule_module_after_failed_edit ::
  "'m rules_env \<Rightarrow> Rule \<Rightarrow> WasmRefusal option \<Rightarrow> 'm State \<Rightarrow> 'm State" where
  "restore_rule_module_after_failed_edit E previous refusal st =
     (let st = (case install_rule_module E previous st of
          Inl _ \<Rightarrow> st\<lparr>st_rule_modules := hm_remove (ru_id previous) (st_rule_modules st)\<rparr>
        | Inr st \<Rightarrow> st)
      in case refusal of None \<Rightarrow> st | Some r \<Rightarrow> st\<lparr>st_wasm_refusals := st_wasm_refusals st @ [r]\<rparr>)"

definition ensure_cached_rule_is_current :: "Rule \<Rightarrow> 'm State \<Rightarrow> admin_error option" where
  "ensure_cached_rule_is_current expected st =
     (case find (\<lambda>r. ru_id r = ru_id expected) (st_rules st) of
        None \<Rightarrow> Some (RuleWasDeleted (ru_id expected))
      | Some actual \<Rightarrow> if \<not> rule_eq actual expected then Some (RuleWasChanged (ru_id expected)) else None)"

text \<open>The end of every mutation that reached the file.\<close>

definition reload_and_publish :: "host \<Rightarrow> string \<Rightarrow> 'm State \<Rightarrow> 'm rules_env \<Rightarrow> ('m, unit) admin_result" where
  "reload_and_publish H path st E = (case reload_rules_after_edit E path st of
      Inl e \<Rightarrow> (Inl (NotReloaded e), st, E)
    | Inr st \<Rightarrow> (Inr (), broadcast_consent_update H st, E))"

definition admit_rule :: "'m admin_env \<Rightarrow> host \<Rightarrow> Rule \<Rightarrow> 'm State \<Rightarrow> 'm rules_env \<Rightarrow> ('m, unit) admin_result" where
  "admit_rule A H rule st E =
     (if list_ex (\<lambda>r. ru_id r = ru_id rule) (st_rules st) then (Inl (DuplicateRuleId (ru_id rule)), st, E)
      else (case install_rule_module E rule st of
          Inl e \<Rightarrow> (Inl (ModuleNotLoaded e), st, E)
        | Inr st \<Rightarrow> (case st_rules_path st of
              None \<Rightarrow> (Inr (), broadcast_consent_update H (st\<lparr>st_rules := st_rules st @ [rule]\<rparr>), E)
            | Some path \<Rightarrow> (case edit_rule A path (AddEdit rule) E of
                  (Inl err, E) \<Rightarrow> (Inl (EditFailed err),
                    st\<lparr>st_rule_modules := hm_remove (ru_id rule) (st_rule_modules st)\<rparr>, E)
                | (Inr _, E) \<Rightarrow> reload_and_publish H path st E))))"

definition add_rule :: "'m admin_env \<Rightarrow> host \<Rightarrow> Rule \<Rightarrow> 'm State \<Rightarrow> 'm rules_env \<Rightarrow> ('m, unit) admin_result" where
  "add_rule A H rule st E = (case refuse_broken_wrap_scope E (ru_wraps rule) st of
      Some e \<Rightarrow> (Inl e, st, E)
    | None \<Rightarrow> (case refuse_broken_patterns rule of
          Some e \<Rightarrow> (Inl e, st, E)
        | None \<Rightarrow> if is_wasm rule \<and> ru_trained_secrets rule = [] then (Inl EmptySnapshot, st, E)
                  else admit_rule A H rule st E))"

definition replace_first :: "('a \<Rightarrow> bool) \<Rightarrow> ('a \<Rightarrow> 'a) \<Rightarrow> 'a list \<Rightarrow> 'a list" where
  "replace_first P f xs = takeWhile (\<lambda>x. \<not> P x) xs
     @ (case dropWhile (\<lambda>x. \<not> P x) xs of [] \<Rightarrow> [] | x # rest \<Rightarrow> f x # rest)"

definition update_rule_if_unchanged ::
  "'m admin_env \<Rightarrow> host \<Rightarrow> Rule \<Rightarrow> Rule \<Rightarrow> 'm State \<Rightarrow> 'm rules_env \<Rightarrow> ('m, unit) admin_result" where
  "update_rule_if_unchanged A H expected rule st E = (case refuse_broken_wrap_scope E (ru_wraps rule) st of
      Some e \<Rightarrow> (Inl e, st, E)
    | None \<Rightarrow> (case refuse_broken_patterns rule of
          Some e \<Rightarrow> (Inl e, st, E)
        | None \<Rightarrow>
            if ru_id expected \<noteq> ru_id rule then (Inl (RuleIdChanged (ru_id expected) (ru_id rule)), st, E)
            else (case ensure_cached_rule_is_current expected st of
                Some e \<Rightarrow> (Inl e, st, E)
              | None \<Rightarrow>
                  (let prev_refusal = find (\<lambda>r. wf_rule_id r = ru_id rule) (st_wasm_refusals st)
                   in case install_rule_module E rule st of
                        Inl e \<Rightarrow> (Inl (ModuleNotLoaded e), st, E)
                      | Inr st \<Rightarrow> (case st_rules_path st of
                            None \<Rightarrow> (Inr (), broadcast_consent_update H (st\<lparr>st_rules :=
                              replace_first (\<lambda>r. ru_id r = ru_id expected) (\<lambda>_. rule) (st_rules st)\<rparr>), E)
                          | Some path \<Rightarrow> (case edit_rule A path (UpdateEdit expected rule) E of
                                (Inl err, E) \<Rightarrow> (Inl (EditFailed err),
                                  restore_rule_module_after_failed_edit E expected prev_refusal st, E)
                              | (Inr _, E) \<Rightarrow> reload_and_publish H path st E))))))"

definition update_rule :: "'m admin_env \<Rightarrow> host \<Rightarrow> Rule \<Rightarrow> 'm State \<Rightarrow> 'm rules_env \<Rightarrow> ('m, unit) admin_result" where
  "update_rule A H rule st E = (case find (\<lambda>r. ru_id r = ru_id rule) (st_rules st) of
      None \<Rightarrow> (Inl (NoSuchRule (ru_id rule)), st, E)
    | Some expected \<Rightarrow> update_rule_if_unchanged A H expected rule st E)"

definition rule_wasm_path :: "'m admin_env \<Rightarrow> string \<Rightarrow> string option" where
  "rule_wasm_path A i = (if i = [] \<or> i = ''.'' \<or> i = ''..'' \<or> CHR ''/'' \<in> set i \<or> CHR 0x00 \<in> set i then None
     else map_option (\<lambda>root. path_join (path_join root ''rules'') (i @ ''.wasm'')) (ad_root A))"

definition remove_stored_module :: "'m admin_env \<Rightarrow> Rule \<Rightarrow> 'm State \<Rightarrow> 'm rules_env \<Rightarrow> 'm rules_env" where
  "remove_stored_module A rule st E = (case rule_wasm rule of
      None \<Rightarrow> E
    | Some wasm \<Rightarrow> (case rule_wasm_path A (ru_id rule) of
          None \<Rightarrow> E
        | Some canonical \<Rightarrow>
            if path_join (rules_dir_of (st_rules_path st)) (wm_path wasm) \<noteq> canonical \<or> \<not> ad_remove_ok A then E
            else disk_remove canonical E))"

definition delete_rule_if_unchanged ::
  "'m admin_env \<Rightarrow> host \<Rightarrow> Rule \<Rightarrow> 'm State \<Rightarrow> 'm rules_env \<Rightarrow> ('m, unit) admin_result" where
  "delete_rule_if_unchanged A H expected st E = (case ensure_cached_rule_is_current expected st of
      Some e \<Rightarrow> (Inl e, st, E)
    | None \<Rightarrow> (case st_rules_path st of
          None \<Rightarrow>
            (let st = st\<lparr>st_rules := filter (\<lambda>r. ru_id r \<noteq> ru_id expected) (st_rules st),
                   st_rule_modules := hm_remove (ru_id expected) (st_rule_modules st),
                   st_wasm_refusals := filter (\<lambda>r. wf_rule_id r \<noteq> ru_id expected) (st_wasm_refusals st)\<rparr>
             in (Inr (), broadcast_consent_update H st, remove_stored_module A expected st E))
        | Some path \<Rightarrow> (case edit_rule A path (DeleteEdit expected) E of
              (Inl err, E) \<Rightarrow> (Inl (EditFailed err), st, E)
            | (Inr _, E) \<Rightarrow> (case reload_rules_after_edit E path st of
                  Inl e \<Rightarrow> (Inl (NotReloaded e), st, E)
                | Inr st \<Rightarrow> (Inr (), broadcast_consent_update H st, remove_stored_module A expected st E)))))"

definition delete_rule :: "'m admin_env \<Rightarrow> host \<Rightarrow> string \<Rightarrow> 'm State \<Rightarrow> 'm rules_env \<Rightarrow> ('m, unit) admin_result" where
  "delete_rule A H i st E = (case find (\<lambda>r. ru_id r = i) (st_rules st) of
      None \<Rightarrow> (Inl (NoSuchRule i), st, E)
    | Some expected \<Rightarrow> delete_rule_if_unchanged A H expected st E)"

definition set_rule_enabled_if_unchanged ::
  "'m admin_env \<Rightarrow> host \<Rightarrow> Rule \<Rightarrow> bool \<Rightarrow> 'm State \<Rightarrow> 'm rules_env \<Rightarrow> ('m, unit) admin_result" where
  "set_rule_enabled_if_unchanged A H expected enabled st E = (case ensure_cached_rule_is_current expected st of
      Some e \<Rightarrow> (Inl e, st, E)
    | None \<Rightarrow> (case st_rules_path st of
          None \<Rightarrow> (Inr (), broadcast_consent_update H (st\<lparr>st_rules :=
            replace_first (\<lambda>r. ru_id r = ru_id expected) (\<lambda>r. r\<lparr>ru_enabled := enabled\<rparr>) (st_rules st)\<rparr>), E)
        | Some path \<Rightarrow> (case edit_rule A path (SetEnabledEdit expected enabled) E of
              (Inl err, E) \<Rightarrow> (Inl (EditFailed err), st, E)
            | (Inr _, E) \<Rightarrow> reload_and_publish H path st E)))"

definition set_rule_enabled ::
  "'m admin_env \<Rightarrow> host \<Rightarrow> string \<Rightarrow> bool \<Rightarrow> 'm State \<Rightarrow> 'm rules_env \<Rightarrow> ('m, unit) admin_result" where
  "set_rule_enabled A H i enabled st E = (case find (\<lambda>r. ru_id r = i) (st_rules st) of
      None \<Rightarrow> (Inl (NoSuchRule i), st, E)
    | Some expected \<Rightarrow> set_rule_enabled_if_unchanged A H expected enabled st E)"

text \<open>The secrets a module may decide: the operator's list cut down to what it declares.\<close>

definition granted_secrets :: "string list option \<Rightarrow> string list \<Rightarrow> admin_error + string list" where
  "granted_secrets declared trained = (case declared of
      None \<Rightarrow> Inr trained
    | Some ds \<Rightarrow> if ds = [] then Inl EmptyDeclaration
        else if trained = [] then Inr trained
        else (let both = filter (\<lambda>s. s \<in> set ds) trained
              in if both = [] then Inl (DisjointSecrets trained ds) else Inr both))"

definition recorded_path :: "string \<Rightarrow> string \<Rightarrow> string" where
  "recorded_path rules_dir dest = (if rules_dir = [] then dest
     else case strip_prefix (if ends_with rules_dir ''/'' then rules_dir else rules_dir @ ''/'') dest of
       Some rel \<Rightarrow> rel | None \<Rightarrow> dest)"

definition add_wasm_rule ::
  "'m admin_env \<Rightarrow> host \<Rightarrow> string \<Rightarrow> string \<Rightarrow> string list option \<Rightarrow> string list \<Rightarrow> bool
     \<Rightarrow> 'm State \<Rightarrow> 'm rules_env \<Rightarrow> ('m, Rule) admin_result" where
  "add_wasm_rule A H name bs wraps trained allow_all st E = (case refuse_broken_wrap_scope E wraps st of
      Some e \<Rightarrow> (Inl e, st, E)
    | None \<Rightarrow> (case wh_from_binary (re_wasm E) bs of
          Inl err \<Rightarrow> (Inl (ModuleNotVetted err), st, E)
        | Inr m \<Rightarrow> (case wh_declared_subjects (re_wasm E) m of
              Inl err \<Rightarrow> (Inl (SubjectsUnreadable err), st, E)
            | Inr declared \<Rightarrow> (case granted_secrets declared trained of
                  Inl err \<Rightarrow> (Inl err, st, E)
                | Inr granted \<Rightarrow>
                    if granted = [] \<and> \<not> allow_all then (Inl EmptySnapshot, st, E)
                    else if list_ex (\<lambda>r. ru_id r = ad_new_id A) (st_rules st)
                    then (Inl (IdCollision (ad_new_id A)), st, E)
                    else (case rule_wasm_path A (ad_new_id A) of
                        None \<Rightarrow> (Inl BadStorePath, st, E)
                      | Some dest \<Rightarrow>
                          if (case re_stat E dest of Stat _ \<Rightarrow> True | _ \<Rightarrow> False) then (Inl StoreExists, st, E)
                          else
                            (let rule = \<lparr>ru_id = ad_new_id A, ru_name = name, ru_enabled = True, ru_wraps = wraps,
                                   ru_trained_secrets = granted, ru_created_at_unix = ad_now A,
                                   ru_body = Wasm \<lparr>wm_path = recorded_path (rules_dir_of (st_rules_path st)) dest,
                                     wm_sha256 = re_sha256_hex E bs, wm_declared_secrets = declared\<rparr>\<rparr>
                             in if \<not> ad_dir_ok A then (Inl StoreDirNotCreated, st, E)
                                else if \<not> ad_write_ok A then (Inl ModuleNotStored, st, E)
                                else (case admit_rule A H rule st (disk_write dest bs (ad_stamp A) E) of
                                    (Inl err, st, E) \<Rightarrow> (Inl err, st, remove_stored_module A rule st E)
                                  | (Inr _, st, E) \<Rightarrow> (Inr rule, st, E))))))))"

section \<open>Modules stay pinned\<close>

definition same_tools :: "'m rules_env \<Rightarrow> 'm rules_env \<Rightarrow> bool" where
  "same_tools E T \<longleftrightarrow> re_wasm E = re_wasm T \<and> re_sha256_hex E = re_sha256_hex T"

text \<open>The module is what some bytes with the pinned digest compile to, and declares what the rule says.\<close>

definition vouched :: "'m rules_env \<Rightarrow> Rule \<Rightarrow> 'm \<Rightarrow> bool" where
  "vouched T r m \<longleftrightarrow> (\<exists>w bs. ru_body r = Wasm w \<and> eq_ignore_ascii_case (re_sha256_hex T bs) (wm_sha256 w)
     \<and> wh_from_binary (re_wasm T) bs = Inr m
     \<and> (wm_declared_secrets w = None \<or> wh_declared_subjects (re_wasm T) m = Inr (wm_declared_secrets w)))"

text \<open>Every module is vouched for by a rule of the list, or by one of \<open>P\<close> an edit brought in.\<close>

definition modules_pinned :: "'m rules_env \<Rightarrow> (Rule \<Rightarrow> bool) \<Rightarrow> 'm State \<Rightarrow> bool" where
  "modules_pinned T P st \<longleftrightarrow> (\<forall>i m. hm_get (st_rule_modules st) i = Some m
     \<longrightarrow> (\<exists>r. (r \<in> set (st_rules st) \<or> P r) \<and> ru_id r = i \<and> vouched T r m))"

lemma pinned_mono: "modules_pinned T P st \<Longrightarrow> (\<And>r. P r \<Longrightarrow> Q r) \<Longrightarrow> modules_pinned T Q st"
  unfolding modules_pinned_def by blast

lemma same_tools_simps [simp]:
  "same_tools T T" "same_tools (disk_write p b s E) T = same_tools E T" "same_tools (disk_remove p E) T = same_tools E T"
  by (simp_all add: same_tools_def disk_write_def disk_remove_def)

lemma pinned_vouched: "pinned E dir r m \<Longrightarrow> same_tools E T \<Longrightarrow> vouched T r m"
  by (auto simp: pinned_def vouched_def same_tools_def)

lemma vouched_eq: "rule_eq a b \<Longrightarrow> vouched T b m \<Longrightarrow> vouched T a m"
  by (auto simp: rule_eq_def vouched_def split: RuleBody.splits)

lemma vouched_enabled [simp]: "vouched T (r\<lparr>ru_enabled := b\<rparr>) m = vouched T r m"
  by (simp add: vouched_def)

lemma published_rules [simp]:
  "st_rules (broadcast_consent_update H st) = st_rules st"
  "st_rule_modules (broadcast_consent_update H st) = st_rule_modules st"
  "st_scope_refusals (broadcast_consent_update H st) = st_scope_refusals st"
  "st_rules_path (broadcast_consent_update H st) = st_rules_path st"
  "st_rules_loaded_at (broadcast_consent_update H st) = st_rules_loaded_at st"
  "st_scope_config_loaded_at (broadcast_consent_update H st) = st_scope_config_loaded_at st"
  by (simp_all add: broadcast_consent_update_def Let_def tell_link_def tell_manager_def tell_consent_def split_beta)

lemma published_pinned [simp]: "modules_pinned T P (broadcast_consent_update H st) = modules_pinned T P st"
  by (simp add: modules_pinned_def)

lemma loaded_vouched:
  assumes "load_at E path = Inr L" "same_tools E T" "hm_get (lr_modules L) i = Some m"
  shows "\<exists>r \<in> set (lr_rules L). ru_id r = i \<and> vouched T r m"
proof (cases "re_stat E path")
  case (Stat mtime)
  then obtain rules wasm where "load_modules E (path_parent path) (lr_rules L) ([], []) = (lr_modules L, wasm)"
    using assms(1) by (auto simp: load_at_def load_rules_def Let_def split: sum.splits prod.splits)
  from load_modules_spec [OF this] show ?thesis using assms(2,3) pinned_vouched by fastforce
qed (use assms in \<open>auto simp: load_at_def load_rules_def\<close>)

lemma install_modules:
  assumes "install_rule_module E rule st = Inr st'" "same_tools E T"
  shows "st_rules st' = st_rules st" "st_rules_path st' = st_rules_path st"
    "\<And>i m. hm_get (st_rule_modules st') i = Some m \<Longrightarrow>
      (if i = ru_id rule then vouched T rule m else hm_get (st_rule_modules st) i = Some m)"
proof -
  obtain loaded where l: "load_rule_module E (rules_dir_of (st_rules_path st)) rule = Inr loaded"
    and st': "st' = st\<lparr>st_rule_modules := (case loaded of
          Some m \<Rightarrow> hm_insert (ru_id rule) m (st_rule_modules st) | None \<Rightarrow> hm_remove (ru_id rule) (st_rule_modules st)),
        st_wasm_refusals := filter (\<lambda>r. wf_rule_id r \<noteq> ru_id rule) (st_wasm_refusals st)\<rparr>"
    using assms(1) by (auto simp: install_rule_module_def split: sum.splits)
  show "st_rules st' = st_rules st" "st_rules_path st' = st_rules_path st" by (simp_all add: st')
  fix i m assume g: "hm_get (st_rule_modules st') i = Some m"
  show "if i = ru_id rule then vouched T rule m else hm_get (st_rule_modules st) i = Some m"
  proof (cases loaded)
    case None
    then show ?thesis using g by (simp add: st' split: if_splits)
  next
    case (Some m')
    have "vouched T rule m'" using pinned_vouched [OF load_rule_module_pinned [OF l [unfolded Some]] assms(2)] .
    then show ?thesis using g by (simp add: st' Some split: if_splits)
  qed
qed

lemma set_replace_first:
  "x \<in> set xs \<Longrightarrow> \<not> P x \<Longrightarrow> x \<in> set (replace_first P f xs)"
  "x \<in> set xs \<Longrightarrow> P x \<Longrightarrow> \<exists>y \<in> set xs. P y \<and> f y \<in> set (replace_first P f xs)"
  "x \<in> set xs \<Longrightarrow> x \<in> set (replace_first P f xs) \<or> f x \<in> set (replace_first P f xs)"
proof -
  have "(x \<in> set xs \<and> \<not> P x \<longrightarrow> x \<in> set (replace_first P f xs))
    \<and> (x \<in> set xs \<and> P x \<longrightarrow> (\<exists>y \<in> set xs. P y \<and> f y \<in> set (replace_first P f xs)))
    \<and> (x \<in> set xs \<longrightarrow> x \<in> set (replace_first P f xs) \<or> f x \<in> set (replace_first P f xs))"
    by (induction xs) (auto simp: replace_first_def)
  then show "x \<in> set xs \<Longrightarrow> \<not> P x \<Longrightarrow> x \<in> set (replace_first P f xs)"
    "x \<in> set xs \<Longrightarrow> P x \<Longrightarrow> \<exists>y \<in> set xs. P y \<and> f y \<in> set (replace_first P f xs)"
    "x \<in> set xs \<Longrightarrow> x \<in> set (replace_first P f xs) \<or> f x \<in> set (replace_first P f xs)" by blast+
qed

lemma edit_rule_tools:
  "edit_rule A path edit E = (r, E') \<Longrightarrow> same_tools E T \<Longrightarrow> same_tools (ad_between A E) T \<Longrightarrow> same_tools E' T"
  by (auto simp: edit_rule_def Let_def split: if_splits sum.splits option.splits)

lemma loaded_pinned:
  "load_at E path = Inr L \<Longrightarrow> same_tools E T \<Longrightarrow> st_rules st = lr_rules L \<Longrightarrow> st_rule_modules st = lr_modules L
   \<Longrightarrow> modules_pinned T P st"
  using loaded_vouched [of E path L T] unfolding modules_pinned_def by fastforce

lemma reload_pinned:
  assumes "reload_rules_after_edit E path st = Inr st'" "same_tools E T"
  shows "modules_pinned T P st'"
  using assms(1) by (auto simp: reload_rules_after_edit_def split: sum.splits intro: loaded_pinned [OF _ assms(2)])

text \<open>What each mutation keeps: the modules stay pinned, by the new rule where the file was edited but
  not read back.\<close>

definition kept :: "'m rules_env \<Rightarrow> (Rule \<Rightarrow> bool) \<Rightarrow> (Rule \<Rightarrow> bool) \<Rightarrow> ('m, 'a) admin_result \<Rightarrow> bool" where
  "kept T P Q = (\<lambda>(r, st, E). same_tools E T
     \<and> (modules_pinned T P st \<or> (\<exists>e. r = Inl (NotReloaded e)) \<and> modules_pinned T Q st))"

lemma keptI: "same_tools E T \<Longrightarrow> modules_pinned T P st \<Longrightarrow> kept T P Q (r, st, E)"
  by (simp add: kept_def)

lemma reload_and_publish_kept:
  "same_tools E T \<Longrightarrow> modules_pinned T Q st \<Longrightarrow> kept T P Q (reload_and_publish H path st E)"
  using reload_pinned by (auto simp: kept_def reload_and_publish_def split: sum.splits)

text \<open>The rules before, and one more.\<close>

definition or_rule :: "(Rule \<Rightarrow> bool) \<Rightarrow> Rule \<Rightarrow> Rule \<Rightarrow> bool" where
  "or_rule P rule r \<longleftrightarrow> P r \<or> r = rule"

lemma remove_stored_tools [simp]: "same_tools (remove_stored_module A rule st E) T = same_tools E T"
  by (auto simp: remove_stored_module_def split: option.splits)

definition neighbours_keep :: "'m admin_env \<Rightarrow> 'm rules_env \<Rightarrow> bool" where
  "neighbours_keep A T \<longleftrightarrow> (\<forall>E. same_tools E T \<longrightarrow> same_tools (ad_between A E) T)"

lemma edit_kept: "neighbours_keep A T \<Longrightarrow> edit_rule A path edit E = (r, E') \<Longrightarrow> same_tools E T \<Longrightarrow> same_tools E' T"
  by (rule edit_rule_tools) (auto simp: neighbours_keep_def)

lemma pinnedI:
  "(\<And>i m. hm_get (st_rule_modules st) i = Some m \<Longrightarrow> \<exists>r. (r \<in> set (st_rules st) \<or> P r) \<and> ru_id r = i \<and> vouched T r m)
   \<Longrightarrow> modules_pinned T P st"
  by (simp add: modules_pinned_def)

lemma pinnedD: "modules_pinned T P st \<Longrightarrow> hm_get (st_rule_modules st) i = Some m
   \<Longrightarrow> \<exists>r. (r \<in> set (st_rules st) \<or> P r) \<and> ru_id r = i \<and> vouched T r m"
  by (simp add: modules_pinned_def)

lemma pinned_install:
  assumes pin: "modules_pinned T P st" and tl: "same_tools E T" and i: "install_rule_module E rule st = Inr st'"
    and mods: "\<And>j m. hm_get ms j = Some m \<Longrightarrow> hm_get (st_rule_modules st') j = Some m"
    and rules: "\<And>r. r \<in> set (st_rules st) \<Longrightarrow> ru_id r \<noteq> ru_id rule \<Longrightarrow> r \<in> set rs"
    and own: "hm_get ms (ru_id rule) \<noteq> None \<Longrightarrow> rule \<in> set rs \<or> Q rule" and more: "\<And>r. P r \<Longrightarrow> Q r"
  shows "modules_pinned T Q (st'\<lparr>st_rules := rs, st_rule_modules := ms\<rparr>)"
proof (rule pinnedI)
  fix j m assume "hm_get (st_rule_modules (st'\<lparr>st_rules := rs, st_rule_modules := ms\<rparr>)) j = Some m"
  then have g: "hm_get ms j = Some m" by simp
  note in_st' = install_modules(3) [OF i tl mods [OF g]]
  have "\<exists>r. (r \<in> set rs \<or> Q r) \<and> ru_id r = j \<and> vouched T r m"
  proof (cases "j = ru_id rule")
    case True
    then show ?thesis using in_st' own g by fastforce
  next
    case False
    then obtain r where "r \<in> set (st_rules st) \<or> P r" "ru_id r = j" "vouched T r m" using in_st' pinnedD [OF pin] by auto
    then show ?thesis using rules more False by auto
  qed
  then show "\<exists>r. (r \<in> set (st_rules (st'\<lparr>st_rules := rs, st_rule_modules := ms\<rparr>)) \<or> Q r) \<and> ru_id r = j \<and> vouched T r m" by simp
qed

lemma pinned_installed:
  assumes "modules_pinned T P st" "same_tools E T" "install_rule_module E rule st = Inr st'"
  shows "modules_pinned T (or_rule P rule) st'"
proof -
  have "modules_pinned T (or_rule P rule) (st'\<lparr>st_rules := st_rules st, st_rule_modules := st_rule_modules st'\<rparr>)"
    by (rule pinned_install [OF assms]) (auto simp: or_rule_def)
  then show ?thesis using install_modules(1) [OF assms(3,2)] by (simp add: modules_pinned_def)
qed

lemma admit_kept:
  assumes nb: "neighbours_keep A T" and pin: "modules_pinned T P st" and tl: "same_tools E T"
  shows "kept T P (or_rule P rule) (admit_rule A H rule st E)"
proof (cases "list_ex (\<lambda>r. ru_id r = ru_id rule) (st_rules st)")
  case False
  show ?thesis
  proof (cases "install_rule_module E rule st")
    case (Inr st1)
    have r1: "st_rules st1 = st_rules st" using install_modules(1) [OF Inr tl] .
    show ?thesis
    proof (cases "st_rules_path st1")
      case None
      have "modules_pinned T P (st1\<lparr>st_rules := st_rules st @ [rule], st_rule_modules := st_rule_modules st1\<rparr>)"
        by (rule pinned_install [OF pin tl Inr]) auto
      then show ?thesis using False Inr None tl r1 by (simp add: admit_rule_def keptI)
    next
      case (Some path)
      have "modules_pinned T P (st1\<lparr>st_rules := st_rules st, st_rule_modules := hm_remove (ru_id rule) (st_rule_modules st1)\<rparr>)"
        by (rule pinned_install [OF pin tl Inr]) (auto split: if_splits)
      then have undone: "modules_pinned T P (st1\<lparr>st_rule_modules := hm_remove (ru_id rule) (st_rule_modules st1)\<rparr>)"
        using r1 by (simp add: modules_pinned_def)
      obtain res E' where e: "edit_rule A path (AddEdit rule) E = (res, E')" by force
      have tl': "same_tools E' T" using edit_kept [OF nb e tl] .
      show ?thesis using False Inr Some e undone tl' reload_and_publish_kept [OF tl' pinned_installed [OF pin tl Inr], of P H path]
        by (cases res) (simp_all add: admit_rule_def keptI)
    qed
  qed (use False pin tl in \<open>simp add: admit_rule_def kept_def\<close>)
qed (use pin tl in \<open>simp add: admit_rule_def kept_def\<close>)

lemma add_kept: "neighbours_keep A T \<Longrightarrow> modules_pinned T P st \<Longrightarrow> same_tools E T \<Longrightarrow> kept T P (or_rule P rule) (add_rule A H rule st E)"
  by (simp add: add_rule_def admit_kept keptI split: option.split)

lemma pinned_refusals [simp]: "modules_pinned T P (s\<lparr>st_wasm_refusals := x\<rparr>) = modules_pinned T P s"
  by (simp add: modules_pinned_def)

lemma find_in: "find P xs = Some x \<Longrightarrow> x \<in> set xs \<and> P x"
  by (induction xs) (auto split: if_splits)

lemma current_cached:
  assumes "ensure_cached_rule_is_current expected st = None"
  obtains r where "r \<in> set (st_rules st)" "rule_eq r expected" "ru_id r = ru_id expected"
proof -
  obtain r where "find (\<lambda>r. ru_id r = ru_id expected) (st_rules st) = Some r" "rule_eq r expected"
    using assms by (auto simp: ensure_cached_rule_is_current_def split: option.splits if_splits)
  then show ?thesis using that find_in by fast
qed

text \<open>After a failed edit the old module is loaded again, or no module is left for the rule.\<close>

lemma restore_pinned:
  assumes pin: "modules_pinned T P st0" and tl: "same_tools E0 T" "same_tools E T"
    and i: "install_rule_module E0 rule st0 = Inr st" and ids: "ru_id rule = ru_id old"
    and old: "r \<in> set (st_rules st0)" "rule_eq r old" "ru_id r = ru_id old"
  shows "modules_pinned T P (restore_rule_module_after_failed_edit E old ref st)"
proof -
  have r1: "st_rules st = st_rules st0" using install_modules(1) [OF i tl(1)] .
  have "modules_pinned T P (st\<lparr>st_rules := st_rules st0, st_rule_modules := hm_remove (ru_id old) (st_rule_modules st)\<rparr>)"
    by (rule pinned_install [OF pin tl(1) i]) (auto simp: ids split: if_splits)
  then have dropped: "modules_pinned T P (st\<lparr>st_rule_modules := hm_remove (ru_id old) (st_rule_modules st)\<rparr>)"
    using r1 by (simp add: modules_pinned_def)
  have "modules_pinned T P st1" if again: "install_rule_module E old st = Inr st1" for st1
  proof (rule pinnedI)
    fix j m assume g: "hm_get (st_rule_modules st1) j = Some m"
    have r2: "st_rules st1 = st_rules st0" using install_modules(1) [OF again tl(2)] r1 by simp
    have "\<exists>r. (r \<in> set (st_rules st0) \<or> P r) \<and> ru_id r = j \<and> vouched T r m"
    proof (cases "j = ru_id old")
      case True
      then have "vouched T old m" using install_modules(3) [OF again tl(2) g] by simp
      from vouched_eq [OF old(2) this] show ?thesis using old(1,3) True by auto
    next
      case False
      then have "hm_get (st_rule_modules st) j = Some m" using install_modules(3) [OF again tl(2) g] by simp
      from install_modules(3) [OF i tl(1) this] False have "hm_get (st_rule_modules st0) j = Some m" by (simp add: ids)
      then show ?thesis by (rule pinnedD [OF pin])
    qed
    then show "\<exists>r. (r \<in> set (st_rules st1) \<or> P r) \<and> ru_id r = j \<and> vouched T r m" by (simp add: r2)
  qed
  then show ?thesis using dropped
    by (simp add: restore_rule_module_after_failed_edit_def Let_def split: option.split sum.split)
qed

lemma update_kept:
  assumes nb: "neighbours_keep A T" and pin: "modules_pinned T P st" and tl: "same_tools E T"
  shows "kept T P (or_rule P rule) (update_rule_if_unchanged A H old rule st E)"
proof (cases "refuse_broken_wrap_scope E (ru_wraps rule) st \<noteq> None \<or> refuse_broken_patterns rule \<noteq> None
    \<or> ru_id old \<noteq> ru_id rule \<or> ensure_cached_rule_is_current old st \<noteq> None")
  case False
  then obtain r where r: "r \<in> set (st_rules st)" "rule_eq r old" "ru_id r = ru_id old"
    using current_cached by blast
  have go: "refuse_broken_wrap_scope E (ru_wraps rule) st = None" "refuse_broken_patterns rule = None"
    "ru_id old = ru_id rule" "ensure_cached_rule_is_current old st = None" using False by simp_all
  show ?thesis
  proof (cases "install_rule_module E rule st")
    case (Inr st1)
    have r1: "st_rules st1 = st_rules st" using install_modules(1) [OF Inr tl] .
    show ?thesis
    proof (cases "st_rules_path st1")
      case None
      let ?rules = "replace_first (\<lambda>r. ru_id r = ru_id old) (\<lambda>_. rule) (st_rules st)"
      have "rule \<in> set ?rules" using set_replace_first(2) [OF r(1), of "\<lambda>r. ru_id r = ru_id old" "\<lambda>_. rule"] r(3) by auto
      then have "modules_pinned T P (st1\<lparr>st_rules := ?rules, st_rule_modules := st_rule_modules st1\<rparr>)"
        by (intro pinned_install [OF pin tl Inr]) (auto simp: go(3) intro: set_replace_first(1))
      then show ?thesis using go Inr None tl r1 by (simp add: update_rule_if_unchanged_def Let_def keptI)
    next
      case (Some path)
      obtain res E' where e: "edit_rule A path (UpdateEdit old rule) E = (res, E')" by force
      have tl': "same_tools E' T" using edit_kept [OF nb e tl] .
      show ?thesis using go Inr Some e tl' reload_and_publish_kept [OF tl' pinned_installed [OF pin tl Inr], of P H path]
          restore_pinned [OF pin tl tl' Inr go(3) [symmetric] r]
        by (cases res) (simp_all add: update_rule_if_unchanged_def Let_def keptI)
    qed
  qed (use go pin tl in \<open>simp add: update_rule_if_unchanged_def Let_def keptI\<close>)
next
  case True
  then show ?thesis using pin tl by (auto simp: update_rule_if_unchanged_def Let_def keptI split: option.split)
qed

lemma filtered_pinned:
  assumes "modules_pinned T P st"
  shows "modules_pinned T P (st\<lparr>st_rules := filter (\<lambda>r. ru_id r \<noteq> i) (st_rules st),
    st_rule_modules := hm_remove i (st_rule_modules st)\<rparr>)"
  using assms by (fastforce simp: modules_pinned_def split: if_splits)

lemma delete_kept:
  assumes nb: "neighbours_keep A T" and pin: "modules_pinned T P st" and tl: "same_tools E T"
  shows "kept T P P (delete_rule_if_unchanged A H old st E)"
proof (cases "ensure_cached_rule_is_current old st")
  case None
  show ?thesis
  proof (cases "st_rules_path st")
    case None
    then show ?thesis using \<open>ensure_cached_rule_is_current old st = None\<close> tl filtered_pinned [OF pin, of "ru_id old"]
      by (simp add: delete_rule_if_unchanged_def Let_def keptI)
  next
    case (Some path)
    obtain res E' where e: "edit_rule A path (DeleteEdit old) E = (res, E')" by force
    have tl': "same_tools E' T" using edit_kept [OF nb e tl] .
    show ?thesis using None Some e tl' pin reload_pinned [OF _ tl']
      by (cases res; cases "reload_rules_after_edit E' path st")
        (simp_all add: delete_rule_if_unchanged_def kept_def)
  qed
qed (use pin tl in \<open>simp add: delete_rule_if_unchanged_def keptI\<close>)

lemma enable_kept:
  assumes nb: "neighbours_keep A T" and pin: "modules_pinned T P st" and tl: "same_tools E T"
  shows "kept T P P (set_rule_enabled_if_unchanged A H old b st E)"
proof (cases "ensure_cached_rule_is_current old st")
  case None
  show ?thesis
  proof (cases "st_rules_path st")
    case None
    let ?f = "\<lambda>r. r\<lparr>ru_enabled := b\<rparr>"
    let ?rules = "replace_first (\<lambda>r. ru_id r = ru_id old) ?f (st_rules st)"
    have "modules_pinned T P (st\<lparr>st_rules := ?rules\<rparr>)"
    proof (rule pinnedI)
      fix j m assume "hm_get (st_rule_modules (st\<lparr>st_rules := ?rules\<rparr>)) j = Some m"
      then obtain r where r: "r \<in> set (st_rules st) \<or> P r" "ru_id r = j" "vouched T r m" using pinnedD [OF pin] by auto
      have "\<exists>r. (r \<in> set ?rules \<or> P r) \<and> ru_id r = j \<and> vouched T r m"
      proof (cases "r \<in> set ?rules \<or> P r")
        case True
        then show ?thesis using r(2,3) by blast
      next
        case False
        then have "r \<in> set (st_rules st)" "r \<notin> set ?rules" using r(1) by simp_all
        then have "?f r \<in> set ?rules"
          using set_replace_first(3) [of r "st_rules st" "\<lambda>r. ru_id r = ru_id old" ?f] by simp
        then show ?thesis using r(2,3) by (intro exI [of _ "?f r"]) simp_all
      qed
      then show "\<exists>r. (r \<in> set (st_rules (st\<lparr>st_rules := ?rules\<rparr>)) \<or> P r) \<and> ru_id r = j \<and> vouched T r m" by simp
    qed
    then show ?thesis using \<open>ensure_cached_rule_is_current old st = None\<close> None tl
      by (simp add: set_rule_enabled_if_unchanged_def keptI)
  next
    case (Some path)
    obtain res E' where e: "edit_rule A path (SetEnabledEdit old b) E = (res, E')" by force
    have tl': "same_tools E' T" using edit_kept [OF nb e tl] .
    show ?thesis using None Some e tl' pin reload_and_publish_kept [OF tl' pin, of P H path]
      by (cases res) (simp_all add: set_rule_enabled_if_unchanged_def keptI)
  qed
qed (use pin tl in \<open>simp add: set_rule_enabled_if_unchanged_def keptI\<close>)

text \<open>The rule a module is registered as has a fresh id and the digest of its bytes.\<close>

definition registers :: "'m admin_env \<Rightarrow> 'm rules_env \<Rightarrow> string \<Rightarrow> Rule \<Rightarrow> bool" where
  "registers A T bs r \<longleftrightarrow> ru_id r = ad_new_id A \<and> (case ru_body r of Wasm w \<Rightarrow> wm_sha256 w = re_sha256_hex T bs | _ \<Rightarrow> False)"

lemma add_wasm_kept:
  assumes nb: "neighbours_keep A T" and pin: "modules_pinned T P st" and tl: "same_tools E T"
    and Q: "\<And>r. P r \<or> registers A T bs r \<Longrightarrow> Q r"
  shows "kept T P Q (add_wasm_rule A H name bs ws ss allow st E)"
proof -
  have "kept T P Q (case admit_rule A H rule st (disk_write dest bs n E) of
      (Inl err, st, E) \<Rightarrow> (Inl err, st, remove_stored_module A rule st E) | (Inr _, st, E) \<Rightarrow> (Inr rule, st, E))"
    if r: "registers A T bs rule" for rule dest n
  proof -
    have "kept T P (or_rule P rule) (admit_rule A H rule st (disk_write dest bs n E))"
      by (rule admit_kept [OF nb pin]) (simp add: tl)
    moreover have "modules_pinned T (or_rule P rule) s \<Longrightarrow> modules_pinned T Q s" for s
      by (erule pinned_mono) (use Q r in \<open>auto simp: or_rule_def\<close>)
    ultimately show ?thesis
      by (cases "admit_rule A H rule st (disk_write dest bs n E)") (auto simp: kept_def split: sum.split)
  qed
  moreover have "re_sha256_hex E = re_sha256_hex T" using tl by (simp add: same_tools_def)
  ultimately show ?thesis using pin tl
    by (simp add: add_wasm_rule_def Let_def keptI registers_def split: option.split sum.split)
qed

lemma reload_changed_pinned:
  assumes "modules_pinned T P st" "same_tools E T"
  shows "modules_pinned T P (reload_rules_if_changed H E st)"
proof -
  have "modules_pinned T P (take_rules L st)" if "load_at E path = Inr L" for path L
    by (rule loaded_pinned [OF that assms(2)]) (simp_all add: take_rules_def)
  moreover have "modules_pinned T P (stamp_rules E path st)" for path
    using assms(1) by (simp add: modules_pinned_def stamp_rules_def)
  ultimately show ?thesis using assms(1)
    by (auto simp: reload_rules_if_changed_def split: option.split sum.split)
qed

lemma start_pinned:
  assumes "same_tools E T"
  shows "modules_pinned T P (with_rules_path E now M path)"
proof (cases "load_at E path")
  case (Inr L)
  show ?thesis
    by (rule loaded_pinned [OF Inr assms])
      (simp_all add: with_rules_path_def with_rules_path_and_config_def Let_def take_rules_def Inr)
qed (simp add: modules_pinned_def with_rules_path_def with_rules_path_and_config_def stamp_rules_def new_state_def Let_def)

section \<open>Runs of the rule operations\<close>

datatype 'm rule_op =
    AddOp Rule | UpdateOp Rule Rule | DeleteOp Rule | EnableOp Rule bool
  | AddWasmOp string string "string list option" "string list" bool
  | ReloadOp | FilesBecome "'m rules_env"

fun apply_rule_op :: "'m admin_env \<times> host \<times> 'm rule_op \<Rightarrow> 'm State \<Rightarrow> 'm rules_env \<Rightarrow> ('m, unit) admin_result" where
  "apply_rule_op (A, H, AddOp r) st E = add_rule A H r st E"
| "apply_rule_op (A, H, UpdateOp old r) st E = update_rule_if_unchanged A H old r st E"
| "apply_rule_op (A, H, DeleteOp old) st E = delete_rule_if_unchanged A H old st E"
| "apply_rule_op (A, H, EnableOp old b) st E = set_rule_enabled_if_unchanged A H old b st E"
| "apply_rule_op (A, H, AddWasmOp n bs ws ss allow) st E =
     map_prod (map_sum id (\<lambda>_. ())) id (add_wasm_rule A H n bs ws ss allow st E)"
| "apply_rule_op (A, H, ReloadOp) st E = (Inr (), reload_rules_if_changed H E st, E)"
| "apply_rule_op (A, H, FilesBecome E') st E = (Inr (), st, E')"

text \<open>Operations one after the other, and those that wrote the file and could not read it back.\<close>

fun run_rule_ops :: "('m admin_env \<times> host \<times> 'm rule_op) list \<Rightarrow> 'm State \<Rightarrow> 'm rules_env
    \<Rightarrow> 'm State \<times> 'm rules_env \<times> ('m admin_env \<times> host \<times> 'm rule_op) list" where
  "run_rule_ops [] st E = (st, E, [])"
| "run_rule_ops (op # ops) st E =
     (let (r, st, E) = apply_rule_op op st E; (st, E, unread) = run_rule_ops ops st E
      in (st, E, case r of Inl (NotReloaded _) \<Rightarrow> op # unread | _ \<Rightarrow> unread))"

text \<open>The rules an operation may bring in.\<close>

fun proposed :: "'m rules_env \<Rightarrow> 'm admin_env \<times> host \<times> 'm rule_op \<Rightarrow> Rule \<Rightarrow> bool" where
  "proposed T (A, H, AddOp rule) r = (r = rule)"
| "proposed T (A, H, UpdateOp old rule) r = (r = rule)"
| "proposed T (A, H, AddWasmOp n bs ws ss allow) r = registers A T bs r"
| "proposed T (A, H, _) r = False"

fun op_honest :: "'m rules_env \<Rightarrow> 'm admin_env \<times> host \<times> 'm rule_op \<Rightarrow> bool" where
  "op_honest T (A, H, FilesBecome E') = (neighbours_keep A T \<and> same_tools E' T)"
| "op_honest T (A, H, op) = neighbours_keep A T"

lemma kept_mono: "kept T P Q res \<Longrightarrow> (\<And>r. Q r \<Longrightarrow> R r) \<Longrightarrow> kept T P R res"
  using pinned_mono [of T Q _ R] unfolding kept_def by fastforce

lemma op_kept:
  assumes "op_honest T op" "modules_pinned T P st" "same_tools E T"
  shows "kept T P (\<lambda>r. P r \<or> proposed T op r) (apply_rule_op op st E)"
proof -
  obtain A H x where op: "op = (A, H, x)" by (cases op) auto
  have nb: "neighbours_keep A T" using assms(1) by (cases x) (simp_all add: op)
  note K = nb assms(2,3)
  show ?thesis
  proof (cases x)
    case (AddOp rule)
    show ?thesis using kept_mono [OF add_kept [OF K, where H = H and rule = rule]] by (simp add: op AddOp or_rule_def)
  next
    case (UpdateOp old rule)
    show ?thesis using kept_mono [OF update_kept [OF K, where H = H and old = old and rule = rule]] by (simp add: op UpdateOp or_rule_def)
  next
    case (AddWasmOp n bs ws ss allow)
    have "kept T P (\<lambda>r. P r \<or> registers A T bs r) (add_wasm_rule A H n bs ws ss allow st E)"
      by (rule add_wasm_kept [OF K])
    then show ?thesis
      by (cases "add_wasm_rule A H n bs ws ss allow st E") (auto simp: op AddWasmOp kept_def)
  qed (use K assms in \<open>simp_all add: op delete_kept enable_kept keptI reload_changed_pinned\<close>)
qed

lemma run_rule_ops_pinned:
  assumes "list_all (op_honest T) ops" "modules_pinned T P st" "same_tools E T"
    and "run_rule_ops ops st E = (st', E', unread)"
  shows "modules_pinned T (\<lambda>r. P r \<or> (\<exists>op \<in> set unread. proposed T op r)) st'"
  using assms
proof (induction ops arbitrary: P st E unread)
  case (Cons op ops)
  obtain r st1 E1 where a: "apply_rule_op op st E = (r, st1, E1)" by (cases "apply_rule_op op st E") auto
  obtain more where m: "run_rule_ops ops st1 E1 = (st', E', more)"
    and u: "unread = (case r of Inl (NotReloaded _) \<Rightarrow> op # more | _ \<Rightarrow> more)"
    using Cons.prems(4) a by (auto simp: Let_def split: prod.splits)
  have k: "kept T P (\<lambda>r. P r \<or> proposed T op r) (r, st1, E1)" using op_kept [of T op P st E] Cons.prems a by simp
  show ?case
  proof (cases "\<exists>e. r = Inl (NotReloaded e)")
    case True
    have "modules_pinned T (\<lambda>r. P r \<or> proposed T op r) st1"
      using k pinned_mono [of T P st1 "\<lambda>r. P r \<or> proposed T op r"] by (auto simp: kept_def)
    from Cons.IH [OF _ this _ m] have "modules_pinned T (\<lambda>r. (P r \<or> proposed T op r) \<or> (\<exists>op \<in> set more. proposed T op r)) st'"
      using Cons.prems(1) k by (simp add: kept_def)
    then show ?thesis by (rule pinned_mono) (use True u in auto)
  next
    case False
    then have "modules_pinned T P st1" "unread = more"
      using k u by (auto simp: kept_def split: sum.splits admin_error.splits)
    then show ?thesis using Cons.IH [OF _ _ _ m, of P] Cons.prems(1) k by (simp add: kept_def)
  qed
qed (rule pinned_mono, auto)

section \<open>Properties\<close>

lemma loaded_mtime:
  "load_at E path = Inr L \<Longrightarrow> lr_mtime L = file_mtime E path"
  by (auto simp: load_at_def load_rules_def file_mtime_def Let_def split: stat_result.splits sum.splits prod.splits)

text \<open>
  C10. Whatever sequence of rule mutations, reloads and writes of other processes the daemon goes
  through, every compiled module it can consult for a rule is what bytes with the digest pinned by
  a rule of that id compile to, with the subjects that rule recorded; and that rule is in the list,
  or it is the one brought in by an edit that reached the file and could not be read back.
  Mutations that fail in any other way leave no module behind.
\<close>

theorem every_consulted_module_is_pinned:
  assumes "list_all (op_honest T) ops" "same_tools E T"
    and "run_rule_ops ops (with_rules_path E now M path) E = (st, E', unread)"
    and "hm_get (st_rule_modules st) i = Some m"
  shows "\<exists>r. ru_id r = i \<and> vouched T r m \<and> (r \<in> set (st_rules st) \<or> (\<exists>op \<in> set unread. proposed T op r))"
proof -
  have "modules_pinned T (\<lambda>r. False) (with_rules_path E now M path)" by (rule start_pinned [OF assms(2)])
  from pinnedD [OF run_rule_ops_pinned [OF assms(1) this assms(2,3)] assms(4)] show ?thesis by blast
qed

text \<open>
  An edit takes the rules of the file over but not their scope refusals: a rule another
  process wrote since the last load becomes active without the refusal a load would give it, and
  no later check of the files makes up for it.
\<close>

theorem edits_keep_old_scope_refusals:
  assumes "set_rule_enabled_if_unchanged A H old b st E = (Inr (), st', E')" "st_rules_path st = Some path"
    and "load_at E' path = Inr L"
    and "file_mtime E' (wrap_scope_config_path (path_parent path)) = st_scope_config_loaded_at st"
  shows "st_rules st' = lr_rules L \<and> st_rule_modules st' = lr_modules L
    \<and> st_scope_refusals st' = st_scope_refusals st \<and> reload_rules_if_changed H' E' st' = st'"
proof -
  obtain u where "edit_rule A path (SetEnabledEdit old b) E = (Inr u, E')"
    and p: "reload_and_publish H path st E' = (Inr (), st', E')"
    using assms(1,2) by (auto simp: set_rule_enabled_if_unchanged_def reload_and_publish_def
        split: option.splits prod.splits sum.splits)
  have st': "st' = broadcast_consent_update H (st\<lparr>st_rules := lr_rules L, st_rule_modules := lr_modules L,
      st_wasm_refusals := rf_wasm (lr_refusals L), st_rules_loaded_at := lr_mtime L\<rparr>)"
    using p by (simp add: reload_and_publish_def reload_rules_after_edit_def assms(3))
  then show ?thesis using assms(2,4) loaded_mtime [OF assms(3)] by (simp add: reload_rules_if_changed_def)
qed

text \<open>
  C12. An automatic approval of an ask: no rule of the list denies it or asks for a human, and
  every variable it names (the key of a signature, the wrap itself when it names none) is vouched
  for by a rule; asks of scoped agents are never approved by a rule.
\<close>

theorem automatic_approvals_are_vouched:
  assumes "evaluate_rules_for_ask E ask st = Some h" "rh_decide h = ApproveRule"
  shows "(\<forall>a. ask_subject ask \<noteq> ScopedAgent a)
    \<and> (\<forall>r \<in> set (st_rules st). \<not> denies (re_glob E) (re_wasm E) (st_rule_modules st) (refusals_snapshot st) (eval_ctx ask) r
        \<and> \<not> asks_for_human (re_glob E) (re_wasm E) (st_rule_modules st) (refusals_snapshot st) (eval_ctx ask) r)
    \<and> (\<forall>s \<in> set (evaluation_subjects (dk_wrap (ask_dedupe_key ask)) (map sk_name (secrets ask))). \<exists>r \<in> set (st_rules st).
        blesses (re_glob E) (re_wasm E) (st_rule_modules st) (refusals_snapshot st) (eval_ctx ask) s r)"
proof -
  let ?ev = "evaluate_with_refusals (re_glob E) (re_wasm E) (st_rules st) (st_rule_modules st) (refusals_snapshot st) (eval_ctx ask)"
  have "ev_hit ?ev = Some h" "\<forall>a. ask_subject ask \<noteq> ScopedAgent a"
    using assms(1) by (auto simp: evaluate_rules_for_ask_def split: AskSubject.splits if_splits)
  then show ?thesis using hit_approves_iff [of "re_glob E" "re_wasm E" "st_rules st" "st_rule_modules st" "refusals_snapshot st" "eval_ctx ask"]
      assms(2) by (auto simp: eval_ctx_def)
qed

section \<open>Witnesses\<close>

definition admin_sample :: "unit admin_env" where
  "admin_sample = \<lparr>ad_between = id, ad_dir_ok = True, ad_write_ok = True, ad_remove_ok = True,
     ad_render = (\<lambda>_ _. Some ''three''), ad_stamp = 9, ad_new_id = ''w1'', ad_now = 0, ad_root = Some ''/d''\<rparr>"

definition admin_host :: host where
  "admin_host = \<lparr>ho_now = 0, ho_unix_secs = 1000, ho_unix_millis = 0, ho_random = [], ho_sha256_hex = id,
     ho_accepts = (\<lambda>_ _. False), ho_try_wait = (\<lambda>_. StillRunning), ho_append = (\<lambda>_. True),
     ho_outside = sample_outside\<rparr>"

lemma parent_sample: "path_parent ''/d/rules.toml'' = ''/d''"
  by (simp add: path_parent_def Let_def)

text \<open>The daemon starts without a file; another process writes one with a module; the daemon reloads.\<close>

definition no_files :: "unit rules_env" where
  "no_files = sample_env\<lparr>re_stat := (\<lambda>_. NotFoundOnDisk)\<rparr>"

lemma sample_loads:
  "\<exists>L. load_at sample_env ''/d/rules.toml'' = Inr L \<and> hm_get (lr_modules L) ''w'' = Some () \<and> lr_rules L = [wasm_sample]"
  by (simp add: load_at_def parent_sample load_rules_def sample_env_def wire_of_rule_def rule_of_wire_def wire_body_def
      wasm_sample_def load_rule_module_def eq_ignore_ascii_case_def to_lower_def wrap_scope_refusals_for_path_def
      load_wrap_scope_config_def Let_def)

theorem every_consulted_module_is_pinned_witness:
  "\<exists>st E'. run_rule_ops [(admin_sample, admin_host, FilesBecome sample_env), (admin_sample, admin_host, ReloadOp)]
      (with_rules_path no_files 0 cold_memory ''/d/rules.toml'') no_files = (st, E', [])
    \<and> hm_get (st_rule_modules st) ''w'' = Some () \<and> vouched sample_env wasm_sample ()"
proof -
  let ?ops = "[(admin_sample, admin_host, FilesBecome sample_env), (admin_sample, admin_host, ReloadOp)]"
  let ?st = "with_rules_path no_files 0 cold_memory ''/d/rules.toml''"
  obtain L where L: "load_at sample_env ''/d/rules.toml'' = Inr L" "hm_get (lr_modules L) ''w'' = Some ()" "lr_rules L = [wasm_sample]"
    using sample_loads by blast
  have start: "st_rules_path ?st = Some ''/d/rules.toml''" "st_rules_loaded_at ?st = None"
    by (simp_all add: with_rules_path_def with_rules_path_and_config_def load_at_def load_rules_def no_files_def
        take_rules_def Let_def file_mtime_def)
  have "file_mtime sample_env ''/d/rules.toml'' = Some 1" by (simp add: file_mtime_def sample_env_def)
  then have r: "reload_rules_if_changed admin_host sample_env ?st = broadcast_consent_update admin_host (take_rules L ?st)"
    using start L(1) by (simp add: reload_rules_if_changed_def)
  have run: "run_rule_ops ?ops ?st no_files = (broadcast_consent_update admin_host (take_rules L ?st), sample_env, [])"
    by (simp add: r)
  have mods: "hm_get (st_rule_modules (broadcast_consent_update admin_host (take_rules L ?st))) ''w'' = Some ()"
    by (simp add: take_rules_def L(2))
  have honest: "list_all (op_honest sample_env) ?ops" by (simp add: neighbours_keep_def admin_sample_def)
  have tools: "same_tools no_files sample_env" by (simp add: no_files_def same_tools_def)
  from every_consulted_module_is_pinned [OF honest tools run mods] have "vouched sample_env wasm_sample ()"
    by (simp add: take_rules_def L(3))
  then show ?thesis using run mods by blast
qed

text \<open>
  Another process added a deny rule whose scope names no wrap; the user enables an approval. The
  daemon then approves the ask, where a fresh load of the same file asks for a human.
\<close>

definition deny_elsewhere :: Rule where
  "deny_elsewhere = (sample_rule ''deny'' (StaticDeny None))\<lparr>ru_wraps := Some [''nope'']\<rparr>"

definition paused :: Rule where
  "paused = (sample_rule ''ok'' StaticApprove)\<lparr>ru_enabled := False\<rparr>"

definition shared_files :: "unit rules_env" where
  "shared_files = \<lparr>re_glob = sample_glob, re_wasm = sample_host, re_sha256_hex = id, re_stat = (\<lambda>_. Stat (Some 1)),
     re_read = (\<lambda>_. Inr ''two''), re_is_file = (\<lambda>_. False),
     re_rules_toml = (\<lambda>t. Inr (map wire_of_rule (if t = ''three'' then [paused\<lparr>ru_enabled := True\<rparr>, deny_elsewhere]
       else [paused, deny_elsewhere]))), re_config_toml = (\<lambda>_. None)\<rparr>"

definition before_edit :: "unit State" where
  "before_edit = (new_state 0 cold_memory)\<lparr>st_rules := [paused], st_rules_path := Some ''/d/rules.toml'',
     st_scope_config_loaded_at := Some 1\<rparr>"

lemmas shared_defs = shared_files_def paused_def deny_elsewhere_def sample_rule_def
lemmas wire_defs = wire_of_rule_def rule_of_wire_def wire_body_def

lemma config_sample: "wrap_scope_config_path ''/d'' = ''/d/config.toml''"
  by (simp add: wrap_scope_config_path_def path_join_def starts_with_def ends_with_def strip_suffix_def)

lemma shared_wires:
  "rule_of_wire (wire_of_rule paused) = Inr paused" "rule_of_wire (wire_of_rule deny_elsewhere) = Inr deny_elsewhere"
  "rule_of_wire (wire_of_rule (paused\<lparr>ru_enabled := True\<rparr>)) = Inr (paused\<lparr>ru_enabled := True\<rparr>)"
  "rw_deny_message (wire_of_rule paused) = None" "rw_deny_message (wire_of_rule deny_elsewhere) = None"
  "rw_deny_message (wire_of_rule (paused\<lparr>ru_enabled := True\<rparr>)) = None"
  by (simp_all add: paused_def deny_elsewhere_def sample_rule_def wire_defs)

lemma shared_reads:
  "read_existing shared_files ''/d/rules.toml'' = Inr (Some ''two'')"
  "parse_rules shared_files ''two'' = Some [paused, deny_elsewhere]"
  "re_rules_toml shared_files ''three'' = Inr (map wire_of_rule [paused\<lparr>ru_enabled := True\<rparr>, deny_elsewhere])"
  by (simp_all add: read_existing_def parse_rules_def shared_files_def shared_wires)

lemma shared_apply: "apply_rule_edit [paused, deny_elsewhere] (SetEnabledEdit paused True)
    = Inr [paused\<lparr>ru_enabled := True\<rparr>, deny_elsewhere]"
  by (simp add: apply_rule_edit_def ensure_rule_is_current_def rule_eq_def match_eq_def pattern_eq_def
      paused_def deny_elsewhere_def sample_rule_def)

lemma shared_edit:
  "edit_rule admin_sample ''/d/rules.toml'' (SetEnabledEdit paused True) shared_files
   = (Inr (), disk_write ''/d/rules.toml'' ''three'' 9 shared_files)"
proof -
  have A: "ad_dir_ok admin_sample" "ad_write_ok admin_sample" "ad_between admin_sample shared_files = shared_files"
    "ad_stamp admin_sample = 9" "\<And>t e. ad_render admin_sample t e = Some ''three''" by (simp_all add: admin_sample_def)
  show ?thesis by (simp add: edit_rule_def shared_reads shared_apply A)
qed

lemma shared_load:
  "\<exists>L. load_at (disk_write ''/d/rules.toml'' ''three'' 9 shared_files) ''/d/rules.toml'' = Inr L
     \<and> lr_rules L = [paused\<lparr>ru_enabled := True\<rparr>, deny_elsewhere] \<and> lr_modules L = []
     \<and> map sf_rule_id (rf_scopes (lr_refusals L)) = [''deny'']"
proof -
  let ?E = "disk_write ''/d/rules.toml'' ''three'' 9 shared_files"
  define rs where "rs = [paused\<lparr>ru_enabled := True\<rparr>, deny_elsewhere]"
  define ws where "ws = map wire_of_rule rs"
  have disk: "re_stat ?E ''/d/rules.toml'' = Stat (Some 9)" "re_read ?E ''/d/rules.toml'' = Inr ''three''"
    "re_rules_toml ?E ''three'' = Inr ws" "\<not> re_is_file ?E ''/d/config.toml''"
    by (simp_all add: disk_write_def shared_reads ws_def rs_def) (simp add: shared_files_def)
  have conv: "convert_rules ws = Inr (rs, [])" by (simp add: ws_def rs_def shared_wires)
  have decl: "load_rule_module ?E d r = Inr None" if "r \<in> set rs" for d r
    using that by (auto simp: rs_def load_rule_module_def paused_def deny_elsewhere_def sample_rule_def)
  have mods: "load_modules ?E ''/d'' rs ([], []) = ([], [])" using decl by (simp add: rs_def)
  have scopes: "map sf_rule_id (wrap_scope_refusals rs empty_config) = [''deny'']"
    by (simp add: rs_def wrap_scope_refusals_def map_filter_simps wrap_scope_refusal_def paused_def deny_elsewhere_def
        sample_rule_def is_known_wrap_scope_def empty_config_def Let_def)
  have refs: "wrap_scope_refusals_for_path ?E rs ''/d'' = (wrap_scope_refusals rs empty_config, file_mtime ?E ''/d/config.toml'')"
    by (simp add: wrap_scope_refusals_for_path_def load_wrap_scope_config_def config_sample Let_def disk(4))
  have "\<exists>L. load_at ?E ''/d/rules.toml'' = Inr L \<and> lr_rules L = rs \<and> lr_modules L = []
     \<and> map sf_rule_id (rf_scopes (lr_refusals L)) = [''deny'']"
    by (simp add: load_at_def parent_sample load_rules_def disk conv mods refs scopes)
  then show ?thesis by (simp add: rs_def)
qed

lemma shared_approves:
  assumes "st_rules st = [paused\<lparr>ru_enabled := True\<rparr>, deny_elsewhere]" "st_rule_modules st = []" "st_scope_refusals st = []"
  shows "map_option rh_decide (evaluate_rules_for_ask shared_files (sample_ask [sample_secret ''TOK'' ''a'']) st) = Some ApproveRule"
proof -
  have ctx: "eval_ctx (sample_ask [sample_secret ''TOK'' ''a'']) = \<lparr>cx_wrap = ''gh'', cx_joined_argv = ''gh'', cx_callers = [],
      cx_cwd = ''/'', cx_secrets = [''TOK'']\<rparr>"
    by (simp add: eval_ctx_def) (simp add: sample_ask_def sample_secret_def joined_argv_def callers_def cwd_def evaluation_subjects_def)
  have "ask_subject (sample_ask ss) \<noteq> ScopedAgent a" for ss a by (simp add: sample_ask_def)
  then have "evaluate_rules_for_ask shared_files (sample_ask [sample_secret ''TOK'' ''a'']) st
    = ev_hit (evaluate_with_refusals (re_glob shared_files) (re_wasm shared_files) (st_rules st) [] (refusals_snapshot st)
        (eval_ctx (sample_ask [sample_secret ''TOK'' ''a''])))"
    using assms(1,2) by (simp add: evaluate_rules_for_ask_def split: AskSubject.split)
  then show ?thesis unfolding ctx refusals_snapshot_def assms
    by (simp add: evaluate_defs paused_def deny_elsewhere_def sample_rule_def)
qed

theorem edits_keep_old_scope_refusals_witness:
  "\<exists>st' E'. set_rule_enabled_if_unchanged admin_sample admin_host paused True before_edit shared_files = (Inr (), st', E')
     \<and> st_scope_refusals st' = []
     \<and> map_option rh_decide (evaluate_rules_for_ask shared_files (sample_ask [sample_secret ''TOK'' ''a'']) st') = Some ApproveRule
     \<and> (\<exists>L. load_at E' ''/d/rules.toml'' = Inr L \<and> map sf_rule_id (rf_scopes (lr_refusals L)) = [''deny''])"
proof -
  let ?E = "disk_write ''/d/rules.toml'' ''three'' 9 shared_files"
  obtain L where L: "load_at ?E ''/d/rules.toml'' = Inr L" "lr_rules L = [paused\<lparr>ru_enabled := True\<rparr>, deny_elsewhere]"
    "lr_modules L = []" "map sf_rule_id (rf_scopes (lr_refusals L)) = [''deny'']" using shared_load by (elim exE conjE)
  have cur: "ensure_cached_rule_is_current paused before_edit = None"
    by (simp add: ensure_cached_rule_is_current_def before_edit_def rule_eq_def match_eq_def pattern_eq_def paused_def sample_rule_def)
  have path: "st_rules_path before_edit = Some ''/d/rules.toml''" by (simp add: before_edit_def)
  have go: "edit_rule admin_sample ''/d/rules.toml'' (SetEnabledEdit paused True) shared_files = (Inr (), ?E)" by (rule shared_edit)
  have "\<exists>st'. reload_and_publish admin_host ''/d/rules.toml'' before_edit ?E = (Inr (), st', ?E)"
    by (simp add: reload_and_publish_def reload_rules_after_edit_def L(1))
  then obtain st' where p: "reload_and_publish admin_host ''/d/rules.toml'' before_edit ?E = (Inr (), st', ?E)" by blast
  have s: "set_rule_enabled_if_unchanged admin_sample admin_host paused True before_edit shared_files = (Inr (), st', ?E)"
    unfolding set_rule_enabled_if_unchanged_def cur path option.case go prod.case sum.case by (rule p)
  have "file_mtime ?E (wrap_scope_config_path (path_parent ''/d/rules.toml'')) = st_scope_config_loaded_at before_edit"
    by (simp add: file_mtime_def disk_write_def shared_files_def wrap_scope_config_path_def parent_sample path_join_def before_edit_def)
  from edits_keep_old_scope_refusals [OF s path L(1) this]
  have st': "st_rules st' = lr_rules L" "st_rule_modules st' = lr_modules L" "st_scope_refusals st' = []"
    by (simp_all add: before_edit_def new_state_def)
  have "map_option rh_decide (evaluate_rules_for_ask shared_files (sample_ask [sample_secret ''TOK'' ''a'']) st') = Some ApproveRule"
    using shared_approves [of st'] st' L(2,3) by simp
  then show ?thesis using s st'(3) L(1,4) by (intro exI [of _ st'] exI [of _ ?E] exI [of _ L] conjI)
qed

theorem automatic_approvals_are_vouched_witness:
  "\<exists>h. evaluate_rules_for_ask shared_files (sample_ask [sample_secret ''TOK'' ''a''])
       (before_edit\<lparr>st_rules := [paused\<lparr>ru_enabled := True\<rparr>, deny_elsewhere]\<rparr>) = Some h \<and> rh_decide h = ApproveRule
     \<and> (\<exists>r \<in> set [paused\<lparr>ru_enabled := True\<rparr>, deny_elsewhere]. blesses sample_glob sample_host []
          (refusals_snapshot (before_edit\<lparr>st_rules := [paused\<lparr>ru_enabled := True\<rparr>, deny_elsewhere]\<rparr>))
          (eval_ctx (sample_ask [sample_secret ''TOK'' ''a''])) ''TOK'' r)"
proof -
  let ?st = "before_edit\<lparr>st_rules := [paused\<lparr>ru_enabled := True\<rparr>, deny_elsewhere]\<rparr>"
  let ?ask = "sample_ask [sample_secret ''TOK'' ''a'']"
  have "map_option rh_decide (evaluate_rules_for_ask shared_files ?ask ?st) = Some ApproveRule"
    by (rule shared_approves) (simp_all add: before_edit_def new_state_def)
  then obtain h where h: "evaluate_rules_for_ask shared_files ?ask ?st = Some h" "rh_decide h = ApproveRule" by auto
  have "''TOK'' \<in> set (evaluation_subjects (dk_wrap (ask_dedupe_key ?ask)) (map sk_name (secrets ?ask)))"
    by (simp add: evaluation_subjects_def sample_secret_def)
  moreover have "st_rules ?st = [paused\<lparr>ru_enabled := True\<rparr>, deny_elsewhere]" "st_rule_modules ?st = []"
    "re_glob shared_files = sample_glob" "re_wasm shared_files = sample_host"
    by (simp_all add: before_edit_def new_state_def shared_files_def)
  ultimately show ?thesis using automatic_approvals_are_vouched [OF h] h by metis
qed

end
