(* ===== verification/Link_Decisions.thy ===== *)
theory Link_Decisions
  imports Queue_Properties
begin

text \<open>
  The listener for linked devices over the daemon's state (\<open>src/packages/secreq/src/link/lan.rs\<close>
  and \<open>link/control.rs\<close>): a signed decision from a phone, the stream of snapshots, and the
  control object that owns the listener. HTTP framing and JSON are outside: a request is its body,
  a response its status. Other threads may run between two locks of the state; what they do is the
  argument \<open>others\<close>.
\<close>

section \<open>Decisions\<close>

definition MAX_DECISION_BODY_BYTES :: nat where
  "MAX_DECISION_BODY_BYTES = 16 * 1024"

definition handle_decision ::
  "link_crates \<Rightarrow> (string \<Rightarrow> SignedDecision option) \<Rightarrow> registry_file \<Rightarrow> host \<Rightarrow> ('m State \<Rightarrow> 'm State)
     \<Rightarrow> string \<Rightarrow> 'm State \<Rightarrow> nat \<times> 'm State" where
  "handle_decision L json registry H others body st =
     (let body = take (MAX_DECISION_BODY_BYTES + 1) body in
      if length body > MAX_DECISION_BODY_BYTES then (413, st)
      else case json body of
        None \<Rightarrow> (400, st)
      | Some payload \<Rightarrow> (case load L registry of
          Inl e \<Rightarrow> (503, st)
        | Inr enrolled \<Rightarrow> (case find (\<lambda>d. verify L d payload = Some True) enrolled of
            None \<Rightarrow> (403, st)
          | Some device \<Rightarrow>
              if \<not> link_request_matches H (sn_request_id payload) (sn_ask_hash_hex payload) st then (409, st)
              else (let (fresh, nonces) = accept (sn_request_id payload) (sn_nonce payload) (st_link_nonces st);
                        st = st\<lparr>st_link_nonces := nonces\<rparr>
                    in if \<not> fresh then (409, st)
                       else (let (resolved, st) = resolve_remote H (sn_request_id payload) (sn_ask_hash_hex payload)
                                   (sn_decision payload) (dv_nickname device) (others st);
                                 st = st\<lparr>st_link_nonces := retire (sn_request_id payload) (st_link_nonces st)\<rparr>
                             in (case resolved of Inr _ \<Rightarrow> 204 | Inl _ \<Rightarrow> 409, st))))))"

section \<open>Snapshots\<close>

definition MAX_LINK_SUBSCRIBERS :: nat where
  "MAX_LINK_SUBSCRIBERS = 8"

definition link_subscriber_count :: "'m State \<Rightarrow> nat" where
  "link_subscriber_count st = length (lg_subscribers (st_link st))"

text \<open>The stream's start: refused, or the subscriber's id and the first snapshot sent to it.\<close>

definition handle_events :: "host \<Rightarrow> nat \<Rightarrow> 'm State \<Rightarrow> (nat + nat \<times> LinkSnapshot) \<times> 'm State" where
  "handle_events H tx st = (if link_subscriber_count st \<ge> MAX_LINK_SUBSCRIBERS then (Inl 503, st)
     else (let (r, st) = attach_link_events H tx st in (Inr r, st)))"

section \<open>The control object\<close>

definition LINK_PORT :: nat where
  "LINK_PORT = 46371"

record link_control =
  lc_pairing :: Pairing
  lc_listener :: "(IpAddr \<times> nat) option"

definition new_link_control :: "registry_file \<Rightarrow> link_control" where
  "new_link_control registry = \<lparr>lc_pairing = \<lparr>pa_registry = registry, pa_window = None\<rparr>, lc_listener = None\<rparr>"

text \<open>What the operating system says: the source address of the default route, whether the socket
  can be bound; and random bytes for the token, with the text of an address.\<close>

record link_world =
  lw_route :: "IpAddr option"
  lw_bound :: bool
  lw_token :: string
  lw_show :: "IpAddr \<times> nat \<Rightarrow> string"

datatype control_error = NoRoute | NotPrivate | ListenerNotStarted | PairingFailed PairError

fun ip_is_loopback :: "IpAddr \<Rightarrow> bool" where
  "ip_is_loopback (V4 ip) = v4_loopback ip"
| "ip_is_loopback (V6 ip) = (ip = 1)"

definition default_lan_ip :: "link_world \<Rightarrow> control_error + IpAddr" where
  "default_lan_ip W = (case lw_route W of
      None \<Rightarrow> Inl NoRoute
    | Some ip \<Rightarrow> if \<not> ip_is_loopback ip \<and> is_lan ip then Inr ip else Inl NotPrivate)"

definition ensure_listener :: "link_world \<Rightarrow> link_control \<Rightarrow> (control_error + IpAddr \<times> nat) \<times> link_control" where
  "ensure_listener W c = (case lc_listener c of
      Some address \<Rightarrow> (Inr address, c)
    | None \<Rightarrow> (case default_lan_ip W of
          Inl e \<Rightarrow> (Inl e, c)
        | Inr ip \<Rightarrow> if \<not> lw_bound W then (Inl ListenerNotStarted, c)
            else (Inr (ip, LINK_PORT), c\<lparr>lc_listener := Some (ip, LINK_PORT)\<rparr>)))"

definition start_if_enrolled :: "link_crates \<Rightarrow> link_world \<Rightarrow> link_control \<Rightarrow> (control_error + unit) \<times> link_control" where
  "start_if_enrolled L W c = (case devices L (lc_pairing c) of
      Inl e \<Rightarrow> (Inl (PairingFailed e), c)
    | Inr ds \<Rightarrow> if ds = [] then (Inr (), c)
        else (let (r, c) = ensure_listener W c in (map_sum id (\<lambda>_. ()) r, c)))"

definition open_pairing :: "link_world \<Rightarrow> nat \<Rightarrow> link_control \<Rightarrow> (control_error + string) \<times> link_control" where
  "open_pairing W now c = (case ensure_listener W c of
      (Inl e, c) \<Rightarrow> (Inl e, c)
    | (Inr address, c) \<Rightarrow> (Inr (''http://'' @ lw_show W address @ ''/pair#'' @ lw_token W),
        c\<lparr>lc_pairing := open_at (lw_token W) now (lc_pairing c)\<rparr>))"

definition remove_link_device ::
  "link_crates \<Rightarrow> bool \<Rightarrow> host \<Rightarrow> string \<Rightarrow> link_control \<Rightarrow> 'm State
     \<Rightarrow> (PairError + Device option) \<times> link_control \<times> 'm State" where
  "remove_link_device L ok H nickname c st = (case remove_device L ok nickname (lc_pairing c) of
      (Inl e, p) \<Rightarrow> (Inl e, c\<lparr>lc_pairing := p\<rparr>, st)
    | (Inr None, p) \<Rightarrow> (Inr None, c\<lparr>lc_pairing := p\<rparr>, st)
    | (Inr (Some (removed, remaining)), p) \<Rightarrow>
        if remaining = 0
        then (Inr (Some removed), c\<lparr>lc_pairing := p, lc_listener := None\<rparr>, close_link_events H st)
        else (Inr (Some removed), c\<lparr>lc_pairing := p\<rparr>, st))"

section \<open>Properties\<close>

text \<open>
  C11. The listener answers 204 only to a decision signed by an enrolled device over the request
  id, the hash of the ask on the queue, an approval or a denial and a nonce not used before; it
  settles exactly that entry, and neither remembers an approval nor grants a key.
\<close>

theorem accepted_decisions_are_signed:
  assumes "handle_decision L json registry H others body st = (204, st')"
  shows "\<exists>p ds dev key e d st1. json (take (MAX_DECISION_BODY_BYTES + 1) body) = Some p
    \<and> load L registry = Inr ds \<and> dev \<in> set ds \<and> verify L dev p = Some True
    \<and> (case hm_get (st_link_nonces st) (sn_request_id p) of None \<Rightarrow> True | Some used \<Rightarrow> sn_nonce p \<notin> set used)
    \<and> st1 = others (st\<lparr>st_link_nonces := snd (accept (sn_request_id p) (sn_nonce p) (st_link_nonces st))\<rparr>)
    \<and> (key, e) \<in> set (st_queue st1) \<and> qe_request_id e = sn_request_id p
    \<and> ask_hash H (qe_representative e) = sn_ask_hash_hex p
    \<and> (d = Approve \<and> sn_decision p = ''approve'' \<or> d = Deny \<and> sn_decision p = ''deny'')
    \<and> core (st'\<lparr>st_link_nonces := []\<rparr>) = core ((resolve_with_device H key d None None (Some (dv_nickname dev)) st1)\<lparr>st_link_nonces := []\<rparr>)
    \<and> st_approvals st' = st_approvals st1 \<and> st_ssh_grants st' = st_ssh_grants st1"
proof -
  obtain p ds dev where p: "json (take (MAX_DECISION_BODY_BYTES + 1) body) = Some p" "load L registry = Inr ds"
    and dev: "find (\<lambda>d. verify L d p = Some True) ds = Some dev"
    using assms by (auto simp: handle_decision_def Let_def split: if_splits option.splits sum.splits)
  define s0 where "s0 = st\<lparr>st_link_nonces := snd (accept (sn_request_id p) (sn_nonce p) (st_link_nonces st))\<rparr>"
  have run: "(let (resolved, s) = resolve_remote H (sn_request_id p) (sn_ask_hash_hex p) (sn_decision p) (dv_nickname dev) (others s0)
      in (case resolved of Inr _ \<Rightarrow> 204 | Inl _ \<Rightarrow> 409, s\<lparr>st_link_nonces := retire (sn_request_id p) (st_link_nonces s)\<rparr>)) = (204 :: nat, st')"
    and fresh: "fst (accept (sn_request_id p) (sn_nonce p) (st_link_nonces st))"
    using assms p dev by (auto simp: handle_decision_def Let_def s0_def split: if_splits option.splits sum.splits prod.splits)
  show ?thesis
  proof (cases rule: remote_cases [of H "sn_request_id p" "sn_ask_hash_hex p" "sn_decision p" "dv_nickname dev" "others s0"])
    case (1 err)
    then show ?thesis using run by simp
  next
    case (2 key e d)
    let ?r = "resolve_with_device H key d None None (Some (dv_nickname dev)) (others s0)"
    have st': "st' = ?r\<lparr>st_link_nonces := retire (sn_request_id p) (st_link_nonces ?r)\<rparr>" using run 2(5) by simp
    have "dev \<in> set ds \<and> verify L dev p = Some True" using dev by (auto simp: find_Some_iff)
    moreover have "case hm_get (st_link_nonces st) (sn_request_id p) of None \<Rightarrow> True | Some used \<Rightarrow> sn_nonce p \<notin> set used"
      using fresh by (auto simp: accept_def Let_def split: option.splits if_splits)
    moreover have "st_approvals ?r = st_approvals (others s0)" "st_ssh_grants ?r = st_ssh_grants (others s0)"
    proof -
      obtain e' where g: "hm_get (st_queue (others s0)) key = Some e'" using weak_map_of_SomeI [OF 2(1)] by blast
      have "d \<noteq> ApproveRemember" using 2(4) by auto
      then show "st_approvals ?r = st_approvals (others s0)" "st_ssh_grants ?r = st_ssh_grants (others s0)"
        using arg_cong [OF core_resolve_some [OF g, of H d None None "Some (dv_nickname dev)"], of st_approvals]
          arg_cong [OF core_resolve_some [OF g, of H d None None "Some (dv_nickname dev)"], of st_ssh_grants]
        by (simp_all add: remember_approval_def)
    qed
    ultimately show ?thesis using p 2(1-4) st' s0_def by (intro exI conjI) (auto simp: core_simps)
  qed
qed

text \<open>
  Any other answer decides nothing: the queue, the threads that resolve and the messages sent
  are as they were when the decision was looked up.
\<close>

theorem refused_decisions_change_nothing:
  assumes "handle_decision L json registry H others body st = (code, st')" "code \<noteq> 204"
  shows "\<exists>st1 nonces. (st1 = st \<or> st1 = others (st\<lparr>st_link_nonces := nonces\<rparr>))
    \<and> st_queue st' = st_queue st1 \<and> st_jobs st' = st_jobs st1 \<and> st_out st' = st_out st1
    \<and> st_approvals st' = st_approvals st1"
proof (cases "\<exists>p dev ds. json (take (MAX_DECISION_BODY_BYTES + 1) body) = Some p \<and> load L registry = Inr ds
    \<and> find (\<lambda>d. verify L d p = Some True) ds = Some dev")
  case False
  then have "st' = st" using assms
    by (auto simp: handle_decision_def Let_def split: if_splits option.splits sum.splits)
  then show ?thesis by blast
next
  case True
  then obtain p dev ds where p: "json (take (MAX_DECISION_BODY_BYTES + 1) body) = Some p" "load L registry = Inr ds"
    "find (\<lambda>d. verify L d p = Some True) ds = Some dev" by blast
  define b where "b = take (MAX_DECISION_BODY_BYTES + 1) body"
  define nonces where "nonces = snd (accept (sn_request_id p) (sn_nonce p) (st_link_nonces st))"
  let ?s0 = "st\<lparr>st_link_nonces := nonces\<rparr>"
  obtain r s where rs: "resolve_remote H (sn_request_id p) (sn_ask_hash_hex p) (sn_decision p) (dv_nickname dev) (others ?s0) = (r, s)"
    by fastforce
  obtain fresh where acc: "accept (sn_request_id p) (sn_nonce p) (st_link_nonces st) = (fresh, nonces)"
    by (cases "accept (sn_request_id p) (sn_nonce p) (st_link_nonces st)") (simp add: nonces_def)
  have eq: "(if length b > MAX_DECISION_BODY_BYTES then (413, st)
      else if \<not> link_request_matches H (sn_request_id p) (sn_ask_hash_hex p) st then (409, st)
      else if \<not> fresh then (409, ?s0)
      else (case r of Inr _ \<Rightarrow> 204 | Inl _ \<Rightarrow> 409, s\<lparr>st_link_nonces := retire (sn_request_id p) (st_link_nonces s)\<rparr>)) = (code, st')"
    using assms(1) [unfolded handle_decision_def Let_def, folded b_def]
    by (simp only: p [folded b_def] acc rs option.case sum.case prod.case)
  consider "st' = st" | "st' = ?s0"
    | (remote) "(case r of Inr _ \<Rightarrow> 204 | Inl _ \<Rightarrow> 409) = code"
      "st' = s\<lparr>st_link_nonces := retire (sn_request_id p) (st_link_nonces s)\<rparr>"
    using eq by (metis prod.inject)
  then show ?thesis
  proof cases
    case remote
    show ?thesis
    proof (cases rule: remote_cases [of H "sn_request_id p" "sn_ask_hash_hex p" "sn_decision p" "dv_nickname dev" "others ?s0"])
      case (1 err)
      then have "st' = (others ?s0)\<lparr>st_link_nonces := retire (sn_request_id p) (st_link_nonces (others ?s0))\<rparr>"
        using remote(2) rs by simp
      then show ?thesis by (intro exI [of _ "others ?s0"] exI [of _ nonces]) simp
    next
      case (2 key e d)
      then show ?thesis using remote(1) rs assms(2) by simp
    qed
  next
    case 2
    then show ?thesis by (intro exI [of _ st] exI [of _ nonces]) simp
  qed (intro exI [of _ st], simp)
qed

text \<open>Operations on the control object and, through the listener, on the pairing it shares.\<close>

datatype link_op = StartListener link_world | OpenPairing link_world nat | PairRequested bool nat nat string | RemoveNamed bool string

fun apply_link_op :: "link_crates \<Rightarrow> (string \<Rightarrow> PairRequest option) \<Rightarrow> link_op \<Rightarrow> link_control \<Rightarrow> link_control" where
  "apply_link_op L json (StartListener W) c = snd (start_if_enrolled L W c)"
| "apply_link_op L json (OpenPairing W now) c = snd (open_pairing W now c)"
| "apply_link_op L json (PairRequested ok now at body) c =
     c\<lparr>lc_pairing := snd (handle_pair L json ok now at body (lc_pairing c))\<rparr>"
| "apply_link_op L json (RemoveNamed ok nickname) c =
     fst (snd (remove_link_device L ok queue_host nickname c fresh_daemon))"

definition listener_private :: "link_control \<Rightarrow> bool" where
  "listener_private c \<longleftrightarrow> (\<forall>ip port. lc_listener c = Some (ip, port) \<longrightarrow> \<not> ip_is_loopback ip \<and> is_lan ip \<and> port = LINK_PORT)"

lemma ensure_private: "listener_private c \<Longrightarrow> listener_private (snd (ensure_listener W c))"
  by (auto simp: ensure_listener_def default_lan_ip_def listener_private_def split: option.splits sum.splits if_splits)

lemma op_private: "listener_private c \<Longrightarrow> listener_private (apply_link_op L json op c)"
proof (cases op)
  case (StartListener W)
  then show "listener_private c \<Longrightarrow> ?thesis" using ensure_private
    by (auto simp: start_if_enrolled_def split: sum.splits prod.splits) (metis snd_conv)
next
  case (OpenPairing W now)
  assume "listener_private c"
  from ensure_private [OF this, of W] show ?thesis
    by (cases "ensure_listener W c") (auto simp: OpenPairing open_pairing_def listener_private_def split: sum.splits)
next
  case (RemoveNamed ok nickname)
  then show "listener_private c \<Longrightarrow> ?thesis"
    by (auto simp: remove_link_device_def listener_private_def split: sum.splits prod.splits option.splits)
qed (simp add: listener_private_def)

lemma ops_private: "listener_private c \<Longrightarrow> listener_private (fold (apply_link_op L json) ops c)"
  by (induction ops arbitrary: c) (simp_all add: op_private)

text \<open>
  Whatever is enrolled, revoked or opened, in any order, the listener is bound, if at all, to
  a private address that is not loopback, on its one port.
\<close>

theorem the_listener_stays_private:
  assumes "lc_listener (fold (apply_link_op L json) ops (new_link_control registry)) = Some (ip, port)"
  shows "\<not> ip_is_loopback ip \<and> is_lan ip \<and> port = LINK_PORT"
  using ops_private [of "new_link_control registry" L json ops] assms by (simp add: listener_private_def new_link_control_def)

text \<open>
  Only the revocation of a last device takes the listener down: once pairing was opened, a
  window that nobody uses, that expires or that is closed by wrong tokens leaves the listener up
  although no device is enrolled.
\<close>

theorem unused_pairing_keeps_the_listener:
  assumes "lc_listener c \<noteq> None"
    and "\<forall>pre op post. ops = pre @ op # post \<longrightarrow>
      devices L (lc_pairing (fold (apply_link_op L json) pre c)) = Inr []"
  shows "lc_listener (fold (apply_link_op L json) ops c) \<noteq> None"
  using assms
proof (induction ops arbitrary: c)
  case (Cons op ops)
  have none: "devices L (lc_pairing c) = Inr []" using Cons.prems(2) [rule_format, of "[]" op ops] by simp
  have up: "lc_listener (apply_link_op L json op c) \<noteq> None"
  proof (cases op)
    case (RemoveNamed ok nickname)
    have "load L (pa_registry (lc_pairing c)) = Inr []" using none by (cases "load L (pa_registry (lc_pairing c))") (simp_all add: devices_def)
    then show ?thesis using Cons.prems(1) by (simp add: RemoveNamed remove_link_device_def remove_device_def)
  next
    case (OpenPairing W now)
    then show ?thesis using Cons.prems(1)
      by (auto simp: open_pairing_def ensure_listener_def split: option.splits)
  next
    case (StartListener W)
    then show ?thesis using none Cons.prems(1) by (simp add: start_if_enrolled_def)
  qed (use Cons.prems(1) in simp)
  have later: "\<forall>pre op' post. ops = pre @ op' # post \<longrightarrow>
      devices L (lc_pairing (fold (apply_link_op L json) pre (apply_link_op L json op c))) = Inr []"
  proof (intro allI impI)
    fix pre op' post assume "ops = pre @ op' # post"
    then have "op # ops = (op # pre) @ op' # post" by simp
    from Cons.prems(2) [rule_format, OF this] show "devices L (lc_pairing (fold (apply_link_op L json) pre (apply_link_op L json op c))) = Inr []"
      by simp
  qed
  show ?case using Cons.IH [OF up later] by simp
qed simp

section \<open>Witnesses\<close>

definition link_host :: host where
  "link_host = queue_host\<lparr>ho_sha256_hex := (\<lambda>_. [])\<rparr>"

definition asked :: "unit State" where
  "asked = snd (submit_ask link_host (sample_ask []) 0 fresh_daemon)"

definition phone_decision :: SignedDecision where
  "phone_decision = \<lparr>sn_request_id = [], sn_ask_hash_hex = [], sn_decision = ''approve'', sn_nonce = ''n'',
     sn_signature_b64 = concat (map w_part [[], [], ''approve'', ''n''])\<rparr>"

definition phone_registry :: registry_file where
  "phone_registry = RegistryFile 384 (lib_devices_json sample_crates
     [\<lparr>dv_nickname = ''phone'', dv_public_key_b64 = sample_key, dv_enrolled_at = 7, dv_last_seen = None\<rparr>])"

lemma asked_fields:
  "st_queue asked = [(ask_dedupe_key (sample_ask []), submitted_entry link_host (sample_ask []) 0 fresh_daemon)]"
  "st_link_nonces asked = []" "st_approvals asked = []"
  using arg_cong [OF core_submit, of st_link_nonces link_host "sample_ask []" 0 fresh_daemon]
    arg_cong [OF core_submit, of st_approvals link_host "sample_ask []" 0 fresh_daemon]
  by (simp_all add: asked_def submit_queue) (simp_all add: fresh_daemon_def new_state_def)

lemma asked_entry:
  "qe_request_id (submitted_entry link_host (sample_ask []) 0 fresh_daemon) = []"
  "ask_hash link_host a = []"
proof -
  have "mint_link_request_id (ho_random link_host) = []" by (simp add: link_host_def queue_host_def mint_link_request_id_def)
  then show "qe_request_id (submitted_entry link_host (sample_ask []) 0 fresh_daemon) = []"
    by (simp add: submitted_entry_def Let_def fresh_daemon_def new_state_def)
  show "ask_hash link_host a = []"
    by (simp add: ask_hash_def canonical_hash_def link_host_def split: option.split)
qed

lemma phone_accepted:
  "\<exists>st'. handle_decision sample_crates (\<lambda>_. Some phone_decision) phone_registry link_host id ''{}'' asked = (204, st')"
proof -
  let ?dev = "\<lparr>dv_nickname = ''phone'', dv_public_key_b64 = sample_key, dv_enrolled_at = 7, dv_last_seen = None\<rparr>"
  have reg: "load sample_crates phone_registry = Inr [?dev]"
    using sample_crates_ok by (simp add: load_def phone_registry_def crates_ok_def)
  have v: "verify sample_crates ?dev phone_decision = Some True"
    by (simp add: verify_def sample_crates_def phone_decision_def canonical_parts_def)
  have live: "link_request_matches link_host [] [] asked"
    by (simp add: link_request_matches_def asked_fields asked_entry hm_values_def)
  have acc: "fst (accept [] ''n'' [])" by (simp add: accept_def)
  have phone: "sn_request_id phone_decision = []" "sn_ask_hash_hex phone_decision = []"
    "sn_decision phone_decision = ''approve''" "sn_nonce phone_decision = ''n''"
    by (simp_all add: phone_decision_def)
  define s0 where "s0 = asked\<lparr>st_link_nonces := snd (accept [] ''n'' [])\<rparr>"
  have q: "st_queue s0 = st_queue asked" by (simp add: s0_def)
  have "\<exists>s. resolve_remote link_host [] [] ''approve'' ''phone'' s0 = (Inr (), s)"
    by (simp add: resolve_remote_def q asked_fields asked_entry)
  then show ?thesis using acc
    by (auto simp: handle_decision_def MAX_DECISION_BODY_BYTES_def reg v live s0_def asked_fields(2) split_beta Let_def phone)
qed

theorem accepted_decisions_are_signed_witness:
  "\<exists>st'. handle_decision sample_crates (\<lambda>_. Some phone_decision) phone_registry link_host id ''{}'' asked = (204, st')
    \<and> st_approvals st' = []"
proof -
  obtain st' where run: "handle_decision sample_crates (\<lambda>_. Some phone_decision) phone_registry link_host id ''{}'' asked = (204, st')"
    using phone_accepted by blast
  from accepted_decisions_are_signed [OF run] have "st_approvals st' = []" by (auto simp: asked_fields)
  with run show ?thesis by blast
qed

theorem refused_decisions_change_nothing_witness:
  "\<exists>st'. handle_decision sample_crates (\<lambda>_. None) phone_registry link_host id ''{}'' asked = (400, st')
    \<and> st_queue st' = st_queue asked"
proof -
  have run: "handle_decision sample_crates (\<lambda>_. None) phone_registry link_host id ''{}'' asked = (400, asked)"
    by (simp add: handle_decision_def MAX_DECISION_BODY_BYTES_def)
  obtain st1 nonces where "st1 = asked \<or> st1 = id (asked\<lparr>st_link_nonces := nonces\<rparr>)" "st_queue asked = st_queue st1"
    using refused_decisions_change_nothing [OF run] by auto
  with run show ?thesis by blast
qed

definition home_network :: link_world where
  "home_network = \<lparr>lw_route = Some (V4 0xC0A80117), lw_bound = True, lw_token = ''t'', lw_show = (\<lambda>_. ''a'')\<rparr>"

definition opened_window :: link_control where
  "opened_window = fold (apply_link_op sample_crates (\<lambda>_. None)) [OpenPairing home_network 0]
     (new_link_control (RegistryFile 384 (lib_devices_json sample_crates [])))"

lemma home_address: "default_lan_ip home_network = Inr (V4 0xC0A80117)"
  by (simp add: default_lan_ip_def home_network_def v4_private_def v4_loopback_def)

lemma opened_listener: "lc_listener opened_window = Some (V4 0xC0A80117, LINK_PORT)"
  by (simp add: opened_window_def open_pairing_def ensure_listener_def new_link_control_def home_address)
    (simp add: home_network_def)

theorem the_listener_stays_private_witness:
  "lc_listener opened_window = Some (V4 0xC0A80117, LINK_PORT) \<and> is_lan (V4 0xC0A80117)"
  using opened_listener the_listener_stays_private
    [OF opened_listener [unfolded opened_window_def]] by blast

theorem unused_pairing_keeps_the_listener_witness:
  "lc_listener (fold (apply_link_op sample_crates (\<lambda>_. None)) [RemoveNamed True ''phone''] opened_window) \<noteq> None"
proof (rule unused_pairing_keeps_the_listener [where L = sample_crates])
  show "lc_listener opened_window \<noteq> None" by (simp add: opened_listener)
  have "devices sample_crates (lc_pairing opened_window) = Inr []"
    using sample_crates_ok
    by (simp add: opened_window_def devices_def load_def open_pairing_def ensure_listener_def new_link_control_def home_address
        crates_ok_def open_at_def split: sum.splits if_splits) 
  then show "\<forall>pre op post. [RemoveNamed True ''phone''] = pre @ op # post \<longrightarrow>
      devices sample_crates (lc_pairing (fold (apply_link_op sample_crates (\<lambda>_. None)) pre opened_window)) = Inr []"
    by (auto simp: Cons_eq_append_conv)
qed

end
