(* ===== verification/Server.thy ===== *)
theory Server
  imports Link_Decisions Rule_Admin
begin

text \<open>
  The daemon's socket server (\<open>src/packages/secreq/src/daemon/server.rs\<close>) with the window
  spawning of \<open>daemon/mod.rs\<close>: one connection per thread, from the peer check to the reply. A
  thread holds the state's mutex only for single operations; between two of them other threads
  run. Each place where a thread takes the mutex is a \<open>site\<close>, and a \<open>world\<close> says what the clock
  and the randomness are there and what the other threads have done since the place before.
  JSON, sockets and the text of errors are parameters; the log file is left out.
\<close>

section \<open>The shared machine\<close>

record 'm machine =
  mc_state :: "'m State"
  mc_files :: "'m rules_env"
  mc_link :: link_control

datatype site =
    AtReload | AtApproval | AtRules | AtNested | AtSubmit | AtRaise | AtEnsure | AtAdopt | AtProbe
  | AtCard | AtResolve | AtCardEnd | AtToast | AtWithdraw | AtAct | AtAttach | AtDetach | AtRestart
  | AtManager | AtManagerAdopt | AtWait | AtGrant | AtKey

text \<open>\<open>wd_child\<close> is the process a spawn starts, \<open>None\<close> when it fails.\<close>

record 'm world =
  wd_host :: "site \<Rightarrow> host"
  wd_others :: "site \<Rightarrow> 'm machine \<Rightarrow> 'm machine"
  wd_child :: "nat option"

text \<open>The machine as a thread finds it at a site, and an operation on the state there.\<close>

definition arrive :: "'m world \<Rightarrow> site \<Rightarrow> 'm machine \<Rightarrow> 'm machine" where
  "arrive W s m = wd_others W s m"

definition on_state :: "('m State \<Rightarrow> 'm State) \<Rightarrow> 'm machine \<Rightarrow> 'm machine" where
  "on_state f m = m\<lparr>mc_state := f (mc_state m)\<rparr>"

definition locked :: "'m world \<Rightarrow> site \<Rightarrow> (host \<Rightarrow> 'm State \<Rightarrow> 'm State) \<Rightarrow> 'm machine \<Rightarrow> 'm machine" where
  "locked W s f m = on_state (f (wd_host W s)) (arrive W s m)"

section \<open>Spawning windows\<close>

definition spawn_window_child :: "'m world \<Rightarrow> site \<Rightarrow> 'm machine \<Rightarrow> 'm machine" where
  "spawn_window_child W s m = (case wd_child W of
      None \<Rightarrow> m
    | Some child \<Rightarrow> locked W s (\<lambda>_. adopt_window_child child) m)"

definition ensure_consent_window :: "'m world \<Rightarrow> 'm machine \<Rightarrow> 'm machine" where
  "ensure_consent_window W m =
     (let H = wd_host W AtEnsure;
          m = arrive W AtEnsure m;
          st = mc_state m
      in if \<not> needs_consent_window H st then m
         else (let (busy, st) = consent_spawn_in_flight H st
               in if busy then m\<lparr>mc_state := st\<rparr>
                  else if st_consent_restart_pending st then m\<lparr>mc_state := st\<rparr>
                  else spawn_window_child W AtAdopt (m\<lparr>mc_state := mark_consent_spawn_in_flight H st\<rparr>)))"

definition ensure_manager_window :: "'m world \<Rightarrow> ManagerFocus option \<Rightarrow> 'm machine \<Rightarrow> 'm machine" where
  "ensure_manager_window W focus m =
     (let H = wd_host W AtManager;
          m = arrive W AtManager m;
          st = mc_state m
      in if \<not> needs_manager_window st then m
         else (let (busy, st) = manager_spawn_in_flight H st
               in if busy then m\<lparr>mc_state := st\<rparr>
                  else spawn_window_child W AtManagerAdopt (m\<lparr>mc_state := mark_manager_spawn_in_flight H st\<rparr>)))"

section \<open>Who is asking\<close>

text \<open>The kernel and the process table, as they are when the connection is served.\<close>

record peer_env =
  pv_same_user :: "bool option"
  pv_peer :: "nat option"
  pv_categories :: categories
  pv_system :: system
  pv_exe :: "ustring option"
  pv_cwd :: "nat \<Rightarrow> string option"

datatype provenance_error = PeerUnknown | NoVisibleParent

definition wire_caller :: "Caller \<Rightarrow> WireCaller" where
  "wire_caller c = \<lparr>wc_pid = ca_pid c, wc_name = utf8 (ca_name c), wc_command = utf8 (ca_command c),
     wc_start_time = ca_start_time c, wc_exe = map_option utf8 (ca_exe c)\<rparr>"

definition peer_chain :: "peer_env \<Rightarrow> nat \<Rightarrow> CallerChain" where
  "peer_chain P peer = caller_chain_from_pid (pv_categories P) (pv_system P) (pv_exe P) peer"

definition describe_local_peer :: "peer_env \<Rightarrow> nat \<Rightarrow> LocalPeer option" where
  "describe_local_peer P peer = map_option (\<lambda>p. let c = pp_caller p in
      \<lparr>lp_pid = ca_pid c, lp_name = utf8 (ca_name c), lp_command = utf8 (ca_command c),
       lp_exe = map_option utf8 (ca_exe c)\<rparr>) (describe_pid (pv_categories P) (pv_system P) peer)"

definition stamp_subject :: "WireCaller list \<Rightarrow> bool \<Rightarrow> string \<Rightarrow> AskSubject \<Rightarrow> AskSubject" where
  "stamp_subject cs truncated dir subject = (case subject of
      Wrap w \<Rightarrow> Wrap (w\<lparr>ws_callers := cs, ws_callers_truncated := truncated, ws_cwd := dir\<rparr>)
    | SshSign s \<Rightarrow> SshSign (s\<lparr>ss_callers := cs, ss_callers_truncated := truncated, ss_cwd := dir\<rparr>)
    | ScopedAgent a \<Rightarrow> ScopedAgent a)"

definition stamp_anchor :: "ProcessIdentity \<Rightarrow> AskAnchor \<Rightarrow> AskAnchor" where
  "stamp_anchor i anchor = (case anchor of
      ProcessAnchor _ \<Rightarrow> ProcessAnchor i
    | RunSessionAnchor pid nonce \<Rightarrow> anchor
    | AgentSocketAnchor pid \<Rightarrow> anchor)"

definition adopt_peer_provenance :: "peer_env \<Rightarrow> Ask \<Rightarrow> provenance_error + Ask" where
  "adopt_peer_provenance P ask = (case pv_peer P of
      None \<Rightarrow> Inl PeerUnknown
    | Some peer \<Rightarrow> (case ask_subject ask of
        ScopedAgent agent \<Rightarrow>
          Inr (ask\<lparr>ask_subject := ScopedAgent (agent\<lparr>ai_declared_by := describe_local_peer P peer\<rparr>)\<rparr>)
      | subject \<Rightarrow>
          (let chain = peer_chain P peer in
           case cc_frames chain of
             [] \<Rightarrow> Inl NoVisibleParent
           | parent # _ \<Rightarrow>
               (let dir = (case pv_cwd P peer of None \<Rightarrow> [] | Some d \<Rightarrow> d);
                    key = ask_dedupe_key ask
                in Inr (ask\<lparr>ask_subject := stamp_subject (map wire_caller (cc_frames chain)) (cc_truncated chain) dir subject,
                     ask_dedupe_key := key\<lparr>dk_anchor := stamp_anchor (caller_identity parent) (dk_anchor key)\<rparr>\<rparr>)))))"

section \<open>Serving an ask\<close>

definition waiter_reply_to_daemon_msg :: "WaiterReply \<Rightarrow> ScopeDeclarant option \<Rightarrow> DaemonMsg" where
  "waiter_reply_to_daemon_msg reply declared = (case reply of
      Decided d secs device reason \<Rightarrow> DecisionMsg \<lparr>dr_decision = d, dr_secrets = secs, dr_deciding_device = device,
        dr_rule_id = None, dr_rule_name = None, dr_reason = reason, dr_declared_by = declared, dr_approvers = []\<rparr>
    | ReplyErr m p \<Rightarrow> ErrMsg m)"

definition resolve_approved_with_pending ::
  "'m world \<Rightarrow> Ask \<Rightarrow> Decision \<Rightarrow> 'm machine \<Rightarrow> (WaiterReply \<times> 'm machine) option" where
  "resolve_approved_with_pending W ask decision m =
     (let m = arrive W AtProbe m;
          cold = \<not> ask_fully_cached (ho_outside (wd_host W AtProbe)) ask (st_memory (mc_state m));
          m = (if cold then ensure_consent_window W (locked W AtCard (\<lambda>H. begin_pending H ask) m) else m);
          m = arrive W AtResolve m
      in case resolve_for_ask (ho_outside (wd_host W AtResolve)) ask (st_memory (mc_state m)) of
           None \<Rightarrow> None
         | Some (reply, M) \<Rightarrow>
             (let reply = map_decision (\<lambda>d. if d = Approve then decision else d) reply;
                  m = on_state (\<lambda>st. st\<lparr>st_memory := M\<rparr>) m;
                  public_error = (case reply of ReplyErr _ p \<Rightarrow> Some p | Decided _ _ _ _ \<Rightarrow> None)
              in Some (reply, if cold then locked W AtCardEnd (\<lambda>H. end_pending H (ask_dedupe_key ask) public_error) m else m)))"

definition handle_rule_hit ::
  "'m world \<Rightarrow> Ask \<Rightarrow> RuleHit \<Rightarrow> ScopeDeclarant option \<Rightarrow> 'm machine \<Rightarrow> (DaemonMsg \<times> 'm machine) option" where
  "handle_rule_hit W ask hit declared m = (case rh_decide hit of
      DenyRule \<Rightarrow> Some (DecisionMsg \<lparr>dr_decision = DenyAuto, dr_secrets = [], dr_deciding_device = None,
          dr_rule_id = Some (rh_rule_id hit), dr_rule_name = Some (rh_rule_name hit), dr_reason = rh_deny_message hit,
          dr_declared_by = declared, dr_approvers = []\<rparr>,
        locked W AtToast (\<lambda>H. broadcast_auto_deny_toast H (rh_rule_name hit) (rh_deny_message hit)) m)
    | ApproveRule \<Rightarrow> (case resolve_approved_with_pending W ask ApproveAuto m of
          None \<Rightarrow> None
        | Some (Decided _ secs _ _, m) \<Rightarrow> Some (DecisionMsg \<lparr>dr_decision = ApproveAuto, dr_secrets = secs,
            dr_deciding_device = None, dr_rule_id = Some (rh_rule_id hit), dr_rule_name = Some (rh_rule_name hit),
            dr_reason = None, dr_declared_by = declared, dr_approvers = rh_approvals hit\<rparr>, m)
        | Some (ReplyErr msg _, m) \<Rightarrow> Some (ErrMsg msg, m)))"

text \<open>The channel of an enqueued ask is the number the waiter was submitted with.\<close>

datatype AskDisposition =
    Resolved DaemonMsg
  | Enqueued DedupeKey nat "ScopeDeclarant option"

definition enqueue_ask :: "'m world \<Rightarrow> nat \<Rightarrow> Ask \<Rightarrow> 'm machine \<Rightarrow> AskDisposition \<times> 'm machine" where
  "enqueue_ask W tx ask m =
     (let m = arrive W AtSubmit m;
          ((result, waiter_id), st) = submit_ask (wd_host W AtSubmit) ask tx (mc_state m);
          m = m\<lparr>mc_state := st\<rparr>;
          m = (if result = NewEntry then locked W AtRaise (\<lambda>H st. if any_consent_focused st then st
                 else initiate_consent_restart H st) m else m)
      in (Enqueued (ask_dedupe_key ask) waiter_id (declared_by ask), ensure_consent_window W m))"

definition handle_ask :: "'m world \<Rightarrow> nat \<Rightarrow> Ask \<Rightarrow> 'm machine \<Rightarrow> (AskDisposition \<times> 'm machine) option" where
  "handle_ask W tx ask m =
     (let cached = (\<lambda>m. map_option (\<lambda>(reply, m). (Resolved (waiter_reply_to_daemon_msg reply (declared_by ask)), m))
            (resolve_approved_with_pending W ask ApproveCached m));
          m = arrive W AtApproval m
      in if \<not> ignore_remembered ask \<and> has_cached_approval ask (mc_state m) then cached m
         else (let m = arrive W AtRules m in
           case evaluate_rules_for_ask (mc_files m) ask (mc_state m) of
             Some hit \<Rightarrow> map_option (\<lambda>(msg, m). (Resolved msg, m)) (handle_rule_hit W ask hit (declared_by ask) m)
           | None \<Rightarrow>
               (let m = arrive W AtNested m in
                if nested_run_may_skip_window (wd_host W AtNested) ask (mc_state m) then cached m
                else Some (enqueue_ask W tx ask m))))"

section \<open>Requests\<close>

datatype module_error = NotStatted string | NotRegularFile string | OverCap string nat | NotRead string

text \<open>What the server takes from outside: the parser of a line, the file system's answers about a
  module, the link's crates and network, the build's id and the text of errors.\<close>

record 'm server =
  se_json :: "string \<Rightarrow> ClientMsg option"
  se_admin :: "'m admin_env"
  se_crates :: link_crates
  se_link :: link_world
  se_link_now :: nat
  se_registry_writes :: bool
  se_stat :: "string \<Rightarrow> (bool \<times> nat) option"
  se_read :: "string \<Rightarrow> string option"
  se_build :: string
  se_module_text :: "module_error \<Rightarrow> string"
  se_admin_text :: "admin_error \<Rightarrow> string"
  se_control_text :: "control_error \<Rightarrow> string"
  se_provenance_text :: "provenance_error \<Rightarrow> string"

definition MAX_WASM_MODULE_BYTES :: nat where
  "MAX_WASM_MODULE_BYTES = 16 * 1024 * 1024"

definition read_wasm_module_bytes :: "'m server \<Rightarrow> string \<Rightarrow> module_error + string" where
  "read_wasm_module_bytes S path = (case se_stat S path of
      None \<Rightarrow> Inl (NotStatted path)
    | Some (is_file, len) \<Rightarrow>
        if \<not> is_file then Inl (NotRegularFile path)
        else if len > MAX_WASM_MODULE_BYTES then Inl (OverCap path len)
        else (case se_read S path of None \<Rightarrow> Inl (NotRead path) | Some bs \<Rightarrow> Inr bs))"

definition mutation_reply :: "'m server \<Rightarrow> admin_error + 'a \<Rightarrow> DaemonMsg" where
  "mutation_reply S r = (case r of Inr _ \<Rightarrow> OkMsg | Inl e \<Rightarrow> ErrMsg (se_admin_text S e))"

text \<open>A mutation of the rules under the mutex: it reads and writes the state and the files.\<close>

definition mutate ::
  "'m world \<Rightarrow> ('m State \<Rightarrow> 'm rules_env \<Rightarrow> ('m, 'a) admin_result) \<Rightarrow> 'm machine \<Rightarrow> (admin_error + 'a) \<times> 'm machine" where
  "mutate W f m = (let m = arrive W AtAct m; (r, st, E) = f (mc_state m) (mc_files m)
     in (r, m\<lparr>mc_state := st, mc_files := E\<rparr>))"

fun rule_mutation :: "'m server \<Rightarrow> host \<Rightarrow> ClientMsg \<Rightarrow> ('m State \<Rightarrow> 'm rules_env \<Rightarrow> ('m, unit) admin_result) option" where
  "rule_mutation S H (AddRule rule) = Some (add_rule (se_admin S) H rule)"
| "rule_mutation S H (UpdateRule expected replacement) = Some (update_rule_if_unchanged (se_admin S) H expected replacement)"
| "rule_mutation S H (DeleteRule expected) = Some (delete_rule_if_unchanged (se_admin S) H expected)"
| "rule_mutation S H (SetRuleEnabled expected enabled) = Some (set_rule_enabled_if_unchanged (se_admin S) H expected enabled)"
| "rule_mutation S H _ = None"

text \<open>The source panics on another message; both callers have told them apart.\<close>

definition apply_streaming_rule_msg :: "'m server \<Rightarrow> 'm world \<Rightarrow> ClientMsg \<Rightarrow> 'm machine \<Rightarrow> (DaemonMsg \<times> 'm machine) option" where
  "apply_streaming_rule_msg S W msg m = (case rule_mutation S (wd_host W AtAct) msg of
      None \<Rightarrow> None
    | Some f \<Rightarrow> (let (r, m) = mutate W f m in Some (mutation_reply S r, m)))"

definition ONE_SHOT_ERROR :: string where
  "ONE_SHOT_ERROR = ''streaming consent message arrived on one-shot path; child must send its Attach message first''"

text \<open>One operation under the mutex, with its reply.\<close>

definition act :: "'m world \<Rightarrow> (host \<Rightarrow> 'm State \<Rightarrow> DaemonMsg \<times> 'm State) \<Rightarrow> 'm machine \<Rightarrow> DaemonMsg \<times> 'm machine" where
  "act W f m = (let m = arrive W AtAct m; (reply, st) = f (wd_host W AtAct) (mc_state m)
     in (reply, m\<lparr>mc_state := st\<rparr>))"

definition show_window_reply :: "host \<Rightarrow> 'm State \<Rightarrow> DaemonMsg \<times> 'm State" where
  "show_window_reply H st =
     (let st = show_window H st;
          st = (if any_consent_focused st then st else initiate_consent_restart H st);
          st = touch H st
      in (WindowOpened (consent_child_pid st), st))"

definition show_viewer_reply :: "host \<Rightarrow> 'm State \<Rightarrow> DaemonMsg \<times> 'm State" where
  "show_viewer_reply H st = (let st = touch H (enter_viewer_mode H st) in (WindowOpened (manager_child_pid st), st))"

definition handle_request :: "'m server \<Rightarrow> 'm world \<Rightarrow> ClientMsg \<Rightarrow> 'm machine \<Rightarrow> DaemonMsg \<times> 'm machine" where
  "handle_request S W msg m = (case msg of
      Ping \<Rightarrow> act W (\<lambda>H st. (OkMsg, touch H st)) m
    | Hello build_id \<Rightarrow> (HelloMsg (se_build S), m)
    | LinkPair \<Rightarrow> (case open_pairing (se_link S) (se_link_now S) (mc_link m) of
          (Inl e, c) \<Rightarrow> (ErrMsg (se_control_text S e), m\<lparr>mc_link := c\<rparr>)
        | (Inr url, c) \<Rightarrow> (LinkPairing url, m\<lparr>mc_link := c\<rparr>))
    | LinkList \<Rightarrow> (case devices (se_crates S) (lc_pairing (mc_link m)) of
          Inl e \<Rightarrow> (ErrMsg (se_control_text S (PairingFailed e)), m)
        | Inr ds \<Rightarrow> (LinkDevicesMsg ds, m))
    | LinkRemove nickname \<Rightarrow>
        (let m = arrive W AtAct m;
             (r, c, st) = remove_link_device (se_crates S) (se_registry_writes S) (wd_host W AtAct) nickname (mc_link m) (mc_state m);
             m = m\<lparr>mc_link := c, mc_state := st\<rparr>
         in (case r of
             Inr (Some _) \<Rightarrow> OkMsg
           | Inr None \<Rightarrow> ErrMsg (''no linked device named `'' @ nickname @ ''`'')
           | Inl e \<Rightarrow> ErrMsg (se_control_text S (PairingFailed e)), m))
    | ShowWindow \<Rightarrow> act W show_window_reply m
    | ShowViewer \<Rightarrow> act W show_viewer_reply m
    | Shutdown \<Rightarrow> act W (\<lambda>H st. (OkMsg, request_shutdown H st)) m
    | ListRules \<Rightarrow> act W (\<lambda>H st. (RulesList (st_rules st) (refusals_snapshot st), st)) m
    | AddWasmRule name path wraps trained allow_all \<Rightarrow> (case read_wasm_module_bytes S path of
          Inl e \<Rightarrow> (ErrMsg (se_module_text S e), m)
        | Inr bs \<Rightarrow> (case mutate W (add_wasm_rule (se_admin S) (wd_host W AtAct) name bs wraps trained allow_all) m of
              (Inr rule, m) \<Rightarrow> (RuleAdded rule, m)
            | (Inl e, m) \<Rightarrow> (ErrMsg (se_admin_text S e), m)))
    | _ \<Rightarrow> (case rule_mutation S (wd_host W AtAct) msg of
          Some f \<Rightarrow> (let (r, m) = mutate W f m in (mutation_reply S r, m))
        | None \<Rightarrow> (ErrMsg ONE_SHOT_ERROR, m)))"

definition reload :: "'m world \<Rightarrow> 'm machine \<Rightarrow> 'm machine" where
  "reload W m = (let m = arrive W AtReload m
     in m\<lparr>mc_state := reload_rules_if_changed (wd_host W AtReload) (mc_files m) (mc_state m)\<rparr>)"

text \<open>An \<open>Ask\<close> never comes here: the connection handler has taken it before.\<close>

definition handle_message :: "'m server \<Rightarrow> 'm world \<Rightarrow> ClientMsg \<Rightarrow> 'm machine \<Rightarrow> DaemonMsg \<times> 'm machine" where
  "handle_message S W msg m = handle_request S W msg (reload W m)"

section \<open>Connections\<close>

datatype io_error = BrokenPipe | ConnectionReset | ConnectionAborted | OtherIoError

definition is_client_disconnect :: "io_error \<Rightarrow> bool" where
  "is_client_disconnect e \<longleftrightarrow> e = BrokenPipe \<or> e = ConnectionReset \<or> e = ConnectionAborted"

text \<open>What \<open>read_line\<close> gives, and whether \<open>write_reply\<close> is \<open>Ok\<close> when the write ended so.\<close>

datatype read_result = ReadErr io_error | Eof | Line string

definition write_reply :: "io_error option \<Rightarrow> bool" where
  "write_reply w = (case w of None \<Rightarrow> True | Some e \<Rightarrow> is_client_disconnect e)"

text \<open>\<open>tx.send(msg)\<close> on the channel of a window; a channel whose receiver is gone takes nothing.\<close>

definition send_to :: "nat \<Rightarrow> DaemonMsg \<Rightarrow> host \<Rightarrow> 'm State \<Rightarrow> 'm State" where
  "send_to tx msg H st = (if ho_accepts H (length (st_out st)) tx then st\<lparr>st_out := st_out st @ [ToWindow tx msg]\<rparr> else st)"

definition streamed_mutation :: "'m server \<Rightarrow> 'm world \<Rightarrow> nat \<Rightarrow> ClientMsg \<Rightarrow> 'm machine \<Rightarrow> 'm machine" where
  "streamed_mutation S W tx msg m = (case apply_streaming_rule_msg S W msg m of
      None \<Rightarrow> m
    | Some (reply, m) \<Rightarrow> on_state (send_to tx reply (wd_host W AtAct)) m)"

text \<open>One message of a window, and whether its loop goes on.\<close>

definition consent_message :: "'m server \<Rightarrow> 'm world \<Rightarrow> nat \<Rightarrow> nat \<Rightarrow> ClientMsg \<Rightarrow> 'm machine \<Rightarrow> bool \<times> 'm machine" where
  "consent_message S W i tx msg m = (case msg of
      ConsentDecision key decision reason scope \<Rightarrow> (True, locked W AtAct (\<lambda>H. resolve H key decision reason scope) m)
    | ConsentWindowDetach \<Rightarrow> (False, m)
    | ConsentWindowDismissed \<Rightarrow> (False, locked W AtAct (\<lambda>H. deny_all_awaiting H ''prompt window closed'') m)
    | ConsentWindowFocus focused \<Rightarrow> (True, locked W AtAct (\<lambda>H. set_consent_focused i focused) m)
    | OpenManager focus \<Rightarrow> (True, ensure_manager_window W (Some focus) m)
    | AddRule r \<Rightarrow> (True, streamed_mutation S W tx msg m)
    | UpdateRule e r \<Rightarrow> (True, streamed_mutation S W tx msg m)
    | DeleteRule e \<Rightarrow> (True, streamed_mutation S W tx msg m)
    | SetRuleEnabled e b \<Rightarrow> (True, streamed_mutation S W tx msg m)
    | _ \<Rightarrow> (True, m))"

definition manager_message :: "'m server \<Rightarrow> 'm world \<Rightarrow> nat \<Rightarrow> ClientMsg \<Rightarrow> 'm machine \<Rightarrow> bool \<times> 'm machine" where
  "manager_message S W tx msg m = (case msg of
      AddRule r \<Rightarrow> (True, streamed_mutation S W tx msg m)
    | UpdateRule e r \<Rightarrow> (True, streamed_mutation S W tx msg m)
    | DeleteRule e \<Rightarrow> (True, streamed_mutation S W tx msg m)
    | SetRuleEnabled e b \<Rightarrow> (True, streamed_mutation S W tx msg m)
    | _ \<Rightarrow> (True, m))"

text \<open>The read loop over what the socket yields; a list that runs out is a closed socket.\<close>

fun read_loop :: "'m server \<Rightarrow> ('m world \<Rightarrow> ClientMsg \<Rightarrow> 'm machine \<Rightarrow> bool \<times> 'm machine)
    \<Rightarrow> ('m world \<times> read_result) list \<Rightarrow> 'm machine \<Rightarrow> 'm machine" where
  "read_loop S on_message [] m = m"
| "read_loop S on_message ((W, r) # rs) m = (case r of
      ReadErr _ \<Rightarrow> m
    | Eof \<Rightarrow> m
    | Line line \<Rightarrow>
        if trim line = [] then read_loop S on_message rs m
        else (case se_json S (trim line) of
            None \<Rightarrow> read_loop S on_message rs m
          | Some msg \<Rightarrow> (case on_message W msg m of
              (True, m) \<Rightarrow> read_loop S on_message rs m
            | (False, m) \<Rightarrow> m)))"

definition handle_consent_window_connection ::
  "'m server \<Rightarrow> 'm world \<Rightarrow> 'm world \<Rightarrow> nat \<Rightarrow> nat \<Rightarrow> ('m world \<times> read_result) list \<Rightarrow> 'm machine \<Rightarrow> 'm machine" where
  "handle_consent_window_connection S W V pid tx reads m =
     (let m = arrive W AtAttach m;
          H = wd_host W AtAttach;
          ((i, initial), st) = attach_consent_window H pid tx (mc_state m);
          m = m\<lparr>mc_state := send_to tx (ConsentUpdate initial) H st\<rparr>;
          m = read_loop S (\<lambda>W. consent_message S W i tx) reads m;
          m = locked V AtDetach (\<lambda>H. detach_consent_window i) m;
          m = arrive V AtRestart m;
          (restart_pending, st) = take_consent_restart_pending (mc_state m);
          m = m\<lparr>mc_state := st\<rparr>
      in if restart_pending then ensure_consent_window V m else locked V AtAct hide_window m)"

definition handle_manager_window_connection ::
  "'m server \<Rightarrow> 'm world \<Rightarrow> 'm world \<Rightarrow> nat \<Rightarrow> nat \<Rightarrow> ('m world \<times> read_result) list \<Rightarrow> 'm machine \<Rightarrow> 'm machine" where
  "handle_manager_window_connection S W V pid tx reads m =
     (let m = arrive W AtAttach m;
          H = wd_host W AtAttach;
          ((i, initial), st) = attach_manager_window H pid tx (mc_state m);
          m = m\<lparr>mc_state := send_to tx (ConsentUpdate initial) H st\<rparr>;
          m = read_loop S (\<lambda>W. manager_message S W tx) reads m
      in locked V AtDetach (\<lambda>H. detach_manager_window i) m)"

text \<open>How a connection ended: \<open>Failed\<close> is an error its thread prints.\<close>

datatype served = Refused | NothingSent | ConnectionFailed | Answered DaemonMsg | Parked DedupeKey nat | Streamed

text \<open>Without its reply thread, or when the watch fails, a connection ends and leaves the waiter parked.\<close>

definition park_ask_and_watch ::
  "'m world \<Rightarrow> DedupeKey \<Rightarrow> nat \<Rightarrow> bool \<Rightarrow> read_result \<Rightarrow> 'm machine \<Rightarrow> served \<times> 'm machine" where
  "park_ask_and_watch V key waiter_id reply_thread watched m =
     (if \<not> reply_thread then (ConnectionFailed, m)
      else if (case watched of ReadErr e \<Rightarrow> \<not> is_client_disconnect e | _ \<Rightarrow> False) then (ConnectionFailed, m)
      else (Parked key waiter_id, locked V AtWithdraw (\<lambda>H. withdraw_waiter H key waiter_id) m))"

definition reply_outcome :: "io_error option \<Rightarrow> DaemonMsg \<Rightarrow> served" where
  "reply_outcome w reply = (if write_reply w then Answered reply else ConnectionFailed)"

text \<open>The rest of a connection: how the write of the reply ends, what a window's socket yields, whether
  the thread that writes a parked reply starts, what the watch of a parked ask sees, and the world in
  which the connection ends.\<close>

record 'm connection =
  cn_tx :: nat
  cn_write :: "io_error option"
  cn_reads :: "('m world \<times> read_result) list"
  cn_reply_thread :: bool
  cn_watch :: read_result
  cn_end :: "'m world"

definition handle_ask_connection ::
  "'m server \<Rightarrow> peer_env \<Rightarrow> 'm world \<Rightarrow> 'm connection \<Rightarrow> Ask \<Rightarrow> 'm machine \<Rightarrow> (served \<times> 'm machine) option" where
  "handle_ask_connection S P W C ask m = (case adopt_peer_provenance P ask of
      Inl e \<Rightarrow> Some (reply_outcome (cn_write C) (ErrMsg (se_provenance_text S e)), m)
    | Inr ask \<Rightarrow> (case handle_ask W (cn_tx C) ask m of
          None \<Rightarrow> None
        | Some (Resolved reply, m) \<Rightarrow> Some (reply_outcome (cn_write C) reply, m)
        | Some (Enqueued key waiter_id declared, m) \<Rightarrow>
            Some (park_ask_and_watch (cn_end C) key waiter_id (cn_reply_thread C) (cn_watch C) m)))"

definition handle_connection ::
  "'m server \<Rightarrow> peer_env \<Rightarrow> 'm world \<Rightarrow> 'm connection \<Rightarrow> read_result \<Rightarrow> 'm machine \<Rightarrow> (served \<times> 'm machine) option" where
  "handle_connection S P W C first m =
     (if pv_same_user P \<noteq> Some True then Some (Refused, m)
      else case first of
        ReadErr _ \<Rightarrow> Some (ConnectionFailed, m)
      | Eof \<Rightarrow> Some (NothingSent, m)
      | Line line \<Rightarrow> (case se_json S (trim line) of
          None \<Rightarrow> Some (ConnectionFailed, m)
        | Some (ConsentWindowAttach pid) \<Rightarrow>
            Some (Streamed, handle_consent_window_connection S W (cn_end C) pid (cn_tx C) (cn_reads C) m)
        | Some (ManagerWindowAttach pid) \<Rightarrow>
            Some (Streamed, handle_manager_window_connection S W (cn_end C) pid (cn_tx C) (cn_reads C) m)
        | Some (AskMsg ask) \<Rightarrow> handle_ask_connection S P W C ask (reload W m)
        | Some msg \<Rightarrow>
            (let (reply, m) = handle_message S W msg m
             in if \<not> write_reply (cn_write C) then Some (ConnectionFailed, m)
                else Some (Answered reply, case msg of
                    ShowWindow \<Rightarrow> ensure_consent_window W m
                  | ShowViewer \<Rightarrow> ensure_manager_window W (Some AuditView) m
                  | _ \<Rightarrow> m))))"

section \<open>The main loop\<close>

definition IDLE_EXIT_SECS :: nat where
  "IDLE_EXIT_SECS = 2 * 60 * 60"

definition AUTO_HIDE_GRACE :: nat where
  "AUTO_HIDE_GRACE = 2 * NANOS"

definition should_idle_exit :: "bool \<Rightarrow> bool \<Rightarrow> bool \<Rightarrow> bool \<Rightarrow> bool" where
  "should_idle_exit queue_empty idle_elapsed ssh_agent_enabled link_subscriber_attached =
     (if ssh_agent_enabled \<or> link_subscriber_attached then False else queue_empty \<and> idle_elapsed)"

definition consent_subscriber_count :: "'m State \<Rightarrow> nat" where
  "consent_subscriber_count st = group_count (st_consent st)"

definition manager_subscriber_count :: "'m State \<Rightarrow> nat" where
  "manager_subscriber_count st = group_count (st_manager st)"

definition queue_is_empty :: "'m State \<Rightarrow> bool" where
  "queue_is_empty st \<longleftrightarrow> st_queue st = []"

text \<open>What one tick does under the mutex, and whether it goes on to raise a prompt.\<close>

definition tick_state :: "host \<Rightarrow> bool \<Rightarrow> 'm State \<Rightarrow> bool \<times> 'm State" where
  "tick_state H ssh_agent_enabled st =
     (let st = snd (prune_expired_secrets st);
          st = snd (reap_exited_window_children H st);
          ui_attached = (consent_subscriber_count st > 0 \<or> manager_subscriber_count st > 0);
          st = (if ui_attached then
              (let st = touch H st in
               if consent_subscriber_count st > 0 \<and> (case st_queue_empty_since st of
                    None \<Rightarrow> False | Some t \<Rightarrow> ho_now H - t \<ge> AUTO_HIDE_GRACE)
               then broadcast_consent_exit_please H st else st)
            else if should_idle_exit (queue_is_empty st) (ho_now H - st_last_activity st \<ge> IDLE_EXIT_SECS * NANOS)
                 ssh_agent_enabled (link_subscriber_count st > 0)
            then request_shutdown H st else st)
      in if needs_consent_window H st
         then (let (busy, st) = consent_spawn_in_flight H st in (\<not> busy, st))
         else (False, st))"

definition main_tick :: "'m world \<Rightarrow> bool \<Rightarrow> 'm machine \<Rightarrow> 'm machine" where
  "main_tick W ssh_agent_enabled m =
     (let m = arrive W AtAct m;
          (ensure, st) = tick_state (wd_host W AtAct) ssh_agent_enabled (mc_state m);
          m = m\<lparr>mc_state := st\<rparr>
      in if ensure then ensure_consent_window W m else m)"

text \<open>The loop, one world per wake-up: it stops at the shutdown flag.\<close>

fun main_loop :: "bool \<Rightarrow> 'm world list \<Rightarrow> 'm machine \<Rightarrow> 'm machine" where
  "main_loop ssh [] m = m"
| "main_loop ssh (W # Ws) m = (if st_shutdown_flag (mc_state m) then m else main_loop ssh Ws (main_tick W ssh m))"

end
