(* ===== verification/Server_Properties.thy ===== *)
theory Server_Properties
  imports Server
begin

text \<open>
  What the server's threads do together (\<open>src/packages/secreq/src/daemon/server.rs\<close>): every
  connection is a sequence of atomic steps of the machine, so the other threads of a connection
  are such steps, too, and the queue's books and the consent behind every silent answer hold
  whatever they interleave; and nothing a client says of itself survives.
\<close>

section \<open>Atomic steps\<close>

text \<open>
  One operation under the mutex: of the queue, of the rules, of the windows and clocks, of the
  cache (which has a mutex of its own), of the nonces of linked devices, or of the listener.
\<close>

inductive atomic :: "'m machine \<Rightarrow> 'm machine \<Rightarrow> bool" where
  DaemonStep: "atomic m (on_state (apply_daemon_op (H, op)) m)"
| RulesStep: "apply_rule_op (A, H, op) (mc_state m) (mc_files m) = (r, st, E) \<Longrightarrow> atomic m (m\<lparr>mc_state := st, mc_files := E\<rparr>)"
| WindowStep: "core st = core (mc_state m) \<Longrightarrow> atomic m (m\<lparr>mc_state := st\<rparr>)"
| MemoryStep: "atomic m (on_state (\<lambda>st. st\<lparr>st_memory := M\<rparr>) m)"
| NonceStep: "atomic m (on_state (\<lambda>st. st\<lparr>st_link_nonces := n\<rparr>) m)"
| LinkStep: "atomic m (m\<lparr>mc_link := c\<rparr>)"

abbreviation steps :: "'m machine \<Rightarrow> 'm machine \<Rightarrow> bool" where
  "steps \<equiv> atomic\<^sup>*\<^sup>*"

definition honest :: "'m world \<Rightarrow> bool" where
  "honest W \<longleftrightarrow> (\<forall>s m. steps m (wd_others W s m))"

lemma arrive_steps [intro]: "honest W \<Longrightarrow> steps m (arrive W s m)"
  by (simp add: honest_def arrive_def)

lemma steps_trans: "steps a b \<Longrightarrow> steps b c \<Longrightarrow> steps a c"
  by (rule rtranclp_trans)

lemma one_step: "atomic a b \<Longrightarrow> steps a b"
  by simp

lemma daemon_steps: "steps m (on_state (apply_daemon_op (H, op)) m)"
  by (intro r_into_rtranclp DaemonStep)

lemma window_steps: "core st = core (mc_state m) \<Longrightarrow> steps m (m\<lparr>mc_state := st\<rparr>)"
  by (intro r_into_rtranclp WindowStep)

lemma locked_window:
  assumes "honest W" "\<And>st. core (f (wd_host W s) st) = core st"
  shows "steps m (locked W s f m)"
  using steps_trans [OF arrive_steps [OF assms(1)] window_steps] assms(2) by (simp add: locked_def on_state_def)

lemma locked_op:
  assumes "honest W" "\<And>st. f (wd_host W s) st = apply_daemon_op (H, op) st"
  shows "steps m (locked W s f m)"
proof -
  have "f (wd_host W s) = apply_daemon_op (H, op)" using assms(2) by blast
  then show ?thesis using steps_trans [OF arrive_steps [OF assms(1)] daemon_steps] by (simp add: locked_def)
qed

section \<open>Windows\<close>

lemma core_spawns [core_simps]:
  "core (snd (consent_spawn_in_flight H st)) = core st" "core (snd (manager_spawn_in_flight H st)) = core st"
  by (simp_all add: consent_spawn_in_flight_def manager_spawn_in_flight_def split_beta core_simps)

lemma core_send_to [core_simps]: "core (send_to tx msg H st) = core st"
  by (simp add: send_to_def core_def recorded_def to_screen_def)

lemma spawn_steps: "honest W \<Longrightarrow> steps m (spawn_window_child W s m)"
  by (auto simp: spawn_window_child_def core_simps split: option.split intro!: locked_window)

lemma ensure_consent_steps:
  assumes "honest W" shows "steps m (ensure_consent_window W m)"
proof -
  define a where "a = arrive W AtEnsure m"
  have a: "steps m a" using assms by (auto simp: a_def)
  obtain busy st where b: "consent_spawn_in_flight (wd_host W AtEnsure) (mc_state a) = (busy, st)" by fastforce
  then have c: "core st = core (mc_state a)" using core_spawns [of "wd_host W AtEnsure" "mc_state a"] by simp
  have s1: "steps m (a\<lparr>mc_state := st\<rparr>)" by (rule steps_trans [OF a window_steps]) (simp add: c)
  have "steps m (a\<lparr>mc_state := mark_consent_spawn_in_flight (wd_host W AtEnsure) st\<rparr>)"
    by (rule steps_trans [OF a window_steps]) (simp add: c core_simps)
  from steps_trans [OF this spawn_steps [OF assms]] show ?thesis
    unfolding ensure_consent_window_def Let_def a_def [symmetric] b prod.case by (simp add: a s1)
qed

lemma ensure_manager_steps:
  assumes "honest W" shows "steps m (ensure_manager_window W focus m)"
proof -
  define a where "a = arrive W AtManager m"
  have a: "steps m a" using assms by (auto simp: a_def)
  obtain busy st where b: "manager_spawn_in_flight (wd_host W AtManager) (mc_state a) = (busy, st)" by fastforce
  then have c: "core st = core (mc_state a)" using core_spawns [of "wd_host W AtManager" "mc_state a"] by simp
  have s1: "steps m (a\<lparr>mc_state := st\<rparr>)" by (rule steps_trans [OF a window_steps]) (simp add: c)
  have "steps m (a\<lparr>mc_state := mark_manager_spawn_in_flight (wd_host W AtManager) st\<rparr>)"
    by (rule steps_trans [OF a window_steps]) (simp add: c core_simps)
  from steps_trans [OF this spawn_steps [OF assms]] show ?thesis
    unfolding ensure_manager_window_def Let_def a_def [symmetric] b prod.case by (simp add: a s1)
qed

section \<open>Asks\<close>

lemma approved_steps:
  assumes "honest W" "resolve_approved_with_pending W ask d m = Some (reply, m')"
  shows "steps m m'"
proof -
  define a where "a = arrive W AtProbe m"
  define cold where "cold = (\<not> ask_fully_cached (ho_outside (wd_host W AtProbe)) ask (st_memory (mc_state a)))"
  define b where "b = (if cold then ensure_consent_window W (locked W AtCard (\<lambda>H. begin_pending H ask) a) else a)"
  define c where "c = arrive W AtResolve b"
  obtain r M where r: "resolve_for_ask (ho_outside (wd_host W AtResolve)) ask (st_memory (mc_state c)) = Some (r, M)"
    and m': "\<exists>e. m' = (if cold then locked W AtCardEnd (\<lambda>H. end_pending H (ask_dedupe_key ask) e) (on_state (\<lambda>st. st\<lparr>st_memory := M\<rparr>) c)
        else on_state (\<lambda>st. st\<lparr>st_memory := M\<rparr>) c)"
    using assms(2) [unfolded resolve_approved_with_pending_def Let_def, folded a_def, folded cold_def, folded b_def, folded c_def]
    by (auto split: option.splits)
  have "steps m a" using assms(1) by (auto simp: a_def)
  also have "steps a b"
  proof -
    have "steps a (locked W AtCard (\<lambda>H. begin_pending H ask) a)" by (rule locked_op [OF assms(1)]) (rule apply_daemon_op.simps(6) [symmetric])
    from steps_trans [OF this ensure_consent_steps [OF assms(1)]] show ?thesis by (simp add: b_def)
  qed
  also have "steps b c" using assms(1) by (auto simp: c_def)
  also have "steps c (on_state (\<lambda>st. st\<lparr>st_memory := M\<rparr>) c)" by (intro r_into_rtranclp MemoryStep)
  also have "steps (on_state (\<lambda>st. st\<lparr>st_memory := M\<rparr>) c) m'"
  proof -
    obtain e where "m' = (if cold then locked W AtCardEnd (\<lambda>H. end_pending H (ask_dedupe_key ask) e) (on_state (\<lambda>st. st\<lparr>st_memory := M\<rparr>) c)
        else on_state (\<lambda>st. st\<lparr>st_memory := M\<rparr>) c)" using m' by blast
    moreover have "steps (on_state (\<lambda>st. st\<lparr>st_memory := M\<rparr>) c)
        (locked W AtCardEnd (\<lambda>H. end_pending H (ask_dedupe_key ask) e) (on_state (\<lambda>st. st\<lparr>st_memory := M\<rparr>) c))"
      by (rule locked_op [OF assms(1)]) (rule apply_daemon_op.simps(7) [symmetric])
    ultimately show ?thesis by simp
  qed
  finally show ?thesis .
qed

lemma rule_hit_steps:
  assumes "honest W" "handle_rule_hit W ask hit declared m = Some (msg, m')"
  shows "steps m m'"
proof (cases "rh_decide hit")
  case DenyRule
  then show ?thesis using assms
    by (auto simp: handle_rule_hit_def core_simps intro!: locked_window)
next
  case ApproveRule
  then show ?thesis using assms approved_steps [OF assms(1)]
    by (auto simp: handle_rule_hit_def split: option.splits WaiterReply.splits)
qed

lemma enqueue_steps:
  assumes "honest W" shows "steps m (snd (enqueue_ask W tx ask m))"
proof -
  define a where "a = arrive W AtSubmit m"
  obtain result i st where r: "submit_ask (wd_host W AtSubmit) ask tx (mc_state a) = ((result, i), st)"
    by (metis surj_pair)
  have "steps m a" using assms by (auto simp: a_def)
  also have "steps a (a\<lparr>mc_state := st\<rparr>)"
    using daemon_steps [of a "wd_host W AtSubmit" "Submit ask tx"] by (simp add: on_state_def r)
  also have "steps (a\<lparr>mc_state := st\<rparr>) (ensure_consent_window W (if result = NewEntry then locked W AtRaise
      (\<lambda>H st. if any_consent_focused st then st else initiate_consent_restart H st) (a\<lparr>mc_state := st\<rparr>) else a\<lparr>mc_state := st\<rparr>))"
    using steps_trans [OF locked_window ensure_consent_steps [OF assms]] assms ensure_consent_steps [OF assms]
    by (simp add: core_simps)
  finally show ?thesis unfolding enqueue_ask_def Let_def a_def [symmetric] r prod.case by simp
qed

lemma handle_ask_steps:
  assumes "honest W" "handle_ask W tx ask m = Some (disposition, m')"
  shows "steps m m'"
proof -
  define a where "a = arrive W AtApproval m"
  define b where "b = arrive W AtRules a"
  define c where "c = arrive W AtNested b"
  have a: "steps m a" using assms by (auto simp: a_def)
  have b: "steps m b" using assms by (auto simp: b_def intro: steps_trans [OF a])
  have c: "steps m c" using assms by (auto simp: c_def intro: steps_trans [OF b])
  have e: "handle_ask W tx ask m = (if \<not> ignore_remembered ask \<and> has_cached_approval ask (mc_state a)
      then map_option (\<lambda>(reply, m). (Resolved (waiter_reply_to_daemon_msg reply (declared_by ask)), m))
          (resolve_approved_with_pending W ask ApproveCached a)
      else (case evaluate_rules_for_ask (mc_files b) ask (mc_state b) of
          Some hit \<Rightarrow> map_option (\<lambda>(msg, m). (Resolved msg, m)) (handle_rule_hit W ask hit (declared_by ask) b)
        | None \<Rightarrow> if nested_run_may_skip_window (wd_host W AtNested) ask (mc_state c)
            then map_option (\<lambda>(reply, m). (Resolved (waiter_reply_to_daemon_msg reply (declared_by ask)), m))
              (resolve_approved_with_pending W ask ApproveCached c)
            else Some (enqueue_ask W tx ask c)))"
    unfolding handle_ask_def Let_def a_def b_def c_def by (rule refl)
  show ?thesis
    using assms(2) enqueue_steps [OF assms(1), of c tx ask] steps_trans [OF c]
      approved_steps [OF assms(1)] steps_trans [OF a] rule_hit_steps [OF assms(1)] steps_trans [OF b]
    unfolding e by (auto split: if_splits option.splits)
qed

section \<open>Requests\<close>

lemma reload_steps:
  assumes "honest W" shows "steps m (reload W m)"
proof -
  let ?a = "arrive W AtReload m"
  have "atomic ?a (?a\<lparr>mc_state := reload_rules_if_changed (wd_host W AtReload) (mc_files ?a) (mc_state ?a), mc_files := mc_files ?a\<rparr>)"
    by (rule RulesStep [where op = ReloadOp]) simp
  moreover have "?a\<lparr>mc_state := st, mc_files := mc_files ?a\<rparr> = ?a\<lparr>mc_state := st\<rparr>" for st by simp
  ultimately show ?thesis using steps_trans [OF arrive_steps [OF assms]] by (auto simp: reload_def Let_def)
qed

lemma rules_steps: "apply_rule_op x (mc_state m) (mc_files m) = (r, st, E) \<Longrightarrow> steps m (m\<lparr>mc_state := st, mc_files := E\<rparr>)"
  by (cases x) (auto intro: RulesStep)

lemma mutate_steps:
  assumes "honest W" "\<And>st E. \<exists>x r. apply_rule_op x st E = (r, snd (f st E))"
  shows "steps m (snd (mutate W f m))"
proof -
  let ?a = "arrive W AtAct m"
  obtain r st E where f: "f (mc_state ?a) (mc_files ?a) = (r, st, E)" by (metis surj_pair)
  then obtain x r' where "apply_rule_op x (mc_state ?a) (mc_files ?a) = (r', st, E)"
    using assms(2) [of "mc_state ?a" "mc_files ?a"] by auto
  from steps_trans [OF arrive_steps [OF assms(1)] rules_steps [OF this]] show ?thesis
    by (simp add: mutate_def Let_def f)
qed

lemma mutation_steps:
  assumes "honest W" "rule_mutation S H msg = Some f"
  shows "steps m (snd (mutate W f m))"
proof (rule mutate_steps [OF assms(1)])
  fix st :: "'a State" and E
  have "\<exists>op. f st E = apply_rule_op (se_admin S, H, op) st E"
  proof (cases msg)
    case (AddRule r)
    then show ?thesis using assms(2) by (intro exI [of _ "AddOp r"]) simp
  next
    case (UpdateRule e r)
    then show ?thesis using assms(2) by (intro exI [of _ "UpdateOp e r"]) simp
  next
    case (DeleteRule e)
    then show ?thesis using assms(2) by (intro exI [of _ "DeleteOp e"]) simp
  next
    case (SetRuleEnabled e b)
    then show ?thesis using assms(2) by (intro exI [of _ "EnableOp e b"]) simp
  qed (use assms(2) in simp_all)
  then obtain op where "apply_rule_op (se_admin S, H, op) st E = f st E" by metis
  then show "\<exists>x r. apply_rule_op x st E = (r, snd (f st E))" by (metis prod.collapse)
qed

lemma add_wasm_steps:
  assumes "honest W"
  shows "steps m (snd (mutate W (add_wasm_rule A H name bs wraps trained allow) m))"
proof (rule mutate_steps [OF assms])
  fix st :: "'a State" and E
  show "\<exists>x r. apply_rule_op x st E = (r, snd (add_wasm_rule A H name bs wraps trained allow st E))"
    by (rule exI [of _ "(A, H, AddWasmOp name bs wraps trained allow)"]) (simp add: map_prod_def split_beta)
qed

lemma act_steps:
  assumes "honest W" "\<And>st. core (snd (f (wd_host W AtAct) st)) = core st"
  shows "steps m (snd (act W f m))"
  using steps_trans [OF arrive_steps [OF assms(1)] window_steps] assms(2) by (simp add: act_def Let_def split_beta)

lemma core_shown: "core (snd (show_window_reply H st)) = core st" "core (snd (show_viewer_reply H st)) = core st"
  by (simp_all add: show_window_reply_def show_viewer_reply_def Let_def core_simps)

lemma remove_link_core:
  "remove_link_device L ok H nickname c st = (r, c', st') \<Longrightarrow> core st' = core st"
  by (auto simp: remove_link_device_def core_simps split: prod.splits sum.splits option.splits if_splits)

lemma link_steps: "core st = core (mc_state m) \<Longrightarrow> steps m (m\<lparr>mc_link := c, mc_state := st\<rparr>)"
  using steps_trans [OF one_step [OF LinkStep [of m c]] window_steps] by simp

lemma request_steps:
  assumes "honest W" shows "steps m (snd (handle_request S W msg m))"
proof -
  have self: "steps m (snd (mutation_reply S r, m'))" if "steps m m'" for r :: "admin_error + unit" and m' using that by simp
  have other: "steps m (snd (case rule_mutation S (wd_host W AtAct) msg of
      Some f \<Rightarrow> let (r, m) = mutate W f m in (mutation_reply S r, m) | None \<Rightarrow> (ErrMsg ONE_SHOT_ERROR, m)))"
    using mutation_steps [OF assms] by (auto simp: split_beta Let_def split: option.split)
  show ?thesis
  proof (cases msg)
    case Ping
    then show ?thesis using act_steps [OF assms] by (simp add: handle_request_def core_simps)
  next
    case ShowWindow
    then show ?thesis using act_steps [OF assms] by (simp add: handle_request_def core_shown)
  next
    case ShowViewer
    then show ?thesis using act_steps [OF assms] by (simp add: handle_request_def core_shown)
  next
    case Shutdown
    then show ?thesis using act_steps [OF assms] by (simp add: handle_request_def core_simps)
  next
    case ListRules
    then show ?thesis using act_steps [OF assms] by (simp add: handle_request_def)
  next
    case LinkPair
    then show ?thesis using one_step [OF LinkStep [of m]]
      by (simp add: handle_request_def split: prod.split sum.split)
  next
    case LinkList
    then show ?thesis by (simp add: handle_request_def split: sum.split)
  next
    case (LinkRemove nickname)
    let ?a = "arrive W AtAct m"
    obtain r c st where r: "remove_link_device (se_crates S) (se_registry_writes S) (wd_host W AtAct) nickname (mc_link ?a) (mc_state ?a) = (r, c, st)"
      by (metis surj_pair)
    from steps_trans [OF arrive_steps [OF assms] link_steps [OF remove_link_core [OF this]]] show ?thesis
      by (simp add: LinkRemove handle_request_def Let_def r)
  next
    case (AddWasmRule name path wraps trained allow)
    show ?thesis
    proof (cases "read_wasm_module_bytes S path")
      case (Inr bs)
      from add_wasm_steps [OF assms, of m "se_admin S" "wd_host W AtAct" name bs wraps trained allow] show ?thesis
        by (auto simp: AddWasmRule Inr handle_request_def split: prod.split sum.split)
    qed (simp add: AddWasmRule handle_request_def)
  qed (use other in \<open>simp_all add: handle_request_def\<close>)
qed

lemma message_steps: "honest W \<Longrightarrow> steps m (snd (handle_message S W msg m))"
  using steps_trans [OF reload_steps request_steps] by (simp add: handle_message_def)

section \<open>Connections\<close>

lemma streamed_steps:
  assumes "honest W" shows "steps m (streamed_mutation S W tx msg m)"
proof (cases "rule_mutation S (wd_host W AtAct) msg")
  case (Some f)
  have "steps m (snd (mutate W f m))" by (rule mutation_steps [OF assms Some])
  moreover have "steps (snd (mutate W f m)) (on_state (send_to tx reply H) (snd (mutate W f m)))" for reply H
    unfolding on_state_def by (rule window_steps) (simp add: core_simps)
  ultimately show ?thesis
    by (auto simp: streamed_mutation_def apply_streaming_rule_msg_def Some split_beta Let_def intro: steps_trans)
qed (simp add: streamed_mutation_def apply_streaming_rule_msg_def)

lemma consent_message_steps:
  assumes "honest W" shows "steps m (snd (consent_message S W i tx msg m))"
proof (cases msg)
  case (ConsentDecision key d reason scope)
  have "steps m (locked W AtAct (\<lambda>H. resolve H key d reason scope) m)"
    by (rule locked_op [OF assms]) (rule apply_daemon_op.simps(2) [symmetric])
  then show ?thesis by (simp add: ConsentDecision consent_message_def)
next
  case ConsentWindowDismissed
  have "steps m (locked W AtAct (\<lambda>H. deny_all_awaiting H ''prompt window closed'') m)"
    by (rule locked_op [OF assms]) (rule apply_daemon_op.simps(4) [symmetric])
  then show ?thesis by (simp add: ConsentWindowDismissed consent_message_def)
next
  case (ConsentWindowFocus b)
  then show ?thesis using locked_window [OF assms] by (simp add: consent_message_def core_simps)
qed (use streamed_steps [OF assms] ensure_manager_steps [OF assms] in \<open>simp_all add: consent_message_def\<close>)

lemma manager_message_steps: "honest W \<Longrightarrow> steps m (snd (manager_message S W tx msg m))"
  using streamed_steps [of W] by (cases msg) (simp_all add: manager_message_def)

lemma read_loop_steps:
  assumes "\<And>W msg m. honest W \<Longrightarrow> steps m (snd (f W msg m))" "\<forall>(W, r) \<in> set reads. honest W"
  shows "steps m (read_loop S f reads m)"
  using assms(2)
proof (induction reads arbitrary: m)
  case (Cons p reads)
  obtain W r where p: "p = (W, r)" by (cases p)
  show ?case
  proof (cases r)
    case (Line line)
    show ?thesis
    proof (cases "trim line = [] \<or> se_json S (trim line) = None")
      case True
      then show ?thesis using Cons by (auto simp: p Line)
    next
      case False
      then obtain msg where msg: "trim line \<noteq> []" "se_json S (trim line) = Some msg" by auto
      obtain more_to_come m1 where f: "f W msg m = (more_to_come, m1)" by fastforce
      have "steps m m1" using assms(1) [of W m msg] Cons.prems f by (simp add: p)
      moreover have "steps m1 (read_loop S f reads m1)" using Cons by simp
      ultimately show ?thesis by (cases more_to_come) (auto simp: p Line msg f intro: steps_trans)
    qed
  qed (simp_all add: p)
qed simp

lemma attach_core:
  "core (send_to tx msg H (snd (attach_consent_window H pid tx st))) = core st"
  "core (send_to tx msg H (snd (attach_manager_window H pid tx st))) = core st"
  by (simp_all add: core_simps)

lemma consent_connection_steps:
  assumes "honest W" "honest V" "\<forall>(W, r) \<in> set reads. honest W"
  shows "steps m (handle_consent_window_connection S W V pid tx reads m)"
proof -
  define a where "a = arrive W AtAttach m"
  obtain i snap st where at: "attach_consent_window (wd_host W AtAttach) pid tx (mc_state a) = ((i, snap), st)" by (metis surj_pair)
  define b where "b = a\<lparr>mc_state := send_to tx (ConsentUpdate snap) (wd_host W AtAttach) st\<rparr>"
  define c where "c = read_loop S (\<lambda>W. consent_message S W i tx) reads b"
  define d where "d = arrive V AtRestart (locked V AtDetach (\<lambda>H. detach_consent_window i) c)"
  obtain pending st' where tk: "take_consent_restart_pending (mc_state d) = (pending, st')" by fastforce
  have "steps m a" using assms(1) by (auto simp: a_def)
  also have "steps a b"
    unfolding b_def using attach_core(1) [of tx "ConsentUpdate snap" "wd_host W AtAttach" pid "mc_state a"] at
    by (intro window_steps) simp
  also have "steps b c" unfolding c_def by (rule read_loop_steps [OF consent_message_steps assms(3)])
  also have "steps c (locked V AtDetach (\<lambda>H. detach_consent_window i) c)"
    by (rule locked_window [OF assms(2)]) (simp add: core_simps)
  also have "steps (locked V AtDetach (\<lambda>H. detach_consent_window i) c) d" unfolding d_def using assms(2) by auto
  also have "steps d (d\<lparr>mc_state := st'\<rparr>)"
    using core_take_restart [of "mc_state d"] tk by (intro window_steps) simp
  also have "steps (d\<lparr>mc_state := st'\<rparr>) (if pending then ensure_consent_window V (d\<lparr>mc_state := st'\<rparr>)
      else locked V AtAct hide_window (d\<lparr>mc_state := st'\<rparr>))"
    using ensure_consent_steps [OF assms(2)] locked_window [OF assms(2), of hide_window] by (simp add: core_simps)
  finally show ?thesis
    unfolding handle_consent_window_connection_def Let_def a_def [symmetric] at prod.case b_def [symmetric] c_def [symmetric]
      d_def [symmetric] tk .
qed

lemma manager_connection_steps:
  assumes "honest W" "honest V" "\<forall>(W, r) \<in> set reads. honest W"
  shows "steps m (handle_manager_window_connection S W V pid tx reads m)"
proof -
  define a where "a = arrive W AtAttach m"
  obtain i snap st where at: "attach_manager_window (wd_host W AtAttach) pid tx (mc_state a) = ((i, snap), st)" by (metis surj_pair)
  define b where "b = a\<lparr>mc_state := send_to tx (ConsentUpdate snap) (wd_host W AtAttach) st\<rparr>"
  define c where "c = read_loop S (\<lambda>W. manager_message S W tx) reads b"
  have "steps m a" using assms(1) by (auto simp: a_def)
  also have "steps a b"
    unfolding b_def using attach_core(2) [of tx "ConsentUpdate snap" "wd_host W AtAttach" pid "mc_state a"] at
    by (intro window_steps) simp
  also have "steps b c" unfolding c_def by (rule read_loop_steps [OF manager_message_steps assms(3)])
  also have "steps c (locked V AtDetach (\<lambda>H. detach_manager_window i) c)"
    by (rule locked_window [OF assms(2)]) (simp add: core_simps)
  finally show ?thesis
    unfolding handle_manager_window_connection_def Let_def a_def [symmetric] at prod.case b_def [symmetric] c_def [symmetric] .
qed

lemma park_steps:
  assumes "honest V" shows "steps m (snd (park_ask_and_watch V key i spawned watched m))"
proof -
  have "steps m (locked V AtWithdraw (\<lambda>H. withdraw_waiter H key i) m)"
    by (rule locked_op [OF assms]) (rule apply_daemon_op.simps(5) [symmetric])
  then show ?thesis by (simp add: park_ask_and_watch_def)
qed

lemma ask_connection_steps:
  assumes "honest W" "honest (cn_end C)" "handle_ask_connection S P W C ask m = Some (r, m')"
  shows "steps m m'"
proof (cases "adopt_peer_provenance P ask")
  case (Inl e)
  then show ?thesis using assms(3) by (auto simp: handle_ask_connection_def)
next
  case (Inr ask')
  then obtain disposition m1 where h: "handle_ask W (cn_tx C) ask' m = Some (disposition, m1)"
    using assms(3) by (auto simp: handle_ask_connection_def split: option.splits)
  have "m' = m1 \<or> (\<exists>key i. m' = snd (park_ask_and_watch (cn_end C) key i (cn_reply_thread C) (cn_watch C) m1))"
  proof (cases disposition)
    case (Enqueued key i declared)
    then have "m' = snd (park_ask_and_watch (cn_end C) key i (cn_reply_thread C) (cn_watch C) m1)"
      using assms(3) Inr h by (simp add: handle_ask_connection_def)
    then show ?thesis by blast
  qed (use assms(3) Inr h in \<open>simp add: handle_ask_connection_def\<close>)
  then show ?thesis using handle_ask_steps [OF assms(1) h] park_steps [OF assms(2), of m1] steps_trans by blast
qed

definition honest_connection :: "'m connection \<Rightarrow> bool" where
  "honest_connection C \<longleftrightarrow> honest (cn_end C) \<and> (\<forall>(W, r) \<in> set (cn_reads C). honest W)"

lemma connection_steps:
  assumes "honest W" "honest_connection C" "handle_connection S P W C first m = Some (r, m')"
  shows "steps m m'"
proof -
  have C: "honest (cn_end C)" "\<forall>(W, r) \<in> set (cn_reads C). honest W" using assms(2) by (auto simp: honest_connection_def)
  show ?thesis
  proof (cases "pv_same_user P = Some True \<and> (\<exists>line msg. first = Line line \<and> se_json S (trim line) = Some msg)")
    case False
    then have "m' = m" using assms(3) by (auto simp: handle_connection_def split: if_splits read_result.splits option.splits)
    then show ?thesis by simp
  next
    case True
    then obtain line msg where msg: "pv_same_user P = Some True" "first = Line line" "se_json S (trim line) = Some msg" by blast
    have reply: "steps m (snd (handle_message S W msg m))" by (rule message_steps [OF assms(1)])
    show ?thesis
    proof (cases msg)
      case (ConsentWindowAttach pid)
      then show ?thesis using assms(3) consent_connection_steps [OF assms(1) C] by (auto simp: handle_connection_def msg)
    next
      case (ManagerWindowAttach pid)
      then show ?thesis using assms(3) manager_connection_steps [OF assms(1) C] by (auto simp: handle_connection_def msg)
    next
      case (AskMsg ask)
      then show ?thesis using assms(3) ask_connection_steps [OF assms(1) C(1)] steps_trans [OF reload_steps [OF assms(1)]]
        by (auto simp: handle_connection_def msg)
    next
      case ShowWindow
      then show ?thesis using assms(3) reply steps_trans [OF reply ensure_consent_steps [OF assms(1)]]
        by (auto simp: handle_connection_def msg split_beta split: if_splits)
    next
      case ShowViewer
      then show ?thesis using assms(3) reply steps_trans [OF reply ensure_manager_steps [OF assms(1)]]
        by (auto simp: handle_connection_def msg split_beta split: if_splits)
    qed (use assms(3) reply msg in \<open>auto simp: handle_connection_def split_beta split: if_splits\<close>)
  qed
qed

lemma core_tick: "core (snd (tick_state H ssh st)) = core (snd (prune_expired_secrets st))"
  by (simp add: tick_state_def Let_def split_beta broadcast_consent_exit_please_def core_simps)

lemma tick_steps:
  assumes "honest W" shows "steps m (main_tick W ssh m)"
proof -
  define a where "a = arrive W AtAct m"
  obtain up st where t: "tick_state (wd_host W AtAct) ssh (mc_state a) = (up, st)" by fastforce
  have "steps m a" using assms by (auto simp: a_def)
  also have "steps a (on_state (\<lambda>st. snd (prune_expired_secrets st)) a)"
    using daemon_steps [of a "wd_host W AtAct" Prune_Secrets] by (simp add: on_state_def)
  also have "steps (on_state (\<lambda>st. snd (prune_expired_secrets st)) a) (a\<lparr>mc_state := st\<rparr>)"
    using window_steps [of st "on_state (\<lambda>st. snd (prune_expired_secrets st)) a"] core_tick [of "wd_host W AtAct" ssh "mc_state a"]
    by (simp add: on_state_def t)
  finally have s: "steps m (a\<lparr>mc_state := st\<rparr>)" .
  show ?thesis unfolding main_tick_def Let_def a_def [symmetric] t prod.case
    using s steps_trans [OF s ensure_consent_steps [OF assms]] by simp
qed

section \<open>The books\<close>

text \<open>What the invariants of the queue read of the state.\<close>

definition desk :: "'m State \<Rightarrow> _" where
  "desk st = (st_queue st, st_jobs st, st_waiter_next_id st, recorded (st_out st), st_approvals st, st_run_session_releases st)"

definition sound :: "'m State \<Rightarrow> bool" where
  "sound st \<longleftrightarrow> conserved st \<and> consented st"

lemma sound_desk: "desk a = desk b \<Longrightarrow> sound a = sound b"
proof -
  assume d: "desk a = desk b"
  then have "sum_list (map effect_answers (st_out a)) = sum_list (map effect_answers (st_out b))"
    "sum_list (map effect_withdraws (st_out a)) = sum_list (map effect_withdraws (st_out b))"
    using sum_recorded [of "st_out a"] sum_recorded [of "st_out b"] by (simp_all add: desk_def)
  moreover have out: "Landed r x p \<in> set (st_out a) \<longleftrightarrow> Landed r x p \<in> set (st_out b)" for r x p
    using d landed_recorded(1) [of r x p "st_out a"] landed_recorded(1) [of r x p "st_out b"] by (simp add: desk_def)
  moreover have "landed r x (st_out a) \<longleftrightarrow> landed r x (st_out b)" for r x using out by (simp add: landed_def)
  ultimately show ?thesis using d
    by (simp add: desk_def sound_def conserved_def account_def parked_def resolving_def answered_def withdrawn_def
        consented_def keyed_def approvals_landed_def releases_landed_def)
qed

lemma desk_core: "core a = core b \<Longrightarrow> desk a = desk b"
  using core_retrieve [of a b] by (simp add: desk_def)

lemma desk_published [simp]: "desk (broadcast_consent_update H st) = desk st"
  by (rule desk_core) (simp add: core_simps)

lemma desk_updates [simp]:
  "desk (st\<lparr>st_rules := rs\<rparr>) = desk st"
  "desk (st\<lparr>st_rule_modules := ms\<rparr>) = desk st" "desk (st\<lparr>st_wasm_refusals := ws\<rparr>) = desk st"
  "desk (st\<lparr>st_scope_refusals := ss\<rparr>) = desk st" "desk (st\<lparr>st_rules_loaded_at := t\<rparr>) = desk st"
  "desk (st\<lparr>st_scope_config_loaded_at := t\<rparr>) = desk st" "desk (st\<lparr>st_memory := M\<rparr>) = desk st"
  "desk (st\<lparr>st_link_nonces := n\<rparr>) = desk st"
  by (simp_all add: desk_def)

lemma desk_install: "install_rule_module E rule st = Inr st' \<Longrightarrow> desk st' = desk st"
  by (auto simp: install_rule_module_def split: sum.splits)

lemma desk_restore: "desk (restore_rule_module_after_failed_edit E previous refusal st) = desk st"
  using desk_install [of E previous st]
  by (auto simp: restore_rule_module_after_failed_edit_def Let_def split: sum.split option.split)

lemma desk_reload: "reload_rules_after_edit E path st = Inr st' \<Longrightarrow> desk st' = desk st"
  by (auto simp: reload_rules_after_edit_def split: sum.splits)

lemma desk_publish: "reload_and_publish H path st E = (r, st', E') \<Longrightarrow> desk st' = desk st"
  using desk_reload by (auto simp: reload_and_publish_def split: sum.splits)

lemma desk_admit:
  assumes "admit_rule A H rule st E = (r, st', E')" shows "desk st' = desk st"
proof (cases "list_ex (\<lambda>r. ru_id r = ru_id rule) (st_rules st)")
  case False
  show ?thesis
  proof (cases "install_rule_module E rule st")
    case (Inr st1)
    note d = desk_install [OF Inr]
    show ?thesis
    proof (cases "st_rules_path st1")
      case None
      then show ?thesis using assms False d by (auto simp: admit_rule_def Inr)
    next
      case (Some path)
      obtain e E1 where e: "edit_rule A path (AddEdit rule) E = (e, E1)" by fastforce
      show ?thesis using assms False d desk_publish [of H path st1 E1 r st' E'] by (cases e) (auto simp: admit_rule_def Inr Some e)
    qed
  qed (use assms False in \<open>simp add: admit_rule_def\<close>)
qed (use assms in \<open>simp add: admit_rule_def\<close>)

lemma desk_update_rule:
  assumes "update_rule_if_unchanged A H old rule st E = (r, st', E')" shows "desk st' = desk st"
proof (cases "refuse_broken_wrap_scope E (ru_wraps rule) st = None \<and> refuse_broken_patterns rule = None
    \<and> ru_id old = ru_id rule \<and> ensure_cached_rule_is_current old st = None")
  case False
  then show ?thesis using assms by (auto simp: update_rule_if_unchanged_def split: option.splits if_splits)
next
  case True
  then have eq: "ru_id old = ru_id rule" by simp
  show ?thesis
  proof (cases "install_rule_module E rule st")
    case (Inr st1)
    note d = desk_install [OF Inr]
    show ?thesis
    proof (cases "st_rules_path st1")
      case None
      then show ?thesis using assms True d by (auto simp: update_rule_if_unchanged_def Let_def Inr)
    next
      case (Some path)
      obtain e E1 where e: "edit_rule A path (UpdateEdit old rule) E = (e, E1)" by fastforce
      show ?thesis using assms True d desk_publish [of H path st1 E1 r st' E']
        by (cases e) (auto simp: update_rule_if_unchanged_def Let_def Inr Some e desk_restore)
    qed
  qed (use assms True in \<open>simp add: update_rule_if_unchanged_def Let_def\<close>)
qed

lemma desk_rule_op:
  assumes "apply_rule_op (A, H, op) st E = (r, st', E')" shows "desk st' = desk st"
proof (cases op)
  case (AddOp rule)
  then show ?thesis using assms desk_admit by (auto simp: add_rule_def split: option.splits if_splits)
next
  case (UpdateOp old rule)
  then show ?thesis using assms desk_update_rule by simp
next
  case (DeleteOp old)
  then show ?thesis using assms desk_reload
    by (auto simp: delete_rule_if_unchanged_def Let_def split: option.splits sum.splits prod.splits)
next
  case (EnableOp old b)
  then show ?thesis using assms desk_publish
    by (auto simp: set_rule_enabled_if_unchanged_def split: option.splits sum.splits prod.splits)
next
  case (AddWasmOp n bs ws ss allow)
  obtain r' where "add_wasm_rule A H n bs ws ss allow st E = (r', st', E')"
    using assms by (cases "add_wasm_rule A H n bs ws ss allow st E") (simp add: AddWasmOp)
  then show ?thesis using desk_admit
    by (auto simp: add_wasm_rule_def Let_def split: option.splits sum.splits prod.splits if_splits)
next
  case ReloadOp
  then show ?thesis using assms
    by (auto simp: reload_rules_if_changed_def take_rules_def stamp_rules_def split: option.splits if_splits sum.splits)
qed (use assms in simp)

lemma atomic_sound: "atomic m m' \<Longrightarrow> sound (mc_state m) \<Longrightarrow> sound (mc_state m')"
proof (induction rule: atomic.induct)
  case (DaemonStep m H op)
  then show ?case by (simp add: on_state_def sound_def op_conserved op_consented)
next
  case (RulesStep A H op m r st E)
  then show ?case using sound_desk [OF desk_rule_op [OF RulesStep(1)]] by simp
next
  case (WindowStep st m)
  then show ?case using sound_desk [OF desk_core [OF WindowStep(1)]] by simp
qed (simp_all add: on_state_def sound_desk [OF desk_updates(7)] sound_desk [OF desk_updates(8)])

lemma steps_sound: "steps m m' \<Longrightarrow> sound (mc_state m) \<Longrightarrow> sound (mc_state m')"
  by (induction rule: rtranclp_induct) (auto intro: atomic_sound)

definition started :: "'m machine \<Rightarrow> bool" where
  "started m \<longleftrightarrow> (\<exists>E now M. (\<exists>path cfg. mc_state m = with_rules_path_and_config E now M path cfg) \<or> mc_state m = new_state now M)"

lemma started_sound:
  fixes m :: "'m machine"
  shows "started m \<Longrightarrow> sound (mc_state m)"
proof -
  assume "started m"
  moreover have "desk (with_rules_path_and_config E now M path cfg) = desk (new_state now M :: 'm State)"
    for E :: "'m rules_env" and now M path cfg
  proof -
    have [simp]: "desk (st\<lparr>st_rules_path := p\<rparr>) = desk st" "desk (st\<lparr>st_scope_config := c\<rparr>) = desk st" for st :: "'m State" and p c
      by (simp_all add: desk_def)
    show ?thesis by (auto simp: with_rules_path_and_config_def Let_def take_rules_def stamp_rules_def split: sum.split)
  qed
  moreover have "sound (new_state now M :: 'm State)" for now M by (simp add: sound_def new_state_conserved new_state_consented)
  ultimately show ?thesis unfolding started_def using sound_desk by metis
qed

section \<open>Silent answers\<close>

lemma names_insert [simp]: "fst ` set (hm_insert k v q) = insert k (fst ` set q)"
  by (induction q) auto

lemma gather_names:
  "gather E ss (secs, needs, gs) M = Some (r, M') \<Longrightarrow> (case r of Inl reply \<Rightarrow> \<exists>m p. reply = ReplyErr m p
     | Inr (secs', needs', gs') \<Rightarrow> fst ` set secs' \<subseteq> fst ` set secs \<union> sk_name ` set ss \<and> set needs' \<subseteq> set needs \<union> set ss)"
proof (induction ss arbitrary: secs needs gs M)
  case (Cons s ss)
  show ?case
  proof (cases "cache_get E (ask_key s) M")
    case (Some v)
    then show ?thesis using Cons.IH [of "hm_insert (sk_name s) v secs" needs gs M] Cons.prems
      by (auto split: sum.splits)
  next
    case None
    obtain acq M1 where acq: "acquire_blocking E (ask_key s) M = Some (acq, M1)"
      using Cons.prems None by (cases "acquire_blocking E (ask_key s) M") auto
    show ?thesis
    proof (cases acq)
      case (Resolver g)
      then show ?thesis using Cons.IH [of secs "needs @ [s]" "gs @ [g]" M1] Cons.prems None acq by (auto split: sum.splits)
    next
      case AcquiredReady
      show ?thesis
      proof (cases "cache_get E (ask_key s) M1")
        case (Some v)
        then show ?thesis using Cons.IH [of "hm_insert (sk_name s) v secs" needs gs M1] Cons.prems None acq AcquiredReady
          by (auto split: sum.splits)
      qed (use Cons.prems None acq AcquiredReady in auto)
    qed (use Cons.prems None acq in auto)
  qed
qed auto

lemma store_names:
  "fst ` set (fst (store_values E vals ss (secs, M))) \<subseteq> fst ` set secs \<union> sk_name ` set ss"
proof (induction ss arbitrary: secs M)
  case (Cons s ss)
  show ?case
  proof (cases "hm_get vals (sk_name s)")
    case (Some v)
    then show ?thesis using Cons [of "hm_insert (sk_name s) v secs" "cache_put E (ask_key s) v (sk_ttl s) M"] by auto
  next
    case None
    then show ?thesis using Cons [of secs M] by auto
  qed
qed simp

lemma resolve_for_ask_answers:
  assumes "resolve_for_ask E ask M = Some (Decided d secs dev why, M')"
  shows "d = Approve \<and> fst ` set secs \<subseteq> sk_name ` set (secrets ask)"
proof -
  obtain r M1 where g: "gather E (secrets ask) ([], [], []) M = Some (r, M1)"
    using assms by (auto simp: resolve_for_ask_def split: option.splits)
  show ?thesis
  proof (cases r)
    case (Inl reply)
    then show ?thesis using assms g gather_names [OF g] by (auto simp: resolve_for_ask_def)
  next
    case (Inr x)
    obtain secs1 needs gs where x: "x = (secs1, needs, gs)" by (cases x)
    have n: "fst ` set secs1 \<subseteq> sk_name ` set (secrets ask)" "set needs \<subseteq> set (secrets ask)"
      using gather_names [OF g] by (auto simp: Inr x)
    have "fst ` set (fst (store_values E vals needs (secs1, M2))) \<subseteq> sk_name ` set (secrets ask)" for vals M2
      by (rule order_trans [OF store_names]) (use n in blast)
    then show ?thesis using assms g n(1)
      by (auto simp: resolve_for_ask_def Inr x Let_def split_beta split: if_splits sum.splits prod.splits)
        (metis (no_types, lifting) fst_conv image_eqI subset_iff)
  qed
qed

lemma approved_reply:
  assumes "resolve_approved_with_pending W ask d m = Some (Decided d' secs dev why, m')"
  shows "d' = d \<and> fst ` set secs \<subseteq> sk_name ` set (secrets ask)"
proof -
  obtain E M r M' where r: "resolve_for_ask E ask M = Some (r, M')"
    and d: "Decided d' secs dev why = map_decision (\<lambda>x. if x = Approve then d else x) r"
    using assms by (auto simp: resolve_approved_with_pending_def Let_def split: option.splits)
  then obtain x where x: "r = Decided x secs dev why" "d' = (if x = Approve then d else x)" by (cases r) auto
  with resolve_for_ask_answers [OF r [unfolded x(1)]] show ?thesis by simp
qed

lemma identity_wire [simp]: "wire_identity (wire_caller c) = caller_identity c"
  by (simp add: wire_identity_def wire_caller_def caller_identity_def)

text \<open>What an adopted ask says of its asker, when it carries secrets.\<close>

lemma adopted_wrap:
  assumes "adopt_peer_provenance P ask = Inr ask'" "secrets ask' \<noteq> []"
  obtains peer parent w where "pv_peer P = Some peer" "ask_subject ask = Wrap w"
    "callers ask' = map wire_caller (cc_frames (peer_chain P peer))" "parent \<in> set (cc_frames (peer_chain P peer))"
    "dk_anchor (ask_dedupe_key ask') = stamp_anchor (caller_identity parent) (dk_anchor (ask_dedupe_key ask))"
    "dk_wrap (ask_dedupe_key ask') = dk_wrap (ask_dedupe_key ask)" "secrets ask' = secrets ask"
    "ignore_remembered ask' = ignore_remembered ask" "nested_run ask' = nested_run ask"
proof -
  obtain peer where peer: "pv_peer P = Some peer" using assms(1) by (auto simp: adopt_peer_provenance_def split: option.splits)
  show thesis
  proof (cases "ask_subject ask")
    case (Wrap w)
    then obtain parent rest where "cc_frames (peer_chain P peer) = parent # rest"
      using assms(1) peer by (auto simp: adopt_peer_provenance_def Let_def split: list.splits)
    then show thesis using that [OF peer Wrap, of parent] assms(1) peer Wrap
      by (auto simp: adopt_peer_provenance_def Let_def callers_def secrets_def ignore_remembered_def nested_run_def stamp_subject_def)
  qed (use assms peer in \<open>auto simp: adopt_peer_provenance_def Let_def secrets_def stamp_subject_def split: list.splits\<close>)
qed

lemma scope_found:
  assumes "approval_scope_for approvals ask = Some p"
  shows "has_entry approvals (dk_wrap (ask_dedupe_key ask)) p
    \<and> (process_identity (dk_anchor (ask_dedupe_key ask)) = Some p \<or> p \<in> wire_identity ` set (drop 1 (callers ask)))"
proof -
  have "find Q xs = Some x \<Longrightarrow> Q x \<and> x \<in> set xs" for Q and xs :: "ProcessIdentity list" and x
    by (induction xs) (auto split: if_splits)
  then show ?thesis using assms by (fastforce simp: approval_scope_for_def Let_def split: option.splits if_splits)
qed

text \<open>The three ways to a silent answer.\<close>

lemma resolved_cases:
  assumes "handle_ask W tx ask m = Some (Resolved (DecisionMsg d), m')" "honest W" "dr_secrets d \<noteq> []"
  obtains (cached) m1 where "steps m m1" "steps m1 m'" "dr_decision d = ApproveCached" "\<not> ignore_remembered ask"
      "has_cached_approval ask (mc_state m1)" "fst ` set (dr_secrets d) \<subseteq> sk_name ` set (secrets ask)"
  | (rule) m1 hit where "steps m m1" "steps m1 m'" "evaluate_rules_for_ask (mc_files m1) ask (mc_state m1) = Some hit"
      "rh_decide hit = ApproveRule" "dr_decision d = ApproveAuto" "dr_rule_id d = Some (rh_rule_id hit)"
      "dr_approvers d = rh_approvals hit" "fst ` set (dr_secrets d) \<subseteq> sk_name ` set (secrets ask)"
  | (nested) m1 where "steps m m1" "steps m1 m'" "dr_decision d = ApproveCached"
      "nested_run_may_skip_window (wd_host W AtNested) ask (mc_state m1)" "fst ` set (dr_secrets d) \<subseteq> sk_name ` set (secrets ask)"
proof -
  define a where "a = arrive W AtApproval m"
  define b where "b = arrive W AtRules a"
  define c where "c = arrive W AtNested b"
  have a: "steps m a" using assms by (auto simp: a_def)
  have b: "steps m b" using assms by (auto simp: b_def intro: steps_trans [OF a])
  have c: "steps m c" using assms by (auto simp: c_def intro: steps_trans [OF b])
  let ?serve = "\<lambda>m. map_option (\<lambda>(reply, m). (Resolved (waiter_reply_to_daemon_msg reply (declared_by ask)), m))
      (resolve_approved_with_pending W ask ApproveCached m)"
  have e: "handle_ask W tx ask m = (if \<not> ignore_remembered ask \<and> has_cached_approval ask (mc_state a) then ?serve a
      else (case evaluate_rules_for_ask (mc_files b) ask (mc_state b) of
          Some hit \<Rightarrow> map_option (\<lambda>(msg, m). (Resolved msg, m)) (handle_rule_hit W ask hit (declared_by ask) b)
        | None \<Rightarrow> if nested_run_may_skip_window (wd_host W AtNested) ask (mc_state c) then ?serve c
            else Some (enqueue_ask W tx ask c)))"
    unfolding handle_ask_def Let_def a_def b_def c_def by (rule refl)
  have serve: "dr_decision d = ApproveCached \<and> fst ` set (dr_secrets d) \<subseteq> sk_name ` set (secrets ask) \<and> steps x m'"
    if served: "?serve x = Some (Resolved (DecisionMsg d), m')" for x
  proof -
    obtain reply where r: "resolve_approved_with_pending W ask ApproveCached x = Some (reply, m')"
      "DecisionMsg d = waiter_reply_to_daemon_msg reply (declared_by ask)" using served by (auto simp: map_option_eq_Some)
    then obtain d' secs dev why where "reply = Decided d' secs dev why" "dr_decision d = d'" "dr_secrets d = secs"
      by (cases reply) (auto simp: waiter_reply_to_daemon_msg_def)
    then show ?thesis using approved_reply [of W ask ApproveCached x d' secs dev why m'] approved_steps [OF assms(2) r(1)] r(1) by auto
  qed
  show thesis
  proof (cases "\<not> ignore_remembered ask \<and> has_cached_approval ask (mc_state a)")
    case True
    then have "?serve a = Some (Resolved (DecisionMsg d), m')" using assms(1) e True by simp
    with serve [OF this] True a show thesis by (intro cached [of a]) auto
  next
    case False
    note e = e [unfolded if_not_P [OF False]]
    show thesis
    proof (cases "evaluate_rules_for_ask (mc_files b) ask (mc_state b)")
      case (Some hit)
      have h: "handle_rule_hit W ask hit (declared_by ask) b = Some (DecisionMsg d, m')"
        using assms(1) e by (auto simp: Some)
      then have approve: "rh_decide hit = ApproveRule" using assms(3) by (cases "rh_decide hit") (auto simp: handle_rule_hit_def)
      then obtain d' secs dev why where "resolve_approved_with_pending W ask ApproveAuto b = Some (Decided d' secs dev why, m')"
        "dr_secrets d = secs" "dr_decision d = ApproveAuto" "dr_rule_id d = Some (rh_rule_id hit)" "dr_approvers d = rh_approvals hit"
        using h by (auto simp: handle_rule_hit_def split: option.splits WaiterReply.splits)
      with approved_reply [OF this(1)] rule_hit_steps [OF assms(2) h] b Some approve show thesis
        by (intro rule [of b hit]) auto
    next
      case None
      show thesis
      proof (cases "nested_run_may_skip_window (wd_host W AtNested) ask (mc_state c)")
        case True
        then have "?serve c = Some (Resolved (DecisionMsg d), m')" using assms(1) e by (simp add: None)
        with serve [OF this] True c show thesis by (intro nested [of c]) auto
      next
        case False
        then show thesis using assms(1) e by (auto simp: None enqueue_ask_def Let_def split_beta)
      qed
    qed
  qed
qed

text \<open>An ask of a scoped agent is answered at once only from an approval of the process it claims.\<close>

lemma agent_answers:
  assumes "handle_ask W tx ask m = Some (Resolved (DecisionMsg d), m')" "ask_subject ask = ScopedAgent a"
  shows "dr_secrets d = []" "dr_decision d = ApproveCached"
    "\<exists>i. process_identity (dk_anchor (ask_dedupe_key ask)) = Some i
      \<and> has_entry (st_approvals (mc_state (arrive W AtApproval m))) (dk_wrap (ask_dedupe_key ask)) i"
proof -
  define x where "x = arrive W AtApproval m"
  have parts: "secrets ask = []" "callers ask = []" "\<not> nested_run ask"
    by (simp_all add: secrets_def callers_def nested_run_def assms(2))
  have rules: "evaluate_rules_for_ask E ask st = None" for E st by (simp add: evaluate_rules_for_ask_def assms(2))
  have cached: "has_cached_approval ask (mc_state x)"
    and served: "map_option (\<lambda>(reply, m). (Resolved (waiter_reply_to_daemon_msg reply (declared_by ask)), m))
      (resolve_approved_with_pending W ask ApproveCached x) = Some (Resolved (DecisionMsg d), m')"
    using assms(1) parts(3)
    by (auto simp: handle_ask_def rules nested_run_may_skip_window_def enqueue_ask_def x_def [symmetric] Let_def split_beta
        split: if_splits)
  obtain reply where r: "resolve_approved_with_pending W ask ApproveCached x = Some (reply, m')"
    "DecisionMsg d = waiter_reply_to_daemon_msg reply (declared_by ask)" using served by (auto simp: map_option_eq_Some)
  then obtain d' secs dev why where reply: "reply = Decided d' secs dev why" "dr_decision d = d'" "dr_secrets d = secs"
    by (cases reply) (auto simp: waiter_reply_to_daemon_msg_def)
  from approved_reply [OF r(1) [unfolded reply(1)]] show "dr_secrets d = []" "dr_decision d = ApproveCached"
    using reply(2,3) parts(1) by auto
  obtain p where "approval_scope_for (st_approvals (mc_state x)) ask = Some p" using cached by (auto simp: has_cached_approval_def)
  from scope_found [OF this] show "\<exists>i. process_identity (dk_anchor (ask_dedupe_key ask)) = Some i
      \<and> has_entry (st_approvals (mc_state (arrive W AtApproval m))) (dk_wrap (ask_dedupe_key ask)) i"
    using parts(2) by (auto simp: x_def)
qed

lemma answered_ask:
  assumes "handle_ask_connection S P W C ask m = Some (Answered (DecisionMsg d), m')"
  obtains seen where "adopt_peer_provenance P ask = Inr seen" "handle_ask W (cn_tx C) seen m = Some (Resolved (DecisionMsg d), m')"
proof -
  obtain seen where adopt: "adopt_peer_provenance P ask = Inr seen"
    using assms by (cases "adopt_peer_provenance P ask") (auto simp: handle_ask_connection_def reply_outcome_def split: if_splits)
  moreover have "handle_ask W (cn_tx C) seen m = Some (Resolved (DecisionMsg d), m')"
    using assms adopt
    by (auto simp: handle_ask_connection_def reply_outcome_def park_ask_and_watch_def split: option.splits AskDisposition.splits if_splits)
  ultimately show ?thesis using that by blast
qed

section \<open>Properties\<close>

text \<open>
  C1. When the server answers an ask with secrets and no prompt, whatever other threads and
  clients do meanwhile, then at some moment of the request: a user had approved and asked to
  remember an ask of the same wrap for a process that is a real ancestor of the peer; or a rule
  of that moment approved the ask as the kernel describes it, and the answer names that rule; or
  the ask is a nested run and each of its references was released by an approval to its own run
  session. The answer carries only variables the ask named.
\<close>

theorem silent_answers_were_consented_to:
  assumes "started m0" "steps m0 m" "honest W"
    and "handle_ask_connection S P W C ask m = Some (Answered (DecisionMsg d), m')" "dr_secrets d \<noteq> []"
  shows "\<exists>peer m1. pv_peer P = Some peer \<and> steps m m1 \<and> steps m1 m'
    \<and> fst ` set (dr_secrets d) \<subseteq> sk_name ` set (secrets ask)
    \<and> ((dr_decision d = ApproveCached \<and> \<not> ignore_remembered ask
          \<and> (\<exists>c rep. c \<in> set (cc_frames (peer_chain P peer))
               \<and> has_entry (st_approvals (mc_state m1)) (dk_wrap (ask_dedupe_key ask)) (caller_identity c)
               \<and> Landed rep ApproveRemember (Some (caller_identity c)) \<in> set (st_out (mc_state m1)) \<and> allow_remember rep
               \<and> dk_wrap (ask_dedupe_key rep) = dk_wrap (ask_dedupe_key ask)))
      \<or> (dr_decision d = ApproveAuto
          \<and> (\<exists>seen hit. adopt_peer_provenance P ask = Inr seen \<and> callers seen = map wire_caller (cc_frames (peer_chain P peer))
               \<and> evaluate_rules_for_ask (mc_files m1) seen (mc_state m1) = Some hit \<and> rh_decide hit = ApproveRule
               \<and> dr_rule_id d = Some (rh_rule_id hit) \<and> dr_approvers d = rh_approvals hit))
      \<or> (dr_decision d = ApproveCached \<and> nested_run ask
          \<and> (\<forall>s \<in> set (secrets ask). \<exists>rep x. landed rep x (st_out (mc_state m1)) \<and> approved x
               \<and> run_session_of rep = run_session_of ask \<and> run_session_of ask \<noteq> None
               \<and> ask_pair s \<in> ask_pair ` set (secrets rep))))"
proof -
  from answered_ask [OF assms(4)] obtain seen where adopt: "adopt_peer_provenance P ask = Inr seen"
    and ask: "handle_ask W (cn_tx C) seen m = Some (Resolved (DecisionMsg d), m')" by blast
  have names: "fst ` set (dr_secrets d) \<subseteq> sk_name ` set (secrets seen)"
    by (rule resolved_cases [OF ask assms(3,5)])
  then have "secrets seen \<noteq> []" using assms(5) by (cases "dr_secrets d") auto
  from adopted_wrap [OF adopt this] obtain peer parent w where p: "pv_peer P = Some peer" "ask_subject ask = Wrap w"
    "callers seen = map wire_caller (cc_frames (peer_chain P peer))" "parent \<in> set (cc_frames (peer_chain P peer))"
    "dk_anchor (ask_dedupe_key seen) = stamp_anchor (caller_identity parent) (dk_anchor (ask_dedupe_key ask))"
    "dk_wrap (ask_dedupe_key seen) = dk_wrap (ask_dedupe_key ask)" "secrets seen = secrets ask"
    "ignore_remembered seen = ignore_remembered ask" "nested_run seen = nested_run ask" .
  have run: "run_session_of seen = run_session_of ask"
    using p(5) by (simp add: run_session_of_def stamp_anchor_def split: AskAnchor.split)
  have sound: "sound (mc_state m1)" if "steps m m1" for m1
    using steps_sound [OF steps_trans [OF assms(2) that] started_sound [OF assms(1)]] .
  show ?thesis
  proof (cases rule: resolved_cases [OF ask assms(3,5)])
    case (1 m1)
    note cached = this
    then obtain i where "approval_scope_for (st_approvals (mc_state m1)) seen = Some i" by (auto simp: has_cached_approval_def)
    note i = scope_found [OF this]
    have "\<exists>c \<in> set (cc_frames (peer_chain P peer)). i = caller_identity c"
    proof (cases "process_identity (dk_anchor (ask_dedupe_key seen)) = Some i")
      case True
      then show ?thesis using p(4,5) by (auto simp: stamp_anchor_def split: AskAnchor.splits)
    next
      case False
      then obtain w where "w \<in> set (drop 1 (callers seen))" "i = wire_identity w" using i by auto
      moreover from this have "w \<in> wire_caller ` set (cc_frames (peer_chain P peer))" using p(3) by (metis in_set_dropD set_map)
      ultimately show ?thesis by auto
    qed
    then obtain c where c: "c \<in> set (cc_frames (peer_chain P peer))" "i = caller_identity c" by blast
    then obtain x where x: "x \<in> set (st_approvals (mc_state m1))" "ap_wrap x = dk_wrap (ask_dedupe_key seen)" "ap_parent x = i"
      using i by (auto simp: has_entry_def list_ex_iff)
    have "approvals_landed (mc_state m1)" using sound [OF cached(1)] by (simp add: sound_def consented_def)
    then obtain rep where "Landed rep ApproveRemember (Some i) \<in> set (st_out (mc_state m1))" "allow_remember rep"
      "dk_wrap (ask_dedupe_key rep) = dk_wrap (ask_dedupe_key seen)" using x unfolding approvals_landed_def by metis
    then show ?thesis using cached p c i by (intro exI [of _ peer] exI [of _ m1]) auto
  next
    case (2 m1 hit)
    then show ?thesis using p adopt by (intro exI [of _ peer] exI [of _ m1]) auto
  next
    case (3 m1)
    note nested = this
    then have n: "nested_run seen" by (simp add: nested_run_may_skip_window_def split: if_splits)
    obtain session released where r: "run_session_of seen = Some session"
      "hm_get (st_run_session_releases (mc_state m1)) session = Some released" "\<forall>s \<in> set (secrets seen). ask_pair s \<in> set released"
      using nested(4) by (auto simp: nested_run_may_skip_window_def list_all_iff split: if_splits option.splits)
    have "releases_landed (mc_state m1)" using sound [OF nested(1)] by (simp add: sound_def consented_def)
    then have "\<forall>s \<in> set (secrets ask). \<exists>rep x. landed rep x (st_out (mc_state m1)) \<and> approved x
        \<and> run_session_of rep = run_session_of ask \<and> run_session_of ask \<noteq> None \<and> ask_pair s \<in> ask_pair ` set (secrets rep)"
      using r p(7) run unfolding releases_landed_def by (fastforce dest: map_of_SomeD)
    then show ?thesis using nested p n by (intro exI [of _ peer] exI [of _ m1]) auto
  qed
qed

definition claim :: "WireCaller list \<Rightarrow> bool \<Rightarrow> string \<Rightarrow> ProcessIdentity \<Rightarrow> LocalPeer option \<Rightarrow> Ask \<Rightarrow> Ask" where
  "claim cs truncated dir i lp ask = (case ask_subject ask of
      ScopedAgent a \<Rightarrow> ask\<lparr>ask_subject := ScopedAgent (a\<lparr>ai_declared_by := lp\<rparr>)\<rparr>
    | subject \<Rightarrow> ask\<lparr>ask_subject := stamp_subject cs truncated dir subject,
        ask_dedupe_key := (ask_dedupe_key ask)\<lparr>dk_anchor := stamp_anchor i (dk_anchor (ask_dedupe_key ask))\<rparr>\<rparr>)"

text \<open>
  C8. What a client says of its callers, its working directory or its parent has no effect on
  anything the server does, nor what a sandbox's client says of the process that declared it. The
  key such a client claims is kept as sent; but whatever key it claims, no rule answers it, and an
  answer without a prompt carries no value and comes from an approval remembered for the very
  process and wrap of that key.
\<close>

theorem client_claims_win_nothing:
  shows "handle_ask_connection S P W C (claim cs truncated dir i lp ask) m = handle_ask_connection S P W C ask m
    \<and> (\<forall>a k d m'. ask_subject ask = ScopedAgent a
        \<and> handle_ask_connection S P W C (ask\<lparr>ask_dedupe_key := k\<rparr>) m = Some (Answered (DecisionMsg d), m')
        \<longrightarrow> dr_secrets d = [] \<and> dr_decision d = ApproveCached
          \<and> (\<exists>j. process_identity (dk_anchor k) = Some j \<and> has_entry (st_approvals (mc_state (arrive W AtApproval m))) (dk_wrap k) j))"
proof (intro conjI allI impI)
  have "adopt_peer_provenance P (claim cs truncated dir i lp ask) = adopt_peer_provenance P ask"
    by (cases "ask_subject ask"; cases "dk_anchor (ask_dedupe_key ask)")
      (simp_all add: adopt_peer_provenance_def claim_def stamp_subject_def stamp_anchor_def Let_def split: option.split list.split)
  then show "handle_ask_connection S P W C (claim cs truncated dir i lp ask) m = handle_ask_connection S P W C ask m"
    by (simp add: handle_ask_connection_def)
next
  fix a k d m'
  assume "ask_subject ask = ScopedAgent a
    \<and> handle_ask_connection S P W C (ask\<lparr>ask_dedupe_key := k\<rparr>) m = Some (Answered (DecisionMsg d), m')"
  then have a: "ask_subject (ask\<lparr>ask_dedupe_key := k\<rparr>) = ScopedAgent a"
    and h: "handle_ask_connection S P W C (ask\<lparr>ask_dedupe_key := k\<rparr>) m = Some (Answered (DecisionMsg d), m')" by simp_all
  from answered_ask [OF h] obtain seen where seen: "adopt_peer_provenance P (ask\<lparr>ask_dedupe_key := k\<rparr>) = Inr seen"
    "handle_ask W (cn_tx C) seen m = Some (Resolved (DecisionMsg d), m')" by blast
  obtain b where b: "ask_subject seen = ScopedAgent b" "ask_dedupe_key seen = k"
    using seen(1) a by (auto simp: adopt_peer_provenance_def split: option.splits)
  show "dr_secrets d = []" "dr_decision d = ApproveCached"
    "\<exists>j. process_identity (dk_anchor k) = Some j \<and> has_entry (st_approvals (mc_state (arrive W AtApproval m))) (dk_wrap k) j"
    using agent_answers [OF seen(2) b(1)] b(2) by simp_all
qed

text \<open>
  C9. Connections are sequences of atomic operations, so the daemon's books balance after any
  connection beside any other threads: each waiter ever submitted is parked, with a resolver
  thread, answered once or withdrawn.
\<close>

theorem connections_keep_the_books:
  assumes "started m0" "steps m0 m" "honest W" "honest_connection C"
    and "handle_connection S P W C first m = Some (r, m')"
  shows "steps m0 m' \<and> (let st = mc_state m' in
    parked st + resolving st + answered st + withdrawn st = mset [1..<st_waiter_next_id st])"
proof -
  have s: "steps m0 m'" using steps_trans [OF assms(2) connection_steps [OF assms(3-5)]] .
  from steps_sound [OF s started_sound [OF assms(1)]] have "conserved (mc_state m')" by (simp add: sound_def)
  with s show ?thesis by (simp add: conserved_def account_def Let_def)
qed

section \<open>Witnesses\<close>

text \<open>A nested run of a session whose secret was released before, from a process below a shell.\<close>

definition alone :: "unit world" where
  "alone = \<lparr>wd_host = (\<lambda>_. queue_host), wd_others = (\<lambda>_ m. m), wd_child = None\<rparr>"

definition shell_peer :: peer_env where
  "shell_peer = \<lparr>pv_same_user = Some True, pv_peer = Some 7, pv_categories = (\<lambda>_. OtherCategory),
     pv_system = [7 \<mapsto> \<lparr>pr_name = ustr ''gh'', pr_cmd = [], pr_exe = None, pr_start_time = 2, pr_parent = Some 5\<rparr>,
       5 \<mapsto> \<lparr>pr_name = ustr ''zsh'', pr_cmd = [], pr_exe = Some [], pr_start_time = 9, pr_parent = None\<rparr>],
     pv_exe = Some (ustr ''s''), pv_cwd = (\<lambda>_. None)\<rparr>"

definition sample_server :: "unit server" where
  "sample_server = \<lparr>se_json = (\<lambda>_. Some Ping), se_admin = admin_sample, se_crates = sample_crates, se_link = home_network,
     se_link_now = 0, se_registry_writes = True, se_stat = (\<lambda>_. None), se_read = (\<lambda>_. None), se_build = [],
     se_module_text = (\<lambda>_. []), se_admin_text = (\<lambda>_. []), se_control_text = (\<lambda>_. []), se_provenance_text = (\<lambda>_. [])\<rparr>"

definition one_shot :: "unit connection" where
  "one_shot = \<lparr>cn_tx = 0, cn_write = None, cn_reads = [], cn_reply_thread = True, cn_watch = Eof, cn_end = alone\<rparr>"

definition machine_with :: "unit State \<Rightarrow> unit machine" where
  "machine_with st = \<lparr>mc_state = st, mc_files = sample_env, mc_link = new_link_control phone_registry\<rparr>"

lemma alone_simps [simp]: "arrive alone s m = m" "wd_host alone s = queue_host" "honest alone"
  by (simp_all add: arrive_def alone_def honest_def)

lemma warm_start: "started (machine_with (new_state 0 warm_memory))" "steps (machine_with (new_state 0 warm_memory)) (machine_with released)"
proof -
  show "started (machine_with (new_state 0 warm_memory))" by (auto simp: started_def machine_with_def)
  let ?m1 = "on_state (apply_daemon_op (queue_host, Submit (session_ask ''op'') 0)) (machine_with (new_state 0 warm_memory))"
  have "machine_with released = on_state (apply_daemon_op (queue_host, Decide (ask_dedupe_key (session_ask ''op'')) Approve None None)) ?m1"
    by (simp add: machine_with_def released_def run_daemon_def on_state_def)
  then show "steps (machine_with (new_state 0 warm_memory)) (machine_with released)"
    using steps_trans [OF daemon_steps daemon_steps] by simp
qed

lemma shell_chain: "\<exists>c. cc_frames (peer_chain shell_peer 7) = [c]"
proof -
  have e: "ca_exe (describe_process gc i p) = pr_exe p" for gc i p by (simp add: describe_process_def)
  have other: "\<not> path_eq [] (ustr ''s'')" by (simp add: path_eq_def path_parts_def ustr_def)
  have s: "pv_system shell_peer 7 = Some \<lparr>pr_name = ustr ''gh'', pr_cmd = [], pr_exe = None, pr_start_time = 2, pr_parent = Some 5\<rparr>"
    "pv_system shell_peer 5 = Some \<lparr>pr_name = ustr ''zsh'', pr_cmd = [], pr_exe = Some [], pr_start_time = 9, pr_parent = None\<rparr>"
    "pv_exe shell_peer = Some (ustr ''s'')" by (simp_all add: shell_peer_def)
  have "\<not> is_self_frame (describe_process gc 5 \<lparr>pr_name = ustr ''zsh'', pr_cmd = [], pr_exe = Some [], pr_start_time = 9, pr_parent = None\<rparr>)
      (Some (ustr ''s''))" for gc
    by (simp add: is_self_frame_def e other)
  then show ?thesis
    by (simp add: peer_chain_def caller_chain_from_pid_def walk_def parent_of_def s MAX_CHAIN_def MAX_WALK_def Let_def)
qed

lemma released_rules: "st_rules released = []" "st_approvals released = []"
proof -
  let ?s0 = "new_state 0 warm_memory :: unit State" and ?ask = "session_ask ''op''"
  have r: "st_rules (core st) = st_rules st" for st :: "unit State" by (simp add: core_def)
  have e: "hm_get (st_queue (snd (submit_ask queue_host ?ask 0 ?s0))) (ask_dedupe_key ?ask) = Some (submitted_entry queue_host ?ask 0 ?s0)"
    by (simp add: submit_queue)
  have st: "released = resolve_with_device queue_host (ask_dedupe_key ?ask) Approve None None None (snd (submit_ask queue_host ?ask 0 ?s0))"
    by (simp add: released_def run_daemon_def resolve_def)
  show "st_rules released = []"
    using arg_cong [OF core_resolve_some [OF e, of queue_host Approve None None None], of st_rules]
      arg_cong [OF core_submit, of st_rules queue_host ?ask 0 ?s0]
    unfolding st by (simp add: r) (simp add: new_state_def core_def)
  show "st_approvals released = []"
    using submit_decide(1) [OF released_def] by (simp add: remember_approval_def new_state_def)
qed

lemma nested_served:
  "\<exists>d. handle_ask_connection sample_server shell_peer alone one_shot (session_ask ''op'') (machine_with released)
     = Some (Answered (DecisionMsg d), machine_with released) \<and> dr_secrets d = [(''A'', ''v'')]"
proof -
  let ?ask = "session_ask ''op''"
  obtain seen where adopt: "adopt_peer_provenance shell_peer ?ask = Inr seen"
    using shell_chain by (auto simp: adopt_peer_provenance_def session_ask_def Let_def) (simp add: shell_peer_def)
  have sub: "\<exists>w. ask_subject seen = Wrap w" and secs: "secrets seen = secrets ?ask" "nested_run seen" "run_session_of seen = run_session_of ?ask"
    "ignore_remembered seen = False"
    using adopt shell_chain
    by (auto simp: adopt_peer_provenance_def session_ask_def Let_def stamp_subject_def secrets_def nested_run_def run_session_of_def
        stamp_anchor_def ignore_remembered_def split: option.splits list.splits)
  have memory: "st_memory released = warm_memory" using submit_decide(3) [OF released_def] by (simp add: new_state_def)
  have cached: "ask_fully_cached sample_outside seen warm_memory"
    by (simp add: ask_fully_cached_def secs(1) session_asks) (simp add: sample_defs)
  have skip: "nested_run_may_skip_window queue_host seen released"
    using released_skips cached memory
    by (auto simp: nested_run_may_skip_window_def secs session_asks queue_host_def split: option.splits)
  have resolved: "resolve_for_ask sample_outside seen warm_memory = Some (Decided Approve [(''A'', ''v'')] None None, warm_memory)"
  proof -
    have "cache_get sample_outside (ask_key ((sample_secret ''A'' ''a'')\<lparr>sk_provider := ''op''\<rparr>)) warm_memory = Some ''v''"
      by (simp add: sample_defs)
    then show ?thesis by (simp add: resolve_for_ask_def secs(1) session_asks) (simp add: sample_secret_def)
  qed
  have no_approval: "\<not> has_cached_approval seen released"
    by (simp add: has_cached_approval_def approval_scope_for_def released_rules has_entry_def Let_def find_None_iff split: option.split)
  have no_rule: "evaluate_rules_for_ask E seen released = None" for E :: "unit rules_env"
    using sub by (auto simp: evaluate_rules_for_ask_def released_rules)
  have out: "ho_outside queue_host = sample_outside" by (simp add: queue_host_def)
  have st: "mc_state (machine_with released) = released" by (simp add: machine_with_def)
  have keep: "on_state (\<lambda>st. st\<lparr>st_memory := warm_memory\<rparr>) (machine_with released) = machine_with released"
    using memory by (simp add: on_state_def machine_with_def)
  have served: "resolve_approved_with_pending alone seen ApproveCached (machine_with released)
      = Some (Decided ApproveCached [(''A'', ''v'')] None None, machine_with released)"
    by (simp add: resolve_approved_with_pending_def out st memory cached resolved keep)
  have "handle_ask alone 0 seen (machine_with released)
      = Some (Resolved (waiter_reply_to_daemon_msg (Decided ApproveCached [(''A'', ''v'')] None None) (declared_by seen)), machine_with released)"
    by (simp add: handle_ask_def st no_approval no_rule skip served)
  then show ?thesis
    by (simp add: handle_ask_connection_def adopt one_shot_def reply_outcome_def write_reply_def waiter_reply_to_daemon_msg_def)
qed

theorem silent_answers_were_consented_to_witness:
  "\<exists>d m1. handle_ask_connection sample_server shell_peer alone one_shot (session_ask ''op'') (machine_with released)
       = Some (Answered (DecisionMsg d), machine_with released) \<and> dr_secrets d = [(''A'', ''v'')]
     \<and> steps (machine_with released) m1 \<and> steps m1 (machine_with released)"
proof -
  obtain d where d: "handle_ask_connection sample_server shell_peer alone one_shot (session_ask ''op'') (machine_with released)
      = Some (Answered (DecisionMsg d), machine_with released)" "dr_secrets d = [(''A'', ''v'')]" using nested_served by blast
  then have "dr_secrets d \<noteq> []" by simp
  from silent_answers_were_consented_to [OF warm_start alone_simps(3) d(1) this] show ?thesis using d by blast
qed

text \<open>A sandbox's client that claims the key of a wrap the user had approved for a shell.\<close>

definition claimed_key :: DedupeKey where
  "claimed_key = \<lparr>dk_wrap = ''gh'', dk_anchor = ProcessAnchor \<lparr>pi_pid = 5, pi_start_time = 9\<rparr>, dk_subject_digest = None\<rparr>"

definition approved_once :: "unit State" where
  "approved_once = (new_state 0 warm_memory)\<lparr>st_approvals := [\<lparr>ap_wrap = ''gh'', ap_parent = \<lparr>pi_pid = 5, pi_start_time = 9\<rparr>\<rparr>]\<rparr>"

lemma claimed_key_served:
  "\<exists>d m'. handle_ask_connection sample_server shell_peer alone one_shot ((sandbox_ask ''ab'' ''c'')\<lparr>ask_dedupe_key := claimed_key\<rparr>)
     (machine_with approved_once) = Some (Answered (DecisionMsg d), m')"
proof -
  let ?ask = "(sandbox_ask ''ab'' ''c'')\<lparr>ask_dedupe_key := claimed_key\<rparr>"
  obtain seen a where seen: "adopt_peer_provenance shell_peer ?ask = Inr seen" "ask_subject seen = ScopedAgent a" "ask_dedupe_key seen = claimed_key"
    by (auto simp: adopt_peer_provenance_def sandbox_ask_def shell_peer_def)
  have parts: "secrets seen = []" "callers seen = []" "\<not> ignore_remembered seen"
    by (simp_all add: secrets_def callers_def ignore_remembered_def seen(2))
  have st: "mc_state (machine_with approved_once) = approved_once" by (simp add: machine_with_def)
  have cached: "has_cached_approval seen approved_once"
    by (simp add: has_cached_approval_def approval_scope_for_def has_entry_def seen(3) claimed_key_def approved_once_def Let_def)
  have "ask_fully_cached E seen M" for E M by (simp add: ask_fully_cached_def parts(1))
  moreover have "resolve_for_ask E seen M = Some (Decided Approve [] None None, M)" for E M
    by (simp add: resolve_for_ask_def parts(1))
  ultimately have r: "resolve_approved_with_pending alone seen ApproveCached (machine_with approved_once)
      = Some (Decided ApproveCached [] None None, on_state (\<lambda>st. st\<lparr>st_memory := st_memory approved_once\<rparr>) (machine_with approved_once))"
    by (simp add: resolve_approved_with_pending_def st)
  then have "handle_ask alone 0 seen (machine_with approved_once)
      = Some (Resolved (waiter_reply_to_daemon_msg (Decided ApproveCached [] None None) (declared_by seen)),
          on_state (\<lambda>st. st\<lparr>st_memory := st_memory approved_once\<rparr>) (machine_with approved_once))"
    by (simp add: handle_ask_def st cached parts(3))
  then show ?thesis
    by (simp add: handle_ask_connection_def seen(1) one_shot_def reply_outcome_def write_reply_def waiter_reply_to_daemon_msg_def)
qed

theorem client_claims_win_nothing_witness:
  "\<exists>d m'. handle_ask_connection sample_server shell_peer alone one_shot ((sandbox_ask ''ab'' ''c'')\<lparr>ask_dedupe_key := claimed_key\<rparr>)
     (machine_with approved_once) = Some (Answered (DecisionMsg d), m') \<and> dr_secrets d = [] \<and> dr_decision d = ApproveCached"
proof -
  obtain d m' where d: "handle_ask_connection sample_server shell_peer alone one_shot
      ((sandbox_ask ''ab'' ''c'')\<lparr>ask_dedupe_key := claimed_key\<rparr>) (machine_with approved_once) = Some (Answered (DecisionMsg d), m')"
    using claimed_key_served by blast
  moreover have "\<exists>a. ask_subject (sandbox_ask ''ab'' ''c'') = ScopedAgent a" by (simp add: sandbox_ask_def)
  ultimately show ?thesis
    using client_claims_win_nothing [of sample_server shell_peer alone one_shot _ _ _ _ _ "sandbox_ask ''ab'' ''c''" "machine_with approved_once"]
    by blast
qed

theorem connections_keep_the_books_witness:
  "\<exists>m'. handle_connection sample_server shell_peer alone one_shot (Line ''x'') (machine_with released) = Some (Answered OkMsg, m')
     \<and> (let st = mc_state m' in parked st + resolving st + answered st + withdrawn st = mset [1..<st_waiter_next_id st])"
proof -
  have "se_json sample_server l = Some Ping" "pv_same_user shell_peer = Some True" "cn_write one_shot = None" for l
    by (simp_all add: sample_server_def shell_peer_def one_shot_def)
  then obtain m' where m': "handle_connection sample_server shell_peer alone one_shot (Line ''x'') (machine_with released) = Some (Answered OkMsg, m')"
    by (simp add: handle_connection_def handle_message_def handle_request_def act_def write_reply_def Let_def)
  have "honest_connection one_shot" by (simp add: honest_connection_def one_shot_def)
  from connections_keep_the_books [OF warm_start alone_simps(3) this m'] m' show ?thesis by blast
qed

end
