(* ===== verification/Client.thy ===== *)
theory Client
  imports Server
begin

text \<open>
  \<open>src/packages/secreq/src/daemon/client.rs\<close>: the command line's half of the conversation with
  the daemon. One connection is a function from the message sent to the reply read, \<open>None\<close> where
  writing, reading or parsing fails; \<open>os_env\<close> is the environment of the process. The waiting
  indicator on stderr is left out.
\<close>

type_synonym os_env = "string \<Rightarrow> string option"

type_synonym line = "ClientMsg \<Rightarrow> DaemonMsg option"

definition is_set :: "os_env \<Rightarrow> string \<Rightarrow> bool" where
  "is_set env name \<longleftrightarrow> (case env name of Some v \<Rightarrow> v \<noteq> [] | None \<Rightarrow> False)"

definition NO_DAEMON_ENV :: string where "NO_DAEMON_ENV = ''SECREQ_NO_DAEMON''"

definition daemon_disabled :: "os_env \<Rightarrow> bool" where
  "daemon_disabled env \<longleftrightarrow> is_set env NO_DAEMON_ENV"

definition graphical_environment_available :: "bool \<Rightarrow> os_env \<Rightarrow> bool" where
  "graphical_environment_available macos env \<longleftrightarrow>
     macos \<or> is_set env ''DISPLAY'' \<or> is_set env ''WAYLAND_DISPLAY''"

text \<open>\<open>str::parse\<close> at an unsigned type of so many bits.\<close>

definition parse_uint :: "nat \<Rightarrow> string \<Rightarrow> nat option" where
  "parse_uint bits s =
     (let ds = (case s of CHR ''+'' # t \<Rightarrow> t | _ \<Rightarrow> s)
      in if ds = [] \<or> \<not> list_all is_ascii_digit ds then None
         else if digits_value ds < 2 ^ bits then Some (digits_value ds) else None)"

section \<open>The outcome of an ask\<close>

record ConsentOutcome =
  co_decision :: Decision
  co_secrets :: "(string, string) hmap"
  co_deciding_device :: "string option"
  co_rule_id :: "string option"
  co_rule_name :: "string option"
  co_reason :: "string option"
  co_declared_by :: ScopeDeclarant
  co_approvers :: "(string, string) btmap"

definition deny_outcome :: ConsentOutcome where
  "deny_outcome = \<lparr>co_decision = Deny, co_secrets = [], co_deciding_device = None, co_rule_id = None,
     co_rule_name = None, co_reason = None, co_declared_by = ScopeDeclarant.NotRead, co_approvers = []\<rparr>"

datatype client_error =
    DaemonDisabled
  | NoConnection
  | NoReply
  | DaemonSaid string
  | UnexpectedReply DaemonMsg
  | NoRuleWithId string
  | NotAPid string
  | Unprobed
  | Unkilled nat

text \<open>\<open>connect_or_spawn\<close> as the client sees it: a line to a daemon, or no daemon.\<close>

record host_env =
  he_env :: os_env
  he_macos :: bool
  he_connect :: "line option"

definition send_and_recv :: "line \<Rightarrow> ClientMsg \<Rightarrow> client_error + DaemonMsg" where
  "send_and_recv l m = (case l m of None \<Rightarrow> Inl NoReply | Some r \<Rightarrow> Inr r)"

definition outcome_of_reply :: "DaemonMsg \<Rightarrow> client_error + ConsentOutcome" where
  "outcome_of_reply reply = (case reply of
      DecisionMsg d \<Rightarrow> Inr \<lparr>co_decision = dr_decision d, co_secrets = dr_secrets d,
        co_deciding_device = dr_deciding_device d, co_rule_id = dr_rule_id d, co_rule_name = dr_rule_name d,
        co_reason = dr_reason d,
        co_declared_by = (case dr_declared_by d of Some by \<Rightarrow> by | None \<Rightarrow> ScopeDeclarant.NotRead),
        co_approvers = dr_approvers d\<rparr>
    | ErrMsg m \<Rightarrow> Inl (DaemonSaid m)
    | _ \<Rightarrow> Inl (UnexpectedReply reply))"

definition request_consent :: "host_env \<Rightarrow> Ask \<Rightarrow> client_error + ConsentOutcome" where
  "request_consent H ask =
     (if daemon_disabled (he_env H) then Inr deny_outcome
      else if \<not> graphical_environment_available (he_macos H) (he_env H) then Inr deny_outcome
      else (case he_connect H of
          None \<Rightarrow> Inl NoConnection
        | Some l \<Rightarrow> (case send_and_recv l (AskMsg ask) of
              Inl e \<Rightarrow> Inl e
            | Inr reply \<Rightarrow> outcome_of_reply reply)))"

section \<open>The other requests\<close>

text \<open>What every request but an ask does first.\<close>

definition with_daemon :: "host_env \<Rightarrow> ClientMsg \<Rightarrow> (DaemonMsg \<Rightarrow> client_error + 'a) \<Rightarrow> client_error + 'a" where
  "with_daemon H m k =
     (if daemon_disabled (he_env H) then Inl DaemonDisabled
      else (case he_connect H of
          None \<Rightarrow> Inl NoConnection
        | Some l \<Rightarrow> (case send_and_recv l m of Inl e \<Rightarrow> Inl e | Inr reply \<Rightarrow> k reply)))"

definition expect_window_opened :: "DaemonMsg \<Rightarrow> client_error + unit" where
  "expect_window_opened reply = (case reply of
      WindowOpened _ \<Rightarrow> Inr () | OkMsg \<Rightarrow> Inr () | ErrMsg m \<Rightarrow> Inl (DaemonSaid m)
    | _ \<Rightarrow> Inl (UnexpectedReply reply))"

definition expect_ok :: "DaemonMsg \<Rightarrow> client_error + unit" where
  "expect_ok reply = (case reply of
      OkMsg \<Rightarrow> Inr () | ErrMsg m \<Rightarrow> Inl (DaemonSaid m) | _ \<Rightarrow> Inl (UnexpectedReply reply))"

definition show_window :: "host_env \<Rightarrow> client_error + unit" where
  "show_window H = with_daemon H ShowWindow expect_window_opened"

definition show_viewer :: "host_env \<Rightarrow> client_error + unit" where
  "show_viewer H = with_daemon H ShowViewer expect_window_opened"

definition ensure_daemon_running :: "host_env \<Rightarrow> client_error + unit" where
  "ensure_daemon_running H = with_daemon H Ping expect_ok"

definition open_link_pairing :: "host_env \<Rightarrow> client_error + string" where
  "open_link_pairing H = with_daemon H LinkPair (\<lambda>reply. case reply of
      LinkPairing url \<Rightarrow> Inr url | ErrMsg m \<Rightarrow> Inl (DaemonSaid m) | _ \<Rightarrow> Inl (UnexpectedReply reply))"

definition list_link_devices :: "host_env \<Rightarrow> client_error + Device list" where
  "list_link_devices H = with_daemon H LinkList (\<lambda>reply. case reply of
      LinkDevicesMsg ds \<Rightarrow> Inr ds | ErrMsg m \<Rightarrow> Inl (DaemonSaid m) | _ \<Rightarrow> Inl (UnexpectedReply reply))"

definition unlink_device :: "host_env \<Rightarrow> string \<Rightarrow> client_error + unit" where
  "unlink_device H nickname = with_daemon H (LinkRemove nickname) expect_ok"

definition list_rules :: "host_env \<Rightarrow> client_error + Rule list \<times> RuleRefusals" where
  "list_rules H = with_daemon H ListRules (\<lambda>reply. case reply of
      RulesList rs refusals \<Rightarrow> Inr (rs, refusals) | ErrMsg m \<Rightarrow> Inl (DaemonSaid m)
    | _ \<Rightarrow> Inl (UnexpectedReply reply))"

definition request_wasm_rule ::
  "host_env \<Rightarrow> string \<Rightarrow> string \<Rightarrow> string list option \<Rightarrow> string list \<Rightarrow> bool \<Rightarrow> client_error + Rule" where
  "request_wasm_rule H name path wraps trained all =
     with_daemon H (AddWasmRule name path wraps trained all) (\<lambda>reply. case reply of
      RuleAdded r \<Rightarrow> Inr r | ErrMsg m \<Rightarrow> Inl (DaemonSaid m) | _ \<Rightarrow> Inl (UnexpectedReply reply))"

text \<open>The rule the user named is the one a listing shows; the edit goes out against that copy.\<close>

definition listed_rule :: "host_env \<Rightarrow> string \<Rightarrow> client_error + Rule" where
  "listed_rule H i = (case list_rules H of
      Inl e \<Rightarrow> Inl e
    | Inr (rs, _) \<Rightarrow> (case find (\<lambda>r. ru_id r = i) rs of None \<Rightarrow> Inl (NoRuleWithId i) | Some r \<Rightarrow> Inr r))"

definition request_rule_enabled :: "host_env \<Rightarrow> string \<Rightarrow> bool \<Rightarrow> client_error + unit" where
  "request_rule_enabled H i enabled = (if daemon_disabled (he_env H) then Inl DaemonDisabled
     else (case listed_rule H i of Inl e \<Rightarrow> Inl e | Inr r \<Rightarrow> with_daemon H (SetRuleEnabled r enabled) expect_ok))"

definition request_rule_deletion :: "host_env \<Rightarrow> string \<Rightarrow> client_error + unit" where
  "request_rule_deletion H i = (if daemon_disabled (he_env H) then Inl DaemonDisabled
     else (case listed_rule H i of Inl e \<Rightarrow> Inl e | Inr r \<Rightarrow> with_daemon H (DeleteRule r) expect_ok))"

text \<open>\<open>bare\<close> is \<open>UnixStream::connect\<close>: it starts no daemon.\<close>

definition stop_daemon :: "line option \<Rightarrow> client_error + bool" where
  "stop_daemon bare = (case bare of
      None \<Rightarrow> Inr False
    | Some l \<Rightarrow> (case send_and_recv l Shutdown of
          Inl e \<Rightarrow> Inl e
        | Inr reply \<Rightarrow> map_sum id (\<lambda>_. True) (expect_ok reply)))"

definition daemon_build_id :: "string \<Rightarrow> line option \<Rightarrow> string option" where
  "daemon_build_id own bare = (case bare of
      None \<Rightarrow> None
    | Some l \<Rightarrow> (case send_and_recv l (Hello own) of Inr (HelloMsg b) \<Rightarrow> Some b | _ \<Rightarrow> None))"

section \<open>Refusals\<close>

text \<open>An approval comes from a daemon that said so, on a line that was there.\<close>

lemma approval_was_replied:
  assumes "request_consent H ask = Inr c" "approved (co_decision c)"
  shows "\<exists>l d. he_connect H = Some l \<and> l (AskMsg ask) = Some (DecisionMsg d) \<and>
    dr_decision d = co_decision c \<and> dr_secrets d = co_secrets c"
  using assms
  by (auto simp: request_consent_def deny_outcome_def send_and_recv_def outcome_of_reply_def
      split: if_splits option.splits DaemonMsg.splits)

lemma request_consent_disabled: "daemon_disabled (he_env H) \<Longrightarrow> request_consent H ask = Inr deny_outcome"
  by (simp add: request_consent_def)

end
