(* ===== verification/Singleton.thy ===== *)
theory Singleton
  imports Client
begin

text \<open>
  The pid file, which keeps the daemon alone: \<open>acquire_pidfile_lock\<close> and \<open>PidGuard\<close> of
  \<open>src/packages/secreq/src/daemon/mod.rs\<close>, \<open>probe_pidfile_lock\<close>, \<open>status_from_paths\<close>, \<open>read_pid\<close> and
  \<open>force_stop_daemon\<close> of \<open>daemon/client.rs\<close>. A process is its program counter and one step is one
  system call, so that any number of daemons and clients run interleaved; a call may fail and a
  process may die before any of its calls. A lock belongs to an inode, not to the name.
\<close>

section \<open>Processes and their files\<close>

datatype purpose = StatusQuery | ForceStop

datatype LockState = Free | Held

text \<open>The last words of a process: what its function returns.\<close>

datatype farewell =
    AnotherOwnsIt
  | CallFailed
  | NoPidThere
  | NotRunning
  | Running nat
  | Killed nat

datatype counter =
    OpeningPidfile nat
  | LockingPidfile nat nat
  | ComparingInodes nat nat
  | Truncating nat
  | WritingPid nat
  | WritingNewline nat
  | Guarding nat
  | CheckingExists purpose
  | OpeningProbe purpose
  | LockingProbe purpose nat
  | DroppingProbe purpose LockState nat
  | OpeningPid purpose
  | ReadingPid purpose nat
  | Signalling nat
  | RemovingPidfile farewell
  | RemovingSocket farewell
  | Ended farewell
  | Elsewhere
  | Dead

text \<open>\<open>ho_removals\<close> counts the removals of the pid file.\<close>

record host =
  ho_name :: "nat option"
  ho_text :: "nat \<Rightarrow> string"
  ho_next :: nat
  ho_lock :: "nat \<Rightarrow> nat option"
  ho_socket :: bool
  ho_group :: "nat \<Rightarrow> nat"
  ho_removals :: nat
  ho_at :: "nat \<Rightarrow> counter"

datatype call_result = Succeeds | Errs | Dies

definition goto :: "nat \<Rightarrow> counter \<Rightarrow> host \<Rightarrow> host" where
  "goto p c s = s\<lparr>ho_at := (ho_at s)(p := c)\<rparr>"

text \<open>Closing the file, by dropping it or by dying, gives the lock back.\<close>

definition close :: "(nat \<Rightarrow> bool) \<Rightarrow> host \<Rightarrow> host" where
  "close P s = s\<lparr>ho_lock := (\<lambda>i. case ho_lock s i of None \<Rightarrow> None | Some p \<Rightarrow> if P p then None else Some p)\<rparr>"

definition leave :: "nat \<Rightarrow> farewell \<Rightarrow> host \<Rightarrow> host" where
  "leave p w s = goto p (Ended w) (close ((=) p) s)"

definition die :: "(nat \<Rightarrow> bool) \<Rightarrow> host \<Rightarrow> host" where
  "die P s = close P (s\<lparr>ho_at := (\<lambda>p. if P p then Dead else ho_at s p)\<rparr>)"

section \<open>The daemon's lock\<close>

definition PIDFILE_ROUNDS :: nat where
  "PIDFILE_ROUNDS = 5"

definition open_or_create :: "nat \<Rightarrow> nat \<Rightarrow> host \<Rightarrow> host" where
  "open_or_create p k s = (case ho_name s of
      Some i \<Rightarrow> goto p (LockingPidfile k i) s
    | None \<Rightarrow> goto p (LockingPidfile k (ho_next s)) (s\<lparr>ho_name := Some (ho_next s),
        ho_text := (ho_text s)(ho_next s := []), ho_next := Suc (ho_next s)\<rparr>))"

definition take_lock :: "nat \<Rightarrow> nat \<Rightarrow> counter \<Rightarrow> host \<Rightarrow> host" where
  "take_lock p i c s = goto p c (s\<lparr>ho_lock := (ho_lock s)(i \<mapsto> p)\<rparr>)"

text \<open>A write at an offset keeps what follows.\<close>

definition write_at :: "nat \<Rightarrow> string \<Rightarrow> string \<Rightarrow> string" where
  "write_at n new old = take n old @ new @ drop (n + length new) old"

definition set_text :: "nat \<Rightarrow> (string \<Rightarrow> string) \<Rightarrow> host \<Rightarrow> host" where
  "set_text i f s = s\<lparr>ho_text := (ho_text s)(i := f (ho_text s i))\<rparr>"

fun acquire_step :: "call_result \<Rightarrow> nat \<Rightarrow> counter \<Rightarrow> host \<Rightarrow> host" where
  "acquire_step r p (OpeningPidfile 0) s = leave p AnotherOwnsIt s"
| "acquire_step r p (OpeningPidfile (Suc k)) s = (if r = Errs then leave p CallFailed s else open_or_create p k s)"
| "acquire_step r p (LockingPidfile k i) s =
     (if r = Errs then leave p CallFailed s
      else if ho_lock s i \<noteq> None then leave p AnotherOwnsIt s
      else take_lock p i (ComparingInodes k i) s)"
| "acquire_step r p (ComparingInodes k i) s =
     (if r = Errs \<or> ho_name s \<noteq> Some i then goto p (OpeningPidfile k) (close ((=) p) s) else goto p (Truncating i) s)"
| "acquire_step r p (Truncating i) s =
     goto p (WritingPid i) (if r = Errs then s else set_text i (\<lambda>_. []) s)"
| "acquire_step r p (WritingPid i) s =
     (if r = Errs then goto p (Guarding i) s
      else goto p (WritingNewline i) (set_text i (write_at 0 (show_nat p)) s))"
| "acquire_step r p (WritingNewline i) s =
     goto p (Guarding i) (if r = Errs then s else set_text i (write_at (length (show_nat p)) [char_of (10::nat)]) s)"
| "acquire_step r p c s = s"

section \<open>The client's probe\<close>

definition probed :: "nat \<Rightarrow> purpose \<Rightarrow> LockState \<Rightarrow> host \<Rightarrow> host" where
  "probed p w l s = (case (w, l) of
      (StatusQuery, Free) \<Rightarrow> leave p NotRunning s
    | (ForceStop, Free) \<Rightarrow> goto p (RemovingPidfile NotRunning) s
    | (_, Held) \<Rightarrow> goto p (OpeningPid w) s)"

definition read_pid :: "string \<Rightarrow> nat option" where
  "read_pid text = parse_uint 32 (trim text)"

text \<open>\<open>kill(pid as i32, SIGKILL)\<close>: a number outside the positive 32-bit range is no single process.\<close>

definition signalled :: "host \<Rightarrow> nat \<Rightarrow> nat \<Rightarrow> nat \<Rightarrow> bool" where
  "signalled s p pid q \<longleftrightarrow>
     (let t = if pid < 2 ^ 31 then int pid else int pid - 2 ^ 32
      in if t > 0 then int q = t
         else if t = 0 then ho_group s q = ho_group s p
         else if t = - 1 then q \<noteq> p
         else int (ho_group s q) = - t)"

fun probe_step :: "call_result \<Rightarrow> nat \<Rightarrow> counter \<Rightarrow> host \<Rightarrow> host" where
  "probe_step r p (CheckingExists w) s =
     (if r = Errs \<or> ho_name s = None then probed p w Free s else goto p (OpeningProbe w) s)"
| "probe_step r p (OpeningProbe w) s = (case ho_name s of
      Some i \<Rightarrow> if r = Errs then leave p CallFailed s else goto p (LockingProbe w i) s
    | None \<Rightarrow> leave p CallFailed s)"
| "probe_step r p (LockingProbe w i) s =
     (if r = Errs then leave p CallFailed s
      else if ho_lock s i \<noteq> None then goto p (DroppingProbe w Held i) s
      else take_lock p i (DroppingProbe w Free i) s)"
| "probe_step r p (DroppingProbe w l i) s = probed p w l (close ((=) p) s)"
| "probe_step r p (OpeningPid w) s = (case ho_name s of
      Some i \<Rightarrow> if r = Errs then leave p CallFailed s else goto p (ReadingPid w i) s
    | None \<Rightarrow> leave p CallFailed s)"
| "probe_step r p (ReadingPid w i) s =
     (if r = Errs then leave p CallFailed s
      else (case read_pid (ho_text s i) of
          None \<Rightarrow> leave p NoPidThere s
        | Some pid \<Rightarrow> (case w of
            StatusQuery \<Rightarrow> leave p (Running pid) s
          | ForceStop \<Rightarrow> goto p (Signalling pid) s)))"
| "probe_step r p (Signalling pid) s =
     (if r = Errs then leave p CallFailed s
      else die (signalled s p pid) (goto p (RemovingPidfile (Killed pid)) s))"
| "probe_step r p (RemovingPidfile w) s =
     goto p (RemovingSocket w)
       (if r = Errs \<or> ho_name s = None then s else s\<lparr>ho_name := None, ho_removals := Suc (ho_removals s)\<rparr>)"
| "probe_step r p (RemovingSocket w) s =
     leave p w (if r = Errs then s else s\<lparr>ho_socket := False\<rparr>)"
| "probe_step r p c s = s"

fun acquiring :: "counter \<Rightarrow> bool" where
  "acquiring (OpeningPidfile _) = True"
| "acquiring (LockingPidfile _ _) = True"
| "acquiring (ComparingInodes _ _) = True"
| "acquiring (Truncating _) = True"
| "acquiring (WritingPid _) = True"
| "acquiring (WritingNewline _) = True"
| "acquiring _ = False"

definition host_step :: "nat \<times> call_result \<Rightarrow> host \<Rightarrow> host" where
  "host_step = (\<lambda>(p, r) s. if r = Dies then die ((=) p) s
     else if acquiring (ho_at s p) then acquire_step r p (ho_at s p) s
     else probe_step r p (ho_at s p) s)"

definition run_host :: "(nat \<times> call_result) list \<Rightarrow> host \<Rightarrow> host" where
  "run_host schedule s = fold host_step schedule s"

definition start_daemon :: counter where
  "start_daemon = OpeningPidfile PIDFILE_ROUNDS"

text \<open>Before any process has opened the pid file: there is none, or one that nobody holds.\<close>

definition start_state :: "string option \<Rightarrow> (nat \<Rightarrow> nat) \<Rightarrow> (nat \<Rightarrow> counter) \<Rightarrow> host" where
  "start_state leftover groups programs =
     \<lparr>ho_name = map_option (\<lambda>_. 0) leftover, ho_text = (\<lambda>i. case leftover of Some t \<Rightarrow> t | None \<Rightarrow> []),
      ho_next = (if leftover = None then 0 else 1), ho_lock = (\<lambda>i. None), ho_socket = False, ho_group = groups,
      ho_removals = 0, ho_at = programs\<rparr>"

definition may_start :: "counter \<Rightarrow> bool" where
  "may_start c \<longleftrightarrow> c \<in> {start_daemon, CheckingExists StatusQuery, CheckingExists ForceStop, Elsewhere, Dead}"

definition guarding :: "host \<Rightarrow> nat set" where
  "guarding s = {p. \<exists>i. ho_at s p = Guarding i}"

section \<open>What every step keeps\<close>

text \<open>The inode whose lock a process holds, and the one its next call reaches.\<close>

fun holds :: "counter \<Rightarrow> nat option" where
  "holds (ComparingInodes k i) = Some i"
| "holds (Truncating i) = Some i"
| "holds (WritingPid i) = Some i"
| "holds (WritingNewline i) = Some i"
| "holds (Guarding i) = Some i"
| "holds (DroppingProbe w Free i) = Some i"
| "holds _ = None"

fun reaches :: "counter \<Rightarrow> nat option" where
  "reaches (LockingPidfile k i) = Some i"
| "reaches (LockingProbe w i) = Some i"
| "reaches (ReadingPid w i) = Some i"
| "reaches c = holds c"

lemma holds_reaches: "holds c = Some i \<Longrightarrow> reaches c = Some i"
  by (cases c) auto

text \<open>A process has the lock its counter says and reaches an inode that was made.\<close>

definition settled :: "host \<Rightarrow> nat \<Rightarrow> counter \<Rightarrow> bool" where
  "settled s p c \<longleftrightarrow> (\<forall>i. holds c = Some i \<longrightarrow> ho_lock s i = Some p) \<and> (\<forall>i. reaches c = Some i \<longrightarrow> i < ho_next s)"

text \<open>Every process but those of \<open>P\<close> is settled; a new inode takes a removal before it.\<close>

definition settled_but :: "nat set \<Rightarrow> host \<Rightarrow> bool" where
  "settled_but P s \<longleftrightarrow> (\<forall>p. p \<notin> P \<longrightarrow> settled s p (ho_at s p)) \<and> (\<forall>i. ho_name s = Some i \<longrightarrow> i < ho_next s)
     \<and> ho_next s \<le> ho_removals s + (if ho_name s = None then 0 else 1)"

lemma settled_lock: "settled_but {} s \<Longrightarrow> holds (ho_at s p) = Some i \<Longrightarrow> ho_lock s i = Some p \<and> i < ho_next s"
  using holds_reaches [of "ho_at s p"] unfolding settled_but_def settled_def by blast

lemma goto_settled: "settled_but {p} s \<Longrightarrow> settled s p c \<Longrightarrow> settled_but {} (goto p c s)"
  by (auto simp: settled_but_def settled_def goto_def)

lemma settled_but_mono: "settled_but P s \<Longrightarrow> P \<subseteq> Q \<Longrightarrow> settled_but Q s"
  by (auto simp: settled_but_def)

lemma goto_but: "settled_but P s \<Longrightarrow> settled_but (insert p P) (goto p c s)"
  by (auto simp: settled_but_def settled_def goto_def)

lemma close_settled: "settled_but P s \<Longrightarrow> settled_but (P \<union> Collect Q) (close Q s)"
  by (auto simp: settled_but_def settled_def close_def)

lemma close_own_settled: "settled_but {} s \<Longrightarrow> settled_but {p} (close ((=) p) s)"
  using close_settled [of "{}" s "(=) p"] by (rule settled_but_mono) auto

lemma close_goto_settled: "settled_but {} s \<Longrightarrow> settled s p c \<Longrightarrow> holds c = None \<Longrightarrow> settled_but {} (goto p c (close ((=) p) s))"
  using close_own_settled [of s p] by (intro goto_settled) (auto simp: settled_def close_def)

lemma leave_settled: "settled_but {} s \<Longrightarrow> settled_but {} (leave p w s)"
  by (simp add: leave_def settled_def close_goto_settled)

lemma close_close [simp]: "close P (close P s) = close P s"
  by (rule host.equality) (auto simp: close_def fun_eq_iff split: option.splits)

lemma die_settled: "settled_but {} s \<Longrightarrow> settled_but {} (die P s)"
  by (auto simp: settled_but_def settled_def die_def close_def)

lemma take_settled:
  "settled_but {} s \<Longrightarrow> ho_lock s i = None \<Longrightarrow> i < ho_next s \<Longrightarrow> holds c = Some i \<Longrightarrow> settled_but {} (take_lock p i c s)"
  using holds_reaches [of c i] by (auto simp: settled_but_def settled_def take_lock_def goto_def)

lemma open_settled: "settled_but {} s \<Longrightarrow> settled_but {} (open_or_create p k s)"
  by (auto simp: settled_but_def settled_def open_or_create_def goto_def less_SucI split: option.splits)

lemma set_text_settled: "settled_but P s \<Longrightarrow> settled_but P (set_text i f s)"
  by (simp add: settled_but_def settled_def set_text_def)

lemma probed_settled: "settled_but {} s \<Longrightarrow> settled_but {} (probed p w l s)"
  by (cases w; cases l) (auto simp: probed_def settled_def leave_settled intro!: goto_settled intro: settled_but_mono)

lemma stay_settled: "settled_but {} s \<Longrightarrow> settled s p c \<Longrightarrow> settled_but {} (goto p c s)"
  by (rule goto_settled [OF settled_but_mono]) auto

lemma close_probed_settled: "settled_but {} s \<Longrightarrow> settled_but {} (probed p w l (close ((=) p) s))"
  using leave_settled [of s p NotRunning]
  by (cases w; cases l) (auto simp: probed_def leave_def settled_def intro!: close_goto_settled)

lemma acquire_settled:
  assumes "settled_but {} s" "ho_at s p = c"
  shows "settled_but {} (acquire_step r p c s)"
proof -
  have own: "settled s p c" using assms by (auto simp: settled_but_def)
  show ?thesis
  proof (cases c)
    case (OpeningPidfile k)
    then show ?thesis using assms(1) by (cases k) (auto simp: leave_settled open_settled)
  next
    case (ComparingInodes k i)
    have "settled s p (OpeningPidfile k)" "settled_but {} (goto p (Truncating i) s)"
      using own assms(1) ComparingInodes by (auto simp: settled_def intro!: stay_settled)
    then show ?thesis using assms(1) ComparingInodes by (simp add: close_goto_settled)
  qed (use assms(1) own in \<open>auto simp: settled_def set_text_def leave_settled take_settled intro!: stay_settled set_text_settled [unfolded set_text_def]\<close>)
qed

lemma probe_settled:
  assumes "settled_but {} s" "ho_at s p = c"
  shows "settled_but {} (probe_step r p c s)"
proof -
  have own: "settled s p c" using assms by (auto simp: settled_but_def)
  have named: "ho_name s = Some i \<Longrightarrow> i < ho_next s" for i using assms(1) by (simp add: settled_but_def)
  show ?thesis
  proof (cases c)
    case (Signalling pid)
    have "settled_but {} (goto p (RemovingPidfile (Killed pid)) s)"
      using assms(1) by (simp add: settled_def stay_settled)
    then show ?thesis using assms(1) Signalling by (simp add: leave_settled die_settled)
  next
    case (RemovingPidfile w)
    have "settled_but {} (s\<lparr>ho_name := None, ho_removals := Suc (ho_removals s)\<rparr>)" if "ho_name s \<noteq> None"
      using assms(1) that by (auto simp: settled_but_def settled_def)
    then show ?thesis using assms(1) RemovingPidfile by (auto simp: settled_def intro!: stay_settled)
  next
    case (RemovingSocket w)
    have "settled_but {} (s\<lparr>ho_socket := False\<rparr>)" using assms(1) by (simp add: settled_but_def settled_def)
    then show ?thesis using assms(1) RemovingSocket by (simp add: leave_settled)
  next
    case (ReadingPid w i)
    then show ?thesis using assms(1)
      by (auto simp: settled_def leave_settled split: option.splits purpose.splits intro!: stay_settled)
  qed (use assms(1) own named in \<open>auto simp: settled_def leave_settled take_settled probed_settled close_probed_settled
      split: option.splits intro!: stay_settled\<close>)
qed

lemma host_step_settled: "settled_but {} s \<Longrightarrow> settled_but {} (host_step x s)"
  by (cases x) (simp add: host_step_def die_settled acquire_settled probe_settled)

lemma may_start_fresh: "may_start c \<Longrightarrow> holds c = None \<and> reaches c = None"
  by (auto simp: may_start_def start_daemon_def)

lemma start_settled: "\<forall>p. may_start (programs p) \<Longrightarrow> settled_but {} (start_state leftover groups programs)"
  using may_start_fresh by (auto simp: settled_but_def settled_def start_state_def)

lemma run_host_keeps:
  assumes "\<And>x s. x \<in> set schedule \<Longrightarrow> P s \<Longrightarrow> P (host_step x s)" "P s"
  shows "P (run_host schedule s)"
  using assms unfolding run_host_def by (induction schedule arbitrary: s) simp_all

lemma run_host_settled:
  assumes "\<forall>p. may_start (programs p)"
  shows "settled_but {} (run_host schedule (start_state leftover groups programs))"
  by (rule run_host_keeps [where P = "settled_but {}"]) (simp_all add: host_step_settled start_settled assms)

section \<open>Force stops\<close>

text \<open>The counters a program that is no force stop goes through.\<close>

fun stopping :: "counter \<Rightarrow> bool" where
  "stopping (CheckingExists w) = (w = ForceStop)"
| "stopping (OpeningProbe w) = (w = ForceStop)"
| "stopping (LockingProbe w i) = (w = ForceStop)"
| "stopping (DroppingProbe w l i) = (w = ForceStop)"
| "stopping (OpeningPid w) = (w = ForceStop)"
| "stopping (ReadingPid w i) = (w = ForceStop)"
| "stopping (Signalling pid) = True"
| "stopping (RemovingPidfile w) = True"
| "stopping (RemovingSocket w) = True"
| "stopping _ = False"

definition unstopped :: "host \<Rightarrow> bool" where
  "unstopped s \<longleftrightarrow> (\<forall>p. \<not> stopping (ho_at s p)) \<and> ho_removals s = 0"

lemma removals_simps [simp]:
  "ho_removals (goto p c s) = ho_removals s" "ho_removals (close P s) = ho_removals s"
  "ho_removals (leave p w s) = ho_removals s" "ho_removals (die P s) = ho_removals s"
  "ho_removals (set_text i f s) = ho_removals s" "ho_removals (take_lock p i c s) = ho_removals s"
  "ho_removals (open_or_create p k s) = ho_removals s"
  by (simp_all add: goto_def close_def leave_def die_def set_text_def take_lock_def open_or_create_def split: option.splits)

lemma at_simps [simp]:
  "ho_at (goto p c s) = (ho_at s)(p := c)" "ho_at (close P s) = ho_at s"
  "ho_at (leave p w s) = (ho_at s)(p := Ended w)" "ho_at (die P s) = (\<lambda>p. if P p then Dead else ho_at s p)"
  "ho_at (set_text i f s) = ho_at s" "ho_at (take_lock p i c s) = (ho_at s)(p := c)"
  by (simp_all add: goto_def close_def leave_def die_def set_text_def take_lock_def)

lemma at_open [simp]: "ho_at (open_or_create p k s) = (ho_at s)(p := LockingPidfile k (case ho_name s of Some i \<Rightarrow> i | None \<Rightarrow> ho_next s))"
  by (simp add: open_or_create_def goto_def split: option.splits)

lemma step_unstopped: "unstopped s \<Longrightarrow> unstopped (host_step (p, r) s)"
proof -
  assume u: "unstopped s"
  then have own: "\<not> stopping (ho_at s p)" by (simp add: unstopped_def)
  show ?thesis
  proof (cases "ho_at s p")
    case (OpeningPidfile k)
    then show ?thesis using u by (cases k) (auto simp: host_step_def unstopped_def)
  next
    case (DroppingProbe w l i)
    then show ?thesis using u own by (cases w; cases l) (auto simp: host_step_def unstopped_def probed_def)
  next
    case (CheckingExists w)
    then show ?thesis using u own by (cases w) (auto simp: host_step_def unstopped_def probed_def)
  qed (use u own in \<open>auto simp: host_step_def unstopped_def split: option.splits purpose.splits\<close>)
qed

lemma start_unstopped:
  assumes "\<forall>p. may_start (programs p) \<and> programs p \<noteq> CheckingExists ForceStop"
  shows "unstopped (start_state leftover groups programs)"
proof -
  have "may_start c \<Longrightarrow> c \<noteq> CheckingExists ForceStop \<Longrightarrow> \<not> stopping c" for c
    by (auto simp: may_start_def start_daemon_def)
  with assms show ?thesis by (simp add: unstopped_def start_state_def)
qed

section \<open>The daemon alone\<close>

lemma guards_bounded:
  assumes "settled_but {} s"
  shows "finite (guarding s) \<and> card (guarding s) \<le> ho_removals s + 1"
proof -
  have own: "ho_lock s i = Some p \<and> i < ho_next s" if "ho_at s p = Guarding i" for p i
    using settled_lock [OF assms, of p i] that by simp
  have le: "ho_next s \<le> ho_removals s + 1" using assms by (auto simp: settled_but_def split: if_splits)
  have sub: "guarding s \<subseteq> (\<lambda>i. the (ho_lock s i)) ` {..< ho_next s}"
    using own by (force simp: guarding_def)
  have "card (guarding s) \<le> ho_next s"
    using card_mono [OF _ sub] card_image_le [of "{..< ho_next s}" "\<lambda>i. the (ho_lock s i)"] by simp
  with le finite_subset [OF sub] show ?thesis by simp
qed

text \<open>C14. Any number of daemons, status queries and force stops run interleaved over any leftover
  pid file, and calls fail and processes die anywhere: the daemons on guard are at most one more
  than the times the pid file was removed, so without a force stop there is never a second one.\<close>

theorem the_guard_is_alone:
  assumes "\<forall>p. may_start (programs p)"
    and "s = run_host schedule (start_state leftover groups programs)"
  shows "finite (guarding s) \<and> card (guarding s) \<le> ho_removals s + 1
    \<and> ((\<forall>p. programs p \<noteq> CheckingExists ForceStop) \<longrightarrow> card (guarding s) \<le> 1)"
proof -
  have b: "finite (guarding s) \<and> card (guarding s) \<le> ho_removals s + 1"
    unfolding assms(2) by (intro guards_bounded run_host_settled assms(1))
  have "unstopped s" if "\<forall>p. programs p \<noteq> CheckingExists ForceStop"
    unfolding assms(2) by (rule run_host_keeps [where P = unstopped]) (use assms(1) that in \<open>auto simp: step_unstopped start_unstopped\<close>)
  with b show ?thesis by (auto simp: unstopped_def)
qed

text \<open>What the owner of the lock has written so far.\<close>

fun written :: "nat \<Rightarrow> counter \<Rightarrow> (nat \<times> string) option" where
  "written p (WritingPid i) = Some (i, [])"
| "written p (WritingNewline i) = Some (i, show_nat p)"
| "written p (Guarding i) = Some (i, show_nat p @ [char_of (10::nat)])"
| "written p _ = None"

lemma written_holds: "written p c = Some (i, t) \<Longrightarrow> holds c = Some i"
  by (cases c) auto

definition recorded :: "host \<Rightarrow> bool" where
  "recorded s \<longleftrightarrow> (\<forall>p i t. written p (ho_at s p) = Some (i, t) \<longrightarrow> ho_text s i = t)"

lemma text_simps [simp]:
  "ho_text (goto p c s) = ho_text s" "ho_text (close P s) = ho_text s" "ho_text (leave p w s) = ho_text s"
  "ho_text (die P s) = ho_text s" "ho_text (set_text i f s) = (ho_text s)(i := f (ho_text s i))"
  "ho_text (take_lock p i c s) = ho_text s"
  by (simp_all add: goto_def close_def leave_def die_def set_text_def take_lock_def)

text \<open>Only the owner of a lock writes, and only to the inode it has locked.\<close>

lemma others_text:
  assumes "settled_but {} s" "holds (ho_at s p) = Some i" "q \<noteq> p" "written q (ho_at s q) = Some (j, t)"
  shows "j \<noteq> i"
proof
  assume "j = i"
  then have "ho_lock s i = Some q" "ho_lock s i = Some p"
    using settled_lock [OF assms(1), of q i] settled_lock [OF assms(1), of p i] assms(2) written_holds [OF assms(4)] by simp_all
  with assms(3) show False by simp
qed

lemma recorded_same:
  "recorded s \<Longrightarrow> ho_text s' = ho_text s \<Longrightarrow> (\<And>q. q \<noteq> p \<Longrightarrow> ho_at s' q = ho_at s q)
     \<Longrightarrow> written p (ho_at s' p) = None \<or> ho_at s' p = ho_at s p \<Longrightarrow> recorded s'"
  unfolding recorded_def by (metis option.distinct(1))

lemma recorded_write:
  assumes "settled_but {} s" "recorded s" "holds (ho_at s p) = Some i" "written p c = Some (i, f (ho_text s i))"
  shows "recorded (goto p c (set_text i f s))"
  using assms(2,4) others_text [OF assms(1,3)] by (auto simp: recorded_def)

lemma recorded_open:
  assumes "settled_but {} s" "recorded s"
  shows "recorded (open_or_create p k s)"
proof -
  have "j \<noteq> ho_next s" if "written q (ho_at s q) = Some (j, t)" for q j t
    using settled_lock [OF assms(1) written_holds [OF that]] by simp
  then show ?thesis using assms(2)
    by (auto simp: recorded_def open_or_create_def goto_def split: option.splits)
qed

lemma recorded_die: "recorded s \<Longrightarrow> recorded (die P s)"
  by (auto simp: recorded_def)

lemma step_recorded:
  assumes "settled_but {} s" "recorded s" "r \<noteq> Errs"
  shows "recorded (host_step (p, r) s)"
proof (cases "r = Dies")
  case True
  then show ?thesis using assms(2) by (simp add: host_step_def recorded_die)
next
  case False
  then have r: "r = Succeeds" using assms(3) by (cases r) simp_all
  have own: "ho_text s i = t" if "written p (ho_at s p) = Some (i, t)" for i t
    using assms(2) that by (simp add: recorded_def)
  note keep = recorded_same [OF assms(2), where p = p]
  show ?thesis
  proof (cases "ho_at s p")
    case (OpeningPidfile k)
    then show ?thesis using assms(1,2) r by (cases k) (auto simp: host_step_def recorded_open intro!: keep)
  next
    case (Truncating i)
    then show ?thesis using recorded_write [OF assms(1,2), of p i "WritingPid i" "\<lambda>_. []"] r by (simp add: host_step_def)
  next
    case (WritingPid i)
    then show ?thesis using recorded_write [OF assms(1,2), of p i "WritingNewline i" "write_at 0 (show_nat p)"] own r
      by (simp add: host_step_def write_at_def)
  next
    case (WritingNewline i)
    then show ?thesis
      using recorded_write [OF assms(1,2), of p i "Guarding i" "write_at (length (show_nat p)) [char_of (10::nat)]"] own r
      by (simp add: host_step_def write_at_def)
  next
    case (Signalling pid)
    have "recorded (goto p (RemovingPidfile (Killed pid)) s)" by (rule keep) simp_all
    then show ?thesis using Signalling r by (simp add: host_step_def recorded_die)
  next
    case (RemovingPidfile w)
    then show ?thesis using r by (auto simp: host_step_def goto_def intro!: keep)
  next
    case (RemovingSocket w)
    then show ?thesis using r by (auto simp: host_step_def leave_def goto_def close_def intro!: keep)
  qed (use r in \<open>auto simp: host_step_def probed_def split: option.splits purpose.splits LockState.splits intro!: keep\<close>)
qed

lemma start_recorded: "\<forall>p. may_start (programs p) \<Longrightarrow> recorded (start_state leftover groups programs)"
  using may_start_fresh written_holds by (fastforce simp: recorded_def start_state_def)

lemma run_host_recorded:
  assumes "\<forall>p. may_start (programs p)" "\<forall>(p, r) \<in> set schedule. r \<noteq> Errs"
  shows "recorded (run_host schedule (start_state leftover groups programs))"
proof -
  let ?P = "\<lambda>s. settled_but {} s \<and> recorded s"
  have "?P (run_host schedule (start_state leftover groups programs))"
    by (rule run_host_keeps [where P = ?P])
      (use assms(2) in \<open>auto simp: host_step_settled step_recorded start_settled start_recorded assms(1)\<close>)
  then show ?thesis by simp
qed

lemma read_own_pid:
  assumes "p < 2 ^ 32"
  shows "read_pid (show_nat p @ [char_of (10::nat)]) = Some p"
proof -
  let ?d = "show_nat p" and ?nl = "char_of (10::nat) :: char"
  have digits: "\<forall>c \<in> set ?d. is_ascii_digit c" and ne: "?d \<noteq> []"
    using show_nat_digits [of p] by (simp, subst show_nat.simps, simp)
  then have edges: "(of_char (hd ?d) :: nat) \<in> {33 ..< 128}" "(of_char (last ?d) :: nat) \<in> {33 ..< 128}"
    using digit_code hd_in_set last_in_set by blast+
  have "trim_start (?d @ [?nl]) = ?d @ [?nl]"
    unfolding trim_start_def using ne edges(1) white_space_edges by (intro starts_trim_id) fastforce+
  moreover have "strip_any (map rev WHITE_SPACE) (?nl # rev ?d) = Some (rev ?d)"
    by (simp add: WHITE_SPACE_def bytes_def)
  then have "trim_with (map rev WHITE_SPACE) (?nl # rev ?d) = trim_with (map rev WHITE_SPACE) (rev ?d)"
    by (subst trim_with.simps) simp
  moreover have "trim_with (map rev WHITE_SPACE) (rev ?d) = rev ?d"
    using ne edges(2) white_space_edges by (intro starts_trim_id) (fastforce simp: hd_rev)+
  ultimately have t: "trim (?d @ [?nl]) = ?d" by (simp add: trim_def trim_end_def)
  have "hd ?d \<noteq> CHR ''+''" using digits hd_in_set [OF ne] by (fastforce simp: is_ascii_digit_def)
  then have "(case ?d of CHR ''+'' # t \<Rightarrow> t | _ \<Rightarrow> ?d) = ?d" using ne by (cases ?d) (auto split: char.splits bool.splits)
  then show ?thesis using digits ne assms
    by (simp add: read_pid_def t parse_uint_def list_all_iff show_nat_value)
qed

text \<open>C26. Unless a call fails, the pid file a daemon guards holds its own number, however many
  others come, ask or are stopped meanwhile: a status query that reads it answers with the daemon,
  and a force stop that reads it aims at the daemon.\<close>

theorem the_pidfile_names_its_daemon:
  assumes "\<forall>p. may_start (programs p)" "\<forall>(p, r) \<in> set schedule. r \<noteq> Errs"
    and "s = run_host schedule (start_state leftover groups programs)"
    and "ho_at s p = Guarding i" "p < 2 ^ 32"
  shows "ho_lock s i = Some p \<and> read_pid (ho_text s i) = Some p
    \<and> (\<forall>q. ho_at s q = ReadingPid StatusQuery i \<longrightarrow> ho_at (host_step (q, Succeeds) s) q = Ended (Running p))
    \<and> (\<forall>q. ho_at s q = ReadingPid ForceStop i \<longrightarrow> ho_at (host_step (q, Succeeds) s) q = Signalling p)"
proof -
  have lock: "ho_lock s i = Some p"
    using settled_lock [OF run_host_settled [OF assms(1)], of schedule leftover groups p i] assms(3,4) by simp
  have "ho_text s i = show_nat p @ [char_of (10::nat)]"
    using run_host_recorded [OF assms(1,2), of leftover groups] assms(3,4) unfolding recorded_def by (metis written.simps(3))
  then have "read_pid (ho_text s i) = Some p" using read_own_pid [OF assms(5)] by simp
  with lock show ?thesis by (simp add: host_step_def)
qed

section \<open>Where a force stop goes wrong\<close>

definition by_turns :: "nat list \<Rightarrow> (nat \<times> call_result) list" where
  "by_turns ps = map (\<lambda>p. (p, Succeeds)) ps"

lemma by_turns_succeed: "\<forall>(p, r) \<in> set (by_turns ps). r = Succeeds"
  by (auto simp: by_turns_def)

text \<open>Nobody holds a lock on an inode that does not exist yet.\<close>

definition locks_made :: "host \<Rightarrow> bool" where
  "locks_made s \<longleftrightarrow> (\<forall>i p. ho_lock s i = Some p \<longrightarrow> i < ho_next s)"

lemma locks_made_simps [simp]:
  "locks_made (goto p c s) = locks_made s" "locks_made (set_text i f s) = locks_made s"
  "locks_made (s\<lparr>ho_name := x, ho_removals := n\<rparr>) = locks_made s" "locks_made (s\<lparr>ho_socket := b\<rparr>) = locks_made s"
  by (simp_all add: locks_made_def goto_def set_text_def)

lemma locks_made_close: "locks_made s \<Longrightarrow> locks_made (close P s)"
  by (auto simp: locks_made_def close_def split: option.splits if_splits)

lemma locks_made_die: "locks_made s \<Longrightarrow> locks_made (die P s)"
  by (auto simp: locks_made_def die_def close_def split: option.splits if_splits)

lemma locks_made_leave: "locks_made s \<Longrightarrow> locks_made (leave p w s)"
  by (simp add: leave_def locks_made_close)

lemma locks_made_probed: "locks_made s \<Longrightarrow> locks_made (probed p w l s)"
  by (cases w; cases l) (simp_all add: probed_def locks_made_leave)

lemma locks_made_take: "locks_made s \<Longrightarrow> i < ho_next s \<Longrightarrow> locks_made (take_lock p i c s)"
  by (auto simp: take_lock_def locks_made_def goto_def)

lemma locks_made_open: "locks_made s \<Longrightarrow> locks_made (open_or_create p k s)"
  by (auto simp: open_or_create_def locks_made_def goto_def less_SucI split: option.split)

lemma host_step_locks:
  assumes "settled_but {} s" "locks_made s"
  shows "locks_made (host_step x s)"
proof -
  obtain p r where x: "x = (p, r)" by (cases x)
  have reach: "i < ho_next s" if "reaches (ho_at s p) = Some i" for i
    using assms(1) that by (auto simp: settled_but_def settled_def)
  have "locks_made (acquire_step r p c s)" if "c = ho_at s p" for c
    using assms(2) reach unfolding that [symmetric]
    by (cases "(r, p, c, s)" rule: acquire_step.cases)
      (auto simp: locks_made_leave locks_made_open locks_made_close locks_made_take)
  moreover have "locks_made (probe_step r p c s)" if "c = ho_at s p" for c
    using assms(2) reach unfolding that [symmetric]
    by (cases "(r, p, c, s)" rule: probe_step.cases)
      (auto simp: locks_made_leave locks_made_probed locks_made_close locks_made_take locks_made_die
        split: option.split purpose.split)
  ultimately show ?thesis using assms(2) by (simp add: host_step_def x locks_made_die)
qed

text \<open>C27. A force stop that is about to remove the pid file, having found the lock free earlier or killed
  a predecessor, removes it whoever guards it now: in any reachable state the daemon that guards it
  stays on guard of an inode without a name, and any daemon started next comes to guard another
  one beside it. Two daemons run.\<close>

theorem a_force_stop_lets_in_a_second_daemon:
  assumes "\<forall>p. may_start (programs p)" "s = run_host schedule (start_state leftover groups programs)"
    and "ho_at s f = RemovingPidfile w" "ho_at s d = Guarding i" "ho_name s = Some i" "ho_at s n = OpeningPidfile (Suc k)"
    and "t = run_host ((f, Succeeds) # replicate 6 (n, Succeeds)) s"
  shows "d \<noteq> n \<and> ho_at t d = Guarding i \<and> ho_lock t i = Some d
    \<and> (\<exists>j. j \<noteq> i \<and> ho_at t n = Guarding j \<and> ho_lock t j = Some n \<and> ho_name t = Some j)"
proof -
  let ?P = "\<lambda>s. settled_but {} s \<and> locks_made s"
  have "?P s"
    unfolding assms(2)
    by (rule run_host_keeps [where P = ?P])
      (auto simp: host_step_settled start_settled assms(1) host_step_locks, simp add: locks_made_def start_state_def)
  then have "ho_lock s i = Some d" "i < ho_next s" "ho_lock s (ho_next s) = None"
    using settled_lock [of s d i] assms(4) by (auto simp: locks_made_def)
  moreover have "f \<noteq> d" "f \<noteq> n" "d \<noteq> n" using assms(3,4,6) by auto
  ultimately show ?thesis
    using assms(3-7)
    by (simp add: run_host_def host_step_def numeral_eq_Suc goto_def open_or_create_def take_lock_def set_text_def)
qed

text \<open>C28. While a daemon has the lock but has not written its number yet, a force stop that has the pid
  file open kills whatever process has the number its predecessor left there, reports that process
  as the daemon it stopped and removes the file, and the daemon goes on guard.\<close>

theorem a_force_stop_may_kill_a_stranger:
  assumes "ho_at s d = Truncating i" "ho_at s f = ReadingPid ForceStop i" "read_pid (ho_text s i) = Some q"
    and "0 < q" "q < 2 ^ 31" "q \<noteq> d" "q \<noteq> f"
    and "t = run_host (by_turns ([f, f] @ [d, d, d] @ [f, f])) s"
  shows "ho_at t q = Dead \<and> ho_at t f = Ended (Killed q) \<and> ho_at t d = Guarding i \<and> ho_name t = None"
proof -
  have "f \<noteq> d" using assms(1,2) by auto
  moreover have "signalled s' f q x \<longleftrightarrow> x = q" for s' x
    using assms(4,5) by (simp add: signalled_def)
  ultimately show ?thesis
    using assms(1-3,6-8)
    by (simp add: by_turns_def run_host_def host_step_def goto_def set_text_def die_def close_def leave_def)
qed

section \<open>Concrete instances\<close>

definition demo_programs :: "nat \<Rightarrow> counter" where
  "demo_programs = (\<lambda>p. Dead)(2 := start_daemon, 3 := start_daemon)"

definition demo_host :: host where
  "demo_host = run_host (by_turns [2, 3, 2, 3, 2, 2, 2, 2]) (start_state None (\<lambda>p. p) demo_programs)"

lemma demo_programs_start: "\<forall>p. may_start (demo_programs p)"
  by (simp add: may_start_def demo_programs_def)

lemma demo_guard: "ho_at demo_host 2 = Guarding 0" "ho_at demo_host 3 = Ended AnotherOwnsIt"
  by code_simp+

theorem the_guard_is_alone_witness: "2 \<in> guarding demo_host \<and> card (guarding demo_host) \<le> 1"
proof -
  have "\<forall>p. demo_programs p \<noteq> CheckingExists ForceStop" by (simp add: demo_programs_def start_daemon_def)
  with the_guard_is_alone [OF demo_programs_start demo_host_def] show ?thesis
    using demo_guard(1) by (auto simp: guarding_def)
qed

theorem the_pidfile_names_its_daemon_witness:
  "ho_lock demo_host 0 = Some 2 \<and> read_pid (ho_text demo_host 0) = Some 2"
proof -
  have "\<forall>(p, r) \<in> set (by_turns [2, 3, 2, 3, 2, 2, 2, 2]). r \<noteq> Errs" using by_turns_succeed by fastforce
  from the_pidfile_names_its_daemon [OF demo_programs_start this demo_host_def demo_guard(1)]
  show ?thesis by simp
qed

text \<open>A force stop finds the lock of a stale pid file free; a daemon comes before it removes the file.\<close>

definition overtaken :: host where
  "overtaken = run_host (by_turns [3, 3, 3, 3, 2, 2, 2, 2, 2, 2]) (start_state (Some []) (\<lambda>p. p)
     ((\<lambda>p. Dead)(2 := start_daemon, 3 := CheckingExists ForceStop, 4 := start_daemon)))"

theorem a_force_stop_lets_in_a_second_daemon_witness:
  "ho_at overtaken 3 = RemovingPidfile NotRunning \<and> ho_at overtaken 2 = Guarding 0
   \<and> (\<exists>j. j \<noteq> 0 \<and> ho_at (run_host ((3, Succeeds) # replicate 6 (4, Succeeds)) overtaken) 4 = Guarding j)"
proof -
  have at: "ho_at overtaken 3 = RemovingPidfile NotRunning" "ho_at overtaken 2 = Guarding 0" "ho_name overtaken = Some 0"
    "ho_at overtaken 4 = OpeningPidfile (Suc 4)"
    by code_simp+
  have "\<forall>p. may_start (((\<lambda>p. Dead)(2 := start_daemon, 3 := CheckingExists ForceStop, 4 := start_daemon)) p)"
    by (simp add: may_start_def)
  from a_force_stop_lets_in_a_second_daemon [OF this overtaken_def at refl] at show ?thesis by blast
qed

text \<open>A daemon takes the lock of a pid file that names process 7; a force stop has found the lock held.\<close>

definition unwritten :: host where
  "unwritten = run_host (by_turns [2, 2, 2, 3, 3, 3, 3, 3]) (start_state (Some (show_nat 7 @ [char_of (10::nat)])) (\<lambda>p. p)
     ((\<lambda>p. Dead)(2 := start_daemon, 3 := CheckingExists ForceStop, 7 := Elsewhere)))"

theorem a_force_stop_may_kill_a_stranger_witness:
  "ho_at unwritten 7 = Elsewhere
   \<and> ho_at (run_host (by_turns ([3, 3] @ [2, 2, 2] @ [3, 3])) unwritten) 7 = Dead"
proof -
  have at: "ho_at unwritten 2 = Truncating 0" "ho_at unwritten 3 = ReadingPid ForceStop 0" "ho_at unwritten 7 = Elsewhere"
    "ho_text unwritten 0 = show_nat 7 @ [char_of (10::nat)]"
    by code_simp+
  have "read_pid (ho_text unwritten 0) = Some 7" unfolding at(4) by (rule read_own_pid) simp
  from a_force_stop_may_kill_a_stranger [OF at(1,2) this, of "run_host (by_turns ([3, 3] @ [2, 2, 2] @ [3, 3])) unwritten"] at(3)
  show ?thesis by simp
qed

end
