(* ===== verification/Rule_Health.thy ===== *)
theory Rule_Health
  imports Evaluate
begin

text \<open>
  \<open>src/packages/secreq/src/rule_health.rs\<close>: the check of every rule's scope against the subjects
  that asks of the present configuration declare. The properties compare its verdict that a rule is
  never consulted with the evaluator of \<open>rules.rs\<close>.
\<close>

section \<open>Findings\<close>

datatype ScopeSeverity = ErrorSeverity | WarningSeverity

datatype ScopeFindingCode =
    UnknownSubject
  | NamedSecretIsNotSubject
  | UnknownSshIdentity
  | UnscopedApprover
  | NeverConsulted

record ScopeFinding =
  fd_severity :: ScopeSeverity
  fd_code :: ScopeFindingCode
  fd_rule_id :: string
  fd_rule_name :: string
  fd_subject :: "string option"
  fd_message :: string

definition finding :: "Rule \<Rightarrow> ScopeSeverity \<Rightarrow> ScopeFindingCode \<Rightarrow> string option \<Rightarrow> string \<Rightarrow> ScopeFinding" where
  "finding r severity code subject message =
     \<lparr>fd_severity = severity, fd_code = code, fd_rule_id = ru_id r, fd_rule_name = ru_name r, fd_subject = subject,
      fd_message = message\<rparr>"

section \<open>The subjects of a configuration\<close>

text \<open>Subject to the wraps that declare it, and named secret to the variables bound to it.\<close>

record subject_universe =
  sv_reaches :: "(string, string list) btmap"
  sv_named_bindings :: "(string, string list) btmap"

definition bt_add :: "string \<Rightarrow> string \<Rightarrow> (string, string list) btmap \<Rightarrow> (string, string list) btmap" where
  "bt_add k v m = bt_insert k (bs_insert v (case map_of m k of Some vs \<Rightarrow> vs | None \<Rightarrow> [])) m"

definition add_reaches :: "string \<Rightarrow> string list \<Rightarrow> subject_universe \<Rightarrow> subject_universe" where
  "add_reaches wrap subjects un = un\<lparr>sv_reaches := fold (\<lambda>s. bt_add s wrap) subjects (sv_reaches un)\<rparr>"

definition bind_named :: "WrapsConfig \<Rightarrow> string \<times> string \<Rightarrow> subject_universe \<Rightarrow> subject_universe" where
  "bind_named cfg = (\<lambda>(env_name, raw) un. (case resolve_ref cfg raw of
      Inl _ \<Rightarrow> un
    | Inr resolved \<Rightarrow> (case rr_declared_as resolved of
          None \<Rightarrow> un
        | Some name \<Rightarrow> un\<lparr>sv_named_bindings := bt_add name env_name (sv_named_bindings un)\<rparr>)))"

definition reach_wrap :: "WrapsConfig \<Rightarrow> string \<times> WrapEntry \<Rightarrow> subject_universe \<Rightarrow> subject_universe" where
  "reach_wrap cfg = (\<lambda>(wrap_name, w) un.
     fold (bind_named cfg) (wr_env w) (add_reaches wrap_name (evaluation_subjects wrap_name (map fst (wr_env w))) un))"

definition reach_ssh :: "string \<Rightarrow> subject_universe \<Rightarrow> subject_universe" where
  "reach_ssh key_id = (let subject = ''ssh:'' @ key_id in add_reaches subject (evaluation_subjects subject []))"

definition reach_read :: "string \<Rightarrow> subject_universe \<Rightarrow> subject_universe" where
  "reach_read name = add_reaches ''read'' (evaluation_subjects ''read'' [name])"

definition universe_of :: "WrapsConfig \<Rightarrow> subject_universe" where
  "universe_of cfg =
     fold reach_read (map fst (cfg_secrets cfg))
       (fold reach_ssh (map fst (cfg_ssh cfg))
         (fold (reach_wrap cfg) (cfg_wraps cfg) \<lparr>sv_reaches = [], sv_named_bindings = []\<rparr>))"

definition wraps_reaching :: "subject_universe \<Rightarrow> string \<Rightarrow> string list option" where
  "wraps_reaching un subject = map_of (sv_reaches un) subject"

section \<open>Suggestions\<close>

definition quoted :: "string list \<Rightarrow> string" where
  "quoted values = join_with '' or '' (map (\<lambda>v. ''`'' @ v @ ''`'') values)"

definition closer :: "string \<times> nat \<Rightarrow> string \<times> nat \<Rightarrow> bool" where
  "closer a b \<longleftrightarrow> snd a < snd b \<or> (snd a = snd b \<and> fst a < fst b)"

definition closest :: "string \<Rightarrow> string list \<Rightarrow> string option" where
  "closest needle candidates =
     (if char_count needle > 128 then None
      else (let folded = chars_of (to_lower needle);
                near = filter (\<lambda>(c, d). d \<le> max 2 (char_count c div 3))
                  (map (\<lambda>c. (c, edit_distance folded (chars_of (to_lower c)))) candidates)
            in case near of [] \<Rightarrow> None | x # xs \<Rightarrow> Some (fst (foldl (\<lambda>best y. if closer y best then y else best) x xs))))"

definition suggestion :: "string \<Rightarrow> string list \<Rightarrow> string" where
  "suggestion subject candidates = (case closest subject candidates of
      Some c \<Rightarrow> ''; did you mean `'' @ c @ ''`?'' | None \<Rightarrow> [])"

section \<open>The check of one rule\<close>

definition rule_can_approve :: "Rule \<Rightarrow> bool" where
  "rule_can_approve r = (case ru_body r of Wasm _ \<Rightarrow> True | Declarative m d \<Rightarrow> static_decision d = ApproveRule)"

definition rule_subjects :: "Rule \<Rightarrow> string list" where
  "rule_subjects r = fold bs_insert
     (case rule_wasm r of Some w \<Rightarrow> (case wm_declared_secrets w of Some ds \<Rightarrow> ds | None \<Rightarrow> []) | None \<Rightarrow> [])
     (ru_trained_secrets r)"

definition unscoped_finding :: "Rule \<Rightarrow> ScopeFinding list" where
  "unscoped_finding r = (if ru_trained_secrets r = [] \<and> rule_can_approve r
     then [finding r WarningSeverity UnscopedApprover None
       (''rule `'' @ ru_name r @ ''` has no trained subjects; an approve can apply to every ask'')] else [])"

definition named_mismatch :: "WrapsConfig \<Rightarrow> subject_universe \<Rightarrow> Rule \<Rightarrow> string \<Rightarrow> ScopeFinding option" where
  "named_mismatch cfg un r subject = (case ru_body r of
      Wasm _ \<Rightarrow> None
    | Declarative m d \<Rightarrow>
        if map_of (cfg_secrets cfg) subject \<noteq> None \<and> rm_wrap m \<noteq> ''read''
          \<and> (case wraps_reaching un subject of Some ws \<Rightarrow> rm_wrap m \<notin> set ws | None \<Rightarrow> True)
          \<and> static_decision d = ApproveRule
        then Some (finding r ErrorSeverity NamedSecretIsNotSubject (Some subject)
          (''`'' @ subject @ ''` is a valid `secreq read` subject, but '' @
            (case map_of (sv_named_bindings un) subject of
               Some (b # bs) \<Rightarrow> ''wrap `'' @ rm_wrap m @ ''` asks declare env keys; use '' @ quoted (b # bs) @ '' for this approval''
             | _ \<Rightarrow> ''no `'' @ rm_wrap m @ ''` ask declares it'')))
        else None)"

definition unknown_finding :: "string list \<Rightarrow> Rule \<Rightarrow> string \<Rightarrow> ScopeFinding" where
  "unknown_finding candidates r subject =
     (let ssh = starts_with subject ''ssh:'';
          hint = suggestion subject (if ssh then filter (\<lambda>c. starts_with c ''ssh:'') candidates else candidates);
          severity = (if ssh \<or> (case ru_body r of Declarative m _ \<Rightarrow> rm_wrap m \<noteq> ''run'' | Wasm _ \<Rightarrow> False)
            then ErrorSeverity else WarningSeverity)
      in if ssh
         then finding r severity UnknownSshIdentity (Some subject) (''`'' @ subject @ ''` names no configured SSH identity'' @ hint)
         else finding r severity UnknownSubject (Some subject)
           (''`'' @ subject @ ''` matches no configured wrap env key, SSH identity, named read subject, or gate-only wrap'' @ hint @
             (if severity = WarningSeverity then ''; it may still be supplied by `secreq run`'' else [])))"

definition subject_finding :: "WrapsConfig \<Rightarrow> subject_universe \<Rightarrow> Rule \<Rightarrow> string \<Rightarrow> ScopeFinding option" where
  "subject_finding cfg un r subject = (case named_mismatch cfg un r subject of
      Some f \<Rightarrow> Some f
    | None \<Rightarrow> (case wraps_reaching un subject of
          Some _ \<Rightarrow> None
        | None \<Rightarrow> Some (unknown_finding (map fst (sv_reaches un)) r subject)))"

definition reachable_wraps :: "subject_universe \<Rightarrow> Rule \<Rightarrow> string list" where
  "reachable_wraps un r = fold (\<lambda>s acc. if s \<in> set (ru_trained_secrets r)
      then fold bs_insert (case wraps_reaching un s of Some ws \<Rightarrow> ws | None \<Rightarrow> []) acc else acc) (rule_subjects r) []"

definition never_consulted :: "subject_universe \<Rightarrow> Rule \<Rightarrow> ScopeFinding list" where
  "never_consulted un r =
     (let reachable = filter (\<lambda>w. case ru_wraps r of Some scope \<Rightarrow> w \<in> set scope | None \<Rightarrow> True) (reachable_wraps un r);
          finds = (\<lambda>message. [finding r ErrorSeverity NeverConsulted None message])
      in case ru_body r of
           Declarative m d \<Rightarrow>
             if (case ru_wraps r of Some scope \<Rightarrow> rm_wrap m \<notin> set scope | None \<Rightarrow> False) then
               finds (''rule `'' @ ru_name r @ ''` matches wrap `'' @ rm_wrap m @ ''`, but its consultation scope excludes that wrap'')
             else if static_decision d = DenyRule \<or> rm_wrap m \<in> set reachable then []
             else finds (''rule `'' @ ru_name r @ ''` matches wrap `'' @ rm_wrap m @ ''`, but its subjects are declared by '' @
               (if reachable = [] then ''no configured wrap'' else join_with '', '' reachable) @ ''; it can never be consulted'')
         | Wasm _ \<Rightarrow>
             if ru_trained_secrets r \<noteq> [] \<and> reachable = [] then
               finds (''rule `'' @ ru_name r @ ''` has no trained subject reachable inside its consultation wrap scope'')
             else [])"

definition rule_findings :: "WrapsConfig \<Rightarrow> subject_universe \<Rightarrow> Rule \<Rightarrow> ScopeFinding list" where
  "rule_findings cfg un r =
     (let per_subject = List.map_filter (subject_finding cfg un r) (rule_subjects r)
      in unscoped_finding r @
         (if rule_subjects r = [] then []
          else per_subject @ (if per_subject = [] then never_consulted un r else [])))"

definition validate_rule_scopes :: "WrapsConfig \<Rightarrow> Rule list \<Rightarrow> ScopeFinding list" where
  "validate_rule_scopes cfg rules = concat (map (rule_findings cfg (universe_of cfg)) rules)"

section \<open>What the universe holds\<close>

definition reaches :: "subject_universe \<Rightarrow> string \<Rightarrow> string \<Rightarrow> bool" where
  "reaches un wrap s \<longleftrightarrow> (\<exists>ws. wraps_reaching un s = Some ws \<and> wrap \<in> set ws)"

definition bt_has :: "(string, string list) btmap \<Rightarrow> string \<Rightarrow> string \<Rightarrow> bool" where
  "bt_has m k v \<longleftrightarrow> (\<exists>vs. map_of m k = Some vs \<and> v \<in> set vs)"

lemma bt_has_add: "bt_wf m \<Longrightarrow> bt_has (bt_add k v m) k' v' \<longleftrightarrow> (k' = k \<and> v' = v) \<or> bt_has m k' v'"
  by (auto simp: bt_has_def bt_add_def split: option.splits if_splits)

lemma bt_wf_add [simp]: "bt_wf m \<Longrightarrow> bt_wf (bt_add k v m)"
  by (simp add: bt_add_def)

lemma bt_wf_adds [simp]: "bt_wf m \<Longrightarrow> bt_wf (fold (\<lambda>s. bt_add s w) ss m)"
  by (induction ss arbitrary: m) simp_all

lemma bt_has_adds: "bt_wf m \<Longrightarrow> bt_has (fold (\<lambda>s. bt_add s w) ss m) k v \<longleftrightarrow> (v = w \<and> k \<in> set ss) \<or> bt_has m k v"
  by (induction ss arbitrary: m) (auto simp: bt_has_add)

text \<open>A universe whose first map is that of \<open>R\<close>.\<close>

definition reach_is :: "(string \<Rightarrow> string \<Rightarrow> bool) \<Rightarrow> subject_universe \<Rightarrow> bool" where
  "reach_is R un \<longleftrightarrow> bt_wf (sv_reaches un) \<and> (\<forall>w s. bt_has (sv_reaches un) s w = R w s)"

lemma reach_is_cong: "reach_is R un \<Longrightarrow> (\<And>w s. R w s \<longleftrightarrow> R' w s) \<Longrightarrow> reach_is R' un"
  by (simp add: reach_is_def)

lemma reach_is_add: "reach_is R un \<Longrightarrow> reach_is (\<lambda>w' s. (w' = w \<and> s \<in> set ss) \<or> R w' s) (add_reaches w ss un)"
  by (simp add: reach_is_def add_reaches_def bt_has_adds)

lemma reach_is_bind: "reach_is R un \<Longrightarrow> reach_is R (fold (bind_named cfg) es un)"
proof (induction es arbitrary: un)
  case (Cons e es)
  have "reach_is R (bind_named cfg e un)"
    using Cons.prems by (cases e) (auto simp: reach_is_def bind_named_def split: sum.splits option.splits)
  then show ?case using Cons.IH by simp
qed simp

lemma reach_is_wraps:
  "reach_is R un \<Longrightarrow> reach_is (\<lambda>w s. (\<exists>e. (w, e) \<in> set ws \<and> s \<in> set (evaluation_subjects w (map fst (wr_env e)))) \<or> R w s)
     (fold (reach_wrap cfg) ws un)"
proof (induction ws arbitrary: un R)
  case (Cons x ws)
  obtain n e where x: "x = (n, e)" by (cases x)
  have "reach_is (\<lambda>w s. (w = n \<and> s \<in> set (evaluation_subjects n (map fst (wr_env e)))) \<or> R w s) (reach_wrap cfg x un)"
    unfolding reach_wrap_def x prod.case by (rule reach_is_bind [OF reach_is_add [OF Cons.prems]])
  then show ?case unfolding fold_simps(2) by (rule reach_is_cong [OF Cons.IH]) (auto simp: x)
qed simp

lemma reach_is_ssh: "reach_is R un \<Longrightarrow> reach_is (\<lambda>w s. (w = s \<and> s \<in> (@) ''ssh:'' ` set ks) \<or> R w s) (fold reach_ssh ks un)"
proof (induction ks arbitrary: un R)
  case (Cons k ks)
  have "reach_is (\<lambda>w s. (w = ''ssh:'' @ k \<and> s \<in> set [''ssh:'' @ k]) \<or> R w s) (reach_ssh k un)"
    using reach_is_add [OF Cons.prems, of "''ssh:'' @ k" "[''ssh:'' @ k]"]
    by (simp add: reach_ssh_def Let_def evaluation_subjects_def starts_with_def)
  then show ?case unfolding fold_simps(2) by (rule reach_is_cong [OF Cons.IH]) auto
qed simp

lemma reach_is_read: "reach_is R un \<Longrightarrow> reach_is (\<lambda>w s. (w = ''read'' \<and> s \<in> set ns) \<or> R w s) (fold reach_read ns un)"
proof (induction ns arbitrary: un R)
  case (Cons n ns)
  have "reach_is (\<lambda>w s. (w = ''read'' \<and> s \<in> set [n]) \<or> R w s) (reach_read n un)"
    using reach_is_add [OF Cons.prems, of "''read''" "[n]"] by (simp add: reach_read_def evaluation_subjects_def)
  then show ?case unfolding fold_simps(2) by (rule reach_is_cong [OF Cons.IH]) auto
qed simp

lemma universe_reaches:
  "reaches (universe_of cfg) w s \<longleftrightarrow>
     (\<exists>e. (w, e) \<in> set (cfg_wraps cfg) \<and> s \<in> set (evaluation_subjects w (map fst (wr_env e))))
     \<or> (w = s \<and> s \<in> (@) ''ssh:'' ` fst ` set (cfg_ssh cfg)) \<or> (w = ''read'' \<and> s \<in> fst ` set (cfg_secrets cfg))"
proof -
  have "reach_is (\<lambda>w s. False) \<lparr>sv_reaches = [], sv_named_bindings = []\<rparr>"
    by (simp add: reach_is_def bt_has_def bt_wf_def)
  from reach_is_read [OF reach_is_ssh [OF reach_is_wraps [OF this]]]
  show ?thesis by (auto simp: universe_of_def reach_is_def reaches_def bt_has_def wraps_reaching_def)
qed

lemma reachable_wraps_iff:
  "w \<in> set (reachable_wraps un r) \<longleftrightarrow> (\<exists>s \<in> set (ru_trained_secrets r). reaches un w s)"
proof -
  have "set (fold (\<lambda>s acc. if P s then fold bs_insert (f s) acc else acc) ss acc) = (\<Union>s \<in> {s \<in> set ss. P s}. set (f s)) \<union> set acc"
    for P and f :: "string \<Rightarrow> string list" and ss acc
    by (induction ss arbitrary: acc) (auto simp: set_fold_bs_insert)
  then have "set (reachable_wraps un r) =
      (\<Union>s \<in> {s \<in> set (rule_subjects r). s \<in> set (ru_trained_secrets r)}.
         set (case wraps_reaching un s of Some ws \<Rightarrow> ws | None \<Rightarrow> []))"
    by (simp add: reachable_wraps_def)
  moreover have "set (ru_trained_secrets r) \<subseteq> set (rule_subjects r)" by (simp add: rule_subjects_def set_fold_bs_insert)
  ultimately have "w \<in> set (reachable_wraps un r) \<longleftrightarrow>
      (\<exists>s \<in> set (ru_trained_secrets r). w \<in> set (case wraps_reaching un s of Some ws \<Rightarrow> ws | None \<Rightarrow> []))" by blast
  moreover have "w \<in> set (case x of Some ws \<Rightarrow> ws | None \<Rightarrow> []) \<longleftrightarrow> (\<exists>ws. x = Some ws \<and> w \<in> set ws)" for x
    by (cases x) simp_all
  ultimately show ?thesis by (simp add: reaches_def)
qed

lemma rule_subjects_Declarative: "ru_body r = Declarative m d \<Longrightarrow> rule_subjects r = ru_trained_secrets r"
  by (simp add: rule_subjects_def rule_wasm_def)

section \<open>The asks of a configuration\<close>

text \<open>
  What \<open>secreq x\<close> asks for is a part of the variables of a wrap, those its caller has not set, or,
  for a wrap without variables, the wrap itself.
\<close>

definition configured_ask :: "WrapsConfig \<Rightarrow> string \<Rightarrow> string list \<Rightarrow> bool" where
  "configured_ask cfg wrap subjects \<longleftrightarrow>
     (\<exists>w. (wrap, w) \<in> set (cfg_wraps cfg) \<and>
        (if is_gate_only w then subjects = evaluation_subjects wrap []
         else subjects \<noteq> [] \<and> set subjects \<subseteq> set (env_names w)))
     \<or> (\<exists>k \<in> fst ` set (cfg_ssh cfg). wrap = ''ssh:'' @ k \<and> subjects = [wrap])
     \<or> (wrap = ''read'' \<and> (\<exists>n \<in> fst ` set (cfg_secrets cfg). subjects = [n]))"

definition no_env_secrets :: "WrapsConfig \<Rightarrow> bool" where
  "no_env_secrets cfg \<longleftrightarrow> (\<forall>(n, w) \<in> set (cfg_wraps cfg). wr_env_secrets w = [])"

lemma asked_subjects_reach:
  assumes "no_env_secrets cfg" "configured_ask cfg wrap subjects" "s \<in> set subjects"
  shows "reaches (universe_of cfg) wrap s"
proof -
  consider w where "(wrap, w) \<in> set (cfg_wraps cfg)" "if is_gate_only w then subjects = evaluation_subjects wrap []
         else subjects \<noteq> [] \<and> set subjects \<subseteq> set (env_names w)"
    | k where "k \<in> fst ` set (cfg_ssh cfg)" "wrap = ''ssh:'' @ k" "subjects = [wrap]"
    | n where "wrap = ''read''" "n \<in> fst ` set (cfg_secrets cfg)" "subjects = [n]"
    using assms(2) unfolding configured_ask_def by blast
  then show ?thesis
  proof cases
    case 1
    have "wr_env_secrets w = []" using assms(1) 1(1) by (auto simp: no_env_secrets_def)
    then have "s \<in> set (evaluation_subjects wrap (map fst (wr_env w)))"
      using 1(2) assms(3) by (auto simp: is_gate_only_def env_names_def evaluation_subjects_def split: if_splits)
    with 1(1) show ?thesis by (auto simp: universe_reaches)
  qed (use assms(3) in \<open>auto simp: universe_reaches\<close>)
qed

lemma never_consulted_Declarative:
  "ru_body r = Declarative m d \<Longrightarrow> never_consulted un r \<noteq> [] \<longleftrightarrow>
     \<not> wrap_in_scope r (rm_wrap m) \<or> (static_decision d = ApproveRule \<and> rm_wrap m \<notin> set (reachable_wraps un r))"
  by (cases "static_decision d") (auto simp: never_consulted_def Let_def wrap_in_scope_def split: option.splits)

lemma never_consulted_Wasm:
  "ru_body r = Wasm w \<Longrightarrow> never_consulted un r \<noteq> [] \<longleftrightarrow>
     ru_trained_secrets r \<noteq> [] \<and> (\<forall>w \<in> set (reachable_wraps un r). \<not> wrap_in_scope r w)"
  by (auto simp: never_consulted_def Let_def wrap_in_scope_def filter_empty_conv split: option.splits)

section \<open>Properties\<close>

lemma never_consulted_reported:
  assumes "f \<in> set (rule_findings cfg un r)" "fd_code f = NeverConsulted"
  shows "never_consulted un r \<noteq> []"
proof -
  have "fd_code f \<noteq> NeverConsulted" if "f \<in> set (List.map_filter (subject_finding cfg un r) ss)" for ss
  proof -
    from that obtain s where "subject_finding cfg un r s = Some f" by (auto simp: List.map_filter_def)
    then show ?thesis
      by (auto simp: subject_finding_def named_mismatch_def unknown_finding_def finding_def Let_def
          split: option.splits if_splits RuleBody.splits)
  qed
  with assms show ?thesis
    by (auto simp: rule_findings_def unscoped_finding_def finding_def Let_def split: if_splits)
qed

lemma finding_names_rule: "f \<in> set (rule_findings cfg un r) \<Longrightarrow> fd_rule_id f = ru_id r"
proof -
  have "fd_rule_id f = ru_id r" if "subject_finding cfg un r s = Some f" for s
    using that by (auto simp: subject_finding_def named_mismatch_def unknown_finding_def finding_def Let_def
        split: option.splits if_splits RuleBody.splits)
  then show "f \<in> set (rule_findings cfg un r) \<Longrightarrow> fd_rule_id f = ru_id r"
    by (auto simp: rule_findings_def unscoped_finding_def never_consulted_def finding_def Let_def List.map_filter_def
        split: if_splits RuleBody.splits option.splits)
qed

lemma reached_subject_is_asked:
  assumes "no_env_secrets cfg" "reaches (universe_of cfg) w s"
  shows "configured_ask cfg w [s]"
proof -
  from assms(2) consider e where "(w, e) \<in> set (cfg_wraps cfg)" "s \<in> set (evaluation_subjects w (map fst (wr_env e)))"
    | "w = s" "s \<in> (@) ''ssh:'' ` fst ` set (cfg_ssh cfg)" | "w = ''read''" "s \<in> fst ` set (cfg_secrets cfg)"
    by (auto simp: universe_reaches)
  then show ?thesis
  proof cases
    case 1
    have "wr_env_secrets e = []" using assms(1) 1(1) by (auto simp: no_env_secrets_def)
    then have "if is_gate_only e then [s] = evaluation_subjects w [] else [s] \<noteq> [] \<and> set [s] \<subseteq> set (env_names e)"
      using 1(2) by (auto simp: is_gate_only_def env_names_def evaluation_subjects_def split: if_splits)
    with 1(1) show ?thesis unfolding configured_ask_def by blast
  qed (auto simp: configured_ask_def)
qed

lemma unvoted:
  assumes "no_env_secrets cfg" "never_consulted (universe_of cfg) r \<noteq> []"
    and "configured_ask cfg (cx_wrap ctx) (cx_secrets ctx)" "ru_trained_secrets r = [] \<Longrightarrow> is_wasm r"
  shows "\<not> denies G H modules R ctx r \<and> \<not> blesses G H modules R ctx s r"
proof -
  have reach: "cx_wrap ctx \<in> set (reachable_wraps (universe_of cfg) r)"
    if "x \<in> set (cx_secrets ctx)" "x \<in> set (ru_trained_secrets r)" for x
    using asked_subjects_reach [OF assms(1,3) that(1)] that(2) by (auto simp: reachable_wraps_iff)
  show ?thesis
  proof (cases "ru_body r")
    case (Wasm w)
    then have dead: "ru_trained_secrets r \<noteq> []" "\<forall>w \<in> set (reachable_wraps (universe_of cfg) r). \<not> wrap_in_scope r w"
      using assms(2) by (simp_all add: never_consulted_Wasm)
    then have "\<not> (wrap_in_scope r (cx_wrap ctx) \<and> wasm_overlaps r ctx)"
      using reach by (auto simp: wasm_overlaps_def list_ex_iff)
    then show ?thesis using Wasm by (auto simp: denies_def blesses_def consulted_def)
  next
    case (Declarative m d)
    then consider "\<not> wrap_in_scope r (rm_wrap m)"
      | "static_decision d = ApproveRule" "rm_wrap m \<notin> set (reachable_wraps (universe_of cfg) r)"
      using assms(2) by (auto simp: never_consulted_Declarative)
    then show ?thesis
    proof cases
      case 1
      then show ?thesis using Declarative
        by (auto simp: denies_def blesses_def consulted_def clause_outcome_def Let_def split: if_splits)
    next
      case 2
      have "ru_trained_secrets r \<noteq> []" using assms(4) Declarative by (auto simp: is_wasm_def)
      then have "\<not> (rm_wrap m = cx_wrap ctx \<and> declarative_approve_in_scope r ctx)"
        using 2(2) reach [of "hd (cx_secrets ctx)"] by (auto simp: declarative_approve_in_scope_def list_all_iff intro: bexI [OF _ hd_in_set])
      then show ?thesis using Declarative 2(1)
        by (auto simp: denies_def blesses_def clause_outcome_def Let_def split: if_splits)
    qed
  qed
qed

text \<open>C0. In a configuration whose wraps inject only through their \<open>env\<close> tables, the check agrees
  with the evaluator: a rule reported as never consulted neither denies nor vouches for any ask of
  the configuration, and an approving rule about which nothing is reported covers one, up to its
  patterns.\<close>

theorem health_agrees_with_the_evaluator:
  assumes "no_env_secrets cfg"
  shows "(\<forall>f \<in> set (validate_rule_scopes cfg rules). fd_code f = NeverConsulted \<longrightarrow>
      (\<exists>r \<in> set rules. fd_rule_id f = ru_id r \<and> (\<forall>ctx. configured_ask cfg (cx_wrap ctx) (cx_secrets ctx) \<longrightarrow>
        \<not> denies G H modules R ctx r \<and> (\<forall>s. \<not> blesses G H modules R ctx s r))))
    \<and> (\<forall>r \<in> set rules. \<forall>m. ru_body r = Declarative m StaticApprove \<longrightarrow>
      (\<forall>f \<in> set (validate_rule_scopes cfg rules). fd_rule_id f \<noteq> ru_id r) \<longrightarrow>
      (\<exists>s. configured_ask cfg (rm_wrap m) [s] \<and> wrap_in_scope r (rm_wrap m)
        \<and> (\<forall>ctx. cx_secrets ctx = [s] \<longrightarrow> declarative_approve_in_scope r ctx)))"
proof (intro conjI ballI allI impI)
  fix f assume f: "f \<in> set (validate_rule_scopes cfg rules)" "fd_code f = NeverConsulted"
  then obtain r where r: "r \<in> set rules" "f \<in> set (rule_findings cfg (universe_of cfg) r)"
    by (auto simp: validate_rule_scopes_def)
  have never: "never_consulted (universe_of cfg) r \<noteq> []" by (rule never_consulted_reported [OF r(2) f(2)])
  have wasm: "is_wasm r" if "ru_trained_secrets r = []"
  proof (cases "ru_body r")
    case (Declarative m d)
    then show ?thesis using r(2) f(2) that rule_subjects_Declarative [OF Declarative]
      by (auto simp: rule_findings_def unscoped_finding_def finding_def Let_def split: if_splits)
  qed (simp add: is_wasm_def)
  show "\<exists>r \<in> set rules. fd_rule_id f = ru_id r \<and> (\<forall>ctx. configured_ask cfg (cx_wrap ctx) (cx_secrets ctx) \<longrightarrow>
        \<not> denies G H modules R ctx r \<and> (\<forall>s. \<not> blesses G H modules R ctx s r))"
    using r(1) finding_names_rule [OF r(2)] unvoted [OF assms never _ wasm] by blast
next
  fix r m assume r: "r \<in> set rules" "ru_body r = Declarative m StaticApprove"
    and silent: "\<forall>f \<in> set (validate_rule_scopes cfg rules). fd_rule_id f \<noteq> ru_id r"
  have "rule_findings cfg (universe_of cfg) r = []"
    using r(1) silent finding_names_rule by (fastforce simp: validate_rule_scopes_def)
  then have trained: "ru_trained_secrets r \<noteq> []" and alive: "never_consulted (universe_of cfg) r = []"
    using rule_subjects_Declarative [OF r(2)] r(2)
    by (auto simp: rule_findings_def unscoped_finding_def rule_can_approve_def Let_def split: if_splits)
  then have scope: "wrap_in_scope r (rm_wrap m)" and "rm_wrap m \<in> set (reachable_wraps (universe_of cfg) r)"
    using never_consulted_Declarative [OF r(2), of "universe_of cfg"] by simp_all
  then obtain s where s: "s \<in> set (ru_trained_secrets r)" "reaches (universe_of cfg) (rm_wrap m) s"
    by (auto simp: reachable_wraps_iff)
  from s(1) trained have "\<forall>ctx. cx_secrets ctx = [s] \<longrightarrow> declarative_approve_in_scope r ctx"
    by (simp add: declarative_approve_in_scope_def)
  with reached_subject_is_asked [OF assms s(2)] scope
  show "\<exists>s. configured_ask cfg (rm_wrap m) [s] \<and> wrap_in_scope r (rm_wrap m)
      \<and> (\<forall>ctx. cx_secrets ctx = [s] \<longrightarrow> declarative_approve_in_scope r ctx)" by blast
qed

text \<open>C0. A name injected through \<open>env_secrets\<close> is not a subject for the check: it reports an error
  on the rule that approves the only ask there is.\<close>

theorem health_rejects_a_working_rule:
  "check_declarations sample_config = Inr () \<and> configured_ask sample_config (cx_wrap sample_ctx) (cx_secrets sample_ctx)
   \<and> map_option rh_decide (ev_hit (evaluate sample_glob sample_host [sample_rule ''r1'' StaticApprove] [] sample_ctx)) = Some ApproveRule
   \<and> (\<exists>f \<in> set (validate_rule_scopes sample_config [sample_rule ''r1'' StaticApprove]).
        fd_severity f = ErrorSeverity \<and> fd_code f = NamedSecretIsNotSubject \<and> fd_subject f = Some ''TOK'')"
proof (intro conjI)
  show "configured_ask sample_config (cx_wrap sample_ctx) (cx_secrets sample_ctx)"
    by (simp add: configured_ask_def sample_config_def sample_ctx_def is_gate_only_def env_names_def)
  show "map_option rh_decide (ev_hit (evaluate sample_glob sample_host [sample_rule ''r1'' StaticApprove] [] sample_ctx)) = Some ApproveRule"
    by (simp add: evaluate_def sample_defs evaluate_defs)
  show "\<exists>f \<in> set (validate_rule_scopes sample_config [sample_rule ''r1'' StaticApprove]).
        fd_severity f = ErrorSeverity \<and> fd_code f = NamedSecretIsNotSubject \<and> fd_subject f = Some ''TOK''"
    by (simp add: validate_rule_scopes_def rule_findings_def rule_subjects_def sample_rule_def rule_wasm_def Let_def
        List.map_filter_def subject_finding_def named_mismatch_def sample_config_def universe_of_def reach_wrap_def
        reach_read_def add_reaches_def bt_add_def evaluation_subjects_def wraps_reaching_def finding_def)
qed (rule sample_config_checked)

section \<open>Concrete instances\<close>

definition plain_config :: WrapsConfig where
  "plain_config = sample_config\<lparr>cfg_wraps := [(''gh'', \<lparr>wr_name = ''gh'', wr_reason = None, wr_env_secrets = [],
     wr_env = [(''TOK'', ''op://a'')]\<rparr>)], cfg_secrets := []\<rparr>"

definition strayed_rule :: Rule where
  "strayed_rule = (sample_rule ''r2'' StaticApprove)\<lparr>ru_wraps := Some [''npm'']\<rparr>"

theorem health_agrees_with_the_evaluator_witness:
  "(\<exists>f \<in> set (validate_rule_scopes plain_config [strayed_rule]). fd_code f = NeverConsulted)
   \<and> \<not> blesses sample_glob sample_host [] no_refusals sample_ctx ''TOK'' strayed_rule"
proof -
  have plain: "no_env_secrets plain_config" by (simp add: no_env_secrets_def plain_config_def)
  have "\<exists>f \<in> set (validate_rule_scopes plain_config [strayed_rule]). fd_code f = NeverConsulted"
    by code_simp
  then obtain f where f: "f \<in> set (validate_rule_scopes plain_config [strayed_rule])" "fd_code f = NeverConsulted" by blast
  have "configured_ask plain_config (cx_wrap sample_ctx) (cx_secrets sample_ctx)"
    by (simp add: configured_ask_def plain_config_def sample_ctx_def is_gate_only_def env_names_def)
  with health_agrees_with_the_evaluator [OF plain, of "[strayed_rule]" sample_glob sample_host "[]" no_refusals] f show ?thesis by auto
qed

end
