(* ===== verification/Rule_Stats.thy ===== *)
theory Rule_Stats
  imports Rule_Health Audit_Log "HOL-Library.Product_Lexorder" "HOL-Library.Multiset"
begin

text \<open>
  \<open>src/packages/secreq/src/rule_stats.rs\<close>: the audit log replayed through the evaluator of the
  rules, row by row, and the report over it. The JSON text that keys the cache of decisions and the
  size of one of its entries are parameters; the percentages, which are floating point, are left out.
\<close>

section \<open>Options and counters\<close>

record ReplayOptions =
  op_since_unix :: "nat option"
  op_wrap :: "string option"
  op_top :: nat
  op_verify :: bool

record RowCounts =
  rc_decoded :: nat
  rc_replayed :: nat
  rc_filtered :: nat
  rc_malformed :: nat
  rc_scoped_agent :: nat
  rc_not_evaluated :: nat

record Outcomes =
  oc_auto_approve :: nat
  oc_auto_deny :: nat
  oc_prompt :: nat
  oc_mandated :: nat
  oc_uncovered :: nat

datatype PromptTraffic = InteractiveTraffic | AutoRuleTraffic | ScopedAgentTraffic

fun traffic_rank :: "PromptTraffic \<Rightarrow> nat" where
  "traffic_rank InteractiveTraffic = 0"
| "traffic_rank AutoRuleTraffic = 1"
| "traffic_rank ScopedAgentTraffic = 2"

lemma traffic_rank_inj: "traffic_rank a = traffic_rank b \<Longrightarrow> a = b"
  by (cases a; cases b) simp_all

text \<open>The derived order of the enum, by which the counts are reported.\<close>

instantiation PromptTraffic :: linorder
begin

definition less_eq_PromptTraffic :: "PromptTraffic \<Rightarrow> PromptTraffic \<Rightarrow> bool" where
  "less_eq_PromptTraffic a b \<longleftrightarrow> traffic_rank a \<le> traffic_rank b"

definition less_PromptTraffic :: "PromptTraffic \<Rightarrow> PromptTraffic \<Rightarrow> bool" where
  "less_PromptTraffic a b \<longleftrightarrow> traffic_rank a < traffic_rank b"

instance
  by standard (auto simp: less_eq_PromptTraffic_def less_PromptTraffic_def intro: traffic_rank_inj)

end

record AttributionAccumulator =
  at_rule_name :: string
  at_asks :: nat
  at_approved_subjects :: nat

record CostlyRows =
  cw_total :: nat
  cw_now_automated :: nat
  cw_still_prompting :: nat

record VerificationFailure =
  vf_timestamp :: nat
  vf_wrap :: string
  vf_joined_argv :: string
  vf_subjects :: "string list"
  vf_recorded :: string
  vf_replayed :: string

record AttributionChange =
  ac_timestamp :: nat
  ac_wrap :: string
  ac_recorded :: "(string, string) btmap"
  ac_replayed :: "(string, string) btmap"

record Verification =
  vn_enabled :: bool
  vn_eligible :: nat
  vn_agree :: nat
  vn_deleted_rule :: nat
  vn_disabled_rule :: nat
  vn_pre_creation :: nat
  vn_scoped_agent :: nat
  vn_legacy_ssh :: nat
  vn_missing_rule_id :: nat
  vn_disagreements :: nat
  vn_failures :: "VerificationFailure list"
  vn_failures_omitted :: nat
  vn_changed :: nat
  vn_changes :: "AttributionChange list"
  vn_changes_omitted :: nat

datatype SimulatedKind = SimApprove | SimDeny | SimPrompt

record Simulated =
  sm_kind :: SimulatedKind
  sm_rule_id :: "string option"
  sm_rule_name :: "string option"
  sm_approvals :: "(string, string) btmap"
  sm_mandated :: bool
  sm_failures :: "(string \<times> string) list"

type_synonym counts = "(string, nat) btmap"

definition bump :: "'k::linorder \<Rightarrow> ('k, nat) btmap \<Rightarrow> ('k, nat) btmap" where
  "bump k m = bt_insert k (Suc (case map_of m k of Some n \<Rightarrow> n | None \<Rightarrow> 0)) m"

section \<open>One row\<close>

definition scoped_agent_row :: "AuditEntry \<Rightarrow> bool" where
  "scoped_agent_row e \<longleftrightarrow> starts_with (ae_wrap e) ''agent:''
     \<or> ae_decision e \<in> {''approve+agent-session'', ''deny+out-of-scope''}"

definition replay_subjects :: "AuditEntry \<Rightarrow> string list" where
  "replay_subjects e = evaluation_subjects (ae_wrap e) (ae_secrets e)"

definition replay_command :: "AuditEntry \<Rightarrow> string list" where
  "replay_command e = evaluator_command e"

definition bounded :: "string \<Rightarrow> nat \<Rightarrow> string" where
  "bounded value max_chars = (if char_count value > max_chars
     then take_chars max_chars value @ bytes [0xE2, 0x80, 0xA6] else value)"

definition prompt_shape :: "AuditEntry \<Rightarrow> string" where
  "prompt_shape e =
     (if ae_wrap e = ''read'' \<or> ae_wrap e = ''store'' \<or> starts_with (ae_wrap e) ''ssh:'' then ae_wrap e
      else (let command = replay_command e;
                rest = (case command of c # cs \<Rightarrow> if c = ae_wrap e then cs else c # cs | [] \<Rightarrow> []);
                suffix = join_with '' '' (map (\<lambda>t. bounded t 80) (take 2 rest))
            in if suffix = [] then ae_wrap e else ae_wrap e @ '' '' @ suffix))"

definition row_ctx :: "AuditEntry \<Rightarrow> EvalCtx" where
  "row_ctx e = \<lparr>cx_wrap = ae_wrap e, cx_joined_argv = entry_joined_argv e,
     cx_callers = map (\<lambda>c. \<lparr>ec_name = uc_name c, ec_command = uc_command c, ec_exe = uc_exe c\<rparr>) (ae_callers e),
     cx_cwd = ae_cwd e, cx_secrets = replay_subjects e\<rparr>"

definition simulated_of :: "Evaluation \<Rightarrow> Simulated" where
  "simulated_of ev = (let failures = map (\<lambda>f. (wx_rule_id f, wx_rule_name f)) (ev_wasm_failures ev) in
     case ev_hit ev of
       Some hit \<Rightarrow> \<lparr>sm_kind = (case rh_decide hit of ApproveRule \<Rightarrow> SimApprove | DenyRule \<Rightarrow> SimDeny),
         sm_rule_id = Some (rh_rule_id hit), sm_rule_name = Some (rh_rule_name hit), sm_approvals = rh_approvals hit,
         sm_mandated = False, sm_failures = failures\<rparr>
     | None \<Rightarrow> \<lparr>sm_kind = SimPrompt, sm_rule_id = map_option pm_rule_id (ev_mandated_prompt ev),
         sm_rule_name = map_option pm_rule_name (ev_mandated_prompt ev), sm_approvals = [],
         sm_mandated = ev_mandated_prompt ev \<noteq> None, sm_failures = failures\<rparr>)"

definition simulated_label :: "Simulated \<Rightarrow> string" where
  "simulated_label s =
     (let kind = (case sm_kind s of SimApprove \<Rightarrow> ''approve'' | SimDeny \<Rightarrow> ''deny'' | SimPrompt \<Rightarrow> ''prompt'')
      in case sm_rule_id s of None \<Rightarrow> kind | Some i \<Rightarrow> kind @ '' by rule '' @ i)"

section \<open>The state of a replay\<close>

record replay =
  rp_rows :: RowCounts
  rp_outcomes :: Outcomes
  rp_attribution :: "(string \<times> string, AttributionAccumulator) btmap"
  rp_shapes :: counts
  rp_recorded :: "(PromptTraffic \<times> string, nat) btmap"
  rp_costly :: CostlyRows
  rp_costly_shapes :: counts
  rp_failures :: "(string \<times> string, nat) btmap"
  rp_verification :: Verification

definition credit :: "string \<Rightarrow> string \<Rightarrow> string \<Rightarrow> nat \<Rightarrow> nat \<Rightarrow> replay \<Rightarrow> replay" where
  "credit rule_id decision name asks subjects s =
     (let a = (case map_of (rp_attribution s) (rule_id, decision) of Some a \<Rightarrow> a
                | None \<Rightarrow> \<lparr>at_rule_name = [], at_asks = 0, at_approved_subjects = 0\<rparr>)
      in s\<lparr>rp_attribution := bt_insert (rule_id, decision)
           \<lparr>at_rule_name = name, at_asks = at_asks a + asks, at_approved_subjects = at_approved_subjects a + subjects\<rparr>
           (rp_attribution s)\<rparr>)"

definition credit_winner :: "Simulated \<Rightarrow> string \<Rightarrow> replay \<Rightarrow> replay" where
  "credit_winner sim decision s = (case (sm_rule_id sim, sm_rule_name sim) of
      (Some i, Some n) \<Rightarrow> credit i decision n 1 0 s | _ \<Rightarrow> s)"

definition rule_by_id :: "Rule list \<Rightarrow> string \<Rightarrow> Rule option" where
  "rule_by_id rules i = map_of (rev (map (\<lambda>r. (ru_id r, r)) rules)) i"

definition bump_recorded :: "PromptTraffic \<Rightarrow> string \<Rightarrow> replay \<Rightarrow> replay" where
  "bump_recorded traffic decision s = s\<lparr>rp_recorded := bump (traffic, decision) (rp_recorded s)\<rparr>"

definition record_outcome :: "Rule list \<Rightarrow> AuditEntry \<Rightarrow> Simulated \<Rightarrow> replay \<Rightarrow> replay" where
  "record_outcome rules e sim s = (case sm_kind sim of
      SimApprove \<Rightarrow>
        (let s = s\<lparr>rp_outcomes := (rp_outcomes s)\<lparr>oc_auto_approve := Suc (oc_auto_approve (rp_outcomes s))\<rparr>\<rparr>;
             s = credit_winner sim ''approve'' s
         in fold (\<lambda>(_, i). credit i ''approve'' (case rule_by_id rules i of Some r \<Rightarrow> ru_name r | None \<Rightarrow> i) 0 1)
              (sm_approvals sim) s)
    | SimDeny \<Rightarrow>
        credit_winner sim ''deny''
          (s\<lparr>rp_outcomes := (rp_outcomes s)\<lparr>oc_auto_deny := Suc (oc_auto_deny (rp_outcomes s))\<rparr>\<rparr>)
    | SimPrompt \<Rightarrow>
        (let s = s\<lparr>rp_outcomes := (rp_outcomes s)\<lparr>oc_prompt := Suc (oc_prompt (rp_outcomes s))\<rparr>\<rparr>;
             s = (if sm_mandated sim
                  then credit_winner sim ''prompt''
                    (s\<lparr>rp_outcomes := (rp_outcomes s)\<lparr>oc_mandated := Suc (oc_mandated (rp_outcomes s))\<rparr>\<rparr>)
                  else s\<lparr>rp_outcomes := (rp_outcomes s)\<lparr>oc_uncovered := Suc (oc_uncovered (rp_outcomes s))\<rparr>\<rparr>);
             s = s\<lparr>rp_shapes := bump (prompt_shape e) (rp_shapes s)\<rparr>
         in bump_recorded (if ends_with (ae_decision e) ''+auto'' then AutoRuleTraffic else InteractiveTraffic)
              (ae_decision e) s))"

definition recorded_kind :: "AuditEntry \<Rightarrow> SimulatedKind option" where
  "recorded_kind e = (if ae_decision e = ''approve+auto'' then Some SimApprove
     else if ae_decision e = ''deny+auto'' then Some SimDeny else None)"

definition attributions :: "AuditEntry \<Rightarrow> string \<Rightarrow> Simulated \<Rightarrow> (string, string) btmap \<times> (string, string) btmap" where
  "attributions e rule_id sim =
     (if ae_approvers e = []
      then ([(''representative'', rule_id)], case sm_rule_id sim of Some i \<Rightarrow> [(''representative'', i)] | None \<Rightarrow> [])
      else (ae_approvers e, sm_approvals sim))"

definition note_change :: "nat \<Rightarrow> AttributionChange \<Rightarrow> Verification \<Rightarrow> Verification" where
  "note_change limit c v =
     (let v = v\<lparr>vn_changed := Suc (vn_changed v)\<rparr>
      in if length (vn_changes v) < limit then v\<lparr>vn_changes := vn_changes v @ [c]\<rparr>
         else v\<lparr>vn_changes_omitted := Suc (vn_changes_omitted v)\<rparr>)"

definition note_failure :: "nat \<Rightarrow> VerificationFailure \<Rightarrow> Verification \<Rightarrow> Verification" where
  "note_failure limit f v =
     (let v = v\<lparr>vn_disagreements := Suc (vn_disagreements v)\<rparr>
      in if length (vn_failures v) < limit then v\<lparr>vn_failures := vn_failures v @ [f]\<rparr>
         else v\<lparr>vn_failures_omitted := Suc (vn_failures_omitted v)\<rparr>)"

definition compare_row :: "nat \<Rightarrow> AuditEntry \<Rightarrow> string \<Rightarrow> SimulatedKind \<Rightarrow> Simulated \<Rightarrow> Verification \<Rightarrow> Verification" where
  "compare_row limit e rule_id kind sim v =
     (let v = v\<lparr>vn_eligible := Suc (vn_eligible v)\<rparr>
      in if sm_kind sim = kind then
           (let v = v\<lparr>vn_agree := Suc (vn_agree v)\<rparr>; (recorded, replayed) = attributions e rule_id sim
            in if recorded \<noteq> replayed
               then note_change limit \<lparr>ac_timestamp = ae_ts_unix e, ac_wrap = ae_wrap e, ac_recorded = recorded, ac_replayed = replayed\<rparr> v
               else v)
         else note_failure limit \<lparr>vf_timestamp = ae_ts_unix e, vf_wrap = ae_wrap e, vf_joined_argv = prompt_shape e,
           vf_subjects = replay_subjects e, vf_recorded = ae_decision e @ '' by rule '' @ rule_id,
           vf_replayed = simulated_label sim\<rparr> v)"

definition verify_row :: "nat \<Rightarrow> Rule list \<Rightarrow> AuditEntry \<Rightarrow> Simulated \<Rightarrow> Verification \<Rightarrow> Verification" where
  "verify_row limit rules e sim v = (case recorded_kind e of
      None \<Rightarrow> v
    | Some kind \<Rightarrow> (case ae_rule_id e of
        None \<Rightarrow> if starts_with (ae_wrap e) ''ssh:'' then v\<lparr>vn_legacy_ssh := Suc (vn_legacy_ssh v)\<rparr>
                else v\<lparr>vn_missing_rule_id := Suc (vn_missing_rule_id v)\<rparr>
      | Some rule_id \<Rightarrow> (case rule_by_id rules rule_id of
            None \<Rightarrow> v\<lparr>vn_deleted_rule := Suc (vn_deleted_rule v)\<rparr>
          | Some r \<Rightarrow>
              if ae_ts_unix e < ru_created_at_unix r then v\<lparr>vn_pre_creation := Suc (vn_pre_creation v)\<rparr>
              else if \<not> ru_enabled r then v\<lparr>vn_disabled_rule := Suc (vn_disabled_rule v)\<rparr>
              else compare_row limit e rule_id kind sim v)))"

definition count_costly :: "AuditEntry \<Rightarrow> Simulated \<Rightarrow> replay \<Rightarrow> replay" where
  "count_costly e sim s =
     (if ae_decision e = ''approve+remember'' \<or> ae_decision e = ''abandoned'' then
        (let c = (rp_costly s)\<lparr>cw_total := Suc (cw_total (rp_costly s))\<rparr>
         in if sm_kind sim \<noteq> SimPrompt then s\<lparr>rp_costly := c\<lparr>cw_now_automated := Suc (cw_now_automated c)\<rparr>\<rparr>
            else s\<lparr>rp_costly := c\<lparr>cw_still_prompting := Suc (cw_still_prompting c)\<rparr>,
                   rp_costly_shapes := bump (prompt_shape e) (rp_costly_shapes s)\<rparr>)
      else s)"

definition account_row :: "ReplayOptions \<Rightarrow> Rule list \<Rightarrow> AuditEntry \<Rightarrow> Simulated \<Rightarrow> replay \<Rightarrow> replay" where
  "account_row opts rules e sim s =
     (let s = s\<lparr>rp_failures := fold bump (sm_failures sim) (rp_failures s)\<rparr>;
          s = record_outcome rules e sim s;
          s = count_costly e sim s
      in if op_verify opts then s\<lparr>rp_verification := verify_row (op_top opts) rules e sim (rp_verification s)\<rparr> else s)"

text \<open>The rows that are not replayed, each under its count.\<close>

definition row_filtered :: "ReplayOptions \<Rightarrow> AuditEntry \<Rightarrow> bool" where
  "row_filtered opts e \<longleftrightarrow> (case op_since_unix opts of Some since \<Rightarrow> ae_ts_unix e < since | None \<Rightarrow> False)
     \<or> (case op_wrap opts of Some w \<Rightarrow> ae_wrap e \<noteq> w | None \<Rightarrow> False)"

definition skip_row :: "ReplayOptions \<Rightarrow> AuditEntry \<Rightarrow> replay \<Rightarrow> replay option" where
  "skip_row opts e s =
     (if row_filtered opts e then Some (s\<lparr>rp_rows := (rp_rows s)\<lparr>rc_filtered := Suc (rc_filtered (rp_rows s))\<rparr>\<rparr>)
      else if scoped_agent_row e then
        (let s = s\<lparr>rp_rows := (rp_rows s)\<lparr>rc_scoped_agent := Suc (rc_scoped_agent (rp_rows s))\<rparr>\<rparr>;
             s = bump_recorded ScopedAgentTraffic (ae_decision e) s
         in Some (if op_verify opts
           then s\<lparr>rp_verification := (rp_verification s)\<lparr>vn_scoped_agent := Suc (vn_scoped_agent (rp_verification s))\<rparr>\<rparr> else s))
      else if \<not> rules_were_evaluated e then
        Some (s\<lparr>rp_rows := (rp_rows s)\<lparr>rc_not_evaluated := Suc (rc_not_evaluated (rp_rows s))\<rparr>\<rparr>)
      else None)"

definition count_replayed :: "replay \<Rightarrow> replay" where
  "count_replayed s = s\<lparr>rp_rows := (rp_rows s)\<lparr>rc_replayed := Suc (rc_replayed (rp_rows s))\<rparr>\<rparr>"

section \<open>The cache of decisions\<close>

definition MAX_DECISION_CACHE_BYTES :: nat where
  "MAX_DECISION_CACHE_BYTES = 16 * 1024 * 1024"

record json_cache =
  jc_key :: "EvalCtx \<Rightarrow> string"
  jc_entry_size :: nat

record decision_cache =
  dc_entries :: "(string, Simulated) hmap"
  dc_bytes :: nat

text \<open>The sum saturates at the end of a 64-bit \<open>usize\<close>, far above the bound.\<close>

definition cached_decision :: "json_cache \<Rightarrow> (EvalCtx \<Rightarrow> Simulated) \<Rightarrow> EvalCtx \<Rightarrow> decision_cache \<Rightarrow> Simulated \<times> decision_cache" where
  "cached_decision K run ctx c = (case map_of (dc_entries c) (jc_key K ctx) of
      Some sim \<Rightarrow> (sim, c)
    | None \<Rightarrow> (let sim = run ctx; size = length (jc_key K ctx) + jc_entry_size K
               in (sim, if dc_bytes c + size \<le> MAX_DECISION_CACHE_BYTES
                 then \<lparr>dc_entries = hm_insert (jc_key K ctx) sim (dc_entries c), dc_bytes = dc_bytes c + size\<rparr> else c)))"

section \<open>The replay\<close>

definition simulate :: "glob_crate \<Rightarrow> 'm wasm_host \<Rightarrow> 'm LoadedRules \<Rightarrow> EvalCtx \<Rightarrow> Simulated" where
  "simulate G H loaded ctx = simulated_of (evaluate G H (lr_rules loaded) (lr_modules loaded) ctx)"

definition replay_row ::
  "json_cache \<Rightarrow> glob_crate \<Rightarrow> 'm wasm_host \<Rightarrow> 'm LoadedRules \<Rightarrow> ReplayOptions \<Rightarrow>
   replay \<times> decision_cache \<Rightarrow> AuditEntry \<Rightarrow> replay \<times> decision_cache" where
  "replay_row K G H loaded opts = (\<lambda>(s, c) e. (case skip_row opts e s of
      Some s \<Rightarrow> (s, c)
    | None \<Rightarrow> (let (sim, c) = cached_decision K (simulate G H loaded) (row_ctx e) c
               in (account_row opts (lr_rules loaded) e sim (count_replayed s), c))))"

definition start_replay :: "ReplayOptions \<Rightarrow> replay" where
  "start_replay opts = \<lparr>
     rp_rows = \<lparr>rc_decoded = 0, rc_replayed = 0, rc_filtered = 0, rc_malformed = 0, rc_scoped_agent = 0, rc_not_evaluated = 0\<rparr>,
     rp_outcomes = \<lparr>oc_auto_approve = 0, oc_auto_deny = 0, oc_prompt = 0, oc_mandated = 0, oc_uncovered = 0\<rparr>,
     rp_attribution = [], rp_shapes = [], rp_recorded = [],
     rp_costly = \<lparr>cw_total = 0, cw_now_automated = 0, cw_still_prompting = 0\<rparr>, rp_costly_shapes = [], rp_failures = [],
     rp_verification = \<lparr>vn_enabled = op_verify opts, vn_eligible = 0, vn_agree = 0, vn_deleted_rule = 0, vn_disabled_rule = 0,
       vn_pre_creation = 0, vn_scoped_agent = 0, vn_legacy_ssh = 0, vn_missing_rule_id = 0, vn_disagreements = 0,
       vn_failures = [], vn_failures_omitted = 0, vn_changed = 0, vn_changes = [], vn_changes_omitted = 0\<rparr>\<rparr>"

definition top_counts :: "counts \<Rightarrow> nat \<Rightarrow> (string \<times> nat) list" where
  "top_counts counts limit = take limit (sort_key (\<lambda>(label, n). (- int n, label)) counts)"

record RuleHealth =
  hl_loaded_rules :: nat
  hl_enabled_rules :: nat
  hl_scope_findings :: "ScopeFinding list"
  hl_refusals :: RuleRefusals

record StatsReport =
  sr_rows :: RowCounts
  sr_outcomes :: Outcomes
  sr_attribution :: "((string \<times> string) \<times> AttributionAccumulator) list"
  sr_prompt_shapes :: "(string \<times> nat) list"
  sr_prompt_recorded :: "((PromptTraffic \<times> string) \<times> nat) list"
  sr_costly :: CostlyRows
  sr_remaining_shapes :: "(string \<times> nat) list"
  sr_health :: RuleHealth
  sr_runtime_failures :: "((string \<times> string) \<times> nat) list"
  sr_verification :: Verification

definition report_of :: "'m LoadedRules \<Rightarrow> ScopeFinding list \<Rightarrow> ReplayOptions \<Rightarrow> replay \<Rightarrow> AuditReadSummary \<Rightarrow> StatsReport" where
  "report_of loaded findings opts s summary = \<lparr>
     sr_rows = (rp_rows s)\<lparr>rc_decoded := rs_entries summary, rc_malformed := rs_malformed summary\<rparr>,
     sr_outcomes = rp_outcomes s, sr_attribution = rp_attribution s, sr_prompt_shapes = top_counts (rp_shapes s) (op_top opts),
     sr_prompt_recorded = rp_recorded s, sr_costly = rp_costly s,
     sr_remaining_shapes = top_counts (rp_costly_shapes s) (op_top opts),
     sr_health = \<lparr>hl_loaded_rules = length (lr_rules loaded), hl_enabled_rules = length (filter ru_enabled (lr_rules loaded)),
       hl_scope_findings = findings, hl_refusals = lr_refusals loaded\<rparr>,
     sr_runtime_failures = rp_failures s, sr_verification = rp_verification s\<rparr>"

definition replay_audit ::
  "json_cache \<Rightarrow> glob_crate \<Rightarrow> 'm wasm_host \<Rightarrow> audit_json \<Rightarrow> string option \<Rightarrow> 'm LoadedRules \<Rightarrow> ScopeFinding list \<Rightarrow>
   ReplayOptions \<Rightarrow> StatsReport" where
  "replay_audit K G H J file loaded findings opts =
     (let ((s, c), summary) = visit_history J (replay_row K G H loaded opts) file
        (start_replay opts, \<lparr>dc_entries = [], dc_bytes = 0\<rparr>)
      in report_of loaded findings opts s summary)"

text \<open>The exit code of \<open>secreq rules stats --verify\<close> is 1 when this holds.\<close>

definition verification_failed :: "ReplayOptions \<Rightarrow> StatsReport \<Rightarrow> bool" where
  "verification_failed opts r \<longleftrightarrow> op_verify opts \<and>
     (vn_disagreements (sr_verification r) > 0 \<or> vn_eligible (sr_verification r) = 0
      \<or> rf_wasm (hl_refusals (sr_health r)) \<noteq> [] \<or> rf_patterns (hl_refusals (sr_health r)) \<noteq> []
      \<or> list_ex (\<lambda>f. fd_severity f = ErrorSeverity) (hl_scope_findings (sr_health r))
      \<or> sr_runtime_failures r \<noteq> [] \<or> rc_malformed (sr_rows r) > 0)"

section \<open>Visiting a log\<close>

text \<open>Two visits of one log keep what one row keeps of their states and of the number of rows.\<close>

lemma visit_line_related:
  assumes "\<And>n s t e. R n s t \<Longrightarrow> R (Suc n) (f s e) (g t e)"
  shows "R (rs_entries m) s t \<Longrightarrow>
    (case (visit_line f es (s, m), visit_line g es (t, m)) of ((s', m'), (t', m'')) \<Rightarrow> m' = m'' \<and> R (rs_entries m') s' t')"
proof (induction es arbitrary: s t m)
  case (Cons e es)
  show ?case
  proof (cases e)
    case (Some x)
    then show ?thesis using Cons.IH [of "m\<lparr>rs_entries := Suc (rs_entries m)\<rparr>"] assms [OF Cons.prems] by simp
  qed (use Cons.prems in simp)
qed simp

lemma visit_history_related:
  assumes "\<And>n s t e. R n s t \<Longrightarrow> R (Suc n) (f s e) (g t e)" "R 0 s t"
  shows "case (visit_history J f file s, visit_history J g file t) of
    ((s', m'), (t', m'')) \<Rightarrow> m' = m'' \<and> R (rs_entries m') s' t'"
proof -
  let ?F = "\<lambda>f l acc. if list_all is_ascii_whitespace l then acc else visit_line f (aj_stream J l) acc"
  have "case (fold (?F f) ls (s, m), fold (?F g) ls (t, m)) of ((s', m'), (t', m'')) \<Rightarrow> m' = m'' \<and> R (rs_entries m') s' t'"
    if "R (rs_entries m) s t" for ls m s t
    using that
  proof (induction ls arbitrary: s t m)
    case (Cons l ls)
    obtain s1 m1 t1 m2 where v: "visit_line f (aj_stream J l) (s, m) = (s1, m1)" "visit_line g (aj_stream J l) (t, m) = (t1, m2)"
      by (metis prod.exhaust)
    have "m1 = m2 \<and> R (rs_entries m1) s1 t1"
      using visit_line_related [where R = R and f = f and g = g, OF assms(1) Cons.prems, of "aj_stream J l"]
      unfolding v prod.case .
    then have "m1 = m2" "R (rs_entries m2) s1 t1" by blast+
    with Cons.IH [of m2 s1 t1] Cons.IH [OF Cons.prems] v show ?case by simp
  qed simp
  from this [of "\<lparr>rs_entries = 0, rs_malformed = 0\<rparr>"] assms(2) show ?thesis
    by (cases "file") (simp_all add: visit_history_def)
qed

section \<open>The cache changes nothing\<close>

text \<open>The replay that runs the rules on every row.\<close>

definition replay_row_uncached ::
  "glob_crate \<Rightarrow> 'm wasm_host \<Rightarrow> 'm LoadedRules \<Rightarrow> ReplayOptions \<Rightarrow> replay \<Rightarrow> AuditEntry \<Rightarrow> replay" where
  "replay_row_uncached G H loaded opts s e = (case skip_row opts e s of
      Some s \<Rightarrow> s
    | None \<Rightarrow> account_row opts (lr_rules loaded) e (simulate G H loaded (row_ctx e)) (count_replayed s))"

definition replay_uncached ::
  "glob_crate \<Rightarrow> 'm wasm_host \<Rightarrow> audit_json \<Rightarrow> string option \<Rightarrow> 'm LoadedRules \<Rightarrow> ScopeFinding list \<Rightarrow> ReplayOptions \<Rightarrow> StatsReport" where
  "replay_uncached G H J file loaded findings opts =
     (let (s, summary) = visit_history J (replay_row_uncached G H loaded opts) file (start_replay opts)
      in report_of loaded findings opts s summary)"

definition cache_sound :: "json_cache \<Rightarrow> (EvalCtx \<Rightarrow> Simulated) \<Rightarrow> decision_cache \<Rightarrow> bool" where
  "cache_sound K run c \<longleftrightarrow> (\<forall>k sim. map_of (dc_entries c) k = Some sim \<longrightarrow> (\<exists>ctx. k = jc_key K ctx \<and> sim = run ctx))
     \<and> hm_wf (dc_entries c) \<and> dc_bytes c \<le> MAX_DECISION_CACHE_BYTES"

lemma cached_decision_sound:
  assumes "inj (jc_key K)" "cache_sound K f c"
  shows "fst (cached_decision K f ctx c) = f ctx \<and> cache_sound K f (snd (cached_decision K f ctx c))"
proof (cases "map_of (dc_entries c) (jc_key K ctx)")
  case None
  then show ?thesis using assms(2) by (auto simp: cached_decision_def cache_sound_def Let_def)
next
  case (Some sim)
  then obtain ctx' where "jc_key K ctx = jc_key K ctx'" "sim = f ctx'" using assms(2) by (auto simp: cache_sound_def)
  then have "sim = f ctx" using injD [OF assms(1)] by metis
  then show ?thesis using Some assms(2) by (simp add: cached_decision_def)
qed

lemma uncached_replay:
  assumes "inj (jc_key K)"
  shows "replay_audit K G H J file loaded findings opts = replay_uncached G H J file loaded findings opts"
proof -
  let ?R = "\<lambda>_ sc t. fst sc = t \<and> cache_sound K (simulate G H loaded) (snd sc)"
  have step: "?R (Suc n) (replay_row K G H loaded opts sc e) (replay_row_uncached G H loaded opts t e)" if "?R n sc t" for n sc t e
    using that cached_decision_sound [OF assms, of "simulate G H loaded" "snd sc" "row_ctx e"]
    by (cases sc) (auto simp: replay_row_def replay_row_uncached_def split: option.splits prod.splits)
  have start: "?R 0 (start_replay opts, \<lparr>dc_entries = [], dc_bytes = 0\<rparr>) (start_replay opts)"
    by (simp add: cache_sound_def)
  from visit_history_related [where R = ?R and J = J and f = "replay_row K G H loaded opts" and g = "replay_row_uncached G H loaded opts", OF step start, of "file"] show ?thesis
    by (auto simp: replay_audit_def replay_uncached_def split: prod.splits)
qed

section \<open>The books\<close>

definition total :: "('k \<times> nat) list \<Rightarrow> nat" where
  "total m = sum_list (map snd m)"

lemma total_bump: "bt_wf m \<Longrightarrow> total (bump k m) = Suc (total m)"
proof -
  have "total (bt_insert k (Suc (case map_of m k of Some n \<Rightarrow> n | None \<Rightarrow> 0)) m) = Suc (total m)" if "bt_wf m" for m
    using that
  proof (induction m)
    case (Cons x m)
    obtain k' n where x: "x = (k', n)" by (cases x)
    have wf: "bt_wf m" "\<forall>y \<in> fst ` set m. k' < y" using Cons.prems by (auto simp: bt_wf_def x)
    then have "k < k' \<Longrightarrow> map_of m k = None" by (auto simp: map_of_eq_None_iff dest: less_trans)
    with Cons.IH [OF wf(1)] show ?case by (auto simp: x total_def)
  qed (simp add: total_def)
  then show "bt_wf m \<Longrightarrow> total (bump k m) = Suc (total m)" by (simp add: bump_def)
qed

lemma bt_wf_bump: "bt_wf m \<Longrightarrow> bt_wf (bump k m)"
  by (simp add: bump_def)

definition verdicts_balance :: "nat \<Rightarrow> Verification \<Rightarrow> bool" where
  "verdicts_balance limit v \<longleftrightarrow> vn_eligible v = vn_agree v + vn_disagreements v
     \<and> vn_disagreements v = length (vn_failures v) + vn_failures_omitted v \<and> length (vn_failures v) \<le> limit
     \<and> vn_changed v = length (vn_changes v) + vn_changes_omitted v \<and> length (vn_changes v) \<le> limit
     \<and> vn_changed v \<le> vn_agree v"

definition books_balance :: "ReplayOptions \<Rightarrow> nat \<Rightarrow> replay \<Rightarrow> bool" where
  "books_balance opts n s \<longleftrightarrow>
     rc_replayed (rp_rows s) + rc_filtered (rp_rows s) + rc_scoped_agent (rp_rows s) + rc_not_evaluated (rp_rows s) = n
     \<and> oc_auto_approve (rp_outcomes s) + oc_auto_deny (rp_outcomes s) + oc_prompt (rp_outcomes s) = rc_replayed (rp_rows s)
     \<and> oc_mandated (rp_outcomes s) + oc_uncovered (rp_outcomes s) = oc_prompt (rp_outcomes s)
     \<and> bt_wf (rp_shapes s) \<and> total (rp_shapes s) = oc_prompt (rp_outcomes s)
     \<and> bt_wf (rp_recorded s) \<and> total (rp_recorded s) = oc_prompt (rp_outcomes s) + rc_scoped_agent (rp_rows s)
     \<and> cw_now_automated (rp_costly s) + cw_still_prompting (rp_costly s) = cw_total (rp_costly s)
     \<and> bt_wf (rp_costly_shapes s) \<and> total (rp_costly_shapes s) = cw_still_prompting (rp_costly s)
     \<and> verdicts_balance (op_top opts) (rp_verification s)"

lemma verify_row_balance: "verdicts_balance limit v \<Longrightarrow> verdicts_balance limit (verify_row limit rules e sim v)"
  by (auto simp: verify_row_def compare_row_def note_change_def note_failure_def verdicts_balance_def Let_def
      split: option.split prod.split)

lemma credit_frame [simp]:
  "rp_rows (credit i d n a b s) = rp_rows s" "rp_outcomes (credit i d n a b s) = rp_outcomes s"
  "rp_shapes (credit i d n a b s) = rp_shapes s" "rp_recorded (credit i d n a b s) = rp_recorded s"
  "rp_costly (credit i d n a b s) = rp_costly s" "rp_costly_shapes (credit i d n a b s) = rp_costly_shapes s"
  "rp_verification (credit i d n a b s) = rp_verification s"
  by (simp_all add: credit_def Let_def)

lemma credit_winner_balance: "books_balance opts n (credit_winner sim d s) = books_balance opts n s"
  by (simp add: credit_winner_def books_balance_def split: option.split)

lemma credits_balance: "books_balance opts n (fold (\<lambda>(_, i). credit i d (f i) a b) kvs s) = books_balance opts n s"
  by (induction kvs arbitrary: s) (simp_all add: books_balance_def split: prod.split)

lemma record_outcome_frame:
  "rp_costly (record_outcome rules e sim s) = rp_costly s" "rp_costly_shapes (record_outcome rules e sim s) = rp_costly_shapes s"
  "rp_verification (record_outcome rules e sim s) = rp_verification s" "rp_rows (record_outcome rules e sim s) = rp_rows s"
proof -
  have "rp_costly (credit_winner sim d s) = rp_costly s" "rp_costly_shapes (credit_winner sim d s) = rp_costly_shapes s"
    "rp_verification (credit_winner sim d s) = rp_verification s" "rp_rows (credit_winner sim d s) = rp_rows s" for d s
    by (simp_all add: credit_winner_def split: option.split)
  moreover have "rp_costly (fold (\<lambda>(_, i). credit i d (f i) a b) kvs s) = rp_costly s"
    "rp_costly_shapes (fold (\<lambda>(_, i). credit i d (f i) a b) kvs s) = rp_costly_shapes s"
    "rp_verification (fold (\<lambda>(_, i). credit i d (f i) a b) kvs s) = rp_verification s"
    "rp_rows (fold (\<lambda>(_, i). credit i d (f i) a b) kvs s) = rp_rows s" for d f a b s and kvs :: "(string \<times> string) list"
    by (induction kvs arbitrary: s; simp split: prod.split)+
  ultimately show "rp_costly (record_outcome rules e sim s) = rp_costly s" "rp_costly_shapes (record_outcome rules e sim s) = rp_costly_shapes s"
    "rp_verification (record_outcome rules e sim s) = rp_verification s" "rp_rows (record_outcome rules e sim s) = rp_rows s"
    by (simp_all add: record_outcome_def bump_recorded_def Let_def split: SimulatedKind.split)
qed

lemma record_outcome_balance:
  assumes "books_balance opts n s"
  shows "books_balance opts (Suc n) (record_outcome rules e sim (count_replayed s))"
proof (cases "sm_kind sim")
  case SimApprove
  have "books_balance opts (Suc n) (count_replayed s\<lparr>rp_outcomes := (rp_outcomes s)\<lparr>oc_auto_approve := Suc (oc_auto_approve (rp_outcomes s))\<rparr>\<rparr>)"
    using assms by (simp add: books_balance_def count_replayed_def)
  then show ?thesis
    using SimApprove by (simp add: record_outcome_def Let_def credits_balance credit_winner_balance count_replayed_def)
next
  case SimDeny
  have "books_balance opts (Suc n) (count_replayed s\<lparr>rp_outcomes := (rp_outcomes s)\<lparr>oc_auto_deny := Suc (oc_auto_deny (rp_outcomes s))\<rparr>\<rparr>)"
    using assms by (simp add: books_balance_def count_replayed_def)
  then show ?thesis using SimDeny by (simp add: record_outcome_def credit_winner_balance count_replayed_def)
next
  case SimPrompt
  then show ?thesis
    using assms by (auto simp: record_outcome_def books_balance_def count_replayed_def bump_recorded_def credit_winner_def Let_def
        total_bump bt_wf_bump split: option.split)
qed

lemma count_costly_balance: "books_balance opts n s \<Longrightarrow> books_balance opts n (count_costly e sim s)"
  by (auto simp: count_costly_def books_balance_def Let_def total_bump bt_wf_bump)

lemma skip_row_balance: "books_balance opts n s \<Longrightarrow> skip_row opts e s = Some s' \<Longrightarrow> books_balance opts (Suc n) s'"
  by (auto simp: skip_row_def books_balance_def bump_recorded_def verdicts_balance_def Let_def total_bump bt_wf_bump split: if_splits)

lemma replay_row_balance:
  assumes "books_balance opts n (fst sc)"
  shows "books_balance opts (Suc n) (fst (replay_row K G H loaded opts sc e))"
proof -
  obtain s c where sc: "sc = (s, c)" by (cases sc)
  show ?thesis
  proof (cases "skip_row opts e s")
    case (Some s')
    then show ?thesis using assms skip_row_balance by (simp add: sc replay_row_def)
  next
    case None
    obtain sim c' where sim: "cached_decision K (simulate G H loaded) (row_ctx e) c = (sim, c')" by force
    define t where "t = s\<lparr>rp_failures := fold bump (sm_failures sim) (rp_failures s)\<rparr>"
    have "books_balance opts n t" using assms by (simp add: t_def sc books_balance_def)
    then have "books_balance opts (Suc n) (count_costly e sim (record_outcome (lr_rules loaded) e sim (count_replayed t)))"
      by (intro count_costly_balance record_outcome_balance)
    moreover have "(count_replayed s)\<lparr>rp_failures := fold bump (sm_failures sim) (rp_failures (count_replayed s))\<rparr> = count_replayed t"
      by (simp add: t_def count_replayed_def)
    ultimately have "books_balance opts (Suc n) (account_row opts (lr_rules loaded) e sim (count_replayed s))"
      by (auto simp: account_row_def Let_def books_balance_def verify_row_balance)
    then show ?thesis by (simp add: sc replay_row_def None sim)
  qed
qed

text \<open>The books of a report balance: every decoded row is replayed or under one of the three
  counts of rows that are not, every replayed row has one outcome, the prompts are mandated or
  uncovered and each is counted under its shape and its recorded decision, and of the automatic
  decisions that are checked each agrees or is a disagreement, listed up to the limit.\<close>

theorem report_books_balance:
  assumes "r = replay_audit K G H J file loaded findings opts"
  shows "rc_replayed (sr_rows r) + rc_filtered (sr_rows r) + rc_scoped_agent (sr_rows r) + rc_not_evaluated (sr_rows r)
      = rc_decoded (sr_rows r)
    \<and> oc_auto_approve (sr_outcomes r) + oc_auto_deny (sr_outcomes r) + oc_prompt (sr_outcomes r) = rc_replayed (sr_rows r)
    \<and> oc_mandated (sr_outcomes r) + oc_uncovered (sr_outcomes r) = oc_prompt (sr_outcomes r)
    \<and> total (sr_prompt_recorded r) = oc_prompt (sr_outcomes r) + rc_scoped_agent (sr_rows r)
    \<and> length (sr_prompt_shapes r) \<le> op_top opts \<and> total (sr_prompt_shapes r) \<le> oc_prompt (sr_outcomes r)
    \<and> cw_now_automated (sr_costly r) + cw_still_prompting (sr_costly r) = cw_total (sr_costly r)
    \<and> verdicts_balance (op_top opts) (sr_verification r)"
proof -
  obtain s c m where v: "visit_history J (replay_row K G H loaded opts) file (start_replay opts, \<lparr>dc_entries = [], dc_bytes = 0\<rparr>) = ((s, c), m)"
    by (metis prod.exhaust)
  let ?R = "\<lambda>n sc t. books_balance opts n (fst sc) \<and> t = sc"
  have "?R 0 (start_replay opts, \<lparr>dc_entries = [], dc_bytes = 0\<rparr>) (start_replay opts, \<lparr>dc_entries = [], dc_bytes = 0\<rparr>)"
    by (simp add: start_replay_def books_balance_def verdicts_balance_def total_def)
  with visit_history_related [where R = ?R and J = J and f = "replay_row K G H loaded opts" and g = "replay_row K G H loaded opts", of _ _ "file"]
  have "books_balance opts (rs_entries m) s" using v replay_row_balance by fastforce
  then have b: "books_balance opts (rs_entries m) s" "r = report_of loaded findings opts s m"
    using assms v by (simp_all add: replay_audit_def)
  have top: "total (top_counts cs k) \<le> total cs" for cs k
  proof -
    let ?l = "sort_key (\<lambda>(label, n). (- int n, label)) cs"
    have "total (take k ?l) + total (drop k ?l) = total ?l"
      unfolding total_def by (metis append_take_drop_id map_append sum_list_append)
    moreover have "total ?l = total cs"
    proof -
      have "mset (map snd ?l) = mset (map snd cs)" by (metis mset_map mset_sort)
      then show ?thesis unfolding total_def by (metis sum_mset_sum_list)
    qed
    ultimately show ?thesis by (simp add: top_counts_def)
  qed
  have "total (rp_shapes s) = oc_prompt (rp_outcomes s)" using b(1) by (simp add: books_balance_def)
  with top [of "rp_shapes s" "op_top opts"] show ?thesis
    using b(1) by (simp add: b(2) report_of_def books_balance_def top_counts_def)
qed

text \<open>If the JSON of a context determines the context, the report of a replay with the cache of
  decisions is that of a replay that runs the rules on every row.\<close>

theorem decision_cache_is_transparent:
  assumes "inj (jc_key K)"
  shows "replay_audit K G H J file loaded findings opts = replay_uncached G H J file loaded findings opts"
  by (rule uncached_replay [OF assms])

section \<open>The replay and the daemon\<close>

lemma only_scopes_matter:
  assumes "rf_scopes R = []"
  shows "evaluate_with_refusals G H rules modules R ctx = evaluate G H rules modules ctx"
proof -
  have "eval_step G H modules R ctx = eval_step G H modules no_refusals ctx"
    using assms by (auto simp: fun_eq_iff eval_step_def scope_refusal_of_def no_refusals_def)
  then show ?thesis by (simp add: evaluate_def evaluate_with_refusals_def)
qed

text \<open>As long as no rule's consultation scope was refused, what the replay says of a row is what
  the daemon's evaluation of the same ask says.\<close>

theorem replay_follows_the_daemon:
  assumes "rf_scopes (lr_refusals loaded) = []"
  shows "simulate G H loaded ctx =
    simulated_of (evaluate_with_refusals G H (lr_rules loaded) (lr_modules loaded) (lr_refusals loaded) ctx)"
  by (simp add: simulate_def only_scopes_matter assms)

section \<open>Concrete instances\<close>

definition shell_config :: WrapsConfig where
  "shell_config = sample_config\<lparr>cfg_wraps := [(''gh'', \<lparr>wr_name = ''gh'', wr_reason = None, wr_env_secrets = [],
     wr_env = [(''TOK'', ''plain'')]\<rparr>)], cfg_secrets := []\<rparr>"

text \<open>A rule whose consultation scope names a wrap that is not in the configuration.\<close>

definition typo_rules :: "Rule list" where
  "typo_rules = [(sample_rule ''r1'' StaticApprove)\<lparr>ru_wraps := Some [''gh'', ''typo'']\<rparr>]"

definition typo_loaded :: "unit LoadedRules" where
  "typo_loaded = \<lparr>lr_rules = typo_rules, lr_mtime = None, lr_scope_config_mtime = None, lr_modules = [],
     lr_refusals = no_refusals\<lparr>rf_scopes := wrap_scope_refusals typo_rules shell_config\<rparr>, lr_stray = []\<rparr>"

definition auto_row :: AuditEntry where
  "auto_row = \<lparr>ae_ts_unix = 5, ae_cwd = ''/'', ae_wrap = ''gh'', ae_args = [''pr''], ae_command = Some [''gh'', ''pr''], ae_callers = [],
     ae_callers_truncated = Some False, ae_secrets = [''TOK''], ae_decision = ''approve+auto'', ae_deciding_device = None,
     ae_reason = None, ae_rule_id = Some ''r1'', ae_approvers = [], ae_fingerprint = None, ae_sign_anchor = None,
     ae_declared_by = None, ae_unverified_guest_chain = None\<rparr>"

definition one_row_json :: audit_json where
  "one_row_json = \<lparr>aj_entry = (\<lambda>_. ''row''), aj_survivors = (\<lambda>_. ''row''), aj_stream = (\<lambda>_. [Some auto_row])\<rparr>"

text \<open>A key that determines the context: every part ends where it says.\<close>

definition prefix_free :: "('a \<Rightarrow> string) \<Rightarrow> bool" where
  "prefix_free f \<longleftrightarrow> (\<forall>a b x y. f a @ x = f b @ y \<longrightarrow> a = b \<and> x = y)"

fun enc_list :: "('a \<Rightarrow> string) \<Rightarrow> 'a list \<Rightarrow> string" where
  "enc_list f [] = ''.''"
| "enc_list f (x # xs) = ''+'' @ f x @ enc_list f xs"

definition enc_string :: "string \<Rightarrow> string" where
  "enc_string = enc_list (\<lambda>c. [c])"

definition enc_caller :: "EvalCaller \<Rightarrow> string" where
  "enc_caller c = enc_string (ec_name c) @ enc_string (ec_command c)
     @ enc_list enc_string (case ec_exe c of Some e \<Rightarrow> [e] | None \<Rightarrow> [])"

definition enc_ctx :: "EvalCtx \<Rightarrow> string" where
  "enc_ctx c = enc_string (cx_wrap c) @ enc_string (cx_joined_argv c) @ enc_list enc_caller (cx_callers c)
     @ enc_string (cx_cwd c) @ enc_list enc_string (cx_secrets c)"

lemma prefix_freeD: "prefix_free f \<Longrightarrow> f a @ x = f b @ y \<longleftrightarrow> a = b \<and> x = y"
  by (auto simp: prefix_free_def)

lemma prefix_free_list:
  assumes "prefix_free f"
  shows "prefix_free (enc_list f)"
proof -
  have "enc_list f as @ x = enc_list f bs @ y \<Longrightarrow> as = bs \<and> x = y" for as bs x y
  proof (induction as arbitrary: bs)
    case Nil
    then show ?case by (cases bs) simp_all
  next
    case (Cons a as)
    then show ?case by (cases bs) (auto simp: prefix_freeD [OF assms])
  qed
  then show ?thesis by (simp add: prefix_free_def)
qed

lemma prefix_free_string: "prefix_free enc_string"
  unfolding enc_string_def by (rule prefix_free_list) (simp add: prefix_free_def)

lemma prefix_free_caller: "prefix_free enc_caller"
proof -
  note frees = prefix_freeD [OF prefix_free_string] prefix_freeD [OF prefix_free_list [OF prefix_free_string]]
  have "a = b \<and> x = y" if "enc_caller a @ x = enc_caller b @ y" for a b x y
    using that by (cases a; cases b) (auto simp: enc_caller_def frees split: option.splits)
  then show ?thesis by (simp add: prefix_free_def)
qed

lemma enc_ctx_inj: "inj enc_ctx"
proof (rule injI)
  note frees = prefix_freeD [OF prefix_free_string] prefix_freeD [OF prefix_free_list [OF prefix_free_string]]
    prefix_freeD [OF prefix_free_list [OF prefix_free_caller]]
  have "a = b" if "enc_ctx a @ x = enc_ctx b @ y" for a b x y
    using that by (cases a; cases b) (simp add: enc_ctx_def frees)
  then show "enc_ctx a = enc_ctx b \<Longrightarrow> a = b" for a b by metis
qed

definition demo_key :: json_cache where
  "demo_key = \<lparr>jc_key = enc_ctx, jc_entry_size = 200\<rparr>"

lemma demo_key_inj: "inj (jc_key demo_key)"
  by (simp add: demo_key_def enc_ctx_inj)

definition verify_all :: ReplayOptions where
  "verify_all = \<lparr>op_since_unix = None, op_wrap = None, op_top = 15, op_verify = True\<rparr>"

definition demo_report :: StatsReport where
  "demo_report = replay_audit demo_key sample_glob sample_host one_row_json (Some ''row'') typo_loaded
     (validate_rule_scopes shell_config typo_rules) verify_all"

lemma demo_report_uncached:
  "demo_report = replay_uncached sample_glob sample_host one_row_json (Some ''row'') typo_loaded
     (validate_rule_scopes shell_config typo_rules) verify_all"
  unfolding demo_report_def by (rule uncached_replay [OF demo_key_inj])

lemma demo_replay:
  "oc_auto_approve (sr_outcomes demo_report) = 1" "vn_agree (sr_verification demo_report) = 1"
  "\<not> verification_failed verify_all demo_report"
  unfolding demo_report_uncached by code_simp+

text \<open>A rule whose scope names an unknown wrap is dropped by the daemon, which then prompts, but not
  by the replay, which reports the automatic approval, agrees with the log and passes the check.\<close>

theorem verification_misses_refused_scopes:
  "\<not> verification_failed verify_all demo_report \<and> oc_auto_approve (sr_outcomes demo_report) = 1
   \<and> hl_scope_findings (sr_health demo_report) = []
   \<and> ev_hit (evaluate_with_refusals sample_glob sample_host (lr_rules typo_loaded) (lr_modules typo_loaded)
        (lr_refusals typo_loaded) (row_ctx auto_row)) = None"
proof (intro conjI)
  show "hl_scope_findings (sr_health demo_report) = []" unfolding demo_report_uncached by code_simp
  show "ev_hit (evaluate_with_refusals sample_glob sample_host (lr_rules typo_loaded) (lr_modules typo_loaded)
        (lr_refusals typo_loaded) (row_ctx auto_row)) = None"
    by code_simp
qed (rule demo_replay)+

theorem report_books_balance_witness:
  "oc_auto_approve (sr_outcomes demo_report) = 1 \<and> rc_replayed (sr_rows demo_report) = 1
   \<and> rc_replayed (sr_rows demo_report) + rc_filtered (sr_rows demo_report) + rc_scoped_agent (sr_rows demo_report)
      + rc_not_evaluated (sr_rows demo_report) = rc_decoded (sr_rows demo_report)"
proof -
  have "rc_replayed (sr_rows demo_report) = 1" unfolding demo_report_uncached by code_simp
  then show ?thesis using report_books_balance [OF demo_report_def] demo_replay(1) by simp
qed

theorem decision_cache_is_transparent_witness:
  "replay_audit demo_key sample_glob sample_host one_row_json (Some ''row'') typo_loaded [] verify_all
     = replay_uncached sample_glob sample_host one_row_json (Some ''row'') typo_loaded [] verify_all"
  by (rule decision_cache_is_transparent [OF demo_key_inj])

theorem replay_follows_the_daemon_witness:
  "sm_kind (simulated_of (evaluate_with_refusals sample_glob sample_host [sample_rule ''r1'' StaticApprove] [] no_refusals sample_ctx)) = SimApprove
   \<and> sm_kind (simulate sample_glob sample_host (typo_loaded\<lparr>lr_rules := [sample_rule ''r1'' StaticApprove], lr_refusals := no_refusals\<rparr>) sample_ctx)
      = SimApprove"
proof -
  let ?l = "typo_loaded\<lparr>lr_rules := [sample_rule ''r1'' StaticApprove], lr_refusals := no_refusals\<rparr>"
  have "sm_kind (simulated_of (evaluate_with_refusals sample_glob sample_host [sample_rule ''r1'' StaticApprove] [] no_refusals sample_ctx)) = SimApprove"
    by code_simp
  moreover have "rf_scopes (lr_refusals ?l) = []" by (simp add: no_refusals_def)
  note replay_follows_the_daemon [OF this, of sample_glob sample_host sample_ctx]
  ultimately show ?thesis by (simp add: typo_loaded_def)
qed

end
