(* ===== verification/Shim.thy ===== *)
theory Shim
  imports Paths "HOL-Library.Word"
begin

text \<open>
  \<open>src/packages/secreq/src/shim.rs\<close>, the shims a user's \<open>PATH\<close> finds first, and
  \<open>commands/binaries.rs\<close>, which looks for the real binary behind them. The file system maps a path
  to what is there; a symbolic link names the path its chain ends at. A call may fail, and a write
  that fails may leave a part of what it wrote. Other processes do not touch the files meanwhile.
\<close>

unbundle bit_operations_syntax

section \<open>Files\<close>

type_synonym mode = "32 word"

datatype node = Regular string mode | Symlink string | Directory mode

datatype fault = Fine | NotOpened | Short nat

record shim_fs =
  sf_node :: "string \<Rightarrow> node option"
  sf_umask :: mode
  sf_stat_fails :: "string \<Rightarrow> bool"
  sf_read_fails :: "string \<Rightarrow> bool"
  sf_write :: "string \<Rightarrow> fault"
  sf_chmod_fails :: "string \<Rightarrow> bool"
  sf_remove_fails :: "string \<Rightarrow> bool"
  sf_mkdir_fails :: "string \<Rightarrow> bool"

definition put_node :: "string \<Rightarrow> node option \<Rightarrow> shim_fs \<Rightarrow> shim_fs" where
  "put_node p n fs = fs\<lparr>sf_node := (sf_node fs)(p := n)\<rparr>"

text \<open>What a call that follows links finds; the empty path names nothing.\<close>

definition followed :: "shim_fs \<Rightarrow> string \<Rightarrow> node option" where
  "followed fs p = (if p = [] then None else (case sf_node fs p of Some (Symlink t) \<Rightarrow> sf_node fs t | n \<Rightarrow> n))"

datatype shim_error =
    BadWrapName
  | NoOwnPath
  | IsSymlink
  | StatError
  | ReadError
  | WriteError
  | ChmodError
  | MkdirError
  | RemoveError
  | NotManaged

section \<open>The body of a shim\<close>

definition SENTINEL :: string where "SENTINEL = ''secreq-managed-shim''"

definition sh_quote :: "string \<Rightarrow> string" where
  "sh_quote s = [CHR 0x27] @ replace_sub [CHR 0x27] [CHR 0x27, CHR 0x5C, CHR 0x27, CHR 0x27] s @ [CHR 0x27]"

definition validate_wrap_name :: "string \<Rightarrow> bool" where
  "validate_wrap_name name \<longleftrightarrow> name \<noteq> [] \<and> name \<noteq> ''.'' \<and> name \<noteq> ''..''
     \<and> CHR ''/'' \<notin> set name \<and> CHR 0x00 \<notin> set name \<and> CHR 0x0A \<notin> set name \<and> CHR 0x0D \<notin> set name
     \<and> name \<noteq> ''secreq''"

definition exec_line :: "string \<Rightarrow> string \<Rightarrow> string" where
  "exec_line exe name = ''exec '' @ sh_quote exe @ '' x '' @ sh_quote name @ '' \"$@\"''"

definition shim_head :: "string \<Rightarrow> string" where
  "shim_head name = ''#!/bin/sh'' @ [CHR 0x0A] @ ''# '' @ SENTINEL @ '': wrap='' @ name @ [CHR 0x0A]
     @ ''# Created by `secreq wrap '' @ name @ ''`. Removed by `secreq unwrap '' @ name @ ''`.'' @ [CHR 0x0A]
     @ ''# Do not edit by hand.'' @ [CHR 0x0A]"

definition body :: "string \<Rightarrow> string \<Rightarrow> string" where
  "body exe name = shim_head name @ exec_line exe name @ [CHR 0x0A]"

section \<open>Installing and removing\<close>

definition shim_entry :: "shim_fs \<Rightarrow> string \<Rightarrow> shim_error + node option" where
  "shim_entry fs p = (if sf_stat_fails fs p then Inl StatError
     else (case sf_node fs p of Some (Symlink _) \<Rightarrow> Inl IsSymlink | n \<Rightarrow> Inr n))"

definition read_to_string :: "shim_fs \<Rightarrow> string \<Rightarrow> string option" where
  "read_to_string fs p = (if sf_read_fails fs p then None
     else (case followed fs p of Some (Regular text _) \<Rightarrow> if utf8_ok text then Some text else None | _ \<Rightarrow> None))"

text \<open>\<open>fs::write\<close>: a new file gets mode 0666 less the umask, an old one keeps its mode.\<close>

definition write_file :: "string \<Rightarrow> string \<Rightarrow> shim_fs \<Rightarrow> bool \<times> shim_fs" where
  "write_file p text fs =
     (let target = (case sf_node fs p of Some (Symlink t) \<Rightarrow> t | _ \<Rightarrow> p);
          m = (case sf_node fs target of Some (Regular _ m) \<Rightarrow> m | _ \<Rightarrow> 438 AND NOT (sf_umask fs))
      in case sf_node fs target of
           Some (Directory _) \<Rightarrow> (False, fs)
         | _ \<Rightarrow> (case sf_write fs p of
               NotOpened \<Rightarrow> (False, fs)
             | Short n \<Rightarrow> (False, put_node target (Some (Regular (take n text) m)) fs)
             | Fine \<Rightarrow> (True, put_node target (Some (Regular text m)) fs)))"

fun with_mode :: "mode \<Rightarrow> node \<Rightarrow> node" where
  "with_mode m (Regular text _) = Regular text m"
| "with_mode m (Directory _) = Directory m"
| "with_mode m (Symlink t) = Symlink t"

definition set_permissions :: "string \<Rightarrow> mode \<Rightarrow> shim_fs \<Rightarrow> bool \<times> shim_fs" where
  "set_permissions p m fs =
     (let target = (case sf_node fs p of Some (Symlink t) \<Rightarrow> t | _ \<Rightarrow> p)
      in if sf_chmod_fails fs p then (False, fs)
         else (case sf_node fs target of
             None \<Rightarrow> (False, fs)
           | Some n \<Rightarrow> (True, put_node target (Some (with_mode m n)) fs)))"

definition SHIM_DIR_MODE :: mode where "SHIM_DIR_MODE = 448"

definition mode_of :: "node \<Rightarrow> mode" where
  "mode_of n = (case n of Regular _ m \<Rightarrow> m | Directory m \<Rightarrow> m | Symlink _ \<Rightarrow> 511)"

text \<open>
  \<open>DirBuilder\<close> with \<open>recursive(true)\<close>: one \<open>mkdir\<close>, and where the parent is missing the parent
  first and then \<open>mkdir\<close> again. What is there already is fine when it is a directory. A relative
  path's first component is made in the working directory, which exists.
\<close>

definition is_dir :: "shim_fs \<Rightarrow> string \<Rightarrow> bool" where
  "is_dir fs p \<longleftrightarrow> \<not> sf_stat_fails fs p \<and> (case followed fs p of Some (Directory _) \<Rightarrow> True | _ \<Rightarrow> False)"

datatype mkdir_result = Made | ParentMissing | MkdirRefused

definition mkdir :: "string \<Rightarrow> shim_fs \<Rightarrow> mkdir_result \<times> shim_fs" where
  "mkdir d fs =
     (let parent = path_parent d
      in if sf_mkdir_fails fs d \<or> sf_node fs d \<noteq> None then (MkdirRefused, fs)
         else if parent = [] \<and> starts_with d ''/'' then (MkdirRefused, fs)
         else if parent \<noteq> [] \<and> followed fs parent = None then (ParentMissing, fs)
         else if parent \<noteq> [] \<and> (case followed fs parent of Some (Directory _) \<Rightarrow> False | _ \<Rightarrow> True) then (MkdirRefused, fs)
         else (Made, put_node d (Some (Directory (SHIM_DIR_MODE AND NOT (sf_umask fs)))) fs))"

function create_dir :: "string \<Rightarrow> shim_fs \<Rightarrow> bool \<times> shim_fs" where
  "create_dir d fs = (if d = [] then (True, fs) else (case mkdir d fs of
      (Made, fs1) \<Rightarrow> (True, fs1)
    | (MkdirRefused, fs1) \<Rightarrow> (is_dir fs1 d, fs1)
    | (ParentMissing, fs1) \<Rightarrow> (case create_dir (path_parent d) fs1 of
          (False, fs2) \<Rightarrow> (False, fs2)
        | (True, fs2) \<Rightarrow> (case mkdir d fs2 of
              (Made, fs3) \<Rightarrow> (True, fs3)
            | (_, fs3) \<Rightarrow> (is_dir fs3 d, fs3)))))"
  by pat_completeness auto
termination by (relation "measure (length \<circ> fst)") (auto intro: path_parent_shorter)

declare create_dir.simps [simp del]

definition ensure_shim_dir :: "string \<Rightarrow> shim_fs \<Rightarrow> (shim_error + unit) \<times> shim_fs" where
  "ensure_shim_dir d fs =
     (let created = (sf_stat_fails fs d \<or> followed fs d = None);
          (ok, fs1) = create_dir d fs
      in if \<not> ok then (Inl MkdirError, fs1)
         else if sf_stat_fails fs1 d then (Inl StatError, fs1)
         else (case followed fs1 d of
             None \<Rightarrow> (Inl StatError, fs1)
           | Some n \<Rightarrow>
               (let current = mode_of n AND 511;
                    wanted = (if created then SHIM_DIR_MODE else current AND NOT 18)
                in if current = wanted then (Inr (), fs1)
                   else (let (ok, fs2) = set_permissions d wanted fs1
                         in (if ok then Inr () else Inl ChmodError, fs2)))))"

definition make_executable :: "string \<Rightarrow> shim_fs \<Rightarrow> (shim_error + unit) \<times> shim_fs" where
  "make_executable p fs = (if sf_stat_fails fs p \<or> followed fs p = None then (Inl StatError, fs)
     else (let (ok, fs1) = set_permissions p 493 fs in (if ok then Inr () else Inl ChmodError, fs1)))"

definition write_shim :: "string \<Rightarrow> string \<Rightarrow> string \<Rightarrow> shim_fs \<Rightarrow> (shim_error + string) \<times> shim_fs" where
  "write_shim p exe name fs =
     (let (ok, fs1) = write_file p (body exe name) fs
      in if \<not> ok then (Inl WriteError, fs1)
         else (case make_executable p fs1 of (Inl e, fs2) \<Rightarrow> (Inl e, fs2) | (Inr _, fs2) \<Rightarrow> (Inr p, fs2)))"

text \<open>\<open>exe\<close> is the canonical path of the running binary, \<open>None\<close> where the system does not tell.\<close>

definition install :: "string option \<Rightarrow> string \<Rightarrow> string \<Rightarrow> shim_fs \<Rightarrow> (shim_error + string) \<times> shim_fs" where
  "install exe d name fs =
     (if \<not> validate_wrap_name name then (Inl BadWrapName, fs)
      else (case exe of
          None \<Rightarrow> (Inl NoOwnPath, fs)
        | Some e \<Rightarrow> (case ensure_shim_dir d fs of
              (Inl err, fs1) \<Rightarrow> (Inl err, fs1)
            | (Inr _, fs1) \<Rightarrow>
                (let p = path_join d name
                 in case shim_entry fs1 p of
                      Inl err \<Rightarrow> (Inl err, fs1)
                    | Inr None \<Rightarrow> write_shim p e name fs1
                    | Inr (Some _) \<Rightarrow> (case read_to_string fs1 p of
                          None \<Rightarrow> (Inl ReadError, fs1)
                        | Some old \<Rightarrow>
                            if contains_sub old SENTINEL then write_shim p e name fs1
                            else (Inl NotManaged, fs1))))))"

fun reinstall_all :: "string option \<Rightarrow> string \<Rightarrow> string list \<Rightarrow> shim_fs \<Rightarrow> (shim_error + string list) \<times> shim_fs" where
  "reinstall_all exe d [] fs = (Inr [], fs)"
| "reinstall_all exe d (name # names) fs = (case install exe d name fs of
      (Inl e, fs1) \<Rightarrow> (Inl e, fs1)
    | (Inr p, fs1) \<Rightarrow> (case reinstall_all exe d names fs1 of
          (Inl e, fs2) \<Rightarrow> (Inl e, fs2) | (Inr ps, fs2) \<Rightarrow> (Inr (p # ps), fs2)))"

definition remove_shim :: "string \<Rightarrow> string \<Rightarrow> shim_fs \<Rightarrow> (shim_error + bool) \<times> shim_fs" where
  "remove_shim d name fs =
     (let p = path_join d name
      in case shim_entry fs p of
           Inl err \<Rightarrow> (Inl err, fs)
         | Inr None \<Rightarrow> (Inr False, fs)
         | Inr (Some _) \<Rightarrow> (case read_to_string fs p of
               None \<Rightarrow> (Inl ReadError, fs)
             | Some old \<Rightarrow>
                 if \<not> contains_sub old SENTINEL then (Inl NotManaged, fs)
                 else if sf_remove_fails fs p then (Inl RemoveError, fs)
                 else (Inr True, put_node p None fs)))"

definition is_managed :: "string \<Rightarrow> string \<Rightarrow> shim_fs \<Rightarrow> bool" where
  "is_managed d name fs \<longleftrightarrow>
     (let p = path_join d name
      in (case shim_entry fs p of Inr (Some _) \<Rightarrow> True | _ \<Rightarrow> False)
         \<and> (case read_to_string fs p of Some text \<Rightarrow> contains_sub text SENTINEL | None \<Rightarrow> False))"

definition is_current :: "string option \<Rightarrow> string \<Rightarrow> string \<Rightarrow> shim_fs \<Rightarrow> bool" where
  "is_current exe d name fs \<longleftrightarrow>
     (let p = path_join d name
      in (case shim_entry fs p of Inr (Some _) \<Rightarrow> True | _ \<Rightarrow> False)
         \<and> (case read_to_string fs p of
              None \<Rightarrow> False
            | Some text \<Rightarrow> contains_sub text SENTINEL \<and> (case exe of Some e \<Rightarrow> text = body e name | None \<Rightarrow> False)))"

section \<open>The real binary\<close>

definition path_pieces :: "string \<Rightarrow> string list" where
  "path_pieces s = (if starts_with s ''/'' then [''/''] else if s = ''.'' \<or> starts_with s ''./'' then [''.''] else [])
     @ filter (\<lambda>c. c \<noteq> [] \<and> c \<noteq> ''.'') (split_on (CHR ''/'') s)"

definition same_path :: "string \<Rightarrow> string \<Rightarrow> bool" where
  "same_path a b \<longleftrightarrow> path_pieces a = path_pieces b"

definition is_executable :: "shim_fs \<Rightarrow> string \<Rightarrow> bool" where
  "is_executable fs p \<longleftrightarrow> \<not> sf_stat_fails fs p \<and>
     (case followed fs p of Some (Regular _ m) \<Rightarrow> m AND 73 \<noteq> 0 | _ \<Rightarrow> False)"

definition is_secreq_shim :: "shim_fs \<Rightarrow> string \<Rightarrow> bool" where
  "is_secreq_shim fs p \<longleftrightarrow> \<not> sf_read_fails fs p \<and> (case followed fs p of
      Some (Regular text _) \<Rightarrow>
        (let prefix = take 256 text in starts_with prefix ''#!'' \<and> contains_sub prefix SENTINEL)
    | _ \<Rightarrow> False)"

fun first_real :: "shim_fs \<Rightarrow> string \<Rightarrow> string option \<Rightarrow> string list \<Rightarrow> string option" where
  "first_real fs binary skip [] = None"
| "first_real fs binary skip (dir # dirs) =
     (if (case skip of Some s \<Rightarrow> same_path s dir | None \<Rightarrow> False) then first_real fs binary skip dirs
      else (let candidate = path_join dir binary
        in if \<not> is_executable fs candidate then first_real fs binary skip dirs
           else if is_secreq_shim fs candidate then first_real fs binary skip dirs
           else Some candidate))"

definition find_real_binary :: "shim_fs \<Rightarrow> string option \<Rightarrow> string \<Rightarrow> string option \<Rightarrow> string option" where
  "find_real_binary fs path binary skip = (case path of
      None \<Rightarrow> None | Some p \<Rightarrow> first_real fs binary skip (split_on (CHR '':'') p))"

definition first_on_path :: "shim_fs \<Rightarrow> string option \<Rightarrow> string \<Rightarrow> string option" where
  "first_on_path fs path name = (case path of
      None \<Rightarrow> None
    | Some p \<Rightarrow> find (is_executable fs) (map (\<lambda>dir. path_join dir name) (split_on (CHR '':'') p)))"

section \<open>What a POSIX shell makes of a line\<close>

text \<open>
  The part of the shell's grammar a shim uses: words separated by spaces, single quotes, a backslash
  before one character, and \<open>"$@"\<close> for the arguments of the script. \<open>None\<close> is anything else.
\<close>

definition plain_char :: "char \<Rightarrow> bool" where
  "plain_char c \<longleftrightarrow> is_ascii_alphabetic c \<or> is_ascii_digit c \<or> c \<in> set ''/._-''"

definition push_char :: "string option \<Rightarrow> char \<Rightarrow> string option" where
  "push_char cur c = Some ((case cur of Some w \<Rightarrow> w | None \<Rightarrow> []) @ [c])"

definition flush_word :: "string option \<Rightarrow> string list" where
  "flush_word cur = (case cur of Some w \<Rightarrow> [w] | None \<Rightarrow> [])"

fun sh_words :: "string list \<Rightarrow> bool \<Rightarrow> string option \<Rightarrow> string \<Rightarrow> string list option" where
  "sh_words args True cur [] = None"
| "sh_words args True cur (c # s) =
     (if c = CHR 0x27 then sh_words args False cur s else sh_words args True (push_char cur c) s)"
| "sh_words args False cur [] = Some (flush_word cur)"
| "sh_words args False cur (c # s) =
     (if c = CHR '' '' then map_option (\<lambda>ws. flush_word cur @ ws) (sh_words args False None s)
      else if c = CHR 0x27 then sh_words args True (Some (case cur of Some w \<Rightarrow> w | None \<Rightarrow> [])) s
      else if c = CHR 0x5C then (case s of [] \<Rightarrow> None | d # t \<Rightarrow> sh_words args False (push_char cur d) t)
      else if c = CHR 0x22 then (if cur = None \<and> s = ''$@\"'' then Some args else None)
      else if plain_char c then sh_words args False (push_char cur c) s
      else None)"

lemma replace_sub_char:
  "replace_sub [c] r s = concat (map (\<lambda>x. if x = c then r else [x]) s)"
proof (induction s)
  case Nil
  then show ?case by (simp add: replace_sub_def split_sub.simps)
next
  case (Cons x s)
  show ?case
  proof (cases "x = c")
    case True
    then have "split_sub [c] (x # s) = [] # split_sub [c] s"
      by (subst split_sub.simps) (simp add: starts_with_def)
    then show ?thesis using True Cons by (simp add: replace_sub_def join_with_Cons)
  next
    case False
    have "split_sub [c] (x # s) = (x # hd (split_sub [c] s)) # tl (split_sub [c] s)"
      using False split_sub.simps [of "[c]" "x # s"] split_sub.simps [of "[c]" s]
      by (auto simp: starts_with_def split: option.splits)
    moreover have "join_with r ((x # hd ws) # tl ws) = x # join_with r ws" if "ws \<noteq> []" for ws :: "'a list list"
      using that by (cases ws; cases "tl ws") auto
    ultimately show ?thesis using False Cons by (simp add: replace_sub_def)
  qed
qed

lemma sh_words_quoted:
  "sh_words args True (Some w) (replace_sub [CHR 0x27] [CHR 0x27, CHR 0x5C, CHR 0x27, CHR 0x27] s @ CHR 0x27 # rest)
     = sh_words args False (Some (w @ s)) rest"
proof (induction s arbitrary: w)
  case (Cons c s)
  then show ?case by (simp add: replace_sub_char push_char_def)
qed (simp add: replace_sub_char)

lemma sh_words_sh_quote:
  "sh_words args False None (sh_quote s @ rest) = sh_words args False (Some s) rest"
  using sh_words_quoted [of args "[]" s rest] by (simp add: sh_quote_def)

lemma exec_line_words: "sh_words args False None (exec_line exe name) = Some ([''exec'', exe, ''x'', name] @ args)"
proof -
  have e: "exec_line exe name = ''exec '' @ sh_quote exe @ CHR '' '' # CHR ''x'' # CHR '' '' # sh_quote name @ '' \"$@\"''"
    by (simp add: exec_line_def)
  show ?thesis
    unfolding e
    by (simp add: sh_words_sh_quote push_char_def flush_word_def plain_char_def is_ascii_alphabetic_def)
qed

section \<open>Shims are recognised\<close>

lemma body_is_shim: "starts_with (take 256 (body exe name)) ''#!'' \<and> contains_sub (take 256 (body exe name)) SENTINEL"
proof
  have "take 256 (body exe name) = (''#!/bin/sh'' @ [CHR 0x0A] @ ''# '') @ SENTINEL @ take 225 (drop 31 (body exe name))"
    by (simp add: body_def shim_head_def SENTINEL_def)
  then show "contains_sub (take 256 (body exe name)) SENTINEL" unfolding contains_sub_iff by blast
  show "starts_with (take 256 (body exe name)) ''#!''"
    by (simp add: body_def shim_head_def starts_with_def)
qed

lemma first_real_Some:
  "first_real fs binary skip dirs = Some p \<Longrightarrow>
   \<exists>ds dir es. dirs = ds @ dir # es \<and> p = path_join dir binary \<and> is_executable fs p \<and> \<not> is_secreq_shim fs p
     \<and> (\<forall>s. skip = Some s \<longrightarrow> \<not> same_path s dir)
     \<and> (\<forall>d \<in> set ds. (\<exists>s. skip = Some s \<and> same_path s d) \<or> \<not> is_executable fs (path_join d binary)
          \<or> is_secreq_shim fs (path_join d binary))"
proof (induction dirs)
  case (Cons dir dirs)
  show ?case
  proof (cases "(case skip of Some s \<Rightarrow> same_path s dir | None \<Rightarrow> False)
      \<or> \<not> is_executable fs (path_join dir binary) \<or> is_secreq_shim fs (path_join dir binary)")
    case True
    then have "first_real fs binary skip dirs = Some p" using Cons.prems by (auto simp: Let_def split: if_splits)
    with Cons.IH obtain ds d es where "dirs = ds @ d # es" and r: "p = path_join d binary" "is_executable fs p"
      "\<not> is_secreq_shim fs p" "\<forall>s. skip = Some s \<longrightarrow> \<not> same_path s d"
      "\<forall>d \<in> set ds. (\<exists>s. skip = Some s \<and> same_path s d) \<or> \<not> is_executable fs (path_join d binary)
          \<or> is_secreq_shim fs (path_join d binary)" by blast
    then show ?thesis
      using True by (intro exI [of _ "dir # ds"] exI [of _ d] exI [of _ es]) (auto split: option.splits)
  next
    case False
    then show ?thesis
      using Cons.prems by (intro exI [of _ "[]"] exI [of _ dir] exI [of _ dirs]) (auto simp: Let_def split: option.splits)
  qed
qed simp

section \<open>What installing changes\<close>

lemma put_node_simps [simp]:
  "sf_node (put_node p n fs) = (sf_node fs)(p := n)" "sf_umask (put_node p n fs) = sf_umask fs"
  "sf_stat_fails (put_node p n fs) = sf_stat_fails fs" "sf_read_fails (put_node p n fs) = sf_read_fails fs"
  "sf_chmod_fails (put_node p n fs) = sf_chmod_fails fs" "sf_write (put_node p n fs) = sf_write fs"
  "sf_mkdir_fails (put_node p n fs) = sf_mkdir_fails fs"
  by (simp_all add: put_node_def)
















lemma split_on_ne [simp]: "split_on c s \<noteq> []"
  by (cases s) (auto split: list.split)

lemma join_split_on: "join_with [c] (split_on c s) = s"
proof (induction s)
  case (Cons x s)
  show ?case
  proof (cases "x = c")
    case True
    then show ?thesis using Cons by (simp add: join_with_Cons)
  next
    case False
    obtain w ws where ws: "split_on c s = w # ws" by (cases "split_on c s") auto
    then have "join_with [c] ((x # w) # ws) = x # join_with [c] (w # ws)" by (cases ws) auto
    then show ?thesis using False Cons ws by simp
  qed
qed simp

lemma path_join_neq: "name \<noteq> [] \<Longrightarrow> CHR ''/'' \<notin> set name \<Longrightarrow> path_join d name \<noteq> d"
proof -
  assume "name \<noteq> []" "CHR ''/'' \<notin> set name"
  then have "\<not> starts_with name ''/''" by (cases name) (auto simp: starts_with_def)
  with \<open>name \<noteq> []\<close> show ?thesis by (auto simp: path_join_def)
qed




section \<open>Properties\<close>


text \<open>C39. The real binary is never a shim: what is found is executable, is the first of \<open>PATH\<close> outside the
  shim directory that is no shim, and no file that secreq would write for any wrap.\<close>

theorem the_real_binary_is_no_shim:
  assumes "find_real_binary fs path binary skip = Some p"
  shows "is_executable fs p \<and> (\<forall>exe name m. followed fs p \<noteq> Some (Regular (body exe name) m) \<or> sf_read_fails fs p)
    \<and> (\<exists>ds dir es. path = Some (join_with '':'' (ds @ dir # es)) \<and> p = path_join dir binary
      \<and> (\<forall>s. skip = Some s \<longrightarrow> \<not> same_path s dir)
      \<and> (\<forall>d \<in> set ds. (\<exists>s. skip = Some s \<and> same_path s d) \<or> \<not> is_executable fs (path_join d binary)
          \<or> is_secreq_shim fs (path_join d binary)))"
proof -
  obtain v where v: "path = Some v" "first_real fs binary skip (split_on (CHR '':'') v) = Some p"
    using assms by (auto simp: find_real_binary_def split: option.splits)
  from first_real_Some [OF v(2)] obtain ds dir es where s: "split_on (CHR '':'') v = ds @ dir # es"
    and R: "p = path_join dir binary" "is_executable fs p" "\<not> is_secreq_shim fs p"
      "\<forall>s. skip = Some s \<longrightarrow> \<not> same_path s dir"
      "\<forall>d \<in> set ds. (\<exists>s. skip = Some s \<and> same_path s d) \<or> \<not> is_executable fs (path_join d binary)
          \<or> is_secreq_shim fs (path_join d binary)" by blast
  have "path = Some (join_with '':'' (ds @ dir # es))" using join_split_on [of "CHR '':''" v] s v(1) by simp
  moreover have "followed fs p \<noteq> Some (Regular (body exe name) m) \<or> sf_read_fails fs p" for exe name m
    using R(3) body_is_shim [of exe name] by (auto simp: is_secreq_shim_def Let_def)
  ultimately show ?thesis using R by blast
qed

section \<open>Concrete instances\<close>

definition demo_disk :: shim_fs where
  "demo_disk = \<lparr>sf_node = [''/s'' \<mapsto> Directory 511, ''/b/gh'' \<mapsto> Regular ''elf'' 493], sf_umask = 0,
     sf_stat_fails = (\<lambda>_. False), sf_read_fails = (\<lambda>_. False), sf_write = (\<lambda>_. Fine), sf_chmod_fails = (\<lambda>_. False),
     sf_remove_fails = (\<lambda>_. False), sf_mkdir_fails = (\<lambda>_. False)\<rparr>"




lemma demo_real: "find_real_binary demo_disk (Some ''/s:/b'') ''gh'' (Some ''/s/'') = Some ''/b/gh''"
  by (simp add: find_real_binary_def same_path_def path_pieces_def starts_with_def path_join_def ends_with_def strip_suffix_def
      is_executable_def is_secreq_shim_def followed_def demo_disk_def)

theorem the_real_binary_is_no_shim_witness:
  "find_real_binary demo_disk (Some ''/s:/b'') ''gh'' (Some ''/s/'') = Some ''/b/gh'' \<and> is_executable demo_disk ''/b/gh''"
  using the_real_binary_is_no_shim [OF demo_real] demo_real by blast

end
