(* ===== verification/Recommendations.thy ===== *)
theory Recommendations
  imports Evaluate Audit_Log Shim "HOL-Library.Product_Lexorder"
begin

text \<open>
  \<open>src/packages/secreq/src/recommendations.rs\<close>: rules suggested from the audit log. Rows of one side,
  wrap and calling process form a cluster, whose commands are merged into a pattern and whose
  directories into their common parent.
\<close>

section \<open>Suggestions\<close>

definition SUGGESTION_WINDOW_SECS :: nat where
  "SUGGESTION_WINDOW_SECS = 30 * 24 * 3600"

definition MIN_CLUSTER_SIZE :: nat where
  "MIN_CLUSTER_SIZE = 3"

definition MAX_ARGV_SAMPLES :: nat where
  "MAX_ARGV_SAMPLES = 100"

datatype SuggestionDecision = SuggestApprove | SuggestDeny

record Suggestion =
  sg_key :: string
  sg_decide :: SuggestionDecision
  sg_wrap :: string
  sg_argv :: "string option"
  sg_ancestor :: string
  sg_cwd :: "string option"
  sg_trained_secrets :: "string list"
  sg_deny_message :: "string option"
  sg_count :: nat
  sg_last_ts_unix :: nat

datatype SuggestionSort = MostUsed | MostRecent

fun sort_suggestions :: "SuggestionSort \<Rightarrow> Suggestion list \<Rightarrow> Suggestion list" where
  "sort_suggestions MostUsed ss = sort_key (\<lambda>s. (- int (sg_count s), - int (sg_last_ts_unix s), sg_key s)) ss"
| "sort_suggestions MostRecent ss = sort_key (\<lambda>s. (- int (sg_last_ts_unix s), - int (sg_count s), sg_key s)) ss"

definition from_audit :: "string \<Rightarrow> SuggestionDecision option" where
  "from_audit decision =
     (if decision \<in> {''approve'', ''approve+remember'', ''approve+cached''} then Some SuggestApprove
      else if decision = ''deny'' then Some SuggestDeny else None)"

fun key_str :: "SuggestionDecision \<Rightarrow> string" where
  "key_str SuggestApprove = ''approve''"
| "key_str SuggestDeny = ''deny''"

section \<open>Merging commands and directories\<close>

text \<open>\<open>split_whitespace\<close>: the maximal pieces without white space, none of them empty.\<close>

function split_ws :: "string \<Rightarrow> string \<Rightarrow> string list" where
  "split_ws cur [] = (if cur = [] then [] else [cur])"
| "split_ws cur (c # s) = (case strip_any WHITE_SPACE (c # s) of
      Some r \<Rightarrow> (if cur = [] then split_ws [] r else cur # split_ws [] r)
    | None \<Rightarrow> split_ws (cur @ [c]) s)"
  by pat_completeness auto
termination
  by (relation "measure (\<lambda>(cur, s). length s)") (auto dest: strip_any_length)

definition split_whitespace :: "string \<Rightarrow> string list" where
  "split_whitespace s = split_ws [] s"

definition common_path_prefix :: "string \<Rightarrow> string \<Rightarrow> string" where
  "common_path_prefix a b = join_with ''/''
     (map fst (takeWhile (\<lambda>(x, y). x = y) (zip (split_on (CHR ''/'') a) (split_on (CHR ''/'') b))))"

definition same_all :: "'a list \<Rightarrow> bool" where
  "same_all xs \<longleftrightarrow> (\<forall>x \<in> set xs. x = hd xs)"

text \<open>One column of tokens; \<open>i\<close> runs over the segments, which are as many in every token.\<close>

definition merge_segments :: "string list list \<Rightarrow> nat \<Rightarrow> string option list" where
  "merge_segments sub_lists n = map (\<lambda>i. let col = map (\<lambda>s. s ! i) sub_lists in
     if same_all col then Some (hd col) else None) [0 ..< n]"

definition merge_token_column :: "string list \<Rightarrow> string" where
  "merge_token_column samples =
     (if samples = [] then ''*''
      else if same_all samples then hd samples
      else (let sub_lists = map (split_on (CHR ''/'')) samples;
                n = length (hd sub_lists)
            in if n \<le> 1 \<or> \<not> (\<forall>l \<in> set sub_lists. length l = n) then ''*''
               else (let merged = merge_segments sub_lists n
                     in if \<exists>m \<in> set merged. m \<noteq> None
                        then join_with ''/'' (map (\<lambda>m. case m of Some s \<Rightarrow> s | None \<Rightarrow> ''*'') merged)
                        else ''*'')))"

text \<open>The columns up to the shortest sample: the tokens and whether a column diverged.\<close>

fun merge_columns :: "string list list \<Rightarrow> string list \<times> bool" where
  "merge_columns [] = ([], False)"
| "merge_columns (column # columns) =
     (let merged = merge_token_column column
      in if CHR ''*'' \<in> set merged then ([if last merged = CHR ''*'' then merged else merged @ ''*''], True)
         else (let (tokens, stopped) = merge_columns columns in (merged # tokens, stopped)))"

definition merge_argv_samples :: "string list \<Rightarrow> string option" where
  "merge_argv_samples samples =
     (if samples = [] then None
      else (let tokenised = map split_whitespace samples;
                min_len = Min (set (map length tokenised));
                max_len = Max (set (map length tokenised));
                (tokens, stopped) = merge_columns (map (\<lambda>i. map (\<lambda>t. t ! i) tokenised) [0 ..< min_len]);
                tokens = (if \<not> stopped \<and> min_len \<noteq> max_len \<and> tokens \<noteq> [] then tokens @ [''*''] else tokens);
                result = join_with '' '' tokens
            in if result = [] then None else Some result))"

section \<open>Clusters\<close>

record Cluster =
  cl_key :: string
  cl_side :: SuggestionDecision
  cl_wrap :: string
  cl_ancestor :: string
  cl_argv_samples :: "string list"
  cl_cwd_prefix :: string
  cl_trained_secrets :: "string list"
  cl_denial_reason :: "(nat \<times> string) option"
  cl_count :: nat
  cl_last_ts_unix :: nat

definition seed :: "string \<Rightarrow> SuggestionDecision \<Rightarrow> AuditEntry \<Rightarrow> Cluster" where
  "seed key side e = \<lparr>cl_key = key, cl_side = side, cl_wrap = ae_wrap e,
     cl_ancestor = (case ae_callers e of c # _ \<Rightarrow> uc_name c | [] \<Rightarrow> []),
     cl_argv_samples = (if entry_joined_argv e = [] then [] else [entry_joined_argv e]),
     cl_cwd_prefix = ae_cwd e, cl_trained_secrets = bs_collect (ae_secrets e),
     cl_denial_reason = (if side = SuggestDeny then map_option (\<lambda>r. (ae_ts_unix e, r)) (ae_reason e) else None),
     cl_count = 1, cl_last_ts_unix = ae_ts_unix e\<rparr>"

definition absorb :: "AuditEntry \<Rightarrow> Cluster \<Rightarrow> Cluster" where
  "absorb e c = (let argv = entry_joined_argv e in c\<lparr>
     cl_count := cl_count c + 1,
     cl_last_ts_unix := (if ae_ts_unix e > cl_last_ts_unix c then ae_ts_unix e else cl_last_ts_unix c),
     cl_trained_secrets := fold bs_insert (ae_secrets e) (cl_trained_secrets c),
     cl_denial_reason := (case ae_reason e of
         Some r \<Rightarrow> if cl_side c = SuggestDeny \<and> r \<noteq> []
             \<and> (case cl_denial_reason c of None \<Rightarrow> True | Some (t, _) \<Rightarrow> ae_ts_unix e \<ge> t)
           then Some (ae_ts_unix e, r) else cl_denial_reason c
       | None \<Rightarrow> cl_denial_reason c),
     cl_argv_samples := (if argv \<noteq> [] \<and> length (cl_argv_samples c) < MAX_ARGV_SAMPLES \<and> argv \<notin> set (cl_argv_samples c)
       then cl_argv_samples c @ [argv] else cl_argv_samples c),
     cl_cwd_prefix := common_path_prefix (cl_cwd_prefix c) (ae_cwd e)\<rparr>)"

definition into_suggestion :: "Cluster \<Rightarrow> Suggestion" where
  "into_suggestion c = \<lparr>sg_key = cl_key c, sg_decide = cl_side c, sg_wrap = cl_wrap c,
     sg_argv = merge_argv_samples (cl_argv_samples c), sg_ancestor = cl_ancestor c,
     sg_cwd = (if cl_cwd_prefix c = [] \<or> cl_cwd_prefix c = ''/'' then None else Some (cl_cwd_prefix c)),
     sg_trained_secrets = cl_trained_secrets c, sg_deny_message = map_option snd (cl_denial_reason c),
     sg_count = cl_count c, sg_last_ts_unix = cl_last_ts_unix c\<rparr>"

definition cluster_key :: "SuggestionDecision \<Rightarrow> string \<Rightarrow> string \<Rightarrow> string" where
  "cluster_key side wrap ancestor = key_str side @ '':'' @ wrap @ '':'' @ ancestor"

text \<open>The side and the caller of a row that counts.\<close>

definition row_side :: "nat \<Rightarrow> AuditEntry \<Rightarrow> (SuggestionDecision \<times> string) option" where
  "row_side now e =
     (if ae_ts_unix e < now - SUGGESTION_WINDOW_SECS then None
      else (case (from_audit (ae_decision e), ae_callers e) of
          (Some side, c # _) \<Rightarrow> if uc_name c = [] then None else Some (side, uc_name c)
        | _ \<Rightarrow> None))"

fun put_row :: "string \<Rightarrow> SuggestionDecision \<Rightarrow> AuditEntry \<Rightarrow> Cluster list \<Rightarrow> Cluster list" where
  "put_row key side e [] = [seed key side e]"
| "put_row key side e (c # cs) = (if cl_key c = key then absorb e c # cs else c # put_row key side e cs)"

definition cluster_row :: "nat \<Rightarrow> AuditEntry \<Rightarrow> Cluster list \<Rightarrow> Cluster list" where
  "cluster_row now e clusters = (case row_side now e of
      None \<Rightarrow> clusters
    | Some (side, ancestor) \<Rightarrow> put_row (cluster_key side (ae_wrap e) ancestor) side e clusters)"

section \<open>The pass\<close>

definition suggestion_ctx :: "Suggestion \<Rightarrow> EvalCtx" where
  "suggestion_ctx s = \<lparr>cx_wrap = sg_wrap s, cx_joined_argv = (case sg_argv s of Some a \<Rightarrow> a | None \<Rightarrow> sg_wrap s),
     cx_callers = [\<lparr>ec_name = sg_ancestor s, ec_command = sg_ancestor s, ec_exe = None\<rparr>],
     cx_cwd = (case sg_cwd s of Some d \<Rightarrow> d | None \<Rightarrow> ''/''), cx_secrets = sg_trained_secrets s\<rparr>"

definition redundant_with_existing_rules :: "glob_crate \<Rightarrow> 'm wasm_host \<Rightarrow> Suggestion \<Rightarrow> Rule list \<Rightarrow> bool" where
  "redundant_with_existing_rules G H s rules = (case ev_hit (evaluate G H rules [] (suggestion_ctx s)) of
      None \<Rightarrow> False
    | Some hit \<Rightarrow> (case (rh_decide hit, sg_decide s) of
          (ApproveRule, SuggestApprove) \<Rightarrow> True | (DenyRule, SuggestDeny) \<Rightarrow> True | _ \<Rightarrow> False))"

definition suggest :: "glob_crate \<Rightarrow> 'm wasm_host \<Rightarrow> AuditEntry list \<Rightarrow> Rule list \<Rightarrow> nat \<Rightarrow> Suggestion list" where
  "suggest G H entries rules now =
     (let clusters = fold (cluster_row now) entries []
      in sort_suggestions MostUsed
           (filter (\<lambda>s. \<not> redundant_with_existing_rules G H s rules)
             (map into_suggestion (filter (\<lambda>c. MIN_CLUSTER_SIZE \<le> cl_count c) clusters))))"

section \<open>Directories\<close>

lemma join_with_append:
  "xs \<noteq> [] \<Longrightarrow> ys \<noteq> [] \<Longrightarrow> join_with sep (xs @ ys) = join_with sep xs @ sep @ join_with sep ys"
  by (induction xs rule: induct_list012) (auto simp: join_with_Cons)

text \<open>A path is the directory or below it.\<close>

definition within :: "string \<Rightarrow> string \<Rightarrow> bool" where
  "within d p \<longleftrightarrow> p = d \<or> starts_with p (d @ ''/'')"

lemma within_trans: "within d e \<Longrightarrow> within e p \<Longrightarrow> within d p"
  by (auto simp: within_def starts_with_iff)

lemma segments_within:
  assumes "split_on (CHR ''/'') a = xs @ ys" "join_with ''/'' xs \<noteq> []"
  shows "within (join_with ''/'' xs) a"
proof -
  have xs: "xs \<noteq> []" using assms(2) by auto
  have "a = join_with ''/'' (xs @ ys)" using join_split_on [of "CHR ''/''" a] assms(1) by simp
  then show ?thesis using join_with_append [OF xs] by (cases "ys = []") (auto simp: within_def starts_with_iff)
qed

lemma common_prefix_take:
  "\<exists>n. map fst (takeWhile (\<lambda>(x, y). x = y) (zip as bs)) = take n as \<and> take n as = take n bs"
proof (induction as arbitrary: bs)
  case (Cons a as)
  show ?case
  proof (cases "bs \<noteq> [] \<and> hd bs = a")
    case True
    then obtain bs' where bs: "bs = a # bs'" by (cases bs) auto
    from Cons.IH [of bs'] obtain n where "map fst (takeWhile (\<lambda>(x, y). x = y) (zip as bs')) = take n as \<and> take n as = take n bs'" by blast
    then show ?thesis by (intro exI [of _ "Suc n"]) (simp add: bs)
  next
    case False
    then show ?thesis by (intro exI [of _ 0]) (cases bs; simp)
  qed
qed (simp add: exI [of _ 0])

lemma common_path_within:
  assumes "common_path_prefix a b \<noteq> []"
  shows "within (common_path_prefix a b) a \<and> within (common_path_prefix a b) b"
proof -
  obtain n where n: "map fst (takeWhile (\<lambda>(x, y). x = y) (zip (split_on (CHR ''/'') a) (split_on (CHR ''/'') b))) = take n (split_on (CHR ''/'') a)"
    "take n (split_on (CHR ''/'') a) = take n (split_on (CHR ''/'') b)"
    using common_prefix_take by blast
  have "within (join_with ''/'' (take n (split_on (CHR ''/'') x))) x"
    if "join_with ''/'' (take n (split_on (CHR ''/'') x)) \<noteq> []" for x
    by (rule segments_within [OF _ that]) (rule append_take_drop_id [symmetric])
  from this [of a] this [of b] show ?thesis using assms n by (simp add: common_path_prefix_def)
qed

section \<open>Clusters summarise their rows\<close>

definition row_key :: "nat \<Rightarrow> AuditEntry \<Rightarrow> string option" where
  "row_key now e = map_option (\<lambda>(side, ancestor). cluster_key side (ae_wrap e) ancestor) (row_side now e)"

definition cluster_rows :: "nat \<Rightarrow> AuditEntry list \<Rightarrow> string \<Rightarrow> AuditEntry list" where
  "cluster_rows now es key = filter (\<lambda>e. row_key now e = Some key) es"

definition summarises :: "nat \<Rightarrow> AuditEntry list \<Rightarrow> Cluster \<Rightarrow> bool" where
  "summarises now rs c \<longleftrightarrow> rs \<noteq> [] \<and> cl_count c = length rs
     \<and> (\<forall>e \<in> set rs. \<exists>a. row_side now e = Some (cl_side c, a) \<and> cl_key c = cluster_key (cl_side c) (ae_wrap e) a)
     \<and> cl_wrap c = ae_wrap (hd rs) \<and> cl_ancestor c = uc_name (hd (ae_callers (hd rs)))
     \<and> set (cl_trained_secrets c) = (\<Union>e \<in> set rs. set (ae_secrets e))
     \<and> cl_last_ts_unix c = Max (ae_ts_unix ` set rs)
     \<and> (cl_cwd_prefix c \<noteq> [] \<longrightarrow> (\<forall>e \<in> set rs. within (cl_cwd_prefix c) (ae_cwd e)))
     \<and> set (cl_argv_samples c) \<subseteq> entry_joined_argv ` set rs \<and> distinct (cl_argv_samples c)
     \<and> (length (cl_argv_samples c) < MAX_ARGV_SAMPLES \<longrightarrow> (\<forall>e \<in> set rs. entry_joined_argv e \<in> set (cl_argv_samples c) \<union> {[]}))"

lemma cluster_key_side: "cluster_key a w x = cluster_key b v y \<Longrightarrow> a = b"
  by (cases a; cases b) (simp_all add: cluster_key_def)

lemma seed_summarises:
  assumes "row_side now e = Some (side, a)"
  shows "summarises now [e] (seed (cluster_key side (ae_wrap e) a) side e)"
proof -
  obtain c cs where "ae_callers e = c # cs" "uc_name c = a"
    using assms by (auto simp: row_side_def split: if_splits option.splits list.splits)
  then show ?thesis using assms by (simp add: summarises_def seed_def within_def)
qed

lemma absorb_summarises:
  assumes "summarises now rs c" "row_side now e = Some (side, a)" "cl_key c = cluster_key side (ae_wrap e) a"
  shows "summarises now (rs @ [e]) (absorb e c)"
proof -
  obtain e0 where e0: "e0 \<in> set rs" using assms(1) by (cases rs) (auto simp: summarises_def)
  then have side: "side = cl_side c" using assms(1,3) cluster_key_side by (fastforce simp: summarises_def)
  have cwd: "\<forall>x \<in> set (rs @ [e]). within (common_path_prefix (cl_cwd_prefix c) (ae_cwd e)) (ae_cwd x)"
    if "common_path_prefix (cl_cwd_prefix c) (ae_cwd e) \<noteq> []"
  proof -
    note w = common_path_within [OF that]
    then have "cl_cwd_prefix c \<noteq> []" using that by (auto simp: within_def starts_with_iff)
    then show ?thesis using w assms(1) within_trans by (auto simp: summarises_def)
  qed
  have last: "Max (ae_ts_unix ` set (rs @ [e])) = (if ae_ts_unix e > cl_last_ts_unix c then ae_ts_unix e else cl_last_ts_unix c)"
  proof -
    have "rs \<noteq> []" and m: "cl_last_ts_unix c = Max (ae_ts_unix ` set rs)" using assms(1) by (simp_all add: summarises_def)
    then have "Max (ae_ts_unix ` set (rs @ [e])) = max (ae_ts_unix e) (cl_last_ts_unix c)" by simp
    then show ?thesis by (simp add: max_def)
  qed
  have key: "cl_key (absorb e c) = cl_key c" "cl_side (absorb e c) = cl_side c" "cl_wrap (absorb e c) = cl_wrap c"
    "cl_ancestor (absorb e c) = cl_ancestor c"
    by (simp_all add: absorb_def Let_def)
  have argv: "length (cl_argv_samples (absorb e c)) < MAX_ARGV_SAMPLES \<longrightarrow>
      (\<forall>x \<in> set (rs @ [e]). entry_joined_argv x \<in> set (cl_argv_samples (absorb e c)) \<union> {[]})"
    using assms(1) by (auto simp: summarises_def absorb_def Let_def split: if_splits)
  show ?thesis
    using assms(1,2,3) cwd last argv side
    unfolding summarises_def key
    by (auto simp: absorb_def Let_def set_fold_bs_insert)
qed

definition clusters_ok :: "nat \<Rightarrow> AuditEntry list \<Rightarrow> Cluster list \<Rightarrow> bool" where
  "clusters_ok now es cs \<longleftrightarrow> distinct (map cl_key cs)
     \<and> (\<forall>c \<in> set cs. summarises now (cluster_rows now es (cl_key c)) c)
     \<and> (\<forall>e \<in> set es. \<forall>k. row_key now e = Some k \<longrightarrow> k \<in> cl_key ` set cs)"

lemma cluster_rows_snoc:
  "cluster_rows now (es @ [e]) k = cluster_rows now es k @ (if row_key now e = Some k then [e] else [])"
  by (simp add: cluster_rows_def)

lemma absorb_key [simp]: "cl_key (absorb e c) = cl_key c"
  by (simp add: absorb_def Let_def)

lemma put_row_present:
  "key \<in> cl_key ` set cs \<Longrightarrow> distinct (map cl_key cs) \<Longrightarrow>
     put_row key side e cs = map (\<lambda>c. if cl_key c = key then absorb e c else c) cs"
proof (induction cs)
  case (Cons c cs)
  show ?case
  proof (cases "cl_key c = key")
    case True
    then have "\<forall>d \<in> set cs. cl_key d \<noteq> key" using Cons.prems(2) by (auto simp: image_iff)
    then have "map (\<lambda>c. if cl_key c = key then absorb e c else c) cs = cs" by (simp cong: map_cong)
    with True show ?thesis by simp
  qed (use Cons in auto)
qed simp

lemma put_row_absent: "key \<notin> cl_key ` set cs \<Longrightarrow> put_row key side e cs = cs @ [seed key side e]"
  by (induction cs) auto

lemma cluster_row_ok:
  assumes "clusters_ok now es cs"
  shows "clusters_ok now (es @ [e]) (cluster_row now e cs)"
proof (cases "row_side now e")
  case None
  then have "row_key now e = None" by (simp add: row_key_def)
  with None assms show ?thesis by (auto simp: clusters_ok_def cluster_row_def cluster_rows_snoc)
next
  case (Some x)
  obtain side a where x: "x = (side, a)" by (cases x)
  define k where "k = cluster_key side (ae_wrap e) a"
  have key: "row_key now e = Some k" using Some by (simp add: row_key_def x k_def)
  have step: "cluster_row now e cs = put_row k side e cs" by (simp add: cluster_row_def Some x k_def)
  have ok: "distinct (map cl_key cs)" "\<And>c. c \<in> set cs \<Longrightarrow> summarises now (cluster_rows now es (cl_key c)) c"
    "\<And>e' k'. e' \<in> set es \<Longrightarrow> row_key now e' = Some k' \<Longrightarrow> k' \<in> cl_key ` set cs"
    using assms by (auto simp: clusters_ok_def)
  show ?thesis
  proof (cases "k \<in> cl_key ` set cs")
    case True
    have keys: "map cl_key (cluster_row now e cs) = map cl_key cs"
      by (simp add: step put_row_present [OF True ok(1)] comp_def if_distrib [of cl_key] cong: if_cong)
    have "summarises now (cluster_rows now (es @ [e]) (cl_key d)) d" if d: "d \<in> set (cluster_row now e cs)" for d
    proof -
      obtain c where c: "c \<in> set cs" "d = (if cl_key c = k then absorb e c else c)"
        using d by (auto simp: step put_row_present [OF True ok(1)])
      show ?thesis
      proof (cases "cl_key c = k")
        case True
        then show ?thesis using absorb_summarises [OF ok(2) [OF c(1)], of e side a] Some c(2) key
          by (simp add: x k_def cluster_rows_snoc)
      next
        case False
        then show ?thesis using ok(2) [OF c(1)] c(2) key by (simp add: cluster_rows_snoc)
      qed
    qed
    moreover have "cl_key ` set (cluster_row now e cs) = cl_key ` set cs" using arg_cong [OF keys, of set] by simp
    ultimately show ?thesis using ok True keys key unfolding clusters_ok_def by auto
  next
    case False
    then have new: "cluster_row now e cs = cs @ [seed k side e]" by (simp add: step put_row_absent)
    have "cluster_rows now es k = []" using ok(3) False by (auto simp: cluster_rows_def filter_empty_conv)
    moreover have "cl_key (seed k side e) = k" by (simp add: seed_def)
    moreover have "summarises now [e] (seed k side e)"
      using seed_summarises [of now e side a] Some by (simp add: x k_def)
    moreover have "row_key now e \<noteq> Some (cl_key c)" if "c \<in> set cs" for c using False key that by auto
    ultimately show ?thesis using ok False key unfolding clusters_ok_def new
      by (auto simp: cluster_rows_snoc)
  qed
qed

lemma clusters_ok_fold: "clusters_ok now es (fold (cluster_row now) es [])"
proof (induction es rule: rev_induct)
  case Nil
  then show ?case by (simp add: clusters_ok_def)
next
  case (snoc e es)
  then show ?case using cluster_row_ok by simp
qed

lemma suggested_cluster:
  assumes "s \<in> set (suggest G H entries rules now)"
  obtains c where "summarises now (cluster_rows now entries (sg_key s)) c" "s = into_suggestion c" "MIN_CLUSTER_SIZE \<le> cl_count c"
proof -
  obtain c where c: "c \<in> set (fold (cluster_row now) entries [])" "s = into_suggestion c" "MIN_CLUSTER_SIZE \<le> cl_count c"
    using assms by (auto simp: suggest_def Let_def)
  have "summarises now (cluster_rows now entries (cl_key c)) c"
    using clusters_ok_fold [of now entries] c(1) by (auto simp: clusters_ok_def)
  then show ?thesis using that c(2,3) by (simp add: into_suggestion_def)
qed

lemma suggest_distinct: "distinct (map sg_key (suggest G H entries rules now))"
proof -
  have "distinct (map cl_key (fold (cluster_row now) entries []))"
    using clusters_ok_fold [of now entries] by (simp add: clusters_ok_def)
  then have "distinct (map sg_key (map into_suggestion (filter P (fold (cluster_row now) entries []))))" for P
    using distinct_map_filter [of cl_key] by (simp add: comp_def into_suggestion_def)
  then have filtered: "distinct (map sg_key (filter Q (map into_suggestion (filter P (fold (cluster_row now) entries [])))))" for P Q
    by (rule distinct_map_filter)
  have sorted: "distinct (map sg_key (sort_suggestions m ss)) = distinct (map sg_key ss)" for m ss
    by (cases m) (simp_all add: distinct_map)
  show ?thesis unfolding suggest_def Let_def sorted by (rule filtered)
qed

text \<open>A suggestion stands for at least three rows of the last thirty days that a person decided its
  way, never an automatic one: it counts them, trains on exactly the secrets they asked for, shows
  the latest of their times, and its directory contains all of theirs. No two have the same key.\<close>

theorem suggestions_summarise_their_rows:
  assumes "s \<in> set (suggest G H entries rules now)" "rows = cluster_rows now entries (sg_key s)"
  shows "sg_count s = length rows \<and> 3 \<le> length rows \<and> set rows \<subseteq> set entries
    \<and> (\<forall>e \<in> set rows. now - 30 * 24 * 3600 \<le> ae_ts_unix e \<and> from_audit (ae_decision e) = Some (sg_decide s)
        \<and> (\<forall>d. sg_cwd s = Some d \<longrightarrow> within d (ae_cwd e)))
    \<and> set (sg_trained_secrets s) = (\<Union>e \<in> set rows. set (ae_secrets e))
    \<and> sg_last_ts_unix s = Max (ae_ts_unix ` set rows)
    \<and> distinct (map sg_key (suggest G H entries rules now))"
proof (intro conjI)
  obtain c where c: "summarises now rows c" "s = into_suggestion c" "MIN_CLUSTER_SIZE \<le> cl_count c"
    using suggested_cluster [OF assms(1)] unfolding assms(2) by blast
  then show "sg_count s = length rows" "3 \<le> length rows" "set (sg_trained_secrets s) = (\<Union>e \<in> set rows. set (ae_secrets e))"
    "sg_last_ts_unix s = Max (ae_ts_unix ` set rows)"
    by (simp_all add: summarises_def into_suggestion_def MIN_CLUSTER_SIZE_def)
  show "set rows \<subseteq> set entries" by (auto simp: assms(2) cluster_rows_def)
  show "\<forall>e \<in> set rows. now - 30 * 24 * 3600 \<le> ae_ts_unix e \<and> from_audit (ae_decision e) = Some (sg_decide s)
        \<and> (\<forall>d. sg_cwd s = Some d \<longrightarrow> within d (ae_cwd e))"
  proof
    fix e assume e: "e \<in> set rows"
    then obtain a where "row_side now e = Some (sg_decide s, a)" using c by (auto simp: summarises_def into_suggestion_def)
    then have "now - 30 * 24 * 3600 \<le> ae_ts_unix e \<and> from_audit (ae_decision e) = Some (sg_decide s)"
      by (auto simp: row_side_def SUGGESTION_WINDOW_SECS_def split: if_splits option.splits list.splits)
    moreover have "\<forall>d. sg_cwd s = Some d \<longrightarrow> within d (ae_cwd e)"
      using c e by (auto simp: summarises_def into_suggestion_def split: if_splits)
    ultimately show "now - 30 * 24 * 3600 \<le> ae_ts_unix e \<and> from_audit (ae_decision e) = Some (sg_decide s)
        \<and> (\<forall>d. sg_cwd s = Some d \<longrightarrow> within d (ae_cwd e))" by simp
  qed
  show "distinct (map sg_key (suggest G H entries rules now))" by (rule suggest_distinct)
qed

section \<open>Patterns cover their samples\<close>

text \<open>What the glob crate promises of a pattern whose only wildcards are single stars: a star stands
  for any characters, slashes and blanks among them.\<close>

fun star_match :: "string \<Rightarrow> string \<Rightarrow> bool" where
  "star_match [] s = (s = [])"
| "star_match (p # ps) s = (if p = CHR ''*'' then (\<exists>n \<le> length s. star_match ps (drop n s))
     else (case s of [] \<Rightarrow> False | c # t \<Rightarrow> c = p \<and> star_match ps t))"

definition lone_stars :: "string \<Rightarrow> bool" where
  "lone_stars p \<longleftrightarrow> CHR ''?'' \<notin> set p \<and> CHR ''['' \<notin> set p \<and> successively (\<lambda>a b. a \<noteq> CHR ''*'' \<or> b \<noteq> CHR ''*'') p"

definition star_glob :: "glob_crate \<Rightarrow> bool" where
  "star_glob G \<longleftrightarrow> (\<forall>p. lone_stars p \<longrightarrow> gl_new G p = None \<and> gl_matches G p = star_match p)"

lemma star_any: "star_match p s \<Longrightarrow> star_match (CHR ''*'' # p) (x @ s)"
  by (auto intro: exI [of _ "length x"])

lemma star_end: "star_match ''*'' s"
  by (auto intro: exI [of _ "length s"])

lemma star_tail_absorbs: "star_match (p @ ''*'') s \<Longrightarrow> star_match (p @ ''*'') (s @ x)"
proof (induction p arbitrary: s)
  case (Cons c p)
  show ?case
  proof (cases "c = CHR ''*''")
    case True
    then obtain n where "n \<le> length s" "star_match (p @ ''*'') (drop n s)" using Cons.prems by auto
    then show ?thesis using Cons.IH [of "drop n s"] True by (auto intro!: exI [of _ n])
  next
    case False
    then show ?thesis using Cons by (auto split: list.splits)
  qed
qed (auto intro: exI [of _ "length (s @ x)"])

lemma star_literal: "CHR ''*'' \<notin> set a \<Longrightarrow> star_match (a @ p) (a @ s) = star_match p s"
  by (induction a) auto

lemma plain_literal: "\<not> has_wildcards a \<Longrightarrow> CHR ''*'' \<notin> set a"
  by (auto simp: has_wildcards_def)

lemma star_segments:
  assumes "list_all2 (\<lambda>m x. (m = None \<or> m = Some x) \<and> \<not> has_wildcards x) ms xs" "star_match q s"
  shows "star_match (join_with ''/'' (map (\<lambda>m. case m of Some x \<Rightarrow> x | None \<Rightarrow> ''*'') ms) @ q) (join_with ''/'' xs @ s)"
  using assms
proof (induction rule: list_all2_induct)
  case (Cons m ms x xs)
  have rest: "(ms = []) = (xs = [])" using Cons(2) by (auto simp: list_all2_iff)
  have one: "star_match ((case m of Some x \<Rightarrow> x | None \<Rightarrow> ''*'') @ p) (x @ t)" if "star_match p t" for p t
    using Cons(1) that star_any [OF that, of x] by (cases m) (auto simp: star_literal plain_literal)
  show ?case
  proof (cases "xs = []")
    case True
    then show ?thesis using rest one Cons.prems by simp
  next
    case False
    from one [of "''/'' @ join_with ''/'' (map (\<lambda>m. case m of Some x \<Rightarrow> x | None \<Rightarrow> ''*'') ms) @ q" "''/'' @ join_with ''/'' xs @ s"]
    show ?thesis using Cons.IH Cons.prems False rest by (simp add: join_with_Cons)
  qed
qed simp

lemma part_of_join: "x \<in> set xs \<Longrightarrow> set x \<subseteq> set (join_with sep xs)"
  by (induction sep xs rule: join_with.induct) auto

lemma merge_segments_sound:
  assumes "t \<in> set tokens" "length (split_on (CHR ''/'') t) = n" "\<not> has_wildcards t"
  shows "list_all2 (\<lambda>m x. (m = None \<or> m = Some x) \<and> \<not> has_wildcards x)
    (merge_segments (map (split_on (CHR ''/'')) tokens) n) (split_on (CHR ''/'') t)"
proof -
  have plain: "\<not> has_wildcards x" if "x \<in> set (split_on (CHR ''/'') t)" for x
    using part_of_join [OF that, of "''/''"] assms(3) by (auto simp: join_split_on has_wildcards_def)
  have "same_all (map (\<lambda>s. s ! i) (map (split_on (CHR ''/'')) tokens)) \<Longrightarrow>
      hd (map (\<lambda>s. s ! i) (map (split_on (CHR ''/'')) tokens)) = split_on (CHR ''/'') t ! i" for i
    using assms(1) by (auto simp: same_all_def)
  then show ?thesis using assms(2) plain
    by (auto simp: list_all2_conv_all_nth merge_segments_def Let_def)
qed

text \<open>A column is merged to its one token, or to a pattern that matches every token before whatever
  the rest of the pattern matches.\<close>

lemma merge_column_sound:
  assumes "t \<in> set tokens" "\<forall>t \<in> set tokens. \<not> has_wildcards t"
  shows "(CHR ''*'' \<notin> set (merge_token_column tokens) \<and> merge_token_column tokens = t)
    \<or> (CHR ''*'' \<in> set (merge_token_column tokens) \<and> (\<forall>q s. star_match q s \<longrightarrow> star_match (merge_token_column tokens @ q) (t @ s)))"
proof -
  have t: "\<not> has_wildcards t" using assms by blast
  define n where "n = length (split_on (CHR ''/'') (hd tokens))"
  define merged where "merged = merge_segments (map (split_on (CHR ''/'')) tokens) n"
  have bare: "\<forall>q s. star_match q s \<longrightarrow> star_match (''*'' @ q) (t @ s)" using star_any by auto
  have ne: "tokens \<noteq> []" using assms(1) by auto
  define shown where "shown = join_with ''/'' (map (\<lambda>m. case m of Some s \<Rightarrow> s | None \<Rightarrow> ''*'') merged)"
  have column: "merge_token_column tokens = (if same_all tokens then hd tokens
      else if n \<le> 1 \<or> \<not> (\<forall>u \<in> set tokens. length (split_on (CHR ''/'') u) = n) then ''*''
      else if \<exists>m \<in> set merged. m \<noteq> None then shown else ''*'')"
    unfolding merge_token_column_def Let_def hd_map [OF ne] n_def [symmetric] merged_def [symmetric] shown_def [symmetric]
    by (simp only: ne if_False set_map ball_simps)
  have "same_all tokens \<or> merge_token_column tokens = ''*''
      \<or> (\<not> same_all tokens \<and> (\<forall>u \<in> set tokens. length (split_on (CHR ''/'') u) = n) \<and> merge_token_column tokens = shown)"
    unfolding column by (simp split: if_split)
  then consider "same_all tokens" | "merge_token_column tokens = ''*''"
    | "\<not> same_all tokens" "\<forall>u \<in> set tokens. length (split_on (CHR ''/'') u) = n" "merge_token_column tokens = shown"
    by blast
  then show ?thesis
  proof cases
    case 1
    then have "merge_token_column tokens = t" using assms(1) ne by (auto simp: merge_token_column_def same_all_def)
    then show ?thesis using plain_literal [OF t] by simp
  next
    case 2
    then show ?thesis using bare by simp
  next
    case 3
    have sound: "list_all2 (\<lambda>m x. (m = None \<or> m = Some x) \<and> \<not> has_wildcards x) merged (split_on (CHR ''/'') u)"
      if "u \<in> set tokens" for u
      unfolding merged_def using 3(2) that assms(2) by (intro merge_segments_sound) auto
    have "None \<in> set merged"
    proof (rule ccontr)
      assume all: "None \<notin> set merged"
      have "split_on (CHR ''/'') u = map the merged" if "u \<in> set tokens" for u
      proof (rule nth_equalityI)
        note m = sound [OF that, unfolded list_all2_conv_all_nth]
        then show "length (split_on (CHR ''/'') u) = length (map the merged)" by simp
        fix i assume i: "i < length (split_on (CHR ''/'') u)"
        then have "merged ! i \<noteq> None" using m all by (metis nth_mem)
        then show "split_on (CHR ''/'') u ! i = map the merged ! i" using m i by auto
      qed
      then have "u = join_with ''/'' (map the merged)" if "u \<in> set tokens" for u
        using join_split_on [of "CHR ''/''" u] that by simp
      then show False using 3(1) ne unfolding same_all_def by (metis hd_in_set)
    qed
    then have "''*'' \<in> set (map (\<lambda>m. case m of Some s \<Rightarrow> s | None \<Rightarrow> ''*'') merged)" by force
    from part_of_join [OF this, of "''/''"] have "CHR ''*'' \<in> set (merge_token_column tokens)"
      by (simp add: 3(3) shown_def)
    then show ?thesis
      using star_segments [OF sound [OF assms(1)]] by (simp add: 3(3) shown_def join_split_on)
  qed
qed

text \<open>The columns together: all tokens up to the shortest sample, or a pattern that matches the rest of
  every sample from the first column on.\<close>

lemma merge_columns_sound:
  assumes "\<forall>t \<in> set toks. n \<le> length t \<and> (\<forall>x \<in> set t. \<not> has_wildcards x)" "t \<in> set toks"
    and "merge_columns (map (\<lambda>i. map (\<lambda>t. t ! i) toks) [i ..< n]) = (tokens, stopped)"
  shows "(\<not> stopped \<longrightarrow> tokens = take (n - i) (drop i t))
    \<and> (stopped \<longrightarrow> i < n \<and> tokens \<noteq> [] \<and> star_match (join_with '' '' tokens) (join_with '' '' (drop i t)))"
  using assms(3)
proof (induction "n - i" arbitrary: i tokens stopped)
  case 0
  then show ?case by simp
next
  case (Suc k)
  then have i: "i < n" by simp
  then have it: "i < length t" using assms(1,2) by (meson le_trans less_le_trans)
  define column where "column = map (\<lambda>t. t ! i) toks"
  define merged where "merged = merge_token_column column"
  have cols: "map (\<lambda>i. map (\<lambda>t. t ! i) toks) [i ..< n] = column # map (\<lambda>i. map (\<lambda>t. t ! i) toks) [Suc i ..< n]"
    using i by (simp add: upt_rec column_def)
  have "\<forall>x \<in> set column. \<not> has_wildcards x"
    using assms(1) i by (fastforce simp: column_def)
  then have sound: "(CHR ''*'' \<notin> set merged \<and> merged = t ! i)
      \<or> (CHR ''*'' \<in> set merged \<and> (\<forall>q s. star_match q s \<longrightarrow> star_match (merged @ q) (t ! i @ s)))"
    unfolding merged_def using assms(2) by (intro merge_column_sound) (auto simp: column_def)
  have split: "drop i t = t ! i # drop (Suc i) t" using it by (simp add: Cons_nth_drop_Suc)
  show ?case
  proof (cases "CHR ''*'' \<in> set merged")
    case True
    then have out: "tokens = [if last merged = CHR ''*'' then merged else merged @ ''*'']" "stopped"
      using Suc.prems unfolding cols by (auto simp: Let_def merged_def)
    define rest where "rest = (if drop (Suc i) t = [] then [] else '' '' @ join_with '' '' (drop (Suc i) t))"
    have s: "join_with '' '' (drop i t) = t ! i @ rest" unfolding split rest_def by (simp add: join_with_Cons)
    have tail: "\<And>q s. star_match q s \<Longrightarrow> star_match (merged @ q) (t ! i @ s)" using sound True by blast
    have "star_match (merged @ ''*'') (t ! i @ rest)" by (rule tail [OF star_end])
    moreover have "star_match merged (t ! i @ rest)" if "last merged = CHR ''*''"
    proof -
      have "merged = butlast merged @ ''*''" using that True by (metis append_butlast_last_id empty_iff empty_set)
      then show ?thesis using star_tail_absorbs [of "butlast merged" "t ! i" rest] tail [of "[]" "[]"] by (metis append_Nil2 star_match.simps(1))
    qed
    ultimately show ?thesis using i by (simp add: out s)
  next
    case False
    then obtain rest where rest: "merge_columns (map (\<lambda>i. map (\<lambda>t. t ! i) toks) [Suc i ..< n]) = (rest, stopped)" "tokens = merged # rest"
      using Suc.prems unfolding cols by (auto simp: Let_def merged_def split: prod.splits)
    have m: "merged = t ! i" using sound False by blast
    have "k = n - Suc i" using Suc.hyps(2) by simp
    from Suc.hyps(1) [OF this rest(1)] have IH: "\<not> stopped \<longrightarrow> rest = take (n - Suc i) (drop (Suc i) t)"
      "stopped \<longrightarrow> Suc i < n \<and> rest \<noteq> [] \<and> star_match (join_with '' '' rest) (join_with '' '' (drop (Suc i) t))" by blast+
    show ?thesis
    proof (cases stopped)
      case True
      then have "drop (Suc i) t \<noteq> []" using IH(2) assms(1,2) by fastforce
      moreover have "CHR ''*'' \<notin> set (merged @ '' '')" using False by simp
      ultimately show ?thesis
        using True IH(2) star_literal [of "merged @ '' ''" "join_with '' '' rest" "join_with '' '' (drop (Suc i) t)"] i
        unfolding rest(2) split m by (simp add: join_with_Cons)
    next
      case False
      then show ?thesis using IH(1) i unfolding rest(2) split m by (simp add: Suc_diff_Suc [symmetric])
    qed
  qed
qed

lemma lone_append:
  "lone_stars (a @ b) \<longleftrightarrow> lone_stars a \<and> lone_stars b \<and> (a = [] \<or> b = [] \<or> last a \<noteq> CHR ''*'' \<or> hd b \<noteq> CHR ''*'')"
  by (auto simp: lone_stars_def successively_append_iff)

lemma lone_plain: "\<not> has_wildcards s \<Longrightarrow> lone_stars s"
  by (induction s) (auto simp: lone_stars_def has_wildcards_def successively_Cons)

lemma lone_join:
  assumes "\<forall>x \<in> set xs. lone_stars x" "c \<notin> {CHR ''*'', CHR ''?'', CHR ''[''}"
  shows "lone_stars (join_with [c] xs)"
proof -
  have sep: "lone_stars (x @ [c] @ y)" if "lone_stars x" "lone_stars y" for x y
    using that assms(2) by (auto simp: lone_append) (auto simp: lone_stars_def successively_Cons)
  show ?thesis using assms(1)
  proof (induction xs rule: induct_list012)
    case (3 x y xs)
    then show ?case using sep [of x "join_with [c] (y # xs)"] by simp
  qed (simp_all add: lone_stars_def)
qed

lemma lone_column:
  assumes "\<forall>x \<in> set column. \<not> has_wildcards x" "column \<noteq> []"
  shows "lone_stars (merge_token_column column)"
proof -
  have star: "lone_stars ''*''" by (simp add: lone_stars_def)
  have hd: "lone_stars (hd column)" using assms by (simp add: lone_plain)
  define n where "n = length (hd (map (split_on (CHR ''/'')) column))"
  define merged where "merged = merge_segments (map (split_on (CHR ''/'')) column) n"
  have shown: "lone_stars (join_with ''/'' (map (\<lambda>m. case m of Some s \<Rightarrow> s | None \<Rightarrow> ''*'') merged))"
    if len: "\<forall>l \<in> set (map (split_on (CHR ''/'')) column). length l = n"
  proof (rule lone_join)
    have "list_all2 (\<lambda>m x. (m = None \<or> m = Some x) \<and> \<not> has_wildcards x) merged (split_on (CHR ''/'') (hd column))"
      unfolding merged_def using len assms by (intro merge_segments_sound) auto
    then have "lone_stars (case m of Some s \<Rightarrow> s | None \<Rightarrow> ''*'')" if "m \<in> set merged" for m
      using that star lone_plain by (fastforce simp: list_all2_conv_all_nth in_set_conv_nth split: option.split)
    then show "\<forall>x \<in> set (map (\<lambda>m. case m of Some s \<Rightarrow> s | None \<Rightarrow> ''*'') merged). lone_stars x" by simp
  qed simp
  show ?thesis
    unfolding merge_token_column_def Let_def n_def [symmetric] merged_def [symmetric]
    using star hd shown by (simp del: set_map split: if_split)
qed

lemma lone_columns:
  assumes "\<forall>column \<in> set columns. column \<noteq> [] \<and> (\<forall>x \<in> set column. \<not> has_wildcards x)"
    and "merge_columns columns = (tokens, stopped)"
  shows "(\<forall>x \<in> set tokens. lone_stars x) \<and> (\<not> stopped \<longrightarrow> (\<forall>x \<in> set tokens. CHR ''*'' \<notin> set x))"
  using assms
proof (induction columns arbitrary: tokens stopped)
  case (Cons column columns)
  define merged where "merged = merge_token_column column"
  have lone: "lone_stars merged" unfolding merged_def using Cons.prems(1) by (intro lone_column) auto
  show ?case
  proof (cases "CHR ''*'' \<in> set merged")
    case True
    have "lone_stars (merged @ ''*'')" if "last merged \<noteq> CHR ''*''"
      using lone that by (simp add: lone_append) (simp add: lone_stars_def)
    then show ?thesis using Cons.prems(2) True lone by (auto simp: Let_def merged_def)
  next
    case False
    then obtain rest where "merge_columns columns = (rest, stopped)" "tokens = merged # rest"
      using Cons.prems(2) by (auto simp: Let_def merged_def split: prod.splits)
    then show ?thesis using Cons.IH Cons.prems(1) lone False by auto
  qed
qed simp

lemma star_match_plain: "CHR ''*'' \<notin> set p \<Longrightarrow> star_match p s \<longleftrightarrow> s = p"
  by (induction p arbitrary: s) (auto split: list.splits)

lemma star_pattern_matches:
  assumes "star_glob G" "lone_stars p" "star_match p s"
  shows "matches_prefix G (pattern_parse G p) s"
proof (cases "has_wildcards p")
  case True
  then show ?thesis using assms by (simp add: matches_prefix_def pattern_parse_def star_glob_def)
next
  case False
  then have "s = p" using assms(3) star_match_plain plain_literal by blast
  with False show ?thesis by (simp add: matches_prefix_def pattern_parse_def)
qed

lemma split_ws_part: "x \<in> set (split_ws cur s) \<Longrightarrow> set x \<subseteq> set cur \<union> set s"
proof (induction cur s rule: split_ws.induct)
  case (2 cur c s)
  show ?case
  proof (cases "strip_any WHITE_SPACE (c # s)")
    case None
    then show ?thesis using 2 by auto
  next
    case (Some r)
    then have "set r \<subseteq> set (c # s)" using strip_any_suffix by (metis Un_upper2 set_append)
    then show ?thesis using Some 2 by (auto split: if_splits)
  qed
qed (auto split: if_splits)

text \<open>A command whose words are separated by single blanks and hold no wildcard.\<close>

definition plain_command :: "string \<Rightarrow> bool" where
  "plain_command s \<longleftrightarrow> s = join_with '' '' (split_whitespace s) \<and> \<not> has_wildcards s"

lemma merged_covers:
  assumes "star_glob G" "merge_argv_samples samples = Some p" "\<forall>s \<in> set samples. plain_command s" "s \<in> set samples"
  shows "matches_prefix G (pattern_parse G p) s
    \<or> (p = s @ '' *'' \<and> (\<exists>s' \<in> set samples. \<exists>r. r \<noteq> [] \<and> split_whitespace s' = split_whitespace s @ r))"
proof -
  define toks where "toks = map split_whitespace samples"
  define n where "n = Min (set (map length toks))"
  define M where "M = Max (set (map length toks))"
  define t where "t = split_whitespace s"
  have ne: "samples \<noteq> []" using assms(2) by (auto simp: merge_argv_samples_def)
  obtain tokens stopped where cols: "merge_columns (map (\<lambda>i. map (\<lambda>t. t ! i) toks) [0 ..< n]) = (tokens, stopped)" by force
  define final where "final = (if \<not> stopped \<and> n \<noteq> M \<and> tokens \<noteq> [] then tokens @ [''*''] else tokens)"
  have p: "p = join_with '' '' final" "p \<noteq> []"
    using assms(2) ne cols unfolding merge_argv_samples_def Let_def toks_def [symmetric] n_def [symmetric] M_def [symmetric]
    by (auto simp: final_def split: if_splits)
  have words: "x \<in> set (split_whitespace u) \<Longrightarrow> u \<in> set samples \<Longrightarrow> \<not> has_wildcards x" for x u
    using split_ws_part [of x "[]" u] assms(3) by (auto simp: split_whitespace_def plain_command_def has_wildcards_def)
  have t: "t \<in> set toks" "s = join_with '' '' t" using assms(3,4) by (auto simp: toks_def t_def plain_command_def)
  have plain: "\<forall>u \<in> set toks. n \<le> length u \<and> (\<forall>x \<in> set u. \<not> has_wildcards x)"
    using words by (auto simp: toks_def n_def)
  have sound: "\<not> stopped \<longrightarrow> tokens = take n u" "stopped \<longrightarrow> star_match (join_with '' '' tokens) (join_with '' '' u)"
    if "u \<in> set toks" for u
    using merge_columns_sound [OF plain that cols] by simp_all
  have "\<forall>column \<in> set (map (\<lambda>i. map (\<lambda>t. t ! i) toks) [0 ..< n]). column \<noteq> [] \<and> (\<forall>x \<in> set column. \<not> has_wildcards x)"
    using plain t(1) by fastforce
  from lone_columns [OF this cols] have lone: "\<forall>x \<in> set tokens. lone_stars x" "\<not> stopped \<Longrightarrow> \<forall>x \<in> set tokens. CHR ''*'' \<notin> set x"
    by blast+
  have "lone_stars p" unfolding p(1) final_def using lone(1) by (intro lone_join) (auto simp: lone_stars_def)
  note covered = star_pattern_matches [OF assms(1) this]
  show ?thesis
  proof (cases "stopped \<or> n = M")
    case True
    have "star_match p s"
    proof (cases stopped)
      case True
      then show ?thesis using sound(2) [OF t(1)] by (simp add: p final_def t(2))
    next
      case False
      have "length t \<le> M" using t(1) by (simp add: M_def)
      then have "tokens = t" using sound(1) [OF t(1)] False True plain t(1) by simp
      then have "p = s" using False True by (simp add: p(1) final_def t(2))
      moreover have "\<not> has_wildcards s" using assms(3,4) by (simp add: plain_command_def)
      ultimately show ?thesis by (simp add: star_match_plain plain_literal)
    qed
    then show ?thesis using covered by blast
  next
    case False
    then have tokens: "tokens \<noteq> []" using p by (auto simp: final_def)
    then have pat: "p = join_with '' '' tokens @ '' *''" using False by (simp add: p(1) final_def join_with_append)
    have take: "tokens = take n u" if "u \<in> set toks" for u using sound(1) [OF that] False by simp
    show ?thesis
    proof (cases "length t = n")
      case True
      then have eq: "tokens = t" using take [OF t(1)] by simp
      have "M \<in> set (map length toks)" unfolding M_def using t(1) by (intro Max_in) auto
      then obtain u where u: "u \<in> set toks" "length u = M" by auto
      have "n < M" using False plain u by fastforce
      then have "drop n u \<noteq> []" using u(2) by simp
      moreover have "u = t @ drop n u" using take [OF u(1)] eq by (metis append_take_drop_id)
      moreover obtain s' where "s' \<in> set samples" "u = split_whitespace s'" using u(1) by (auto simp: toks_def)
      ultimately show ?thesis using pat eq t(2) unfolding t_def by metis
    next
      case False
      then have "drop n t \<noteq> []" using plain t(1) by fastforce
      then have "s = join_with '' '' tokens @ '' '' @ join_with '' '' (drop n t)"
        using join_with_append [of tokens "drop n t" "'' ''"] tokens take [OF t(1)] by (simp add: t(2))
      moreover have "CHR ''*'' \<notin> set (join_with '' '' tokens @ '' '')"
      proof -
        have "set (join_with '' '' xs) \<subseteq> {CHR '' ''} \<union> \<Union> (set ` set xs)" for xs
          by (induction "'' ''" xs rule: join_with.induct) auto
        from this [of tokens] show ?thesis using lone(2) \<open>\<not> (stopped \<or> n = M)\<close> by auto
      qed
      from star_literal [OF this, of "''*''" "join_with '' '' (drop n t)"]
      have "star_match p (join_with '' '' tokens @ '' '' @ join_with '' '' (drop n t))"
        using star_end by (simp add: pat)
      ultimately show ?thesis using covered by simp
    qed
  qed
qed

text \<open>The pattern merged from plain commands matches each of them, unless the command is the
  beginning of another and nothing else differs: the blank before the last star then leaves it out.\<close>

theorem merged_patterns_cover_their_samples:
  assumes "star_glob G" "merge_argv_samples samples = Some p" "\<forall>s \<in> set samples. plain_command s" "s \<in> set samples"
  shows "matches_prefix G (pattern_parse G p) s
    \<or> (p = s @ '' *'' \<and> (\<exists>s' \<in> set samples. \<exists>r. r \<noteq> [] \<and> split_whitespace s' = split_whitespace s @ r))"
  using assms by (rule merged_covers)

section \<open>Concrete instances\<close>

definition star_crate :: glob_crate where
  "star_crate = \<lparr>gl_new = (\<lambda>_. None), gl_matches = star_match\<rparr>"

lemma star_crate_stars: "star_glob star_crate"
  by (simp add: star_glob_def star_crate_def)

text \<open>Words of printable ASCII, for evaluation.\<close>

lemma strip_any_none: "\<forall>w \<in> set ws. w = [] \<or> hd w \<noteq> c \<Longrightarrow> strip_any ws (c # s) = None"
proof (induction ws)
  case (Cons w ws)
  then show ?case by (cases w) auto
qed simp

lemma split_ws_letter:
  assumes "(of_char c :: nat) \<in> {33 ..< 128}"
  shows "split_ws cur (c # s) = split_ws (cur @ [c]) s"
proof -
  have "strip_any WHITE_SPACE (c # s) = None"
    using assms white_space_edges by (intro strip_any_none) fastforce
  then show ?thesis by simp
qed

lemma split_ws_blank: "split_ws cur (CHR '' '' # s) = (if cur = [] then split_ws [] s else cur # split_ws [] s)"
proof -
  have "strip_any WHITE_SPACE (CHR '' '' # s) = Some s"
    by (simp add: WHITE_SPACE_def bytes_def char_of_eq_iff)
  then show ?thesis by simp
qed

lemmas word_simps = split_whitespace_def split_ws_letter split_ws_blank

lemmas merge_simps = merge_argv_samples_def merge_token_column_def merge_segments_def same_all_def upt_rec Let_def

lemma sample_words:
  "split_whitespace ''gh pr'' = [''gh'', ''pr'']"
  "split_whitespace ''gh pr list'' = [''gh'', ''pr'', ''list'']"
  "split_whitespace ''gh pr view'' = [''gh'', ''pr'', ''view'']"
  "split_whitespace ''gh api a/x/b'' = [''gh'', ''api'', ''a/x/b'']"
  "split_whitespace ''gh api a/y/b c'' = [''gh'', ''api'', ''a/y/b'', ''c'']"
  by (simp_all add: word_simps del: split_ws.simps(2))

lemma sample_merges:
  "merge_argv_samples [''gh pr'', ''gh pr list''] = Some ''gh pr *''"
  "merge_argv_samples [''gh pr list'', ''gh pr view''] = Some ''gh pr *''"
  "merge_argv_samples [''gh api a/x/b'', ''gh api a/y/b c''] = Some ''gh api a/*/b*''"
  by (simp_all add: merge_simps sample_words)

text \<open>The shorter of two commands is left out: the pattern merged from them does not match it.\<close>

theorem the_shortest_command_is_left_out:
  "merge_argv_samples [''gh pr'', ''gh pr list''] = Some ''gh pr *''
   \<and> matches_prefix star_crate (pattern_parse star_crate ''gh pr *'') ''gh pr list''
   \<and> \<not> matches_prefix star_crate (pattern_parse star_crate ''gh pr *'') ''gh pr''"
proof -
  have "matches_prefix star_crate (pattern_parse star_crate ''gh pr *'') ''gh pr list''" by code_simp
  moreover have "\<not> matches_prefix star_crate (pattern_parse star_crate ''gh pr *'') ''gh pr''" by code_simp
  ultimately show ?thesis by (simp add: sample_merges)
qed

theorem merged_patterns_cover_their_samples_witness:
  "merge_argv_samples [''gh api a/x/b'', ''gh api a/y/b c''] = Some ''gh api a/*/b*''
   \<and> matches_prefix star_crate (pattern_parse star_crate ''gh api a/*/b*'') ''gh api a/y/b c''"
proof -
  let ?samples = "[''gh api a/x/b'', ''gh api a/y/b c'']"
  have p: "merge_argv_samples ?samples = Some ''gh api a/*/b*''" by (rule sample_merges)
  have "\<forall>s \<in> set ?samples. plain_command s"
    by (simp add: plain_command_def sample_words has_wildcards_def)
  from merged_patterns_cover_their_samples [OF star_crate_stars p this, of "''gh api a/y/b c''"] p show ?thesis by simp
qed

definition hand_row :: "string option \<Rightarrow> nat \<Rightarrow> string list \<Rightarrow> AuditEntry" where
  "hand_row exe t args = \<lparr>ae_ts_unix = t, ae_cwd = ''/home/me/src'', ae_wrap = ''gh'', ae_args = args, ae_command = Some (''gh'' # args),
     ae_callers = [\<lparr>uc_pid = 7, uc_name = ''agent'', uc_command = ''agent'', uc_exe = exe\<rparr>],
     ae_callers_truncated = Some False, ae_secrets = [''TOK''], ae_decision = ''approve'', ae_deciding_device = None,
     ae_reason = None, ae_rule_id = None, ae_approvers = [], ae_fingerprint = None, ae_sign_anchor = None,
     ae_declared_by = None, ae_unverified_guest_chain = None\<rparr>"

definition hand_rows :: "string option \<Rightarrow> AuditEntry list" where
  "hand_rows exe = [hand_row exe 1 [''pr'', ''list''], hand_row exe 2 [''pr'', ''view''], hand_row exe 3 [''pr'', ''list'']]"

definition hand_suggestion :: Suggestion where
  "hand_suggestion = \<lparr>sg_key = ''approve:gh:agent'', sg_decide = SuggestApprove, sg_wrap = ''gh'', sg_argv = Some ''gh pr *'',
     sg_ancestor = ''agent'', sg_cwd = Some ''/home/me/src'', sg_trained_secrets = [''TOK''], sg_deny_message = None,
     sg_count = 3, sg_last_ts_unix = 3\<rparr>"

lemma hand_clusters: "map into_suggestion (fold (cluster_row 9) (hand_rows exe) []) = [hand_suggestion]"
proof -
  have argv: "entry_joined_argv (hand_row exe t [''pr'', ''list'']) = ''gh pr list''"
    "entry_joined_argv (hand_row exe t [''pr'', ''view'']) = ''gh pr view''" for t
    by (simp_all add: hand_row_def entry_joined_argv_def evaluator_command_def joined_argv_def)
  have side: "row_side 9 (hand_row exe t as) = Some (SuggestApprove, ''agent'')" for t as
    by (simp add: row_side_def hand_row_def SUGGESTION_WINDOW_SECS_def from_audit_def)
  have cwd: "common_path_prefix ''/home/me/src'' ''/home/me/src'' = ''/home/me/src''" by code_simp
  have fields: "ae_wrap (hand_row exe t as) = ''gh''" "ae_cwd (hand_row exe t as) = ''/home/me/src''" "ae_ts_unix (hand_row exe t as) = t"
    "ae_secrets (hand_row exe t as) = [''TOK'']" "ae_reason (hand_row exe t as) = None" "uc_name (hd (ae_callers (hand_row exe t as))) = ''agent''"
    "(case ae_callers (hand_row exe t as) of c # _ \<Rightarrow> uc_name c | [] \<Rightarrow> []) = ''agent''" for t as
    by (simp_all add: hand_row_def)
  have key: "cluster_key SuggestApprove ''gh'' ''agent'' = ''approve:gh:agent''" by (simp add: cluster_key_def)
  show ?thesis
    by (simp add: hand_rows_def cluster_row_def side fields key seed_def absorb_def argv MAX_ARGV_SAMPLES_def cwd
        bs_collect_def into_suggestion_def sample_merges hand_suggestion_def)
qed

lemma hand_suggested_unless:
  "suggest star_crate sample_host (hand_rows exe) rules 9 =
     (if redundant_with_existing_rules star_crate sample_host hand_suggestion rules then [] else [hand_suggestion])"
proof -
  obtain c where c: "fold (cluster_row 9) (hand_rows exe) [] = [c]" "into_suggestion c = hand_suggestion"
    using hand_clusters [of exe] by (cases "fold (cluster_row 9) (hand_rows exe) []") auto
  then have "cl_count c = 3" by (auto simp: into_suggestion_def hand_suggestion_def)
  then show ?thesis using c by (simp add: suggest_def MIN_CLUSTER_SIZE_def)
qed

lemma hand_suggested: "suggest star_crate sample_host (hand_rows exe) [] 9 = [hand_suggestion]"
  by (simp add: hand_suggested_unless redundant_with_existing_rules_def evaluate_def evaluate_with_refusals_def
      pass_init_def approve_hit_def hand_suggestion_def suggestion_ctx_def)

theorem suggestions_summarise_their_rows_witness:
  "hand_suggestion \<in> set (suggest star_crate sample_host (hand_rows None) [] 9)
   \<and> sg_count hand_suggestion = length (cluster_rows 9 (hand_rows None) (sg_key hand_suggestion))"
proof -
  have "hand_suggestion \<in> set (suggest star_crate sample_host (hand_rows None) [] 9)" by (simp add: hand_suggested)
  from suggestions_summarise_their_rows [OF this refl] this show ?thesis by blast
qed

end
