(* ===== verification/Rule_Drafts.thy ===== *)
theory Rule_Drafts
  imports Rule_Stats Recommendations Rule_Admin
begin

text \<open>
  The rule form of \<open>src/packages/secreq/src/daemon/ui.rs\<close>: a draft seeded from an audit row, a
  suggestion or a rule, the reasons it will not save, and the rule it becomes. What is drawn is left
  out; the field the caret is in and the clicks are inputs.
\<close>

section \<open>Drafts\<close>

datatype RuleDecisionDraft = DraftApprove | DraftDeny

record RuleDraft =
  rd_id :: "string option"
  rd_original :: "Rule option"
  rd_name :: string
  rd_enabled :: bool
  rd_decide :: RuleDecisionDraft
  rd_wrap :: string
  rd_argv :: string
  rd_ancestor :: string
  rd_cwd :: string
  rd_deny_message :: string
  rd_wraps :: "string list option"
  rd_trained_secrets :: "string list"
  rd_save_attempted :: bool

record FormProblem =
  fp_field :: "PatternField option"
  fp_summary :: string
  fp_detail :: "string option"

fun draft_of_decision :: "RuleDecision \<Rightarrow> RuleDecisionDraft" where
  "draft_of_decision ApproveRule = DraftApprove"
| "draft_of_decision DenyRule = DraftDeny"

fun decision_of_draft :: "RuleDecisionDraft \<Rightarrow> RuleDecision" where
  "decision_of_draft DraftApprove = ApproveRule"
| "decision_of_draft DraftDeny = DenyRule"

definition required :: "string \<Rightarrow> FormProblem" where
  "required summary = \<lparr>fp_field = None, fp_summary = summary, fp_detail = None\<rparr>"

definition fresh_draft :: RuleDraft where
  "fresh_draft = \<lparr>rd_id = None, rd_original = None, rd_name = [], rd_enabled = True, rd_decide = DraftApprove,
     rd_wrap = [], rd_argv = [], rd_ancestor = [], rd_cwd = [], rd_deny_message = [], rd_wraps = None,
     rd_trained_secrets = [], rd_save_attempted = False\<rparr>"

definition or_empty :: "string option \<Rightarrow> string" where
  "or_empty s = (case s of Some x \<Rightarrow> x | None \<Rightarrow> [])"

definition from_audit_entry :: "AuditEntry \<Rightarrow> RuleDraft" where
  "from_audit_entry e = \<lparr>rd_id = None, rd_original = None,
     rd_name = (if ae_wrap e = [] then ''auto-rule'' else ''from '' @ ae_wrap e @ '' ask''), rd_enabled = True,
     rd_decide = (if starts_with (ae_decision e) ''deny'' then DraftDeny else DraftApprove),
     rd_wrap = ae_wrap e, rd_argv = entry_joined_argv e,
     rd_ancestor = (case ae_callers e of c # _ \<Rightarrow> uc_name c | [] \<Rightarrow> []), rd_cwd = ae_cwd e,
     rd_deny_message = or_empty (ae_reason e), rd_wraps = None, rd_trained_secrets = bs_collect (ae_secrets e),
     rd_save_attempted = False\<rparr>"

definition from_suggestion :: "Suggestion \<Rightarrow> RuleDraft" where
  "from_suggestion s = \<lparr>rd_id = None, rd_original = None, rd_name = sg_wrap s @ '' from '' @ sg_ancestor s,
     rd_enabled = True,
     rd_decide = (case sg_decide s of SuggestApprove \<Rightarrow> DraftApprove | SuggestDeny \<Rightarrow> DraftDeny),
     rd_wrap = sg_wrap s, rd_argv = or_empty (sg_argv s), rd_ancestor = sg_ancestor s, rd_cwd = or_empty (sg_cwd s),
     rd_deny_message = or_empty (sg_deny_message s), rd_wraps = None, rd_trained_secrets = sg_trained_secrets s,
     rd_save_attempted = False\<rparr>"

definition from_rule :: "Rule \<Rightarrow> RuleDraft" where
  "from_rule r = (case ru_body r of
      Wasm _ \<Rightarrow> fresh_draft
    | Declarative m d \<Rightarrow> \<lparr>rd_id = Some (ru_id r), rd_original = Some r, rd_name = ru_name r, rd_enabled = ru_enabled r,
        rd_decide = draft_of_decision (static_decision d), rd_wrap = rm_wrap m,
        rd_argv = or_empty (map_option pt_raw (rm_argv m)), rd_ancestor = or_empty (map_option pt_raw (rm_ancestor m)),
        rd_cwd = or_empty (map_option pt_raw (rm_cwd m)), rd_deny_message = or_empty (static_deny_message d),
        rd_wraps = ru_wraps r, rd_trained_secrets = ru_trained_secrets r, rd_save_attempted = False\<rparr>)"

definition note_refused_save :: "RuleDraft \<Rightarrow> RuleDraft" where
  "note_refused_save d = d\<lparr>rd_save_attempted := True\<rparr>"

section \<open>Validation\<close>

definition scope_problem :: "RuleDraft \<Rightarrow> FormProblem list" where
  "scope_problem d = (case rd_wraps d of
      None \<Rightarrow> []
    | Some wraps \<Rightarrow> (let match_wrap = trim (rd_wrap d)
        in if match_wrap \<noteq> [] \<and> match_wrap \<notin> set wraps
           then [required (''match wrap `'' @ match_wrap @ ''` is outside wrap scope ['' @ join_with '', '' wraps @ '']'')]
           else []))"

definition pattern_problem :: "glob_crate \<Rightarrow> RuleDraft \<Rightarrow> PatternField option \<Rightarrow> PatternField \<times> string \<Rightarrow> FormProblem option" where
  "pattern_problem G d typing = (\<lambda>(field, raw).
     if typing = Some field then None
     else if trim raw = [] then None
     else (case invalid_reason (pattern_parse G (trim raw)) of
         None \<Rightarrow> None
       | Some err \<Rightarrow> Some \<lparr>fp_field = Some field,
           fp_summary = pattern_field_as_str field @ '' pattern is not a valid glob'',
           fp_detail = Some (err @ '' '' @ EM_DASH @ '' '' @ refused_pattern_consequence (decision_of_draft (rd_decide d)))\<rparr>))"

definition problems :: "glob_crate \<Rightarrow> PatternField option \<Rightarrow> RuleDraft \<Rightarrow> FormProblem list" where
  "problems G focus d =
     (if trim (rd_name d) = [] then [required ''name is required''] else [])
     @ (if trim (rd_wrap d) = [] then [required ''wrap is required''] else [])
     @ scope_problem d
     @ List.map_filter (pattern_problem G d (if rd_save_attempted d then None else focus))
         [(ArgvField, rd_argv d), (AncestorField, rd_ancestor d), (CwdField, rd_cwd d)]"

section \<open>Saving\<close>

definition optional_pattern :: "glob_crate \<Rightarrow> string \<Rightarrow> Pattern option" where
  "optional_pattern G s = (if trim s = [] then None else Some (pattern_parse G (trim s)))"

definition draft_decision :: "RuleDraft \<Rightarrow> StaticDecision" where
  "draft_decision d = (case rd_decide d of
      DraftApprove \<Rightarrow> StaticApprove
    | DraftDeny \<Rightarrow> StaticDeny (let m = trim (rd_deny_message d) in if m = [] then None else Some m))"

text \<open>\<open>new_id\<close> is what \<open>new_rule_id\<close> draws, \<open>now\<close> what \<open>now_unix\<close> reads.\<close>

definition into_rule :: "glob_crate \<Rightarrow> string \<Rightarrow> nat \<Rightarrow> RuleDraft \<Rightarrow> string + Rule" where
  "into_rule G new_id now d = (case problems G None d of
      problem # _ \<Rightarrow> Inl (fp_summary problem)
    | [] \<Rightarrow> Inr \<lparr>ru_id = (case rd_id d of Some i \<Rightarrow> i | None \<Rightarrow> new_id), ru_name = trim (rd_name d),
        ru_enabled = rd_enabled d, ru_wraps = rd_wraps d, ru_trained_secrets = rd_trained_secrets d,
        ru_created_at_unix = now,
        ru_body = Declarative \<lparr>rm_wrap = trim (rd_wrap d), rm_argv = optional_pattern G (rd_argv d),
          rm_ancestor = optional_pattern G (rd_ancestor d), rm_cwd = optional_pattern G (rd_cwd d)\<rparr> (draft_decision d)\<rparr>)"

datatype RuleAction = AddAction Rule | UpdateAction Rule Rule | DeleteAction Rule | SetEnabledAction Rule bool

text \<open>A click on Save counts when the frame shows no problem. An edit without its original is a panic.\<close>

datatype form_outcome = FormSaved RuleAction | FormOpen RuleDraft | FormPanic

definition click_save :: "glob_crate \<Rightarrow> string \<Rightarrow> nat \<Rightarrow> PatternField option \<Rightarrow> RuleDraft \<Rightarrow> form_outcome" where
  "click_save G new_id now focus d =
     (if problems G focus d \<noteq> [] then FormOpen d
      else (case into_rule G new_id now d of
          Inr rule \<Rightarrow> if rd_id d \<noteq> None
            then (case rd_original d of Some expected \<Rightarrow> FormSaved (UpdateAction expected rule) | None \<Rightarrow> FormPanic)
            else FormSaved (AddAction rule)
        | Inl _ \<Rightarrow> FormOpen (note_refused_save d)))"

section \<open>Trimming\<close>

lemma strip_any_None: "strip_any ws s = None \<longleftrightarrow> (\<forall>w \<in> set ws. w = [] \<or> strip_prefix w s = None)"
  by (induction ws) (auto split: option.splits)

lemma trim_with_none: "strip_any ws (trim_with ws s) = None"
proof (induction ws s rule: trim_with.induct)
  case (1 ws s)
  then show ?case by (subst trim_with.simps) (cases "strip_any ws s"; simp)
qed

lemma trim_with_id: "strip_any ws s = None \<Longrightarrow> trim_with ws s = s"
  by (subst trim_with.simps) simp

lemma strip_any_none_prefix: "strip_any ws (p @ x) = None \<Longrightarrow> strip_any ws p = None"
  by (auto simp: strip_any_None strip_prefix_None)

lemma trim_idem [simp]: "trim (trim s) = trim s"
proof -
  define t where "t = trim_start s"
  obtain w where w: "rev t = w @ trim_with (map rev WHITE_SPACE) (rev t)" using trim_with_suffix by blast
  have split: "t = trim_end t @ rev w"
    using arg_cong [OF w, of rev] by (simp add: trim_end_def)
  have "strip_any WHITE_SPACE t = None" by (simp add: t_def trim_start_def trim_with_none)
  then have "strip_any WHITE_SPACE (trim_end t) = None"
    using strip_any_none_prefix [of WHITE_SPACE "trim_end t" "rev w"] split by simp
  then have "trim_start (trim_end t) = trim_end t" by (simp add: trim_start_def trim_with_id)
  moreover have "trim_end (trim_end t) = trim_end t"
    by (simp add: trim_end_def trim_with_id trim_with_none)
  ultimately show ?thesis by (simp add: trim_def t_def)
qed

lemma trim_Nil [simp]: "trim [] = []"
proof -
  have "trim_with ws [] = []" for ws :: "string list" using trim_with_suffix [of "[]" ws] by simp
  then show ?thesis by (simp add: trim_def trim_start_def trim_end_def)
qed

lemma map_filter_Nil: "List.map_filter f xs = [] \<longleftrightarrow> (\<forall>x \<in> set xs. f x = None)"
  by (induction xs) (auto simp: List.map_filter_simps split: option.splits)

section \<open>What the form saves\<close>

text \<open>The rules that the form can produce.\<close>

definition tidy :: "string \<Rightarrow> bool" where
  "tidy s \<longleftrightarrow> s \<noteq> [] \<and> trim s = s"

definition tidy_pattern :: "glob_crate \<Rightarrow> Pattern option \<Rightarrow> bool" where
  "tidy_pattern G p = (case p of None \<Rightarrow> True
     | Some q \<Rightarrow> tidy (pt_raw q) \<and> q = pattern_parse G (pt_raw q) \<and> \<not> is_invalid q)"

definition form_ready :: "glob_crate \<Rightarrow> Rule \<Rightarrow> bool" where
  "form_ready G r \<longleftrightarrow> tidy (ru_name r)
     \<and> (case ru_body r of
          Wasm _ \<Rightarrow> False
        | Declarative m d \<Rightarrow> tidy (rm_wrap m) \<and> wrap_in_scope r (rm_wrap m)
            \<and> tidy_pattern G (rm_argv m) \<and> tidy_pattern G (rm_ancestor m) \<and> tidy_pattern G (rm_cwd m)
            \<and> (case static_deny_message d of None \<Rightarrow> True | Some msg \<Rightarrow> tidy msg))"

lemma tidy_trim [simp]: "tidy (trim s) \<longleftrightarrow> trim s \<noteq> []"
  by (simp add: tidy_def)

lemma pattern_problem_none:
  "pattern_problem G d None (field, raw) = None \<longleftrightarrow> tidy_pattern G (optional_pattern G raw)"
  by (auto simp: pattern_problem_def optional_pattern_def tidy_pattern_def is_invalid_def pattern_parse_def split: option.splits)

lemma problems_none:
  "problems G None d = [] \<longleftrightarrow> trim (rd_name d) \<noteq> [] \<and> trim (rd_wrap d) \<noteq> []
     \<and> (case rd_wraps d of None \<Rightarrow> True | Some ws \<Rightarrow> trim (rd_wrap d) \<in> set ws)
     \<and> tidy_pattern G (optional_pattern G (rd_argv d)) \<and> tidy_pattern G (optional_pattern G (rd_ancestor d))
     \<and> tidy_pattern G (optional_pattern G (rd_cwd d))"
proof -
  have "scope_problem d = [] \<longleftrightarrow> trim (rd_wrap d) = []
      \<or> (case rd_wraps d of None \<Rightarrow> True | Some ws \<Rightarrow> trim (rd_wrap d) \<in> set ws)"
    by (auto simp: scope_problem_def Let_def split: option.split)
  then show ?thesis by (auto simp: problems_def map_filter_Nil pattern_problem_none simp del: List.map_filter_simps split: if_split)
qed

lemma into_rule_Inr:
  "into_rule G new_id now d = Inr r \<longleftrightarrow> problems G None d = []
     \<and> r = \<lparr>ru_id = (case rd_id d of Some i \<Rightarrow> i | None \<Rightarrow> new_id), ru_name = trim (rd_name d),
        ru_enabled = rd_enabled d, ru_wraps = rd_wraps d, ru_trained_secrets = rd_trained_secrets d,
        ru_created_at_unix = now,
        ru_body = Declarative \<lparr>rm_wrap = trim (rd_wrap d), rm_argv = optional_pattern G (rd_argv d),
          rm_ancestor = optional_pattern G (rd_ancestor d), rm_cwd = optional_pattern G (rd_cwd d)\<rparr> (draft_decision d)\<rparr>"
  by (auto simp: into_rule_def split: list.splits)

lemma saved_form_ready: "into_rule G new_id now d = Inr r \<Longrightarrow> form_ready G r"
  by (auto simp: into_rule_Inr problems_none form_ready_def wrap_in_scope_def draft_decision_def Let_def
      split: RuleDecisionDraft.split option.splits)

lemma pattern_again:
  "tidy_pattern G p \<Longrightarrow> optional_pattern G (or_empty (map_option pt_raw p)) = p"
  by (cases p) (simp_all add: optional_pattern_def or_empty_def tidy_pattern_def tidy_def)

lemma ready_again:
  assumes "form_ready G r"
  shows "into_rule G new_id now (from_rule r) = Inr (r\<lparr>ru_created_at_unix := now\<rparr>)"
proof -
  obtain m d where body: "ru_body r = Declarative m d" using assms by (auto simp: form_ready_def split: RuleBody.splits)
  have ok: "tidy (ru_name r)" "tidy (rm_wrap m)" "wrap_in_scope r (rm_wrap m)" "tidy_pattern G (rm_argv m)"
    "tidy_pattern G (rm_ancestor m)" "tidy_pattern G (rm_cwd m)"
    "case static_deny_message d of None \<Rightarrow> True | Some msg \<Rightarrow> tidy msg"
    using assms by (simp_all add: form_ready_def body)
  have decision: "draft_decision (from_rule r) = d"
    using ok(7) by (cases d) (auto simp: draft_decision_def from_rule_def body or_empty_def Let_def tidy_def split: option.splits)
  have "problems G None (from_rule r) = []"
    using ok unfolding problems_none
    by (simp add: from_rule_def body pattern_again tidy_def wrap_in_scope_def split: option.splits)
  moreover have "r = \<lparr>ru_id = ru_id r, ru_name = ru_name r, ru_enabled = ru_enabled r, ru_wraps = ru_wraps r,
      ru_trained_secrets = ru_trained_secrets r, ru_created_at_unix = ru_created_at_unix r, ru_body = Declarative m d\<rparr>"
    using body by simp
  then have "r\<lparr>ru_created_at_unix := now\<rparr> = \<lparr>ru_id = ru_id r, ru_name = ru_name r, ru_enabled = ru_enabled r,
      ru_wraps = ru_wraps r, ru_trained_secrets = ru_trained_secrets r, ru_created_at_unix = now, ru_body = Declarative m d\<rparr>"
    by (metis Rule.update_convs(6))
  ultimately show ?thesis
    using ok decision unfolding into_rule_Inr
    by (simp add: from_rule_def body pattern_again tidy_def)
qed

text \<open>The rules the form saves are exactly those with a tidy name and wrap, a wrap inside the
  consultation scope, patterns that are tidy and compile, and a denial message that is tidy or absent:
  no other rule leaves it and every such rule can be made in it.\<close>

theorem the_form_saves_the_ready_rules:
  "(\<exists>new_id now d. into_rule G new_id now d = Inr r) \<longleftrightarrow> form_ready G r"
proof
  assume "form_ready G r"
  from ready_again [OF this, of "[]" "ru_created_at_unix r"]
  have "into_rule G [] (ru_created_at_unix r) (from_rule r) = Inr r" by simp
  then show "\<exists>new_id now d. into_rule G new_id now d = Inr r" by blast
qed (auto dest: saved_form_ready)

text \<open>Opening such a rule in the form and saving it unchanged asks the daemon to replace that rule by
  itself, except that its time of creation becomes the time of the click.\<close>

theorem an_unchanged_edit_keeps_the_rule:
  assumes "form_ready G r"
  shows "click_save G new_id now focus (from_rule r) = FormSaved (UpdateAction r (r\<lparr>ru_created_at_unix := now\<rparr>))"
proof -
  have saved: "into_rule G new_id now (from_rule r) = Inr (r\<lparr>ru_created_at_unix := now\<rparr>)" by (rule ready_again [OF assms])
  then have "problems G None (from_rule r) = []" by (simp add: into_rule_Inr)
  moreover have "pattern_problem G d (Some f) x = None" if "pattern_problem G d None x = None" for d f x
    using that by (cases x) (auto simp: pattern_problem_def)
  ultimately have "problems G focus (from_rule r) = []"
    by (cases focus) (simp_all add: problems_def map_filter_Nil del: List.map_filter_simps)
  moreover obtain m d where "ru_body r = Declarative m d" using assms by (auto simp: form_ready_def split: RuleBody.splits)
  ultimately show ?thesis using saved by (simp add: click_save_def from_rule_def)
qed

lemma ready_pattern_unrefused: "tidy_pattern G p \<Longrightarrow> pattern_refusal r d (field, p) = None"
  by (auto simp: pattern_refusal_def tidy_pattern_def is_invalid_def split: option.splits)

text \<open>Whatever a click on Save sends to the daemon passes the daemon's check of the patterns, and an
  edit of a rule opened in the form keeps its identity and its consultation scope.\<close>

theorem saved_rules_pass_the_daemon:
  assumes "click_save G new_id now focus d = FormSaved a" "d = from_rule r0 \<or> rd_id d = None"
  shows "\<exists>r. (a = AddAction r \<or> (a = UpdateAction r0 r \<and> ru_id r = ru_id r0 \<and> ru_wraps r = ru_wraps r0))
    \<and> refuse_broken_patterns r = None \<and> form_ready G r"
proof -
  obtain r where r: "into_rule G new_id now d = Inr r"
    and a: "(rd_id d = None \<and> a = AddAction r) \<or> (\<exists>e. rd_id d \<noteq> None \<and> rd_original d = Some e \<and> a = UpdateAction e r)"
    using assms(1) unfolding click_save_def
    by (cases "into_rule G new_id now d"; cases "rd_original d") (simp_all split: if_splits)
  note ready = saved_form_ready [OF r]
  then have "pattern_refusals [r] = []"
    by (cases "ru_body r") (simp_all add: pattern_refusals_def form_ready_def map_filter_Nil ready_pattern_unrefused [where G = G] del: List.map_filter_simps)
  then have "refuse_broken_patterns r = None" by (simp add: refuse_broken_patterns_def)
  moreover have "a = UpdateAction r0 r \<and> ru_id r = ru_id r0 \<and> ru_wraps r = ru_wraps r0" if "rd_id d \<noteq> None"
  proof -
    have d: "d = from_rule r0" using assms(2) that by simp
    have "rd_id d = Some (ru_id r0) \<and> rd_original d = Some r0 \<and> rd_wraps d = ru_wraps r0"
      using that unfolding d by (cases "ru_body r0") (simp_all add: from_rule_def fresh_draft_def)
    then show ?thesis using a r by (simp add: into_rule_Inr)
  qed
  ultimately show ?thesis using ready a by blast
qed

section \<open>Rules from suggestions and rows\<close>

definition suggested_decision :: "SuggestionDecision \<Rightarrow> RuleDecision" where
  "suggested_decision d = (case d of SuggestApprove \<Rightarrow> ApproveRule | SuggestDeny \<Rightarrow> DenyRule)"

text \<open>What a row must share with its suggestion: the merging of commands is exact only for plain ones and
  up to the bound on samples, a key may join different wraps, and the name of a caller is matched
  against its executable when that is known.\<close>

definition representative :: "Suggestion \<Rightarrow> AuditEntry list \<Rightarrow> AuditEntry \<Rightarrow> bool" where
  "representative s rows e \<longleftrightarrow>
     (\<forall>f \<in> {sg_wrap s, or_empty (sg_argv s), sg_ancestor s, or_empty (sg_cwd s)}. trim f = f)
     \<and> \<not> has_wildcards (sg_ancestor s) \<and> \<not> has_wildcards (or_empty (sg_cwd s))
     \<and> (\<forall>x \<in> set rows. plain_command (entry_joined_argv x))
     \<and> card (entry_joined_argv ` set rows) < MAX_ARGV_SAMPLES
     \<and> entry_joined_argv e \<noteq> [] \<and> sg_argv s \<noteq> Some (entry_joined_argv e @ '' *'')
     \<and> ae_wrap e = sg_wrap s
     \<and> (case ae_callers e of [] \<Rightarrow> False | c # _ \<Rightarrow> uc_name c = sg_ancestor s
          \<and> (case uc_exe c of None \<Rightarrow> True | Some exe \<Rightarrow> contains_sub exe (sg_ancestor s)))
     \<and> (ae_secrets e \<noteq> [] \<or> sg_trained_secrets s = [] \<or> sg_decide s = SuggestDeny)"

lemma lone_rule_hit:
  assumes "ru_enabled r" "ru_wraps r = None" "ru_body r = Declarative m d" "clause_outcome G m ctx = Match"
    and "static_decision d = ApproveRule \<Longrightarrow> declarative_approve_in_scope r ctx \<and> cx_secrets ctx \<noteq> []"
  shows "\<exists>h. ev_hit (evaluate G H [r] [] ctx) = Some h \<and> rh_decide h = static_decision d"
proof -
  have on: "consulted no_refusals ctx r"
    using assms(1,2) by (simp add: consulted_def scope_refusal_of_def no_refusals_def wrap_in_scope_def)
  have denied: "denies G H [] no_refusals ctx r \<longleftrightarrow> static_decision d = DenyRule"
    using on assms(3,4) by (simp add: denies_def)
  have asked: "\<not> asks_for_human G H [] no_refusals ctx r"
    using assms(2-4) by (simp add: asks_for_human_def scope_refusal_of_def no_refusals_def wrap_in_scope_def)
  show ?thesis
  proof (cases "static_decision d")
    case DenyRule
    then show ?thesis
      using hit_denies_iff [of G H "[r]" "[]" no_refusals ctx] denied unfolding evaluate_def by auto
  next
    case ApproveRule
    have "blesses G H [] no_refusals ctx x r" if "x \<in> set (cx_secrets ctx)" for x
      using that on assms(3,4) assms(5) [OF ApproveRule] ApproveRule by (simp add: blesses_def)
    then show ?thesis
      using hit_approves_iff [of G H "[r]" "[]" no_refusals ctx] denied asked assms(5) [OF ApproveRule] ApproveRule
      unfolding evaluate_def by auto
  qed
qed

lemma wrong_ancestor:
  "rm_ancestor m = Some p \<Longrightarrow> \<not> is_invalid p \<Longrightarrow> \<not> list_ex (matches_ancestor G p) (cx_callers ctx) \<Longrightarrow> clause_outcome G m ctx = NoMatch"
  by (simp add: clause_outcome_def Let_def)

lemma within_matches:
  assumes "within d p" "d \<noteq> []" "\<not> has_wildcards d"
  shows "matches_path_prefix G (pattern_parse G d) p"
proof (cases "strip_suffix ''/'' d")
  case None
  then show ?thesis using assms strip_prefix_append [of d "[]"]
    by (auto simp: matches_path_prefix_def pattern_parse_def Let_def within_def starts_with_iff)
next
  case (Some w)
  then have d: "d = w @ ''/''" by (simp add: strip_suffix_Some)
  have slash: "starts_with (''/'' @ x) ''/''" for x by (rule starts_with_append)
  obtain rest where "p = w @ ''/'' @ rest" using assms(1) by (auto simp: within_def starts_with_iff d)
  then show ?thesis using assms(3) Some slash [of rest]
    by (auto simp: matches_path_prefix_def pattern_parse_def Let_def)
qed

lemma sampled:
  assumes "summarises now rows c" "e \<in> set rows" "entry_joined_argv e \<noteq> []"
    and "card (entry_joined_argv ` set rows) < MAX_ARGV_SAMPLES"
  shows "entry_joined_argv e \<in> set (cl_argv_samples c)"
proof -
  have sub: "set (cl_argv_samples c) \<subseteq> entry_joined_argv ` set rows" and "distinct (cl_argv_samples c)"
    using assms(1) by (simp_all add: summarises_def)
  then have "length (cl_argv_samples c) \<le> card (entry_joined_argv ` set rows)"
    by (metis List.finite_set card_mono distinct_card finite_imageI)
  then show ?thesis using assms by (auto simp: summarises_def)
qed

lemma suggestion_clause:
  assumes "star_glob G" "summarises now rows c" "s = into_suggestion c" "e \<in> set rows"
    and "into_rule G new_id t (from_suggestion s) = Inr r" "representative s rows e"
    and "ru_body r = Declarative m d"
  shows "clause_outcome G m (row_ctx e) = Match"
proof -
  have rep: "trim (sg_wrap s) = sg_wrap s" "trim (or_empty (sg_argv s)) = or_empty (sg_argv s)"
    "trim (sg_ancestor s) = sg_ancestor s" "trim (or_empty (sg_cwd s)) = or_empty (sg_cwd s)"
    "\<not> has_wildcards (sg_ancestor s)" "\<not> has_wildcards (or_empty (sg_cwd s))"
    "\<forall>x \<in> set rows. plain_command (entry_joined_argv x)" "card (entry_joined_argv ` set rows) < MAX_ARGV_SAMPLES"
    "entry_joined_argv e \<noteq> []" "sg_argv s \<noteq> Some (entry_joined_argv e @ '' *'')" "ae_wrap e = sg_wrap s"
    using assms(6) by (simp_all add: representative_def)
  obtain k ks where k: "ae_callers e = k # ks" "uc_name k = sg_ancestor s"
    "case uc_exe k of None \<Rightarrow> True | Some exe \<Rightarrow> contains_sub exe (sg_ancestor s)"
    using assms(6) by (auto simp: representative_def split: list.splits)
  have m: "m = \<lparr>rm_wrap = sg_wrap s, rm_argv = optional_pattern G (or_empty (sg_argv s)),
      rm_ancestor = optional_pattern G (sg_ancestor s), rm_cwd = optional_pattern G (or_empty (sg_cwd s))\<rparr>"
    and valid: "tidy_pattern G (rm_argv m)" "tidy_pattern G (rm_ancestor m)" "tidy_pattern G (rm_cwd m)"
    using assms(5,7) saved_form_ready [OF assms(5)] rep(1)
    by (simp_all add: into_rule_Inr form_ready_def from_suggestion_def)
  have argv: "matches_prefix G p (entry_joined_argv e)" if p: "rm_argv m = Some p" for p
  proof -
    obtain x where x: "sg_argv s = Some x" "p = pattern_parse G x"
      using p rep(2) by (cases "sg_argv s") (auto simp: m optional_pattern_def or_empty_def split: if_splits)
    have "merge_argv_samples (cl_argv_samples c) = Some x" using x(1) assms(3) by (simp add: into_suggestion_def)
    moreover have "\<forall>y \<in> set (cl_argv_samples c). plain_command y" using rep(7) assms(2) by (auto simp: summarises_def)
    moreover have "entry_joined_argv e \<in> set (cl_argv_samples c)" by (rule sampled [OF assms(2,4) rep(9,8)])
    ultimately show ?thesis using merged_covers [OF assms(1)] rep(10) x by blast
  qed
  have ancestor: "matches_ancestor G p \<lparr>ec_name = uc_name k, ec_command = uc_command k, ec_exe = uc_exe k\<rparr>"
    if "rm_ancestor m = Some p" for p
  proof -
    have p: "p = pattern_parse G (sg_ancestor s)" using that rep(3) by (simp add: m optional_pattern_def split: if_splits)
    have "contains_sub x x" for x :: string using contains_sub_iff [of x x] by (metis append_Nil append_Nil2)
    then show ?thesis using k(2,3) rep(5)
      by (simp add: p matches_ancestor_def matches_substring_def pattern_parse_def split: option.splits)
  qed
  have cwd: "matches_path_prefix G p (ae_cwd e)" if p: "rm_cwd m = Some p" for p
  proof -
    obtain x where x: "sg_cwd s = Some x" "p = pattern_parse G x" "x \<noteq> []"
      using p rep(4) by (cases "sg_cwd s") (auto simp: m optional_pattern_def or_empty_def split: if_splits)
    then have "within x (ae_cwd e)" using assms(2-4) by (auto simp: into_suggestion_def summarises_def split: if_splits)
    then show ?thesis using within_matches x rep(6) by (simp add: or_empty_def)
  qed
  have wrap: "rm_wrap m = cx_wrap (row_ctx e)" by (simp add: m row_ctx_def rep(11))
  show ?thesis
    using wrap argv ancestor cwd valid k(1)
    by (auto simp: clause_outcome_def Let_def row_ctx_def tidy_pattern_def split: option.splits)
qed

text \<open>A suggestion saved as a rule decides the rows it was made from: evaluated alone on a row that
  is representative, the rule hits with the suggestion's decision.\<close>

theorem a_saved_suggestion_covers_its_rows:
  assumes "star_glob G" "s \<in> set (suggest G H entries rules now)" "rows = cluster_rows now entries (sg_key s)" "e \<in> set rows"
    and "into_rule G new_id t (from_suggestion s) = Inr r" "representative s rows e"
  shows "\<exists>h. ev_hit (evaluate G H [r] [] (row_ctx e)) = Some h \<and> rh_decide h = suggested_decision (sg_decide s)"
proof -
  obtain c where c: "summarises now rows c" "s = into_suggestion c"
    using suggested_cluster [OF assms(2)] unfolding assms(3) by blast
  obtain m d where body: "ru_body r = Declarative m d" and r: "ru_enabled r" "ru_wraps r = None"
      "ru_trained_secrets r = sg_trained_secrets s" "static_decision d = suggested_decision (sg_decide s)"
    using assms(5) by (cases "sg_decide s")
      (simp_all add: into_rule_Inr from_suggestion_def draft_decision_def suggested_decision_def)
  have "declarative_approve_in_scope r (row_ctx e) \<and> cx_secrets (row_ctx e) \<noteq> []" if "static_decision d = ApproveRule"
  proof -
    have "set (ae_secrets e) \<subseteq> set (sg_trained_secrets s)" using c assms(4) by (auto simp: summarises_def into_suggestion_def)
    moreover have "ae_secrets e \<noteq> [] \<or> sg_trained_secrets s = []"
      using assms(6) that r(4) by (auto simp: representative_def suggested_decision_def)
    ultimately show ?thesis
      by (auto simp: declarative_approve_in_scope_def r(3) row_ctx_def replay_subjects_def evaluation_subjects_def list_all_iff)
  qed
  from lone_rule_hit [OF r(1,2) body suggestion_clause [OF assms(1) c assms(4,5,6) body] this] show ?thesis
    using r(4) by simp
qed

text \<open>A rule made from an approved row that asked for no secret has nothing to compare with: wherever
  its clause matches it approves every secret of every later ask.\<close>

theorem a_rule_from_a_gate_only_row_approves_any_secret:
  assumes "into_rule G new_id t (from_audit_entry e) = Inr r" "ae_secrets e = []" "\<not> starts_with (ae_decision e) ''deny''"
    and "ru_body r = Declarative m d" "clause_outcome G m (row_ctx e) = Match" "names \<noteq> []"
  shows "\<exists>h. ev_hit (evaluate G H [r] [] ((row_ctx e)\<lparr>cx_secrets := names\<rparr>)) = Some h \<and> rh_decide h = ApproveRule"
proof -
  let ?ctx = "(row_ctx e)\<lparr>cx_secrets := names\<rparr>"
  have r: "ru_enabled r" "ru_wraps r = None" "ru_trained_secrets r = []" "static_decision d = ApproveRule"
    using assms(1-4) by (simp_all add: into_rule_Inr from_audit_entry_def draft_decision_def bs_collect_def)
  have same: "cx_wrap ?ctx = cx_wrap (row_ctx e)" "cx_joined_argv ?ctx = cx_joined_argv (row_ctx e)"
    "cx_callers ?ctx = cx_callers (row_ctx e)" "cx_cwd ?ctx = cx_cwd (row_ctx e)"
    by simp_all
  have "clause_outcome G m ?ctx = clause_outcome G m (row_ctx e)" unfolding clause_outcome_def same ..
  then have "clause_outcome G m ?ctx = Match" using assms(5) by simp
  from lone_rule_hit [OF r(1,2) assms(4) this, of H] show ?thesis
    using r(3,4) assms(6) by (simp add: declarative_approve_in_scope_def)
qed

section \<open>Concrete instances\<close>

definition hand_match :: RuleMatch where
  "hand_match = \<lparr>rm_wrap = ''gh'', rm_argv = Some \<lparr>pt_raw = ''gh pr *'', pt_kind = GlobKind\<rparr>,
     rm_ancestor = Some \<lparr>pt_raw = ''agent'', pt_kind = LiteralKind\<rparr>,
     rm_cwd = Some \<lparr>pt_raw = ''/home/me/src'', pt_kind = LiteralKind\<rparr>\<rparr>"

definition hand_rule :: Rule where
  "hand_rule = \<lparr>ru_id = ''r1'', ru_name = ''gh from agent'', ru_enabled = True, ru_wraps = None,
     ru_trained_secrets = [''TOK''], ru_created_at_unix = 9, ru_body = Declarative hand_match StaticApprove\<rparr>"

lemma hand_trims:
  "trim ''gh'' = ''gh''" "trim ''gh pr *'' = ''gh pr *''" "trim ''agent'' = ''agent''"
  "trim ''/home/me/src'' = ''/home/me/src''" "trim ''gh from agent'' = ''gh from agent''"
  by (rule trim_id; simp)+

lemma hand_saved: "into_rule star_crate ''r1'' 9 (from_suggestion hand_suggestion) = Inr hand_rule"
  by (simp add: into_rule_Inr problems_none from_suggestion_def hand_suggestion_def or_empty_def hand_trims optional_pattern_def
      tidy_pattern_def tidy_def pattern_parse_def has_wildcards_def star_crate_def is_invalid_def invalid_reason_def
      hand_rule_def hand_match_def draft_decision_def)

lemma hand_redundant: "redundant_with_existing_rules star_crate sample_host hand_suggestion [hand_rule]"
proof -
  have "star_match ''gh pr *'' ''gh pr *''" by code_simp
  then have "clause_outcome star_crate hand_match (suggestion_ctx hand_suggestion) = Match"
    by (simp add: clause_outcome_def hand_match_def suggestion_ctx_def hand_suggestion_def is_invalid_def invalid_reason_def
        matches_prefix_def matches_ancestor_def matches_substring_def matches_path_prefix_def star_crate_def
        strip_suffix_def contains_sub_def)
  then obtain h where "ev_hit (evaluate star_crate sample_host [hand_rule] [] (suggestion_ctx hand_suggestion)) = Some h"
    "rh_decide h = ApproveRule"
    using lone_rule_hit [of hand_rule hand_match StaticApprove star_crate "suggestion_ctx hand_suggestion" sample_host]
    by (auto simp: hand_rule_def declarative_approve_in_scope_def suggestion_ctx_def hand_suggestion_def)
  then show ?thesis by (simp add: redundant_with_existing_rules_def) (simp add: hand_suggestion_def)
qed

text \<open>A suggestion may be saved as a rule that never fires: a caller whose executable has another
  name than the caller passes the check for redundancy but not the rule, so every ask goes on to the
  prompt and the suggestion is gone.\<close>

theorem a_saved_suggestion_may_never_fire:
  "hand_suggestion \<in> set (suggest star_crate sample_host (hand_rows (Some ''/opt/tool/run'')) [] 9)
   \<and> into_rule star_crate ''r1'' 9 (from_suggestion hand_suggestion) = Inr hand_rule
   \<and> list_all (\<lambda>e. ev_hit (evaluate star_crate sample_host [hand_rule] [] (row_ctx e)) = None) (hand_rows (Some ''/opt/tool/run''))
   \<and> suggest star_crate sample_host (hand_rows (Some ''/opt/tool/run'')) [hand_rule] 9 = []"
proof (intro conjI)
  have sub: "\<not> contains_sub ''/opt/tool/run'' ''agent''" by code_simp
  have "clause_outcome star_crate hand_match (row_ctx (hand_row (Some ''/opt/tool/run'') t args)) = NoMatch" for t args
    using sub by (intro wrong_ancestor [where p = "\<lparr>pt_raw = ''agent'', pt_kind = LiteralKind\<rparr>"]) (simp_all add: hand_match_def row_ctx_def hand_row_def is_invalid_def invalid_reason_def
        matches_ancestor_def matches_substring_def)
  then have "ev_hit (evaluate star_crate sample_host [hand_rule] [] (row_ctx (hand_row (Some ''/opt/tool/run'') t args))) = None" for t args
    by (simp add: evaluate_def evaluate_with_refusals_def eval_step_def step_declarative_def hand_rule_def pass_init_def
        scope_refusal_of_def no_refusals_def wrap_in_scope_def approve_hit_def hm_values_def)
  then show "list_all (\<lambda>e. ev_hit (evaluate star_crate sample_host [hand_rule] [] (row_ctx e)) = None) (hand_rows (Some ''/opt/tool/run''))"
    by (simp add: hand_rows_def)
  show "hand_suggestion \<in> set (suggest star_crate sample_host (hand_rows (Some ''/opt/tool/run'')) [] 9)"
    by (simp add: hand_suggested)
qed (simp_all add: hand_suggested_unless hand_redundant hand_saved)

theorem a_saved_suggestion_covers_its_rows_witness:
  "\<exists>h. ev_hit (evaluate star_crate sample_host [hand_rule] [] (row_ctx (hand_row None 1 [''pr'', ''list'']))) = Some h
     \<and> rh_decide h = ApproveRule"
proof -
  let ?rows = "cluster_rows 9 (hand_rows None) (sg_key hand_suggestion)"
  let ?e = "hand_row None 1 [''pr'', ''list'']"
  have sug: "hand_suggestion \<in> set (suggest star_crate sample_host (hand_rows None) [] 9)" by (simp add: hand_suggested)
  have argv: "entry_joined_argv (hand_row exe t [''pr'', ''list'']) = ''gh pr list''"
    "entry_joined_argv (hand_row exe t [''pr'', ''view'']) = ''gh pr view''" for exe t
    by (simp_all add: hand_row_def entry_joined_argv_def evaluator_command_def joined_argv_def)
  have e: "?e \<in> set ?rows"
    by (simp add: cluster_rows_def hand_rows_def row_key_def row_side_def hand_row_def SUGGESTION_WINDOW_SECS_def from_audit_def
        cluster_key_def hand_suggestion_def)
  have rows: "set ?rows \<subseteq> set (hand_rows None)" by (auto simp: cluster_rows_def)
  have "card (entry_joined_argv ` set ?rows) \<le> card (set ?rows)" by (rule card_image_le) simp
  also have "\<dots> \<le> card (set (hand_rows None))" by (rule card_mono [OF _ rows]) simp
  also have "\<dots> \<le> length (hand_rows None)" by (rule card_length)
  finally have few: "card (entry_joined_argv ` set ?rows) < MAX_ARGV_SAMPLES"
    by (simp add: hand_rows_def MAX_ARGV_SAMPLES_def)
  have "\<forall>x \<in> set (hand_rows None). plain_command (entry_joined_argv x)"
    by (simp add: hand_rows_def argv plain_command_def sample_words has_wildcards_def)
  then have plain: "\<forall>x \<in> set ?rows. plain_command (entry_joined_argv x)" using rows by blast
  have row: "ae_wrap (hand_row None t as) = ''gh''" "ae_secrets (hand_row None t as) = [''TOK'']"
    "ae_callers (hand_row None t as) = [\<lparr>uc_pid = 7, uc_name = ''agent'', uc_command = ''agent'', uc_exe = None\<rparr>]" for t as
    by (simp_all add: hand_row_def)
  have "representative hand_suggestion ?rows ?e"
    using few plain unfolding representative_def
    by (simp add: argv row) (simp add: hand_suggestion_def or_empty_def hand_trims has_wildcards_def)
  from a_saved_suggestion_covers_its_rows [OF star_crate_stars sug refl e hand_saved this]
  show ?thesis by (simp add: hand_suggestion_def suggested_decision_def)
qed

lemma hand_ready: "form_ready star_crate hand_rule"
  by (rule saved_form_ready [OF hand_saved])

theorem an_unchanged_edit_keeps_the_rule_witness:
  "click_save star_crate [] 20 (Some ArgvField) (from_rule hand_rule)
     = FormSaved (UpdateAction hand_rule (hand_rule\<lparr>ru_created_at_unix := 20\<rparr>))"
  by (rule an_unchanged_edit_keeps_the_rule [OF hand_ready])

theorem saved_rules_pass_the_daemon_witness:
  "\<exists>r. refuse_broken_patterns r = None \<and> click_save star_crate ''r1'' 9 None (from_suggestion hand_suggestion) = FormSaved (AddAction r)"
proof -
  have "rd_id (from_suggestion hand_suggestion) = None" by (simp add: from_suggestion_def)
  moreover have "problems star_crate None (from_suggestion hand_suggestion) = []" using hand_saved unfolding into_rule_Inr by blast
  ultimately have click: "click_save star_crate ''r1'' 9 None (from_suggestion hand_suggestion) = FormSaved (AddAction hand_rule)"
    by (simp add: click_save_def hand_saved)
  have "rd_id (from_suggestion hand_suggestion) = None" by (simp add: from_suggestion_def)
  from saved_rules_pass_the_daemon [OF click disjI2 [OF this]] click show ?thesis by (auto simp: hand_rule_def)
qed

definition gate_row :: AuditEntry where
  "gate_row = (hand_row None 1 [''pr'', ''list''])\<lparr>ae_secrets := []\<rparr>"

theorem a_rule_from_a_gate_only_row_approves_any_secret_witness:
  "\<exists>r h. into_rule star_crate ''r2'' 9 (from_audit_entry gate_row) = Inr r
     \<and> ev_hit (evaluate star_crate sample_host [r] [] ((row_ctx gate_row)\<lparr>cx_secrets := [''DEPLOY_KEY'']\<rparr>)) = Some h
     \<and> rh_decide h = ApproveRule"
proof -
  have argv: "entry_joined_argv gate_row = ''gh pr list''"
    by (simp add: gate_row_def hand_row_def entry_joined_argv_def evaluator_command_def joined_argv_def)
  have row: "ae_wrap gate_row = ''gh''" "ae_secrets gate_row = []" "ae_decision gate_row = ''approve''"
    "ae_callers gate_row = [\<lparr>uc_pid = 7, uc_name = ''agent'', uc_command = ''agent'', uc_exe = None\<rparr>]"
    "ae_cwd gate_row = ''/home/me/src''" "ae_reason gate_row = None"
    by (simp_all add: gate_row_def hand_row_def)
  have trims: "trim ''gh pr list'' = ''gh pr list''" "trim ''from gh ask'' = ''from gh ask''" by (rule trim_id; simp)+
  define m where "m = \<lparr>rm_wrap = ''gh'', rm_argv = Some \<lparr>pt_raw = ''gh pr list'', pt_kind = LiteralKind\<rparr>,
     rm_ancestor = Some \<lparr>pt_raw = ''agent'', pt_kind = LiteralKind\<rparr>,
     rm_cwd = Some \<lparr>pt_raw = ''/home/me/src'', pt_kind = LiteralKind\<rparr>\<rparr>"
  define r where "r = \<lparr>ru_id = ''r2'', ru_name = ''from gh ask'', ru_enabled = True, ru_wraps = None,
     ru_trained_secrets = [], ru_created_at_unix = 9, ru_body = Declarative m StaticApprove\<rparr>"
  have "\<not> starts_with ''approve'' ''deny''" by code_simp
  then have saved: "into_rule star_crate ''r2'' 9 (from_audit_entry gate_row) = Inr r"
    by (simp add: into_rule_Inr problems_none from_audit_entry_def argv row or_empty_def hand_trims trims optional_pattern_def
        tidy_pattern_def tidy_def pattern_parse_def has_wildcards_def is_invalid_def invalid_reason_def bs_collect_def
        m_def r_def draft_decision_def)
  have "clause_outcome star_crate m (row_ctx gate_row) = Match"
    by (simp add: clause_outcome_def m_def row_ctx_def argv row is_invalid_def invalid_reason_def matches_prefix_def
        matches_ancestor_def matches_substring_def matches_path_prefix_def strip_suffix_def contains_sub_def starts_with_def)
  moreover have "\<not> starts_with (ae_decision gate_row) ''deny''" unfolding row by code_simp
  moreover have "ru_body r = Declarative m StaticApprove" by (simp add: r_def)
  ultimately show ?thesis
    using a_rule_from_a_gate_only_row_approves_any_secret [OF saved row(2), of m StaticApprove "[''DEPLOY_KEY'']" sample_host] saved
    by auto
qed

end
