(* ===== verification/Atomic.thy ===== *)
theory Atomic
  imports Wraps "HOL-Library.Word"
begin

text \<open>
  \<open>src/packages/secreq/src/atomic.rs\<close>: replacing a file through a staging sibling. A writer is a
  small program whose steps are its system calls; writers of any processes run interleaved, a
  call may fail or write only a part, and a process that dies simply takes no further step. The
  lemmas show that no reader ever sees anything but the old file or one writer's whole payload.
\<close>

unbundle bit_operations_syntax

section \<open>The directory tree\<close>

text \<open>Names lead to inodes; \<open>fs_seq\<close> is the counter each process keeps.\<close>

record inode =
  in_bytes :: string
  in_mode :: "32 word"

record fs =
  fs_names :: "string \<rightharpoonup> nat"
  fs_inodes :: "nat \<rightharpoonup> inode"
  fs_next :: nat
  fs_seq :: "nat \<Rightarrow> nat"

definition read_file :: "fs \<Rightarrow> string \<Rightarrow> inode option" where
  "read_file d path = Option.bind (fs_names d path) (fs_inodes d)"

section \<open>Modes\<close>

text \<open>Octal 600 is 0x180 and octal 777 is 0x1FF.\<close>

definition PRIVATE_FILE_MODE :: "32 word" where
  "PRIVATE_FILE_MODE = 0x180"

datatype Mode = Like string | Exactly "32 word"

text \<open>\<open>readable\<close> is whether the metadata could be read.\<close>

definition mode_resolve :: "bool \<Rightarrow> fs \<Rightarrow> Mode \<Rightarrow> 32 word" where
  "mode_resolve readable d mode = (case mode of
      Exactly m \<Rightarrow> m
    | Like path \<Rightarrow> (case (if readable then read_file d path else None) of
        None \<Rightarrow> PRIVATE_FILE_MODE
      | Some i \<Rightarrow> in_mode i AND 0x1FF))"

section \<open>Writers\<close>

datatype progress =
    Resolving
  | CreatingDir "32 word"
  | Opening "32 word" nat
  | Writing "32 word" string nat string
  | Syncing "32 word" string
  | ChangingMode "32 word" string
  | Renaming "32 word" string
  | Sweeping string
  | Finished bool

record writer =
  wr_pid :: nat
  wr_dst :: string
  wr_bytes :: string
  wr_mode :: Mode
  wr_umask :: "32 word"
  wr_phase :: progress

text \<open>How a system call ends; \<open>WritesSome\<close> is a short write.\<close>

datatype outcome = Works | WritesSome nat | Fails

definition dir_name :: "string \<Rightarrow> string" where
  "dir_name path = rev (dropWhile (\<lambda>c. c \<noteq> CHR ''/'') (rev path))"

definition base_name :: "string \<Rightarrow> string" where
  "base_name path = rev (takeWhile (\<lambda>c. c \<noteq> CHR ''/'') (rev path))"

definition stage_name :: "string \<Rightarrow> nat \<Rightarrow> nat \<Rightarrow> string" where
  "stage_name dst pid seq = dir_name dst @ ''.'' @ base_name dst @ ''.'' @ show_nat pid @ ''.'' @ show_nat seq @ ''.tmp''"

definition STAGING_DRAWS :: nat where
  "STAGING_DRAWS = 16"

text \<open>One draw of a staging name: \<open>create_new\<close> takes it only when no file has it.\<close>

definition draw_staging :: "outcome \<Rightarrow> 32 word \<Rightarrow> nat \<Rightarrow> fs \<Rightarrow> writer \<Rightarrow> fs \<times> progress" where
  "draw_staging r mode k d w =
     (let tmp = stage_name (wr_dst w) (wr_pid w) (fs_seq d (wr_pid w));
          d = d\<lparr>fs_seq := (fs_seq d)(wr_pid w := fs_seq d (wr_pid w) + 1)\<rparr>
      in if r = Fails then (d, Finished False)
         else if fs_names d tmp \<noteq> None then (d, Opening mode k)
         else (d\<lparr>fs_names := (fs_names d)(tmp \<mapsto> fs_next d), fs_next := fs_next d + 1,
              fs_inodes := (fs_inodes d)(fs_next d \<mapsto> \<lparr>in_bytes = [], in_mode = mode AND NOT (wr_umask w)\<rparr>)\<rparr>,
            Writing mode tmp (fs_next d) (wr_bytes w)))"

definition set_inode :: "nat \<Rightarrow> (inode \<Rightarrow> inode) \<Rightarrow> fs \<Rightarrow> fs" where
  "set_inode i f d = d\<lparr>fs_inodes := (fs_inodes d)(i := map_option f (fs_inodes d i))\<rparr>"

text \<open>The write of \<open>n\<close> bytes of the rest through the descriptor; none at all is an error.\<close>

definition write_some :: "nat \<Rightarrow> 32 word \<Rightarrow> string \<Rightarrow> nat \<Rightarrow> string \<Rightarrow> fs \<Rightarrow> fs \<times> progress" where
  "write_some n mode tmp i rest d =
     (if n = 0 then (d, Sweeping tmp)
      else (set_inode i (\<lambda>x. x\<lparr>in_bytes := in_bytes x @ take n rest\<rparr>) d, Writing mode tmp i (drop n rest)))"

definition advance_phase :: "outcome \<Rightarrow> fs \<Rightarrow> writer \<Rightarrow> fs \<times> progress" where
  "advance_phase r d w = (case wr_phase w of
      Resolving \<Rightarrow> if wr_dst w \<in> {[], ''/''} then (d, Finished False)
        else (d, CreatingDir (mode_resolve (r \<noteq> Fails) d (wr_mode w)))
    | CreatingDir m \<Rightarrow> if r = Fails then (d, Finished False) else (d, Opening m STAGING_DRAWS)
    | Opening m k \<Rightarrow> (case k of 0 \<Rightarrow> (d, Finished False) | Suc k \<Rightarrow> draw_staging r m k d w)
    | Writing m tmp i rest \<Rightarrow>
        if rest = [] then (d, Syncing m tmp)
        else (case r of
            Fails \<Rightarrow> (d, Sweeping tmp)
          | WritesSome n \<Rightarrow> write_some (min n (length rest)) m tmp i rest d
          | Works \<Rightarrow> write_some (length rest) m tmp i rest d)
    | Syncing m tmp \<Rightarrow> if r = Fails then (d, Sweeping tmp) else (d, ChangingMode m tmp)
    | ChangingMode m tmp \<Rightarrow>
        if r = Fails then (d, Sweeping tmp)
        else (case fs_names d tmp of
            None \<Rightarrow> (d, Sweeping tmp)
          | Some i \<Rightarrow> (set_inode i (\<lambda>x. x\<lparr>in_mode := m\<rparr>) d, Renaming m tmp))
    | Renaming m tmp \<Rightarrow>
        if r = Fails then (d, Sweeping tmp)
        else (case fs_names d tmp of
            None \<Rightarrow> (d, Sweeping tmp)
          | Some i \<Rightarrow> (d\<lparr>fs_names := (fs_names d)(tmp := None, wr_dst w \<mapsto> i)\<rparr>, Finished True))
    | Sweeping tmp \<Rightarrow> (if r = Fails then d else d\<lparr>fs_names := (fs_names d)(tmp := None)\<rparr>, Finished False)
    | Finished ok \<Rightarrow> (d, Finished ok))"

text \<open>The writers run by a schedule of whose call comes next and how it ends.\<close>

definition advance :: "nat \<Rightarrow> outcome \<Rightarrow> fs \<times> writer list \<Rightarrow> fs \<times> writer list" where
  "advance n r = (\<lambda>(d, ws). if n < length ws
     then (let (d, p) = advance_phase r d (ws ! n) in (d, ws[n := (ws ! n)\<lparr>wr_phase := p\<rparr>])) else (d, ws))"

definition run_writers :: "(nat \<times> outcome) list \<Rightarrow> fs \<times> writer list \<Rightarrow> fs \<times> writer list" where
  "run_writers schedule s = fold (\<lambda>(n, r). advance n r) schedule s"

definition replace_by :: "nat \<Rightarrow> string \<Rightarrow> string \<Rightarrow> Mode \<Rightarrow> 32 word \<Rightarrow> writer" where
  "replace_by pid path bs mode umask = \<lparr>wr_pid = pid, wr_dst = path, wr_bytes = bs, wr_mode = mode,
     wr_umask = umask, wr_phase = Resolving\<rparr>"

section \<open>What writers keep\<close>

definition staging :: "string \<Rightarrow> bool" where
  "staging n \<longleftrightarrow> ends_with n ''.tmp''"

lemma stage_name_staging [simp]: "staging (stage_name dst pid seq)"
  by (auto simp: staging_def stage_name_def ends_with_iff)

text \<open>The permissions a file has, or read and write for its owner alone.\<close>

definition kept_modes :: "fs \<Rightarrow> string \<Rightarrow> 32 word set" where
  "kept_modes d path = insert PRIVATE_FILE_MODE ((\<lambda>i. in_mode i AND 0x1FF) ` set_option (read_file d path))"

definition only_like :: "writer list \<Rightarrow> string \<Rightarrow> bool" where
  "only_like ws path \<longleftrightarrow> (\<forall>w \<in> set ws. wr_dst w = path \<longrightarrow> wr_mode w = Like path)"

type_synonym seen_modes = "string \<Rightarrow> 32 word set"

definition meant :: "fs \<Rightarrow> writer list \<Rightarrow> seen_modes \<Rightarrow> writer \<Rightarrow> 32 word \<Rightarrow> bool" where
  "meant d0 ws seen w m \<longleftrightarrow> (case wr_mode w of Exactly x \<Rightarrow> m = x | Like path \<Rightarrow> m \<in> seen path)
     \<and> (only_like ws (wr_dst w) \<longrightarrow> m \<in> kept_modes d0 (wr_dst w))"

fun held :: "progress \<Rightarrow> string option" where
  "held (Writing m tmp i rest) = Some tmp"
| "held (Syncing m tmp) = Some tmp"
| "held (ChangingMode m tmp) = Some tmp"
| "held (Renaming m tmp) = Some tmp"
| "held (Sweeping tmp) = Some tmp"
| "held _ = None"

fun stage_ok :: "(32 word \<Rightarrow> bool) \<Rightarrow> string \<Rightarrow> inode option \<Rightarrow> nat \<Rightarrow> progress \<Rightarrow> bool" where
  "stage_ok ok bs x i (Writing m tmp j rest) = (ok m \<and> i = j \<and> (\<exists>md wrote. x = Some \<lparr>in_bytes = wrote, in_mode = md\<rparr> \<and> wrote @ rest = bs))"
| "stage_ok ok bs x i (Syncing m tmp) = (ok m \<and> (\<exists>md. x = Some \<lparr>in_bytes = bs, in_mode = md\<rparr>))"
| "stage_ok ok bs x i (ChangingMode m tmp) = (ok m \<and> (\<exists>md. x = Some \<lparr>in_bytes = bs, in_mode = md\<rparr>))"
| "stage_ok ok bs x i (Renaming m tmp) = (ok m \<and> x = Some \<lparr>in_bytes = bs, in_mode = m\<rparr>)"
| "stage_ok ok bs x i _ = True"

fun mode_ok :: "(32 word \<Rightarrow> bool) \<Rightarrow> progress \<Rightarrow> bool" where
  "mode_ok ok (CreatingDir m) = ok m"
| "mode_ok ok (Opening m k) = ok m"
| "mode_ok ok _ = True"

definition writer_ok :: "fs \<Rightarrow> writer list \<Rightarrow> seen_modes \<Rightarrow> fs \<Rightarrow> writer \<Rightarrow> bool" where
  "writer_ok d0 ws seen d w \<longleftrightarrow> mode_ok (meant d0 ws seen w) (wr_phase w)
     \<and> (\<forall>tmp. held (wr_phase w) = Some tmp \<longrightarrow> staging tmp \<and> (\<exists>i. fs_names d tmp = Some i \<and> fs_next d0 \<le> i
          \<and> stage_ok (meant d0 ws seen w) (wr_bytes w) (fs_inodes d i) i (wr_phase w)))"

definition disk_ok :: "fs \<Rightarrow> writer list \<Rightarrow> seen_modes \<Rightarrow> fs \<Rightarrow> bool" where
  "disk_ok d0 ws seen d \<longleftrightarrow> fs_next d0 \<le> fs_next d
     \<and> (\<forall>n i. fs_names d n = Some i \<longrightarrow> i < fs_next d)
     \<and> (\<forall>i < fs_next d0. fs_inodes d i = fs_inodes d0 i)
     \<and> (\<forall>n m i. fs_names d n = Some i \<and> fs_names d m = Some i \<and> fs_next d0 \<le> i \<longrightarrow> n = m)
     \<and> (\<forall>p. \<not> staging p \<longrightarrow> fs_names d p = fs_names d0 p
          \<or> (\<exists>w \<in> set ws. \<exists>i m. wr_dst w = p \<and> fs_names d p = Some i \<and> fs_next d0 \<le> i \<and> meant d0 ws seen w m
               \<and> fs_inodes d i = Some \<lparr>in_bytes = wr_bytes w, in_mode = m\<rparr>))"

definition plans :: "writer list \<Rightarrow> (string \<times> string \<times> Mode) list" where
  "plans ws = map (\<lambda>w. (wr_dst w, wr_bytes w, wr_mode w)) ws"

definition held_apart :: "writer list \<Rightarrow> bool" where
  "held_apart ws \<longleftrightarrow> (\<forall>j k t. j < length ws \<and> k < length ws \<and> held (wr_phase (ws ! j)) = Some t
     \<and> held (wr_phase (ws ! k)) = Some t \<longrightarrow> j = k)"

text \<open>What a step of one writer may change: its own inode, its own staging name, its destination.\<close>

definition own_step :: "fs \<Rightarrow> string option \<Rightarrow> string option \<Rightarrow> fs \<Rightarrow> fs \<Rightarrow> bool" where
  "own_step d0 t t' d d' \<longleftrightarrow> (\<forall>n. staging n \<longrightarrow> Some n \<noteq> t \<longrightarrow> fs_names d n \<noteq> None \<longrightarrow> Some n \<noteq> t' \<and> fs_names d' n = fs_names d n)
     \<and> (\<forall>n i. staging n \<longrightarrow> Some n \<noteq> t \<longrightarrow> fs_names d n = Some i \<longrightarrow> fs_next d0 \<le> i \<longrightarrow> fs_inodes d' i = fs_inodes d i)"

definition rooted :: "fs \<Rightarrow> bool" where
  "rooted d \<longleftrightarrow> (\<forall>n i. fs_names d n = Some i \<longrightarrow> i < fs_next d)"

lemma kept_modes_mask: "x \<in> kept_modes d p \<Longrightarrow> x AND 0x1FF \<in> kept_modes d p"
  by (auto simp: kept_modes_def PRIVATE_FILE_MODE_def and.assoc)

definition planned :: "writer list \<Rightarrow> writer \<Rightarrow> bool" where
  "planned ws w \<longleftrightarrow> (wr_dst w, wr_bytes w, wr_mode w) \<in> set (plans ws) \<and> \<not> staging (wr_dst w)"

lemma planned_like: "planned ws w \<Longrightarrow> only_like ws (wr_dst w) \<Longrightarrow> wr_mode w = Like (wr_dst w)"
  by (auto simp: planned_def plans_def only_like_def)

lemma disk_path:
  "disk_ok d0 ws seen d \<Longrightarrow> \<not> staging p \<Longrightarrow> fs_names d p = fs_names d0 p
     \<or> (\<exists>w \<in> set ws. \<exists>i m. wr_dst w = p \<and> fs_names d p = Some i \<and> fs_next d0 \<le> i \<and> meant d0 ws seen w m
          \<and> fs_inodes d i = Some \<lparr>in_bytes = wr_bytes w, in_mode = m\<rparr>)"
  by (simp add: disk_ok_def)

lemma resolved_mode_meant:
  assumes "disk_ok d0 ws seen d" "planned ws w" "rooted d0" "\<And>q. kept_modes d q \<subseteq> seen q"
  shows "meant d0 ws seen w (mode_resolve readable d (wr_mode w))"
proof -
  let ?p = "wr_dst w"
  have "mode_resolve readable d (wr_mode w) \<in> kept_modes d0 ?p" if like: "only_like ws ?p"
  proof (cases "readable \<and> read_file d ?p \<noteq> None")
    case False
    then show ?thesis by (auto simp: planned_like [OF assms(2) like] mode_resolve_def kept_modes_def)
  next
    case True
    then obtain i x where i: "fs_names d ?p = Some i" "fs_inodes d i = Some x"
      by (auto simp: read_file_def split: Option.bind_splits)
    then have m: "mode_resolve readable d (wr_mode w) = in_mode x AND 0x1FF"
      using True by (simp add: planned_like [OF assms(2) like] mode_resolve_def read_file_def)
    have "\<not> staging ?p" using assms(2) by (simp add: planned_def)
    then consider "fs_names d0 ?p = Some i" | v where "v \<in> set ws" "wr_dst v = ?p" "meant d0 ws seen v (in_mode x)"
      using disk_path [OF assms(1), of ?p] i by auto
    then show ?thesis
    proof cases
      case 1
      then have "read_file d0 ?p = Some x" using assms(1,3) i by (simp add: disk_ok_def rooted_def read_file_def)
      then show ?thesis by (simp add: m kept_modes_def)
    next
      case 2
      then show ?thesis using like kept_modes_mask by (auto simp: m meant_def)
    qed
  qed
  moreover have "mode_resolve readable d (Like q) \<in> kept_modes d q" for q
    by (auto simp: mode_resolve_def kept_modes_def split: option.splits)
  then have "mode_resolve readable d (Like q) \<in> seen q" for q using assms(4) by blast
  ultimately show ?thesis by (cases "wr_mode w") (simp_all add: meant_def mode_resolve_def)
qed

lemma other_ok:
  assumes "own_step d0 t t' d d'" "writer_ok d0 ws seen d w" "held (wr_phase w) \<noteq> t \<or> held (wr_phase w) = None"
  shows "writer_ok d0 ws seen d' w \<and> (\<forall>tmp. held (wr_phase w) = Some tmp \<longrightarrow> Some tmp \<noteq> t')"
  using assms unfolding writer_ok_def own_step_def by fastforce

lemma set_inode_simps [simp]:
  "fs_names (set_inode i f d) = fs_names d" "fs_next (set_inode i f d) = fs_next d"
  "fs_inodes (set_inode i f d) j = (if j = i then map_option f (fs_inodes d i) else fs_inodes d j)"
  by (simp_all add: set_inode_def)

text \<open>Changing the inode behind a staging name leaves every other file alone.\<close>

lemma set_inode_disk:
  assumes "disk_ok d0 ws seen d" "fs_names d tmp = Some i" "fs_next d0 \<le> i" "staging tmp"
  shows "disk_ok d0 ws seen (set_inode i f d) \<and> own_step d0 (Some tmp) (Some tmp) d (set_inode i f d)"
proof -
  have alone: "fs_names d n = Some i \<Longrightarrow> n = tmp" for n using assms unfolding disk_ok_def by blast
  have "disk_ok d0 ws seen (set_inode i f d)" using assms(1,3,4) alone unfolding disk_ok_def by (auto; metis alone assms(4))
  then show ?thesis using alone by (auto simp: own_step_def)
qed

lemma drop_name_disk:
  assumes "disk_ok d0 ws seen d" "staging tmp"
  shows "disk_ok d0 ws seen (d\<lparr>fs_names := (fs_names d)(tmp := None)\<rparr>)
    \<and> own_step d0 (Some tmp) None d (d\<lparr>fs_names := (fs_names d)(tmp := None)\<rparr>)"
proof -
  have "disk_ok d0 ws seen (d\<lparr>fs_names := (fs_names d)(tmp := None)\<rparr>)"
    using assms unfolding disk_ok_def by (auto split: if_splits)
  then show ?thesis by (simp add: own_step_def)
qed

lemma own_step_refl [simp]: "own_step d0 t t d d"
  by (simp add: own_step_def)

lemma own_step_none [simp]: "own_step d0 t None d d"
  by (simp add: own_step_def)

definition step_keeps :: "fs \<Rightarrow> writer list \<Rightarrow> seen_modes \<Rightarrow> fs \<Rightarrow> writer \<Rightarrow> fs \<times> progress \<Rightarrow> bool" where
  "step_keeps d0 ws seen d w = (\<lambda>(d', p). disk_ok d0 ws seen d' \<and> writer_ok d0 ws seen d' (w\<lparr>wr_phase := p\<rparr>)
     \<and> own_step d0 (held (wr_phase w)) (held p) d d')"

lemma meant_phase [simp]: "meant d0 ws seen (w\<lparr>wr_phase := p\<rparr>) = meant d0 ws seen w"
  by (simp add: meant_def fun_eq_iff)

lemma draw_keeps:
  assumes "disk_ok d0 ws seen d" "meant d0 ws seen w m" "wr_phase w = Opening m (Suc k)"
  shows "step_keeps d0 ws seen d w (draw_staging r m k d w)"
proof -
  let ?tmp = "stage_name (wr_dst w) (wr_pid w) (fs_seq d (wr_pid w))"
  let ?d1 = "d\<lparr>fs_seq := (fs_seq d)(wr_pid w := fs_seq d (wr_pid w) + 1)\<rparr>"
  let ?d2 = "?d1\<lparr>fs_names := (fs_names d)(?tmp \<mapsto> fs_next d), fs_next := fs_next d + 1,
      fs_inodes := (fs_inodes d)(fs_next d \<mapsto> \<lparr>in_bytes = [], in_mode = m AND NOT (wr_umask w)\<rparr>)\<rparr>"
  have d1: "disk_ok d0 ws seen ?d1" "own_step d0 None None d ?d1"
    using assms(1) by (simp_all add: disk_ok_def own_step_def)
  show ?thesis
  proof (cases "r = Fails \<or> fs_names d ?tmp \<noteq> None")
    case True
    then show ?thesis using d1 assms(2,3) by (auto simp: draw_staging_def Let_def step_keeps_def writer_ok_def)
  next
    case False
    then have free: "fs_names d ?tmp = None" by simp
    have bound: "\<And>n i. fs_names d n = Some i \<Longrightarrow> i < fs_next d" "fs_next d0 \<le> fs_next d" using assms(1) by (auto simp: disk_ok_def)
    have disk: "disk_ok d0 ws seen ?d2"
      unfolding disk_ok_def
    proof (intro conjI allI impI)
      fix n i assume "fs_names ?d2 n = Some i"
      then show "i < fs_next ?d2" using bound by (auto split: if_splits intro: less_SucI)
    next
      fix i assume "i < fs_next d0"
      then show "fs_inodes ?d2 i = fs_inodes d0 i" using assms(1) bound(2) by (simp add: disk_ok_def)
    next
      fix n n' i assume "fs_names ?d2 n = Some i \<and> fs_names ?d2 n' = Some i \<and> fs_next d0 \<le> i"
      then show "n = n'" using assms(1) bound(1) by (auto simp: disk_ok_def split: if_splits)
    next
      fix p assume p: "\<not> staging p"
      then have "p \<noteq> ?tmp" by auto
      then show "fs_names ?d2 p = fs_names d0 p \<or> (\<exists>w \<in> set ws. \<exists>i m. wr_dst w = p \<and> fs_names ?d2 p = Some i \<and> fs_next d0 \<le> i
          \<and> meant d0 ws seen w m \<and> fs_inodes ?d2 i = Some \<lparr>in_bytes = wr_bytes w, in_mode = m\<rparr>)"
        using disk_path [OF assms(1) p] bound(1) [of p] by fastforce
    qed (use bound in simp)
    have own: "own_step d0 None (Some ?tmp) d ?d2"
      using free bound(1) by (auto simp: own_step_def)
    have "writer_ok d0 ws seen ?d2 (w\<lparr>wr_phase := Writing m ?tmp (fs_next d) (wr_bytes w)\<rparr>)"
      using assms(2) bound(2) by (simp add: writer_ok_def)
    then show ?thesis using disk own False assms(3) by (auto simp: draw_staging_def Let_def step_keeps_def)
  qed
qed

lemma write_keeps:
  assumes "disk_ok d0 ws seen d" "writer_ok d0 ws seen d w" "wr_phase w = Writing m tmp i rest"
  shows "step_keeps d0 ws seen d w (write_some n m tmp i rest d)"
proof -
  obtain md wrote where h: "staging tmp" "fs_names d tmp = Some i" "fs_next d0 \<le> i" "meant d0 ws seen w m"
    "fs_inodes d i = Some \<lparr>in_bytes = wrote, in_mode = md\<rparr>" "wrote @ rest = wr_bytes w"
    using assms(2,3) by (auto simp: writer_ok_def)
  let ?f = "\<lambda>x. x\<lparr>in_bytes := in_bytes x @ take n rest\<rparr>"
  have "writer_ok d0 ws seen (set_inode i ?f d) (w\<lparr>wr_phase := Writing m tmp i (drop n rest)\<rparr>)"
    using h by (simp add: writer_ok_def)
  moreover have "writer_ok d0 ws seen d (w\<lparr>wr_phase := Sweeping tmp\<rparr>)" using h by (simp add: writer_ok_def)
  ultimately show ?thesis using set_inode_disk [OF assms(1) h(2,3,1), of ?f] assms(1,3)
    by (simp add: write_some_def step_keeps_def)
qed

lemma rename_keeps:
  assumes "disk_ok d0 ws seen d" "writer_ok d0 ws seen d w" "wr_phase w = Renaming m tmp" "planned ws w" "fs_names d tmp = Some i"
  shows "step_keeps d0 ws seen d w (d\<lparr>fs_names := (fs_names d)(tmp := None, wr_dst w \<mapsto> i)\<rparr>, Finished True)"
proof -
  let ?d = "d\<lparr>fs_names := (fs_names d)(tmp := None, wr_dst w \<mapsto> i)\<rparr>"
  have h: "staging tmp" "fs_next d0 \<le> i" "meant d0 ws seen w m" "fs_inodes d i = Some \<lparr>in_bytes = wr_bytes w, in_mode = m\<rparr>"
    using assms(2,3,5) by (auto simp: writer_ok_def)
  obtain v where v: "v \<in> set ws" "wr_dst v = wr_dst w" "wr_bytes v = wr_bytes w" "wr_mode v = wr_mode w"
    using assms(4) by (auto simp: planned_def plans_def)
  have dst: "\<not> staging (wr_dst w)" using assms(4) by (simp add: planned_def)
  have vm: "meant d0 ws seen v m" using h(3) v by (simp add: meant_def)
  have "disk_ok d0 ws seen ?d"
    unfolding disk_ok_def
  proof (intro conjI allI impI)
    fix n j assume "fs_names ?d n = Some j"
    then show "j < fs_next ?d" using assms(1,5) by (auto simp: disk_ok_def split: if_splits)
  next
    fix n n' j assume a: "fs_names ?d n = Some j \<and> fs_names ?d n' = Some j \<and> fs_next d0 \<le> j"
    have alone: "fs_names d x = Some y \<Longrightarrow> fs_names d z = Some y \<Longrightarrow> fs_next d0 \<le> y \<Longrightarrow> x = z" for x y z
      using assms(1) by (auto simp: disk_ok_def)
    have c: "(x = wr_dst w \<and> y = i) \<or> (x \<noteq> tmp \<and> fs_names d x = Some y)" if "fs_names ?d x = Some y" for x y
      using that by (simp split: if_splits)
    from c [of n j] c [of n' j] a have "(n = wr_dst w \<and> j = i) \<or> (n \<noteq> tmp \<and> fs_names d n = Some j)"
      "(n' = wr_dst w \<and> j = i) \<or> (n' \<noteq> tmp \<and> fs_names d n' = Some j)" by blast+
    then show "n = n'" using alone [of n i tmp] alone [of n' i tmp] alone [of n j n'] assms(5) a h(2) by blast
  next
    fix p assume p: "\<not> staging p"
    show "fs_names ?d p = fs_names d0 p \<or> (\<exists>w \<in> set ws. \<exists>i m. wr_dst w = p \<and> fs_names ?d p = Some i \<and> fs_next d0 \<le> i
        \<and> meant d0 ws seen w m \<and> fs_inodes ?d i = Some \<lparr>in_bytes = wr_bytes w, in_mode = m\<rparr>)"
    proof (cases "p = wr_dst w")
      case True
      then show ?thesis using v vm h by (intro disjI2 bexI [of _ v] exI [of _ i] exI [of _ m]) simp_all
    next
      case False
      moreover have "p \<noteq> tmp" using p h(1) by auto
      ultimately show ?thesis using disk_path [OF assms(1) p] by simp
    qed
  qed (use assms(1) in \<open>auto simp: disk_ok_def\<close>)
  moreover have "own_step d0 (Some tmp) None d ?d" using dst by (auto simp: own_step_def)
  ultimately show ?thesis using assms(3) by (simp add: step_keeps_def writer_ok_def)
qed

lemma step_ok:
  assumes "disk_ok d0 ws seen d" "writer_ok d0 ws seen d w" "planned ws w" "rooted d0" "\<And>q. kept_modes d q \<subseteq> seen q"
  shows "step_keeps d0 ws seen d w (advance_phase r d w)"
proof (cases "wr_phase w")
  case Resolving
  then show ?thesis using assms resolved_mode_meant [OF assms(1,3,4,5)]
    by (simp add: advance_phase_def step_keeps_def writer_ok_def)
next
  case (CreatingDir m)
  then show ?thesis using assms(1,2) by (simp add: advance_phase_def step_keeps_def writer_ok_def)
next
  case (Opening m k)
  then show ?thesis using assms(1,2) draw_keeps [OF assms(1), of w m]
    by (cases k) (simp_all add: advance_phase_def step_keeps_def writer_ok_def)
next
  case (Writing m tmp i rest)
  then have "step_keeps d0 ws seen d w (d, Sweeping tmp)" using assms(1,2) by (auto simp: step_keeps_def writer_ok_def)
  moreover have "step_keeps d0 ws seen d w (d, Syncing m tmp)" if "rest = []"
    using that assms(1,2) Writing by (auto simp: step_keeps_def writer_ok_def)
  ultimately show ?thesis using write_keeps [OF assms(1,2) Writing] Writing
    by (simp add: advance_phase_def split: outcome.split)
next
  case (Syncing m tmp)
  then show ?thesis using assms(1,2) by (auto simp: advance_phase_def step_keeps_def writer_ok_def)
next
  case (ChangingMode m tmp)
  then obtain i md where h: "staging tmp" "fs_names d tmp = Some i" "fs_next d0 \<le> i" "meant d0 ws seen w m"
    "fs_inodes d i = Some \<lparr>in_bytes = wr_bytes w, in_mode = md\<rparr>" using assms(2) by (auto simp: writer_ok_def)
  then show ?thesis using set_inode_disk [OF assms(1) h(2,3,1), of "\<lambda>x. x\<lparr>in_mode := m\<rparr>"] assms(1) ChangingMode
    by (auto simp: advance_phase_def step_keeps_def writer_ok_def)
next
  case (Renaming m tmp)
  then obtain i where i: "fs_names d tmp = Some i" using assms(2) by (auto simp: writer_ok_def)
  show ?thesis using rename_keeps [OF assms(1,2) Renaming assms(3) i] assms(1,2) Renaming i
    by (auto simp: advance_phase_def step_keeps_def writer_ok_def)
next
  case (Sweeping tmp)
  then have "staging tmp" using assms(2) by (auto simp: writer_ok_def)
  then show ?thesis using drop_name_disk [OF assms(1), of tmp] assms(1) Sweeping
    by (auto simp: advance_phase_def step_keeps_def writer_ok_def own_step_def)
next
  case (Finished ok)
  then show ?thesis using assms(1) by (simp add: advance_phase_def step_keeps_def writer_ok_def)
qed

definition race_ok :: "fs \<Rightarrow> writer list \<Rightarrow> seen_modes \<Rightarrow> fs \<times> writer list \<Rightarrow> bool" where
  "race_ok d0 ws seen = (\<lambda>(d, now). disk_ok d0 ws seen d \<and> plans now = plans ws \<and> held_apart now
     \<and> (\<forall>w \<in> set now. writer_ok d0 ws seen d w \<and> planned ws w))"

lemma advance_ok:
  assumes "race_ok d0 ws seen (d, now)" "rooted d0" "\<And>q. kept_modes d q \<subseteq> seen q"
  shows "race_ok d0 ws seen (advance n r (d, now))"
proof (cases "n < length now")
  case True
  let ?w = "now ! n"
  obtain d' p where a: "advance_phase r d ?w = (d', p)" by fastforce
  have w: "writer_ok d0 ws seen d ?w" "planned ws ?w" and apart: "held_apart now" and disk: "disk_ok d0 ws seen d"
    using assms(1) True by (auto simp: race_ok_def)
  from step_ok [OF disk w assms(2,3), of r] have k: "disk_ok d0 ws seen d'" "writer_ok d0 ws seen d' (?w\<lparr>wr_phase := p\<rparr>)"
    "own_step d0 (held (wr_phase ?w)) (held p) d d'" by (simp_all add: step_keeps_def a)
  let ?now = "now[n := ?w\<lparr>wr_phase := p\<rparr>]"
  have other: "writer_ok d0 ws seen d' (now ! j) \<and> (\<forall>t. held (wr_phase (now ! j)) = Some t \<longrightarrow> Some t \<noteq> held p)"
    if "j < length now" "j \<noteq> n" for j
  proof (rule other_ok [OF k(3)])
    show "writer_ok d0 ws seen d (now ! j)" using assms(1) that by (simp add: race_ok_def)
    show "held (wr_phase (now ! j)) \<noteq> held (wr_phase ?w) \<or> held (wr_phase (now ! j)) = None"
      using apart that True unfolding held_apart_def by (metis option.exhaust)
  qed
  have "held_apart ?now"
    unfolding held_apart_def
  proof (intro allI impI)
    fix j l t assume t: "j < length ?now \<and> l < length ?now \<and> held (wr_phase (?now ! j)) = Some t \<and> held (wr_phase (?now ! l)) = Some t"
    then show "j = l" using apart other [of j] other [of l] True
      by (cases "j = n"; cases "l = n") (auto simp: held_apart_def)
  qed
  moreover have "plans ?now = plans now"
    using list_update_id [of "plans now" n] True by (simp add: plans_def map_update)
  moreover have "writer_ok d0 ws seen d' v \<and> planned ws v" if v: "v \<in> set ?now" for v
  proof -
    obtain j where j: "j < length now" "v = ?now ! j" using v by (auto simp: in_set_conv_nth)
    show ?thesis
    proof (cases "j = n")
      case True
      then show ?thesis using j k(2) w(2) by (simp add: planned_def)
    next
      case False
      then show ?thesis using j other [of j] assms(1) by (simp add: race_ok_def)
    qed
  qed
  ultimately show ?thesis using k(1) assms(1) True a by (simp add: race_ok_def advance_def)
qed (use assms in \<open>simp add: advance_def\<close>)

text \<open>Seeing more modes asks less.\<close>

lemma meant_mono: "meant d0 ws seen w m \<Longrightarrow> (\<And>q. seen q \<subseteq> seen' q) \<Longrightarrow> meant d0 ws seen' w m"
  by (auto simp: meant_def split: Mode.splits)

lemma stage_mono: "stage_ok ok bs x i p \<Longrightarrow> (\<And>m. ok m \<Longrightarrow> ok' m) \<Longrightarrow> stage_ok ok' bs x i p"
  by (cases p) auto

lemma mode_mono: "mode_ok ok p \<Longrightarrow> (\<And>m. ok m \<Longrightarrow> ok' m) \<Longrightarrow> mode_ok ok' p"
  by (cases p) auto

lemma race_mono:
  assumes "race_ok d0 ws seen s" "\<And>q. seen q \<subseteq> seen' q"
  shows "race_ok d0 ws seen' s"
proof -
  have mono: "meant d0 ws seen' w m" if "meant d0 ws seen w m" for w m
    using meant_mono [OF that assms(2)] .
  have "disk_ok d0 ws seen' d" if "disk_ok d0 ws seen d" for d
    using that mono unfolding disk_ok_def by blast
  moreover have "writer_ok d0 ws seen' d w" if w: "writer_ok d0 ws seen d w" for d w
  proof -
    have "mode_ok (meant d0 ws seen' w) (wr_phase w)"
      using w mono by (auto simp: writer_ok_def intro: mode_mono)
    moreover have "stage_ok (meant d0 ws seen' w) bs x i p" if "stage_ok (meant d0 ws seen w) bs x i p" for bs x i p
      using that mono by (rule stage_mono)
    ultimately show ?thesis using w unfolding writer_ok_def by blast
  qed
  ultimately show ?thesis using assms(1) by (auto simp: race_ok_def)
qed

text \<open>What could be seen at a path at the moments of a run.\<close>

definition modes_of_run :: "fs \<Rightarrow> writer list \<Rightarrow> (nat \<times> outcome) list \<Rightarrow> seen_modes" where
  "modes_of_run d0 ws schedule path =
     (\<Union>k \<le> length schedule. kept_modes (fst (run_writers (take k schedule) (d0, ws))) path)"

lemma modes_of_run_last: "kept_modes (fst (run_writers schedule (d0, ws))) q \<subseteq> modes_of_run d0 ws schedule q"
  by (force simp: modes_of_run_def)

lemma modes_of_run_snoc: "modes_of_run d0 ws schedule q \<subseteq> modes_of_run d0 ws (schedule @ [x]) q"
proof -
  have "take k (schedule @ [x]) = take k schedule" if "k \<le> length schedule" for k using that by simp
  then have "y \<in> modes_of_run d0 ws (schedule @ [x]) q" if "y \<in> modes_of_run d0 ws schedule q" for y
    using that unfolding modes_of_run_def by (auto intro!: bexI le_SucI)
  then show ?thesis by blast
qed

text \<open>Writers that have not begun, on a tree whose names lead somewhere, with ordinary destinations.\<close>

definition fair_start :: "fs \<Rightarrow> writer list \<Rightarrow> bool" where
  "fair_start d ws \<longleftrightarrow> rooted d \<and> (\<forall>w \<in> set ws. wr_phase w = Resolving \<and> \<not> staging (wr_dst w))"

lemma fair_start_ok:
  assumes "fair_start d ws"
  shows "race_ok d ws seen (d, ws)"
proof -
  have roots: "i < fs_next d" if "fs_names d n = Some i" for n i using assms that by (simp add: fair_start_def rooted_def)
  have fresh: "wr_phase w = Resolving \<and> \<not> staging (wr_dst w)" if "w \<in> set ws" for w
    using assms that by (simp add: fair_start_def)
  have "disk_ok d ws seen d" using roots by (fastforce simp: disk_ok_def)
  moreover have "held_apart ws" using fresh by (fastforce simp: held_apart_def)
  moreover have "writer_ok d ws seen d w \<and> planned ws w" if "w \<in> set ws" for w
    using that fresh [OF that] by (auto simp: writer_ok_def planned_def plans_def)
  ultimately show ?thesis by (simp add: race_ok_def)
qed

lemma run_ok:
  assumes "fair_start d0 ws"
  shows "race_ok d0 ws (modes_of_run d0 ws schedule) (run_writers schedule (d0, ws))"
proof (induction schedule rule: rev_induct)
  case Nil
  then show ?case using fair_start_ok [OF assms] by (simp add: run_writers_def)
next
  case (snoc x schedule)
  obtain n r where x: "x = (n, r)" by (cases x)
  obtain d now where s: "run_writers schedule (d0, ws) = (d, now)" by fastforce
  have "race_ok d0 ws (modes_of_run d0 ws schedule) (advance n r (d, now))"
  proof (rule advance_ok)
    show "race_ok d0 ws (modes_of_run d0 ws schedule) (d, now)" using snoc.IH s by simp
    show "rooted d0" using assms by (simp add: fair_start_def)
    show "kept_modes d q \<subseteq> modes_of_run d0 ws schedule q" for q using modes_of_run_last [of schedule d0 ws q] s by simp
  qed
  moreover have "run_writers (schedule @ [x]) (d0, ws) = advance n r (d, now)" using s by (simp add: run_writers_def x)
  ultimately show ?case using race_mono [OF _ modes_of_run_snoc] by simp
qed

lemma file_after:
  assumes "fair_start d0 ws" "(d, now) = run_writers schedule (d0, ws)" "\<not> staging path"
  shows "read_file d path = read_file d0 path
    \<or> (\<exists>w \<in> set ws. \<exists>m. wr_dst w = path \<and> meant d0 ws (modes_of_run d0 ws schedule) w m \<and> read_file d path = Some \<lparr>in_bytes = wr_bytes w, in_mode = m\<rparr>)"
proof -
  have r: "rooted d0" using assms(1) by (simp add: fair_start_def)
  have "race_ok d0 ws (modes_of_run d0 ws schedule) (d, now)" unfolding assms(2) by (rule run_ok [OF assms(1)])
  then have disk: "disk_ok d0 ws (modes_of_run d0 ws schedule) d" by (simp add: race_ok_def)
  from disk_path [OF this assms(3)] show ?thesis
  proof
    assume "fs_names d path = fs_names d0 path"
    moreover have "fs_inodes d i = fs_inodes d0 i" if "fs_names d0 path = Some i" for i
      using that r disk by (simp add: rooted_def disk_ok_def)
    ultimately have "read_file d path = read_file d0 path" by (cases "fs_names d0 path") (simp_all add: read_file_def)
    then show ?thesis by blast
  qed (auto simp: read_file_def)
qed

section \<open>Properties\<close>

text \<open>
  C13. However the system calls of any number of writers interleave, fail, write short or stop for
  ever, a destination holds at every moment what it held at the start or the whole payload of one
  writer of it, with the mode that writer was told: exactly the given one, or the permissions that
  the file it was to be like had at some moment of the run, or 0600. When all writers of the path
  are told to keep its mode, it never has permissions but those of the start or 0600.
\<close>

theorem no_file_is_torn:
  assumes "fair_start d0 ws" "(d, now) = run_writers schedule (d0, ws)" "\<not> staging path"
  shows "read_file d path = read_file d0 path
    \<or> (\<exists>w \<in> set ws. wr_dst w = path \<and> (\<exists>i. read_file d path = Some i \<and> in_bytes i = wr_bytes w
         \<and> (case wr_mode w of
              Exactly m \<Rightarrow> in_mode i = m
            | Like p \<Rightarrow> \<exists>k \<le> length schedule. in_mode i \<in> kept_modes (fst (run_writers (take k schedule) (d0, ws))) p)
         \<and> (only_like ws path \<longrightarrow> in_mode i \<in> kept_modes d0 path)))"
  using file_after [OF assms] by (fastforce simp: meant_def modes_of_run_def split: Mode.splits)

text \<open>
  When all writers of a path are told to keep its mode, the path never gets permissions it did
  not have at the start, other than read and write for its owner.
\<close>

theorem like_never_widens:
  assumes "fair_start d0 ws" "(d, now) = run_writers schedule (d0, ws)" "\<not> staging path"
    and "only_like ws path" "read_file d path = Some i"
  shows "in_mode i AND 0x1FF \<in> kept_modes d0 path"
  using file_after [OF assms(1-3)] assms(4,5) kept_modes_mask
  by (auto simp: meant_def) (auto simp: kept_modes_def)

section \<open>Witnesses\<close>

definition old_config :: fs where
  "old_config = \<lparr>fs_names = [''/c'' \<mapsto> 0], fs_inodes = [0 \<mapsto> \<lparr>in_bytes = ''old'', in_mode = 0x1A0\<rparr>],
     fs_next = 1, fs_seq = (\<lambda>_. 0)\<rparr>"

definition two_writers :: "writer list" where
  "two_writers = [replace_by 1 ''/c'' ''one'' (Like ''/c'') 0x12, replace_by 2 ''/c'' ''two'' (Like ''/c'') 0x12]"

text \<open>The first writer dies after a short write; the second goes on to the end.\<close>

definition race :: "(nat \<times> outcome) list" where
  "race = [(0, Works), (0, Works), (1, Works), (0, Works), (1, Works), (0, WritesSome 2), (1, Works), (1, WritesSome 1),
     (1, Works), (1, Works), (1, Works), (1, Works), (1, Works)]"

lemma show_nat_small: "show_nat 0 = ''0''" "show_nat (Suc 0) = ''1''" "show_nat 2 = ''2''"
  by code_simp+

lemmas race_simps = run_writers_def race_def old_config_def two_writers_def advance_def advance_phase_def
  replace_by_def mode_resolve_def read_file_def draw_staging_def stage_name_def dir_name_def base_name_def
  write_some_def set_inode_def STAGING_DRAWS_def show_nat_small Let_def

lemma race_file: "read_file (fst (run_writers race (old_config, two_writers))) ''/c'' = Some \<lparr>in_bytes = ''two'', in_mode = 0x1A0\<rparr>"
  by (simp add: race_simps)

lemma race_fair: "fair_start old_config two_writers" "\<not> staging ''/c''" "only_like two_writers ''/c''"
  by (auto simp: fair_start_def rooted_def old_config_def two_writers_def replace_by_def staging_def ends_with_iff
      only_like_def append_eq_Cons_conv split: if_splits)

lemma race_end: "(fst (run_writers race (old_config, two_writers)), snd (run_writers race (old_config, two_writers)))
    = run_writers race (old_config, two_writers)"
  by simp

theorem no_file_is_torn_witness:
  "read_file (fst (run_writers race (old_config, two_writers))) ''/c'' \<noteq> read_file old_config ''/c''
   \<and> (\<exists>w \<in> set two_writers. wr_dst w = ''/c'' \<and> (\<exists>i. read_file (fst (run_writers race (old_config, two_writers))) ''/c'' = Some i
        \<and> in_bytes i = wr_bytes w))"
proof
  show old: "read_file (fst (run_writers race (old_config, two_writers))) ''/c'' \<noteq> read_file old_config ''/c''"
    unfolding race_file by (simp add: old_config_def read_file_def)
  from no_file_is_torn [OF race_fair(1) race_end race_fair(2)] old
  show "\<exists>w \<in> set two_writers. wr_dst w = ''/c'' \<and> (\<exists>i. read_file (fst (run_writers race (old_config, two_writers))) ''/c'' = Some i
        \<and> in_bytes i = wr_bytes w)" by blast
qed

theorem like_never_widens_witness: "(0x1A0 :: 32 word) AND 0x1FF \<in> kept_modes old_config ''/c''"
  using like_never_widens [OF race_fair(1) race_end race_fair(2,3) race_file] by simp

end
