(* ===== verification/Ssh_Proto.thy ===== *)
theory Ssh_Proto
  imports Secret_Cache "HOL-Library.Word"
begin

text \<open>
  The SSH agent protocol: \<open>src/packages/secreq/src/daemon/ssh_proto.rs\<close> and the frame reader of
  \<open>daemon/ssh_agent.rs\<close>. Bytes are characters, as in the rest of the development. The encodings
  of the crate \<open>ssh-encoding\<close> are a parameter; \<open>codec_ok\<close> states what it documents of them.
\<close>

section \<open>The crate's encodings\<close>

text \<open>An encoder that yields \<open>None\<close> is an error, on which the source panics.\<close>

record ssh_codec =
  sc_u32 :: "32 word \<Rightarrow> string"
  sc_get_u32 :: "string \<Rightarrow> (32 word \<times> string) option"
  sc_bytes :: "string \<Rightarrow> string option"
  sc_get_bytes :: "string \<Rightarrow> (string \<times> string) option"
  sc_text :: "string \<Rightarrow> string option"
  sc_get_text :: "string \<Rightarrow> (string \<times> string) option"

definition codec_ok :: "ssh_codec \<Rightarrow> bool" where
  "codec_ok K \<longleftrightarrow> (\<forall>n r. sc_get_u32 K (sc_u32 K n @ r) = Some (n, r))
     \<and> (\<forall>b e r. sc_bytes K b = Some e \<longrightarrow> sc_get_bytes K (e @ r) = Some (b, r))
     \<and> (\<forall>t e r. sc_text K t = Some e \<longrightarrow> sc_get_text K (e @ r) = Some (t, r))"

section \<open>Frames\<close>

definition SSH_AGENTC_REQUEST_IDENTITIES :: char where "SSH_AGENTC_REQUEST_IDENTITIES = CHR 0x0B"
definition SSH_AGENT_IDENTITIES_ANSWER :: char where "SSH_AGENT_IDENTITIES_ANSWER = CHR 0x0C"
definition SSH_AGENTC_SIGN_REQUEST :: char where "SSH_AGENTC_SIGN_REQUEST = CHR 0x0D"
definition SSH_AGENT_SIGN_RESPONSE :: char where "SSH_AGENT_SIGN_RESPONSE = CHR 0x0E"
definition SSH_AGENT_FAILURE :: char where "SSH_AGENT_FAILURE = CHR 0x05"
definition SSH_AGENT_SUCCESS :: char where "SSH_AGENT_SUCCESS = CHR 0x06"

lemmas ssh_types = SSH_AGENTC_REQUEST_IDENTITIES_def SSH_AGENT_IDENTITIES_ANSWER_def SSH_AGENTC_SIGN_REQUEST_def
  SSH_AGENT_SIGN_RESPONSE_def SSH_AGENT_FAILURE_def SSH_AGENT_SUCCESS_def

datatype ssh_error =
    FrameTooShort nat | LengthMismatch nat nat | EmptyPayload | BadField string | TrailingBytes nat

definition from_be :: "string \<Rightarrow> nat" where
  "from_be bs = foldl (\<lambda>n c. n * 256 + of_char c) 0 bs"

definition split_frame :: "string \<Rightarrow> ssh_error + char \<times> string" where
  "split_frame f =
     (if length f < 4 then Inl (FrameTooShort (length f))
      else (let declared = from_be (take 4 f); payload = drop 4 f in
        if length payload \<noteq> declared then Inl (LengthMismatch declared (length payload))
        else (case payload of [] \<Rightarrow> Inl EmptyPayload | t # body \<Rightarrow> Inr (t, body))))"

text \<open>\<open>u32_be\<close> keeps the low 32 bits, as the cast of the source does.\<close>

definition frame :: "string \<Rightarrow> string" where
  "frame payload = u32_be (length payload) @ payload"

section \<open>Requests\<close>

datatype AgentRequest = RequestIdentities | SignRequest string string "32 word" | UnsupportedRequest char

definition field :: "string \<Rightarrow> 'a option \<Rightarrow> ssh_error + 'a" where
  "field name r = (case r of None \<Rightarrow> Inl (BadField name) | Some x \<Rightarrow> Inr x)"

definition parse_sign_request :: "ssh_codec \<Rightarrow> string \<Rightarrow> ssh_error + AgentRequest" where
  "parse_sign_request K body = (case field ''key_blob'' (sc_get_bytes K body) of
      Inl e \<Rightarrow> Inl e
    | Inr (key_blob, r) \<Rightarrow> (case field ''data'' (sc_get_bytes K r) of
        Inl e \<Rightarrow> Inl e
      | Inr (data, r) \<Rightarrow> (case field ''flags'' (sc_get_u32 K r) of
          Inl e \<Rightarrow> Inl e
        | Inr (flags, r) \<Rightarrow> if r \<noteq> [] then Inl (TrailingBytes (length r)) else Inr (SignRequest key_blob data flags))))"

definition parse_request :: "ssh_codec \<Rightarrow> string \<Rightarrow> ssh_error + AgentRequest" where
  "parse_request K f = (case split_frame f of
      Inl e \<Rightarrow> Inl e
    | Inr (t, body) \<Rightarrow>
        if t = SSH_AGENTC_REQUEST_IDENTITIES then Inr RequestIdentities
        else if t = SSH_AGENTC_SIGN_REQUEST then parse_sign_request K body
        else Inr (UnsupportedRequest t))"

definition encode_request_identities :: string where
  "encode_request_identities = frame [SSH_AGENTC_REQUEST_IDENTITIES]"

definition encode_sign_request :: "ssh_codec \<Rightarrow> string \<Rightarrow> string \<Rightarrow> 32 word \<Rightarrow> string option" where
  "encode_sign_request K key_blob data flags = (case (sc_bytes K key_blob, sc_bytes K data) of
      (Some b, Some d) \<Rightarrow> Some (frame (SSH_AGENTC_SIGN_REQUEST # b @ d @ sc_u32 K flags))
    | _ \<Rightarrow> None)"

section \<open>Replies\<close>

datatype AgentResponse =
    Identities "(string \<times> string) list" | SignResponse string | FailureResponse | SuccessResponse | UnsupportedResponse char

fun encode_keys :: "ssh_codec \<Rightarrow> (string \<times> string) list \<Rightarrow> string option" where
  "encode_keys K [] = Some []"
| "encode_keys K ((blob, comment) # ks) = (case (sc_bytes K blob, sc_text K comment, encode_keys K ks) of
      (Some b, Some c, Some r) \<Rightarrow> Some (b @ c @ r)
    | _ \<Rightarrow> None)"

definition encode_identities_answer :: "ssh_codec \<Rightarrow> (string \<times> string) list \<Rightarrow> string option" where
  "encode_identities_answer K keys =
     map_option (\<lambda>e. frame (SSH_AGENT_IDENTITIES_ANSWER # sc_u32 K (of_nat (length keys)) @ e)) (encode_keys K keys)"

definition encode_sign_response :: "ssh_codec \<Rightarrow> string \<Rightarrow> string option" where
  "encode_sign_response K sig = map_option (\<lambda>e. frame (SSH_AGENT_SIGN_RESPONSE # e)) (sc_bytes K sig)"

definition encode_failure :: string where
  "encode_failure = frame [SSH_AGENT_FAILURE]"

definition encode_success :: string where
  "encode_success = frame [SSH_AGENT_SUCCESS]"

fun parse_keys :: "ssh_codec \<Rightarrow> nat \<Rightarrow> string \<Rightarrow> ssh_error + (string \<times> string) list \<times> string" where
  "parse_keys K 0 r = Inr ([], r)"
| "parse_keys K (Suc n) r = (case field ''key blob'' (sc_get_bytes K r) of
      Inl e \<Rightarrow> Inl e
    | Inr (blob, r) \<Rightarrow> (case field ''comment'' (sc_get_text K r) of
        Inl e \<Rightarrow> Inl e
      | Inr (comment, r) \<Rightarrow> (case parse_keys K n r of
          Inl e \<Rightarrow> Inl e
        | Inr (ks, r) \<Rightarrow> Inr ((blob, comment) # ks, r))))"

definition parse_identities_answer :: "ssh_codec \<Rightarrow> string \<Rightarrow> ssh_error + AgentResponse" where
  "parse_identities_answer K body = (case field ''nkeys'' (sc_get_u32 K body) of
      Inl e \<Rightarrow> Inl e
    | Inr (nkeys, r) \<Rightarrow> (case parse_keys K (unat nkeys) r of
        Inl e \<Rightarrow> Inl e
      | Inr (ks, r) \<Rightarrow> if r \<noteq> [] then Inl (TrailingBytes (length r)) else Inr (Identities ks)))"

definition parse_sign_response :: "ssh_codec \<Rightarrow> string \<Rightarrow> ssh_error + AgentResponse" where
  "parse_sign_response K body = (case field ''signature'' (sc_get_bytes K body) of
      Inl e \<Rightarrow> Inl e
    | Inr (sig, r) \<Rightarrow> if r \<noteq> [] then Inl (TrailingBytes (length r)) else Inr (SignResponse sig))"

definition parse_response :: "ssh_codec \<Rightarrow> string \<Rightarrow> ssh_error + AgentResponse" where
  "parse_response K f = (case split_frame f of
      Inl e \<Rightarrow> Inl e
    | Inr (t, body) \<Rightarrow>
        if t = SSH_AGENT_IDENTITIES_ANSWER then parse_identities_answer K body
        else if t = SSH_AGENT_SIGN_RESPONSE then parse_sign_response K body
        else if t = SSH_AGENT_FAILURE then Inr FailureResponse
        else if t = SSH_AGENT_SUCCESS then Inr SuccessResponse
        else Inr (UnsupportedResponse t))"

section \<open>Reading frames off a socket\<close>

definition MAX_AGENT_MSG_LEN :: nat where
  "MAX_AGENT_MSG_LEN = 256 * 1024"

text \<open>What the socket yields, read by read; a list that runs out is a closed peer. An arrival
  larger than the buffer is read in pieces; one of no bytes is none.\<close>

datatype sock_event = Arrived string | Interrupted | TimedOut | ReadFailed

datatype ReadOutcome = Filled string | EofBefore | Idle | ReadBroken

fun read_exact_or_eof :: "nat \<Rightarrow> string \<Rightarrow> sock_event list \<Rightarrow> ReadOutcome \<times> sock_event list" where
  "read_exact_or_eof n got [] =
     (if n \<le> length got then Filled got else if got = [] then EofBefore else ReadBroken, [])"
| "read_exact_or_eof n got (ev # evs) =
     (if n \<le> length got then (Filled got, ev # evs)
      else (case ev of
          Arrived bs \<Rightarrow> if length bs \<le> n - length got then read_exact_or_eof n (got @ bs) evs
            else (Filled (got @ take (n - length got) bs), Arrived (drop (n - length got) bs) # evs)
        | Interrupted \<Rightarrow> read_exact_or_eof n got evs
        | TimedOut \<Rightarrow> (if got = [] then Idle else ReadBroken, evs)
        | ReadFailed \<Rightarrow> (ReadBroken, evs)))"

text \<open>\<open>Read::read_exact\<close>, for which an end or a time-out is an error wherever it comes.\<close>

definition read_exact :: "nat \<Rightarrow> sock_event list \<Rightarrow> string option \<times> sock_event list" where
  "read_exact n evs = (case read_exact_or_eof n [] evs of
      (Filled bs, evs) \<Rightarrow> (Some bs, evs)
    | (EofBefore, evs) \<Rightarrow> (None, evs) | (Idle, evs) \<Rightarrow> (None, evs) | (ReadBroken, evs) \<Rightarrow> (None, evs))"

datatype frame_read = FrameRead string | HungUp | FrameBroken

definition read_frame :: "sock_event list \<Rightarrow> frame_read \<times> sock_event list" where
  "read_frame evs = (case read_exact_or_eof 4 [] evs of
      (EofBefore, evs) \<Rightarrow> (HungUp, evs)
    | (Idle, evs) \<Rightarrow> (HungUp, evs)
    | (ReadBroken, evs) \<Rightarrow> (FrameBroken, evs)
    | (Filled len_buf, evs) \<Rightarrow>
        (if from_be len_buf > MAX_AGENT_MSG_LEN then (FrameBroken, evs)
         else (case read_exact (from_be len_buf) evs of
             (None, evs) \<Rightarrow> (FrameBroken, evs)
           | (Some payload, evs) \<Rightarrow> (FrameRead (len_buf @ payload), evs))))"

fun arrived :: "sock_event \<Rightarrow> string" where
  "arrived (Arrived bs) = bs"
| "arrived _ = []"

definition stream :: "sock_event list \<Rightarrow> string" where
  "stream evs = concat (map arrived evs)"

lemma stream_simps [simp]: "stream [] = []" "stream (ev # evs) = arrived ev @ stream evs"
  by (simp_all add: stream_def)

lemma read_stream:
  "read_exact_or_eof n got evs = (Filled bs, evs') \<Longrightarrow> bs @ stream evs' = got @ stream evs \<and> (length got \<le> n \<longrightarrow> length bs = n)"
  by (induction n got evs rule: read_exact_or_eof.induct) (auto split: if_splits sock_event.splits)

lemma read_frame_stream:
  assumes "read_frame evs = (FrameRead f, evs')"
  shows "stream evs = f @ stream evs'" "4 \<le> length f" "length f \<le> 4 + MAX_AGENT_MSG_LEN" "from_be (take 4 f) = length (drop 4 f)"
proof -
  obtain len_buf evs1 payload where a: "read_exact_or_eof 4 [] evs = (Filled len_buf, evs1)"
    "from_be len_buf \<le> MAX_AGENT_MSG_LEN" "read_exact_or_eof (from_be len_buf) [] evs1 = (Filled payload, evs')" "f = len_buf @ payload"
    using assms by (auto simp: read_frame_def read_exact_def split: prod.splits ReadOutcome.splits if_splits option.splits)
  from read_stream [OF a(1)] read_stream [OF a(3)] have "len_buf @ stream evs1 = stream evs" "length len_buf = 4"
    "payload @ stream evs' = stream evs1" "length payload = from_be len_buf" by simp_all
  then show "stream evs = f @ stream evs'" "4 \<le> length f" "length f \<le> 4 + MAX_AGENT_MSG_LEN" "from_be (take 4 f) = length (drop 4 f)"
    using a(2,4) by auto
qed

text \<open>A peer that neither pauses nor breaks off: only its bytes matter, not how they arrive.\<close>

definition steady :: "sock_event list \<Rightarrow> bool" where
  "steady evs \<longleftrightarrow> set evs \<subseteq> range Arrived \<union> {Interrupted}"

lemma steady_read:
  "steady evs \<Longrightarrow> length got \<le> n \<Longrightarrow> n \<le> length got + length (stream evs) \<Longrightarrow>
   \<exists>evs'. read_exact_or_eof n got evs = (Filled (take n (got @ stream evs)), evs') \<and> steady evs'
     \<and> stream evs' = drop n (got @ stream evs)"
proof (induction n got evs rule: read_exact_or_eof.induct)
  case (2 n got ev evs)
  have s: "steady evs" "\<exists>bs. ev = Arrived bs \<or> ev = Interrupted" using 2(3) by (auto simp: steady_def)
  then show ?case
  proof (cases "n \<le> length got")
    case True
    then show ?thesis using 2(3,4) by simp
  next
    case False
    from s(2) consider (more) bs where "ev = Arrived bs" "length bs \<le> n - length got" | (full) bs where "ev = Arrived bs" "length bs > n - length got"
      | (retry) "ev = Interrupted" by (metis not_le)
    then show ?thesis
    proof cases
      case more
      then show ?thesis using 2(1) [OF False more s(1)] 2(4,5) False by simp
    next
      case full
      then show ?thesis using s(1) False by (auto simp: steady_def)
    next
      case retry
      then show ?thesis using 2(2) [OF False retry s(1)] 2(4,5) False by simp
    qed
  qed
qed simp

lemma steady_end: "steady evs \<Longrightarrow> stream evs = [] \<Longrightarrow> read_frame evs = (HungUp, [])"
proof -
  have "read_exact_or_eof 4 [] evs = (EofBefore, [])" if "steady evs" "stream evs = []"
    using that by (induction evs) (auto simp: steady_def)
  then show "steady evs \<Longrightarrow> stream evs = [] \<Longrightarrow> read_frame evs = (HungUp, [])" by (simp add: read_frame_def)
qed

section \<open>The framing and the codec\<close>

lemma from_be_u32 [simp]: "n < 2 ^ 32 \<Longrightarrow> from_be (u32_be n) = n"
proof -
  assume n: "n < 2 ^ 32"
  have "n div 2 ^ 24 < 256" using n by (simp add: less_mult_imp_div_less)
  then have "n div 2 ^ 24 mod 256 = n div 2 ^ 24" by simp
  moreover have "n div 2 ^ 16 = n div 2 ^ 24 * 256 + n div 2 ^ 16 mod 256" "n div 2 ^ 8 = n div 2 ^ 16 * 256 + n div 2 ^ 8 mod 256"
    "n = n div 2 ^ 8 * 256 + n mod 256"
    using div_mult_mod_eq [of "n div 2 ^ 16" 256] div_mult_mod_eq [of "n div 2 ^ 8" 256] div_mult_mod_eq [of n 256]
      div_mult2_eq [of n "2 ^ 16" 256] div_mult2_eq [of n "2 ^ 8" 256] by simp_all
  ultimately show ?thesis by (simp add: from_be_def u32_be_def)
qed

lemma split_frame_frame [simp]: "Suc (length body) < 2 ^ 32 \<Longrightarrow> split_frame (frame (t # body)) = Inr (t, body)"
  by (simp add: split_frame_def frame_def)

lemma steady_frame:
  assumes "steady evs" "stream evs = frame p @ rest" "length p \<le> MAX_AGENT_MSG_LEN"
  obtains evs' where "read_frame evs = (FrameRead (frame p), evs')" "steady evs'" "stream evs' = rest"
proof -
  have small: "length p < 2 ^ 32" using assms(3) by (simp add: MAX_AGENT_MSG_LEN_def)
  obtain evs1 where a: "read_exact_or_eof 4 [] evs = (Filled (u32_be (length p)), evs1)" "steady evs1" "stream evs1 = p @ rest"
    using steady_read [OF assms(1), of "[]" 4] assms(2) by (auto simp: frame_def)
  obtain evs2 where b: "read_exact_or_eof (length p) [] evs1 = (Filled p, evs2)" "steady evs2" "stream evs2 = rest"
    using steady_read [OF a(2), of "[]" "length p"] a(3) by auto
  have "read_frame evs = (FrameRead (frame p), evs2)"
    using a b small assms(3) by (simp add: read_frame_def read_exact_def frame_def)
  then show thesis using that b by blast
qed

lemma frame_length [simp]: "length (frame p) = 4 + length p"
  by (simp add: frame_def)

lemma request_identities_back [simp]: "parse_request K encode_request_identities = Inr RequestIdentities"
  by (simp add: parse_request_def encode_request_identities_def)

lemma sign_request_back:
  assumes "codec_ok K" "encode_sign_request K key_blob data flags = Some f" "length f < 2 ^ 32"
  shows "parse_request K f = Inr (SignRequest key_blob data flags)"
proof -
  obtain b d where e: "sc_bytes K key_blob = Some b" "sc_bytes K data = Some d" "f = frame (SSH_AGENTC_SIGN_REQUEST # b @ d @ sc_u32 K flags)"
    using assms(2) by (auto simp: encode_sign_request_def split: option.splits)
  have g: "sc_get_bytes K (b @ d @ sc_u32 K flags) = Some (key_blob, d @ sc_u32 K flags)"
    "sc_get_bytes K (d @ sc_u32 K flags) = Some (data, sc_u32 K flags)" "sc_get_u32 K (sc_u32 K flags) = Some (flags, [])"
    using assms(1) e(1,2) by (simp_all add: codec_ok_def) (metis append.right_neutral)
  show ?thesis using assms(3) by (simp add: e(3) parse_request_def parse_sign_request_def g field_def) (simp add: ssh_types)
qed

lemma keys_back:
  assumes "codec_ok K"
  shows "encode_keys K ks = Some e \<Longrightarrow> parse_keys K (length ks) (e @ r) = Inr (ks, r)"
proof (induction ks arbitrary: e)
  case (Cons k ks)
  obtain blob comment where k: "k = (blob, comment)" by (cases k)
  obtain b c e' where x: "sc_bytes K blob = Some b" "sc_text K comment = Some c" "encode_keys K ks = Some e'" "e = b @ c @ e'"
    using Cons.prems by (auto simp: k split: option.splits)
  have "sc_get_bytes K (b @ c @ e' @ r) = Some (blob, c @ e' @ r)" "sc_get_text K (c @ e' @ r) = Some (comment, e' @ r)"
    using assms x(1,2) by (simp_all add: codec_ok_def)
  then show ?case using Cons.IH [OF x(3)] by (simp add: k x(4) field_def)
qed simp

lemma identities_back:
  assumes "codec_ok K" "encode_identities_answer K ks = Some f" "length f < 2 ^ 32" "length ks < 2 ^ 32"
  shows "parse_response K f = Inr (Identities ks)"
proof -
  obtain e where e: "encode_keys K ks = Some e" "f = frame (SSH_AGENT_IDENTITIES_ANSWER # sc_u32 K (of_nat (length ks)) @ e)"
    using assms(2) by (auto simp: encode_identities_answer_def)
  have "sc_get_u32 K (sc_u32 K (of_nat (length ks)) @ e) = Some (of_nat (length ks), e)"
    using assms(1) by (simp add: codec_ok_def)
  moreover have "unat (of_nat (length ks) :: 32 word) = length ks" using assms(4) by (simp add: unat_of_nat)
  ultimately show ?thesis using assms(3) keys_back [OF assms(1) e(1), of "[]"]
    by (simp add: e(2) parse_response_def parse_identities_answer_def field_def)
qed

lemma sign_response_back:
  assumes "codec_ok K" "encode_sign_response K sig = Some f" "length f < 2 ^ 32"
  shows "parse_response K f = Inr (SignResponse sig)"
proof -
  obtain e where e: "sc_bytes K sig = Some e" "f = frame (SSH_AGENT_SIGN_RESPONSE # e)"
    using assms(2) by (auto simp: encode_sign_response_def)
  then have "sc_get_bytes K e = Some (sig, [])" using assms(1) by (simp add: codec_ok_def) (metis append.right_neutral)
  then show ?thesis using assms(3) by (simp add: e(2) parse_response_def parse_sign_response_def field_def) (simp add: ssh_types)
qed

lemma status_back [simp]: "parse_response K encode_failure = Inr FailureResponse" "parse_response K encode_success = Inr SuccessResponse"
  by (simp_all add: parse_response_def encode_failure_def encode_success_def) (simp_all add: ssh_types)

text \<open>A byte string is a frame of a message exactly when it is what \<open>frame\<close> makes of it.\<close>

lemma split_frame_iff:
  "length f < 4 + 2 ^ 32 \<Longrightarrow> split_frame f = Inr (t, body) \<longleftrightarrow> f = frame (t # body)"
proof -
  assume small: "length f < 4 + 2 ^ 32"
  have bs_back: "u32_be (from_be bs) = bs" if bs: "length bs = 4" for bs
  proof -
    obtain a b c d where abcd: "bs = [a, b, c, d]" using bs by (auto simp: numeral_eq_Suc length_Suc_conv)
    define w x y z where n: "w = (of_char a :: nat)" "x = (of_char b :: nat)" "y = (of_char c :: nat)" "z = (of_char d :: nat)"
    have small: "x < 256" "y < 256" "z < 256" "w < 256" by (simp_all add: n)
    let ?n = "((w * 256 + x) * 256 + y) * 256 + z"
    have d: "?n div 256 = (w * 256 + x) * 256 + y" "((w * 256 + x) * 256 + y) div 256 = w * 256 + x" "(w * 256 + x) div 256 = w"
      using small by simp_all
    have shifts: "?n div 65536 = w * 256 + x" "?n div 16777216 = w"
      using div_mult2_eq [of ?n 256 256] div_mult2_eq [of ?n 256 65536] div_mult2_eq [of "(w * 256 + x) * 256 + y" 256 256] d by simp_all
    have last: "(q * 256 + r) mod 256 = r" if "r < 256" for q r :: nat using that by simp
    note lasts = last [OF small(3), of "(w * 256 + x) * 256 + y"] last [OF small(2), of "w * 256 + x"] last [OF small(1), of w]
    have "u32_be ?n = map char_of [w, x, y, z]"
      using d(1) shifts lasts small(4) unfolding u32_be_def by (simp only: list.map power2_eq_square) simp
    moreover have "from_be bs = ?n" by (simp add: abcd from_be_def n)
    ultimately show ?thesis by (simp add: abcd n)
  qed
  show ?thesis
  proof
    assume s: "split_frame f = Inr (t, body)"
    then have f: "4 \<le> length f" "from_be (take 4 f) = length (drop 4 f)" "drop 4 f = t # body"
      by (auto simp: split_frame_def Let_def split: if_splits list.splits)
    have "f = take 4 f @ drop 4 f" by simp
    also have "take 4 f = u32_be (length (t # body))" using bs_back [of "take 4 f"] f by simp
    finally show "f = frame (t # body)" using f(3) by (simp add: frame_def)
  next
    assume "f = frame (t # body)"
    then show "split_frame f = Inr (t, body)" using small by simp
  qed
qed

end
