(* ===== verification/Ssh_Agent.thy ===== *)
theory Ssh_Agent
  imports Server Ssh_Proto
begin

text \<open>
  The SSH agent (\<open>src/packages/secreq/src/daemon/ssh_agent.rs\<close>): its listing, the gated signing
  flow from the peer's process to the signature, and the connection that reads requests off the
  socket. As in the theory \<open>Server\<close>, a world says what the other threads do wherever this one
  takes the state's mutex. The crates that parse keys and sign are parameters; sockets and the
  log are left out. A result of \<open>None\<close> is a thread that never answers: its provider never
  returns, or an encoder panics.
\<close>

section \<open>Identities\<close>

text \<open>\<open>sx_public_key\<close> parses an OpenSSH line: its wire blob (\<open>None\<close> when it does not serialise),
  its comment and its fingerprint. \<open>sx_sign\<close> is \<open>ssh_sign::sign\<close>.\<close>

record ssh_crates =
  sx_codec :: ssh_codec
  sx_public_key :: "string \<Rightarrow> (string option \<times> string \<times> string) option"
  sx_sign :: "string \<Rightarrow> string \<Rightarrow> 32 word \<Rightarrow> string option"
  sx_sha256_hex :: "string \<Rightarrow> string"

record PreparedIdentity =
  ky_blob :: string
  ky_comment :: string
  ky_fingerprint :: string
  ky_key_id :: string
  ky_reference :: reference
  ky_reason :: "string option"
  ky_ttl :: CacheTtl

definition prepare_identity :: "ssh_crates \<Rightarrow> WrapsConfig \<Rightarrow> string \<times> SshIdentity \<Rightarrow> PreparedIdentity option" where
  "prepare_identity X cfg = (\<lambda>(name, i). case sx_public_key X (id_public_key i) of
      Some (Some blob, comment, fingerprint) \<Rightarrow> Some \<lparr>ky_blob = blob, ky_comment = comment,
        ky_fingerprint = fingerprint, ky_key_id = name, ky_reference = id_private_key i,
        ky_reason = id_reason i, ky_ttl = ttl_for cfg (id_private_key i)\<rparr>
    | Some (None, _, _) \<Rightarrow> None
    | None \<Rightarrow> None)"

definition prepare_identities :: "ssh_crates \<Rightarrow> WrapsConfig \<Rightarrow> PreparedIdentity list" where
  "prepare_identities X cfg = List.map_filter (prepare_identity X cfg) (cfg_ssh cfg)"

text \<open>\<open>cx_wired\<close> is whether the daemon's state is there, as it is in a daemon.\<close>

record SignContext =
  cx_identities :: "PreparedIdentity list"
  cx_providers :: "(string, Provider) btmap"
  cx_wired :: bool

text \<open>What \<open>start\<close> serves once its socket is bound; no socket is made without identities.\<close>

definition start_agent :: "ssh_crates \<Rightarrow> WrapsConfig \<Rightarrow> SignContext option" where
  "start_agent X cfg = (if cfg_ssh cfg = [] then None
     else Some \<lparr>cx_identities = prepare_identities X cfg, cx_providers = cfg_providers cfg, cx_wired = True\<rparr>)"

section \<open>The accept loop\<close>

definition MAX_CONCURRENT_CONNECTIONS :: nat where
  "MAX_CONCURRENT_CONNECTIONS = 16"

text \<open>The number of handlers alive: an accepted connection waits until the count of the permit,
  which the loop holds once itself, is at most the cap.\<close>

inductive serve_step :: "nat \<Rightarrow> nat \<Rightarrow> bool" where
  Spawned: "\<not> live + 1 > MAX_CONCURRENT_CONNECTIONS \<Longrightarrow> serve_step live (live + 1)"
| NotSpawned: "\<not> live + 1 > MAX_CONCURRENT_CONNECTIONS \<Longrightarrow> serve_step live live"
| HandlerDone: "serve_step (live + 1) live"

inductive_cases serve_step_cases: "serve_step live live'"

lemma serve_bounded: "serve_step\<^sup>*\<^sup>* 0 live \<Longrightarrow> live \<le> MAX_CONCURRENT_CONNECTIONS"
  by (induction rule: rtranclp_induct) (auto elim: serve_step_cases)

section \<open>The decision\<close>

definition SSH_SESSION_GRANT_TTL_SECS :: nat where
  "SSH_SESSION_GRANT_TTL_SECS = 1800"

record SignDecision =
  sn_decision :: Decision
  sn_reason :: "string option"
  sn_rule_id :: "string option"

definition manual :: "Decision \<Rightarrow> string option \<Rightarrow> SignDecision" where
  "manual d reason = \<lparr>sn_decision = d, sn_reason = reason, sn_rule_id = None\<rparr>"

definition grant_scope_for :: "Decision \<Rightarrow> string \<Rightarrow> SshGrantScope option" where
  "grant_scope_for d key_id = (case d of
      ApproveSshSession \<Rightarrow> Some (OneKey key_id)
    | ApproveRemember \<Rightarrow> Some (OneKey key_id)
    | ApproveSshSessionAll \<Rightarrow> Some AllKeys
    | _ \<Rightarrow> None)"

definition sign_ask :: "ssh_crates \<Rightarrow> PreparedIdentity \<Rightarrow> SignAnchor \<Rightarrow> CallerChain \<Rightarrow> string \<Rightarrow> string \<Rightarrow> Ask" where
  "sign_ask X key anchor chain dir data = \<lparr>
     ask_command = [''ssh-sign '' @ ky_key_id key],
     ask_dedupe_key = \<lparr>dk_wrap = ''ssh:'' @ ky_key_id key, dk_anchor = ProcessAnchor (sa_identity anchor),
       dk_subject_digest = Some (sx_sha256_hex X data)\<rparr>,
     ask_subject = SshSign \<lparr>ss_cwd = dir, ss_callers = map wire_caller (cc_frames chain),
       ss_callers_truncated = cc_truncated chain,
       ss_info = \<lparr>sh_key_id = ky_key_id key, sh_fingerprint = ky_fingerprint key, sh_reason = ky_reason key,
         sh_anchor = Some \<lparr>si_name = utf8 (sa_name anchor), si_pid = pi_pid (sa_identity anchor),
           si_kind = sa_kind anchor,
           si_command = (case sa_kind anchor of ForwardedSsh \<Rightarrow> Some (utf8 (sa_command anchor)) | Session \<Rightarrow> None)\<rparr>\<rparr>\<rparr>\<rparr>"

text \<open>The channel of a waiter: the reply sent on it, and whether its sender is still held.\<close>

fun first_reply :: "nat \<Rightarrow> effect list \<Rightarrow> WaiterReply option" where
  "first_reply i [] = None"
| "first_reply i (e # es) = (case e of
      ToWaiter j r \<Rightarrow> if j = i then Some r else first_reply i es
    | _ \<Rightarrow> first_reply i es)"

definition reply_to :: "nat \<Rightarrow> 'm State \<Rightarrow> WaiterReply option" where
  "reply_to i st = first_reply i (st_out st)"

definition sender_held :: "nat \<Rightarrow> 'm State \<Rightarrow> bool" where
  "sender_held i st \<longleftrightarrow> list_ex (\<lambda>(_, e). list_ex (\<lambda>w. wt_id w = i) (qe_waiters e)) (st_queue st)
     \<or> list_ex (\<lambda>j. list_ex (\<lambda>w. wt_id w = i) (qe_waiters (jb_entry j))) (st_jobs st)"

text \<open>\<open>AtWait\<close> is the moment the wait for the user ends: at a reply, at the loss of the sender, or
  when its time is over.\<close>

definition decide_sign_on_miss ::
  "ssh_crates \<Rightarrow> 'm world \<Rightarrow> bool \<Rightarrow> nat \<Rightarrow> PreparedIdentity \<Rightarrow> SignAnchor \<Rightarrow> CallerChain \<Rightarrow> string \<Rightarrow> string
     \<Rightarrow> 'm machine \<Rightarrow> SignDecision option \<times> 'm machine" where
  "decide_sign_on_miss X W gui_available tx key anchor chain dir data m =
     (if \<not> gui_available then (None, m)
      else (let ask = sign_ask X key anchor chain dir data;
                m = arrive W AtSubmit m;
                ((_, waiter_id), st) = submit_ask (wd_host W AtSubmit) ask tx (mc_state m);
                m = ensure_consent_window W (m\<lparr>mc_state := st\<rparr>);
                m = arrive W AtWait m
            in case reply_to waiter_id (mc_state m) of
                 Some (Decided d _ _ reason) \<Rightarrow> (Some (manual d reason), m)
               | Some (ReplyErr _ _) \<Rightarrow> (None, m)
               | None \<Rightarrow>
                   if \<not> sender_held waiter_id (mc_state m) then (None, m)
                   else (None, locked W AtWithdraw (\<lambda>H. withdraw_waiter H (ask_dedupe_key ask) waiter_id) m)))"

definition decide_sign ::
  "ssh_crates \<Rightarrow> 'm world \<Rightarrow> bool \<Rightarrow> nat \<Rightarrow> PreparedIdentity \<Rightarrow> SignAnchor \<Rightarrow> CallerChain \<Rightarrow> string \<Rightarrow> string
     \<Rightarrow> 'm machine \<Rightarrow> SignDecision option \<times> 'm machine" where
  "decide_sign X W gui_available tx key anchor chain dir data m =
     (let m = arrive W AtApproval m;
          (granted, st) = has_ssh_grant_at (ky_key_id key) (sa_identity anchor) (ho_unix_secs (wd_host W AtApproval)) (mc_state m);
          m = m\<lparr>mc_state := st\<rparr>
      in if granted then (Some (manual ApproveCached None), m)
         else (let m = arrive W AtRules m;
                   m = m\<lparr>mc_state := reload_rules_if_changed (wd_host W AtRules) (mc_files m) (mc_state m)\<rparr>
           in case evaluate_rules_for_ask (mc_files m) (sign_ask X key anchor chain dir data) (mc_state m) of
                Some hit \<Rightarrow> (case rh_decide hit of
                    ApproveRule \<Rightarrow> (Some \<lparr>sn_decision = ApproveAuto, sn_reason = None, sn_rule_id = Some (rh_rule_id hit)\<rparr>, m)
                  | DenyRule \<Rightarrow> (Some \<lparr>sn_decision = DenyAuto, sn_reason = rh_deny_message hit, sn_rule_id = Some (rh_rule_id hit)\<rparr>,
                      on_state (broadcast_auto_deny_toast (wd_host W AtRules) (rh_rule_name hit) (rh_deny_message hit)) m))
              | None \<Rightarrow> decide_sign_on_miss X W gui_available tx key anchor chain dir data m))"

section \<open>Signing\<close>

text \<open>The key is resolved through the shared cache, no mutex held: \<open>None\<close> when that never ends.\<close>

definition resolve_and_sign ::
  "ssh_crates \<Rightarrow> outside \<Rightarrow> (string, Provider) btmap \<Rightarrow> PreparedIdentity \<Rightarrow> string \<Rightarrow> 32 word \<Rightarrow> memory
     \<Rightarrow> (string option \<times> memory) option" where
  "resolve_and_sign X E provs key data flags M =
     (case resolve_single_cached E \<lparr>ck_provider = ref_provider (ky_reference key), ck_locator = ref_locator (ky_reference key)\<rparr>
         (ky_ttl key) (ky_key_id key) (ky_reason key) provs M of
        None \<Rightarrow> None
      | Some (Inl _, M) \<Rightarrow> Some (None, M)
      | Some (Inr pem, M) \<Rightarrow> Some (sx_sign X pem data flags, M))"

definition audit_sign ::
  "nat \<Rightarrow> PreparedIdentity \<Rightarrow> CallerChain \<Rightarrow> SignAnchor \<Rightarrow> string \<Rightarrow> SignDecision \<Rightarrow> AuditEntry" where
  "audit_sign now key chain anchor dir outcome =
     with_rule_id (sn_rule_id outcome) (with_reason (sn_reason outcome)
       (ssh_sign_entry now (ky_key_id key) (ky_fingerprint key) chain anchor dir (sn_decision outcome)))"

definition remember_sign :: "'m world \<Rightarrow> PreparedIdentity \<Rightarrow> SignAnchor \<Rightarrow> Decision \<Rightarrow> 'm machine \<Rightarrow> 'm machine" where
  "remember_sign W key anchor d m = (case grant_scope_for d (ky_key_id key) of
      None \<Rightarrow> m
    | Some scope \<Rightarrow> locked W AtGrant (\<lambda>H. remember_ssh_grant \<lparr>sg_scope = scope, sg_anchor = sa_identity anchor,
        sg_expires_at = min (ho_unix_secs H + SSH_SESSION_GRANT_TTL_SECS) (2 ^ 64 - 1)\<rparr>) m)"

text \<open>The reply, the row for the audit log, and the machine.\<close>

type_synonym 'm signed = "(string \<times> AuditEntry option \<times> 'm machine) option"

definition sign_approved ::
  "ssh_crates \<Rightarrow> SignContext \<Rightarrow> 'm world \<Rightarrow> PreparedIdentity \<Rightarrow> SignAnchor \<Rightarrow> CallerChain \<Rightarrow> string \<Rightarrow> string
     \<Rightarrow> 32 word \<Rightarrow> SignDecision \<Rightarrow> 'm machine \<Rightarrow> 'm signed" where
  "sign_approved X C W key anchor chain dir data flags outcome m =
     (let m = remember_sign W key anchor (sn_decision outcome) m;
          m = arrive W AtKey m;
          H = wd_host W AtKey
      in case resolve_and_sign X (ho_outside H) (cx_providers C) key data flags (st_memory (mc_state m)) of
           None \<Rightarrow> None
         | Some (sig, M) \<Rightarrow>
             (let m = on_state (\<lambda>st. st\<lparr>st_memory := M\<rparr>) m in
              case sig of
                None \<Rightarrow> Some (encode_failure, None, m)
              | Some sig_blob \<Rightarrow> map_option (\<lambda>reply.
                  (reply, Some (audit_sign (ho_unix_secs H) key chain anchor dir outcome), m))
                  (encode_sign_response (sx_codec X) sig_blob)))"

definition peer_dir :: "peer_env \<Rightarrow> nat \<Rightarrow> string" where
  "peer_dir P peer = (case pv_cwd P peer of None \<Rightarrow> [] | Some d \<Rightarrow> d)"

definition handle_sign ::
  "ssh_crates \<Rightarrow> SignContext \<Rightarrow> peer_env \<Rightarrow> 'm world \<Rightarrow> bool \<Rightarrow> nat \<Rightarrow> string \<Rightarrow> string \<Rightarrow> 32 word \<Rightarrow> 'm machine \<Rightarrow> 'm signed" where
  "handle_sign X C P W gui_available tx key_blob data flags m =
     (case find (\<lambda>i. ky_blob i = key_blob) (cx_identities C) of
        None \<Rightarrow> Some (encode_failure, None, m)
      | Some key \<Rightarrow> (case pv_peer P of
          None \<Rightarrow> Some (encode_failure, None, m)
        | Some peer_pid \<Rightarrow>
            (let chain = peer_chain P peer_pid;
                 peer = describe_pid (pv_categories P) (pv_system P) peer_pid;
                 dir = peer_dir P peer_pid
             in case select_sign_anchor peer (cc_frames chain) of
                  None \<Rightarrow> Some (encode_failure, None, m)
                | Some anchor \<Rightarrow>
                    if \<not> cx_wired C then Some (encode_failure, None, m)
                    else (case decide_sign X W gui_available tx key anchor chain dir data m of
                        (None, m) \<Rightarrow> Some (encode_failure, None, m)
                      | (Some outcome, m) \<Rightarrow>
                          if approved (sn_decision outcome) then sign_approved X C W key anchor chain dir data flags outcome m
                          else Some (encode_failure, Some (audit_sign (ho_unix_secs (wd_host W AtKey)) key chain anchor dir outcome), m)))))"

section \<open>Connections\<close>

definition handle_ssh_request ::
  "ssh_crates \<Rightarrow> SignContext \<Rightarrow> peer_env \<Rightarrow> 'm world \<Rightarrow> bool \<Rightarrow> nat \<Rightarrow> AgentRequest \<Rightarrow> 'm machine \<Rightarrow> 'm signed" where
  "handle_ssh_request X C P W gui_available tx request m = (case request of
      RequestIdentities \<Rightarrow> map_option (\<lambda>reply. (reply, None, m))
        (encode_identities_answer (sx_codec X) (map (\<lambda>i. (ky_blob i, ky_comment i)) (cx_identities C)))
    | SignRequest key_blob data flags \<Rightarrow> handle_sign X C P W gui_available tx key_blob data flags m
    | UnsupportedRequest t \<Rightarrow> Some (encode_failure, None, m))"

definition answer_frame ::
  "ssh_crates \<Rightarrow> SignContext \<Rightarrow> peer_env \<Rightarrow> 'm world \<Rightarrow> bool \<Rightarrow> nat \<Rightarrow> string \<Rightarrow> 'm machine \<Rightarrow> 'm signed" where
  "answer_frame X C P W gui_available tx f m = (case parse_request (sx_codec X) f of
      Inr request \<Rightarrow> handle_ssh_request X C P W gui_available tx request m
    | Inl _ \<Rightarrow> Some (encode_failure, None, m))"

text \<open>The \<open>k\<close>-th request of a connection has its own world, display, channel and fate of its write.\<close>

record 'm ssh_turns =
  sv_world :: "nat \<Rightarrow> 'm world"
  sv_gui :: "nat \<Rightarrow> bool"
  sv_tx :: "nat \<Rightarrow> nat"
  sv_written :: "nat \<Rightarrow> bool"

definition turn :: "ssh_crates \<Rightarrow> SignContext \<Rightarrow> peer_env \<Rightarrow> 'm ssh_turns \<Rightarrow> nat \<Rightarrow> string \<Rightarrow> 'm machine \<Rightarrow> 'm signed" where
  "turn X C P V k f m = answer_frame X C P (sv_world V k) (sv_gui V k) (sv_tx V k) f m"

definition row_list :: "AuditEntry option \<Rightarrow> AuditEntry list" where
  "row_list row = (case row of None \<Rightarrow> [] | Some r \<Rightarrow> [r])"

lemma read_frame_shrinks: "read_frame evs = (FrameRead f, evs') \<Longrightarrow> length (stream evs') < length (stream evs)"
  using read_frame_stream(1,2) [of evs f evs'] by auto

text \<open>The replies written, the rows, whether the connection ended without an error, and the machine.\<close>

function serve_frames ::
  "ssh_crates \<Rightarrow> SignContext \<Rightarrow> peer_env \<Rightarrow> 'm ssh_turns \<Rightarrow> nat \<Rightarrow> sock_event list \<Rightarrow> 'm machine
     \<Rightarrow> (string list \<times> AuditEntry list \<times> bool \<times> 'm machine) option" where
  "serve_frames X C P V k evs m = (case read_frame evs of
      (HungUp, _) \<Rightarrow> Some ([], [], True, m)
    | (FrameBroken, _) \<Rightarrow> Some ([], [], False, m)
    | (FrameRead f, evs') \<Rightarrow> (case turn X C P V k f m of
          None \<Rightarrow> None
        | Some (reply, row, m) \<Rightarrow>
            if \<not> sv_written V k then Some ([], row_list row, False, m)
            else map_option (\<lambda>(replies, rows, ok, m). (reply # replies, row_list row @ rows, ok, m))
              (serve_frames X C P V (Suc k) evs' m)))"
  by pat_completeness auto
termination
  by (relation "measure (\<lambda>(X, C, P, V, k, evs, m). length (stream evs))")
    (auto dest!: sym [THEN read_frame_shrinks])

declare serve_frames.simps [simp del]

definition handle_ssh_connection ::
  "ssh_crates \<Rightarrow> SignContext \<Rightarrow> peer_env \<Rightarrow> 'm ssh_turns \<Rightarrow> sock_event list \<Rightarrow> 'm machine
     \<Rightarrow> (string list \<times> AuditEntry list \<times> bool \<times> 'm machine) option" where
  "handle_ssh_connection X C P V evs m =
     (if pv_same_user P \<noteq> Some True then Some ([], [], True, m) else serve_frames X C P V 0 evs m)"

end
