(* ===== verification/Ssh_Properties.thy ===== *)
theory Ssh_Properties
  imports Server_Properties Ssh_Agent
begin

text \<open>
  What the SSH agent (\<open>src/packages/secreq/src/daemon/ssh_agent.rs\<close>) promises: its requests are
  atomic steps of the daemon like any other thread's; the decision a signing request waits for
  was taken on the card of its own key, session and bytes; and how a peer's bytes arrive in
  pieces changes nothing.
\<close>

section \<open>The card of a waiter\<close>

text \<open>Waiter \<open>i\<close> was submitted under the key \<open>k\<close>: wherever it is, what answers it is a decision
  on an ask of that key.\<close>

definition waits_on :: "nat \<Rightarrow> QueueEntry \<Rightarrow> bool" where
  "waits_on i e \<longleftrightarrow> i \<in> wt_id ` set (qe_waiters e)"

definition carded :: "nat \<Rightarrow> DedupeKey \<Rightarrow> 'm State \<Rightarrow> bool" where
  "carded i k st \<longleftrightarrow> consented st \<and> i < st_waiter_next_id st
     \<and> (\<forall>(k', e) \<in> set (st_queue st). waits_on i e \<longrightarrow> k' = k)
     \<and> (\<forall>j \<in> set (st_jobs st). waits_on i (jb_entry j) \<longrightarrow> ask_dedupe_key (qe_representative (jb_entry j)) = k
          \<and> landed (qe_representative (jb_entry j)) (jb_decision j) (st_out st))
     \<and> (\<forall>d secs dev why. ToWaiter i (Decided d secs dev why) \<in> set (st_out st) \<longrightarrow>
          (\<exists>rep. ask_dedupe_key rep = k \<and> landed rep d (st_out st)))"

lemma reply_recorded [simp]: "ToWaiter i r \<in> set (recorded out) \<longleftrightarrow> ToWaiter i r \<in> set out"
  by (auto simp: recorded_def to_screen_def)

lemma carded_core [simp]: "carded i k (core st) = carded i k st"
  by (simp add: carded_def)

lemma carded_parts:
  assumes "carded i k st"
  shows "consented st" "i < st_waiter_next_id st"
    and "(k', e) \<in> set (st_queue st) \<Longrightarrow> waits_on i e \<Longrightarrow> k' = k"
    and "j \<in> set (st_jobs st) \<Longrightarrow> waits_on i (jb_entry j) \<Longrightarrow> ask_dedupe_key (qe_representative (jb_entry j)) = k
      \<and> landed (qe_representative (jb_entry j)) (jb_decision j) (st_out st)"
    and "ToWaiter i (Decided d secs dev why) \<in> set (st_out st) \<Longrightarrow> \<exists>rep. ask_dedupe_key rep = k \<and> landed rep d (st_out st)"
  using assms unfolding carded_def by blast+

lemma cardedI:
  assumes "consented st" "i < st_waiter_next_id st"
    and "\<And>k' e. (k', e) \<in> set (st_queue st) \<Longrightarrow> waits_on i e \<Longrightarrow> k' = k"
    and "\<And>j. j \<in> set (st_jobs st) \<Longrightarrow> waits_on i (jb_entry j) \<Longrightarrow> ask_dedupe_key (qe_representative (jb_entry j)) = k
      \<and> landed (qe_representative (jb_entry j)) (jb_decision j) (st_out st)"
    and "\<And>d secs dev why. ToWaiter i (Decided d secs dev why) \<in> set (st_out st) \<Longrightarrow>
      \<exists>rep. ask_dedupe_key rep = k \<and> landed rep d (st_out st)"
  shows "carded i k st"
  using assms unfolding carded_def by blast

lemma submit_carded:
  assumes "carded i k st" shows "carded i k (snd (submit_ask H ask tx st))"
proof -
  note p = carded_parts [OF assms]
  let ?r = "core (snd (submit_ask H ask tx st))" and ?key = "ask_dedupe_key ask"
  have queue: "st_queue ?r = hm_insert ?key (submitted_entry H ask tx st) (st_queue st)"
    and rest: "st_jobs ?r = st_jobs st" "st_out ?r = recorded (st_out st)" "st_waiter_next_id ?r = st_waiter_next_id st + 1"
    by (simp_all add: core_submit)
  have "carded i k ?r"
  proof (rule cardedI)
    show "consented ?r" using submit_consented [OF p(1)] by simp
  next
    fix k' e assume e: "(k', e) \<in> set (st_queue ?r)" "waits_on i e"
    show "k' = k"
    proof (cases "(k', e) \<in> set (st_queue st)")
      case False
      then have new: "k' = ?key" "e = submitted_entry H ask tx st" using e(1) set_update unfolding queue by fastforce+
      have "i \<noteq> st_waiter_next_id st" using p(2) by simp
      then obtain e0 where "hm_get (st_queue st) ?key = Some e0" "waits_on i e0"
        using e(2) unfolding new(2) submitted_entry_def
        by (auto simp: Let_def waits_on_def new_waiter_def split: option.splits)
      then show ?thesis using p(3) new(1) by (auto dest: map_of_SomeD)
    qed (use p(3) e in blast)
  qed (use p in \<open>simp_all add: rest del: core_fields\<close>)
  then show ?thesis by simp
qed

lemma decide_carded:
  assumes "carded i k st" shows "carded i k (resolve_with_device H key d reason scope dev st)"
proof (cases "hm_get (st_queue st) key")
  case None
  then show ?thesis using core_resolve_none carded_core assms by metis
next
  case (Some e)
  note p = carded_parts [OF assms]
  let ?r = "core (resolve_with_device H key d reason scope dev st)"
  note eq = core_resolve_some [OF Some, of H d reason scope dev]
  have entry: "(key, e) \<in> set (st_queue st)" using Some by (rule map_of_SomeD)
  have rep: "ask_dedupe_key (qe_representative e) = key" using keyed_get Some p(1) by (auto simp: consented_def)
  have queue: "st_queue ?r = hm_remove key (st_queue st)" and next_id: "st_waiter_next_id ?r = st_waiter_next_id st"
    and jobs: "set (st_jobs ?r) \<subseteq> insert \<lparr>jb_key = key, jb_entry = e, jb_decision = d, jb_device = dev,
       jb_cold = is_cold H d (qe_representative e) st\<rparr> (set (st_jobs st))"
    by (simp_all add: eq del: core_fields) (auto simp: eq)
  have old: "landed a x (st_out ?r)" if "landed a x (st_out st)" for a x using that by (simp add: eq del: core_fields)
  have new: "landed (qe_representative e) d (st_out ?r)" by (simp add: eq del: core_fields)
  have replies: "x \<in> set (recorded (st_out st)) \<or> x = Landed (qe_representative e) d scope
      \<or> (\<exists>w \<in> set (qe_waiters e). x = ToWaiter (wt_id w) (deny_reply d dev reason))" if "x \<in> set (st_out ?r)" for x
    using that by (auto simp: eq simp del: core_fields split: if_splits)
  have "carded i k ?r"
  proof (rule cardedI)
    show "consented ?r" using decide_consented [OF p(1)] by simp
  next
    show "i < st_waiter_next_id ?r" unfolding next_id by (rule p(2))
  next
    fix k' e' assume "(k', e') \<in> set (st_queue ?r)" "waits_on i e'"
    then show "k' = k" using p(3) unfolding queue by (auto dest: set_remove)
  next
    fix j assume j: "j \<in> set (st_jobs ?r)" "waits_on i (jb_entry j)"
    show "ask_dedupe_key (qe_representative (jb_entry j)) = k \<and> landed (qe_representative (jb_entry j)) (jb_decision j) (st_out ?r)"
    proof (cases "j \<in> set (st_jobs st)")
      case True
      then show ?thesis using p(4) [OF True j(2)] old by blast
    next
      case False
      then have "jb_entry j = e" "jb_decision j = d" using j(1) jobs by auto
      then show ?thesis using p(3) [OF entry] j(2) rep new by simp
    qed
  next
    fix d' secs dev' why assume x: "ToWaiter i (Decided d' secs dev' why) \<in> set (st_out ?r)"
    show "\<exists>rep. ask_dedupe_key rep = k \<and> landed rep d' (st_out ?r)"
    proof (cases "ToWaiter i (Decided d' secs dev' why) \<in> set (st_out st)")
      case True
      then show ?thesis using p(5) old by blast
    next
      case False
      then have "d' = d" "waits_on i e" using replies [OF x] by (auto simp: deny_reply_def waits_on_def)
      then show ?thesis using p(3) [OF entry] rep new by blast
    qed
  qed
  then show ?thesis by simp
qed

lemma withdraw_carded:
  assumes "carded i k st" shows "carded i k (withdraw_waiter H key n st)"
proof (cases "hm_get (st_queue st) key")
  case None
  then show ?thesis using core_withdraw_none(1) carded_core assms by metis
next
  case (Some e)
  show ?thesis
  proof (cases "find (\<lambda>w. wt_id w = n) (qe_waiters e)")
    case None
    then show ?thesis using core_withdraw_none(2) [OF Some] carded_core assms by metis
  next
    case w: (Some w)
    note p = carded_parts [OF assms]
    let ?ws = "remove_first (\<lambda>w. wt_id w = n) (qe_waiters e)" and ?r = "core (withdraw_waiter H key n st)"
    note eq = core_withdraw_some [OF Some w refl, of H]
    have entry: "(key, e) \<in> set (st_queue st)" using Some by (rule map_of_SomeD)
    have queue: "st_queue ?r = (if ?ws = [] then hm_remove key (st_queue st) else hm_insert key (e\<lparr>qe_waiters := ?ws\<rparr>) (st_queue st))"
      and rest: "st_jobs ?r = st_jobs st" "st_waiter_next_id ?r = st_waiter_next_id st"
      and out: "st_out ?r = recorded (st_out st) @ [Withdrawn n (abandoned_audit_entry (ho_unix_secs H) key w) (ho_append H (abandoned_audit_entry (ho_unix_secs H) key w))]"
      unfolding eq by simp_all
    have sub: "set (remove_first P xs) \<subseteq> set xs" for P and xs :: "Waiter list" by (induction xs) auto
    have "carded i k ?r"
    proof (rule cardedI)
      show "consented ?r" using withdraw_consented [OF p(1)] by simp
    next
      fix k' e' assume e': "(k', e') \<in> set (st_queue ?r)" "waits_on i e'"
      show "k' = k"
      proof (cases "(k', e') \<in> set (st_queue st)")
        case False
        have ws: "?ws \<noteq> []"
        proof
          assume "?ws = []"
          then have "(k', e') \<in> set (hm_remove key (st_queue st))" using e'(1) queue by simp
          then show False using False set_remove by fast
        qed
        then have "(k', e') \<in> set (hm_insert key (e\<lparr>qe_waiters := ?ws\<rparr>) (st_queue st))" using e'(1) queue by simp
        from set_update [OF this] have "k' = key" "e' = e\<lparr>qe_waiters := ?ws\<rparr>" using False by simp_all
        moreover from this e'(2) have "waits_on i e" using subsetD [OF sub] by (auto simp: waits_on_def)
        ultimately show ?thesis using p(3) [OF entry] by simp
      qed (use p(3) e' in blast)
    next
      show "i < st_waiter_next_id ?r" unfolding rest by (rule p(2))
    next
      fix j assume "j \<in> set (st_jobs ?r)" "waits_on i (jb_entry j)"
      then show "ask_dedupe_key (qe_representative (jb_entry j)) = k \<and> landed (qe_representative (jb_entry j)) (jb_decision j) (st_out ?r)"
        using p(4) [of j] unfolding rest out by simp
    next
      fix d secs dev why assume "ToWaiter i (Decided d secs dev why) \<in> set (st_out ?r)"
      then show "\<exists>rep. ask_dedupe_key rep = k \<and> landed rep d (st_out ?r)"
        using p(5) [of d secs dev why] unfolding out by simp
    qed
    then show ?thesis by simp
  qed
qed

lemma run_job_carded:
  assumes "carded i k st" "run_job H n st = Some st'" shows "carded i k st'"
proof (cases "n < length (st_jobs st)")
  case True
  note p = carded_parts [OF assms(1)]
  let ?job = "st_jobs st ! n"
  obtain u M where st': "st' = finish_job H ?job u (st\<lparr>st_memory := M, st_jobs := take n (st_jobs st) @ drop (Suc n) (st_jobs st)\<rparr>)"
    using assms(2) True by (auto simp: run_job_def Let_def split: option.splits prod.splits)
  have job: "?job \<in> set (st_jobs st)" using True by simp
  have eq: "st_queue (core st') = st_queue st" "st_waiter_next_id (core st') = st_waiter_next_id st"
    "st_jobs (core st') = take n (st_jobs st) @ drop (Suc n) (st_jobs st)"
    "st_out (core st') = recorded (st_out st) @ map (\<lambda>w. ToWaiter (wt_id w) (waiter_reply u ?job w)) (qe_waiters (jb_entry ?job))"
    by (simp_all add: st' core_finish_job del: core_fields) simp_all
  have "carded i k (core st')"
  proof (rule cardedI)
    show "consented (core st')" using run_job_consented [OF p(1) assms(2)] by simp
  next
    fix j assume "j \<in> set (st_jobs (core st'))" "waits_on i (jb_entry j)"
    moreover from this have "j \<in> set (st_jobs st)" unfolding eq by (auto dest: in_set_takeD in_set_dropD)
    ultimately show "ask_dedupe_key (qe_representative (jb_entry j)) = k \<and> landed (qe_representative (jb_entry j)) (jb_decision j) (st_out (core st'))"
      using p(4) by (simp add: eq del: core_fields)
  next
    fix d secs dev why assume x: "ToWaiter i (Decided d secs dev why) \<in> set (st_out (core st'))"
    show "\<exists>rep. ask_dedupe_key rep = k \<and> landed rep d (st_out (core st'))"
    proof (cases "ToWaiter i (Decided d secs dev why) \<in> set (st_out st)")
      case True
      then show ?thesis using p(5) by (fastforce simp: eq simp del: core_fields)
    next
      case False
      then obtain w where w: "w \<in> set (qe_waiters (jb_entry ?job))" "wt_id w = i" "waiter_reply u ?job w = Decided d secs dev why"
        using x by (auto simp: eq simp del: core_fields)
      then have "d = jb_decision ?job" using waiter_reply_sound by blast
      then show ?thesis using p(4) [OF job] w by (fastforce simp: eq waits_on_def simp del: core_fields)
    qed
  qed (use p in \<open>simp_all add: eq del: core_fields\<close>)
  then show ?thesis by simp
qed (use assms in \<open>simp add: run_job_def\<close>)

lemma op_carded: "carded i k st \<Longrightarrow> carded i k (apply_daemon_op (H, op) st)"
proof (rule daemon_op_invariant [of "carded i k"])
  fix a b :: "'m State"
  assume "core a = core b" "carded i k a"
  then show "carded i k b" using carded_core by metis
next
  fix st :: "'m State" and p g m
  assume c: "carded i k st"
  then have "consented (st\<lparr>st_pending := p\<rparr>)" "consented (st\<lparr>st_ssh_grants := g\<rparr>)" "consented (st\<lparr>st_memory := m\<rparr>)"
    by (simp_all add: carded_def consented_def keyed_def approvals_landed_def releases_landed_def)
  with c show "carded i k (st\<lparr>st_pending := p\<rparr>) \<and> carded i k (st\<lparr>st_ssh_grants := g\<rparr>) \<and> carded i k (st\<lparr>st_memory := m\<rparr>)"
    by (simp add: carded_def)
qed (simp_all add: submit_carded decide_carded withdraw_carded run_job_carded)

lemma carded_desk:
  assumes "desk a = desk b" "consented a = consented b" shows "carded i k a = carded i k b"
proof -
  have "landed r x (st_out a) \<longleftrightarrow> landed r x (st_out b)" "ToWaiter n w \<in> set (st_out a) \<longleftrightarrow> ToWaiter n w \<in> set (st_out b)"
    for r x n w
    using assms landed_recorded(2) [of r x "st_out a"] landed_recorded(2) [of r x "st_out b"]
      reply_recorded [of n w "st_out a"] reply_recorded [of n w "st_out b"] by (simp_all add: desk_def)
  then show ?thesis using assms by (simp add: carded_def desk_def)
qed

lemma atomic_carded: "atomic m m' \<Longrightarrow> sound (mc_state m) \<Longrightarrow> carded i k (mc_state m) \<Longrightarrow> carded i k (mc_state m')"
proof (induction rule: atomic.induct)
  case (DaemonStep m H op)
  then show ?case by (simp add: on_state_def op_carded)
next
  case (RulesStep A H op m r st E)
  have d: "desk st = desk (mc_state m)" by (rule desk_rule_op [OF RulesStep(1)])
  then have "consented st" using sound_desk [OF d] RulesStep(2) by (simp add: sound_def)
  then show ?case using carded_desk [OF d] RulesStep(2,3) by (simp add: sound_def)
next
  case (WindowStep st m)
  then show ?case using carded_core [of i k st] carded_core [of i k "mc_state m"] by simp
next
  case (MemoryStep m M)
  have "desk (mc_state m\<lparr>st_memory := M\<rparr>) = desk (mc_state m)" by simp
  from carded_desk [OF this] sound_desk [OF this] MemoryStep show ?case by (simp add: on_state_def sound_def)
next
  case (NonceStep m n)
  have "desk (mc_state m\<lparr>st_link_nonces := n\<rparr>) = desk (mc_state m)" by simp
  from carded_desk [OF this] sound_desk [OF this] NonceStep show ?case by (simp add: on_state_def sound_def)
qed simp

lemma steps_carded: "steps m m' \<Longrightarrow> sound (mc_state m) \<Longrightarrow> carded i k (mc_state m) \<Longrightarrow> carded i k (mc_state m')"
proof (induction rule: rtranclp_induct)
  case (step y z)
  then show ?case using steps_sound [OF step(1)] by (blast intro: atomic_carded)
qed

lemma in_sum: "x \<in># sum_list (map f ys) \<longleftrightarrow> (\<exists>y \<in> set ys. x \<in># f y)"
  by (induction ys) auto

lemma parked_iff: "n \<in># parked st \<longleftrightarrow> (\<exists>(k, e) \<in> set (st_queue st). waits_on n e)"
  by (force simp: parked_def in_sum ids_of_def waits_on_def)

lemma resolving_iff: "n \<in># resolving st \<longleftrightarrow> (\<exists>j \<in> set (st_jobs st). waits_on n (jb_entry j))"
  by (force simp: resolving_def in_sum ids_of_def waits_on_def)

lemma answered_if: "ToWaiter n r \<in> set (st_out st) \<Longrightarrow> n \<in># answered st"
  by (force simp: answered_def in_sum)

lemma new_card:
  assumes "sound st0" "submit_ask H ask tx st0 = ((r, i), st)"
  shows "carded i (ask_dedupe_key ask) st"
proof -
  have i: "i = st_waiter_next_id st0" and st: "st = snd (submit_ask H ask tx st0)"
    using assms(2) by (auto simp: submit_ask_def Let_def new_waiter_def split: prod.splits)
  have "account st0 = mset [1..<st_waiter_next_id st0]" using assms(1) by (simp add: sound_def conserved_def)
  then have "i \<notin># account st0" by (simp add: i)
  then have fresh: "i \<notin># parked st0" "i \<notin># resolving st0" "i \<notin># answered st0" by (simp_all add: account_def)
  let ?r = "core st"
  have eq: "st_queue ?r = hm_insert (ask_dedupe_key ask) (submitted_entry H ask tx st0) (st_queue st0)"
    "st_waiter_next_id ?r = st_waiter_next_id st0 + 1" "st_jobs ?r = st_jobs st0" "st_out ?r = recorded (st_out st0)"
    unfolding st by (simp_all add: core_submit)
  have "carded i (ask_dedupe_key ask) ?r"
  proof (rule cardedI)
    have "consented st0" using assms(1) by (simp add: sound_def)
    from submit_consented [OF this] show "consented ?r" by (simp add: st)
  next
    show "i < st_waiter_next_id ?r" by (simp add: eq i del: core_fields)
  next
    fix k' e assume e: "(k', e) \<in> set (st_queue ?r)" "waits_on i e"
    then have "(k', e) \<notin> set (st_queue st0)" using fresh(1) by (auto simp: parked_iff)
    then show "k' = ask_dedupe_key ask" using e(1) set_update unfolding eq by fast
  next
    fix j assume "j \<in> set (st_jobs ?r)" "waits_on i (jb_entry j)"
    then show "ask_dedupe_key (qe_representative (jb_entry j)) = ask_dedupe_key ask
        \<and> landed (qe_representative (jb_entry j)) (jb_decision j) (st_out ?r)"
      using fresh(2) unfolding eq by (auto simp: resolving_iff)
  next
    fix d secs dev why assume "ToWaiter i (Decided d secs dev why) \<in> set (st_out ?r)"
    then show "\<exists>rep. ask_dedupe_key rep = ask_dedupe_key ask \<and> landed rep d (st_out ?r)"
      using fresh(3) answered_if [of i "Decided d secs dev why" st0] unfolding eq by simp
  qed
  then show ?thesis by simp
qed

lemma reply_to_sent: "reply_to i st = Some r \<Longrightarrow> ToWaiter i r \<in> set (st_out st)"
proof -
  have "first_reply i out = Some r \<Longrightarrow> ToWaiter i r \<in> set out" for out
    by (induction out) (auto split: effect.splits if_splits)
  then show "reply_to i st = Some r \<Longrightarrow> ToWaiter i r \<in> set (st_out st)" by (simp add: reply_to_def)
qed

section \<open>Signing as steps\<close>

lemma reload_here_steps:
  "steps m (m\<lparr>mc_state := reload_rules_if_changed H (mc_files m) (mc_state m)\<rparr>)"
proof -
  have "atomic m (m\<lparr>mc_state := reload_rules_if_changed H (mc_files m) (mc_state m), mc_files := mc_files m\<rparr>)"
    by (rule RulesStep [where op = ReloadOp]) simp
  then show ?thesis by simp
qed

lemma miss_steps:
  assumes "honest W" "sound (mc_state m)" "decide_sign_on_miss X W gui tx key anchor chain dir data m = (r, m')"
  shows "steps m m'"
    "r = Some outcome \<Longrightarrow> sn_rule_id outcome = None \<and> (\<exists>rep. landed rep (sn_decision outcome) (st_out (mc_state m'))
       \<and> ask_dedupe_key rep = ask_dedupe_key (sign_ask X key anchor chain dir data))"
proof -
  define ask where "ask = sign_ask X key anchor chain dir data"
  define a where "a = arrive W AtSubmit m"
  obtain res i st where sub: "submit_ask (wd_host W AtSubmit) ask tx (mc_state a) = ((res, i), st)" by (metis surj_pair)
  define b where "b = ensure_consent_window W (a\<lparr>mc_state := st\<rparr>)"
  define c where "c = arrive W AtWait b"
  have a: "steps m a" using assms(1) by (auto simp: a_def)
  have ab: "steps a (a\<lparr>mc_state := st\<rparr>)"
    using daemon_steps [of a "wd_host W AtSubmit" "Submit ask tx"] by (simp add: on_state_def sub)
  have "steps (a\<lparr>mc_state := st\<rparr>) b" unfolding b_def by (rule ensure_consent_steps [OF assms(1)])
  then have bc: "steps (a\<lparr>mc_state := st\<rparr>) c" using steps_trans [OF _ arrive_steps [OF assms(1)]] by (simp add: c_def)
  have c: "steps m c" using steps_trans [OF steps_trans [OF a ab] bc] .
  have w: "steps m (locked W AtWithdraw (\<lambda>H. withdraw_waiter H (ask_dedupe_key ask) i) c)"
    by (rule steps_trans [OF c locked_op [OF assms(1)]]) (rule apply_daemon_op.simps(5) [symmetric])
  have e: "(r, m') = (if \<not> gui then (None, m) else case reply_to i (mc_state c) of
      Some (Decided d secs dev reason) \<Rightarrow> (Some (manual d reason), c)
    | Some (ReplyErr x y) \<Rightarrow> (None, c)
    | None \<Rightarrow> if \<not> sender_held i (mc_state c) then (None, c)
        else (None, locked W AtWithdraw (\<lambda>H. withdraw_waiter H (ask_dedupe_key ask) i) c))"
    unfolding assms(3) [symmetric] decide_sign_on_miss_def Let_def ask_def [symmetric] a_def [symmetric] sub prod.case
      b_def [symmetric] c_def [symmetric] by (rule refl)
  show "steps m m'" using e c w by (auto split: if_splits option.splits WaiterReply.splits)
  have "sound (mc_state a)" by (rule steps_sound [OF a assms(2)])
  then have card: "carded i (ask_dedupe_key ask) st" "sound st"
    using new_card [OF _ sub] steps_sound [OF ab] by simp_all
  then have card: "carded i (ask_dedupe_key ask) (mc_state c)" using steps_carded [OF bc] by simp
  show "sn_rule_id outcome = None \<and> (\<exists>rep. landed rep (sn_decision outcome) (st_out (mc_state m'))
       \<and> ask_dedupe_key rep = ask_dedupe_key (sign_ask X key anchor chain dir data))" if r: "r = Some outcome"
  proof -
    obtain d secs dev reason where "reply_to i (mc_state c) = Some (Decided d secs dev reason)" "outcome = manual d reason" "m' = c"
      using e r by (auto split: if_splits option.splits WaiterReply.splits)
    then show ?thesis using carded_parts(5) [OF card reply_to_sent] by (auto simp: manual_def ask_def)
  qed
qed

lemma grant_query_steps:
  fixes H :: host
  shows "has_ssh_grant_at k i (ho_unix_secs H) (mc_state m) = (b, st) \<Longrightarrow> steps m (m\<lparr>mc_state := st\<rparr>)"
  using daemon_steps [of m H "QuerySsh k i"] by (simp add: on_state_def)

lemma granted_by:
  assumes "has_ssh_grant_at k i now st = (True, st')"
  obtains g where "g \<in> set (st_ssh_grants st')" "ssh_grant_matches g k i now"
  using assms by (auto simp: has_ssh_grant_at_def Let_def list_ex_iff)

text \<open>Where a decision comes from.\<close>

lemma decision_cases:
  assumes "honest W" "sound (mc_state m)" "decide_sign X W gui tx key anchor chain dir data m = (Some outcome, m')"
  obtains (granted) m1 g where "steps m m1" "steps m1 m'" "outcome = manual ApproveCached None"
      "g \<in> set (st_ssh_grants (mc_state m1))" "ssh_grant_matches g (ky_key_id key) (sa_identity anchor) (ho_unix_secs (wd_host W AtApproval))"
  | (rule) m1 hit where "steps m m1" "steps m1 m'" "sn_rule_id outcome = Some (rh_rule_id hit)"
      "evaluate_rules_for_ask (mc_files m1) (sign_ask X key anchor chain dir data) (mc_state m1) = Some hit"
      "sn_decision outcome = (case rh_decide hit of ApproveRule \<Rightarrow> ApproveAuto | DenyRule \<Rightarrow> DenyAuto)"
  | (card) rep where "steps m m'" "sn_rule_id outcome = None" "landed rep (sn_decision outcome) (st_out (mc_state m'))"
      "ask_dedupe_key rep = ask_dedupe_key (sign_ask X key anchor chain dir data)"
proof -
  define a where "a = arrive W AtApproval m"
  obtain b st where q: "has_ssh_grant_at (ky_key_id key) (sa_identity anchor) (ho_unix_secs (wd_host W AtApproval)) (mc_state a) = (b, st)"
    by fastforce
  define c where "c = arrive W AtRules (a\<lparr>mc_state := st\<rparr>)"
  define d where "d = c\<lparr>mc_state := reload_rules_if_changed (wd_host W AtRules) (mc_files c) (mc_state c)\<rparr>"
  have a: "steps m (a\<lparr>mc_state := st\<rparr>)"
    using steps_trans [OF arrive_steps [OF assms(1)] grant_query_steps [OF q [unfolded a_def]]] by (simp add: a_def)
  have "steps m c" unfolding c_def by (rule steps_trans [OF a arrive_steps [OF assms(1)]])
  then have d: "steps m d" unfolding d_def by (rule steps_trans [OF _ reload_here_steps])
  have e: "(Some outcome, m') = (if b then (Some (manual ApproveCached None), a\<lparr>mc_state := st\<rparr>)
      else case evaluate_rules_for_ask (mc_files d) (sign_ask X key anchor chain dir data) (mc_state d) of
          Some hit \<Rightarrow> (case rh_decide hit of
              ApproveRule \<Rightarrow> (Some \<lparr>sn_decision = ApproveAuto, sn_reason = None, sn_rule_id = Some (rh_rule_id hit)\<rparr>, d)
            | DenyRule \<Rightarrow> (Some \<lparr>sn_decision = DenyAuto, sn_reason = rh_deny_message hit, sn_rule_id = Some (rh_rule_id hit)\<rparr>,
                on_state (broadcast_auto_deny_toast (wd_host W AtRules) (rh_rule_name hit) (rh_deny_message hit)) d))
        | None \<Rightarrow> decide_sign_on_miss X W gui tx key anchor chain dir data d)"
    unfolding assms(3) [symmetric] decide_sign_def Let_def a_def [symmetric] q prod.case c_def [symmetric] d_def [symmetric]
    by (rule refl)
  show thesis
  proof (cases b)
    case True
    from q True have "has_ssh_grant_at (ky_key_id key) (sa_identity anchor) (ho_unix_secs (wd_host W AtApproval)) (mc_state a) = (True, st)" by simp
    from granted_by [OF this] obtain g where "g \<in> set (st_ssh_grants st)"
      "ssh_grant_matches g (ky_key_id key) (sa_identity anchor) (ho_unix_secs (wd_host W AtApproval))" .
    then show thesis using granted [of "a\<lparr>mc_state := st\<rparr>" g] a e True by simp
  next
    case False
    show thesis
    proof (cases "evaluate_rules_for_ask (mc_files d) (sign_ask X key anchor chain dir data) (mc_state d)")
      case None
      then have miss: "decide_sign_on_miss X W gui tx key anchor chain dir data d = (Some outcome, m')" using e False by simp
      note m = miss_steps [OF assms(1) steps_sound [OF d assms(2)] miss]
      show thesis using m(2) [OF refl] card steps_trans [OF d m(1)] by blast
    next
      case (Some hit)
      have "steps d (on_state (broadcast_auto_deny_toast H n t) d)" for H n t
        unfolding on_state_def by (rule window_steps) (simp add: core_simps)
      then show thesis using rule [OF d _ _ Some] e False Some by (cases "rh_decide hit") simp_all
    qed
  qed
qed

lemma decide_sign_steps:
  assumes "honest W" "sound (mc_state m)" "decide_sign X W gui tx key anchor chain dir data m = (r, m')"
  shows "steps m m'"
proof (cases r)
  case (Some outcome)
  from assms(3) show ?thesis unfolding Some by (rule decision_cases [OF assms(1,2)]) (auto intro: steps_trans)
next
  case None
  define a where "a = arrive W AtApproval m"
  obtain b st where q: "has_ssh_grant_at (ky_key_id key) (sa_identity anchor) (ho_unix_secs (wd_host W AtApproval)) (mc_state a) = (b, st)"
    by fastforce
  define c where "c = arrive W AtRules (a\<lparr>mc_state := st\<rparr>)"
  define d where "d = c\<lparr>mc_state := reload_rules_if_changed (wd_host W AtRules) (mc_files c) (mc_state c)\<rparr>"
  have "steps m (a\<lparr>mc_state := st\<rparr>)"
    using steps_trans [OF arrive_steps [OF assms(1)] grant_query_steps [OF q [unfolded a_def]]] by (simp add: a_def)
  then have "steps m c" unfolding c_def by (rule steps_trans [OF _ arrive_steps [OF assms(1)]])
  then have d: "steps m d" unfolding d_def by (rule steps_trans [OF _ reload_here_steps])
  have "decide_sign_on_miss X W gui tx key anchor chain dir data d = (None, m')"
    using assms(3) unfolding None decide_sign_def Let_def a_def [symmetric] q prod.case c_def [symmetric] d_def [symmetric]
    by (auto split: if_splits option.splits RuleDecision.splits)
  from steps_trans [OF d miss_steps(1) [OF assms(1) steps_sound [OF d assms(2)] this]] show ?thesis .
qed

lemma remember_sign_steps: "honest W \<Longrightarrow> steps m (remember_sign W key anchor d m)"
  unfolding remember_sign_def by (auto split: option.split intro!: locked_op apply_daemon_op.simps(9) [symmetric])

lemma sign_approved_steps:
  assumes "honest W" "sign_approved X C W key anchor chain dir data flags outcome m = Some (reply, row, m')"
  shows "steps m m'" "reply \<noteq> encode_failure \<Longrightarrow> row = Some (audit_sign (ho_unix_secs (wd_host W AtKey)) key chain anchor dir outcome)"
proof -
  define a where "a = arrive W AtKey (remember_sign W key anchor (sn_decision outcome) m)"
  have a: "steps m a" unfolding a_def by (rule steps_trans [OF remember_sign_steps [OF assms(1)] arrive_steps [OF assms(1)]])
  obtain sig M where r: "resolve_and_sign X (ho_outside (wd_host W AtKey)) (cx_providers C) key data flags (st_memory (mc_state a)) = Some (sig, M)"
    "m' = on_state (\<lambda>st. st\<lparr>st_memory := M\<rparr>) a"
    "(sig = None \<and> reply = encode_failure \<or> (row = Some (audit_sign (ho_unix_secs (wd_host W AtKey)) key chain anchor dir outcome)))"
    using assms(2) [unfolded sign_approved_def Let_def, folded a_def] by (auto split: option.splits prod.splits)
  show "steps m m'" unfolding r(2) by (rule steps_trans [OF a one_step [OF MemoryStep]])
  show "reply \<noteq> encode_failure \<Longrightarrow> row = Some (audit_sign (ho_unix_secs (wd_host W AtKey)) key chain anchor dir outcome)"
    using r(3) by blast
qed

text \<open>How a signing request ends.\<close>

lemma signing_cases:
  assumes "handle_sign X C P W gui tx blob data flags m = Some (reply, row, m')"
  obtains (refused) "reply = encode_failure" "row = None" "m' = m"
  | (undecided) key anchor chain dir where "reply = encode_failure" "row = None"
      "decide_sign X W gui tx key anchor chain dir data m = (None, m')"
  | (denied) key anchor chain dir outcome where "reply = encode_failure"
      "decide_sign X W gui tx key anchor chain dir data m = (Some outcome, m')"
  | (approved) key peer anchor outcome m1 where "key \<in> set (cx_identities C)" "ky_blob key = blob" "pv_peer P = Some peer"
      "select_sign_anchor (describe_pid (pv_categories P) (pv_system P) peer) (cc_frames (peer_chain P peer)) = Some anchor"
      "decide_sign X W gui tx key anchor (peer_chain P peer) (peer_dir P peer) data m = (Some outcome, m1)" "approved (sn_decision outcome)"
      "sign_approved X C W key anchor (peer_chain P peer) (peer_dir P peer) data flags outcome m1 = Some (reply, row, m')"
proof (cases "find (\<lambda>i. ky_blob i = blob) (cx_identities C)")
  case None
  then show thesis using assms refused by (simp add: handle_sign_def)
next
  case key: (Some key)
  then have k: "key \<in> set (cx_identities C)" "ky_blob key = blob" by (auto simp: find_Some_iff)
  show thesis
  proof (cases "pv_peer P")
    case None
    then show thesis using assms key refused by (simp add: handle_sign_def)
  next
    case peer: (Some peer)
    let ?dir = "peer_dir P peer"
    show thesis
    proof (cases "select_sign_anchor (describe_pid (pv_categories P) (pv_system P) peer) (cc_frames (peer_chain P peer))")
      case None
      then show thesis using assms key peer refused by (simp add: handle_sign_def)
    next
      case anchor: (Some anchor)
      obtain r m1 where d: "decide_sign X W gui tx key anchor (peer_chain P peer) ?dir data m = (r, m1)" by fastforce
      note h = assms [unfolded handle_sign_def key peer option.case Let_def anchor d prod.case]
      show thesis
      proof (cases "cx_wired C")
        case wired: True
        show thesis
        proof (cases r)
          case None
          then show thesis using h wired d undecided by simp
        next
          case (Some outcome)
          then show thesis using h wired d denied approved [OF k peer anchor, of outcome m1]
            by (cases "approved (sn_decision outcome)") auto
        qed
      qed (use h refused in simp)
    qed
  qed
qed

lemma handle_sign_steps:
  assumes "honest W" "sound (mc_state m)" "handle_sign X C P W gui tx blob data flags m = Some (reply, row, m')"
  shows "steps m m'"
proof -
  from signing_cases [OF assms(3)] show ?thesis
    by (cases) (auto intro: decide_sign_steps [OF assms(1,2)] steps_trans [OF _ sign_approved_steps(1) [OF assms(1)]])
qed

section \<open>Connections\<close>

text \<open>What the requests of a connection come to when each is handed over whole.\<close>

fun serve_requests ::
  "ssh_crates \<Rightarrow> SignContext \<Rightarrow> peer_env \<Rightarrow> 'm ssh_turns \<Rightarrow> nat \<Rightarrow> AgentRequest list \<Rightarrow> 'm machine
     \<Rightarrow> (string list \<times> AuditEntry list \<times> bool \<times> 'm machine) option" where
  "serve_requests X C P V k [] m = Some ([], [], True, m)"
| "serve_requests X C P V k (r # rs) m = (case handle_ssh_request X C P (sv_world V k) (sv_gui V k) (sv_tx V k) r m of
      None \<Rightarrow> None
    | Some (reply, row, m) \<Rightarrow>
        if \<not> sv_written V k then Some ([], row_list row, False, m)
        else map_option (\<lambda>(replies, rows, ok, m). (reply # replies, row_list row @ rows, ok, m))
          (serve_requests X C P V (Suc k) rs m))"

definition sent_as :: "ssh_codec \<Rightarrow> AgentRequest \<Rightarrow> string \<Rightarrow> bool" where
  "sent_as K r f \<longleftrightarrow> length f \<le> 4 + MAX_AGENT_MSG_LEN \<and> (case r of
      RequestIdentities \<Rightarrow> f = encode_request_identities
    | SignRequest blob data flags \<Rightarrow> encode_sign_request K blob data flags = Some f
    | UnsupportedRequest t \<Rightarrow> False)"

lemma sent_as_frame:
  assumes "codec_ok K" "sent_as K r f"
  obtains p where "f = frame p" "length p \<le> MAX_AGENT_MSG_LEN" "parse_request K f = Inr r"
proof -
  have small: "length f < 2 ^ 32" using assms(2) by (simp add: sent_as_def MAX_AGENT_MSG_LEN_def)
  obtain p where p: "f = frame p"
    using assms(2) by (auto simp: sent_as_def encode_request_identities_def encode_sign_request_def split: AgentRequest.splits option.splits)
  moreover have "parse_request K f = Inr r"
    using assms small sign_request_back by (auto simp: sent_as_def split: AgentRequest.splits)
  ultimately show thesis using that assms(2) by (auto simp: sent_as_def)
qed

lemma serve_frames_requests:
  assumes "codec_ok (sx_codec X)"
  shows "list_all2 (sent_as (sx_codec X)) rs fs \<Longrightarrow> steady evs \<Longrightarrow> stream evs = concat fs \<Longrightarrow>
    serve_frames X C P V k evs m = serve_requests X C P V k rs m"
proof (induction rs fs arbitrary: k evs m rule: list_all2_induct)
  case Nil
  then show ?case using steady_end by (simp add: serve_frames.simps)
next
  case (Cons r rs f fs)
  from sent_as_frame [OF assms Cons(1)] obtain p where p: "f = frame p" "length p \<le> MAX_AGENT_MSG_LEN"
    "parse_request (sx_codec X) f = Inr r" .
  obtain evs' where e: "read_frame evs = (FrameRead f, evs')" "steady evs'" "stream evs' = concat fs"
    using steady_frame [OF Cons.prems(1), of p "concat fs"] Cons.prems(2) p by auto
  have "turn X C P V k f m = handle_ssh_request X C P (sv_world V k) (sv_gui V k) (sv_tx V k) r m" for m :: "'a machine"
    by (simp add: turn_def answer_frame_def p(3))
  then show ?case using Cons.IH [OF e(2,3)] by (subst serve_frames.simps) (simp add: e(1) split: option.split)
qed

lemma turn_steps:
  assumes "honest (sv_world V k)" "sound (mc_state m)" "turn X C P V k f m = Some (reply, row, m')"
  shows "steps m m'"
  using assms handle_sign_steps
  by (fastforce simp: turn_def answer_frame_def handle_ssh_request_def split: sum.splits AgentRequest.splits)

lemma serve_frames_steps:
  assumes "\<forall>k. honest (sv_world V k)"
  shows "sound (mc_state m) \<Longrightarrow> serve_frames X C P V k evs m = Some (replies, rows, ok, m') \<Longrightarrow> steps m m'"
  using assms
proof (induction X C P V k evs m arbitrary: replies rows ok m' rule: serve_frames.induct)
  case (1 X C P V k evs m)
  show ?case
  proof (cases "\<exists>f evs'. read_frame evs = (FrameRead f, evs')")
    case False
    then show ?thesis using 1(3) by (subst (asm) serve_frames.simps) (auto split: prod.splits frame_read.splits)
  next
    case True
    then obtain f evs' where f: "read_frame evs = (FrameRead f, evs')" by blast
    then obtain reply row m1 where t: "turn X C P V k f m = Some (reply, row, m1)"
      using 1(3) by (subst (asm) serve_frames.simps) (auto split: option.splits)
    have m1: "steps m m1" using turn_steps [OF _ 1(2) t] 1(4) by blast
    show ?thesis
    proof (cases "sv_written V k")
      case False
      then show ?thesis using 1(3) m1 f t by (subst (asm) serve_frames.simps) auto
    next
      case True
      then obtain rs rws where n: "serve_frames X C P V (Suc k) evs' m1 = Some (rs, rws, ok, m')"
        using 1(3) f t by (subst (asm) serve_frames.simps) auto
      have "steps m1 m'"
        using 1(1) [OF f [symmetric] refl t refl refl _ steps_sound [OF m1 1(2)] n 1(4)] True by simp
      then show ?thesis by (rule steps_trans [OF m1])
    qed
  qed
qed

lemma ssh_connection_steps:
  "\<forall>k. honest (sv_world V k) \<Longrightarrow> sound (mc_state m) \<Longrightarrow> handle_ssh_connection X C P V evs m = Some (replies, rows, ok, m') \<Longrightarrow> steps m m'"
  using serve_frames_steps by (auto simp: handle_ssh_connection_def split: if_splits)

section \<open>Properties\<close>

text \<open>
  C4. A signature leaves the agent only for a configured key and a peer whose session the kernel
  names, and then, at some moment of the request, whatever other threads did: a live grant covered
  that key for that very session; or a rule of that moment approved the request; or a user
  approved a card for that key, that session and the digest of those very bytes. The row of the
  log names the key and that decision.
\<close>

theorem signatures_are_authorised:
  assumes "started m0" "steps m0 m" "honest W"
    and "handle_sign X C P W gui tx blob data flags m = Some (reply, row, m')" "reply \<noteq> encode_failure"
  shows "\<exists>key peer anchor m1 d r. key \<in> set (cx_identities C) \<and> ky_blob key = blob \<and> pv_peer P = Some peer
    \<and> select_sign_anchor (describe_pid (pv_categories P) (pv_system P) peer) (cc_frames (peer_chain P peer)) = Some anchor
    \<and> steps m m1 \<and> steps m1 m'
    \<and> row = Some r \<and> ae_fingerprint r = Some (ky_fingerprint key) \<and> ae_decision r = decision_as_str d
    \<and> ((d = ApproveCached \<and> (\<exists>g \<in> set (st_ssh_grants (mc_state m1)).
          ssh_grant_matches g (ky_key_id key) (sa_identity anchor) (ho_unix_secs (wd_host W AtApproval))))
      \<or> (d = ApproveAuto \<and> (\<exists>hit. evaluate_rules_for_ask (mc_files m1)
            (sign_ask X key anchor (peer_chain P peer) (peer_dir P peer) data) (mc_state m1) = Some hit
          \<and> rh_decide hit = ApproveRule \<and> ae_rule_id r = Some (rh_rule_id hit)))
      \<or> (approved d \<and> (\<exists>rep. landed rep d (st_out (mc_state m1))
          \<and> dk_wrap (ask_dedupe_key rep) = ''ssh:'' @ ky_key_id key
          \<and> dk_anchor (ask_dedupe_key rep) = ProcessAnchor (sa_identity anchor)
          \<and> dk_subject_digest (ask_dedupe_key rep) = Some (sx_sha256_hex X data))))"
proof -
  have s: "sound (mc_state m)" using steps_sound [OF assms(2) started_sound [OF assms(1)]] .
  from assms(4) show ?thesis
  proof (cases rule: signing_cases)
    case (approved key peer anchor outcome m2)
    let ?chain = "peer_chain P peer" and ?dir = "peer_dir P peer"
    define r where "r = audit_sign (ho_unix_secs (wd_host W AtKey)) key ?chain anchor ?dir outcome"
    note end_ = sign_approved_steps [OF assms(3) approved(7)]
    have row: "row = Some r" using end_(2) assms(5) by (simp add: r_def)
    have r: "ae_fingerprint r = Some (ky_fingerprint key)" "ae_decision r = decision_as_str (sn_decision outcome)"
      "ae_rule_id r = sn_rule_id outcome"
      by (simp_all add: r_def audit_sign_def with_rule_id_def with_reason_def ssh_sign_entry_def)
    note found = approved(1-4) row r
    from assms(3) s approved(5) show ?thesis
    proof (cases rule: decision_cases)
      case (granted m1 g)
      have "sn_decision outcome = ApproveCached" by (simp add: granted(3) manual_def)
      then show ?thesis using found granted(1,4,5) steps_trans [OF granted(2) end_(1)]
        by (intro exI [of _ key] exI [of _ peer] exI [of _ anchor] exI [of _ m1] exI [of _ "sn_decision outcome"] exI [of _ r]) auto
    next
      case (rule m1 hit)
      then have "rh_decide hit = ApproveRule" using approved(6) by (cases "rh_decide hit") simp_all
      then show ?thesis using found rule steps_trans [OF rule(2) end_(1)]
        by (intro exI [of _ key] exI [of _ peer] exI [of _ anchor] exI [of _ m1] exI [of _ "sn_decision outcome"] exI [of _ r]) auto
    next
      case (card rep)
      then have "dk_wrap (ask_dedupe_key rep) = ''ssh:'' @ ky_key_id key" "dk_anchor (ask_dedupe_key rep) = ProcessAnchor (sa_identity anchor)"
        "dk_subject_digest (ask_dedupe_key rep) = Some (sx_sha256_hex X data)" by (simp_all add: sign_ask_def)
      then show ?thesis using found card end_(1) approved(6)
        by (intro exI [of _ key] exI [of _ peer] exI [of _ anchor] exI [of _ m2] exI [of _ "sn_decision outcome"] exI [of _ r]) auto
    qed
  qed (use assms(5) in simp_all)
qed

text \<open>
  C30. However a peer's bytes arrive, split, joined or interrupted, a connection answers the
  requests it sent, each once and in their order.
\<close>

theorem arrival_does_not_matter:
  assumes "codec_ok (sx_codec X)" "pv_same_user P = Some True" "steady evs" "stream evs = concat fs"
    and "list_all2 (sent_as (sx_codec X)) rs fs"
  shows "handle_ssh_connection X C P V evs m = serve_requests X C P V 0 rs m"
  using serve_frames_requests [OF assms(1,5,3,4)] assms(2) by (simp add: handle_ssh_connection_def)

section \<open>Witnesses\<close>

text \<open>The encoding of RFC 4251.\<close>

definition rfc_string :: "string \<Rightarrow> string option" where
  "rfc_string b = (if length b < 2 ^ 32 then Some (u32_be (length b) @ b) else None)"

definition rfc_get_string :: "string \<Rightarrow> (string \<times> string) option" where
  "rfc_get_string s = (let n = from_be (take 4 s) in
     if length s < 4 + n then None else Some (take n (drop 4 s), drop (4 + n) s))"

definition rfc_codec :: ssh_codec where
  "rfc_codec = \<lparr>sc_u32 = (\<lambda>n. u32_be (unat n)),
     sc_get_u32 = (\<lambda>s. if length s < 4 then None else Some (of_nat (from_be (take 4 s)), drop 4 s)),
     sc_bytes = rfc_string, sc_get_bytes = rfc_get_string, sc_text = rfc_string, sc_get_text = rfc_get_string\<rparr>"

lemma rfc_codec_ok: "codec_ok rfc_codec"
proof -
  have "unat n < 2 ^ 32" for n :: "32 word" using unsigned_less [of n] by simp
  then show ?thesis
    by (auto simp: codec_ok_def rfc_codec_def rfc_string_def rfc_get_string_def Let_def split: if_splits)
qed

definition toy_crates :: ssh_crates where
  "toy_crates = \<lparr>sx_codec = rfc_codec, sx_public_key = (\<lambda>_. None), sx_sign = (\<lambda>pem data flags. Some (pem @ data)),
     sx_sha256_hex = (\<lambda>d. d)\<rparr>"

definition toy_key :: PreparedIdentity where
  "toy_key = \<lparr>ky_blob = ''blob'', ky_comment = ''me'', ky_fingerprint = ''fp'', ky_key_id = ''k'',
     ky_reference = \<lparr>ref_provider = ''op'', ref_locator = ''a''\<rparr>, ky_reason = None, ky_ttl = DaemonLifetime\<rparr>"

definition toy_context :: SignContext where
  "toy_context = \<lparr>cx_identities = [toy_key], cx_providers = [], cx_wired = True\<rparr>"

definition zsh :: ProcessIdentity where
  "zsh = \<lparr>pi_pid = 5, pi_start_time = 9\<rparr>"

definition granted_state :: "unit State" where
  "granted_state = remember_ssh_grant \<lparr>sg_scope = AllKeys, sg_anchor = zsh, sg_expires_at = ho_unix_secs queue_host + 1\<rparr>
     (new_state 0 warm_memory)"

lemma shell_anchor:
  "\<exists>a. select_sign_anchor (describe_pid (pv_categories shell_peer) (pv_system shell_peer) 7) (cc_frames (peer_chain shell_peer 7)) = Some a
     \<and> sa_identity a = zsh"
proof -
  let ?p = "\<lparr>pr_name = ustr ''zsh'', pr_cmd = [], pr_exe = Some [], pr_start_time = 9, pr_parent = None\<rparr>"
  let ?c = "describe_process (pv_categories shell_peer) 5 ?p"
  have quiet: "\<not> requests_agent_forwarding (join_cmd [])"
    by (simp add: requests_agent_forwarding_def join_cmd_def)
  have other: "\<not> path_eq [] (ustr ''s'')" by (simp add: path_eq_def path_parts_def ustr_def)
  have "pv_system shell_peer 7 = Some \<lparr>pr_name = ustr ''gh'', pr_cmd = [], pr_exe = None, pr_start_time = 2, pr_parent = Some 5\<rparr>"
    "pv_system shell_peer 5 = Some ?p" "pv_exe shell_peer = Some (ustr ''s'')" by (simp_all add: shell_peer_def)
  note s = this
  have "\<not> is_self_frame ?c (Some (ustr ''s''))" by (simp add: is_self_frame_def describe_process_def other)
  then have frames: "cc_frames (peer_chain shell_peer 7) = [?c]"
    by (simp add: peer_chain_def caller_chain_from_pid_def walk_def parent_of_def s MAX_CHAIN_def MAX_WALK_def Let_def)
  have id: "caller_identity ?c = zsh" by (simp add: caller_identity_def describe_process_def zsh_def)
  have peer: "peer_forwards (describe_pid (pv_categories shell_peer) (pv_system shell_peer) 7) = None"
    by (simp add: describe_pid_def s peer_forwards_def quiet)
  obtain c where "select_anchor [?c] = Some c" using select_anchor_None [of "[?c]"] by (cases "select_anchor [?c]") auto
  then have "select_anchor [?c] = Some ?c" using select_anchor_in by fastforce
  then show ?thesis by (simp add: select_sign_anchor_def peer frames sign_anchor_of_def id)
qed

lemma toy_signed:
  "\<exists>reply r m'. handle_sign toy_crates toy_context shell_peer alone False 0 ''blob'' ''data'' 0 (machine_with granted_state) = Some (reply, Some r, m')
     \<and> reply \<noteq> encode_failure"
proof -
  let ?m = "machine_with granted_state"
  obtain anchor where a: "select_sign_anchor (describe_pid (pv_categories shell_peer) (pv_system shell_peer) 7)
      (cc_frames (peer_chain shell_peer 7)) = Some anchor" "sa_identity anchor = zsh" using shell_anchor by blast
  have granted: "has_ssh_grant_at ''k'' zsh (ho_unix_secs queue_host) granted_state = (True, granted_state)"
    by (simp add: granted_state_def remember_ssh_grant_def new_state_def has_ssh_grant_at_def ssh_grant_matches_def Let_def)
  have same: "?m\<lparr>mc_state := granted_state\<rparr> = ?m" by (simp add: machine_with_def)
  have decided: "decide_sign toy_crates alone False 0 toy_key anchor (peer_chain shell_peer 7) dir ''data'' ?m = (Some (manual ApproveCached None), ?m)" for dir
    by (simp add: decide_sign_def a(2) toy_key_def) (simp add: machine_with_def granted)
  have memory: "st_memory granted_state = warm_memory"
    by (simp add: granted_state_def remember_ssh_grant_def new_state_def)
  have key: "resolve_single_cached sample_outside \<lparr>ck_provider = ''op'', ck_locator = ''a''\<rparr> DaemonLifetime ''k'' None [] warm_memory = Some (Inr ''v'', warm_memory)"
  proof -
    have "cache_get sample_outside \<lparr>ck_provider = ''op'', ck_locator = ''a''\<rparr> warm_memory = Some ''v''" by (simp add: sample_defs)
    then show ?thesis by (simp add: resolve_single_cached_def)
  qed
  have out: "ho_outside queue_host = sample_outside" by (simp add: queue_host_def)
  let ?dir = "peer_dir shell_peer 7" and ?chain = "peer_chain shell_peer 7"
  have w: "on_state (\<lambda>st. st\<lparr>st_memory := warm_memory\<rparr>) ?m = ?m"
    using memory by (simp add: on_state_def machine_with_def)
  have signed: "sign_approved toy_crates toy_context alone toy_key anchor ?chain ?dir ''data'' 0 (manual ApproveCached None) ?m
      = Some (the (encode_sign_response rfc_codec ''vdata''), Some (audit_sign 1000 toy_key ?chain anchor ?dir (manual ApproveCached None)), ?m)"
    by (simp add: sign_approved_def remember_sign_def manual_def grant_scope_for_def resolve_and_sign_def toy_key_def toy_context_def
        toy_crates_def out machine_with_def memory key Let_def) (simp add: w [unfolded machine_with_def, simplified] queue_host_def encode_sign_response_def rfc_codec_def rfc_string_def)
  have "the (encode_sign_response rfc_codec ''vdata'') \<noteq> encode_failure"
    by (simp add: encode_sign_response_def rfc_codec_def rfc_string_def encode_failure_def frame_def ssh_types)
  moreover have "handle_sign toy_crates toy_context shell_peer alone False 0 ''blob'' ''data'' 0 ?m
      = sign_approved toy_crates toy_context alone toy_key anchor ?chain ?dir ''data'' 0 (manual ApproveCached None) ?m"
  proof -
    have "find (\<lambda>i. ky_blob i = ''blob'') (cx_identities toy_context) = Some toy_key" "cx_wired toy_context"
      by (simp_all add: toy_context_def toy_key_def)
    moreover have "pv_peer shell_peer = Some 7" by (simp add: shell_peer_def)
    moreover have "approved (sn_decision (manual ApproveCached None))" by (simp add: manual_def)
    ultimately show ?thesis by (simp add: handle_sign_def a(1) decided)
  qed
  ultimately show ?thesis using signed by auto
qed

lemma granted_start: "started (machine_with (new_state 0 warm_memory))" "steps (machine_with (new_state 0 warm_memory)) (machine_with granted_state)"
proof -
  show "started (machine_with (new_state 0 warm_memory))" by (auto simp: started_def machine_with_def)
  have "machine_with granted_state = on_state (apply_daemon_op (queue_host, GrantSsh \<lparr>sg_scope = AllKeys, sg_anchor = zsh,
      sg_expires_at = ho_unix_secs queue_host + 1\<rparr>)) (machine_with (new_state 0 warm_memory))"
    by (simp add: machine_with_def granted_state_def on_state_def)
  then show "steps (machine_with (new_state 0 warm_memory)) (machine_with granted_state)" by (metis daemon_steps)
qed

theorem signatures_are_authorised_witness:
  "\<exists>reply r m'. handle_sign toy_crates toy_context shell_peer alone False 0 ''blob'' ''data'' 0 (machine_with granted_state) = Some (reply, Some r, m')
     \<and> reply \<noteq> encode_failure \<and> ae_fingerprint r = Some ''fp''"
proof -
  obtain reply r m' where h: "handle_sign toy_crates toy_context shell_peer alone False 0 ''blob'' ''data'' 0 (machine_with granted_state) = Some (reply, Some r, m')"
    "reply \<noteq> encode_failure" using toy_signed by blast
  from signatures_are_authorised [OF granted_start alone_simps(3) h] obtain key where "key \<in> set (cx_identities toy_context)"
    "ae_fingerprint r = Some (ky_fingerprint key)" by auto
  then have "ae_fingerprint r = Some ''fp''" by (simp add: toy_context_def toy_key_def)
  with h show ?thesis by blast
qed

definition quiet_turns :: "unit ssh_turns" where
  "quiet_turns = \<lparr>sv_world = (\<lambda>_. alone), sv_gui = (\<lambda>_. False), sv_tx = (\<lambda>_. 0), sv_written = (\<lambda>_. True)\<rparr>"

text \<open>Two requests whose bytes come in three pieces that cut across both.\<close>

theorem arrival_does_not_matter_witness:
  "handle_ssh_connection toy_crates toy_context shell_peer quiet_turns
      [Arrived (take 2 encode_request_identities), Interrupted, Arrived (drop 2 encode_request_identities @ take 1 encode_request_identities),
       Arrived (drop 1 encode_request_identities)] (machine_with granted_state)
    = serve_requests toy_crates toy_context shell_peer quiet_turns 0 [RequestIdentities, RequestIdentities] (machine_with granted_state)"
proof (rule arrival_does_not_matter)
  show "codec_ok (sx_codec toy_crates)" by (simp add: toy_crates_def rfc_codec_ok)
  show "pv_same_user shell_peer = Some True" by (simp add: shell_peer_def)
  show "list_all2 (sent_as (sx_codec toy_crates)) [RequestIdentities, RequestIdentities] [encode_request_identities, encode_request_identities]"
    by (simp add: sent_as_def encode_request_identities_def MAX_AGENT_MSG_LEN_def)
  show "stream [Arrived (take 2 encode_request_identities), Interrupted, Arrived (drop 2 encode_request_identities @ take 1 encode_request_identities),
       Arrived (drop 1 encode_request_identities)] = concat [encode_request_identities, encode_request_identities]"
    by (simp add: encode_request_identities_def frame_def u32_be_def)
qed (simp add: steady_def)

end
