(* ===== verification/Scoped_Agent.thy ===== *)
theory Scoped_Agent
  imports Audit_Log Consent Proto Resolve
begin

text \<open>
  The scoped secret agent (\<open>src/packages/secreq/src/scoped_agent/mod.rs\<close> and \<open>proto.rs\<close>): what a
  sandbox may get over the socket its host opened for it. The door to the user is the record
  \<open>gate\<close>, as in the source; \<open>daemon_gate\<close> is the production one. Connections run as threads that
  share the approvals: at each \<open>place\<close> where a thread takes their mutex or writes the log, the
  world says what the clock reads and what the other threads have done, and whether the log takes a row. JSON, sockets, signals
  and the scrubbing of buffers are left out.
\<close>

section \<open>Scopes\<close>

record Scope =
  so_name :: string
  so_allow :: "reference list"

datatype scope_error = EmptyScopeName | EmptyAllowlist string

definition new_scope :: "string \<Rightarrow> reference list \<Rightarrow> scope_error + Scope" where
  "new_scope name allow =
     (if trim name = [] then Inl EmptyScopeName
      else if allow = [] then Inl (EmptyAllowlist name)
      else Inr \<lparr>so_name = name, so_allow = allow\<rparr>)"

definition scope_allows :: "Scope \<Rightarrow> reference \<Rightarrow> bool" where
  "scope_allows s r \<longleftrightarrow> r \<in> set (so_allow s)"

definition allowed_refs :: "Scope \<Rightarrow> string list" where
  "allowed_refs s = map display_ref (so_allow s)"

section \<open>What a guest claims\<close>

text \<open>The scalar values of a string, whose bytes are well-formed UTF-8 as those of a \<open>String\<close> are.\<close>

fun utf8_scalars :: "string \<Rightarrow> ustring" where
  "utf8_scalars [] = []"
| "utf8_scalars (a # s) = (let n = of_char a :: nat in
     if n < 0x80 then n # utf8_scalars s
     else (case s of
         [] \<Rightarrow> []
       | b # s1 \<Rightarrow> if n < 0xE0 then ((n - 0xC0) * 64 + (of_char b - 0x80)) # utf8_scalars s1
           else (case s1 of
               [] \<Rightarrow> []
             | c # s2 \<Rightarrow> if n < 0xF0 then ((n - 0xE0) * 4096 + (of_char b - 0x80) * 64 + (of_char c - 0x80)) # utf8_scalars s2
                 else (case s2 of
                     [] \<Rightarrow> []
                   | d # s3 \<Rightarrow> ((n - 0xF0) * 262144 + (of_char b - 0x80) * 4096 + (of_char c - 0x80) * 64
                       + (of_char d - 0x80)) # utf8_scalars s3))))"

definition MAX_GUEST_CHAIN_LINKS :: nat where "MAX_GUEST_CHAIN_LINKS = 12"

definition MAX_GUEST_CHAIN_LINK_CHARS :: nat where "MAX_GUEST_CHAIN_LINK_CHARS = 48"

definition visible_only :: "categories \<Rightarrow> ustring \<Rightarrow> ustring" where
  "visible_only gc s = filter (\<lambda>c. \<not> is_invisible_or_reordering gc c) s"

definition trim_spaces :: "ustring \<Rightarrow> ustring" where
  "trim_spaces s = pop_while is_whitespace (dropWhile is_whitespace s)"

definition sanitize_link :: "categories \<Rightarrow> ustring \<Rightarrow> ustring" where
  "sanitize_link gc link =
     pop_while is_whitespace (fst (truncate_at_cluster_edge gc (trim_spaces (visible_only gc link)) MAX_GUEST_CHAIN_LINK_CHARS))"

type_synonym GuestChain = "ustring option"

text \<open>Links are joined by a space, U+2192 and a space; U+2026 closes a chain that lost some.\<close>

definition new_guest_chain :: "categories \<Rightarrow> ustring list \<Rightarrow> GuestChain" where
  "new_guest_chain gc claimed =
     (let links = take MAX_GUEST_CHAIN_LINKS (filter (\<lambda>l. l \<noteq> []) (map (sanitize_link gc) claimed))
      in if links = [] then None
         else (let links = (if length claimed > length links then links @ [[0x2026]] else links)
               in Some (join_with [32, 0x2192, 32] links)))"

definition MAX_REF_DISPLAY_CHARS :: nat where "MAX_REF_DISPLAY_CHARS = 200"

definition shown_ref :: "categories \<Rightarrow> reference \<Rightarrow> string" where
  "shown_ref gc r =
     (let (rendered, truncated) = truncate_at_cluster_edge gc (visible_only gc (utf8_scalars (display_ref r))) MAX_REF_DISPLAY_CHARS
      in if truncated then utf8 (rendered @ [0x2026]) @ '' (truncated)'' else utf8 rendered)"

section \<open>The gate\<close>

record Consented =
  cs_decision :: Decision
  cs_reason :: "string option"
  cs_declared_by :: ScopeDeclarant

text \<open>\<open>None\<close> of \<open>gt_consent\<close> is a consent machinery that could not be reached.\<close>

record gate =
  gt_consent :: "Scope \<Rightarrow> reference \<Rightarrow> GuestChain \<Rightarrow> Consented option"
  gt_resolve :: "Scope \<Rightarrow> reference \<Rightarrow> string option"

definition agent_ask :: "nat \<Rightarrow> Scope \<Rightarrow> reference \<Rightarrow> GuestChain \<Rightarrow> Ask" where
  "agent_ask pid s r chain = \<lparr>
     ask_command = [''agent-resolve '' @ display_ref r],
     ask_dedupe_key = \<lparr>dk_wrap = ''agent:'' @ so_name s @ '':'' @ display_ref r, dk_anchor = AgentSocketAnchor pid,
       dk_subject_digest = None\<rparr>,
     ask_subject = ScopedAgent \<lparr>ai_scope = so_name s, ai_reference = display_ref r,
       ai_guest_chain = map_option utf8 chain, ai_declared_by = None\<rparr>\<rparr>"

definition fresh_plan :: "reference \<Rightarrow> ResolutionPlan" where
  "fresh_plan r = [\<lparr>sr_name = display_ref r, sr_provider = ref_provider r, sr_locator = ref_locator r,
     sr_reason = None, sr_description = None, sr_default = None, sr_declared_as = None\<rparr>]"

definition resolve_fresh :: "runner \<Rightarrow> Manifest \<Rightarrow> reference \<Rightarrow> string option" where
  "resolve_fresh run mf r = (case resolve_all run mf (fresh_plan r) of
      Inl _ \<Rightarrow> None
    | Inr (rows, _) \<Rightarrow> if rows = [] then None else Some (rs_value (last rows)))"

text \<open>\<open>request\<close> is the round trip to the daemon: the decision, its reason and its declarant.\<close>

definition daemon_gate ::
  "(Ask \<Rightarrow> (Decision \<times> string option \<times> ScopeDeclarant) option) \<Rightarrow> runner \<Rightarrow> (string, Provider) btmap \<Rightarrow> nat \<Rightarrow> gate" where
  "daemon_gate request run provs pid = \<lparr>
     gt_consent = (\<lambda>s r chain. map_option (\<lambda>(d, why, by). \<lparr>cs_decision = d, cs_reason = why, cs_declared_by = by\<rparr>)
       (request (agent_ask pid s r chain))),
     gt_resolve = (\<lambda>s r. resolve_fresh run \<lparr>mf_providers = provs\<rparr> r)\<rparr>"

section \<open>The approvals of a scope\<close>

definition SCOPE_GRANT_TTL_SECS :: nat where "SCOPE_GRANT_TTL_SECS = 300"

text \<open>What happened so far: the rows the log took and those it did not, who was asked, what was let
  through.\<close>

datatype agent_event =
    Row AuditEntry
  | RowLost AuditEntry
  | Asked Scope reference "Consented option"
  | Remembered string nat
  | Released reference string

record agent =
  ag_grants :: "AgentGrant list"
  ag_log :: "agent_event list"

definition new_agent :: agent where
  "new_agent = \<lparr>ag_grants = [], ag_log = []\<rparr>"

definition note_event :: "agent_event \<Rightarrow> agent \<Rightarrow> agent" where
  "note_event e a = a\<lparr>ag_log := ag_log a @ [e]\<rparr>"

definition granted :: "nat \<Rightarrow> Scope \<Rightarrow> reference \<Rightarrow> agent \<Rightarrow> bool \<times> agent" where
  "granted now s r a =
     (let grants = filter (\<lambda>g. now < ag_expires_at g) (ag_grants a)
      in (list_ex (\<lambda>g. agent_grant_matches g (so_name s) (display_ref r) now) grants, a\<lparr>ag_grants := grants\<rparr>))"

definition remember_ref :: "nat \<Rightarrow> Scope \<Rightarrow> reference \<Rightarrow> agent \<Rightarrow> agent" where
  "remember_ref now s r a =
     (let expires_at = min (now + SCOPE_GRANT_TTL_SECS) (2 ^ 64 - 1);
          grants = filter (\<lambda>g. \<not> (aa_scope (ag_anchor g) = so_name s \<and> ag_reference g = display_ref r)) (ag_grants a)
      in note_event (Remembered (display_ref r) now)
           (a\<lparr>ag_grants := grants @ [\<lparr>ag_anchor = \<lparr>aa_scope = so_name s\<rparr>, ag_reference = display_ref r, ag_expires_at = expires_at\<rparr>]\<rparr>))"

section \<open>Requests\<close>

datatype Request = ResolveRef string "string list" | ListRefs

datatype Response = SecretValue string | Denied string | Refs "string list" | ErrorResponse string

datatype place = AtGranted | AtAnswer | AtRemember | AtRow

record agent_world =
  aw_now :: "place \<Rightarrow> nat"
  aw_others :: "place \<Rightarrow> agent \<Rightarrow> agent"
  aw_categories :: categories
  aw_append :: "AuditEntry \<Rightarrow> bool"

text \<open>\<open>audit::append\<close>: a row that cannot be written is only logged, and the request goes on.\<close>

definition append_row :: "agent_world \<Rightarrow> AuditEntry \<Rightarrow> agent \<Rightarrow> agent" where
  "append_row W e a = note_event (if aw_append W e then Row e else RowLost e) a"

definition audit_release ::
  "agent_world \<Rightarrow> Scope \<Rightarrow> reference \<Rightarrow> Decision \<Rightarrow> string option \<Rightarrow> GuestChain \<Rightarrow> ScopeDeclarant \<Rightarrow> agent \<Rightarrow> agent" where
  "audit_release W s r d reason chain by a =
     append_row W (with_reason reason (agent_resolve_entry (aw_now W AtRow) (so_name s) (shown_ref (aw_categories W) r) d
       (map_option utf8 chain) by)) (aw_others W AtRow a)"

definition release :: "agent_world \<Rightarrow> gate \<Rightarrow> Scope \<Rightarrow> reference \<Rightarrow> GuestChain \<Rightarrow> Consented \<Rightarrow> agent \<Rightarrow> Response \<times> agent" where
  "release W G s r chain c a =
     (let a = (if cs_decision c = ApproveAgentSession
               then remember_ref (aw_now W AtRemember) s r (aw_others W AtRemember a) else a)
      in case gt_resolve G s r of
           Some v \<Rightarrow> (SecretValue v, note_event (Released r v)
             (audit_release W s r (cs_decision c) None chain (cs_declared_by c) a))
         | None \<Rightarrow> (ErrorResponse ''the host could not resolve this reference'', a))"

definition decided :: "agent_world \<Rightarrow> gate \<Rightarrow> Scope \<Rightarrow> reference \<Rightarrow> GuestChain \<Rightarrow> Consented option \<Rightarrow> agent \<Rightarrow> Response \<times> agent" where
  "decided W G s r chain consented a = (case consented of
      None \<Rightarrow> (ErrorResponse ''the host could not answer this request'', a)
    | Some c \<Rightarrow>
        if approved (cs_decision c) then release W G s r chain c a
        else (Denied ''denied'', audit_release W s r (cs_decision c) (cs_reason c) chain (cs_declared_by c) a))"

definition resolve_scoped :: "agent_world \<Rightarrow> gate \<Rightarrow> Scope \<Rightarrow> reference \<Rightarrow> GuestChain \<Rightarrow> agent \<Rightarrow> Response \<times> agent" where
  "resolve_scoped W G s r chain a =
     (if \<not> scope_allows s r
      then (Denied ''reference is outside this socket's declared scope'',
        audit_release W s r DenyOutOfScope None chain NotRead a)
      else (let (hit, a) = granted (aw_now W AtGranted) s r (aw_others W AtGranted a)
        in if hit then decided W G s r chain (Some \<lparr>cs_decision = ApproveCached, cs_reason = None, cs_declared_by = NotRead\<rparr>) a
           else (let c = gt_consent G s r chain
             in decided W G s r chain c (note_event (Asked s r c) (aw_others W AtAnswer a)))))"

definition handle_agent_request :: "agent_world \<Rightarrow> gate \<Rightarrow> Scope \<Rightarrow> Request \<Rightarrow> agent \<Rightarrow> Response \<times> agent" where
  "handle_agent_request W G s request a = (case request of
      ListRefs \<Rightarrow> (Refs (allowed_refs s), a)
    | ResolveRef raw claimed \<Rightarrow>
        (let chain = new_guest_chain (aw_categories W) (map utf8_scalars claimed) in
         case parse raw of
           None \<Rightarrow> (ErrorResponse ''not a well-formed secret://provider/locator reference (a declared secret's name is host-side only)'', a)
         | Some r \<Rightarrow> resolve_scoped W G s r chain a))"

end
