(* ===== verification/Scoped_Properties.thy ===== *)
theory Scoped_Properties
  imports Scoped_Agent
begin

text \<open>
  What a sandbox can get out of the scoped agent. Any number of connections answer requests at
  once; each is a sequence of the atomic steps \<open>agent_step\<close>, and every claim holds beside any
  other such steps.
\<close>

section \<open>Atomic steps\<close>

text \<open>The rows a handler of this scope can write.\<close>

definition row_of_scope :: "Scope \<Rightarrow> AuditEntry \<Rightarrow> bool" where
  "row_of_scope s e \<longleftrightarrow> (\<exists>now gc r d claimed by why. e = with_reason why (agent_resolve_entry now (so_name s)
     (shown_ref gc r) d (map_option utf8 (new_guest_chain gc claimed)) by))"

inductive agent_step :: "Scope \<Rightarrow> agent \<Rightarrow> agent \<Rightarrow> bool" for s where
  Prune: "agent_step s a (snd (granted now s r a))"
| Put: "wf_ref r \<Longrightarrow> scope_allows s r \<Longrightarrow> agent_step s a (note_event (Asked s r c) a)"
| Keep: "wf_ref r \<Longrightarrow> Asked s r (Some c) \<in> set (ag_log a) \<Longrightarrow> cs_decision c = ApproveAgentSession
    \<Longrightarrow> agent_step s a (remember_ref now s r a)"
| Write: "row_of_scope s e \<Longrightarrow> agent_step s a (append_row W e a)"
| Hand: "agent_step s a (note_event (Released r v) a)"

abbreviation agent_steps :: "Scope \<Rightarrow> agent \<Rightarrow> agent \<Rightarrow> bool" where
  "agent_steps s \<equiv> (agent_step s)\<^sup>*\<^sup>*"

definition honest_agents :: "Scope \<Rightarrow> agent_world \<Rightarrow> bool" where
  "honest_agents s W \<longleftrightarrow> (\<forall>p a. agent_steps s a (aw_others W p a))"

lemma agent_steps_trans: "agent_steps s a b \<Longrightarrow> agent_steps s b c \<Longrightarrow> agent_steps s a c"
  by (rule rtranclp_trans)

lemma others_steps: "honest_agents s W \<Longrightarrow> agent_steps s a b \<Longrightarrow> agent_steps s a (aw_others W p b)"
  unfolding honest_agents_def by (blast intro: rtranclp_trans)

lemma note_event_simps [simp]:
  "ag_log (note_event e a) = ag_log a @ [e]" "ag_grants (note_event e a) = ag_grants a"
  by (simp_all add: note_event_def)

lemma append_row_log: "ag_log (append_row W e a) = ag_log a @ [if aw_append W e then Row e else RowLost e]"
  "ag_grants (append_row W e a) = ag_grants a"
  by (simp_all add: append_row_def)

lemma step_log: "agent_step s a b \<Longrightarrow> \<exists>es. ag_log b = ag_log a @ es"
  by (induction rule: agent_step.induct) (auto simp: granted_def remember_ref_def append_row_log Let_def)

lemma steps_log: "agent_steps s a b \<Longrightarrow> \<exists>es. ag_log b = ag_log a @ es"
proof (induction rule: rtranclp_induct)
  case (step b c)
  then show ?case using step_log by fastforce
qed simp

lemma steps_log_mono: "agent_steps s a b \<Longrightarrow> e \<in> set (ag_log a) \<Longrightarrow> e \<in> set (ag_log b)"
  using steps_log by fastforce

text \<open>A chain that passed through \<open>GuestChain::new\<close>, as every chain past \<open>handle_request\<close> has.\<close>

definition vetted_chain :: "agent_world \<Rightarrow> GuestChain \<Rightarrow> bool" where
  "vetted_chain W chain \<longleftrightarrow> (\<exists>claimed. chain = new_guest_chain (aw_categories W) claimed)"

lemma audit_release_steps:
  assumes "honest_agents s W" "vetted_chain W chain" "agent_steps s a b"
  shows "agent_steps s a (audit_release W s r d why chain by b)"
  unfolding audit_release_def
  by (rule rtranclp.rtrancl_into_rtrancl [OF others_steps [OF assms(1,3)] Write])
    (use assms(2) in \<open>unfold row_of_scope_def vetted_chain_def, blast\<close>)

lemma release_steps:
  assumes W: "honest_agents s W" and ch: "vetted_chain W chain" and r: "wf_ref r"
    and asked: "cs_decision c = ApproveAgentSession \<Longrightarrow> Asked s r (Some c) \<in> set (ag_log a)"
  shows "agent_steps s a (snd (release W G s r chain c a))"
proof -
  define b where "b = (if cs_decision c = ApproveAgentSession
    then remember_ref (aw_now W AtRemember) s r (aw_others W AtRemember a) else a)"
  have b: "agent_steps s a b"
  proof (cases "cs_decision c = ApproveAgentSession")
    case True
    have o: "agent_steps s a (aw_others W AtRemember a)" by (rule others_steps [OF W]) simp
    have "agent_step s (aw_others W AtRemember a) b"
      unfolding b_def using True by (auto intro!: Keep r steps_log_mono [OF o] asked)
    with o show ?thesis by (rule rtranclp.rtrancl_into_rtrancl)
  qed (simp add: b_def)
  show ?thesis
    unfolding release_def Let_def b_def [symmetric]
    by (auto split: option.splits intro!: b rtranclp.rtrancl_into_rtrancl [OF audit_release_steps [OF W ch b] Hand])
qed

lemma decided_steps:
  assumes W: "honest_agents s W" and ch: "vetted_chain W chain" and r: "wf_ref r"
    and asked: "\<And>c. got = Some c \<Longrightarrow> cs_decision c = ApproveAgentSession \<Longrightarrow> Asked s r (Some c) \<in> set (ag_log a)"
  shows "agent_steps s a (snd (decided W G s r chain got a))"
  using audit_release_steps [OF W ch rtranclp.rtrancl_refl] release_steps [OF W ch r] asked
  by (auto simp: decided_def split: option.splits)

lemma granted_steps: "agent_steps s a b \<Longrightarrow> agent_steps s a (snd (granted now s r b))"
  by (erule rtranclp.rtrancl_into_rtrancl) (rule Prune)

lemma resolve_scoped_steps:
  assumes W: "honest_agents s W" and ch: "vetted_chain W chain" and r: "wf_ref r"
  shows "agent_steps s a (snd (resolve_scoped W G s r chain a))"
proof (cases "scope_allows s r")
  case False
  then show ?thesis by (simp add: resolve_scoped_def audit_release_steps [OF W ch])
next
  case True
  define o1 where "o1 = aw_others W AtGranted a"
  have o1: "agent_steps s a o1" unfolding o1_def by (rule others_steps [OF W]) simp
  obtain hit b where g: "granted (aw_now W AtGranted) s r o1 = (hit, b)" by force
  then have b: "agent_steps s a b" using granted_steps [OF o1, of "aw_now W AtGranted" r] by simp
  define d where "d = note_event (Asked s r (gt_consent G s r chain)) (aw_others W AtAnswer b)"
  have d: "agent_steps s a d"
    unfolding d_def by (rule rtranclp.rtrancl_into_rtrancl [OF others_steps [OF W b] Put [OF r True]])
  show ?thesis
  proof (cases hit)
    case True
    have "agent_steps s b (snd (decided W G s r chain
        (Some \<lparr>cs_decision = ApproveCached, cs_reason = None, cs_declared_by = NotRead\<rparr>) b))"
      by (rule decided_steps [OF W ch r]) auto
    then show ?thesis
      using agent_steps_trans [OF b] True \<open>scope_allows s r\<close> g o1_def by (simp add: resolve_scoped_def)
  next
    case False
    have "agent_steps s d (snd (decided W G s r chain (gt_consent G s r chain) d))"
      by (rule decided_steps [OF W ch r]) (simp add: d_def)
    then show ?thesis
      using agent_steps_trans [OF d] False \<open>scope_allows s r\<close> g o1_def d_def by (simp add: resolve_scoped_def Let_def)
  qed
qed

lemma agent_request_steps:
  assumes "honest_agents s W"
  shows "agent_steps s a (snd (handle_agent_request W G s request a))"
proof (cases request)
  case (ResolveRef raw claimed)
  have "vetted_chain W (new_guest_chain (aw_categories W) (map utf8_scalars claimed))"
    unfolding vetted_chain_def by blast
  from resolve_scoped_steps [OF assms this] show ?thesis
    by (auto simp: ResolveRef handle_agent_request_def parse_iff split: option.splits)
qed (simp add: handle_agent_request_def)

section \<open>Where a grant comes from\<close>

text \<open>A remembered approval, after an answer that asked to remember it.\<close>

definition earned :: "Scope \<Rightarrow> agent_event list \<Rightarrow> reference \<Rightarrow> nat \<Rightarrow> bool" where
  "earned s log r t \<longleftrightarrow> (\<exists>xs ys c. log = xs @ Remembered (display_ref r) t # ys \<and> Asked s r (Some c) \<in> set xs \<and>
     cs_decision c = ApproveAgentSession)"

lemma earned_mono: "earned s log r t \<Longrightarrow> earned s (log @ es) r t"
  unfolding earned_def by fastforce

definition grant_earned :: "Scope \<Rightarrow> agent_event list \<Rightarrow> AgentGrant \<Rightarrow> bool" where
  "grant_earned s log g \<longleftrightarrow> (\<exists>r t. wf_ref r \<and> ag_reference g = display_ref r \<and>
     ag_expires_at g \<le> t + SCOPE_GRANT_TTL_SECS \<and> earned s log r t)"

definition grants_earned :: "Scope \<Rightarrow> agent \<Rightarrow> bool" where
  "grants_earned s a \<longleftrightarrow> (\<forall>g \<in> set (ag_grants a). grant_earned s (ag_log a) g)"

lemma grants_earned_new [simp]: "grants_earned s new_agent"
  by (simp add: grants_earned_def new_agent_def)

lemma grant_earned_mono: "grant_earned s log g \<Longrightarrow> grant_earned s (log @ es) g"
  unfolding grant_earned_def by (blast intro: earned_mono)

lemma grants_earned_grow:
  assumes "grants_earned s a" "ag_log b = ag_log a @ es"
    and "\<And>g. g \<in> set (ag_grants b) \<Longrightarrow> g \<in> set (ag_grants a) \<or> grant_earned s (ag_log b) g"
  shows "grants_earned s b"
  using assms grant_earned_mono unfolding grants_earned_def by metis

lemma kept_grant_earned:
  assumes "wf_ref r" "Asked s r (Some c) \<in> set (ag_log a)" "cs_decision c = ApproveAgentSession"
    and g: "g \<in> set (ag_grants (remember_ref now s r a))" "g \<notin> set (ag_grants a)"
  shows "grant_earned s (ag_log (remember_ref now s r a)) g"
proof -
  have "earned s (ag_log (remember_ref now s r a)) r now"
    unfolding earned_def remember_ref_def Let_def
    using assms(2,3) by (intro exI [of _ "ag_log a"] exI [of _ "[]"] exI [of _ c]) simp
  moreover have "ag_reference g = display_ref r" "ag_expires_at g \<le> now + SCOPE_GRANT_TTL_SECS"
    using g by (auto simp: remember_ref_def Let_def)
  ultimately show ?thesis unfolding grant_earned_def using assms(1) by blast
qed

lemma grants_earned_step:
  assumes "agent_step s a b" "grants_earned s a"
  shows "grants_earned s b"
  using assms(1)
proof (cases rule: agent_step.cases)
  case (Keep r c now)
  show ?thesis
    by (rule grants_earned_grow [OF assms(2), of _ "[Remembered (display_ref r) now]"])
      (use kept_grant_earned [OF Keep(2-4)] in \<open>auto simp: Keep(1) remember_ref_def Let_def\<close>)
qed (auto intro!: grants_earned_grow [OF assms(2)] simp: granted_def append_row_log Let_def)

lemma grants_earned_steps: "agent_steps s a b \<Longrightarrow> grants_earned s a \<Longrightarrow> grants_earned s b"
  by (induction rule: rtranclp_induct) (auto intro: grants_earned_step)

lemma hit_earned:
  assumes "grants_earned s a" "granted now s r a = (True, b)" "wf_ref r"
  shows "\<exists>t. earned s (ag_log a) r t \<and> now < t + SCOPE_GRANT_TTL_SECS"
proof -
  obtain g where g: "g \<in> set (ag_grants a)" "agent_grant_matches g (so_name s) (display_ref r) now"
    using assms(2) by (auto simp: granted_def Let_def list_ex_iff)
  obtain r' t where r': "wf_ref r'" "ag_reference g = display_ref r'" "ag_expires_at g \<le> t + SCOPE_GRANT_TTL_SECS"
      "earned s (ag_log a) r' t"
    using assms(1) g(1) unfolding grants_earned_def grant_earned_def by blast
  have "r' = r" by (rule display_inj) (use g(2) r' assms(3) in \<open>simp_all add: agent_grant_matches_def\<close>)
  with r' g(2) show ?thesis by (intro exI [of _ t]) (simp add: agent_grant_matches_def)
qed

section \<open>How long a row can get\<close>

lemma length_utf8_char: "length (utf8_char n) \<le> 4"
  by (simp add: utf8_char_def)

lemma length_utf8: "length (utf8 s) \<le> 4 * length s"
proof (induction s)
  case (Cons c s)
  then show ?case using length_utf8_char [of c] by (simp add: utf8_def)
qed (simp add: utf8_def)

lemma length_truncate: "truncate_at_cluster_edge gc s n = (out, t) \<Longrightarrow> length out \<le> n"
  using truncate_at_cluster_edge_spec by blast

lemma length_shown_ref: "length (shown_ref gc r) \<le> 4 * (MAX_REF_DISPLAY_CHARS + 1) + 12"
proof -
  obtain out t where o: "truncate_at_cluster_edge gc (visible_only gc (utf8_scalars (display_ref r))) MAX_REF_DISPLAY_CHARS = (out, t)"
    by force
  show ?thesis
    using length_truncate [OF o] length_utf8 [of out] length_utf8 [of "out @ [0x2026]"]
    by (auto simp: shown_ref_def o)
qed

lemma length_pop_while: "length (pop_while p xs) \<le> length xs"
  using length_dropWhile_le [of p "rev xs"] by (simp add: pop_while_def)

lemma length_sanitize_link: "length (sanitize_link gc l) \<le> MAX_GUEST_CHAIN_LINK_CHARS"
  using length_truncate [OF surjective_pairing] length_pop_while le_trans
  unfolding sanitize_link_def by blast

lemma length_join_with:
  "(\<And>x. x \<in> set xs \<Longrightarrow> length x \<le> n) \<Longrightarrow> length (join_with sep xs) \<le> length xs * (n + length sep)"
proof (induction sep xs rule: join_with.induct)
  case (3 sep x y xs)
  have "length (join_with sep (y # xs)) \<le> length (y # xs) * (n + length sep)" by (rule 3) (use "3.prems" in auto)
  moreover have "length x \<le> n" using "3.prems" by simp
  ultimately show ?case by simp
qed simp_all

definition MAX_GUEST_CHAIN_CHARS :: nat where
  "MAX_GUEST_CHAIN_CHARS = (MAX_GUEST_CHAIN_LINKS + 1) * (MAX_GUEST_CHAIN_LINK_CHARS + 3)"

lemma length_guest_chain:
  assumes "new_guest_chain gc claimed = Some c"
  shows "length c \<le> MAX_GUEST_CHAIN_CHARS"
proof -
  define links where "links = take MAX_GUEST_CHAIN_LINKS (filter (\<lambda>l. l \<noteq> []) (map (sanitize_link gc) claimed))"
  define all where "all = (if length claimed > length links then links @ [[0x2026]] else links)"
  have c: "c = join_with [32, 0x2192, 32] all"
    using assms unfolding new_guest_chain_def Let_def links_def [symmetric] all_def [symmetric]
    by (auto split: if_splits)
  have "set links \<subseteq> sanitize_link gc ` set claimed"
    unfolding links_def by (auto dest: in_set_takeD)
  then have "x \<in> set all \<Longrightarrow> length x \<le> MAX_GUEST_CHAIN_LINK_CHARS" for x
    using length_sanitize_link [of gc] unfolding all_def
    by (auto split: if_splits simp: MAX_GUEST_CHAIN_LINK_CHARS_def)
  from length_join_with [of all, OF this, of "[32, 0x2192, 32]"]
  have "length c \<le> length all * (MAX_GUEST_CHAIN_LINK_CHARS + 3)" by (simp add: c algebra_simps)
  also have "length all \<le> MAX_GUEST_CHAIN_LINKS + 1" by (auto simp: all_def links_def)
  finally show ?thesis by (simp add: MAX_GUEST_CHAIN_CHARS_def)
qed

definition bounded_row :: "AuditEntry \<Rightarrow> bool" where
  "bounded_row e \<longleftrightarrow> ae_args e = [] \<and> ae_callers e = [] \<and> ae_command e = None \<and>
     (\<exists>x. ae_secrets e = [x] \<and> length x \<le> 816) \<and>
     (\<forall>c. ae_unverified_guest_chain e = Some c \<longrightarrow> length c \<le> 2652)"

lemma row_of_scope_bounded: "row_of_scope s e \<Longrightarrow> bounded_row e"
proof -
  assume "row_of_scope s e"
  then obtain now gc r d claimed byd why where e: "e = with_reason why (agent_resolve_entry now (so_name s)
     (shown_ref gc r) d (map_option utf8 (new_guest_chain gc claimed)) byd)"
    unfolding row_of_scope_def by blast
  have "length (utf8 c) \<le> 2652" if "new_guest_chain gc claimed = Some c" for c
    using length_guest_chain [OF that] length_utf8 [of c]
    by (simp add: MAX_GUEST_CHAIN_CHARS_def MAX_GUEST_CHAIN_LINKS_def MAX_GUEST_CHAIN_LINK_CHARS_def)
  then show ?thesis
    using length_shown_ref [of gc r]
    by (auto simp: e bounded_row_def with_reason_def agent_resolve_entry_def MAX_REF_DISPLAY_CHARS_def)
qed

lemma rows_of_scope:
  "agent_steps s a b \<Longrightarrow> (\<And>e. Row e \<in> set (ag_log a) \<Longrightarrow> row_of_scope s e)
    \<Longrightarrow> Row e \<in> set (ag_log b) \<Longrightarrow> row_of_scope s e"
proof (induction arbitrary: e rule: rtranclp_induct)
  case (step b c)
  from step(2) show ?case
    using step.IH [OF step.prems(1)] step.prems(2)
    by (cases rule: agent_step.cases) (auto simp: granted_def remember_ref_def append_row_log Let_def split: if_splits)
qed

section \<open>What a claim can change\<close>

text \<open>Other threads whose effect on the approvals does not depend on the log.\<close>

definition log_blind :: "agent_world \<Rightarrow> bool" where
  "log_blind W \<longleftrightarrow> (\<forall>p a b. ag_grants a = ag_grants b \<longrightarrow> ag_grants (aw_others W p a) = ag_grants (aw_others W p b))"

text \<open>Two outcomes alike in all but the log.\<close>

definition alike :: "Response \<times> agent \<Rightarrow> Response \<times> agent \<Rightarrow> bool" where
  "alike x y \<longleftrightarrow> fst x = fst y \<and> ag_grants (snd x) = ag_grants (snd y)"

lemma log_blindD: "log_blind W \<Longrightarrow> ag_grants a = ag_grants b \<Longrightarrow> ag_grants (aw_others W p a) = ag_grants (aw_others W p b)"
  unfolding log_blind_def by blast

lemma remember_grants_cong:
  "ag_grants a = ag_grants b \<Longrightarrow> ag_grants (remember_ref now s r a) = ag_grants (remember_ref now s r b)"
  by (simp add: remember_ref_def Let_def)

lemma audit_release_grants:
  assumes "log_blind W" "ag_grants a = ag_grants b"
  shows "ag_grants (audit_release W s r d why ch1 by a) = ag_grants (audit_release W s r d why ch2 by b)"
  by (simp add: audit_release_def append_row_log log_blindD [OF assms])

lemma release_alike:
  assumes W: "log_blind W" and eq: "ag_grants a = ag_grants b"
  shows "alike (release W G s r ch1 c a) (release W G s r ch2 c b)"
proof -
  define kept where "kept x = (if cs_decision c = ApproveAgentSession
    then remember_ref (aw_now W AtRemember) s r (aw_others W AtRemember x) else x)" for x
  have "ag_grants (kept a) = ag_grants (kept b)"
    using eq by (simp add: kept_def remember_grants_cong [OF log_blindD [OF W eq]])
  then show ?thesis
    unfolding release_def kept_def [symmetric] Let_def alike_def
    by (simp add: audit_release_grants [OF W] split: option.split)
qed

lemma decided_alike:
  assumes W: "log_blind W" and eq: "ag_grants a = ag_grants b"
  shows "alike (decided W G s r ch1 c a) (decided W G s r ch2 c b)"
proof (cases c)
  case None
  then show ?thesis by (simp add: decided_def alike_def eq)
next
  case (Some d)
  show ?thesis
  proof (cases "approved (cs_decision d)")
    case True
    then show ?thesis by (simp add: decided_def Some release_alike [OF W eq])
  next
    case False
    then show ?thesis by (simp add: decided_def Some alike_def audit_release_grants [OF W eq])
  qed
qed

lemma resolve_scoped_alike:
  assumes W: "log_blind W" and gate: "gt_consent G s r ch1 = gt_consent G s r ch2"
  shows "alike (resolve_scoped W G s r ch1 a) (resolve_scoped W G s r ch2 a)"
proof -
  obtain hit b where g: "granted (aw_now W AtGranted) s r (aw_others W AtGranted a) = (hit, b)" by force
  show ?thesis
  proof (cases "scope_allows s r")
    case False
    then show ?thesis by (simp add: resolve_scoped_def alike_def audit_release_grants [OF W])
  next
    case True
    then show ?thesis
      by (simp add: resolve_scoped_def g gate decided_alike [OF W] Let_def)
  qed
qed

section \<open>Properties\<close>

text \<open>C5. A guest gets the value of a reference only from a request of this allowlist, and then
  the host's approval covers it: the answer the gate gave to the question this request put, with
  what its guest claims, or one that a user gave to be remembered for this reference less than five
  minutes ago. A row with that decision was handed to the log just before the value leaves, and
  whether the log took it or not changes nothing else. Other connections may do anything the code
  does meanwhile.\<close>

theorem guests_get_only_what_was_consented:
  assumes "agent_steps s new_agent a" "honest_agents s W"
    and "handle_agent_request W G s request a = (SecretValue v, b)"
  shows "\<exists>r claimed d. request = ResolveRef (display_ref r) claimed \<and> scope_allows s r \<and> approved d
    \<and> gt_resolve G s r = Some v
    \<and> (\<exists>log e. ag_log b = log @ [if aw_append W e then Row e else RowLost e, Released r v]
        \<and> ae_decision e = decision_as_str d)
    \<and> ((\<exists>c. gt_consent G s r (new_guest_chain (aw_categories W) (map utf8_scalars claimed)) = Some c
          \<and> cs_decision c = d \<and> Asked s r (Some c) \<in> set (ag_log b))
      \<or> (d = ApproveCached \<and> (\<exists>t. earned s (ag_log b) r t \<and> aw_now W AtGranted < t + SCOPE_GRANT_TTL_SECS)))"
proof -
  obtain raw claimed where req: "request = ResolveRef raw claimed"
    using assms(3) by (cases request) (auto simp: handle_agent_request_def)
  define chain where "chain = new_guest_chain (aw_categories W) (map utf8_scalars claimed)"
  have vc: "vetted_chain W chain" unfolding vetted_chain_def chain_def by blast
  obtain r where r: "wf_ref r" "raw = display_ref r" "resolve_scoped W G s r chain a = (SecretValue v, b)"
    using assms(3) by (auto simp: req handle_agent_request_def chain_def parse_iff split: option.splits)
  have allowed: "scope_allows s r"
    using r(3) by (auto simp: resolve_scoped_def split: if_splits)
  define o1 where "o1 = aw_others W AtGranted a"
  have o1: "agent_steps s a o1" unfolding o1_def by (rule others_steps [OF assms(2)]) simp
  obtain hit g where hit: "granted (aw_now W AtGranted) s r o1 = (hit, g)" by force
  define c where "c = (if hit then Some \<lparr>cs_decision = ApproveCached, cs_reason = None, cs_declared_by = NotRead\<rparr>
    else gt_consent G s r chain)"
  define d where "d = (if hit then g else note_event (Asked s r c) (aw_others W AtAnswer g))"
  have dec: "decided W G s r chain c d = (SecretValue v, b)"
    using r(3) allowed hit unfolding o1_def c_def d_def by (auto simp: resolve_scoped_def Let_def split: if_splits)
  then obtain k where k: "c = Some k" "approved (cs_decision k)" "release W G s r chain k d = (SecretValue v, b)"
    by (auto simp: decided_def split: option.splits if_splits)
  have v: "gt_resolve G s r = Some v"
    using k(3) by (auto simp: release_def Let_def split: option.splits)
  have row: "\<exists>log e. ag_log b = log @ [if aw_append W e then Row e else RowLost e, Released r v]
      \<and> ae_decision e = decision_as_str (cs_decision k)"
  proof (intro exI conjI)
    define e where "e = with_reason None (agent_resolve_entry (aw_now W AtRow) (so_name s) (shown_ref (aw_categories W) r)
      (cs_decision k) (map_option utf8 chain) (cs_declared_by k))"
    show "ag_log b = ag_log (aw_others W AtRow (if cs_decision k = ApproveAgentSession
        then remember_ref (aw_now W AtRemember) s r (aw_others W AtRemember d) else d))
      @ [if aw_append W e then Row e else RowLost e, Released r v]"
      using k(3) v by (auto simp: release_def Let_def audit_release_def append_row_log e_def)
    show "ae_decision e = decision_as_str (cs_decision k)"
      by (simp add: e_def with_reason_def agent_resolve_entry_def)
  qed
  have db: "agent_steps s d b"
    using decided_steps [OF assms(2) vc r(1), of c d G] dec by (cases hit) (auto simp: c_def d_def)
  have "(\<exists>c. gt_consent G s r chain = Some c \<and> cs_decision c = cs_decision k \<and> Asked s r (Some c) \<in> set (ag_log b))
      \<or> (cs_decision k = ApproveCached \<and> (\<exists>t. earned s (ag_log b) r t \<and> aw_now W AtGranted < t + SCOPE_GRANT_TTL_SECS))"
  proof (cases hit)
    case True
    have "grants_earned s o1"
      by (rule grants_earned_steps [OF agent_steps_trans [OF assms(1) o1]]) simp
    moreover have "granted (aw_now W AtGranted) s r o1 = (True, g)" using hit True by simp
    ultimately obtain t
      where t: "earned s (ag_log o1) r t" "aw_now W AtGranted < t + SCOPE_GRANT_TTL_SECS"
      using hit_earned r(1) by blast
    have "agent_steps s o1 d"
      using granted_steps [of s o1 o1 "aw_now W AtGranted" r] hit True by (simp add: d_def)
    also note db
    finally have "earned s (ag_log b) r t" using steps_log earned_mono t(1) by metis
    with t(2) True k(1) show ?thesis by (auto simp: c_def)
  next
    case False
    then have "Asked s r (Some k) \<in> set (ag_log d)" using k(1) by (simp add: d_def)
    with False k(1) steps_log_mono [OF db] show ?thesis by (auto simp: c_def)
  qed
  with allowed v row k(2) r(2) req show ?thesis unfolding chain_def by blast
qed

text \<open>A reference outside the allowlist gets one fixed answer and hands one row to the log, whatever the gate,
  the earlier approvals and the reference: nobody is asked and nothing is learnt.\<close>

theorem out_of_scope_is_one_answer:
  assumes "\<not> scope_allows s r" "wf_ref r"
  shows "\<exists>e. ae_decision e = ''deny+out-of-scope'' \<and> (\<forall>G. handle_agent_request W G s (ResolveRef (display_ref r) claimed) a =
    (Denied ''reference is outside this socket's declared scope'', append_row W e (aw_others W AtRow a)))"
proof (intro exI conjI allI)
  define e where "e = with_reason None (agent_resolve_entry (aw_now W AtRow) (so_name s) (shown_ref (aw_categories W) r)
    DenyOutOfScope (map_option utf8 (new_guest_chain (aw_categories W) (map utf8_scalars claimed))) NotRead)"
  show "ae_decision e = ''deny+out-of-scope''"
    by (simp add: e_def with_reason_def agent_resolve_entry_def)
  show "handle_agent_request W G s (ResolveRef (display_ref r) claimed) a =
    (Denied ''reference is outside this socket's declared scope'', append_row W e (aw_others W AtRow a))" for G
    using assms parse_iff [of "display_ref r" r]
    by (simp add: handle_agent_request_def resolve_scoped_def audit_release_def e_def)
qed

text \<open>C36. Whatever guests send, a row of the scoped agent names one reference in at most 816 bytes
  and repeats at most 2652 bytes of what a guest claims, and no callers, arguments or command.\<close>

theorem guest_rows_are_bounded:
  assumes "agent_steps s new_agent a" "honest_agents s W"
    and "Row e \<in> set (ag_log (snd (handle_agent_request W G s request a)))"
  shows "bounded_row e"
proof -
  have "agent_steps s new_agent (snd (handle_agent_request W G s request a))"
    by (rule agent_steps_trans [OF assms(1) agent_request_steps [OF assms(2)]])
  from row_of_scope_bounded [OF rows_of_scope [OF this _ assms(3)]] show ?thesis
    by (simp add: new_agent_def)
qed

section \<open>Concrete instances\<close>

definition demo_ref :: reference where
  "demo_ref = \<lparr>ref_provider = ''op'', ref_locator = ''db''\<rparr>"

definition demo_scope :: Scope where
  "demo_scope = \<lparr>so_name = ''box'', so_allow = [demo_ref]\<rparr>"

definition quiet_agents :: agent_world where
  "quiet_agents = \<lparr>aw_now = (\<lambda>p. 7), aw_others = (\<lambda>p a. a), aw_categories = (\<lambda>c. OtherCategory),
     aw_append = (\<lambda>_. True)\<rparr>"

definition kind_gate :: gate where
  "kind_gate = \<lparr>gt_consent = (\<lambda>s r chain. Some \<lparr>cs_decision = ApproveAgentSession, cs_reason = None, cs_declared_by = NotRead\<rparr>),
     gt_resolve = (\<lambda>s r. Some ''pw'')\<rparr>"

lemma demo_ref_wf: "wf_ref demo_ref" "scope_allows demo_scope demo_ref"
  by (simp_all add: wf_ref_def demo_ref_def demo_scope_def scope_allows_def)

lemma quiet_agents_honest: "honest_agents s quiet_agents" "log_blind quiet_agents"
  by (simp_all add: honest_agents_def log_blind_def quiet_agents_def)

abbreviation demo_answer :: "Response \<times> agent" where
  "demo_answer \<equiv> handle_agent_request quiet_agents kind_gate demo_scope (ResolveRef (display_ref demo_ref) [''npm'']) new_agent"

lemma demo_answer: "fst demo_answer = SecretValue ''pw''" "\<exists>e. Row e \<in> set (ag_log (snd demo_answer))"
  using demo_ref_wf
  by (auto simp: handle_agent_request_def parse_iff [THEN iffD2] resolve_scoped_def granted_def new_agent_def
      decided_def release_def kind_gate_def audit_release_def append_row_def quiet_agents_def remember_ref_def Let_def)

theorem guests_get_only_what_was_consented_witness:
  "\<exists>v b. demo_answer = (SecretValue v, b) \<and> scope_allows demo_scope demo_ref"
proof -
  obtain b where b: "demo_answer = (SecretValue ''pw'', b)" using demo_answer(1) by (metis prod.collapse)
  from guests_get_only_what_was_consented [OF rtranclp.rtrancl_refl quiet_agents_honest(1) b]
  show ?thesis using b demo_ref_wf(2) by blast
qed

theorem out_of_scope_is_one_answer_witness:
  "\<exists>e. ae_decision e = ''deny+out-of-scope'' \<and> (\<forall>G. handle_agent_request quiet_agents G (demo_scope\<lparr>so_allow := []\<rparr>)
    (ResolveRef (display_ref demo_ref) []) new_agent =
    (Denied ''reference is outside this socket's declared scope'', append_row quiet_agents e (aw_others quiet_agents AtRow new_agent)))"
  by (rule out_of_scope_is_one_answer) (simp_all add: scope_allows_def demo_ref_wf)

theorem guest_rows_are_bounded_witness:
  "\<exists>e. Row e \<in> set (ag_log (snd demo_answer)) \<and> bounded_row e"
  using demo_answer(2) guest_rows_are_bounded [OF rtranclp.rtrancl_refl quiet_agents_honest(1)] by blast

end
