(* ===== verification/Scoped_Daemon.thy ===== *)
theory Scoped_Daemon
  imports Scoped_Properties Server Queue_Invariants
begin

text \<open>
  The scoped agent behind its production gate: what the daemon makes of the asks that
  \<open>daemon_gate\<close> sends it. The claim of a guest reaches the card and no key, rule or approval.
\<close>

section \<open>Asks that differ in the claim\<close>

text \<open>An ask without its claim, and a state whose cards do not show theirs.\<close>

definition unclaimed :: "Ask \<Rightarrow> Ask" where
  "unclaimed ask = (case ask_subject ask of
      ScopedAgent a \<Rightarrow> ask\<lparr>ask_subject := ScopedAgent (a\<lparr>ai_guest_chain := None\<rparr>)\<rparr> | _ \<Rightarrow> ask)"

definition claims_hidden :: "'m State \<Rightarrow> 'm State" where
  "claims_hidden st = st\<lparr>st_queue := map (\<lambda>(k, e). (k, e\<lparr>qe_representative := unclaimed (qe_representative e)\<rparr>)) (st_queue st)\<rparr>"

text \<open>Asks of a scoped agent that differ in the claim alone.\<close>

definition claim_twins :: "Ask \<Rightarrow> Ask \<Rightarrow> bool" where
  "claim_twins x y \<longleftrightarrow> unclaimed x = unclaimed y \<and> (\<exists>a. ask_subject x = ScopedAgent a) \<and> (\<exists>a. ask_subject y = ScopedAgent a)
     \<and> (\<exists>pid. dk_anchor (ask_dedupe_key x) = AgentSocketAnchor pid)"

lemma agent_ask_twins: "claim_twins (agent_ask pid s r c1) (agent_ask pid s r c2)"
  by (simp add: claim_twins_def unclaimed_def agent_ask_def)

lemma twins_agent:
  assumes "claim_twins x y"
  obtains a b where "ask_subject x = ScopedAgent a" "ask_subject y = ScopedAgent b" "ai_declared_by a = ai_declared_by b"
    "ask_command x = ask_command y" "ask_dedupe_key x = ask_dedupe_key y"
proof -
  obtain a b where ab: "ask_subject x = ScopedAgent a" "ask_subject y = ScopedAgent b" "unclaimed x = unclaimed y"
    using assms by (auto simp: claim_twins_def)
  have "x\<lparr>ask_subject := ScopedAgent (a\<lparr>ai_guest_chain := None\<rparr>)\<rparr> = y\<lparr>ask_subject := ScopedAgent (b\<lparr>ai_guest_chain := None\<rparr>)\<rparr>"
    using ab by (simp add: unclaimed_def)
  then have "ask_command x = ask_command y" "ask_dedupe_key x = ask_dedupe_key y"
    "a\<lparr>ai_guest_chain := None\<rparr> = b\<lparr>ai_guest_chain := None\<rparr>"
    by (cases x; cases y; simp)+
  moreover from this(3) have "ai_declared_by a = ai_declared_by b" by (cases a; cases b; simp)
  ultimately show ?thesis using that ab by blast
qed

lemma twins_sym: "claim_twins x y \<Longrightarrow> claim_twins y x"
  using twins_agent [of x y] by (metis claim_twins_def)

lemma adopted_twins:
  assumes "claim_twins x y" "adopt_peer_provenance P x = Inr x'" "adopt_peer_provenance P y = Inr y'"
  shows "claim_twins x' y'"
proof -
  obtain a b where ab: "ask_subject x = ScopedAgent a" "ask_subject y = ScopedAgent b" using assms(1) by (auto simp: claim_twins_def)
  obtain peer where p: "pv_peer P = Some peer" using assms(2) by (auto simp: adopt_peer_provenance_def split: option.splits)
  have x': "x' = x\<lparr>ask_subject := ScopedAgent (a\<lparr>ai_declared_by := describe_local_peer P peer\<rparr>)\<rparr>"
    "y' = y\<lparr>ask_subject := ScopedAgent (b\<lparr>ai_declared_by := describe_local_peer P peer\<rparr>)\<rparr>"
    using assms(2,3) ab p by (simp_all add: adopt_peer_provenance_def)
  show ?thesis using assms(1) ab unfolding claim_twins_def unclaimed_def x'
    by (cases x; cases y; cases a; cases b) auto
qed

lemma twin_is_queued:
  assumes "claim_twins x y"
  shows "handle_ask V tx x m = Some (enqueue_ask V tx x (arrive V AtNested (arrive V AtRules (arrive V AtApproval m))))"
proof -
  obtain a where a: "ask_subject x = ScopedAgent a" using assms by (auto simp: claim_twins_def)
  obtain pid where k: "dk_anchor (ask_dedupe_key x) = AgentSocketAnchor pid" using assms by (auto simp: claim_twins_def)
  have "callers x = []" "\<not> nested_run x" by (simp_all add: callers_def nested_run_def a)
  then show ?thesis
    by (simp add: handle_ask_def has_cached_approval_def approval_scope_for_def evaluate_rules_for_ask_def
        nested_run_may_skip_window_def a k Let_def)
qed

lemma hide_insert: "map (\<lambda>(k, e). (k, f e)) (hm_insert k v q) = hm_insert k (f v) (map (\<lambda>(k, e). (k, f e)) q)"
  by (induction q) auto

lemma submit_twins:
  assumes "claim_twins x y"
  shows "fst (submit_ask H x tx st) = fst (submit_ask H y tx st)"
    and "claims_hidden (core (snd (submit_ask H x tx st))) = claims_hidden (core (snd (submit_ask H y tx st)))"
proof -
  obtain a b where ab: "ask_subject x = ScopedAgent a" "ask_subject y = ScopedAgent b" "ai_declared_by a = ai_declared_by b"
    and eq: "ask_command x = ask_command y" "ask_dedupe_key x = ask_dedupe_key y"
    using twins_agent [OF assms] by metis
  have parts: "secrets x = secrets y" "cwd x = cwd y" "callers x = callers y" "callers_truncated x = callers_truncated y"
    "sign_anchor x = sign_anchor y" "declared_by x = declared_by y" "wrap_mut f x = x" "wrap_mut f y = y" for f
    by (simp_all add: secrets_def cwd_def callers_def callers_truncated_def sign_anchor_def declared_by_def wrap_mut_def ab)
  have w: "new_waiter i t x = new_waiter i t y" for i t by (simp add: new_waiter_def parts eq)
  show "fst (submit_ask H x tx st) = fst (submit_ask H y tx st)"
    by (simp add: submit_ask_def Let_def w eq split: option.split)
  have "unclaimed x = unclaimed y" using assms by (simp add: claim_twins_def)
  then have e: "(submitted_entry H x tx st)\<lparr>qe_representative := unclaimed (qe_representative (submitted_entry H x tx st))\<rparr>
      = (submitted_entry H y tx st)\<lparr>qe_representative := unclaimed (qe_representative (submitted_entry H y tx st))\<rparr>"
    by (simp add: submitted_entry_def Let_def w eq parts split: option.split)
  show "claims_hidden (core (snd (submit_ask H x tx st))) = claims_hidden (core (snd (submit_ask H y tx st)))"
    by (simp add: core_submit claims_hidden_def hide_insert e eq)
qed

section \<open>Properties\<close>

text \<open>C35. What a guest claims of its callers decides nothing. Two requests that differ in the claim
  alone become asks that the daemon tells apart only by what the card shows: no remembered approval,
  rule or earlier release answers either, they join the same queue entry as the same waiter, and the
  states they leave are the same but for the claim on the card. If the person at the card answers
  both alike, so does the handler, and it keeps the same approvals.\<close>

theorem guest_claims_decide_nothing:
  assumes "parse raw = Some r" "log_blind W"
    and "ask1 = agent_ask pid s r (new_guest_chain (aw_categories W) (map utf8_scalars claim1))"
    and "ask2 = agent_ask pid s r (new_guest_chain (aw_categories W) (map utf8_scalars claim2))"
    and "adopt_peer_provenance P ask1 = Inr seen1" "adopt_peer_provenance P ask2 = Inr seen2"
    and "request ask1 = request ask2"
  shows "alike (handle_agent_request W (daemon_gate request run provs pid) s (ResolveRef raw claim1) a)
      (handle_agent_request W (daemon_gate request run provs pid) s (ResolveRef raw claim2) a)
    \<and> (\<exists>m'. handle_ask V tx seen1 m = Some (enqueue_ask V tx seen1 m') \<and> handle_ask V tx seen2 m = Some (enqueue_ask V tx seen2 m'))
    \<and> fst (submit_ask H seen1 tx st) = fst (submit_ask H seen2 tx st)
    \<and> claims_hidden (core (snd (submit_ask H seen1 tx st))) = claims_hidden (core (snd (submit_ask H seen2 tx st)))"
proof (intro conjI)
  note asks = assms(3,4)
  show "alike (handle_agent_request W (daemon_gate request run provs pid) s (ResolveRef raw claim1) a)
      (handle_agent_request W (daemon_gate request run provs pid) s (ResolveRef raw claim2) a)"
    using resolve_scoped_alike [OF assms(2)] assms(1,7) by (simp add: handle_agent_request_def daemon_gate_def asks)
  have same: "claim_twins seen1 seen2"
    using adopted_twins [OF _ assms(5,6)] by (simp add: asks agent_ask_twins)
  show "\<exists>m'. handle_ask V tx seen1 m = Some (enqueue_ask V tx seen1 m') \<and> handle_ask V tx seen2 m = Some (enqueue_ask V tx seen2 m')"
    using twin_is_queued [OF same] twin_is_queued [OF twins_sym [OF same]] by blast
  show "fst (submit_ask H seen1 tx st) = fst (submit_ask H seen2 tx st)"
    "claims_hidden (core (snd (submit_ask H seen1 tx st))) = claims_hidden (core (snd (submit_ask H seen2 tx st)))"
    using submit_twins [OF same] by auto
qed

section \<open>Concrete instances\<close>

text \<open>A daemon that answers every ask alike, and the peer it sees.\<close>

definition kind_daemon :: "Ask \<Rightarrow> (Decision \<times> string option \<times> ScopeDeclarant) option" where
  "kind_daemon ask = Some (ApproveAgentSession, None, ScopeDeclarant.NotRead)"

definition host_peer :: peer_env where
  "host_peer = \<lparr>pv_same_user = Some True, pv_peer = Some 7, pv_categories = (\<lambda>_. OtherCategory), pv_system = (\<lambda>_. None),
     pv_exe = None, pv_cwd = (\<lambda>_. None)\<rparr>"

definition guest_ask :: "string list \<Rightarrow> Ask" where
  "guest_ask claim = agent_ask 5 demo_scope demo_ref (new_guest_chain (aw_categories quiet_agents) (map utf8_scalars claim))"

theorem guest_claims_decide_nothing_witness:
  "\<exists>seen1 seen2. adopt_peer_provenance host_peer (guest_ask [''npm'']) = Inr seen1
    \<and> adopt_peer_provenance host_peer (guest_ask []) = Inr seen2
    \<and> (\<forall>V (m :: unit machine). \<exists>m'. handle_ask V 0 seen1 m = Some (enqueue_ask V 0 seen1 m')
        \<and> handle_ask V 0 seen2 m = Some (enqueue_ask V 0 seen2 m'))"
proof -
  have "\<exists>seen. adopt_peer_provenance host_peer (guest_ask claim) = Inr seen" for claim
    by (simp add: adopt_peer_provenance_def host_peer_def guest_ask_def agent_ask_def)
  then obtain seen1 seen2 where seen: "adopt_peer_provenance host_peer (guest_ask [''npm'']) = Inr seen1"
    "adopt_peer_provenance host_peer (guest_ask []) = Inr seen2" by metis
  have raw: "parse (display_ref demo_ref) = Some demo_ref" using demo_ref_wf(1) parse_iff by blast
  have "kind_daemon (guest_ask [''npm'']) = kind_daemon (guest_ask [])" by (simp add: kind_daemon_def)
  note w = guest_claims_decide_nothing [OF raw quiet_agents_honest(2) guest_ask_def guest_ask_def seen this]
  show ?thesis using seen w by blast
qed

end
