(* ===== verification/Command_Run.thy ===== *)
theory Command_Run
  imports Client Shim Mask
begin

text \<open>
  The gating path of the command line: \<open>commands/run.rs\<close> (\<open>secreq x\<close> and \<open>secreq run\<close>), the ask it
  builds (\<open>commands/mod.rs\<close>), the hand-written parser of \<open>secreq x\<close> (\<open>cli.rs\<close>) and what
  \<open>exec.rs\<close> does with the child's environment and output. A run ends in an \<open>ending\<close>: another
  program in place of this process, a child that is launched, an exit without one, or an error.
  Audit rows are returned in the order they are written. TOML, \<open>.env\<close> files, random numbers, the
  terminal prompt and the runs of provider commands are parameters.
\<close>

section \<open>The arguments of \<open>secreq x\<close>\<close>

record WrapRunOpts =
  wo_raw :: bool
  wo_no_remember :: bool
  wo_assume_yes :: bool

record XInvocation =
  xi_wrap :: string
  xi_args :: "string list"
  xi_config :: "string option"
  xi_opts :: WrapRunOpts

datatype x_parse = XHelp | XRun XInvocation | XError string

text \<open>The loop state: the wrap name, the arguments so far, the options, and whether options are read.\<close>

record x_state =
  xs_wrap :: "string option"
  xs_args :: "string list"
  xs_config :: "string option"
  xs_opts :: WrapRunOpts
  xs_extracting :: bool

definition x_start :: x_state where
  "x_start = \<lparr>xs_wrap = None, xs_args = [], xs_config = None,
     xs_opts = \<lparr>wo_raw = False, wo_no_remember = False, wo_assume_yes = False\<rparr>, xs_extracting = True\<rparr>"

definition x_forward :: "string \<Rightarrow> x_state \<Rightarrow> x_state" where
  "x_forward tok x = (case xs_wrap x of None \<Rightarrow> x\<lparr>xs_wrap := Some tok\<rparr> | Some _ \<Rightarrow> x\<lparr>xs_args := xs_args x @ [tok]\<rparr>)"

fun parse_x_loop :: "x_state \<Rightarrow> string list \<Rightarrow> x_parse" where
  "parse_x_loop x [] = (case xs_wrap x of
      None \<Rightarrow> XError ''missing wrap name''
    | Some w \<Rightarrow> XRun \<lparr>xi_wrap = w, xi_args = xs_args x, xi_config = xs_config x, xi_opts = xs_opts x\<rparr>)"
| "parse_x_loop x (tok # argv) =
     (if \<not> xs_extracting x then parse_x_loop (x_forward tok x) argv
      else if tok = ''--sq-help'' then XHelp
      else if tok = ''--sq-raw'' then parse_x_loop (x\<lparr>xs_opts := xs_opts x\<lparr>wo_raw := True\<rparr>\<rparr>) argv
      else if tok = ''--sq-yes'' then parse_x_loop (x\<lparr>xs_opts := xs_opts x\<lparr>wo_assume_yes := True\<rparr>\<rparr>) argv
      else if tok = ''--sq-no-remember'' then parse_x_loop (x\<lparr>xs_opts := xs_opts x\<lparr>wo_no_remember := True\<rparr>\<rparr>) argv
      else if tok = ''--sq-config'' then
        (case argv of
           [] \<Rightarrow> XError ''--sq-config requires a value''
         | v # rest \<Rightarrow> parse_x_loop (x\<lparr>xs_config := Some v\<rparr>) rest)
      else if tok = ''--'' then
        parse_x_loop (x\<lparr>xs_extracting := False,
          xs_args := (if xs_wrap x = None then xs_args x else xs_args x @ [tok])\<rparr>) argv
      else if starts_with tok ''--sq-config='' then parse_x_loop (x\<lparr>xs_config := Some (drop 12 tok)\<rparr>) argv
      else if starts_with tok ''--sq-'' then XError (''unknown option `'' @ tok @ ''` (--sq- is reserved for secreq)'')
      else parse_x_loop (x_forward tok x) argv)"

definition parse_x_argv :: "string list \<Rightarrow> x_parse" where
  "parse_x_argv argv = parse_x_loop x_start argv"

section \<open>The ask\<close>

record AskSpec =
  as_dedupe_wrap :: string
  as_command :: "string list"
  as_refs :: "(string \<times> ResolvedRef) list"
  as_reason :: "string option"
  as_allow_remember :: bool
  as_ignore_remembered :: bool

definition to_wire_provider :: "Provider \<Rightarrow> WireProvider" where
  "to_wire_provider p = \<lparr>wp_name = pv_name p, wp_retrieve = pv_retrieve p,
     wp_retrieve_batch = map_option (\<lambda>b. \<lparr>wb_command = br_command b, wb_env_value_template = br_env_value_template b\<rparr>)
       (pv_retrieve_batch p)\<rparr>"

definition ask_providers :: "WrapsConfig \<Rightarrow> (string \<times> ResolvedRef) list \<Rightarrow> (string, WireProvider) hmap" where
  "ask_providers cfg refs = fold (\<lambda>(name, r) m.
     case map_of (cfg_providers cfg) (ref_provider (rr_reference r)) of
       Some p \<Rightarrow> hm_insert (ref_provider (rr_reference r)) (to_wire_provider p) m
     | None \<Rightarrow> m) refs []"

definition secret_ask :: "string option \<Rightarrow> string \<times> ResolvedRef \<Rightarrow> SecretAsk" where
  "secret_ask reason = (\<lambda>(name, r). \<lparr>sk_name = name, sk_provider = ref_provider (rr_reference r),
     sk_locator = ref_locator (rr_reference r), sk_default = None, sk_description = None, sk_reason = reason,
     sk_requested_by = [], sk_declared_as = rr_declared_as r, sk_ttl = rr_ttl r\<rparr>)"

definition build_ask :: "AskSpec \<Rightarrow> Caller list \<Rightarrow> string \<Rightarrow> WrapsConfig \<Rightarrow> Ask" where
  "build_ask spec frames dir cfg = \<lparr>
     ask_command = as_command spec,
     ask_dedupe_key = \<lparr>dk_wrap = as_dedupe_wrap spec,
       dk_anchor = ProcessAnchor (case frames of
           c # _ \<Rightarrow> \<lparr>pi_pid = ca_pid c, pi_start_time = ca_start_time c\<rparr>
         | [] \<Rightarrow> \<lparr>pi_pid = 0, pi_start_time = 0\<rparr>),
       dk_subject_digest = None\<rparr>,
     ask_subject = Wrap \<lparr>ws_cwd = dir, ws_callers = map wire_caller frames, ws_callers_truncated = False,
       ws_secrets = map (secret_ask (as_reason spec)) (as_refs spec),
       ws_providers = ask_providers cfg (as_refs spec),
       ws_allow_remember = as_allow_remember spec, ws_nested_run = False,
       ws_ignore_remembered = as_ignore_remembered spec\<rparr>\<rparr>"

section \<open>The world of a run\<close>

datatype text_file = Absent | Unreadable | Text string

record run_world =
  rw_host :: host_env
  rw_vars :: "(string \<times> string) list"
  rw_file :: "string \<Rightarrow> text_file"
  rw_default_config :: "string option"
  rw_toml :: "string \<Rightarrow> WrapsConfig option"
  rw_dotenv :: "string \<Rightarrow> (string \<times> string) list option"
  rw_disk :: shim_fs
  rw_cwd :: "string option"
  rw_chain :: CallerChain
  rw_now :: nat
  rw_run :: runner
  rw_probe :: runner
  rw_prompt :: "string \<Rightarrow> string option"
  rw_pid :: nat
  rw_nonce :: nat

definition var_os :: "run_world \<Rightarrow> string \<Rightarrow> string option" where
  "var_os W name = map_of (rw_vars W) name"

datatype run_error =
    BadConfig config_error
  | ConfigUnreadable
  | NoConfigPath
  | NotOnPath string
  | NoCwd
  | NoParent
  | Daemon client_error
  | Unresolvable resolve_error
  | NoCommand
  | BadEnvFile string
  | BadEnvRef string config_error
  | NoValueGiven string
  | NotStored string provider_error

record launch =
  la_command :: "string list"
  la_overrides :: "(string \<times> string) list"
  la_masked :: "string list"
  la_cwd :: string

datatype ending =
    Replaced string "string list"
  | Launched launch
  | NotRun string
  | Failed run_error
  | Panicked

type_synonym run_outcome = "AuditEntry list \<times> ending"

definition load_config_or_default :: "run_world \<Rightarrow> string option \<Rightarrow> run_error + WrapsConfig" where
  "load_config_or_default W chosen =
     (case (case chosen of Some p \<Rightarrow> Some p | None \<Rightarrow> rw_default_config W) of
        None \<Rightarrow> Inl NoConfigPath
      | Some path \<Rightarrow> (case rw_file W path of
            Absent \<Rightarrow> Inr (merge_builtin_providers
              \<lparr>cfg_shim_dir = None, cfg_wraps = [], cfg_secrets = [], cfg_providers = [], cfg_ssh = [],
               cfg_wait_indicator = None, cfg_editor = None\<rparr>)
          | Unreadable \<Rightarrow> Inl ConfigUnreadable
          | Text text \<Rightarrow> (case config_parse (rw_toml W) text of
                Inl e \<Rightarrow> Inl (BadConfig e) | Inr cfg \<Rightarrow> Inr (merge_builtin_providers cfg))))"

definition passthrough_unwrapped :: "run_world \<Rightarrow> string \<Rightarrow> string list \<Rightarrow> string option \<Rightarrow> ending" where
  "passthrough_unwrapped W binary args skip =
     (case find_real_binary (rw_disk W) (var_os W ''PATH'') binary skip of
        None \<Rightarrow> Failed (NotOnPath binary) | Some real \<Rightarrow> Replaced real args)"

section \<open>Resolving without a daemon\<close>

definition client_plan :: "(string \<times> ResolvedRef) list \<Rightarrow> string option \<Rightarrow> ResolutionPlan" where
  "client_plan refs reason = map (\<lambda>(name, r). \<lparr>sr_name = name, sr_provider = ref_provider (rr_reference r),
     sr_locator = ref_locator (rr_reference r), sr_reason = reason, sr_description = None, sr_default = None,
     sr_declared_as = rr_declared_as r\<rparr>) refs"

definition resolve_refs_client_side ::
  "run_world \<Rightarrow> WrapsConfig \<Rightarrow> (string \<times> ResolvedRef) list \<Rightarrow> string option \<Rightarrow> run_error + (string \<times> string) list" where
  "resolve_refs_client_side W cfg refs reason =
     (case resolve_all (rw_run W) \<lparr>mf_providers = cfg_providers cfg\<rparr> (client_plan refs reason) of
        Inl e \<Rightarrow> Inl (Unresolvable e)
      | Inr (rows, _) \<Rightarrow> Inr (map (\<lambda>r. (rs_name r, rs_value r)) rows))"

definition resolve_wrap_env :: "run_world \<Rightarrow> WrapsConfig \<Rightarrow> WrapEntry \<Rightarrow> run_error + (string \<times> string) list" where
  "resolve_wrap_env W cfg w = (case wrap_refs cfg w of
      Inl e \<Rightarrow> Inl (BadConfig e)
    | Inr refs \<Rightarrow> resolve_refs_client_side W cfg refs (wr_reason w))"

section \<open>What is printed when nothing runs\<close>

definition denial :: "string \<Rightarrow> ConsentOutcome \<Rightarrow> string" where
  "denial what c =
     (if co_decision c = DenyAuto then
        (let rule = (case co_rule_name c of Some n \<Rightarrow> n | None \<Rightarrow> ''(unknown)'')
         in case co_reason c of
              Some msg \<Rightarrow> ''secreq: denied by rule '' @ [CHR 0x27] @ rule @ [CHR 0x27] @ '': '' @ msg
            | None \<Rightarrow> ''secreq: denied by rule '' @ [CHR 0x27] @ rule @ [CHR 0x27])
      else (case co_reason c of
          Some reason \<Rightarrow> ''secreq: denied: '' @ reason @ bytes [0x20, 0xE2, 0x80, 0x94, 0x20] @ what @ '' not run''
        | None \<Rightarrow> ''secreq: denied'' @ bytes [0x20, 0xE2, 0x80, 0x94, 0x20] @ what @ '' not run''))"

definition outcome_row :: "run_world \<Rightarrow> string \<Rightarrow> string list \<Rightarrow> string list \<Rightarrow> ConsentOutcome \<Rightarrow> AuditEntry" where
  "outcome_row W wrap args names c =
     with_deciding_device (co_deciding_device c) (with_approvers (co_approvers c) (with_rule_id (co_rule_id c)
       (with_reason (co_reason c) (audit_new (rw_now W) (case rw_cwd W of Some d \<Rightarrow> d | None \<Rightarrow> []) wrap args (rw_chain W)
         names (co_decision c)))))"

definition plain_row :: "run_world \<Rightarrow> string \<Rightarrow> string list \<Rightarrow> string list \<Rightarrow> AuditEntry" where
  "plain_row W wrap args names =
     audit_new (rw_now W) (case rw_cwd W of Some d \<Rightarrow> d | None \<Rightarrow> []) wrap args (rw_chain W) names Approve"

section \<open>\<open>secreq x\<close>\<close>

definition parent_env_satisfies :: "run_world \<Rightarrow> string \<Rightarrow> bool" where
  "parent_env_satisfies W name \<longleftrightarrow> (case var_os W name of
      None \<Rightarrow> False
    | Some v \<Rightarrow> v \<noteq> [] \<and> \<not> (utf8_ok v \<and> looks_like_ref v))"

definition unsatisfied :: "run_world \<Rightarrow> WrapEntry \<Rightarrow> WrapEntry" where
  "unsatisfied W w = w\<lparr>wr_env_secrets := filter (\<lambda>n. \<not> parent_env_satisfies W n) (wr_env_secrets w),
     wr_env := filter (\<lambda>(n, _). \<not> parent_env_satisfies W n) (wr_env w)\<rparr>"

definition obtain_wrap_consent :: "run_world \<Rightarrow> WrapEntry \<Rightarrow> string list \<Rightarrow> WrapRunOpts \<Rightarrow> run_error + ConsentOutcome" where
  "obtain_wrap_consent W w args opts =
     (if cc_frames (rw_chain W) = [] then Inl NoParent
      else (case rw_cwd W of
          None \<Rightarrow> Inl NoCwd
        | Some dir \<Rightarrow> (case load_config_or_default W None of
              Inl e \<Rightarrow> Inl e
            | Inr cfg \<Rightarrow> (case wrap_refs cfg w of
                  Inl e \<Rightarrow> Inl (BadConfig e)
                | Inr refs \<Rightarrow>
                    map_sum Daemon id (request_consent (rw_host W) (build_ask
                      \<lparr>as_dedupe_wrap = wr_name w, as_command = wr_name w # args, as_refs = refs, as_reason = wr_reason w,
                       as_allow_remember = \<not> wo_no_remember opts, as_ignore_remembered = wo_no_remember opts\<rparr>
                      (cc_frames (rw_chain W)) dir cfg))))))"

definition launch_wrap ::
  "run_world \<Rightarrow> string \<Rightarrow> string list \<Rightarrow> WrapRunOpts \<Rightarrow> string option \<Rightarrow> (string \<times> string) list \<Rightarrow> ending" where
  "launch_wrap W binary args opts skip resolved =
     (case find_real_binary (rw_disk W) (var_os W ''PATH'') binary skip of
        None \<Rightarrow> Failed (NotOnPath binary)
      | Some real \<Rightarrow> (case rw_cwd W of
            None \<Rightarrow> Failed NoCwd
          | Some dir \<Rightarrow> Launched \<lparr>la_command = real # args, la_overrides = resolved,
              la_masked = (if wo_raw opts then [] else map snd resolved), la_cwd = dir\<rparr>))"

definition wrap_run :: "run_world \<Rightarrow> string \<Rightarrow> string list \<Rightarrow> WrapRunOpts \<Rightarrow> string option \<Rightarrow> run_outcome" where
  "wrap_run W binary args opts config_path =
     (case load_config_or_default W config_path of
        Inl e \<Rightarrow> ([], Failed e)
      | Inr cfg \<Rightarrow>
          if var_os W RESOLVING_ENV \<noteq> None then ([], passthrough_unwrapped W binary args (cfg_shim_dir cfg))
          else (case map_of (cfg_wraps cfg) binary of
              None \<Rightarrow> ([], passthrough_unwrapped W binary args (cfg_shim_dir cfg))
            | Some w0 \<Rightarrow>
                (let w = unsatisfied W w0
                 in if \<not> is_gate_only w0 \<and> is_gate_only w
                    then ([], passthrough_unwrapped W binary args (cfg_shim_dir cfg))
                    else if wo_assume_yes opts then
                      ([plain_row W binary args (env_names w)],
                       case resolve_wrap_env W cfg w of
                         Inl e \<Rightarrow> Failed e
                       | Inr resolved \<Rightarrow> launch_wrap W binary args opts (cfg_shim_dir cfg) resolved)
                    else (case obtain_wrap_consent W w args opts of
                        Inl e \<Rightarrow> ([], Failed e)
                      | Inr c \<Rightarrow> ([outcome_row W binary args (env_names w) c],
                          if \<not> approved (co_decision c) then NotRun (denial (''`'' @ binary @ ''`'') c)
                          else launch_wrap W binary args opts (cfg_shim_dir cfg) (co_secrets c))))))"

section \<open>\<open>secreq run\<close>\<close>

definition RUN_SESSION_ENV :: string where "RUN_SESSION_ENV = ''SECREQ_RUN_SESSION''"

definition effective_env :: "(string \<times> string) list \<Rightarrow> (string \<times> string) list \<Rightarrow> (string, string) btmap" where
  "effective_env inherited envfile = bt_extend inherited (bt_extend envfile [])"

definition build_overrides ::
  "(string, string) btmap \<Rightarrow> (string \<times> string) list \<Rightarrow> (string \<times> string) list \<Rightarrow> (string \<times> string) list" where
  "build_overrides eff inherited resolved =
     resolved @ filter (\<lambda>(k, v). k \<notin> fst ` set resolved \<and> k \<notin> fst ` set inherited) eff"

definition filter_to_refs :: "(string, string) hmap \<Rightarrow> (string \<times> ResolvedRef) list \<Rightarrow> (string \<times> string) list" where
  "filter_to_refs resolved refs = filter (\<lambda>(name, _). name \<in> fst ` set refs) resolved"

fun scan_env_refs :: "WrapsConfig \<Rightarrow> (string \<times> string) list \<Rightarrow> run_error + (string \<times> ResolvedRef) list" where
  "scan_env_refs cfg [] = Inr []"
| "scan_env_refs cfg ((name, value) # env) =
     (if \<not> looks_like_ref value then scan_env_refs cfg env
      else (case resolve_ref cfg value of
          Inl e \<Rightarrow> Inl (BadEnvRef name e)
        | Inr r \<Rightarrow> map_sum id (Cons (name, r)) (scan_env_refs cfg env)))"

definition mint_session_token :: "run_world \<Rightarrow> string" where
  "mint_session_token W = show_nat (rw_pid W) @ '':'' @ show_nat (rw_nonce W)"

definition session_dedupe_key :: "string \<Rightarrow> DedupeKey option" where
  "session_dedupe_key token = (case split_once (CHR '':'') token of
      None \<Rightarrow> None
    | Some (pid, nonce) \<Rightarrow> (case (parse_uint 32 pid, parse_uint 64 nonce) of
          (Some p, Some n) \<Rightarrow> Some \<lparr>dk_wrap = ''run'', dk_anchor = RunSessionAnchor p n, dk_subject_digest = None\<rparr>
        | _ \<Rightarrow> None))"

fun read_env_files :: "run_world \<Rightarrow> string list \<Rightarrow> run_error + (string \<times> string) list" where
  "read_env_files W [] = Inr []"
| "read_env_files W (p # ps) = (case rw_file W p of
      Text text \<Rightarrow> (case rw_dotenv W text of
          None \<Rightarrow> Inl (BadEnvFile p)
        | Some kvs \<Rightarrow> map_sum id (\<lambda>rest. kvs @ rest) (read_env_files W ps))
    | _ \<Rightarrow> Inl (BadEnvFile p))"

fun prompt_and_store_unresolved ::
  "run_world \<Rightarrow> WrapsConfig \<Rightarrow> string list \<Rightarrow> (string \<times> ResolvedRef) list \<Rightarrow> AuditEntry list \<times> (run_error + unit)" where
  "prompt_and_store_unresolved W cfg command [] = ([], Inr ())"
| "prompt_and_store_unresolved W cfg command ((name, r) # refs) =
     (let ref = rr_reference r; go = prompt_and_store_unresolved W cfg command refs
      in case map_of (cfg_providers cfg) (ref_provider ref) of
           None \<Rightarrow> go
         | Some p \<Rightarrow> (case retrieve (rw_probe W) p (ref_locator ref) of
               Inr (NotFound _ _) \<Rightarrow> (case rw_prompt W name of
                   None \<Rightarrow> ([], Inl (NoValueGiven name))
                 | Some v \<Rightarrow> (case store_at_locator (rw_probe W) p (ref_locator ref) v of
                       Inl e \<Rightarrow> ([], Inl (NotStored name e))
                     | Inr _ \<Rightarrow> (plain_row W ''store'' command [display_ref ref] # fst go, snd go)))
             | _ \<Rightarrow> go))"

definition ask_of_run ::
  "run_world \<Rightarrow> WrapsConfig \<Rightarrow> string list \<Rightarrow> (string \<times> ResolvedRef) list \<Rightarrow> string \<Rightarrow> bool \<Rightarrow> string \<Rightarrow> Ask" where
  "ask_of_run W cfg command refs dir nested session =
     (let ask = build_ask \<lparr>as_dedupe_wrap = ''run'', as_command = command, as_refs = refs, as_reason = None,
            as_allow_remember = False, as_ignore_remembered = False\<rparr> (cc_frames (rw_chain W)) dir cfg;
          ask = wrap_mut (\<lambda>w. w\<lparr>ws_nested_run := nested\<rparr>) ask
      in if nested then (case session_dedupe_key session of
           Some key \<Rightarrow> ask\<lparr>ask_dedupe_key := key\<rparr> | None \<Rightarrow> ask) else ask)"

definition launch_run ::
  "(string, string) btmap \<Rightarrow> run_world \<Rightarrow> string list \<Rightarrow> bool \<Rightarrow> string \<Rightarrow> string \<Rightarrow> (string \<times> string) list \<Rightarrow> ending" where
  "launch_run eff W command raw dir session resolved = Launched \<lparr>la_command = command,
     la_overrides = build_overrides eff (rw_vars W) resolved @ [(RUN_SESSION_ENV, session)],
     la_masked = (if raw then [] else map snd resolved), la_cwd = dir\<rparr>"

definition release_to_run ::
  "run_world \<Rightarrow> WrapsConfig \<Rightarrow> string list \<Rightarrow> WrapRunOpts \<Rightarrow> (string, string) btmap \<Rightarrow> (string \<times> ResolvedRef) list
    \<Rightarrow> string \<Rightarrow> bool \<Rightarrow> string \<Rightarrow> run_outcome" where
  "release_to_run W cfg command opts eff refs dir nested session =
     (if wo_assume_yes opts then
        ([plain_row W ''run'' command (map fst refs)],
         case resolve_refs_client_side W cfg refs None of
           Inl e \<Rightarrow> Failed e
         | Inr resolved \<Rightarrow> launch_run eff W command (wo_raw opts) dir session resolved)
      else (case request_consent (rw_host W) (ask_of_run W cfg command refs dir nested session) of
          Inl e \<Rightarrow> ([], Failed (Daemon e))
        | Inr c \<Rightarrow> ([outcome_row W ''run'' command (map fst refs) c],
            if \<not> approved (co_decision c) then NotRun (denial ''command'' c)
            else launch_run eff W command (wo_raw opts) dir session (filter_to_refs (co_secrets c) refs))))"

definition run_session :: "run_world \<Rightarrow> string" where
  "run_session W = (case var_os W RUN_SESSION_ENV of
      Some t \<Rightarrow> if utf8_ok t then t else mint_session_token W | None \<Rightarrow> mint_session_token W)"

definition run_command ::
  "run_world \<Rightarrow> string list \<Rightarrow> string list \<Rightarrow> WrapRunOpts \<Rightarrow> bool \<Rightarrow> string option \<Rightarrow> run_outcome" where
  "run_command W command env_files opts prompt_unresolved config_path =
     (if command = [] then ([], Failed NoCommand)
      else (case load_config_or_default W config_path of
          Inl e \<Rightarrow> ([], Failed e)
        | Inr cfg \<Rightarrow>
            if var_os W RESOLVING_ENV \<noteq> None then
              ([], case rw_cwd W of None \<Rightarrow> Failed NoCwd
                 | Some dir \<Rightarrow> Launched \<lparr>la_command = command, la_overrides = [], la_masked = [], la_cwd = dir\<rparr>)
            else if \<not> list_all (\<lambda>(k, v). utf8_ok k \<and> utf8_ok v) (rw_vars W) then ([], Panicked)
            else (case read_env_files W env_files of
                Inl e \<Rightarrow> ([], Failed e)
              | Inr envfile \<Rightarrow>
                  (let eff = effective_env (rw_vars W) envfile
                   in case scan_env_refs cfg eff of
                        Inl e \<Rightarrow> ([], Failed e)
                      | Inr refs \<Rightarrow> (case rw_cwd W of
                            None \<Rightarrow> ([], Failed NoCwd)
                          | Some dir \<Rightarrow>
                              (let (rows, stored) = (if prompt_unresolved \<and> refs \<noteq> []
                                     then prompt_and_store_unresolved W cfg command refs else ([], Inr ()))
                               in case stored of
                                    Inl e \<Rightarrow> (rows, Failed e)
                                  | Inr _ \<Rightarrow>
                                      if refs = [] then (rows, launch_run eff W command False dir (run_session W) [])
                                      else (let (more_rows, e) = release_to_run W cfg command opts eff refs dir
                                                  (var_os W RUN_SESSION_ENV \<noteq> None) (run_session W)
                                            in (rows @ more_rows, e))))))))"

section \<open>The child\<close>

text \<open>What \<open>Command::env\<close> makes of the inherited environment: later settings win.\<close>

definition child_env :: "run_world \<Rightarrow> launch \<Rightarrow> string \<Rightarrow> string option" where
  "child_env W l name = map_of (rev (rw_vars W @ la_overrides l)) name"

definition byte_string :: "string \<Rightarrow> byte list" where
  "byte_string s = map of_char s"

text \<open>One of the child's streams, read in chunks, as it reaches the terminal.\<close>

definition pump :: "launch \<Rightarrow> byte list list \<Rightarrow> byte list option" where
  "pump l chunks = mask_stream (masker_new (map byte_string (la_masked l))) chunks"

end
