(* ===== verification/Run_Properties.thy ===== *)
theory Run_Properties
  imports Command_Run
begin

text \<open>
  What the gating path of the command line guarantees: no child gets a secret without an approval,
  what runs without one holds no secret, the environment of a \<open>secreq run\<close> child, the masking of
  what it prints, the way from a shim to its wrap, and which configuration an ask is built from.
\<close>

section \<open>The ask\<close>

lemma secrets_build_ask: "secrets (build_ask spec frames dir cfg) = map (secret_ask (as_reason spec)) (as_refs spec)"
  by (simp add: secrets_def build_ask_def)

lemma sk_names: "map sk_name (map (secret_ask reason) refs) = map fst refs"
  by (simp add: comp_def secret_ask_def case_prod_beta)

lemma wrap_refs_names: "wrap_refs cfg w = Inr refs \<Longrightarrow> map fst refs = env_names w"
  by (auto simp: wrap_refs_def env_names_def comp_def dest!: collect_refs_Inr split: sum.splits)

text \<open>The ask of \<open>secreq x\<close>, from the configuration it is built with.\<close>

definition wrap_ask :: "run_world \<Rightarrow> WrapsConfig \<Rightarrow> WrapEntry \<Rightarrow> string list \<Rightarrow> WrapRunOpts \<Rightarrow> string
    \<Rightarrow> (string \<times> ResolvedRef) list \<Rightarrow> Ask" where
  "wrap_ask W cfg w args opts dir refs = build_ask
     \<lparr>as_dedupe_wrap = wr_name w, as_command = wr_name w # args, as_refs = refs, as_reason = wr_reason w,
      as_allow_remember = \<not> wo_no_remember opts, as_ignore_remembered = wo_no_remember opts\<rparr>
     (cc_frames (rw_chain W)) dir cfg"

lemma obtain_wrap_consent_Inr:
  assumes "obtain_wrap_consent W w args opts = Inr c"
  obtains dir cfg refs where "rw_cwd W = Some dir" "load_config_or_default W None = Inr cfg"
    "wrap_refs cfg w = Inr refs" "request_consent (rw_host W) (wrap_ask W cfg w args opts dir refs) = Inr c"
proof -
  obtain dir where dir: "rw_cwd W = Some dir" "cc_frames (rw_chain W) \<noteq> []"
    using assms by (cases "rw_cwd W") (auto simp: obtain_wrap_consent_def split: if_splits)
  obtain cfg where cfg: "load_config_or_default W None = Inr cfg"
    using assms dir by (cases "load_config_or_default W None") (auto simp: obtain_wrap_consent_def)
  obtain refs where refs: "wrap_refs cfg w = Inr refs"
    using assms dir cfg by (cases "wrap_refs cfg w") (auto simp: obtain_wrap_consent_def)
  have "map_sum Daemon id (request_consent (rw_host W) (wrap_ask W cfg w args opts dir refs)) = Inr c"
    using assms dir cfg refs by (simp add: obtain_wrap_consent_def wrap_ask_def)
  then have "request_consent (rw_host W) (wrap_ask W cfg w args opts dir refs) = Inr c"
    by (cases "request_consent (rw_host W) (wrap_ask W cfg w args opts dir refs)") auto
  from that [OF dir(1) cfg refs this] show thesis .
qed

lemma launch_wrap_Launched:
  "launch_wrap W binary args opts skip resolved = Launched l \<longleftrightarrow>
   (\<exists>real dir. find_real_binary (rw_disk W) (var_os W ''PATH'') binary skip = Some real \<and> rw_cwd W = Some dir
     \<and> l = \<lparr>la_command = real # args, la_overrides = resolved,
         la_masked = (if wo_raw opts then [] else map snd resolved), la_cwd = dir\<rparr>)"
  by (auto simp: launch_wrap_def split: option.splits)

lemma launch_wrap_not_Replaced: "launch_wrap W binary args opts skip resolved \<noteq> Replaced p a"
  by (auto simp: launch_wrap_def split: option.splits)

lemma passthrough_Replaced:
  "passthrough_unwrapped W binary args skip = Replaced p a \<longleftrightarrow>
   find_real_binary (rw_disk W) (var_os W ''PATH'') binary skip = Some p \<and> a = args"
  by (auto simp: passthrough_unwrapped_def split: option.splits)

lemma passthrough_not_Launched: "passthrough_unwrapped W binary args skip \<noteq> Launched l"
  by (auto simp: passthrough_unwrapped_def split: option.splits)

text \<open>The two ways a wrapped child is launched.\<close>

lemma wrap_run_Launched:
  assumes "wrap_run W binary args opts cp = (rows, Launched l)"
  obtains cfg w where "load_config_or_default W cp = Inr cfg" "map_of (cfg_wraps cfg) binary = Some w"
    "\<exists>real. find_real_binary (rw_disk W) (var_os W ''PATH'') binary (cfg_shim_dir cfg) = Some real \<and> la_command l = real # args"
    "la_masked l = (if wo_raw opts then [] else map snd (la_overrides l))"
    "wo_assume_yes opts \<and> rows = [plain_row W binary args (env_names (unsatisfied W w))]
       \<and> resolve_wrap_env W cfg (unsatisfied W w) = Inr (la_overrides l)
     \<or> \<not> wo_assume_yes opts \<and> (\<exists>c. obtain_wrap_consent W (unsatisfied W w) args opts = Inr c \<and> approved (co_decision c)
       \<and> rows = [outcome_row W binary args (env_names (unsatisfied W w)) c] \<and> la_overrides l = co_secrets c)"
proof -
  obtain cfg where cfg: "load_config_or_default W cp = Inr cfg"
    using assms by (cases "load_config_or_default W cp") (auto simp: wrap_run_def)
  have nr: "var_os W RESOLVING_ENV = None"
    using assms passthrough_not_Launched by (auto simp: wrap_run_def cfg split: if_splits)
  obtain w where w: "map_of (cfg_wraps cfg) binary = Some w"
    using assms passthrough_not_Launched by (cases "map_of (cfg_wraps cfg) binary") (auto simp: wrap_run_def cfg nr)
  define u where "u = unsatisfied W w"
  have gate: "is_gate_only w \<or> \<not> is_gate_only u"
    using assms passthrough_not_Launched by (auto simp: wrap_run_def cfg nr w u_def Let_def split: if_splits)
  show thesis
  proof (cases "wo_assume_yes opts")
    case True
    then have r: "rows = [plain_row W binary args (env_names u)]"
      "(case resolve_wrap_env W cfg u of Inl e \<Rightarrow> Failed e
        | Inr resolved \<Rightarrow> launch_wrap W binary args opts (cfg_shim_dir cfg) resolved) = Launched l"
      using assms gate by (auto simp: wrap_run_def cfg nr w u_def Let_def split: if_splits)
    then obtain resolved where v: "resolve_wrap_env W cfg u = Inr resolved"
      "launch_wrap W binary args opts (cfg_shim_dir cfg) resolved = Launched l" by (auto split: sum.splits)
    show thesis
      by (rule that [OF cfg w]) (use v r True in \<open>auto simp: launch_wrap_Launched u_def\<close>)
  next
    case False
    then obtain c where c: "obtain_wrap_consent W u args opts = Inr c"
      using assms gate by (cases "obtain_wrap_consent W u args opts") (auto simp: wrap_run_def cfg nr w u_def Let_def split: if_splits)
    then have r: "approved (co_decision c)" "rows = [outcome_row W binary args (env_names u) c]"
      "launch_wrap W binary args opts (cfg_shim_dir cfg) (co_secrets c) = Launched l"
      using assms gate False by (auto simp: wrap_run_def cfg nr w u_def Let_def split: if_splits)
    show thesis
      by (rule that [OF cfg w]) (use c r False in \<open>auto simp: launch_wrap_Launched u_def\<close>)
  qed
qed

section \<open>The environment of a run\<close>

lemma effective_env_get:
  "map_of (effective_env inherited envfile) name =
     (case map_of (rev inherited) name of Some v \<Rightarrow> Some v | None \<Rightarrow> map_of (rev envfile) name)"
proof -
  have wf: "bt_wf (bt_extend envfile [])" unfolding bt_extend_eq by (rule tree_map.wf_extend) simp
  show ?thesis
    using tree_map.get_extend [OF wf, of inherited name] tree_map.get_extend [of "[]" envfile name]
    by (simp add: effective_env_def bt_extend_eq split: option.splits)
qed

lemma effective_env_wf: "bt_wf (effective_env inherited envfile)"
  unfolding effective_env_def bt_extend_eq by (intro tree_map.wf_extend) simp

lemma scan_env_refs_names:
  "scan_env_refs cfg env = Inr refs \<Longrightarrow> fst ` set refs = {k. \<exists>v. (k, v) \<in> set env \<and> looks_like_ref v}"
proof (induction cfg env arbitrary: refs rule: scan_env_refs.induct)
  case (2 cfg name v env)
  show ?case
  proof (cases "looks_like_ref v")
    case False
    then show ?thesis using 2 by auto
  next
    case True
    then obtain r where r: "resolve_ref cfg v = Inr r"
      using "2.prems" by (cases "resolve_ref cfg v") auto
    then obtain rs where "scan_env_refs cfg env = Inr rs" "refs = (name, r) # rs"
      using "2.prems" True by (cases "scan_env_refs cfg env") auto
    then show ?thesis using "2.IH"(2) True r by auto
  qed
qed simp

lemma ask_of_run_names: "map sk_name (secrets (ask_of_run W cfg command refs dir nested session)) = map fst refs"
proof -
  define ask where "ask = build_ask \<lparr>as_dedupe_wrap = ''run'', as_command = command, as_refs = refs, as_reason = None,
            as_allow_remember = False, as_ignore_remembered = False\<rparr> (cc_frames (rw_chain W)) dir cfg"
  have "secrets (a\<lparr>ask_dedupe_key := k\<rparr>) = secrets a" for a k by (simp add: secrets_def)
  then have "secrets (ask_of_run W cfg command refs dir nested session) = secrets (wrap_mut (\<lambda>w. w\<lparr>ws_nested_run := nested\<rparr>) ask)"
    unfolding ask_of_run_def ask_def [symmetric] Let_def by (simp split: option.split)
  also have "\<dots> = map (secret_ask None) refs" by (simp add: secrets_wrap_mut ask_def build_ask_def)
  finally show ?thesis using sk_names by simp
qed

text \<open>A run that is not inside a resolution.\<close>

lemma run_command_Launched:
  assumes run: "run_command W command files opts pr cp = (rows, Launched l)" and nr: "var_os W RESOLVING_ENV = None"
  obtains cfg envfile refs dir before resolved where "load_config_or_default W cp = Inr cfg"
    "read_env_files W files = Inr envfile" "scan_env_refs cfg (effective_env (rw_vars W) envfile) = Inr refs"
    "rw_cwd W = Some dir"
    "Launched l = launch_run (effective_env (rw_vars W) envfile) W command (refs \<noteq> [] \<and> wo_raw opts) dir (run_session W) resolved"
    "refs = [] \<and> resolved = [] \<and> rows = before
     \<or> refs \<noteq> [] \<and> wo_assume_yes opts \<and> rows = before @ [plain_row W ''run'' command (map fst refs)]
        \<and> resolve_refs_client_side W cfg refs None = Inr resolved
     \<or> refs \<noteq> [] \<and> \<not> wo_assume_yes opts \<and> (\<exists>c. request_consent (rw_host W) (ask_of_run W cfg command refs dir
          (var_os W RUN_SESSION_ENV \<noteq> None) (run_session W)) = Inr c \<and> approved (co_decision c)
        \<and> rows = before @ [outcome_row W ''run'' command (map fst refs) c] \<and> resolved = filter_to_refs (co_secrets c) refs)"
proof -
  have c: "command \<noteq> []" using run by (auto simp: run_command_def)
  obtain cfg where cfg: "load_config_or_default W cp = Inr cfg"
    using run c by (cases "load_config_or_default W cp") (auto simp: run_command_def)
  have ok: "list_all (\<lambda>(k, v). utf8_ok k \<and> utf8_ok v) (rw_vars W)"
    using run c cfg nr by (auto simp: run_command_def split: if_splits)
  obtain envfile where ef: "read_env_files W files = Inr envfile"
    using run c cfg nr ok by (cases "read_env_files W files") (auto simp: run_command_def)
  define eff where "eff = effective_env (rw_vars W) envfile"
  obtain refs where refs: "scan_env_refs cfg eff = Inr refs"
    using run c cfg nr ok ef by (cases "scan_env_refs cfg eff") (auto simp: run_command_def eff_def)
  obtain dir where dir: "rw_cwd W = Some dir"
    using run c cfg nr ok ef refs by (cases "rw_cwd W") (auto simp: run_command_def eff_def)
  obtain before stored where st: "(if pr \<and> refs \<noteq> [] then prompt_and_store_unresolved W cfg command refs else ([], Inr ()))
      = (before, stored)" by force
  define rest where "rest = (if refs = [] then (before, launch_run eff W command False dir (run_session W) [])
     else (let (more_rows, e) = release_to_run W cfg command opts eff refs dir
             (var_os W RUN_SESSION_ENV \<noteq> None) (run_session W) in (before @ more_rows, e)))"
  have "(case stored of Inl e \<Rightarrow> (before, Failed e) | Inr _ \<Rightarrow> rest) = (rows, Launched l)"
    using run c cfg nr ok ef refs [unfolded eff_def] dir st
    unfolding run_command_def rest_def eff_def by (simp add: Let_def)
  then have rest: "rest = (rows, Launched l)" by (auto split: sum.splits)
  show thesis
  proof (cases "refs = []")
    case True
    then show thesis using rest that [OF cfg ef refs [unfolded eff_def] dir, of "[]" before]
      by (simp add: rest_def eff_def)
  next
    case False
    obtain more e where rel: "release_to_run W cfg command opts eff refs dir (var_os W RUN_SESSION_ENV \<noteq> None) (run_session W) = (more, e)"
      by force
    have e: "e = Launched l" "rows = before @ more" using rest False rel by (simp_all add: rest_def)
    show thesis
    proof (cases "wo_assume_yes opts")
      case True
      then obtain resolved where "resolve_refs_client_side W cfg refs None = Inr resolved"
        "launch_run eff W command (wo_raw opts) dir (run_session W) resolved = Launched l"
        using rel e by (auto simp: release_to_run_def split: sum.splits)
      then show thesis
        using that [OF cfg ef refs [unfolded eff_def] dir, of resolved before] False True rel e
        by (simp add: release_to_run_def eff_def)
    next
      case no: False
      define ask where "ask = ask_of_run W cfg command refs dir (var_os W RUN_SESSION_ENV \<noteq> None) (run_session W)"
      obtain k where k: "request_consent (rw_host W) ask = Inr k"
        using rel e no by (cases "request_consent (rw_host W) ask") (auto simp: release_to_run_def ask_def)
      have a: "approved (co_decision k)" "more = [outcome_row W ''run'' command (map fst refs) k]"
        "launch_run eff W command (wo_raw opts) dir (run_session W) (filter_to_refs (co_secrets k) refs) = Launched l"
        using rel e no k by (auto simp: release_to_run_def ask_def split: if_splits)
      show thesis
        by (rule that [OF cfg ef refs [unfolded eff_def] dir, of "filter_to_refs (co_secrets k) refs" before])
          (use False no a k e in \<open>auto simp: ask_def eff_def\<close>)
    qed
  qed
qed

lemma child_env_launch_run:
  assumes l: "Launched l = launch_run (effective_env (rw_vars W) envfile) W command raw dir session resolved"
  shows "child_env W l name = (if name = RUN_SESSION_ENV then Some session
    else case map_of (rev resolved) name of Some v \<Rightarrow> Some v
    | None \<Rightarrow> (case map_of (rev (rw_vars W)) name of Some v \<Rightarrow> Some v | None \<Rightarrow> map_of (rev envfile) name))"
proof -
  define eff where "eff = effective_env (rw_vars W) envfile"
  define P where "P = (\<lambda>(k, v::string). k \<notin> fst ` set resolved \<and> k \<notin> fst ` set (rw_vars W))"
  have d: "distinct (map fst eff)" unfolding eff_def by (rule bt_wf_distinct [OF effective_env_wf])
  have dP: "distinct (map fst (filter P eff))" by (rule distinct_map_filter [OF d])
  have fl: "map_of (rev (filter P eff)) name
      = (if name \<in> fst ` set resolved \<or> name \<in> fst ` set (rw_vars W) then None else map_of eff name)"
  proof (cases "name \<in> fst ` set resolved \<or> name \<in> fst ` set (rw_vars W)")
    case True
    then have "name \<notin> fst ` set (rev (filter P eff))" by (force simp: P_def)
    then show ?thesis using True by (simp only: map_of_eq_None_iff if_True simp_thms)
  next
    case False
    have "P (name, v)" for v using False by (simp add: P_def)
    then have "map_of (filter P eff) name = map_of eff name" by (induction eff) auto
    then show ?thesis using False map_of_rev_eq [OF dP] by simp
  qed
  have none: "map_of (rev xs) name = None \<longleftrightarrow> name \<notin> fst ` set xs" for xs :: "(string \<times> string) list"
    by (simp add: map_of_eq_None_iff)
  have ov: "la_overrides l = resolved @ filter P eff @ [(RUN_SESSION_ENV, session)]"
    using l by (simp add: launch_run_def build_overrides_def P_def eff_def)
  have e: "map_of eff name = (case map_of (rev (rw_vars W)) name of Some v \<Rightarrow> Some v | None \<Rightarrow> map_of (rev envfile) name)"
    unfolding eff_def by (rule effective_env_get)
  show ?thesis
    unfolding child_env_def ov
    using none [of resolved] none [of "rw_vars W"]
    by (auto simp: map_add_def fl e split: option.splits)
qed

lemma assemble_names: "assemble plan outs = Inr rs \<Longrightarrow> map rs_name rs = map sr_name plan"
proof (induction plan arbitrary: outs rs)
  case (Cons r plan)
  obtain x xs where "rs = x # xs" "rs_name x = sr_name r" "assemble plan (AList.delete (sr_name r) outs) = Inr xs"
    using Cons.prems
    by (cases "assemble plan (AList.delete (sr_name r) outs)") (auto simp: Let_def split: RetrieveOutcome.splits option.splits)
  with Cons.IH show ?case by simp
qed simp

lemma resolve_refs_client_side_names:
  assumes "resolve_refs_client_side W cfg refs reason = Inr resolved"
  shows "map fst resolved = map fst refs"
proof -
  obtain rows stats where r: "resolve_all (rw_run W) \<lparr>mf_providers = cfg_providers cfg\<rparr> (client_plan refs reason) = Inr (rows, stats)"
    "resolved = map (\<lambda>r. (rs_name r, rs_value r)) rows"
    using assms by (auto simp: resolve_refs_client_side_def split: sum.splits)
  from resolve_all_Inr [OF r(1)] assemble_names have "map rs_name rows = map sr_name (client_plan refs reason)" by blast
  then show ?thesis by (simp add: r(2) client_plan_def comp_def case_prod_beta)
qed

section \<open>The arguments behind a shim\<close>

text \<open>No option of secreq's own before a \<open>--\<close>.\<close>

definition plain_args :: "string list \<Rightarrow> bool" where
  "plain_args args \<longleftrightarrow> list_all (\<lambda>t. \<not> starts_with t ''--sq-'') (takeWhile (\<lambda>t. t \<noteq> ''--'') args)"

lemma parse_x_rest:
  "\<not> xs_extracting x \<Longrightarrow> xs_wrap x = Some w \<Longrightarrow> parse_x_loop x argv =
    XRun \<lparr>xi_wrap = w, xi_args = xs_args x @ argv, xi_config = xs_config x, xi_opts = xs_opts x\<rparr>"
  by (induction argv arbitrary: x) (simp_all add: x_forward_def)

lemma not_sq: "\<not> starts_with t ''--sq-'' \<Longrightarrow> t \<noteq> ''--sq-help'' \<and> t \<noteq> ''--sq-raw'' \<and> t \<noteq> ''--sq-yes''
    \<and> t \<noteq> ''--sq-no-remember'' \<and> t \<noteq> ''--sq-config'' \<and> \<not> starts_with t ''--sq-config=''"
  by (auto simp: starts_with_iff)

lemma parse_x_args:
  "xs_extracting x \<Longrightarrow> xs_wrap x = Some w \<Longrightarrow> plain_args argv \<Longrightarrow> parse_x_loop x argv =
    XRun \<lparr>xi_wrap = w, xi_args = xs_args x @ argv, xi_config = xs_config x, xi_opts = xs_opts x\<rparr>"
proof (induction argv arbitrary: x)
  case (Cons t argv)
  show ?case
  proof (cases "t = ''--''")
    case True
    then show ?thesis using Cons.prems by (simp add: parse_x_rest)
  next
    case False
    then have "\<not> starts_with t ''--sq-''" "plain_args argv"
      using Cons.prems(3) by (simp_all add: plain_args_def)
    then show ?thesis using not_sq [of t] False Cons by (simp add: x_forward_def)
  qed
qed simp

section \<open>Properties\<close>

text \<open>C7. \<open>secreq x\<close> launches a child with values only after an approval: the one the user gave on the command
  line, or a daemon's reply to an ask that names the variables of this wrap. The one row written
  says so before the child starts, and the program is the first on \<open>PATH\<close> that is no shim.\<close>

theorem nothing_is_injected_without_approval:
  assumes "wrap_run W binary args opts cp = (rows, Launched l)"
  shows "\<exists>cfg w e real. load_config_or_default W cp = Inr cfg \<and> map_of (cfg_wraps cfg) binary = Some w
    \<and> rows = [e] \<and> ae_secrets e = env_names (unsatisfied W w)
    \<and> find_real_binary (rw_disk W) (var_os W ''PATH'') binary (cfg_shim_dir cfg) = Some real \<and> la_command l = real # args
    \<and> (wo_assume_yes opts \<and> ae_decision e = decision_as_str Approve
        \<and> resolve_wrap_env W cfg (unsatisfied W w) = Inr (la_overrides l)
      \<or> \<not> wo_assume_yes opts \<and> (\<exists>l' ask d. he_connect (rw_host W) = Some l' \<and> l' (AskMsg ask) = Some (DecisionMsg d)
        \<and> approved (dr_decision d) \<and> ae_decision e = decision_as_str (dr_decision d) \<and> la_overrides l = dr_secrets d
        \<and> map sk_name (secrets ask) = env_names (unsatisfied W w)))"
proof -
  obtain cfg w where
    cfg: "load_config_or_default W cp = Inr cfg" "map_of (cfg_wraps cfg) binary = Some w"
    and real: "\<exists>real. find_real_binary (rw_disk W) (var_os W ''PATH'') binary (cfg_shim_dir cfg) = Some real \<and> la_command l = real # args"
    and masked: "la_masked l = (if wo_raw opts then [] else map snd (la_overrides l))"
    and ways: "wo_assume_yes opts \<and> rows = [plain_row W binary args (env_names (unsatisfied W w))]
       \<and> resolve_wrap_env W cfg (unsatisfied W w) = Inr (la_overrides l)
     \<or> \<not> wo_assume_yes opts \<and> (\<exists>c. obtain_wrap_consent W (unsatisfied W w) args opts = Inr c \<and> approved (co_decision c)
       \<and> rows = [outcome_row W binary args (env_names (unsatisfied W w)) c] \<and> la_overrides l = co_secrets c)"
    by (rule wrap_run_Launched [OF assms])
  define names where "names = env_names (unsatisfied W w)"
  obtain real where r: "find_real_binary (rw_disk W) (var_os W ''PATH'') binary (cfg_shim_dir cfg) = Some real"
    "la_command l = real # args" using real by blast
  show ?thesis
  proof (cases "wo_assume_yes opts")
    case True
    define e where "e = plain_row W binary args names"
    have e: "ae_secrets e = names" "ae_decision e = decision_as_str Approve" by (simp_all add: e_def plain_row_def audit_new_def)
    show ?thesis
      by (intro exI [of _ cfg] exI [of _ w] exI [of _ e] exI [of _ real] conjI disjI1)
        (use ways True cfg r e in \<open>simp_all add: e_def names_def\<close>)
  next
    case False
    then obtain c where c: "obtain_wrap_consent W (unsatisfied W w) args opts = Inr c"
      and ok: "approved (co_decision c)" and rows: "rows = [outcome_row W binary args names c]"
      and l: "la_overrides l = co_secrets c" using ways unfolding names_def by blast
    from obtain_wrap_consent_Inr [OF c] obtain dir cfg0 refs where
      refs: "wrap_refs cfg0 (unsatisfied W w) = Inr refs"
      and req: "request_consent (rw_host W) (wrap_ask W cfg0 (unsatisfied W w) args opts dir refs) = Inr c" by blast
    define ask where "ask = wrap_ask W cfg0 (unsatisfied W w) args opts dir refs"
    have asked: "map sk_name (secrets ask) = names"
      unfolding ask_def wrap_ask_def secrets_build_ask sk_names names_def by (simp add: wrap_refs_names [OF refs])
    obtain l' d where d: "he_connect (rw_host W) = Some l'" "l' (AskMsg ask) = Some (DecisionMsg d)"
        "dr_decision d = co_decision c" "dr_secrets d = co_secrets c"
      using approval_was_replied [OF req ok] unfolding ask_def by blast
    define e where "e = outcome_row W binary args names c"
    have e: "ae_secrets e = names" "ae_decision e = decision_as_str (co_decision c)"
      by (simp_all add: e_def outcome_row_def audit_new_def with_reason_def with_rule_id_def with_approvers_def
          with_deciding_device_def)
    have "\<exists>l' ask d. he_connect (rw_host W) = Some l' \<and> l' (AskMsg ask) = Some (DecisionMsg d)
        \<and> approved (dr_decision d) \<and> ae_decision e = decision_as_str (dr_decision d) \<and> la_overrides l = dr_secrets d
        \<and> map sk_name (secrets ask) = names"
      by (intro exI [of _ l'] exI [of _ ask] exI [of _ d] conjI) (simp_all add: d asked e l ok)
    then show ?thesis
      by (intro exI [of _ cfg] exI [of _ w] exI [of _ e] exI [of _ real] conjI disjI2)
        (use cfg r e rows False in \<open>simp_all add: e_def names_def\<close>)
  qed
qed

text \<open>C20. What \<open>secreq x\<close> runs without an approval has nothing to release: it is already inside a
  resolution, no wrap of that name exists, or the wrap injects variables and the environment holds
  a value for each. A wrap that only gates its binary never gets here, and no row is written.\<close>

theorem unprompted_commands_hold_nothing:
  assumes "wrap_run W binary args opts cp = (rows, Replaced real a)"
  shows "rows = [] \<and> a = args \<and> (\<exists>cfg. load_config_or_default W cp = Inr cfg
    \<and> find_real_binary (rw_disk W) (var_os W ''PATH'') binary (cfg_shim_dir cfg) = Some real
    \<and> (var_os W RESOLVING_ENV \<noteq> None \<or> map_of (cfg_wraps cfg) binary = None
      \<or> (\<exists>w. map_of (cfg_wraps cfg) binary = Some w \<and> env_names w \<noteq> [] \<and> (\<forall>n \<in> set (env_names w). parent_env_satisfies W n))))"
proof -
  obtain cfg where cfg: "load_config_or_default W cp = Inr cfg"
    using assms by (cases "load_config_or_default W cp") (auto simp: wrap_run_def)
  have all: "env_names w \<noteq> [] \<and> (\<forall>n \<in> set (env_names w). parent_env_satisfies W n)"
    if "\<not> is_gate_only w" "is_gate_only (unsatisfied W w)" for w
    using that by (auto simp: is_gate_only_def unsatisfied_def env_names_def filter_empty_conv)
  show ?thesis
  proof (cases "var_os W RESOLVING_ENV \<noteq> None \<or> map_of (cfg_wraps cfg) binary = None")
    case True
    then show ?thesis using assms cfg
      by (auto simp: wrap_run_def passthrough_Replaced split: if_splits option.splits)
  next
    case False
    then obtain w where w: "map_of (cfg_wraps cfg) binary = Some w" "var_os W RESOLVING_ENV = None" by auto
    show ?thesis
    proof (cases "\<not> is_gate_only w \<and> is_gate_only (unsatisfied W w)")
      case True
      then have "env_names w \<noteq> [] \<and> (\<forall>n \<in> set (env_names w). parent_env_satisfies W n)" using all by blast
      then show ?thesis using assms cfg w True by (auto simp: wrap_run_def passthrough_Replaced)
    next
      case False
      then show ?thesis using assms cfg w launch_wrap_not_Replaced
        by (auto simp: wrap_run_def Let_def split: if_splits sum.splits)
    qed
  qed
qed

text \<open>C16. However the output of a wrapped child is cut into chunks, what reaches the terminal is the
  output with whole occurrences of injected values masked, and no byte passed on starts an
  occurrence of one; unless the user asked for \<open>--raw\<close>.\<close>

theorem a_wrapped_child_cannot_print_its_secrets:
  assumes "wrap_run W binary args opts cp = (rows, Launched l)" "\<not> wo_raw opts"
    and "(name, v) \<in> set (la_overrides l)" "v \<noteq> []"
  shows "\<exists>ts. pump l chunks = Some (output_of DEFAULT_MASK ts) \<and> source_of ts = concat chunks
    \<and> (\<forall>us b vs. ts = us @ tok.Raw b # vs \<longrightarrow> \<not> starts_with (b # source_of vs) (byte_string v))"
proof -
  have "la_masked l = map snd (la_overrides l)"
    by (rule wrap_run_Launched [OF assms(1)]) (use assms(2) in simp)
  then have "byte_string v \<in> set (map byte_string (la_masked l))" using assms(3) by force
  moreover have "byte_string v \<noteq> []" using assms(4) by (simp add: byte_string_def)
  ultimately show ?thesis
    using mask_stream_redacts [of "map byte_string (la_masked l)" DEFAULT_MASK chunks]
    unfolding pump_def masker_new_def by blast
qed

text \<open>C15. The child of a \<open>secreq run\<close> gets the command as given and exactly this environment: the run's session,
  then a value for a reference of the environment that the ask (or the client's own resolution)
  named, then what was inherited, then the \<open>.env\<close> files. Values come only after an approval, and
  a variable that still holds a reference is one the approval left out.\<close>

theorem a_run_child_sees_its_effective_environment:
  assumes "run_command W command files opts pr cp = (rows, Launched l)" "var_os W RESOLVING_ENV = None"
  shows "\<exists>cfg envfile refs resolved. load_config_or_default W cp = Inr cfg \<and> read_env_files W files = Inr envfile
    \<and> scan_env_refs cfg (effective_env (rw_vars W) envfile) = Inr refs \<and> la_command l = command
    \<and> (\<forall>name. child_env W l name = (if name = RUN_SESSION_ENV then Some (run_session W)
        else case map_of (rev resolved) name of Some v \<Rightarrow> Some v
        | None \<Rightarrow> (case map_of (rev (rw_vars W)) name of Some v \<Rightarrow> Some v | None \<Rightarrow> map_of (rev envfile) name)))
    \<and> (\<forall>name v. child_env W l name = Some v \<and> looks_like_ref v \<and> name \<noteq> RUN_SESSION_ENV \<longrightarrow> name \<in> fst ` set refs)
    \<and> (wo_assume_yes opts \<and> map fst resolved = map fst refs \<or> refs = [] \<and> resolved = []
      \<or> (\<exists>l' ask d. he_connect (rw_host W) = Some l' \<and> l' (AskMsg ask) = Some (DecisionMsg d) \<and> approved (dr_decision d)
          \<and> map sk_name (secrets ask) = map fst refs \<and> resolved = filter_to_refs (dr_secrets d) refs))"
proof -
  obtain cfg envfile refs dir before resolved where cfg: "load_config_or_default W cp = Inr cfg"
    and ef: "read_env_files W files = Inr envfile"
    and refs: "scan_env_refs cfg (effective_env (rw_vars W) envfile) = Inr refs" and "rw_cwd W = Some dir"
    and l: "Launched l = launch_run (effective_env (rw_vars W) envfile) W command (refs \<noteq> [] \<and> wo_raw opts) dir (run_session W) resolved"
    and ways: "refs = [] \<and> resolved = [] \<and> rows = before
     \<or> refs \<noteq> [] \<and> wo_assume_yes opts \<and> rows = before @ [plain_row W ''run'' command (map fst refs)]
        \<and> resolve_refs_client_side W cfg refs None = Inr resolved
     \<or> refs \<noteq> [] \<and> \<not> wo_assume_yes opts \<and> (\<exists>c. request_consent (rw_host W) (ask_of_run W cfg command refs dir
          (var_os W RUN_SESSION_ENV \<noteq> None) (run_session W)) = Inr c \<and> approved (co_decision c)
        \<and> rows = before @ [outcome_row W ''run'' command (map fst refs) c] \<and> resolved = filter_to_refs (co_secrets c) refs)"
    by (rule run_command_Launched [OF assms])
  note env = child_env_launch_run [OF l]
  have origin: "wo_assume_yes opts \<and> map fst resolved = map fst refs \<or> refs = [] \<and> resolved = []
      \<or> (\<exists>l' ask d. he_connect (rw_host W) = Some l' \<and> l' (AskMsg ask) = Some (DecisionMsg d) \<and> approved (dr_decision d)
          \<and> map sk_name (secrets ask) = map fst refs \<and> resolved = filter_to_refs (dr_secrets d) refs)"
  proof (cases "refs = [] \<or> wo_assume_yes opts")
    case True
    then show ?thesis using ways resolve_refs_client_side_names by blast
  next
    case False
    define ask where "ask = ask_of_run W cfg command refs dir (var_os W RUN_SESSION_ENV \<noteq> None) (run_session W)"
    obtain c where c: "request_consent (rw_host W) ask = Inr c" "approved (co_decision c)"
        "resolved = filter_to_refs (co_secrets c) refs" using ways False unfolding ask_def by blast
    from approval_was_replied [OF c(1,2)] obtain l' d where d: "he_connect (rw_host W) = Some l'"
      "l' (AskMsg ask) = Some (DecisionMsg d)" "dr_decision d = co_decision c" "dr_secrets d = co_secrets c" by blast
    have "map sk_name (secrets ask) = map fst refs" unfolding ask_def by (rule ask_of_run_names)
    with c d show ?thesis by metis
  qed
  have sub: "fst ` set resolved \<subseteq> fst ` set refs"
  proof -
    have "fst ` set resolved = fst ` set refs" if "map fst resolved = map fst refs"
      using that by (metis list.set_map)
    then show ?thesis using origin by (auto simp: filter_to_refs_def)
  qed
  have "name \<in> fst ` set refs"
    if "child_env W l name = Some v" "looks_like_ref v" "name \<noteq> RUN_SESSION_ENV" for name v
  proof (cases "name \<in> fst ` set resolved")
    case False
    then have "map_of (rev resolved) name = None" by (simp add: map_of_eq_None_iff)
    then have "map_of (effective_env (rw_vars W) envfile) name = Some v"
      using that(1,3) by (simp add: env effective_env_get)
    then show ?thesis using scan_env_refs_names [OF refs] that(2) by (auto dest: map_of_SomeD)
  qed (use sub in blast)
  moreover have "la_command l = command" using l by (simp add: launch_run_def)
  ultimately show ?thesis using cfg ef refs env origin by blast
qed

text \<open>C40. With \<open>--sq-config\<close>, the wrap comes from the file named, and the references that the ask names for its
  variables come from the default configuration: \<open>obtain_wrap_consent\<close> loads that one. So a child
  gets values for references its own configuration does not mention.\<close>

theorem references_come_from_the_default_config:
  assumes "wrap_run W binary args opts (Some p) = (rows, Launched l)" "\<not> wo_assume_yes opts"
  shows "\<exists>cfg w cfg0 refs dir l' d. load_config_or_default W (Some p) = Inr cfg \<and> map_of (cfg_wraps cfg) binary = Some w
    \<and> load_config_or_default W None = Inr cfg0 \<and> wrap_refs cfg0 (unsatisfied W w) = Inr refs
    \<and> he_connect (rw_host W) = Some l'
    \<and> l' (AskMsg (wrap_ask W cfg0 (unsatisfied W w) args opts dir refs)) = Some (DecisionMsg d)
    \<and> la_overrides l = dr_secrets d"
proof -
  obtain cfg w where cfg: "load_config_or_default W (Some p) = Inr cfg" "map_of (cfg_wraps cfg) binary = Some w"
    and ways: "wo_assume_yes opts \<and> rows = [plain_row W binary args (env_names (unsatisfied W w))]
       \<and> resolve_wrap_env W cfg (unsatisfied W w) = Inr (la_overrides l)
     \<or> \<not> wo_assume_yes opts \<and> (\<exists>c. obtain_wrap_consent W (unsatisfied W w) args opts = Inr c \<and> approved (co_decision c)
       \<and> rows = [outcome_row W binary args (env_names (unsatisfied W w)) c] \<and> la_overrides l = co_secrets c)"
    by (rule wrap_run_Launched [OF assms(1)])
  then obtain c where c: "obtain_wrap_consent W (unsatisfied W w) args opts = Inr c" "approved (co_decision c)"
      "la_overrides l = co_secrets c" using assms(2) by blast
  obtain dir cfg0 refs where r: "load_config_or_default W None = Inr cfg0" "wrap_refs cfg0 (unsatisfied W w) = Inr refs"
    and req: "request_consent (rw_host W) (wrap_ask W cfg0 (unsatisfied W w) args opts dir refs) = Inr c"
    by (rule obtain_wrap_consent_Inr [OF c(1)])
  from approval_was_replied [OF req c(2)] obtain l' d where
    "he_connect (rw_host W) = Some l'" "l' (AskMsg (wrap_ask W cfg0 (unsatisfied W w) args opts dir refs)) = Some (DecisionMsg d)"
    "dr_secrets d = co_secrets c" by blast
  with cfg r c(3) show ?thesis by metis
qed

text \<open>C21. A call through a shim reaches the wrap it is named after with the caller's arguments, unchanged
  and in order: what the shell makes of the line, \<open>secreq x\<close> parses back. The arguments may not
  use secreq's own options, nor may the name look like one.\<close>

theorem a_shim_reaches_its_wrap:
  assumes "validate_wrap_name name" "plain_args (name # args)" "name \<noteq> ''--''"
  shows "\<exists>argv. sh_words args False None (exec_line exe name) = Some (''exec'' # argv) \<and> hd argv = exe
    \<and> parse_x_argv (drop 2 argv) = XRun \<lparr>xi_wrap = name, xi_args = args, xi_config = None,
        xi_opts = \<lparr>wo_raw = False, wo_no_remember = False, wo_assume_yes = False\<rparr>\<rparr>"
proof -
  have "\<not> starts_with name ''--sq-''" "plain_args args" using assms(2,3) by (simp_all add: plain_args_def)
  then have "parse_x_argv (name # args) = XRun \<lparr>xi_wrap = name, xi_args = args, xi_config = None,
        xi_opts = \<lparr>wo_raw = False, wo_no_remember = False, wo_assume_yes = False\<rparr>\<rparr>"
    using not_sq [of name] assms(3) by (simp add: parse_x_argv_def x_start_def x_forward_def parse_x_args)
  then show ?thesis by (simp add: exec_line_words)
qed

section \<open>Concrete instances\<close>

text \<open>A wrap whose variable the default configuration declares for another reference.\<close>

definition demo_config :: "string \<Rightarrow> WrapsConfig" where
  "demo_config loc = \<lparr>cfg_shim_dir = Some ''/s/'',
     cfg_wraps = [(''gh'', \<lparr>wr_name = ''gh'', wr_reason = None, wr_env_secrets = [''T''], wr_env = []\<rparr>)],
     cfg_secrets = [(''T'', \<lparr>sd_reference = \<lparr>ref_provider = ''op'', ref_locator = loc\<rparr>, sd_ttl = DaemonLifetime\<rparr>)],
     cfg_providers = [], cfg_ssh = [], cfg_wait_indicator = None, cfg_editor = None\<rparr>"

definition demo_line :: line where
  "demo_line m = (case m of AskMsg ask \<Rightarrow> (if map sk_locator (secrets ask) = [''other''] then Some (DecisionMsg
      \<lparr>dr_decision = Approve, dr_secrets = map (\<lambda>s. (sk_name s, ''pw'')) (secrets ask), dr_deciding_device = None, dr_rule_id = None, dr_rule_name = None,
       dr_reason = None, dr_declared_by = None, dr_approvers = []\<rparr>) else None) | _ \<Rightarrow> None)"

definition demo_run :: run_world where
  "demo_run = \<lparr>rw_host = \<lparr>he_env = (\<lambda>_. None), he_macos = True, he_connect = Some demo_line\<rparr>,
     rw_vars = [(''PATH'', ''/s:/b''), (''K'', ''secret://op/other'')],
     rw_file = (\<lambda>p. if p = ''/c'' then Text ''c'' else if p = ''/d'' then Text ''d'' else Absent),
     rw_default_config = Some ''/d'',
     rw_toml = (\<lambda>t. if t = ''c'' then Some (demo_config ''mine'') else Some (demo_config ''other'')),
     rw_dotenv = (\<lambda>_. None), rw_disk = demo_disk, rw_cwd = Some ''/w'',
     rw_chain = \<lparr>cc_frames = [\<lparr>ca_pid = 7, ca_name = [], ca_command = [], ca_exe = None, ca_start_time = 1\<rparr>], cc_truncated = False\<rparr>,
     rw_now = 5, rw_run = (\<lambda>_. run_result.NotStarted), rw_probe = (\<lambda>_. run_result.NotStarted), rw_prompt = (\<lambda>_. None),
     rw_pid = 9, rw_nonce = 3\<rparr>"

definition demo_opts :: WrapRunOpts where
  "demo_opts = \<lparr>wo_raw = False, wo_no_remember = False, wo_assume_yes = False\<rparr>"

lemma demo_load:
  "load_config_or_default demo_run (Some ''/c'') = Inr (merge_builtin_providers (demo_config ''mine''))"
  "load_config_or_default demo_run None = Inr (merge_builtin_providers (demo_config ''other''))"
proof -
  have "config_parse (rw_toml demo_run) ''c'' = Inr (demo_config ''mine'')"
    "config_parse (rw_toml demo_run) ''d'' = Inr (demo_config ''other'')"
    by (simp_all add: demo_run_def config_parse_def demo_config_def check_declarations_def looks_like_ref_def SCHEME_def
        starts_with_def is_env_var_name_def is_ascii_alphabetic_def)
  then show "load_config_or_default demo_run (Some ''/c'') = Inr (merge_builtin_providers (demo_config ''mine''))"
    "load_config_or_default demo_run None = Inr (merge_builtin_providers (demo_config ''other''))"
    by (simp_all add: load_config_or_default_def) (simp_all add: demo_run_def)
qed

lemma demo_refs: "wrap_refs (merge_builtin_providers (demo_config loc)) \<lparr>wr_name = ''gh'', wr_reason = None, wr_env_secrets = [''T''], wr_env = []\<rparr>
    = Inr [(''T'', \<lparr>rr_reference = \<lparr>ref_provider = ''op'', ref_locator = loc\<rparr>, rr_declared_as = Some ''T'', rr_ttl = DaemonLifetime\<rparr>)]"
  by (simp add: wrap_refs_def merge_builtin_providers_def demo_config_def resolve_form_def ttl_for_def)

lemma demo_vars: "var_os demo_run n = (if n = ''PATH'' then Some ''/s:/b'' else if n = ''K'' then Some ''secret://op/other'' else None)"
  by (simp add: var_os_def demo_run_def)

lemma demo_wrap_run: "\<exists>rows l. wrap_run demo_run ''gh'' [''pr''] demo_opts (Some ''/c'') = (rows, Launched l)
    \<and> la_overrides l = [(''T'', ''pw'')]"
proof -
  define w where "w = \<lparr>wr_name = ''gh'', wr_reason = None, wr_env_secrets = [''T''], wr_env = []\<rparr>"
  have u: "unsatisfied demo_run w = w" by (simp add: unsatisfied_def w_def parent_env_satisfies_def demo_vars)
  have m: "map_of (cfg_wraps (merge_builtin_providers (demo_config x))) ''gh'' = Some w"
    "cfg_shim_dir (merge_builtin_providers (demo_config x)) = Some ''/s/''" for x
    by (simp_all add: merge_builtin_providers_def demo_config_def w_def)
  define c where "c = \<lparr>co_decision = Approve, co_secrets = [(''T'', ''pw'')], co_deciding_device = None, co_rule_id = None,
    co_rule_name = None, co_reason = None, co_declared_by = ScopeDeclarant.NotRead, co_approvers = []\<rparr>"
  have host: "rw_host demo_run = \<lparr>he_env = (\<lambda>_. None), he_macos = True, he_connect = Some demo_line\<rparr>"
    "rw_cwd demo_run = Some ''/w''" "cc_frames (rw_chain demo_run) \<noteq> []" by (simp_all add: demo_run_def)
  have "request_consent (rw_host demo_run) ask = Inr c"
    if "map sk_locator (secrets ask) = [''other'']" "map (\<lambda>s. (sk_name s, ''pw'')) (secrets ask) = [(''T'', ''pw'')]" for ask
    using that by (simp add: request_consent_def host daemon_disabled_def is_set_def graphical_environment_available_def
        send_and_recv_def demo_line_def outcome_of_reply_def c_def)
  then have c: "obtain_wrap_consent demo_run w [''pr''] demo_opts = Inr c"
    by (simp add: obtain_wrap_consent_def host demo_load demo_refs [folded w_def] secrets_build_ask secret_ask_def)
  have disk: "rw_disk demo_run = demo_disk" by (simp add: demo_run_def)
  have go: "launch_wrap demo_run ''gh'' [''pr''] demo_opts (Some ''/s/'') (co_secrets c) = Launched \<lparr>la_command = [''/b/gh'', ''pr''],
      la_overrides = [(''T'', ''pw'')], la_masked = [''pw''], la_cwd = ''/w''\<rparr>"
    by (simp add: launch_wrap_def disk demo_vars demo_real host demo_opts_def c_def)
  have "co_decision c = Approve" by (simp add: c_def)
  then have "wrap_run demo_run ''gh'' [''pr''] demo_opts (Some ''/c'')
      = ([outcome_row demo_run ''gh'' [''pr''] (env_names w) c], launch_wrap demo_run ''gh'' [''pr''] demo_opts (Some ''/s/'') (co_secrets c))"
    by (simp add: wrap_run_def demo_load m u c Let_def is_gate_only_def demo_vars RESOLVING_ENV_def)
      (simp add: demo_opts_def w_def)
  then show ?thesis using go by simp
qed

text \<open>A run whose environment holds a reference.\<close>

lemma demo_effective: "effective_env (rw_vars demo_run) [] = [(''K'', ''secret://op/other''), (''PATH'', ''/s:/b'')]"
proof -
  have "effective_env [(''PATH'', ''/s:/b''), (''K'', ''secret://op/other'')] [] = [(''K'', ''secret://op/other''), (''PATH'', ''/s:/b'')]"
    by code_simp
  then show ?thesis by (simp add: demo_run_def)
qed

lemma demo_scan: "scan_env_refs (merge_builtin_providers (demo_config x)) [(''K'', ''secret://op/other''), (''PATH'', ''/s:/b'')]
    = Inr [(''K'', \<lparr>rr_reference = \<lparr>ref_provider = ''op'', ref_locator = ''other''\<rparr>, rr_declared_as = None,
        rr_ttl = DaemonLifetime\<rparr>)]"
proof -
  have "looks_like_ref ''secret://op/other''" "\<not> looks_like_ref ''/s:/b''"
    "parse_form ''secret://op/other'' = Some (Direct \<lparr>ref_provider = ''op'', ref_locator = ''other''\<rparr>)" by code_simp+
  moreover have "ttl_for (merge_builtin_providers (demo_config x)) r = DaemonLifetime" for r
    by (simp add: ttl_for_def merge_builtin_providers_def demo_config_def)
  ultimately show ?thesis by (simp add: resolve_ref_def resolve_form_def)
qed

lemma demo_run_command: "\<exists>rows l. run_command demo_run [''env''] [] demo_opts False (Some ''/c'') = (rows, Launched l)"
proof -
  define refs where "refs = [(''K'', \<lparr>rr_reference = \<lparr>ref_provider = ''op'', ref_locator = ''other''\<rparr>, rr_declared_as = None :: string option,
        rr_ttl = DaemonLifetime\<rparr>)]"
  define cfg where "cfg = merge_builtin_providers (demo_config ''mine'')"
  define eff where "eff = effective_env (rw_vars demo_run) []"
  have scan: "scan_env_refs cfg eff = Inr refs" unfolding eff_def demo_effective cfg_def refs_def by (rule demo_scan)
  have utf: "list_all (\<lambda>(k, v). utf8_ok k \<and> utf8_ok v) (rw_vars demo_run)"
  proof -
    have "list_all (\<lambda>(k, v). utf8_ok k \<and> utf8_ok v) [(''PATH'', ''/s:/b''), (''K'', ''secret://op/other'')]" by code_simp
    then show ?thesis by (simp only: demo_run_def run_world.simps)
  qed
  have host: "rw_host demo_run = \<lparr>he_env = (\<lambda>_. None), he_macos = True, he_connect = Some demo_line\<rparr>"
    "rw_cwd demo_run = Some ''/w''" by (simp_all add: demo_run_def)
  have sec: "secrets (ask_of_run demo_run cfg [''env''] refs ''/w'' False s) = map (secret_ask None) refs" for s
    unfolding ask_of_run_def Let_def by (simp add: secrets_wrap_mut build_ask_def)
  define ask where "ask = ask_of_run demo_run cfg [''env''] refs ''/w'' False (run_session demo_run)"
  have "map sk_locator (secrets ask) = [''other'']" unfolding ask_def sec by (simp add: refs_def secret_ask_def)
  then have "\<exists>c. request_consent (rw_host demo_run) ask = Inr c \<and> co_decision c = Approve"
    by (simp add: request_consent_def host daemon_disabled_def is_set_def graphical_environment_available_def
        send_and_recv_def demo_line_def outcome_of_reply_def)
  then obtain c where c: "request_consent (rw_host demo_run) (ask_of_run demo_run cfg [''env''] refs ''/w'' False (run_session demo_run)) = Inr c"
    "co_decision c = Approve" unfolding ask_def by blast
  have nested: "var_os demo_run RUN_SESSION_ENV = None" "var_os demo_run RESOLVING_ENV = None"
    by (simp_all add: demo_vars RUN_SESSION_ENV_def RESOLVING_ENV_def)
  have rel: "\<exists>rows l. release_to_run demo_run cfg [''env''] demo_opts eff refs ''/w'' False (run_session demo_run) = (rows, Launched l)"
    using c unfolding release_to_run_def by (simp add: launch_run_def) (simp add: demo_opts_def)
  have "refs \<noteq> []" by (simp add: refs_def)
  then show ?thesis
    using rel scan
    by (auto simp: run_command_def demo_load cfg_def [symmetric] nested utf eff_def [symmetric] host Let_def split: prod.splits)
qed

theorem a_run_child_sees_its_effective_environment_witness:
  "\<exists>rows l. run_command demo_run [''env''] [] demo_opts False (Some ''/c'') = (rows, Launched l)
    \<and> la_command l = [''env''] \<and> child_env demo_run l RUN_SESSION_ENV = Some (run_session demo_run)"
proof -
  obtain rows l where r: "run_command demo_run [''env''] [] demo_opts False (Some ''/c'') = (rows, Launched l)"
    using demo_run_command by blast
  have "var_os demo_run RESOLVING_ENV = None" by (simp add: demo_vars RESOLVING_ENV_def)
  from a_run_child_sees_its_effective_environment [OF r this] obtain resolved envfile where
    "la_command l = [''env'']" "\<forall>name. child_env demo_run l name = (if name = RUN_SESSION_ENV then Some (run_session demo_run)
        else case map_of (rev resolved) name of Some v \<Rightarrow> Some v
        | None \<Rightarrow> (case map_of (rev (rw_vars demo_run)) name of Some v \<Rightarrow> Some v | None \<Rightarrow> map_of (rev envfile) name))"
    by blast
  with r show ?thesis by simp
qed

theorem unprompted_commands_hold_nothing_witness:
  "wrap_run (demo_run\<lparr>rw_vars := [(''PATH'', ''/s:/b''), (''T'', ''x'')]\<rparr>) ''gh'' [''pr''] demo_opts (Some ''/c'')
     = ([], Replaced ''/b/gh'' [''pr''])
   \<and> parent_env_satisfies (demo_run\<lparr>rw_vars := [(''PATH'', ''/s:/b''), (''T'', ''x'')]\<rparr>) ''T''"
proof -
  define W where "W = demo_run\<lparr>rw_vars := [(''PATH'', ''/s:/b''), (''T'', ''x'')]\<rparr>"
  define w where "w = \<lparr>wr_name = ''gh'', wr_reason = None, wr_env_secrets = [''T''], wr_env = []\<rparr>"
  have load: "load_config_or_default W cp = load_config_or_default demo_run cp" for cp
  proof -
    have "rw_default_config W = rw_default_config demo_run" "rw_file W = rw_file demo_run" "rw_toml W = rw_toml demo_run"
      by (simp_all add: W_def)
    then show ?thesis by (simp only: load_config_or_default_def)
  qed
  have vars: "var_os W n = (if n = ''PATH'' then Some ''/s:/b'' else if n = ''T'' then Some ''x'' else None)" for n
    by (simp add: var_os_def W_def)
  have lr: "\<not> looks_like_ref ''x''" by code_simp
  have m: "map_of (cfg_wraps (merge_builtin_providers (demo_config x))) ''gh'' = Some w"
    "cfg_shim_dir (merge_builtin_providers (demo_config x)) = Some ''/s/''" for x
    by (simp_all add: merge_builtin_providers_def demo_config_def w_def)
  have disk: "rw_disk W = demo_disk" by (simp add: demo_run_def W_def)
  have g: "\<not> is_gate_only w" "is_gate_only (unsatisfied W w)"
    by (simp_all add: is_gate_only_def unsatisfied_def w_def parent_env_satisfies_def vars lr)
  have r: "wrap_run W ''gh'' [''pr''] demo_opts (Some ''/c'') = ([], Replaced ''/b/gh'' [''pr''])"
    by (simp add: wrap_run_def load demo_load vars m g passthrough_unwrapped_def disk demo_real RESOLVING_ENV_def)
  from unprompted_commands_hold_nothing [OF r] have "parent_env_satisfies W ''T''"
    by (auto simp: load demo_load m vars RESOLVING_ENV_def env_names_def w_def)
  with r show ?thesis unfolding W_def by blast
qed

theorem nothing_is_injected_without_approval_witness:
  "\<exists>rows l e. wrap_run demo_run ''gh'' [''pr''] demo_opts (Some ''/c'') = (rows, Launched l) \<and> rows = [e]
    \<and> la_overrides l = [(''T'', ''pw'')]"
proof -
  obtain rows l where r: "wrap_run demo_run ''gh'' [''pr''] demo_opts (Some ''/c'') = (rows, Launched l)"
    "la_overrides l = [(''T'', ''pw'')]" using demo_wrap_run by blast
  from nothing_is_injected_without_approval [OF r(1)] r show ?thesis by blast
qed

theorem a_wrapped_child_cannot_print_its_secrets_witness:
  "\<exists>rows l ts. wrap_run demo_run ''gh'' [''pr''] demo_opts (Some ''/c'') = (rows, Launched l)
    \<and> pump l [[1, 112], [119]] = Some (output_of DEFAULT_MASK ts) \<and> source_of ts = [1, 112, 119]"
proof -
  obtain rows l where r: "wrap_run demo_run ''gh'' [''pr''] demo_opts (Some ''/c'') = (rows, Launched l)"
    "la_overrides l = [(''T'', ''pw'')]" using demo_wrap_run by blast
  have "\<not> wo_raw demo_opts" "(''T'', ''pw'') \<in> set (la_overrides l)" "''pw'' \<noteq> []" by (simp_all add: demo_opts_def r)
  from a_wrapped_child_cannot_print_its_secrets [OF r(1) this, of "[[1, 112], [119]]"] r show ?thesis by auto
qed

theorem references_come_from_the_default_config_witness:
  "\<exists>refs dir l' d. wrap_refs (merge_builtin_providers (demo_config ''other'')) (unsatisfied demo_run
      (the (map_of (cfg_wraps (demo_config ''mine'')) ''gh''))) = Inr refs
    \<and> map (ref_locator \<circ> rr_reference \<circ> snd) refs = [''other'']
    \<and> load_config_or_default demo_run (Some ''/c'') = Inr (merge_builtin_providers (demo_config ''mine''))
    \<and> l' (AskMsg (wrap_ask demo_run (merge_builtin_providers (demo_config ''other'')) (unsatisfied demo_run
      (the (map_of (cfg_wraps (demo_config ''mine'')) ''gh''))) [''pr''] demo_opts dir refs)) = Some (DecisionMsg d)"
proof -
  obtain rows l where r: "wrap_run demo_run ''gh'' [''pr''] demo_opts (Some ''/c'') = (rows, Launched l)"
    using demo_wrap_run by blast
  define w where "w = \<lparr>wr_name = ''gh'', wr_reason = None, wr_env_secrets = [''T''], wr_env = []\<rparr>"
  have w: "the (map_of (cfg_wraps (demo_config ''mine'')) ''gh'') = w"
    "map_of (cfg_wraps (merge_builtin_providers (demo_config ''mine''))) ''gh'' = Some w"
    by (simp_all add: demo_config_def w_def merge_builtin_providers_def)
  have u: "unsatisfied demo_run w = w" by (simp add: unsatisfied_def w_def parent_env_satisfies_def demo_vars)
  have "\<not> wo_assume_yes demo_opts" by (simp add: demo_opts_def)
  from references_come_from_the_default_config [OF r this] obtain refs dir l' d where
    x: "wrap_refs (merge_builtin_providers (demo_config ''other'')) (unsatisfied demo_run w) = Inr refs"
      "l' (AskMsg (wrap_ask demo_run (merge_builtin_providers (demo_config ''other'')) (unsatisfied demo_run w) [''pr'']
        demo_opts dir refs)) = Some (DecisionMsg d)"
    unfolding demo_load using w(2) by (auto simp only: sum.inject option.inject)
  have "map (ref_locator \<circ> rr_reference \<circ> snd) refs = [''other'']"
    using x(1) demo_refs [of "''other''", folded w_def] by (auto simp: u)
  then show ?thesis unfolding w using x demo_load(1)
    by (intro exI [of _ refs] exI [of _ dir] exI [of _ l'] exI [of _ d] conjI)
qed

theorem a_shim_reaches_its_wrap_witness:
  "\<exists>argv. sh_words [''a b'', ''--'', ''--sq-yes''] False None (exec_line ''/q'' ''gh'') = Some (''exec'' # argv)
    \<and> parse_x_argv (drop 2 argv) = XRun \<lparr>xi_wrap = ''gh'', xi_args = [''a b'', ''--'', ''--sq-yes''], xi_config = None,
        xi_opts = \<lparr>wo_raw = False, wo_no_remember = False, wo_assume_yes = False\<rparr>\<rparr>"
  using a_shim_reaches_its_wrap [of "''gh''" "[''a b'', ''--'', ''--sq-yes'']" "''/q''"]
  by (auto simp: validate_wrap_name_def plain_args_def starts_with_def)

end
