(* ===== verification/Spec2Isabelle.thy ===== *)
theory Spec2Isabelle
  imports Reference Mask Provenance Consent Proto Provider Resolve Wraps Rules Evaluate Subjects
    Secret_Cache In_Flight Resolution Queue_Properties Rule_Admin Link_Decisions Server_Properties
    Singleton Rule_Stats Rule_Drafts Atomic Ssh_Properties Scoped_Daemon Run_Properties
begin

text \<open>
  secreq is a broker that runs commands with secrets: a wrapped command asks a daemon, a person
  (in a window or on an enrolled phone), a rule or a remembered approval decides, and the daemon
  fetches the values from providers (command line tools) and hands them to the command, whose
  output is masked. The theories model its Rust source under \<open>src/packages/secreq/src\<close>; paths
  below are relative to it.

  \<^bold>\<open>Parts and theories.\<close>
  \<^item> \<open>Prelude\<close>: shared helpers; hash maps and BTree maps as association lists with their laws (the
    locale \<open>rust_map\<close>, interpreted on both), byte strings, number printing.
  \<^item> \<open>Reference\<close> (\<open>reference.rs\<close>), \<open>Wraps\<close> (\<open>wraps.rs\<close>): secret references, TTLs, the configuration
    after TOML decoding, its checks and the resolution of references.
  \<^item> \<open>Mask\<close> (\<open>mask.rs\<close>): the streaming masker of the child's output.
  \<^item> \<open>Provenance\<close> (\<open>provenance.rs\<close>), \<open>Consent\<close> (\<open>consent.rs\<close>), \<open>Proto\<close> and \<open>Messages\<close>
    (\<open>daemon/proto.rs\<close>): caller chains and anchors, decisions and grants, the ask and the messages.
  \<^item> \<open>Provider\<close> (\<open>provider.rs\<close>, \<open>manifest.rs\<close>), \<open>Resolve\<close> (\<open>resolve.rs\<close>): running providers.
  \<^item> \<open>Rules\<close>, \<open>Evaluate\<close>, \<open>Subjects\<close> (\<open>rules.rs\<close>): the rules file, its evaluation, rule subjects.
  \<^item> \<open>Secret_Cache\<close> (\<open>daemon/cache.rs\<close>), \<open>In_Flight\<close> (\<open>daemon/in_flight.rs\<close>), \<open>Resolution\<close>
    (the resolve functions of \<open>daemon/state.rs\<close>): the cache, one resolver per key, and the
    resolution of one ask, of a coalesced card and of a single key over both.
  \<^item> \<open>Link_Projection\<close> (\<open>link/projection.rs\<close>, \<open>link/canonical.rs\<close>), \<open>Link_Devices\<close> (\<open>link/devices.rs\<close>,
    \<open>link/pair.rs\<close>, \<open>link/sig.rs\<close>, \<open>link/nonce.rs\<close>, \<open>link/assets.rs\<close>, parts of \<open>link/lan.rs\<close>): what a
    phone sees and signs, enrolment, signatures and replay protection.
  \<^item> \<open>Audit_Log\<close> (\<open>audit.rs\<close>): the rows, appends and the reader of the log.
  \<^item> \<open>Windows\<close>, \<open>Daemon_State\<close>, \<open>Daemon_Queue\<close> (\<open>daemon/state.rs\<close>): window subscribers, the state
    record \<open>State\<close> with the fields of \<open>struct State\<close>, and the queue operations over it;
    \<open>Queue_Invariants\<close> and \<open>Queue_Properties\<close> prove what holds after any sequence of them.
  \<^item> \<open>Rule_Admin\<close> (the rule methods of \<open>daemon/state.rs\<close>, \<open>edit_rule\<close> of \<open>rules.rs\<close>): loading,
    reloading and editing the rules of the running daemon, registering modules.
  \<^item> \<open>Link_Decisions\<close> (\<open>link/lan.rs\<close>, \<open>link/control.rs\<close>): decisions sent by phones and the control
    object that owns the listener.
  \<^item> \<open>Server\<close> (\<open>daemon/server.rs\<close>, \<open>daemon/mod.rs\<close>): connections, requests, window streams and
    the main loop over one machine (state, files, listener); a \<open>world\<close> says what other threads did
    before each place where a thread takes the mutex. \<open>Server_Properties\<close> shows that a connection
    is a sequence of atomic steps, so the worlds of all threads are such sequences, and that the
    invariants of the queue survive them.
  \<^item> \<open>Atomic\<close> (\<open>atomic.rs\<close>): replacing a file, as a program of system calls interleaved with others.
  \<^item> \<open>Ssh_Proto\<close> (\<open>daemon/ssh_proto.rs\<close>, the frame reader of \<open>daemon/ssh_agent.rs\<close>), \<open>Ssh_Agent\<close>,
    \<open>Ssh_Properties\<close> (\<open>daemon/ssh_agent.rs\<close>): the wire format of the SSH agent, its identities, the
    gated signing flow and the connection, on the same daemon state.
  \<^item> \<open>Scoped_Agent\<close>, \<open>Scoped_Properties\<close> (\<open>scoped_agent/mod.rs\<close>): the agent that a guest asks for single references: its
    allowlist, what of the guest's claims is shown, the gate and the grants of a session; \<open>Scoped_Daemon\<close>
    puts its production gate before the daemon of \<open>Server\<close>.
  \<^item> \<open>Client\<close> (\<open>daemon/client.rs\<close>): the requests of the command line and what it makes of replies.
  \<^item> \<open>Singleton\<close> (\<open>daemon/mod.rs\<close>, \<open>daemon/client.rs\<close>): the pid file, its lock, the status query and the
    force stop as system calls of interleaved processes.
  \<^item> \<open>Rule_Health\<close> (\<open>rule_health.rs\<close>), \<open>Rule_Stats\<close> (\<open>rule_stats.rs\<close>): the check of rule scopes against
    the configuration, and the replay of the audit log through \<open>Evaluate\<close>, compared with the daemon.
  \<^item> \<open>Recommendations\<close> (\<open>recommendations.rs\<close>), \<open>Rule_Drafts\<close> (the rule form of \<open>daemon/ui.rs\<close>): the rules
    suggested from the audit log, and the rule a form saves: it passes the daemon's checks, an
    unchanged edit keeps the rule, and a saved suggestion covers the rows it was made from, with
    the exceptions these lemmas name.
  \<^item> \<open>Shim\<close> (\<open>shim.rs\<close>, \<open>commands/binaries.rs\<close>): shims on a file system, with the directories that
    installing creates, and the binary behind them; \<open>Paths\<close> holds \<open>Path::parent\<close>.
  \<^item> \<open>Command_Run\<close>, \<open>Run_Properties\<close> (\<open>commands/run.rs\<close>, \<open>commands/mod.rs\<close>, parts of \<open>cli.rs\<close> and \<open>exec.rs\<close>):
    \<open>secreq x\<close> and \<open>secreq run\<close>, from their arguments over the ask to the child's environment and the
    masking of its output; the properties compose \<open>Wraps\<close>, \<open>Shim\<close>, \<open>Client\<close>, \<open>Resolve\<close> and \<open>Mask\<close>.

  \<^bold>\<open>Correspondence.\<close> A struct is a record whose field prefix abbreviates its name, an enum a
  datatype, an early return or an error a branch (\<open>option\<close> or a sum). A method on \<open>&mut self\<close>
  returns the new state. What the code reads from outside is an argument: the clock, random
  bytes, file contents, and third-party code (SHA-256, the AEAD, P-256 and base64, glob, TOML and
  JSON decoding, the wasm host, the run of a provider command). What it sends is appended to the
  \<open>st_out\<close> log of effects. Threads are interleavings of atomic steps where locks make them so: in
  \<open>In_Flight\<close> a list of threads stepped in any order, in \<open>Daemon_Queue\<close> the spawned resolver threads
  as jobs that finish in any order.

  \<^bold>\<open>Groups of lemmas.\<close> Every theory proves its components' laws next to its definitions and ends
  with its properties and the concrete instances that show their hypotheses can hold. The
  \<open>core\<close> lemmas of \<open>Queue_Invariants\<close> show each operation without what only windows see, so an
  invariant of the queue has one case per queue operation.

  \<^bold>\<open>Audit rows.\<close> A failed append never stops the code. Where rows are part of a statement about what
  was written (\<open>Scoped_Agent\<close>, \<open>withdraw_waiter\<close>), whether the log takes a row is a parameter and the
  row that was lost is recorded as such; \<open>Ssh_Agent\<close> and \<open>Command_Run\<close> return the row they hand to
  \<open>audit::append\<close>, whose result the code ignores.

  \<^bold>\<open>Not modelled.\<close> The drawing of windows, the declarations of arguments, installation and
  migration of files, the wasm host, the log file, the reading and writing of JSON and TOML text,
  sockets and the terminal: they are input, output or third-party code around the parts above.

  \<^bold>\<open>Bounds and fuel.\<close> No definition uses fuel. Waiting for another thread's slot is a parameter that
  may never return (\<open>None\<close>); theorems that a resolution returns name the condition under which it
  does. \<open>u32\<close> and \<open>u64\<close> saturation is written out on \<open>nat\<close> where the code saturates; addresses are
  machine words.
\<close>

end
